(* ===== verification/Prelude.thy ===== *)
theory Prelude
  imports Main "HOL-Library.Word"
begin

text \<open>
  What every component theory shares: the names of the machine integer types, the result type of
  operations that may abort, the counted loop over results, and the arithmetic facts that move a
  goal about words to natural numbers.
\<close>

unbundle bit_operations_syntax

type_synonym u8 = "8 word"
type_synonym u16 = "16 word"
type_synonym u32 = "32 word"
type_synonym u64 = "64 word"

named_theorems result_simps \<open>equations of the result type and of the counted loop\<close>
named_theorems to_nat \<open>rewrites from words to natural numbers\<close>

section \<open>Results\<close>

text \<open>
  How an operation of the runtime can fail.  \<open>AssertFail\<close> is a failed \<open>ECLIPSE_ASSERT\<close>
  (runtime/include/eclipse_assert.h: the process prints the message and aborts);
  \<open>OutOfBounds\<close> is an access past the end of one of the two memories, which the C++ leaves
  undefined; \<open>BadBool\<close> is reading a \<open>bool\<close> whose byte is neither 0 nor 1, undefined as
  well.  \<open>MissingField\<close> is the exception \<open>std::out_of_range\<close> of \<open>map::at\<close>, and
  \<open>ExitWith\<close> a \<open>return\<close> of \<open>main\<close> with that code.  In the compiler, \<open>VerifyError\<close> is
  \<open>emitOpError\<close> with its message, \<open>NullDeref\<close> the use of a null operation, attribute or cast
  (undefined, or an assertion of LLVM), and \<open>Unreachable\<close> an \<open>llvm_unreachable\<close>.
\<close>

datatype error =
    AssertFail string
  | OutOfBounds
  | BadBool
  | MissingField string
  | ExitWith int
  | VerifyError string
  | NullDeref
  | Unreachable string

type_synonym 'a result = "error + 'a"

definition rbind :: "'a result \<Rightarrow> ('a \<Rightarrow> 'b result) \<Rightarrow> 'b result" where
  "rbind r f = (case r of Inl e \<Rightarrow> Inl e | Inr a \<Rightarrow> f a)"

text \<open>The macro \<open>ECLIPSE_ASSERT\<close> in a build without \<open>NDEBUG\<close>.\<close>

definition eclipse_assert :: "bool \<Rightarrow> string \<Rightarrow> unit result" where
  "eclipse_assert c msg = (if c then Inr () else Inl (AssertFail msg))"

lemma rbind_Inl [simp, result_simps]: "rbind (Inl e) f = Inl e"
  by (simp add: rbind_def)

lemma rbind_Inr [simp, result_simps]: "rbind (Inr a) f = f a"
  by (simp add: rbind_def)

lemma rbind_eq_Inr: "rbind r f = Inr b \<longleftrightarrow> (\<exists>a. r = Inr a \<and> f a = Inr b)"
  by (cases r) auto

lemma rbind_eq_Inl: "rbind r f = Inl e \<longleftrightarrow> r = Inl e \<or> (\<exists>a. r = Inr a \<and> f a = Inl e)"
  by (cases r) auto

lemma rbind_cong [fundef_cong]:
  "r = r' \<Longrightarrow> (\<And>a. r' = Inr a \<Longrightarrow> f a = g a) \<Longrightarrow> rbind r f = rbind r' g"
  by (cases r') auto

lemma rbind_assoc: "rbind (rbind r f) g = rbind r (\<lambda>a. rbind (f a) g)"
  by (cases r) auto

lemma rbind_InrE:
  assumes "rbind r f = Inr b"
  obtains a where "r = Inr a" and "f a = Inr b"
  using assms by (auto simp: rbind_eq_Inr)

lemma eclipse_assert_True [simp, result_simps]: "eclipse_assert True msg = Inr ()"
  by (simp add: eclipse_assert_def)

lemma eclipse_assert_False [simp, result_simps]: "eclipse_assert False msg = Inl (AssertFail msg)"
  by (simp add: eclipse_assert_def)

lemma eclipse_assert_eq_Inr [simp]: "eclipse_assert c msg = Inr u \<longleftrightarrow> c"
  by (simp add: eclipse_assert_def)

section \<open>Counted loops\<close>

text \<open>
  \<open>for (i = 0; i < n; i++) s = body(i, s);\<close> is \<open>fold_result body [0..<n] s\<close>: the first
  failing iteration ends the loop.
\<close>

fun fold_result :: "('a \<Rightarrow> 's \<Rightarrow> 's result) \<Rightarrow> 'a list \<Rightarrow> 's \<Rightarrow> 's result" where
  "fold_result body [] s = Inr s"
| "fold_result body (x # xs) s = rbind (body x s) (fold_result body xs)"

declare fold_result.simps [result_simps]

lemma fold_result_append [result_simps]:
  "fold_result body (xs @ ys) s = rbind (fold_result body xs s) (fold_result body ys)"
proof (induction xs arbitrary: s)
  case Nil
  then show ?case by simp
next
  case (Cons x xs)
  then show ?case by (cases "body x s") simp_all
qed

lemma fold_result_cong:
  assumes "\<And>x s. x \<in> set xs \<Longrightarrow> f x s = g x s"
  shows "fold_result f xs s = fold_result g xs s"
  using assms
proof (induction xs arbitrary: s)
  case Nil
  then show ?case by simp
next
  case (Cons x xs)
  then show ?case by (cases "g x s") auto
qed

lemma fold_result_invariant:
  assumes "fold_result body xs s = Inr t" and "I s"
    and "\<And>x s t. x \<in> set xs \<Longrightarrow> I s \<Longrightarrow> body x s = Inr t \<Longrightarrow> I t"
  shows "I t"
  using assms
proof (induction xs arbitrary: s)
  case Nil
  then show ?case by simp
next
  case (Cons x xs)
  from Cons.prems(1) obtain u where u: "body x s = Inr u" "fold_result body xs u = Inr t"
    by (auto simp: rbind_eq_Inr)
  from u(1) Cons.prems(2,3) have "I u" by auto
  with u(2) show ?case using Cons.IH Cons.prems(3) by auto
qed

text \<open>
  A loop whose \<open>i\<close>-th iteration works from any state that satisfies \<open>I i\<close> and leads to
  \<open>I (Suc i)\<close> works as a whole.
\<close>

lemma fold_result_upt:
  assumes "I 0 s"
    and "\<And>i s. i < n \<Longrightarrow> I i s \<Longrightarrow> \<exists>t. body i s = Inr t \<and> I (Suc i) t"
  shows "\<exists>t. fold_result body [0..<n] s = Inr t \<and> I n t"
  using assms(2)
proof (induction n)
  case 0
  then show ?case using assms(1) by simp
next
  case (Suc n)
  then obtain t where t: "fold_result body [0..<n] s = Inr t" "I n t"
    by auto
  with Suc.prems [of n t] show ?case
    by (auto simp: fold_result_append)
qed

lemma fold_result_pure:
  "(\<And>k acc. k \<in> set ks \<Longrightarrow> f k acc = Inr (g k acc)) \<Longrightarrow> fold_result f ks a = Inr (fold g ks a)"
  by (induction ks arbitrary: a) simp_all

text \<open>Two nested counted loops are one loop over the flattened index.\<close>

lemma fold_result_map: "fold_result body (map f xs) s = fold_result (\<lambda>x. body (f x)) xs s"
proof (induction xs arbitrary: s)
  case Nil
  then show ?case by simp
next
  case (Cons x xs)
  then show ?case by (cases "body (f x) s") simp_all
qed

lemma fold_result_nested:
  "fold_result (\<lambda>m. fold_result (body m) [0..<N]) [0..<M] s
    = fold_result (\<lambda>i. body (i div N) (i mod N)) [0..<M * N] s"
proof (induction M)
  case 0
  then show ?case by simp
next
  case (Suc M)
  have split: "[0..<Suc M * N] = [0..<M * N] @ map (\<lambda>n. n + M * N) [0..<N]"
    using upt_add_eq_append [of 0 "M * N" N] by (simp add: map_add_upt add.commute)
  have "fold_result (\<lambda>n. body ((n + M * N) div N) ((n + M * N) mod N)) [0..<N] t = fold_result (body M) [0..<N] t" for t
    by (rule fold_result_cong) simp
  then have tail: "fold_result (\<lambda>m. fold_result (body m) [0..<N]) [M] t
      = fold_result (\<lambda>i. body (i div N) (i mod N)) (map (\<lambda>n. n + M * N) [0..<N]) t" for t
    by (cases "fold_result (body M) [0..<N] t") (simp_all add: fold_result_map)
  have outer: "[0..<Suc M] = [0..<M] @ [M]" by simp
  show ?case
    unfolding split outer fold_result_append Suc by (rule rbind_cong [OF refl tail])
qed

section \<open>Words as natural numbers\<close>

lemma unat_and_mask_nat [to_nat]: "unat (x AND mask n :: 'a::len word) = unat x mod 2 ^ n"
  by (simp add: take_bit_eq_mask [symmetric] unsigned_take_bit_eq take_bit_eq_mod [where ?'a = nat])

lemma unat_drop_bit_nat [to_nat]: "unat (drop_bit n x :: 'a::len word) = unat x div 2 ^ n"
  by (simp add: unsigned_drop_bit_eq drop_bit_eq_div [where ?'a = nat] take_bit_nat_eq_self)

lemma unat_push_bit_nat:
  "unat x * 2 ^ n < 2 ^ LENGTH('a) \<Longrightarrow> unat (push_bit n x :: 'a::len word) = unat x * 2 ^ n"
  by (simp add: unsigned_push_bit_eq take_bit_eq_mod [where ?'a = nat] push_bit_eq_mult [where ?'a = nat])

lemma unat_add_no_wrap:
  "unat a + unat b < 2 ^ LENGTH('a) \<Longrightarrow> unat (a + b :: 'a::len word) = unat a + unat b"
  by (simp add: unat_word_ariths)

lemma unat_mult_no_wrap:
  "unat a * unat b < 2 ^ LENGTH('a) \<Longrightarrow> unat (a * b :: 'a::len word) = unat a * unat b"
  by (simp add: unat_word_ariths)

lemma unat_of_nat_small: "n < 2 ^ LENGTH('a) \<Longrightarrow> unat (of_nat n :: 'a::len word) = n"
  by (simp add: unsigned_of_nat take_bit_eq_mod)

lemma unat_ucast_small: "unat w < 2 ^ LENGTH('b) \<Longrightarrow> unat (ucast (w :: 'a::len word) :: 'b::len word) = unat w"
  by (simp add: unsigned_ucast_eq take_bit_nat_eq_self)

lemma unat_u32_less: "unat (x :: u32) < 0x100000000"
  using unsigned_less [of x] by simp

lemma unat_mult_mod: "unat (a * b :: u32) = (unat a * unat b) mod 2 ^ 32"
  by (simp add: unat_word_ariths)

lemma div_of_nat_u32: "i < 2 ^ 32 \<Longrightarrow> of_nat i div c = (of_nat (i div unat c) :: u32)"
proof -
  assume i: "i < 2 ^ 32"
  moreover have "i div unat c \<le> i" by (rule div_le_dividend)
  ultimately have "i div unat c < 2 ^ 32" by linarith
  then have "unat (of_nat (i div unat c) :: u32) = i div unat c" and "unat (of_nat i :: u32) = i"
    using i by (simp_all add: unat_of_nat_small)
  then show ?thesis by (simp only: word_unat_eq_iff unat_div)
qed

lemma mod_of_nat_u32: "i < 2 ^ 32 \<Longrightarrow> of_nat i mod c = (of_nat (i mod unat c) :: u32)"
proof -
  assume i: "i < 2 ^ 32"
  moreover have "i mod unat c \<le> i" by (rule mod_less_eq_dividend)
  ultimately have "i mod unat c < 2 ^ 32" by linarith
  then have "unat (of_nat (i mod unat c) :: u32) = i mod unat c" and "unat (of_nat i :: u32) = i"
    using i by (simp_all add: unat_of_nat_small)
  then show ?thesis by (simp only: word_unat_eq_iff unat_mod)
qed

text \<open>A 32-bit row-major offset is the offset as a natural number, and lies in the matrix.\<close>

lemma index_of_nat: "of_nat i * N + of_nat j = (of_nat (i * unat N + j) :: u32)"
  by simp

lemma index_less: "i < M \<Longrightarrow> j < N \<Longrightarrow> i * N + j < M * (N :: nat)"
proof -
  assume "i < M" and "j < N"
  then have "i * N + j < Suc i * N" and "Suc i * N \<le> M * N"
    by (simp, intro mult_le_mono) simp_all
  then show ?thesis by linarith
qed

lemma or_less_power: "a < 2 ^ n \<Longrightarrow> b < 2 ^ n \<Longrightarrow> a OR b < (2 ^ n :: nat)"
  by (metis take_bit_nat_eq_self take_bit_nat_less_exp take_bit_or)

text \<open>Joining a high and a low part with \<open>OR\<close> adds them.\<close>

lemma unat_or_high_low:
  fixes h w :: "'a::len word"
  assumes "2 ^ n dvd unat h" and "unat w < 2 ^ n"
  shows "unat (h OR w) = unat h + unat w"
proof -
  have "unat h AND unat w = 0"
  proof (rule bit_eqI)
    fix i
    show "bit (unat h AND unat w) i = bit (0 :: nat) i"
    proof (cases "i < n")
      case True
      then obtain t where "n = Suc (i + t)" by (metis less_iff_Suc_add)
      with assms(1) obtain k where "unat h = 2 ^ i * (2 * (2 ^ t * k))"
        by (auto simp: power_add mult_ac elim!: dvdE)
      then have "unat h div 2 ^ i = 2 * (2 ^ t * k)" by simp
      then have "\<not> bit (unat h) i" by (simp add: bit_iff_odd [where ?'a = nat])
      then show ?thesis by (simp add: bit_and_iff)
    next
      case False
      then have "(2::nat) ^ n \<le> 2 ^ i" by (intro power_increasing) simp_all
      with assms(2) have "unat w < 2 ^ i" by linarith
      then have "\<not> bit (unat w) i" by (simp add: bit_iff_odd [where ?'a = nat])
      then show ?thesis by (simp add: bit_and_iff)
    qed
  qed
  then show ?thesis by (simp add: unsigned_or_eq disjunctive_add_eq_or)
qed

end
