(* ===== verification/Rounding.thy ===== *)
theory Rounding
  imports Complex_Main Prelude
begin

text \<open>
  Binary floating point formats as bit patterns.  A format has \<open>p\<close> significand bits (the hidden
  one included); a non-negative finite pattern \<open>b\<close> stands for \<open>mag p b\<close> units of its least
  subnormal, and \<open>rbits p n d\<close> is the pattern that the rounding rule of IEEE 754 (to nearest, ties
  to even, exponent unbounded above) assigns to \<open>n / d\<close> units.  The locale \<open>float_format\<close> adds
  the pattern of infinity, which bounds the range.  runtime/include/dtype.h converts between four
  such formats with shifts and masks; the theory Dtype shows that each conversion is this rounding.
\<close>

section \<open>Bit length\<close>

fun bit_length :: "nat \<Rightarrow> nat" where
  "bit_length n = (if n = 0 then 0 else Suc (bit_length (n div 2)))"

declare bit_length.simps [simp del]

lemma bit_length_0 [simp]: "bit_length 0 = 0"
  by (simp add: bit_length.simps)

lemma bit_length_upper: "n < 2 ^ bit_length n"
proof (induction n rule: bit_length.induct)
  case (1 n)
  then show ?case by (cases "n = 0") (auto simp: bit_length.simps [of n])
qed

lemma bit_length_lower: "0 < n \<Longrightarrow> 2 ^ (bit_length n - 1) \<le> n"
proof (induction n rule: bit_length.induct)
  case (1 n)
  show ?case
  proof (cases "n div 2 = 0")
    case True
    with "1.prems" show ?thesis by (simp add: bit_length.simps [of n])
  next
    case False
    with "1" have "2 ^ (bit_length (n div 2) - 1) \<le> n div 2" by simp
    moreover from False have "0 < bit_length (n div 2)" by (simp add: bit_length.simps [of "n div 2"])
    then obtain l where "bit_length (n div 2) = Suc l" by (cases "bit_length (n div 2)") auto
    ultimately have "2 ^ Suc l \<le> n" by auto
    with \<open>bit_length (n div 2) = Suc l\<close> "1.prems" show ?thesis by (simp add: bit_length.simps [of n])
  qed
qed

section \<open>Rounding a quotient to an integer\<close>

definition rne :: "nat \<Rightarrow> nat \<Rightarrow> nat" where
  "rne n d = (let k = n div d; r = n mod d
              in if d < 2 * r \<or> (2 * r = d \<and> odd k) then Suc k else k)"

lemma rne_cases:
  assumes "0 < d"
  obtains k r where "n = k * d + r" "r < d" "rne n d = (if d < 2 * r \<or> 2 * r = d \<and> odd k then Suc k else k)"
  using that [of "n div d" "n mod d"] assms by (simp add: rne_def Let_def)

lemma rne_nearest:
  assumes "0 < d"
  shows "\<bar>int (rne n d) * int d - int n\<bar> \<le> \<bar>int j * int d - int n\<bar>"
proof -
  from assms obtain k r where kr: "n = k * d + r" "r < d"
    "rne n d = (if d < 2 * r \<or> 2 * r = d \<and> odd k then Suc k else k)" by (rule rne_cases)
  have "\<bar>int j * int d - int n\<bar> \<ge> (if j \<le> k then int r else int d - int r)"
  proof (cases "j \<le> k")
    case True
    then have "int j * int d \<le> int k * int d" by (simp add: mult_right_mono)
    with kr(1) True show ?thesis by simp
  next
    case False
    then have "(int k + 1) * int d \<le> int j * int d" by (intro mult_right_mono) auto
    with kr(1,2) False show ?thesis by (simp add: algebra_simps)
  qed
  moreover have "\<bar>int (rne n d) * int d - int n\<bar>
      = (if d < 2 * r \<or> 2 * r = d \<and> odd k then int d - int r else int r)"
    using kr by (auto simp: algebra_simps)
  ultimately show ?thesis by (auto split: if_splits)
qed

lemma rne_tie_even:
  assumes "0 < d" and "j \<noteq> rne n d"
    and "\<bar>int (rne n d) * int d - int n\<bar> = \<bar>int j * int d - int n\<bar>"
  shows "even (rne n d)"
proof -
  from assms(1) obtain k r where kr: "n = k * d + r" "r < d"
    "rne n d = (if d < 2 * r \<or> 2 * r = d \<and> odd k then Suc k else k)" by (rule rne_cases)
  have far: "j < k \<Longrightarrow> \<bar>int j * int d - int n\<bar> \<ge> int d + int r"
    "Suc k < j \<Longrightarrow> \<bar>int j * int d - int n\<bar> \<ge> 2 * int d - int r"
  proof -
    assume "j < k"
    then have "(int j + 1) * int d \<le> int k * int d" by (intro mult_right_mono) auto
    with kr(1) show "\<bar>int j * int d - int n\<bar> \<ge> int d + int r" by (simp add: algebra_simps)
  next
    assume "Suc k < j"
    then have "(int k + 2) * int d \<le> int j * int d" by (intro mult_right_mono) auto
    with kr(1,2) show "\<bar>int j * int d - int n\<bar> \<ge> 2 * int d - int r" by (simp add: algebra_simps)
  qed
  have dist: "\<bar>int (rne n d) * int d - int n\<bar>
      = (if d < 2 * r \<or> 2 * r = d \<and> odd k then int d - int r else int r)"
    using kr by (auto simp: algebra_simps)
  consider "j < k" | "j = k" | "j = Suc k" | "Suc k < j" by linarith
  then show ?thesis
  proof cases
    case 1
    with far(1) dist assms(3) kr(2) show ?thesis by (auto split: if_splits)
  next
    case 2
    with assms(2,3) dist kr show ?thesis by (auto split: if_splits)
  next
    case 3
    have "\<bar>int j * int d - int n\<bar> = int d - int r" using kr 3 by (simp add: algebra_simps)
    with 3 assms(2,3) dist kr show ?thesis by (auto split: if_splits)
  next
    case 4
    with far(2) dist assms(3) kr(2) show ?thesis by (auto split: if_splits)
  qed
qed

lemma rne_exact [simp]: "0 < d \<Longrightarrow> rne (k * d) d = k"
  by (simp add: rne_def)

lemma rne_le: "0 < d \<Longrightarrow> n \<le> k * d \<Longrightarrow> rne n d \<le> k"
proof -
  assume d: "0 < d" and le: "n \<le> k * d"
  show ?thesis
  proof (cases "n = k * d")
    case True
    with d show ?thesis by simp
  next
    case False
    with le have "n div d < k" using d by (simp add: div_less_iff_less_mult)
    then show ?thesis by (simp add: rne_def Let_def)
  qed
qed

lemma rne_ge: "0 < d \<Longrightarrow> k * d \<le> n \<Longrightarrow> k \<le> rne n d"
proof -
  assume "0 < d" and "k * d \<le> n"
  then have "k \<le> n div d" by (simp add: less_eq_div_iff_mult_less_eq)
  then show ?thesis by (simp add: rne_def Let_def)
qed

section \<open>Bit patterns and their magnitudes\<close>

definition mag :: "nat \<Rightarrow> nat \<Rightarrow> nat" where
  "mag p b = (let h = 2 ^ (p - 1); e = b div h
              in if e = 0 then b else (b mod h + h) * 2 ^ (e - 1))"

definition rbits :: "nat \<Rightarrow> nat \<Rightarrow> nat \<Rightarrow> nat" where
  "rbits p n d = (let q = bit_length (n div d) - p
                  in q * 2 ^ (p - 1) + rne n (d * 2 ^ q))"

lemma mag_unfold:
  "h = 2 ^ (p - 1) \<Longrightarrow> mag p b = (if b div h = 0 then b else (b mod h + h) * 2 ^ (b div h - 1))"
  by (simp add: mag_def Let_def)

lemma mag_Suc_greater: "mag p b < mag p (Suc b)"
proof -
  define h :: nat where "h = 2 ^ (p - 1)"
  note m = mag_unfold [OF h_def]
  have h: "0 < h" by (simp add: h_def)
  show ?thesis
  proof (cases "Suc (b mod h) = h")
    case True
    then have s: "Suc b div h = Suc (b div h)" "Suc b mod h = 0"
      by (simp_all add: div_Suc mod_Suc)
    show ?thesis
    proof (cases "b div h")
      case 0
      then have "b mod h = b" by (metis div_mult_mod_eq add_0 mult_0)
      with 0 s True show ?thesis by (simp add: m)
    next
      case (Suc e)
      have "(b mod h + h) * 2 ^ e < 2 * h * 2 ^ e"
        using True by (simp only: mult_less_cancel2) auto
      with Suc s show ?thesis by (simp add: m)
    qed
  next
    case False
    then have "Suc b div h = b div h" "Suc b mod h = Suc (b mod h)"
      by (simp_all add: div_Suc mod_Suc)
    then show ?thesis by (simp add: m)
  qed
qed

lemma mag_strict_mono: "a < b \<Longrightarrow> mag p a < mag p b"
  by (rule lift_Suc_mono_less [of "mag p"]) (rule mag_Suc_greater)

lemma mag_less_iff [simp]: "mag p a < mag p b \<longleftrightarrow> a < b"
  by (metis mag_strict_mono linorder_neqE_nat not_less_iff_gr_or_eq)

lemma mag_le_iff [simp]: "mag p a \<le> mag p b \<longleftrightarrow> a \<le> b"
  by (meson mag_less_iff not_le)

lemma mag_inject [simp]: "mag p a = mag p b \<longleftrightarrow> a = b"
  by (metis mag_less_iff linorder_neqE_nat less_irrefl)

lemma mag_0 [simp]: "mag p 0 = 0"
  by (simp add: mag_def)

lemma mag_small:
  assumes "b \<le> 2 ^ p" and "0 < p"
  shows "mag p b = b"
proof -
  define h :: nat where "h = 2 ^ (p - 1)"
  note m = mag_unfold [OF h_def]
  have h: "0 < h" by (simp add: h_def)
  have "2 ^ p = 2 * h" using assms(2) by (cases p) (simp_all add: h_def)
  with assms(1) have "b \<le> 2 * h" by simp
  then consider "b < h" | x where "b = h + x" "x < h" | "b = 2 * h"
    by (metis le_neq_implies_less le_Suc_ex mult_2 nat_add_left_cancel_less not_le)
  then show ?thesis
  proof cases
    case 1
    then show ?thesis by (simp add: m)
  next
    case 2
    with h show ?thesis by (simp add: m div_add_self1)
  next
    case 3
    with h show ?thesis by (simp add: m)
  qed
qed

text \<open>The pattern with exponent offset \<open>q\<close> and significand \<open>r\<close>, the carry \<open>r = 2 ^ p\<close> included.\<close>

lemma mag_compose:
  assumes "0 < p" and "q = 0 \<or> 2 ^ (p - 1) \<le> r" and "r \<le> 2 ^ p"
  shows "mag p (q * 2 ^ (p - 1) + r) = r * 2 ^ q"
proof (cases "q = 0")
  case True
  with assms show ?thesis by (simp add: mag_small)
next
  case False
  define h :: nat where "h = 2 ^ (p - 1)"
  note m = mag_unfold [OF h_def]
  have h: "0 < h" by (simp add: h_def)
  have "2 ^ p = 2 * h" using assms(1) by (cases p) (simp_all add: h_def)
  with assms(2,3) False have r: "h \<le> r" "r \<le> 2 * h" unfolding h_def by auto
  show ?thesis
  proof (cases "r = 2 * h")
    case True
    then have "q * h + r = (q + 2) * h" by simp
    with h have "(q * h + r) div h = q + 2" "(q * h + r) mod h = 0"
      by (metis nonzero_mult_div_cancel_right not_less0, metis mod_mult_self2_is_0)
    then have "mag p (q * h + r) = h * 2 ^ (q + 1)" by (simp add: m)
    with True show ?thesis by (simp add: h_def)
  next
    case False
    with r have "q * h + r = (r - h) + (q + 1) * h" "r - h < h" by auto
    then have "(q * h + r) div h = q + 1" "(q * h + r) mod h = r - h"
      using h by (simp_all only: div_mult_self1 mod_mult_self1 div_less mod_less)
    with r have "mag p (q * h + r) = r * 2 ^ q" by (simp add: m)
    then show ?thesis by (simp add: h_def)
  qed
qed

lemma mag_multiple:
  assumes "Suc q \<le> b div 2 ^ (p - 1)"
  obtains j where "mag p b = j * 2 ^ q"
proof -
  define h :: nat where "h = 2 ^ (p - 1)"
  from assms obtain t where "b div h = Suc (q + t)"
    unfolding h_def by (metis le_Suc_ex add_Suc)
  then have "mag p b = ((b mod h + h) * 2 ^ t) * 2 ^ q"
    by (simp add: mag_unfold [OF h_def] power_add)
  then show ?thesis by (rule that)
qed

lemma mag_upper:
  assumes "b div 2 ^ (p - 1) \<le> q"
  shows "mag p b < 2 ^ (p - 1) * 2 ^ q"
proof -
  define h :: nat where "h = 2 ^ (p - 1)"
  note m = mag_unfold [OF h_def]
  have h: "0 < h" by (simp add: h_def)
  have "mag p b < h * 2 ^ q"
  proof (cases "b div h")
    case 0
    with h have "b < h" by (simp add: div_eq_0_iff)
    also have "h \<le> h * 2 ^ q" by simp
    finally show ?thesis using 0 by (simp add: m)
  next
    case (Suc e)
    have "(b mod h + h) * 2 ^ e < (2 * h) * 2 ^ e"
      using h by (simp only: mult_less_cancel2) (simp add: mult_2)
    also have "\<dots> = h * 2 ^ Suc e" by simp
    also have "\<dots> \<le> h * 2 ^ q" using assms Suc unfolding h_def
      by (intro mult_le_mono power_increasing) auto
    finally show ?thesis using Suc by (simp add: m)
  qed
  then show ?thesis by (simp add: h_def)
qed

section \<open>Rounding to a pattern\<close>

text \<open>What \<open>rbits\<close> computes: an exponent offset and a significand in their ranges.\<close>

lemma rbits_parts:
  assumes "0 < d" and "0 < p"
  obtains q r where "rbits p n d = q * 2 ^ (p - 1) + r" and "r = rne n (d * 2 ^ q)"
    and "q = 0 \<or> 2 ^ (p - 1) * 2 ^ q * d \<le> n" and "n < 2 ^ p * 2 ^ q * d"
    and "mag p (rbits p n d) = r * 2 ^ q" and "q = 0 \<or> 2 ^ (p - 1) \<le> r"
proof -
  define k where "k = n div d"
  define q where "q = bit_length k - p"
  define r where "r = rne n (d * 2 ^ q)"
  have kd: "k * d \<le> n" "n < Suc k * d"
    using assms(1) by (simp_all add: k_def dividend_less_div_times)
  have low: "q = 0 \<or> 2 ^ (p - 1) * 2 ^ q * d \<le> n"
  proof (cases "q = 0")
    case False
    then have "bit_length k - 1 = (p - 1) + q" and "0 < k"
      using assms(2) by (auto simp: q_def intro: gr0I)
    then have "2 ^ (p - 1) * 2 ^ q \<le> k" by (metis bit_length_lower power_add)
    then have "2 ^ (p - 1) * 2 ^ q * d \<le> k * d" by (rule mult_le_mono1)
    with kd(1) show ?thesis by linarith
  qed simp
  have "bit_length k \<le> p + q" by (simp add: q_def)
  then have "k < 2 ^ (p + q)"
    by (meson bit_length_upper less_le_trans one_le_numeral power_increasing)
  then have "Suc k * d \<le> 2 ^ p * 2 ^ q * d"
    by (metis Suc_leI mult_le_mono1 power_add)
  with kd(2) have up: "n < 2 ^ p * 2 ^ q * d" by linarith
  have d': "0 < d * 2 ^ q" using assms(1) by simp
  have r_up: "r \<le> 2 ^ p" unfolding r_def using d' up by (intro rne_le) (auto simp: mult_ac)
  have r_low: "q = 0 \<or> 2 ^ (p - 1) \<le> r"
    using low unfolding r_def by (auto intro!: rne_ge simp: assms(1) mult_ac)
  have R: "rbits p n d = q * 2 ^ (p - 1) + r"
    by (simp add: rbits_def Let_def q_def r_def k_def)
  from mag_compose [OF assms(2) r_low r_up] R have "mag p (rbits p n d) = r * 2 ^ q" by simp
  from that [OF R r_def low up this r_low] show ?thesis .
qed

text \<open>No pattern is nearer to the quotient.\<close>

lemma rbits_nearest:
  assumes "0 < d" and "0 < p"
  shows "\<bar>int (mag p (rbits p n d)) * int d - int n\<bar> \<le> \<bar>int (mag p b) * int d - int n\<bar>"
    and "\<bar>int (mag p (rbits p n d)) * int d - int n\<bar> = \<bar>int (mag p b) * int d - int n\<bar> \<Longrightarrow>
      b \<noteq> rbits p n d \<Longrightarrow> 2 \<le> p \<Longrightarrow> even (rbits p n d)"
proof -
  from assms obtain q r where q: "rbits p n d = q * 2 ^ (p - 1) + r" "r = rne n (d * 2 ^ q)"
    "q = 0 \<or> 2 ^ (p - 1) * 2 ^ q * d \<le> n" "mag p (rbits p n d) = r * 2 ^ q"
    by (elim rbits_parts [of d p n])
  have d': "0 < d * 2 ^ q" using assms by simp
  have near: "\<bar>int (r * 2 ^ q) * int d - int n\<bar> \<le> \<bar>int (j * 2 ^ q) * int d - int n\<bar>" for j
    using rne_nearest [OF d', of n j] by (simp add: q(2) mult_ac)
  have tie: "even (rbits p n d)"
    if "\<bar>int (r * 2 ^ q) * int d - int n\<bar> = \<bar>int (j * 2 ^ q) * int d - int n\<bar>" "j \<noteq> r" "2 \<le> p" for j
  proof -
    have "even r" using rne_tie_even [OF d', of j n] that by (simp add: q(2) mult_ac)
    moreover have "even (q * 2 ^ (p - 1))" using that(3) by simp
    ultimately show ?thesis by (simp add: q(1))
  qed
  consider (mult) j where "mag p b = j * 2 ^ q" | (small) "0 < q" "mag p b < 2 ^ (p - 1) * 2 ^ q"
  proof (cases "Suc q \<le> b div 2 ^ (p - 1) \<or> q = 0")
    case True
    then show ?thesis using mag_multiple [of q b p] mult by fastforce
  next
    case False
    then show ?thesis using small mag_upper [of b p q] by simp
  qed
  note split = this
  have strict: "\<bar>int (mag p (rbits p n d)) * int d - int n\<bar> < \<bar>int (mag p b) * int d - int n\<bar>"
    if "0 < q" "mag p b < 2 ^ (p - 1) * 2 ^ q"
  proof -
    have "int (mag p b) * int d < int (2 ^ (p - 1) * 2 ^ q) * int d"
      using that(2) assms(1) by (simp only: of_nat_less_iff mult_less_cancel_right_pos of_nat_0_less_iff)
    moreover have "int (2 ^ (p - 1) * 2 ^ q) * int d \<le> int n"
      using q(3) that(1) by (metis not_less0 of_nat_mono of_nat_mult)
    ultimately have "\<bar>int (2 ^ (p - 1) * 2 ^ q) * int d - int n\<bar> < \<bar>int (mag p b) * int d - int n\<bar>"
      by linarith
    with near [of "2 ^ (p - 1)"] q(4) show ?thesis by simp
  qed
  show "\<bar>int (mag p (rbits p n d)) * int d - int n\<bar> \<le> \<bar>int (mag p b) * int d - int n\<bar>"
    using split near q(4) strict by cases (auto simp: less_imp_le)
  assume eq: "\<bar>int (mag p (rbits p n d)) * int d - int n\<bar> = \<bar>int (mag p b) * int d - int n\<bar>"
    and ne: "b \<noteq> rbits p n d" and p2: "2 \<le> p"
  from split show "even (rbits p n d)"
  proof cases
    case (mult j)
    from ne have "mag p b \<noteq> mag p (rbits p n d)" by simp
    with mult q(4) have "j \<noteq> r" by auto
    with tie [of j] eq mult q(4) p2 show ?thesis by simp
  next
    case small
    with strict eq show ?thesis by simp
  qed
qed

lemma rbits_exact:
  assumes "0 < d" and "0 < p"
  shows "rbits p (mag p b * d) d = b"
proof -
  have "int (mag p (rbits p (mag p b * d) d)) * int d = int (mag p b) * int d"
    using rbits_nearest(1) [OF assms, of "mag p b * d" b] by simp
  with assms(1) show ?thesis by simp
qed

lemma rbits_ge: "0 < d \<Longrightarrow> 0 < p \<Longrightarrow> mag p b * d \<le> n \<Longrightarrow> b \<le> rbits p n d"
proof (rule ccontr)
  assume d: "0 < d" "0 < p" and le: "mag p b * d \<le> n" and "\<not> b \<le> rbits p n d"
  then have "mag p (rbits p n d) * d < mag p b * d" by simp
  with le have "\<bar>int (mag p b) * int d - int n\<bar> < \<bar>int (mag p (rbits p n d)) * int d - int n\<bar>"
    unfolding of_nat_mult [symmetric] by linarith
  with rbits_nearest(1) [OF d, of n b] show False by simp
qed

lemma bit_length_eqI: "2 ^ l \<le> k \<Longrightarrow> k < 2 ^ Suc l \<Longrightarrow> bit_length k = Suc l"
proof -
  assume lo: "2 ^ l \<le> k" and hi: "k < 2 ^ Suc l"
  then have "0 < k" by (metis gr0I not_le zero_less_power pos2)
  have "2 ^ l < (2::nat) ^ bit_length k" using lo bit_length_upper [of k] by linarith
  then have "l < bit_length k" by (rule power_less_imp_less_exp [rotated]) simp
  moreover have "(2::nat) ^ (bit_length k - 1) < 2 ^ Suc l"
    using hi bit_length_lower [OF \<open>0 < k\<close>] by linarith
  then have "bit_length k - 1 < Suc l" by (rule power_less_imp_less_exp [rotated]) simp
  ultimately show ?thesis by linarith
qed

text \<open>The exponent offset of a rounding is determined by the binade.\<close>

lemma rbits_eqI:
  assumes "0 < d" and "0 < p" and "q = 0 \<or> 2 ^ (p - 1) * 2 ^ q * d \<le> n" and "n < 2 ^ p * 2 ^ q * d"
  shows "rbits p n d = q * 2 ^ (p - 1) + rne n (d * 2 ^ q)"
proof -
  have k: "n div d < 2 ^ (p + q)"
    using assms(1,4) by (simp add: power_add div_less_iff_less_mult)
  have "bit_length (n div d) - p = q"
  proof (cases "q = 0")
    case True
    show ?thesis
    proof (cases "n div d = 0")
      case False
      then have "2 ^ (bit_length (n div d) - 1) < (2::nat) ^ p"
        using le_less_trans [OF bit_length_lower [of "n div d"] k] True by simp
      then have "bit_length (n div d) - 1 < p" by (rule power_less_imp_less_exp [rotated]) simp
      with True show ?thesis by simp
    qed (use True in simp)
  next
    case False
    then have "2 ^ (p - 1 + q) \<le> n div d"
      using assms(1,3) by (simp add: power_add less_eq_div_iff_mult_less_eq)
    moreover have "Suc (p - 1 + q) = p + q" using assms(2) by simp
    ultimately show ?thesis using bit_length_eqI [of "p - 1 + q" "n div d"] k by simp
  qed
  then show ?thesis by (simp add: rbits_def)
qed

text \<open>A magnitude with at most \<open>p\<close> significant digits is a pattern.\<close>

lemma mag_surj:
  assumes "k < 2 ^ p" and "0 < p"
  obtains b where "mag p b = k * 2 ^ e"
proof -
  define n where "n = k * 2 ^ e"
  from assms(2) have p: "2 * 2 ^ (p - 1) = (2 :: nat) ^ p" by (cases p) simp_all
  show ?thesis
  proof (cases "n < 2 ^ p")
    case True
    with assms(2) have "mag p n = n" by (intro mag_small) simp_all
    with that show ?thesis by (simp add: n_def)
  next
    case False
    define q where "q = bit_length n - p"
    have "(2::nat) ^ p < 2 ^ bit_length n" using False bit_length_upper [of n] by linarith
    then have len: "p < bit_length n" by (rule power_less_imp_less_exp [rotated]) simp
    with assms(2) have l: "bit_length n = p + q" "bit_length n - 1 = p - 1 + q" by (simp_all add: q_def)
    from False have "0 < n" by (cases n) simp_all
    then have n_lo: "2 ^ (p - 1) * 2 ^ q \<le> n"
      using bit_length_lower [of n] unfolding l(2) power_add by blast
    have n_hi: "n < 2 ^ p * 2 ^ q"
      using bit_length_upper [of n] unfolding l(1) power_add .
    have "q \<le> e"
    proof (rule ccontr)
      assume "\<not> q \<le> e"
      then have "(2::nat) ^ Suc e \<le> 2 ^ q" by (intro power_increasing) simp_all
      then have "2 ^ (p - 1) * 2 ^ Suc e \<le> n" using n_lo by (meson le_trans mult_le_mono2)
      then have "2 ^ p * 2 ^ e \<le> n" unfolding p [symmetric] by (simp add: mult.assoc mult.left_commute)
      moreover have "n < 2 ^ p * 2 ^ e" using assms(1) by (simp add: n_def)
      ultimately show False by simp
    qed
    then obtain t where t: "e = q + t" using le_iff_add by blast
    define r where "r = k * 2 ^ t"
    have nr: "n = r * 2 ^ q" by (simp add: n_def r_def t power_add mult_ac)
    from n_lo n_hi have "2 ^ (p - 1) \<le> r" "r \<le> 2 ^ p" unfolding nr by simp_all
    then have "mag p (q * 2 ^ (p - 1) + r) = r * 2 ^ q" by (intro mag_compose assms(2)) simp_all
    with nr that show ?thesis by (simp add: n_def)
  qed
qed

lemma rne_scale: "0 < c \<Longrightarrow> rne (n * c) (d * c) = rne n d"
proof -
  assume c: "0 < c"
  have "d * c < 2 * (n mod d * c) \<longleftrightarrow> d < 2 * (n mod d)"
    by (metis c mult.assoc mult_less_cancel2)
  moreover have "2 * (n mod d * c) = d * c \<longleftrightarrow> 2 * (n mod d) = d"
    by (metis c mult.assoc mult_cancel2 not_less0)
  ultimately show ?thesis using c by (simp add: rne_def Let_def mod_mult_mult2 div_mult_mult2)
qed

lemma rbits_tiny: "2 * n < d \<Longrightarrow> rbits p n d = 0"
  by (simp add: rbits_def rne_def)

lemma nearer_above:
  fixes x :: real
  assumes "\<bar>r - x\<bar> \<le> \<bar>a - x\<bar>" and "a < b" and "b \<le> r"
  shows "(a + b) / 2 \<le> x"
  using assms by (auto simp: abs_if split: if_splits)

lemma nearer_above_eq:
  fixes x :: real
  assumes "\<bar>r - x\<bar> \<le> \<bar>b - x\<bar>" and "r \<le> a" and "a < b" and "(a + b) / 2 \<le> x"
  shows "r = a \<and> \<bar>r - x\<bar> = \<bar>b - x\<bar>"
  using assms by (auto simp: abs_if split: if_splits)

text \<open>Signed distances from distances of magnitudes.\<close>

lemma signed_dist:
  fixes a b x :: real
  assumes "\<bar>a - x\<bar> \<le> \<bar>b - x\<bar>" and "\<bar>a - x\<bar> \<le> \<bar>0 - x\<bar>" and "0 \<le> b" and "0 \<le> x"
  shows "\<bar>(if s then - 1 else 1) * a - (if s then - 1 else 1) * x\<bar>
    \<le> \<bar>(if t then - 1 else 1) * b - (if s then - 1 else 1) * x\<bar>"
  using assms by (cases s; cases t) (auto simp: abs_if split: if_splits)

lemma scaled_dist:
  fixes a b x c :: real
  assumes "0 < c"
  shows "\<bar>a / c - x / c\<bar> \<le> \<bar>b / c - x / c\<bar> \<longleftrightarrow> \<bar>a - x\<bar> \<le> \<bar>b - x\<bar>"
    and "\<bar>a / c - x / c\<bar> = \<bar>b / c - x / c\<bar> \<longleftrightarrow> \<bar>a - x\<bar> = \<bar>b - x\<bar>"
  using assms by (simp_all add: diff_divide_distrib [symmetric] abs_divide divide_le_cancel)

section \<open>The range of a format\<close>

text \<open>\<open>infb\<close> is the pattern of infinity; whatever rounds to it or beyond overflows to it.\<close>

definition round_mag :: "nat \<Rightarrow> nat \<Rightarrow> nat \<Rightarrow> nat \<Rightarrow> nat" where
  "round_mag p infb n d = min infb (rbits p n d)"

locale float_format =
  fixes p infb :: nat
  assumes p_ge: "2 \<le> p" and infb_even: "even infb" and infb_pos: "0 < infb"
begin

lemma round_le: "round_mag p infb n d \<le> infb"
  by (simp add: round_mag_def)

lemma round_exact: "0 < d \<Longrightarrow> b \<le> infb \<Longrightarrow> round_mag p infb (mag p b * d) d = b"
  using p_ge by (simp add: round_mag_def rbits_exact)

text \<open>The distances of the integer lemmas as distances of real numbers.\<close>

lemma dist_real:
  "0 < d \<Longrightarrow> \<bar>real m - real n / real d\<bar> = real_of_int \<bar>int m * int d - int n\<bar> / real d"
proof -
  assume "0 < d"
  then have "real m - real n / real d = real_of_int (int m * int d - int n) / real d"
    by (simp add: field_simps)
  then show ?thesis by (simp only: abs_divide of_int_abs abs_of_nat)
qed

lemma dist_le_iff:
  "0 < d \<Longrightarrow> \<bar>real m - real n / real d\<bar> \<le> \<bar>real k - real n / real d\<bar> \<longleftrightarrow>
    \<bar>int m * int d - int n\<bar> \<le> \<bar>int k * int d - int n\<bar>"
  unfolding dist_real by (simp only: divide_le_cancel of_int_le_iff) simp

lemma dist_eq_iff:
  "0 < d \<Longrightarrow> \<bar>real m - real n / real d\<bar> = \<bar>real k - real n / real d\<bar> \<longleftrightarrow>
    \<bar>int m * int d - int n\<bar> = \<bar>int k * int d - int n\<bar>"
  unfolding dist_real by (simp only: divide_cancel_right of_int_eq_iff) simp

lemma round_nearest:
  assumes "0 < d" and "round_mag p infb n d < infb"
  shows "\<bar>real (mag p (round_mag p infb n d)) - real n / real d\<bar> \<le> \<bar>real (mag p b) - real n / real d\<bar>"
proof -
  from assms have "round_mag p infb n d = rbits p n d" by (simp add: round_mag_def)
  moreover have "0 < p" using p_ge by simp
  ultimately show ?thesis using rbits_nearest(1) [of d p n b] assms(1) by (simp only: dist_le_iff)
qed

lemma round_tie_even:
  assumes "0 < d" and "round_mag p infb n d < infb" and "b \<noteq> round_mag p infb n d"
    and "\<bar>real (mag p (round_mag p infb n d)) - real n / real d\<bar> = \<bar>real (mag p b) - real n / real d\<bar>"
  shows "even (round_mag p infb n d)"
proof -
  from assms have R: "round_mag p infb n d = rbits p n d" by (simp add: round_mag_def)
  have p: "0 < p" using p_ge by simp
  from assms(1,4) have "\<bar>int (mag p (rbits p n d)) * int d - int n\<bar> = \<bar>int (mag p b) * int d - int n\<bar>"
    by (simp only: R dist_eq_iff)
  with rbits_nearest(2) [OF assms(1) p] assms(3) p_ge show ?thesis by (simp add: R)
qed

text \<open>Overflow starts half way between the last finite pattern and the first beyond.\<close>

lemma round_overflow:
  assumes "0 < d"
  shows "round_mag p infb n d = infb \<longleftrightarrow>
    (real (mag p (infb - 1)) + real (mag p infb)) / 2 \<le> real n / real d"
proof -
  have p: "0 < p" using p_ge by simp
  have near: "\<bar>real (mag p (rbits p n d)) - real n / real d\<bar> \<le> \<bar>real (mag p b) - real n / real d\<bar>" for b
    using rbits_nearest(1) [OF assms p, of n b] assms by (simp only: dist_le_iff)
  show ?thesis
  proof (cases "infb \<le> rbits p n d")
    case True
    then have "real (mag p (infb - 1)) < real (mag p infb)" "real (mag p infb) \<le> real (mag p (rbits p n d))"
      using infb_pos by simp_all
    with near [of "infb - 1"]
    have "(real (mag p (infb - 1)) + real (mag p infb)) / 2 \<le> real n / real d"
      by (intro nearer_above [where r = "real (mag p (rbits p n d))"])
    with True show ?thesis by (simp add: round_mag_def)
  next
    case False
    then have le: "rbits p n d \<le> infb - 1" and R: "round_mag p infb n d \<noteq> infb"
      by (auto simp: round_mag_def)
    have lt: "real (mag p (infb - 1)) < real (mag p infb)" using infb_pos by simp
    have le': "real (mag p (rbits p n d)) \<le> real (mag p (infb - 1))" using le by simp
    have "\<not> (real (mag p (infb - 1)) + real (mag p infb)) / 2 \<le> real n / real d"
    proof
      assume ge: "(real (mag p (infb - 1)) + real (mag p infb)) / 2 \<le> real n / real d"
      note same = nearer_above_eq [OF near [of infb] le' lt ge]
      from conjunct2 [OF same] have eq: "\<bar>real (mag p (rbits p n d)) - real n / real d\<bar> = \<bar>real (mag p infb) - real n / real d\<bar>" .
      from same have "real (mag p (rbits p n d)) = real (mag p (infb - 1))" by simp
      then have r: "rbits p n d = infb - 1" by simp
      from eq have "\<bar>int (mag p (rbits p n d)) * int d - int n\<bar> = \<bar>int (mag p infb) * int d - int n\<bar>"
        using assms by (simp only: dist_eq_iff)
      with rbits_nearest(2) [OF assms p, of n infb] r p_ge infb_pos have "even (infb - 1)" by simp
      with infb_even infb_pos show False by simp
    qed
    with R show ?thesis by simp
  qed
qed

text \<open>
  The same for signed values in units of \<open>1 / c\<close>: among the patterns of either sign none is nearer
  than the rounded one with the sign of the argument.
\<close>

lemma signed_nearest:
  fixes c :: real
  assumes "0 < d" and "0 < c" and "round_mag p infb n d < infb"
  shows "\<bar>(if s then - 1 else 1) * (real (mag p (round_mag p infb n d)) / c) - (if s then - 1 else 1) * (real n / real d / c)\<bar>
    \<le> \<bar>(if t then - 1 else 1) * (real (mag p b) / c) - (if s then - 1 else 1) * (real n / real d / c)\<bar>"
proof (rule signed_dist)
  note near = round_nearest [OF assms(1,3)]
  show "\<bar>real (mag p (round_mag p infb n d)) / c - real n / real d / c\<bar> \<le> \<bar>real (mag p b) / c - real n / real d / c\<bar>"
    unfolding scaled_dist [OF assms(2)] by (rule near)
  have "\<bar>real (mag p (round_mag p infb n d)) / c - real n / real d / c\<bar> \<le> \<bar>real (mag p 0) / c - real n / real d / c\<bar>"
    unfolding scaled_dist [OF assms(2)] by (rule near)
  then show "\<bar>real (mag p (round_mag p infb n d)) / c - real n / real d / c\<bar> \<le> \<bar>0 - real n / real d / c\<bar>" by simp
qed (use assms in simp_all)

lemma signed_tie_even:
  fixes c :: real
  assumes "0 < d" and "0 < c" and "round_mag p infb n d < infb" and "b \<noteq> round_mag p infb n d"
    and "\<bar>(if s then - 1 else 1) * (real (mag p (round_mag p infb n d)) / c) - (if s then - 1 else 1) * (real n / real d / c)\<bar>
    = \<bar>(if s then - 1 else 1) * (real (mag p b) / c) - (if s then - 1 else 1) * (real n / real d / c)\<bar>"
  shows "even (round_mag p infb n d)"
proof -
  have "\<bar>real (mag p (round_mag p infb n d)) / c - real n / real d / c\<bar> = \<bar>real (mag p b) / c - real n / real d / c\<bar>"
    using assms(5) by (cases s) (simp_all add: abs_minus_commute)
  then have "\<bar>real (mag p (round_mag p infb n d)) - real n / real d\<bar> = \<bar>real (mag p b) - real n / real d\<bar>"
    unfolding scaled_dist [OF assms(2)] .
  with assms(1,3,4) show ?thesis by (rule round_tie_even)
qed

end

text \<open>The four formats of dtype.h and of the C++ types \<open>float\<close> and \<open>double\<close>.\<close>

interpretation fp16: float_format 11 "0x7C00"
  by unfold_locales simp_all

interpretation bf16: float_format 8 "0x7F80"
  by unfold_locales simp_all

interpretation fp32: float_format 24 "0x7F800000"
  by unfold_locales simp_all

interpretation fp64: float_format 53 "0x7FF0000000000000"
  by unfold_locales simp_all

end
