(* ===== verification/Dtype.thy ===== *)
theory Dtype
  imports Rounding
begin

text \<open>
  runtime/include/dtype.h: the conversions between \<open>float\<close> and the 16-bit formats, written with
  the shifts and masks of the source.  A C++ \<open>float\<close> is its bit pattern, a \<open>u32\<close>; the
  \<open>memcpy\<close> between the two is the identity here.  The lemmas show that widening is exact, that
  narrowing is rounding to nearest, ties to even, and what happens to the special values.
\<close>

section \<open>The conversions\<close>

text \<open>
  The normalisation loop of a subnormal, \<open>do { man <<= 1; ++e; } while ((man & 0x400) == 0);\<close>.  It
  does not end when no bit of \<open>man\<close> can reach position 10, hence the \<open>option\<close>.
\<close>

partial_function (option) fp16_norm :: "u32 \<Rightarrow> int \<Rightarrow> (u32 \<times> int) option" where
  "fp16_norm man e =
     (let man' = push_bit 1 man; e' = e + 1
      in if man' AND 0x400 = 0 then fp16_norm man' e' else Some (man', e'))"

definition fp16ToFp32 :: "u16 \<Rightarrow> u32" where
  "fp16ToFp32 h =
     (let sign = push_bit 16 (ucast (h AND 0x8000));
          exp = ucast (drop_bit 10 h AND 0x1F);
          man = ucast (h AND 0x3FF)
      in if exp = 0 then
           (if man = 0 then sign
            else (case fp16_norm man (- 1) of
                    Some (man, e) \<Rightarrow>
                      sign OR push_bit 23 (word_of_int (112 - e)) OR push_bit 13 (man AND 0x3FF)
                  | None \<Rightarrow> 0))
         else if exp = 0x1F then sign OR 0x7F800000 OR push_bit 13 man
         else sign OR push_bit 23 (exp + 112) OR push_bit 13 man)"

definition fp32ToFp16 :: "u32 \<Rightarrow> u16" where
  "fp32ToFp16 x =
     (let sign = (ucast (drop_bit 16 x AND 0x8000) :: u16);
          exp = drop_bit 23 x AND 0xFF;
          man = x AND 0x7FFFFF;
          e = int (unat exp) - 112
      in if exp = 0xFF then
           (if man = 0 then sign OR 0x7C00
            else sign OR 0x7C00 OR ucast (drop_bit 13 man) OR 0x200)
         else if exp = 0 then sign
         else if 31 \<le> e then sign OR 0x7C00
         else if e \<le> 0 then
           (if e < - 10 then sign
            else let m = man OR 0x800000;
                     shift = nat (14 - e);
                     half = (push_bit (shift - 1) 1 :: u32);
                     h = drop_bit shift m;
                     rem = m AND (push_bit shift 1 - 1);
                     h = (if half < rem \<or> (rem = half \<and> h AND 1 \<noteq> 0) then h + 1 else h)
                 in if 0x400 \<le> h then sign OR 0x0400 else sign OR ucast h)
         else
           (let h = (push_bit 10 (word_of_int e) :: u32);
                rem = man AND 0x1FFF;
                m10 = drop_bit 13 man;
                m10 = (if 0x1000 < rem \<or> (rem = 0x1000 \<and> m10 AND 1 \<noteq> 0) then m10 + 1 else m10);
                h = (if m10 = 0x400 then h + 0x400 else h);
                m10 = (if m10 = 0x400 then 0 else m10)
            in sign OR ucast h OR ucast m10))"

definition bf16ToFp32 :: "u16 \<Rightarrow> u32" where
  "bf16ToFp32 b = push_bit 16 (ucast b)"

definition fp32ToBf16 :: "u32 \<Rightarrow> u16" where
  "fp32ToBf16 x =
     (let b = drop_bit 16 x;
          rem = x AND 0xFFFF
      in ucast (if 0x8000 < rem \<or> (rem = 0x8000 \<and> b AND 1 \<noteq> 0) then b + 1 else b))"

text \<open>
  \<open>loadU16\<close>, \<open>storeU16\<close>, \<open>loadU32\<close> and \<open>storeU32\<close> copy the object representation, which
  is little endian on the hosts the simulator runs on (docs/spec/isa.md fixes little endian).
\<close>

definition u16_of_bytes :: "u8 list \<Rightarrow> u16" where
  "u16_of_bytes bs = ucast (bs ! 0) OR push_bit 8 (ucast (bs ! 1))"

definition bytes_of_u16 :: "u16 \<Rightarrow> u8 list" where
  "bytes_of_u16 v = [ucast v, ucast (drop_bit 8 v)]"

definition u32_of_bytes :: "u8 list \<Rightarrow> u32" where
  "u32_of_bytes bs = ucast (bs ! 0) OR push_bit 8 (ucast (bs ! 1))
     OR push_bit 16 (ucast (bs ! 2)) OR push_bit 24 (ucast (bs ! 3))"

definition bytes_of_u32 :: "u32 \<Rightarrow> u8 list" where
  "bytes_of_u32 v =
     [ucast v, ucast (drop_bit 8 v), ucast (drop_bit 16 v), ucast (drop_bit 24 v)]"

lemma length_bytes_of_u16 [simp]: "length (bytes_of_u16 v) = 2"
  by (simp add: bytes_of_u16_def)

lemma length_bytes_of_u32 [simp]: "length (bytes_of_u32 v) = 4"
  by (simp add: bytes_of_u32_def)

lemma u16_of_bytes_of_u16 [simp]: "u16_of_bytes (bytes_of_u16 v) = v"
  by (rule bit_word_eqI)
    (auto simp: u16_of_bytes_def bytes_of_u16_def bit_simps)

lemma u32_of_bytes_of_u32 [simp]: "u32_of_bytes (bytes_of_u32 v) = v"
proof (rule bit_word_eqI)
  fix n
  assume "n < LENGTH(32)"
  then consider "n < 8" | "8 \<le> n" "n < 16" | "16 \<le> n" "n < 24" | "24 \<le> n" "n < 32"
    by fastforce
  then show "bit (u32_of_bytes (bytes_of_u32 v)) n = bit v n"
    by cases (auto simp: u32_of_bytes_def bytes_of_u32_def bit_simps)
qed

section \<open>Sign, magnitude and value of a pattern\<close>

text \<open>
  A pattern is its top bit and the rest; the rest of a finite pattern counts units of the format's
  least subnormal (\<open>2 ^ - 24\<close> for fp16, \<open>2 ^ - 149\<close> for fp32, \<open>2 ^ - 133\<close> for bf16).
\<close>

definition rest16 :: "u16 \<Rightarrow> nat" where
  "rest16 h = unat h mod 2 ^ 15"

definition rest32 :: "u32 \<Rightarrow> nat" where
  "rest32 x = unat x mod 2 ^ 31"

definition sgn16 :: "u16 \<Rightarrow> bool" where
  "sgn16 h = (2 ^ 15 \<le> unat h)"

definition sgn32 :: "u32 \<Rightarrow> bool" where
  "sgn32 x = (2 ^ 31 \<le> unat x)"

definition finite16 :: "u16 \<Rightarrow> bool" where
  "finite16 h = (rest16 h < 0x7C00)"

definition nan16 :: "u16 \<Rightarrow> bool" where
  "nan16 h = (0x7C00 < rest16 h)"

definition finite32 :: "u32 \<Rightarrow> bool" where
  "finite32 x = (rest32 x < 0x7F800000)"

definition nan32 :: "u32 \<Rightarrow> bool" where
  "nan32 x = (0x7F800000 < rest32 x)"

definition val16 :: "u16 \<Rightarrow> real" where
  "val16 h = (if sgn16 h then - 1 else 1) * (real (mag 11 (rest16 h)) / 2 ^ 24)"

definition val32 :: "u32 \<Rightarrow> real" where
  "val32 x = (if sgn32 x then - 1 else 1) * (real (mag 24 (rest32 x)) / 2 ^ 149)"

definition valbf16 :: "u16 \<Rightarrow> real" where
  "valbf16 b = (if sgn16 b then - 1 else 1) * (real (mag 8 (rest16 b)) / 2 ^ 133)"

lemma unat_split16: "unat h = (if sgn16 h then 2 ^ 15 else 0) + rest16 h"
proof -
  have "unat h < 2 ^ 16" using unsigned_less [of h] by simp
  then show ?thesis by (auto simp: sgn16_def rest16_def mod_if)
qed

lemma unat_split32: "unat x = (if sgn32 x then 2 ^ 31 else 0) + rest32 x"
proof -
  have "unat x < 2 ^ 32" using unsigned_less [of x] by simp
  then show ?thesis by (auto simp: sgn32_def rest32_def mod_if)
qed

lemma rest16_less: "rest16 h < 2 ^ 15"
  by (simp add: rest16_def)

lemma rest32_less: "rest32 x < 2 ^ 31"
  by (simp add: rest32_def)

lemma pattern16_eqI: "sgn16 a = sgn16 b \<Longrightarrow> rest16 a = rest16 b \<Longrightarrow> a = b"
  using unat_split16 [of a] unat_split16 [of b] by (simp add: word_unat_eq_iff)

lemma pattern32_eqI: "sgn32 a = sgn32 b \<Longrightarrow> rest32 a = rest32 b \<Longrightarrow> a = b"
  using unat_split32 [of a] unat_split32 [of b] by (simp add: word_unat_eq_iff)

text \<open>The masks of the source as remainders.\<close>

lemma literal_masks:
  "(1 :: 'a::len word) = mask 1" "(0x1F :: 'a word) = mask 5" "(0xFF :: 'a word) = mask 8"
  "(0x3FF :: 'a word) = mask 10" "(0x1FFF :: 'a word) = mask 13" "(0xFFFF :: 'a word) = mask 16"
  "(0x7FFFFF :: 'a word) = mask 23"
  by (simp_all add: mask_eq_exp_minus_1)

lemma and_as_mod [to_nat]:
  "unat (x AND 1 :: 'a::len word) = unat x mod 2 ^ 1"
  "unat (x AND 0x1F) = unat x mod 2 ^ 5"
  "unat (x AND 0xFF) = unat x mod 2 ^ 8"
  "unat (x AND 0x3FF) = unat x mod 2 ^ 10"
  "unat (x AND 0x1FFF) = unat x mod 2 ^ 13"
  "unat (x AND 0xFFFF) = unat x mod 2 ^ 16"
  "unat (x AND 0x7FFFFF) = unat x mod 2 ^ 23"
  by (simp_all only: literal_masks unat_and_mask_nat)

lemma exp_man32:
  "unat (drop_bit 23 x AND 0xFF :: u32) = rest32 x div 2 ^ 23"
  "unat (x AND 0x7FFFFF :: u32) = rest32 x mod 2 ^ 23"
proof -
  have "unat x mod 2 ^ 31 = 2 ^ 23 * (unat x div 2 ^ 23 mod 2 ^ 8) + unat x mod 2 ^ 23"
    using mod_mult2_eq [of "unat x" "2 ^ 23" "2 ^ 8"] by (simp flip: power_add)
  then show "unat (drop_bit 23 x AND 0xFF :: u32) = rest32 x div 2 ^ 23"
    and "unat (x AND 0x7FFFFF :: u32) = rest32 x mod 2 ^ 23"
    unfolding rest32_def to_nat by (simp_all del: power_numeral_reduce)
qed

lemma exp_man16:
  "unat (drop_bit 10 h AND 0x1F :: u16) = rest16 h div 2 ^ 10"
  "unat (h AND 0x3FF :: u16) = rest16 h mod 2 ^ 10"
proof -
  have "unat h mod 2 ^ 15 = 2 ^ 10 * (unat h div 2 ^ 10 mod 2 ^ 5) + unat h mod 2 ^ 10"
    using mod_mult2_eq [of "unat h" "2 ^ 10" "2 ^ 5"] by (simp flip: power_add)
  then show "unat (drop_bit 10 h AND 0x1F :: u16) = rest16 h div 2 ^ 10"
    and "unat (h AND 0x3FF :: u16) = rest16 h mod 2 ^ 10"
    unfolding rest16_def to_nat by simp_all
qed

lemma sgn32_bit: "sgn32 x = bit x 31"
proof -
  have "unat x < 2 ^ 32" using unsigned_less [of x] by simp
  then have "odd (unat x div 2 ^ 31) \<longleftrightarrow> 2 ^ 31 \<le> unat x" by (auto simp: div_if)
  then have "bit (unat x) 31 = sgn32 x" by (simp add: sgn32_def bit_iff_odd [where ?'a = nat])
  then show ?thesis by (simp add: bit_unsigned_iff)
qed

lemma sgn16_bit: "sgn16 h = bit h 15"
proof -
  have "unat h < 2 ^ 16" using unsigned_less [of h] by simp
  then have "odd (unat h div 2 ^ 15) \<longleftrightarrow> 2 ^ 15 \<le> unat h" by (auto simp: div_if)
  then have "bit (unat h) 15 = sgn16 h" by (simp add: sgn16_def bit_iff_odd [where ?'a = nat])
  then show ?thesis by (simp add: bit_unsigned_iff)
qed

lemma bit_8000: "bit (0x8000 :: 'a::len word) n \<longleftrightarrow> n = 15 \<and> 15 < LENGTH('a)"
proof -
  have "bit (2 ^ 15 :: 'a word) n \<longleftrightarrow> n = 15 \<and> 15 < LENGTH('a)"
    by (auto simp only: bit_exp_iff possible_bit_word)
  then show ?thesis by simp
qed

lemma sign_word32:
  "(ucast (drop_bit 16 x AND 0x8000 :: u32) :: u16) = (if sgn32 x then 0x8000 else 0)"
proof -
  have "drop_bit 16 x AND 0x8000 = (if bit x 31 then 0x8000 else (0 :: u32))"
    by (rule bit_word_eqI, simp only: bit_and_iff bit_drop_bit_eq bit_8000 if_distrib [where f = "\<lambda>w. bit w _"]) auto
  then show ?thesis by (simp add: sgn32_bit)
qed

lemma or_sign16:
  "unat (w :: u16) < 2 ^ 15 \<Longrightarrow> unat ((if s then 0x8000 else 0) OR w) = (if s then 2 ^ 15 else 0) + unat w"
  by (cases s) (simp_all add: unat_or_high_low [of 15])

lemma or_sign16_parts:
  fixes w :: u16
  assumes "unat w < 2 ^ 15"
  shows "sgn16 ((if s then 0x8000 else 0) OR w) = s" and "rest16 ((if s then 0x8000 else 0) OR w) = unat w"
proof -
  have "(2 ^ 15 + unat w) mod 2 ^ 15 = unat w" using assms by simp
  then show "sgn16 ((if s then 0x8000 else 0) OR w) = s"
    and "rest16 ((if s then 0x8000 else 0) OR w) = unat w"
    unfolding sgn16_def rest16_def or_sign16 [OF assms] using assms by (cases s; simp)+
qed


lemma mag24: "mag 24 r = (if r div 2 ^ 23 = 0 then r else (r mod 2 ^ 23 + 2 ^ 23) * 2 ^ (r div 2 ^ 23 - 1))"
  by (rule mag_unfold) simp

lemma sig24_less: "r mod 2 ^ 23 + 2 ^ 23 < (2 ^ 24 :: nat)"
proof -
  have "r mod 2 ^ 23 < (2 ^ 23 :: nat)" by simp
  then show ?thesis by simp
qed

text \<open>The five exponent ranges of a narrowing to fp16.\<close>

lemma narrow16_zero:
  assumes "r div 2 ^ 23 = 0"
  shows "round_mag 11 0x7C00 (mag 24 r) (2 ^ 125) = 0"
proof -
  from assms have "r < 2 ^ 23" by (simp add: div_eq_0_iff)
  moreover have "mag 24 r = r" unfolding mag24 assms by simp
  ultimately show ?thesis by (simp add: round_mag_def rbits_tiny)
qed

lemma narrow16_under:
  assumes "r div 2 ^ 23 = Suc e" and "e < 101"
  shows "round_mag 11 0x7C00 (mag 24 r) (2 ^ 125) = 0"
proof -
  have "mag 24 r = (r mod 2 ^ 23 + 2 ^ 23) * 2 ^ e" unfolding mag24 assms(1) by simp
  moreover have "(r mod 2 ^ 23 + 2 ^ 23) * 2 ^ e < 2 ^ 24 * 2 ^ 100"
    using assms(2) by (intro mult_less_le_imp_less sig24_less power_increasing) simp_all
  ultimately have "2 * mag 24 r < 2 ^ 125" by (simp add: mult.commute)
  then show ?thesis by (simp add: round_mag_def rbits_tiny)
qed

lemma narrow16_subnormal:
  assumes "r div 2 ^ 23 = 102 + j" and "j \<le> 10"
  shows "round_mag 11 0x7C00 (mag 24 r) (2 ^ 125) = rne (r mod 2 ^ 23 + 2 ^ 23) (2 ^ (24 - j))"
    and "rne (r mod 2 ^ 23 + 2 ^ 23) (2 ^ (24 - j)) \<le> 0x400"
proof -
  define m where "m = r mod 2 ^ 23 + 2 ^ 23"
  have m: "mag 24 r = m * (2 ^ j * 2 ^ 101)" unfolding mag24 assms(1) m_def by (simp add: power_add mult_ac)
  have "24 - j + j = 24" using assms(2) by simp
  then have d: "(2 ^ 125 :: nat) = 2 ^ (24 - j) * (2 ^ j * 2 ^ 101)"
    unfolding mult.assoc [symmetric] power_add [symmetric] by simp
  have m24: "m < 2 ^ 24" unfolding m_def by (rule sig24_less)
  have le: "rne m (2 ^ (24 - j)) \<le> 0x400"
  proof (rule rne_le)
    have "(2::nat) ^ 14 \<le> 2 ^ (24 - j)" using assms(2) by (intro power_increasing) auto
    then show "m \<le> 0x400 * 2 ^ (24 - j)" using m24 by simp
  qed simp
  have "m * (2 ^ j * 2 ^ 101) < 2 ^ 24 * (2 ^ 10 * 2 ^ 101)"
    using m24 assms(2) by (intro mult_less_le_imp_less mult_le_mono power_increasing) simp_all
  then have "rbits 11 (mag 24 r) (2 ^ 125) = rne (m * (2 ^ j * 2 ^ 101)) (2 ^ 125)"
    using rbits_eqI [of "2 ^ 125" 11 0 "mag 24 r"] m by simp
  also have "\<dots> = rne m (2 ^ (24 - j))" unfolding d by (rule rne_scale) simp
  finally show "round_mag 11 0x7C00 (mag 24 r) (2 ^ 125) = rne (r mod 2 ^ 23 + 2 ^ 23) (2 ^ (24 - j))"
    and "rne (r mod 2 ^ 23 + 2 ^ 23) (2 ^ (24 - j)) \<le> 0x400"
    using le by (simp_all add: round_mag_def m_def)
qed

lemma rne_add_even: "0 < d \<Longrightarrow> even k \<Longrightarrow> rne (n + k * d) d = k + rne n d"
  by (simp add: rne_def Let_def)

lemma narrow16_normal:
  assumes "r div 2 ^ 23 = 113 + q" and "q < 30"
  shows "round_mag 11 0x7C00 (mag 24 r) (2 ^ 125) = (q + 1) * 2 ^ 10 + rne (r mod 2 ^ 23) (2 ^ 13)"
    and "rne (r mod 2 ^ 23) (2 ^ 13) \<le> 0x400"
proof -
  define m where "m = r mod 2 ^ 23"
  have m: "mag 24 r = (m + 2 ^ 10 * 2 ^ 13) * (2 ^ 112 * 2 ^ q)"
    unfolding mag24 assms(1) m_def by (simp add: power_add)
  have lt: "m < 2 ^ 23" unfolding m_def by simp
  then have le: "rne m (2 ^ 13) \<le> 0x400" by (intro rne_le) simp_all
  have "rbits 11 (mag 24 r) (2 ^ 125) = q * 2 ^ (11 - 1) + rne (mag 24 r) (2 ^ 125 * 2 ^ q)"
  proof (rule rbits_eqI)
    show "q = 0 \<or> 2 ^ (11 - 1) * 2 ^ q * 2 ^ 125 \<le> mag 24 r" unfolding m by simp
    show "mag 24 r < 2 ^ 11 * 2 ^ q * 2 ^ 125" unfolding m using lt by simp
  qed simp_all
  also have "(2 ^ 125 * 2 ^ q :: nat) = 2 ^ 13 * (2 ^ 112 * 2 ^ q)" by simp
  also have "rne (mag 24 r) (2 ^ 13 * (2 ^ 112 * 2 ^ q)) = rne (m + 2 ^ 10 * 2 ^ 13) (2 ^ 13)"
    unfolding m by (rule rne_scale) simp
  also have "\<dots> = 2 ^ 10 + rne m (2 ^ 13)" by (rule rne_add_even) simp_all
  finally show "round_mag 11 0x7C00 (mag 24 r) (2 ^ 125) = (q + 1) * 2 ^ 10 + rne (r mod 2 ^ 23) (2 ^ 13)"
    and "rne (r mod 2 ^ 23) (2 ^ 13) \<le> 0x400"
    using le assms(2) by (simp_all add: round_mag_def m_def)
qed

lemma narrow16_over:
  assumes "r div 2 ^ 23 = 143 + q"
  shows "round_mag 11 0x7C00 (mag 24 r) (2 ^ 125) = 0x7C00"
proof -
  have "2 ^ 23 * 2 ^ 142 \<le> (r mod 2 ^ 23 + 2 ^ 23) * (2 ^ (142 + q) :: nat)"
    by (intro mult_le_mono power_increasing) simp_all
  moreover have "mag 24 r = (r mod 2 ^ 23 + 2 ^ 23) * 2 ^ (142 + q)"
    unfolding mag24 assms(1) by simp
  moreover have "mag 11 0x7C00 = 2 ^ 40" by (simp add: mag_def)
  ultimately have "mag 11 0x7C00 * 2 ^ 125 \<le> mag 24 r" by simp
  then have "0x7C00 \<le> rbits 11 (mag 24 r) (2 ^ 125)" by (intro rbits_ge) simp_all
  then show ?thesis by (simp add: round_mag_def)
qed


lemma rne_shift:
  "0 < t \<Longrightarrow> rne n (2 ^ t) =
    (if 2 ^ (t - 1) < n mod 2 ^ t \<or> n mod 2 ^ t = 2 ^ (t - 1) \<and> odd (n div 2 ^ t)
     then n div 2 ^ t + 1 else n div 2 ^ t)"
  by (cases t) (auto simp: rne_def Let_def)

text \<open>The rounding step the source writes with shifts.\<close>

lemma round_shift_word:
  fixes m :: u32
  assumes "0 < t" and "t < 32"
  shows "unat (if push_bit (t - 1) 1 < m AND (push_bit t 1 - 1) \<or>
        (m AND (push_bit t 1 - 1) = push_bit (t - 1) 1 \<and> drop_bit t m AND 1 \<noteq> 0)
      then drop_bit t m + 1 else drop_bit t m) = rne (unat m) (2 ^ t)"
proof -
  have mask: "push_bit t 1 - 1 = (mask t :: u32)" by (simp add: mask_eq_exp_minus_1)
  have half: "unat (push_bit (t - 1) 1 :: u32) = 2 ^ (t - 1)"
  proof (subst unat_push_bit_nat)
    have "(2::nat) ^ (t - 1) < 2 ^ 32" using assms by (intro power_strict_increasing) simp_all
    then show "unat (1 :: u32) * 2 ^ (t - 1) < 2 ^ LENGTH(32)" by simp
  qed simp
  have rem: "unat (m AND mask t) = unat m mod 2 ^ t" by (rule unat_and_mask_nat)
  have h: "unat (drop_bit t m) = unat m div 2 ^ t" by (rule unat_drop_bit_nat)
  have "unat m div 2 ^ t \<le> unat m div 2 ^ 1" using assms(1)
    by (intro div_le_mono2) (simp_all add: self_le_power)
  moreover have "unat m < 2 ^ 32" using unsigned_less [of m] by simp
  ultimately have "unat m div 2 ^ t + 1 < 2 ^ 32" by simp
  then have h1: "unat (drop_bit t m + 1) = unat m div 2 ^ t + 1"
    by (subst unat_add_no_wrap) (simp_all add: h)
  have odd: "drop_bit t m AND 1 \<noteq> 0 \<longleftrightarrow> odd (unat m div 2 ^ t)"
    by (simp add: word_unat_eq_iff and_as_mod h odd_iff_mod_2_eq_one)
  show ?thesis unfolding mask rne_shift [OF assms(1)] word_less_nat_alt word_unat_eq_iff [of "m AND mask t"]
      half rem odd by (simp add: h h1)
qed


lemma or_hidden_bit: "unat (w :: u32) < 2 ^ 23 \<Longrightarrow> unat (w OR 0x800000) = unat w + 2 ^ 23"
  by (subst or.commute) (simp add: unat_or_high_low [of 23])

text \<open>The branches of \<open>fp32ToFp16\<close> by exponent field.\<close>

lemma fp32ToFp16_rest:
  assumes "finite32 x"
  obtains w where "fp32ToFp16 x = (if sgn32 x then 0x8000 else 0) OR w"
    and "unat w = round_mag 11 0x7C00 (mag 24 (rest32 x)) (2 ^ 125)"
proof -
  define E where "E = rest32 x div 2 ^ 23"
  have "rest32 x < 255 * 2 ^ 23" using assms by (simp add: finite32_def)
  then have E255: "E < 255" by (simp add: E_def div_less_iff_less_mult)
  have exp: "unat (drop_bit 23 x AND 0xFF :: u32) = E" using exp_man32(1) by (simp only: E_def)
  have man: "unat (x AND 0x7FFFFF :: u32) = rest32 x mod 2 ^ 23" by (rule exp_man32(2))
  have c255: "drop_bit 23 x AND 0xFF \<noteq> (0xFF :: u32)" using exp E255 by auto
  have c0: "drop_bit 23 x AND 0xFF = (0 :: u32) \<longleftrightarrow> E = 0" using exp by (auto simp: word_unat_eq_iff)
  note unfold = fp32ToFp16_def Let_def sign_word32 exp c0 if_not_P [OF c255]
  consider "E = 0" | e where "E = Suc e" "e < 101" | j where "E = 102 + j" "j \<le> 10"
    | q where "E = 113 + q" "q < 30" | q where "E = 143 + q"
  proof -
    have "E = 0 \<or> E = Suc (E - 1) \<and> E - 1 < 101 \<or> E = 102 + (E - 102) \<and> E - 102 \<le> 10
      \<or> E = 113 + (E - 113) \<and> E - 113 < 30 \<or> E = 143 + (E - 143)" by arith
    then show ?thesis using that by blast
  qed
  then show ?thesis
  proof cases
    case 1
    then have "fp32ToFp16 x = (if sgn32 x then 0x8000 else 0) OR (0 :: u16)" unfolding unfold by simp
    moreover have "round_mag 11 0x7C00 (mag 24 (rest32 x)) (2 ^ 125) = 0"
      using 1 unfolding E_def by (rule narrow16_zero)
    ultimately show ?thesis by (intro that) (assumption, simp)
  next
    case 2
    then have "fp32ToFp16 x = (if sgn32 x then 0x8000 else 0) OR (0 :: u16)" unfolding unfold by simp
    moreover have "round_mag 11 0x7C00 (mag 24 (rest32 x)) (2 ^ 125) = 0"
      using 2 unfolding E_def by (rule narrow16_under)
    ultimately show ?thesis by (intro that) (assumption, simp)
  next
    case 3
    define m :: u32 where "m = (x AND 0x7FFFFF) OR 0x800000"
    have m: "unat m = rest32 x mod 2 ^ 23 + 2 ^ 23" unfolding m_def
      by (subst or_hidden_bit) (simp_all only: man, simp)
    define h where "h = (if push_bit (24 - j - 1) 1 < m AND (push_bit (24 - j) 1 - 1) \<or>
        (m AND (push_bit (24 - j) 1 - 1) = push_bit (24 - j - 1) 1 \<and> drop_bit (24 - j) m AND 1 \<noteq> 0)
      then drop_bit (24 - j) m + 1 else drop_bit (24 - j) m)"
    have h: "unat h = rne (rest32 x mod 2 ^ 23 + 2 ^ 23) (2 ^ (24 - j))"
      unfolding h_def m [symmetric] using 3 by (intro round_shift_word) simp_all
    note nr = narrow16_subnormal [OF 3 [unfolded E_def]]
    have "nat (14 - (int E - 112)) = 24 - j" using 3 by simp
    then have "fp32ToFp16 x = (if 0x400 \<le> h then (if sgn32 x then 0x8000 else 0) OR 0x0400
        else (if sgn32 x then 0x8000 else 0) OR ucast h)"
      unfolding unfold h_def m_def using 3 by simp
    also have "\<dots> = (if sgn32 x then 0x8000 else 0) OR ucast h"
    proof (cases "0x400 \<le> h")
      case True
      then have "0x400 \<le> unat h" by (simp add: word_le_nat_alt)
      with nr(2) h have "unat h = unat (0x400 :: u32)" by simp
      then have "h = 0x400" by (simp only: word_unat_eq_iff)
      then show ?thesis by simp
    qed simp
    finally show ?thesis using nr h by (intro that) (assumption, simp add: unat_ucast_small)
  next
    case 4
    define m :: u32 where "m = x AND 0x7FFFFF"
    have m: "unat m = rest32 x mod 2 ^ 23" unfolding m_def by (rule man)
    define m10 where "m10 = (if push_bit 12 1 < m AND (push_bit 13 1 - 1) \<or>
        (m AND (push_bit 13 1 - 1) = push_bit 12 1 \<and> drop_bit 13 m AND 1 \<noteq> 0)
      then drop_bit 13 m + 1 else drop_bit 13 m)"
    have m10: "unat m10 = rne (rest32 x mod 2 ^ 23) (2 ^ 13)"
      using round_shift_word [of 13 m] unfolding m10_def m [symmetric] by simp
    define h :: u32 where "h = push_bit 10 (word_of_int (1 + int q))"
    have ex: "int E - 112 = 1 + int q" using 4 by simp
    note nr = narrow16_normal [OF 4 [unfolded E_def]]
    have q1: "unat (of_nat (q + 1) :: u32) = q + 1" using 4(2) by (intro unat_of_nat_small) simp
    have "h = push_bit 10 (of_nat (q + 1))" unfolding h_def by simp
    moreover have "unat (push_bit 10 (of_nat (q + 1) :: u32)) = (q + 1) * 2 ^ 10"
      by (rule unat_push_bit_nat [where x = "of_nat (q + 1) :: u32" and n = 10, unfolded q1])
        (use 4(2) in simp)
    ultimately have h: "unat h = (q + 1) * 2 ^ 10" by simp
    define w :: u16 where "w = ucast (if m10 = 0x400 then h + 0x400 else h) OR ucast (if m10 = 0x400 then 0 else m10)"
    have "fp32ToFp16 x = (if sgn32 x then 0x8000 else 0) OR w"
      unfolding unfold ex h_def m10_def m_def w_def using 4 by (simp add: or.assoc)
    moreover have "unat w = (q + 1) * 2 ^ 10 + unat m10"
    proof (cases "m10 = 0x400")
      case True
      have "unat (h + 0x400) = (q + 1) * 2 ^ 10 + 0x400"
        using h 4(2) by (subst unat_add_no_wrap) simp_all
      with True 4(2) show ?thesis by (simp add: w_def unat_ucast_small)
    next
      case False
      then have "unat m10 \<noteq> unat (0x400 :: u32)" by (simp only: word_unat_eq_iff not_False_eq_True)
      with nr(2) m10 have lt: "unat m10 < 2 ^ 10" by simp
      have "unat (ucast h OR ucast m10 :: u16) = unat (ucast h :: u16) + unat (ucast m10 :: u16)"
        using lt h 4(2) by (intro unat_or_high_low [of 10]) (simp_all add: unat_ucast_small)
      with False lt h 4(2) show ?thesis by (simp add: w_def unat_ucast_small)
    qed
    ultimately show ?thesis using nr m10 by (intro that) (assumption, simp)
  next
    case 5
    then have "fp32ToFp16 x = (if sgn32 x then 0x8000 else 0) OR 0x7C00" unfolding unfold by simp
    moreover have "round_mag 11 0x7C00 (mag 24 (rest32 x)) (2 ^ 125) = 0x7C00"
      using 5 unfolding E_def by (rule narrow16_over)
    ultimately show ?thesis by (intro that) (assumption, simp)
  qed
qed


lemma fp32ToFp16_finite:
  assumes "finite32 x"
  shows "sgn16 (fp32ToFp16 x) = sgn32 x"
    and "rest16 (fp32ToFp16 x) = round_mag 11 0x7C00 (mag 24 (rest32 x)) (2 ^ 125)"
proof -
  from assms obtain w where w: "fp32ToFp16 x = (if sgn32 x then 0x8000 else 0) OR w"
    "unat w = round_mag 11 0x7C00 (mag 24 (rest32 x)) (2 ^ 125)" by (rule fp32ToFp16_rest)
  have "unat w \<le> 0x7C00" unfolding w(2) by (rule fp16.round_le)
  then have "unat w < 2 ^ 15" by simp
  from or_sign16_parts [OF this] w show "sgn16 (fp32ToFp16 x) = sgn32 x"
    and "rest16 (fp32ToFp16 x) = round_mag 11 0x7C00 (mag 24 (rest32 x)) (2 ^ 125)"
    by (simp_all only:)
qed

lemma fp32ToFp16_special:
  assumes "\<not> finite32 x"
  shows "sgn16 (fp32ToFp16 x) = sgn32 x"
    and "rest16 (fp32ToFp16 x) = (if nan32 x then unat (0x7C00 OR ucast (drop_bit 13 (x AND 0x7FFFFF)) OR 0x200 :: u16) else 0x7C00)"
    and "nan32 x \<Longrightarrow> nan16 (fp32ToFp16 x)"
proof -
  define M where "M = rest32 x mod 2 ^ 23"
  have "255 * 2 ^ 23 \<le> rest32 x" "rest32 x < 256 * 2 ^ 23"
    using assms rest32_less [of x] by (simp_all add: finite32_def)
  then have E: "rest32 x div 2 ^ 23 = 255" by simp
  then have R: "rest32 x = 255 * 2 ^ 23 + M" unfolding M_def by (metis div_mult_mod_eq)
  have exp: "drop_bit 23 x AND 0xFF = (0xFF :: u32)"
    using exp_man32(1) [of x] E by (simp add: word_unat_eq_iff)
  have man: "unat (x AND 0x7FFFFF) = M" using exp_man32(2) [of x] by (simp add: M_def)
  have nan: "nan32 x \<longleftrightarrow> x AND 0x7FFFFF \<noteq> 0" using man R by (simp add: nan32_def word_unat_eq_iff)
  define p :: u16 where "p = ucast (drop_bit 13 (x AND 0x7FFFFF)) OR 0x200"
  have "M < 2 ^ 23" by (simp add: M_def)
  moreover have ud: "unat (drop_bit 13 (x AND 0x7FFFFF)) = M div 2 ^ 13"
    by (simp only: unat_drop_bit_nat man)
  ultimately have "unat (drop_bit 13 (x AND 0x7FFFFF)) < 2 ^ 10" by (simp only: ud) simp
  then have d: "unat (ucast (drop_bit 13 (x AND 0x7FFFFF)) :: u16) < 2 ^ 10"
    by (subst unat_ucast_small) simp_all
  have p0: "unat p = unat (ucast (drop_bit 13 (x AND 0x7FFFFF)) :: u16) OR unat (0x200 :: u16)"
    unfolding p_def by (rule unsigned_or_eq)
  have "unat p < 2 ^ 10" unfolding p0 by (intro or_less_power d) simp
  moreover have "0 < unat p" unfolding p_def by (simp add: unat_gt_0 or_eq_0_iff)
  ultimately have q: "unat (0x7C00 OR p) = 0x7C00 + unat p" "unat p < 2 ^ 10" "0 < unat p"
    by (simp_all add: unat_or_high_low [of 10])
  have "fp32ToFp16 x = (if sgn32 x then 0x8000 else 0) OR (if nan32 x then 0x7C00 OR p else 0x7C00)"
    unfolding fp32ToFp16_def Let_def sign_word32 exp nan p_def by (simp add: or.assoc)
  moreover have "unat (if nan32 x then 0x7C00 OR p else 0x7C00) < 2 ^ 15" using q by simp
  ultimately have r: "sgn16 (fp32ToFp16 x) = sgn32 x"
    "rest16 (fp32ToFp16 x) = unat (if nan32 x then 0x7C00 OR p else 0x7C00)"
    by (simp_all only: or_sign16_parts)
  then show "sgn16 (fp32ToFp16 x) = sgn32 x"
    and "rest16 (fp32ToFp16 x) = (if nan32 x then unat (0x7C00 OR ucast (drop_bit 13 (x AND 0x7FFFFF)) OR 0x200 :: u16) else 0x7C00)"
    by (simp_all add: p_def or.assoc)
  show "nan32 x \<Longrightarrow> nan16 (fp32ToFp16 x)" using r q by (simp add: nan16_def)
qed

section \<open>Widening\<close>

lemma and_400: "unat (w :: u32) < 2 ^ 11 \<Longrightarrow> w AND 0x400 = 0 \<longleftrightarrow> unat w < 2 ^ 10"
proof -
  assume w: "unat w < 2 ^ 11"
  have b: "bit (0x400 :: u32) n \<longleftrightarrow> n = 10" for n
  proof -
    have "bit (2 ^ 10 :: u32) n \<longleftrightarrow> n = 10" by (simp only: bit_exp_iff possible_bit_word) auto
    then show ?thesis by simp
  qed
  have "w AND 0x400 = 0 \<longleftrightarrow> \<not> bit w 10"
  proof
    assume "w AND 0x400 = 0"
    then have "\<not> bit (w AND 0x400) 10" by simp
    then show "\<not> bit w 10" by (simp only: bit_and_iff b) simp
  next
    assume "\<not> bit w 10"
    then show "w AND 0x400 = 0" by (intro bit_word_eqI, simp only: bit_and_iff b) auto
  qed
  also have "bit w 10 \<longleftrightarrow> bit (unat w) 10" by (simp add: bit_unsigned_iff)
  also have "\<dots> \<longleftrightarrow> 2 ^ 10 \<le> unat w"
    using w by (auto simp: bit_iff_odd [where ?'a = nat] div_if)
  finally show ?thesis by (simp add: not_le)
qed

text \<open>The normalisation loop ends for every subnormal, after as many rounds as the shift it needs.\<close>

lemma fp16_norm_returns:
  assumes "2 ^ 10 \<le> unat man * 2 ^ Suc k" and "unat man * 2 ^ Suc k < 2 ^ 11"
  shows "fp16_norm man e = Some (push_bit (Suc k) man, e + int (Suc k))"
  using assms
proof (induction k arbitrary: man e)
  case 0
  then have m: "unat (push_bit 1 man) = unat man * 2 ^ 1" by (intro unat_push_bit_nat) simp
  with 0 have "push_bit 1 man AND 0x400 \<noteq> 0" by (subst and_400) simp_all
  then show ?case by (subst fp16_norm.simps) (simp add: Let_def)
next
  case (Suc k)
  have "unat man * 2 ^ 2 \<le> unat man * 2 ^ Suc (Suc k)" by (intro mult_le_mono power_increasing) simp_all
  with Suc.prems(2) have "unat man * 2 ^ 2 < 2 ^ 11" by linarith
  then have lt: "unat man * 2 < 2 ^ 10" by simp
  then have m: "unat (push_bit 1 man) = unat man * 2 ^ 1" by (intro unat_push_bit_nat) simp
  with lt have "push_bit 1 man AND 0x400 = 0" by (subst and_400) simp_all
  then have "fp16_norm man e = fp16_norm (push_bit 1 man) (e + 1)"
    by (subst fp16_norm.simps) (simp add: Let_def)
  also have "\<dots> = Some (push_bit (Suc k) (push_bit 1 man), e + 1 + int (Suc k))"
    using Suc.prems m by (intro Suc.IH) (simp_all add: mult_ac)
  finally show ?case by simp
qed


lemma subnormal_shift:
  assumes "0 < m" and "m < (2 ^ 10 :: nat)"
  obtains k where "k < 10" and "2 ^ 10 \<le> m * 2 ^ Suc k" and "m * 2 ^ Suc k < 2 ^ 11"
proof -
  define l where "l = bit_length m"
  have "m < 2 ^ l" "2 ^ (l - 1) \<le> m" using assms bit_length_upper bit_length_lower unfolding l_def by blast+
  moreover have "0 < l" using assms(1) calculation(1) by (cases l) auto
  moreover have "l \<le> 10"
  proof -
    have "2 ^ (l - 1) < (2::nat) ^ 10" using calculation(2) assms(2) by linarith
    then have "l - 1 < 10" by (rule power_less_imp_less_exp [rotated]) simp
    then show ?thesis by simp
  qed
  ultimately have l: "Suc (10 - l) + l = 11" "Suc (10 - l) + (l - 1) = 10" "10 - l < 10"
    and lo: "2 ^ (l - 1) * 2 ^ Suc (10 - l) \<le> m * 2 ^ Suc (10 - l)"
    and hi: "m * 2 ^ Suc (10 - l) < 2 ^ l * 2 ^ Suc (10 - l)"
    by (auto intro: mult_le_mono1)
  show ?thesis
    using lo hi l by (intro that [of "10 - l"]) (simp_all only: power_add [symmetric] add.commute)
qed

lemma sign_word16:
  "push_bit 16 (ucast (h AND 0x8000 :: u16)) = (if sgn16 h then 0x80000000 else (0 :: u32))"
proof -
  have "h AND 0x8000 = (if bit h 15 then 0x8000 else 0)"
    by (rule bit_word_eqI, simp only: bit_and_iff bit_8000 if_distrib [where f = "\<lambda>w. bit w _"]) auto
  then show ?thesis by (simp add: sgn16_bit)
qed

lemma or_sign32_parts:
  fixes w :: u32
  assumes "unat w < 2 ^ 31"
  shows "sgn32 ((if s then 0x80000000 else 0) OR w) = s" and "rest32 ((if s then 0x80000000 else 0) OR w) = unat w"
proof -
  have u: "unat ((if s then 0x80000000 else 0) OR w) = (if s then 2 ^ 31 else 0) + unat w"
    using assms by (cases s) (simp_all add: unat_or_high_low [of 31])
  have "(2 ^ 31 + unat w) mod 2 ^ 31 = unat w" using assms by simp
  then show "sgn32 ((if s then 0x80000000 else 0) OR w) = s"
    and "rest32 ((if s then 0x80000000 else 0) OR w) = unat w"
    unfolding sgn32_def rest32_def u using assms by (cases s; simp)+
qed

text \<open>Sign, exponent and fraction joined to a pattern.\<close>

lemma assemble32:
  fixes e m :: u32
  assumes "unat e < 2 ^ 8" and "unat m < 2 ^ 10"
  shows "sgn32 ((if s then 0x80000000 else 0) OR push_bit 23 e OR push_bit 13 m) = s"
    and "rest32 ((if s then 0x80000000 else 0) OR push_bit 23 e OR push_bit 13 m) = unat e * 2 ^ 23 + unat m * 2 ^ 13"
proof -
  have e: "unat (push_bit 23 e) = unat e * 2 ^ 23" using assms by (intro unat_push_bit_nat) simp
  have m: "unat (push_bit 13 m) = unat m * 2 ^ 13" using assms by (intro unat_push_bit_nat) simp
  have u: "unat (push_bit 23 e OR push_bit 13 m) = unat e * 2 ^ 23 + unat m * 2 ^ 13"
    using assms e m by (subst unat_or_high_low [of 23]) (simp_all only:, simp_all)
  then have "unat (push_bit 23 e OR push_bit 13 m) < 2 ^ 31" using assms by simp
  from or_sign32_parts [OF this, of s] u
  show "sgn32 ((if s then 0x80000000 else 0) OR push_bit 23 e OR push_bit 13 m) = s"
    and "rest32 ((if s then 0x80000000 else 0) OR push_bit 23 e OR push_bit 13 m) = unat e * 2 ^ 23 + unat m * 2 ^ 13"
    by (simp_all only: or.assoc)
qed


lemma mag11: "mag 11 r = (if r div 2 ^ 10 = 0 then r else (r mod 2 ^ 10 + 2 ^ 10) * 2 ^ (r div 2 ^ 10 - 1))"
  by (rule mag_unfold) simp

text \<open>What \<open>fp16ToFp32\<close> makes of the exponent and fraction fields.\<close>

lemma fp16ToFp32_parts:
  fixes h :: u16
  defines "E \<equiv> rest16 h div 2 ^ 10" and "M \<equiv> rest16 h mod 2 ^ 10"
  shows "sgn32 (fp16ToFp32 h) = sgn16 h"
    and "E = 31 \<Longrightarrow> rest32 (fp16ToFp32 h) = 255 * 2 ^ 23 + M * 2 ^ 13"
    and "0 < E \<Longrightarrow> E < 31 \<Longrightarrow> rest32 (fp16ToFp32 h) = (E + 112) * 2 ^ 23 + M * 2 ^ 13"
    and "E = 0 \<Longrightarrow> M = 0 \<Longrightarrow> rest32 (fp16ToFp32 h) = 0"
    and "E = 0 \<Longrightarrow> 0 < M \<Longrightarrow> \<exists>k<10. 2 ^ 10 \<le> M * 2 ^ Suc k \<and> M * 2 ^ Suc k < 2 ^ 11 \<and>
      rest32 (fp16ToFp32 h) = (112 - k) * 2 ^ 23 + (M * 2 ^ Suc k - 2 ^ 10) * 2 ^ 13"
proof -
  define exp :: u32 where "exp = ucast (drop_bit 10 h AND 0x1F)"
  define man :: u32 where "man = ucast (h AND 0x3FF)"
  have "E < 32" using rest16_less [of h] by (simp add: E_def div_less_iff_less_mult)
  then have exp: "unat exp = E" "E < 32"
    using exp_man16(1) [of h] by (simp_all add: exp_def unat_ucast_small E_def)
  have man: "unat man = M" "M < 2 ^ 10"
    using exp_man16(2) [of h] by (simp_all add: man_def unat_ucast_small M_def)
  define s :: u32 where "s = (if sgn16 h then 0x80000000 else 0)"
  have zero: "exp = 0 \<longleftrightarrow> E = 0" "man = 0 \<longleftrightarrow> M = 0" "exp = 0x1F \<longleftrightarrow> E = 31"
    using exp man by (auto simp: word_unat_eq_iff)
  have top: "(0x7F800000 :: u32) = push_bit 23 255" by simp
  have unf: "fp16ToFp32 h =
     (if E = 0 then
        (if M = 0 then s
         else (case fp16_norm man (- 1) of
                 Some (man, e) \<Rightarrow> s OR push_bit 23 (word_of_int (112 - e)) OR push_bit 13 (man AND 0x3FF)
               | None \<Rightarrow> 0))
      else if E = 31 then s OR push_bit 23 255 OR push_bit 13 man
      else s OR push_bit 23 (exp + 112) OR push_bit 13 man)"
    unfolding fp16ToFp32_def Let_def sign_word16 exp_def [symmetric] man_def [symmetric] zero
      s_def [symmetric] top ..
  have inf: "E = 31 \<Longrightarrow> sgn32 (fp16ToFp32 h) = sgn16 h \<and> rest32 (fp16ToFp32 h) = 255 * 2 ^ 23 + M * 2 ^ 13"
    using assemble32 [of 255 man "sgn16 h"] man by (simp add: unf s_def)
  have "E < 31 \<Longrightarrow> unat (exp + 112) = E + 112" using exp by (subst unat_add_no_wrap) simp_all
  then have norm: "0 < E \<Longrightarrow> E < 31 \<Longrightarrow> sgn32 (fp16ToFp32 h) = sgn16 h \<and>
      rest32 (fp16ToFp32 h) = (E + 112) * 2 ^ 23 + M * 2 ^ 13"
    using assemble32 [of "exp + 112" man "sgn16 h"] man by (simp add: unf s_def)
  have nul: "E = 0 \<Longrightarrow> M = 0 \<Longrightarrow> sgn32 (fp16ToFp32 h) = sgn16 h \<and> rest32 (fp16ToFp32 h) = 0"
    using or_sign32_parts [of 0 "sgn16 h"] by (simp add: unf s_def)
  have sub: "\<exists>k<10. 2 ^ 10 \<le> M * 2 ^ Suc k \<and> M * 2 ^ Suc k < 2 ^ 11 \<and> sgn32 (fp16ToFp32 h) = sgn16 h \<and>
      rest32 (fp16ToFp32 h) = (112 - k) * 2 ^ 23 + (M * 2 ^ Suc k - 2 ^ 10) * 2 ^ 13"
    if 0: "E = 0" "0 < M"
  proof -
    from subnormal_shift [OF 0(2) man(2)] obtain k
      where k: "k < 10" "2 ^ 10 \<le> M * 2 ^ Suc k" "M * 2 ^ Suc k < 2 ^ 11" by blast
    have ret: "fp16_norm man (- 1) = Some (push_bit (Suc k) man, int k)"
      using fp16_norm_returns [of man k "- 1"] k man by simp
    have e: "word_of_int (112 - int k) = (of_nat (112 - k) :: u32)" using k(1) by (simp add: of_nat_diff)
    have ue: "unat (of_nat (112 - k) :: u32) = 112 - k" by (rule unat_of_nat_small) simp
    have "unat (push_bit (Suc k) man) = M * 2 ^ Suc k"
      using man(1) k(3) unat_push_bit_nat [of man "Suc k"] by simp
    then have um: "unat (push_bit (Suc k) man AND 0x3FF) = M * 2 ^ Suc k - 2 ^ 10"
      using k by (simp only: and_as_mod) (simp add: mod_if)
    have "fp16ToFp32 h = s OR push_bit 23 (of_nat (112 - k)) OR push_bit 13 (push_bit (Suc k) man AND 0x3FF)"
      using 0 unfolding unf ret e [symmetric] by simp
    with assemble32 [of "of_nat (112 - k)" "push_bit (Suc k) man AND 0x3FF" "sgn16 h"] k
    show ?thesis unfolding ue um s_def by auto
  qed
  have "E = 31 \<or> 0 < E \<and> E < 31 \<or> E = 0 \<and> M = 0 \<or> E = 0 \<and> 0 < M" using exp(2) by linarith
  with inf norm nul sub show "sgn32 (fp16ToFp32 h) = sgn16 h" by blast
  show "E = 31 \<Longrightarrow> rest32 (fp16ToFp32 h) = 255 * 2 ^ 23 + M * 2 ^ 13" using inf by blast
  show "0 < E \<Longrightarrow> E < 31 \<Longrightarrow> rest32 (fp16ToFp32 h) = (E + 112) * 2 ^ 23 + M * 2 ^ 13" using norm by blast
  show "E = 0 \<Longrightarrow> M = 0 \<Longrightarrow> rest32 (fp16ToFp32 h) = 0" using nul by blast
  show "E = 0 \<Longrightarrow> 0 < M \<Longrightarrow> \<exists>k<10. 2 ^ 10 \<le> M * 2 ^ Suc k \<and> M * 2 ^ Suc k < 2 ^ 11 \<and>
      rest32 (fp16ToFp32 h) = (112 - k) * 2 ^ 23 + (M * 2 ^ Suc k - 2 ^ 10) * 2 ^ 13" using sub by blast
qed


lemma widen_finite:
  assumes "finite16 h"
  shows "finite32 (fp16ToFp32 h)"
    and "mag 24 (rest32 (fp16ToFp32 h)) = mag 11 (rest16 h) * 2 ^ 125"
proof -
  define E where "E = rest16 h div 2 ^ 10"
  define M where "M = rest16 h mod 2 ^ 10"
  note p = fp16ToFp32_parts [of h, folded E_def M_def]
  have "rest16 h < 31 * 2 ^ 10" using assms by (simp add: finite16_def)
  then have E: "E < 31" by (simp add: E_def div_less_iff_less_mult)
  have M: "M < 2 ^ 10" by (simp add: M_def)
  have R: "rest16 h = E * 2 ^ 10 + M" unfolding E_def M_def by (rule div_mult_mod_eq [symmetric])
  have split: "mag 24 (e * 2 ^ 23 + m) = (m + 2 ^ 23) * 2 ^ (e - 1)" if "0 < e" "m < 2 ^ 23" for e m
    unfolding mag24 using that by simp
  consider "0 < E" | "E = 0" "M = 0" | "E = 0" "0 < M" by linarith
  then have "rest32 (fp16ToFp32 h) < 255 * 2 ^ 23 \<and> mag 24 (rest32 (fp16ToFp32 h)) = mag 11 (rest16 h) * 2 ^ 125"
  proof cases
    case 1
    then obtain e where e: "E = Suc e" by (cases E) auto
    have "mag 24 ((E + 112) * 2 ^ 23 + M * 2 ^ 13) = (M * 2 ^ 13 + 2 ^ 23) * 2 ^ (112 + e)"
      using M e by (subst split) (simp_all add: add.commute)
    moreover have "mag 11 (rest16 h) = (M + 2 ^ 10) * 2 ^ e"
      unfolding mag11 E_def [symmetric] M_def [symmetric] using e by simp
    ultimately show ?thesis using p(3) 1 E M by (simp add: power_add algebra_simps)
  next
    case 2
    with p(4) show ?thesis by (simp add: R)
  next
    case 3
    with p(5) obtain k where k: "k < 10" "2 ^ 10 \<le> M * 2 ^ Suc k" "M * 2 ^ Suc k < 2 ^ 11"
      "rest32 (fp16ToFp32 h) = (112 - k) * 2 ^ 23 + (M * 2 ^ Suc k - 2 ^ 10) * 2 ^ 13" by blast
    have f: "(M * 2 ^ Suc k - 2 ^ 10) * 2 ^ 13 < (2 ^ 23 :: nat)" using k(3) by simp
    have "mag 24 (rest32 (fp16ToFp32 h)) = ((M * 2 ^ Suc k - 2 ^ 10) * 2 ^ 13 + 2 ^ 23) * 2 ^ (112 - k - 1)"
      unfolding k(4) using k(1) f by (intro split) simp_all
    also have "(M * 2 ^ Suc k - 2 ^ 10) * 2 ^ 13 + 2 ^ 23 = M * 2 ^ Suc k * (2 ^ 13 :: nat)"
      using k(2) by (simp add: algebra_simps)
    also have "M * 2 ^ Suc k * 2 ^ 13 * 2 ^ (112 - k - 1) = M * (2 ^ 125 :: nat)"
    proof -
      have "Suc k + 13 + (112 - k - 1) = 125" using k(1) by simp
      then show ?thesis by (simp only: mult.assoc power_add [symmetric])
    qed
    finally have "mag 24 (rest32 (fp16ToFp32 h)) = M * 2 ^ 125" .
    moreover have "mag 11 M = M" using M by (intro mag_small) simp_all
    moreover have "rest32 (fp16ToFp32 h) < 255 * 2 ^ 23"
    proof -
      have "(112 - k) * 2 ^ 23 \<le> 112 * (2 ^ 23 :: nat)" by simp
      with f show ?thesis unfolding k(4) by linarith
    qed
    ultimately show ?thesis using 3 by (simp add: R)
  qed
  then show "finite32 (fp16ToFp32 h)"
    and "mag 24 (rest32 (fp16ToFp32 h)) = mag 11 (rest16 h) * 2 ^ 125"
    by (simp_all add: finite32_def)
qed

lemma widen_special:
  assumes "\<not> finite16 h"
  shows "rest32 (fp16ToFp32 h) = 0x7F800000 + (rest16 h - 0x7C00) * 2 ^ 13"
    and "\<not> finite32 (fp16ToFp32 h)" and "nan32 (fp16ToFp32 h) = nan16 h"
proof -
  define M where "M = rest16 h mod 2 ^ 10"
  have "31 * 2 ^ 10 \<le> rest16 h" "rest16 h < 32 * 2 ^ 10"
    using assms rest16_less [of h] by (simp_all add: finite16_def)
  then have E: "rest16 h div 2 ^ 10 = 31" by simp
  then have R: "rest16 h = 31 * 2 ^ 10 + M" unfolding M_def by (metis div_mult_mod_eq)
  from fp16ToFp32_parts(2) [of h] E have "rest32 (fp16ToFp32 h) = 255 * 2 ^ 23 + M * 2 ^ 13"
    by (simp add: M_def)
  with R show "rest32 (fp16ToFp32 h) = 0x7F800000 + (rest16 h - 0x7C00) * 2 ^ 13"
    and "\<not> finite32 (fp16ToFp32 h)" and "nan32 (fp16ToFp32 h) = nan16 h"
    by (auto simp: finite32_def nan32_def nan16_def)
qed

section \<open>Rounding to fp16 and back\<close>

lemma mag_units32: "real (mag 24 r) / 2 ^ 149 = (real (mag 24 r) / real (2 ^ 125)) / 2 ^ 24"
  by simp

lemma widen_exact:
  assumes "finite16 h"
  shows "finite32 (fp16ToFp32 h)" and "val32 (fp16ToFp32 h) = val16 h"
  using widen_finite [OF assms] fp16ToFp32_parts(1) [of h] by (simp_all add: val32_def val16_def)

lemma fp32ToFp16_overflow:
  assumes "finite32 x"
  shows "rest16 (fp32ToFp16 x) = 0x7C00 \<longleftrightarrow> 65520 \<le> \<bar>val32 x\<bar>"
proof -
  have "mag 11 0x7C00 = 2 ^ 40" "mag 11 (0x7C00 - 1) = 2 ^ 40 - 2 ^ 29" by (simp_all add: mag_def)
  then have mid: "(real (mag 11 (0x7C00 - 1)) + real (mag 11 0x7C00)) / 2 = 65520 * 2 ^ 24" by simp
  define X where "X = real (mag 24 (rest32 x)) / real (2 ^ 125)"
  have d: "(0::nat) < 2 ^ 125" by simp
  have v: "\<bar>val32 x\<bar> = X / 2 ^ 24" unfolding val32_def abs_mult mag_units32 X_def by simp
  have "65520 \<le> \<bar>val32 x\<bar> \<longleftrightarrow> 65520 * 2 ^ 24 \<le> X" unfolding v by (simp add: pos_le_divide_eq)
  moreover have "rest16 (fp32ToFp16 x) = 0x7C00 \<longleftrightarrow> 65520 * 2 ^ 24 \<le> X"
    using fp16.round_overflow [OF d, of "mag 24 (rest32 x)"]
    unfolding fp32ToFp16_finite(2) [OF assms] mid X_def .
  ultimately show ?thesis by simp
qed

lemma fp32ToFp16_nearest_finite:
  assumes "finite32 x" and "\<bar>val32 x\<bar> < 65520"
  shows "finite16 (fp32ToFp16 x)"
    and "\<bar>val16 (fp32ToFp16 x) - val32 x\<bar> \<le> \<bar>val16 h - val32 x\<bar>"
    and "\<bar>val16 (fp32ToFp16 x) - val32 x\<bar> = \<bar>val16 h - val32 x\<bar> \<Longrightarrow> sgn16 h = sgn32 x \<Longrightarrow>
      h \<noteq> fp32ToFp16 x \<Longrightarrow> even (rest16 (fp32ToFp16 x))"
proof -
  note y = fp32ToFp16_finite [OF assms(1)]
  have d: "(0::nat) < 2 ^ 125" and c: "(0::real) < 2 ^ 24" by simp_all
  have lt: "round_mag 11 0x7C00 (mag 24 (rest32 x)) (2 ^ 125) < 0x7C00"
    using fp32ToFp16_overflow [OF assms(1)] assms(2) fp16.round_le y(2) by (metis le_neq_implies_less not_le)
  then show "finite16 (fp32ToFp16 x)" using y by (simp add: finite16_def)
  show "\<bar>val16 (fp32ToFp16 x) - val32 x\<bar> \<le> \<bar>val16 h - val32 x\<bar>"
    unfolding val16_def val32_def y mag_units32 by (rule fp16.signed_nearest [OF d c lt])
  assume eq: "\<bar>val16 (fp32ToFp16 x) - val32 x\<bar> = \<bar>val16 h - val32 x\<bar>" and s: "sgn16 h = sgn32 x"
    and ne: "h \<noteq> fp32ToFp16 x"
  have "rest16 h \<noteq> round_mag 11 0x7C00 (mag 24 (rest32 x)) (2 ^ 125)"
    using ne s y pattern16_eqI by metis
  from fp16.signed_tie_even [OF d c lt this] eq show "even (rest16 (fp32ToFp16 x))"
    unfolding val16_def val32_def y s mag_units32 .
qed

lemma rest32_finite_widen: "finite16 h \<Longrightarrow>
    round_mag 11 0x7C00 (mag 24 (rest32 (fp16ToFp32 h))) (2 ^ 125) = rest16 h"
  unfolding widen_finite(2) by (intro fp16.round_exact) (simp_all add: finite16_def)

lemma fp16_roundtrip_parts:
  shows "finite16 h \<or> rest16 h = 0x7C00 \<Longrightarrow> fp32ToFp16 (fp16ToFp32 h) = h"
    and "nan16 h \<Longrightarrow> fp32ToFp16 (fp16ToFp32 h) = h OR 0x200"
proof -
  have s: "sgn16 (fp32ToFp16 (fp16ToFp32 h)) = sgn16 h"
    using fp32ToFp16_finite(1) fp32ToFp16_special(1) fp16ToFp32_parts(1) by metis
  show "fp32ToFp16 (fp16ToFp32 h) = h" if "finite16 h \<or> rest16 h = 0x7C00"
  proof (rule pattern16_eqI [OF s])
    show "rest16 (fp32ToFp16 (fp16ToFp32 h)) = rest16 h"
    proof (cases "finite16 h")
      case True
      then show ?thesis
        by (simp only: fp32ToFp16_finite(2) [OF widen_finite(1)] rest32_finite_widen)
    next
      case False
      with that have "rest16 h = 0x7C00" by simp
      with widen_special [OF False] show ?thesis
        by (simp add: fp32ToFp16_special(2) nan16_def)
    qed
  qed
  assume nan: "nan16 h"
  then have fin: "\<not> finite16 h" by (simp add: finite16_def nan16_def)
  define M where "M = rest16 h - 0x7C00"
  have M: "rest16 h = 0x7C00 + M" "M < 2 ^ 10"
    using nan rest16_less [of h] by (simp_all add: M_def nan16_def)
  have "unat (fp16ToFp32 h AND 0x7FFFFF) = M * 2 ^ 13"
  proof -
    have "0x7F800000 + M * 2 ^ 13 = M * 2 ^ 13 + 255 * 2 ^ 23" by simp
    then show ?thesis unfolding exp_man32(2) widen_special(1) [OF fin] M_def [symmetric]
      using M(2) by (simp only: mod_mult_self1) simp
  qed
  then have "unat (drop_bit 13 (fp16ToFp32 h AND 0x7FFFFF)) = M"
    by (simp only: unat_drop_bit_nat) simp
  then have pay: "ucast (drop_bit 13 (fp16ToFp32 h AND 0x7FFFFF)) = (of_nat M :: u16)"
    by (metis of_nat_unat)
  have uM: "unat (of_nat M :: u16) = M" using M(2) by (intro unat_of_nat_small) simp
  define w :: u16 where "w = 0x7C00 OR of_nat M"
  have w: "unat w = rest16 h" unfolding w_def
    using M uM by (subst unat_or_high_low [of 10]) simp_all
  have h: "h = (if sgn16 h then 0x8000 else 0) OR w"
    using or_sign16_parts [of w "sgn16 h"] rest16_less [of h] w by (intro pattern16_eqI) simp_all
  have pos: "unat (w OR 0x200) < 2 ^ 15"
    unfolding unsigned_or_eq by (intro or_less_power) (use w rest16_less [of h] in simp_all)
  have r: "rest16 (fp32ToFp16 (fp16ToFp32 h)) = unat (w OR 0x200)"
    using fp32ToFp16_special(2) [OF widen_special(2) [OF fin]] widen_special(3) [OF fin] nan
    unfolding pay by (simp add: w_def or.assoc)
  have "h OR 0x200 = (if sgn16 h then 0x8000 else 0) OR (w OR 0x200)"
    by (subst h) (simp add: or.assoc)
  then show "fp32ToFp16 (fp16ToFp32 h) = h OR 0x200"
    using or_sign16_parts [OF pos, of "sgn16 h"] s r by (intro pattern16_eqI) simp_all
qed

section \<open>Rounding to bf16\<close>

lemma narrow_bf16:
  assumes "r < 0x7F800000"
  shows "round_mag 8 0x7F80 (mag 24 r) (2 ^ 16) = rne r (2 ^ 16)"
proof -
  define m where "m = r mod 2 ^ 23"
  have m: "m < 2 ^ 23" by (simp add: m_def)
  have le: "rne r (2 ^ 16) \<le> 0x7F80" using assms by (intro rne_le) simp_all
  show ?thesis
  proof (cases "r div 2 ^ 23")
    case 0
    then have "r < 2 ^ 23" by (simp add: div_eq_0_iff)
    moreover have "mag 24 r = r" unfolding mag24 0 by simp
    moreover have "rbits 8 r (2 ^ 16) = 0 * 2 ^ (8 - 1) + rne r (2 ^ 16 * 2 ^ 0)"
      using calculation(1) by (intro rbits_eqI) simp_all
    ultimately show ?thesis using le by (simp add: round_mag_def)
  next
    case (Suc q)
    have n: "mag 24 r = (m + 2 ^ 7 * 2 ^ 16) * 2 ^ q" unfolding mag24 Suc m_def by simp
    have "rbits 8 (mag 24 r) (2 ^ 16) = q * 2 ^ (8 - 1) + rne (mag 24 r) (2 ^ 16 * 2 ^ q)"
    proof (rule rbits_eqI)
      show "q = 0 \<or> 2 ^ (8 - 1) * 2 ^ q * 2 ^ 16 \<le> mag 24 r" unfolding n by simp
      show "mag 24 r < 2 ^ 8 * 2 ^ q * 2 ^ 16" unfolding n using m by simp
    qed simp_all
    also have "rne (mag 24 r) (2 ^ 16 * 2 ^ q) = rne (m + 2 ^ 7 * 2 ^ 16) (2 ^ 16)"
      unfolding n by (rule rne_scale) simp
    also have "\<dots> = 2 ^ 7 + rne m (2 ^ 16)" by (rule rne_add_even) simp_all
    also have "q * 2 ^ (8 - 1) + (2 ^ 7 + rne m (2 ^ 16)) = rne (m + (Suc q * 2 ^ 7) * 2 ^ 16) (2 ^ 16)"
      by (subst rne_add_even) simp_all
    also have "m + (Suc q * 2 ^ 7) * 2 ^ 16 = r"
      using div_mult_mod_eq [of r "2 ^ 23"] unfolding Suc m_def by simp
    finally show ?thesis using le by (simp add: round_mag_def)
  qed
qed

lemma fp32ToBf16_unat: "unat (fp32ToBf16 x) = rne (unat x) (2 ^ 16) mod 2 ^ 16"
proof -
  have m: "push_bit 16 1 - 1 = (0xFFFF :: u32)" "push_bit (16 - 1) 1 = (0x8000 :: u32)" by simp_all
  have "unat (ucast w :: u16) = unat w mod 2 ^ 16" for w :: u32
    by (simp add: unsigned_ucast_eq take_bit_eq_mod [where ?'a = nat])
  then show ?thesis
    using round_shift_word [of 16 x] unfolding fp32ToBf16_def Let_def m by simp
qed

lemma fp32ToBf16_finite:
  assumes "finite32 x"
  shows "sgn16 (fp32ToBf16 x) = sgn32 x"
    and "rest16 (fp32ToBf16 x) = round_mag 8 0x7F80 (mag 24 (rest32 x)) (2 ^ 16)"
proof -
  have r: "rest32 x < 0x7F800000" using assms by (simp add: finite32_def)
  define t where "t = rne (rest32 x) (2 ^ 16)"
  have t: "t \<le> 0x7F80" unfolding t_def using r by (intro rne_le) simp_all
  have "rne (unat x) (2 ^ 16) = (if sgn32 x then 2 ^ 15 else 0) + t"
  proof (cases "sgn32 x")
    case True
    then have "unat x = rest32 x + 2 ^ 15 * 2 ^ 16" using unat_split32 [of x] by simp
    with True show ?thesis unfolding t_def by (simp only: if_True) (rule rne_add_even, simp_all)
  next
    case False
    then show ?thesis using unat_split32 [of x] by (simp add: t_def)
  qed
  then have u: "unat (fp32ToBf16 x) = (if sgn32 x then 2 ^ 15 else 0) + t"
    using t fp32ToBf16_unat [of x] by (simp split: if_splits)
  then show "sgn16 (fp32ToBf16 x) = sgn32 x" using t by (simp add: sgn16_def)
  have "rest16 (fp32ToBf16 x) = t" using u t by (auto simp: rest16_def mod_if)
  then show "rest16 (fp32ToBf16 x) = round_mag 8 0x7F80 (mag 24 (rest32 x)) (2 ^ 16)"
    unfolding narrow_bf16 [OF r] t_def .
qed


lemma mag_units_bf16: "real (mag 24 r) / 2 ^ 149 = (real (mag 24 r) / real (2 ^ 16)) / 2 ^ 133"
  by simp

lemma fp32ToBf16_nearest_finite:
  assumes "finite32 x" and "rest16 (fp32ToBf16 x) \<noteq> 0x7F80"
  shows "\<bar>valbf16 (fp32ToBf16 x) - val32 x\<bar> \<le> \<bar>valbf16 b - val32 x\<bar>"
    and "\<bar>valbf16 (fp32ToBf16 x) - val32 x\<bar> = \<bar>valbf16 b - val32 x\<bar> \<Longrightarrow> sgn16 b = sgn32 x \<Longrightarrow>
      b \<noteq> fp32ToBf16 x \<Longrightarrow> even (rest16 (fp32ToBf16 x))"
proof -
  note y = fp32ToBf16_finite [OF assms(1)]
  have d: "(0::nat) < 2 ^ 16" and c: "(0::real) < 2 ^ 133" by simp_all
  have lt: "round_mag 8 0x7F80 (mag 24 (rest32 x)) (2 ^ 16) < 0x7F80"
    using assms(2) bf16.round_le y(2) by (metis le_neq_implies_less)
  show "\<bar>valbf16 (fp32ToBf16 x) - val32 x\<bar> \<le> \<bar>valbf16 b - val32 x\<bar>"
    unfolding valbf16_def val32_def y mag_units_bf16 by (rule bf16.signed_nearest [OF d c lt])
  assume eq: "\<bar>valbf16 (fp32ToBf16 x) - val32 x\<bar> = \<bar>valbf16 b - val32 x\<bar>" and s: "sgn16 b = sgn32 x"
    and ne: "b \<noteq> fp32ToBf16 x"
  have "rest16 b \<noteq> round_mag 8 0x7F80 (mag 24 (rest32 x)) (2 ^ 16)"
    using ne s y pattern16_eqI by metis
  from bf16.signed_tie_even [OF d c lt this] eq show "even (rest16 (fp32ToBf16 x))"
    unfolding valbf16_def val32_def y s mag_units_bf16 .
qed

section \<open>Properties\<close>


text \<open>
  The normalisation loop of fp16ToFp32 ends for every nonzero fraction, with the leading one at
  bit 10 and the value unchanged.
\<close>

theorem fp16_norm_terminates:
  assumes "h AND 0x3FF \<noteq> 0"
  shows "\<exists>k<10. fp16_norm (ucast (h AND 0x3FF)) (- 1) = Some (push_bit (Suc k) (ucast (h AND 0x3FF)), int k)"
proof -
  have h: "unat (h AND 0x3FF) < 2 ^ 10" by (simp only: and_as_mod) simp
  then have u: "unat (ucast (h AND 0x3FF) :: u32) = unat (h AND 0x3FF)" by (intro unat_ucast_small) simp
  have "0 < unat (h AND 0x3FF)" using assms by (simp add: unat_gt_0)
  from subnormal_shift [OF this h] obtain k
    where k: "k < 10" "2 ^ 10 \<le> unat (h AND 0x3FF) * 2 ^ Suc k" "unat (h AND 0x3FF) * 2 ^ Suc k < 2 ^ 11" .
  with fp16_norm_returns [of "ucast (h AND 0x3FF)" k "- 1"] show ?thesis by (auto simp: u)
qed

theorem fp16_norm_terminates_witness:
  "\<exists>k<10. fp16_norm 1 (- 1) = Some (push_bit (Suc k) 1, int k)"
  using fp16_norm_terminates [of 1] by simp

text \<open>
  C18. fp32ToFp16 is the IEEE round-to-nearest-even conversion on all 2^32 arguments: a finite
  argument below 65520 in magnitude gives a finite half with the same sign, no half is nearer, and
  on a tie the fraction is even, subnormals included; a finite argument of at least 65520 and an
  infinity give the infinity of their sign; a NaN gives a NaN of its sign.
\<close>

theorem fp32ToFp16_round_to_nearest_even:
  "if nan32 x then sgn16 (fp32ToFp16 x) = sgn32 x \<and> nan16 (fp32ToFp16 x)
    else if finite32 x \<and> \<bar>val32 x\<bar> < 65520
    then finite16 (fp32ToFp16 x) \<and> sgn16 (fp32ToFp16 x) = sgn32 x
      \<and> (\<forall>h. finite16 h \<longrightarrow> \<bar>val16 (fp32ToFp16 x) - val32 x\<bar> \<le> \<bar>val16 h - val32 x\<bar>)
      \<and> (\<forall>h. sgn16 h = sgn32 x \<longrightarrow> h \<noteq> fp32ToFp16 x \<longrightarrow>
          \<bar>val16 (fp32ToFp16 x) - val32 x\<bar> = \<bar>val16 h - val32 x\<bar> \<longrightarrow> even (rest16 (fp32ToFp16 x)))
    else sgn16 (fp32ToFp16 x) = sgn32 x \<and> rest16 (fp32ToFp16 x) = 0x7C00"
proof (cases "finite32 x")
  case False
  with fp32ToFp16_special [OF False] show ?thesis by auto
next
  case fin: True
  then have n: "\<not> nan32 x" by (simp add: finite32_def nan32_def)
  show ?thesis
  proof (cases "\<bar>val32 x\<bar> < 65520")
    case True
    with fin n fp32ToFp16_nearest_finite [OF fin True] fp32ToFp16_finite(1) [OF fin] show ?thesis by auto
  next
    case False
    with n fp32ToFp16_overflow [OF fin] fp32ToFp16_finite(1) [OF fin] show ?thesis by simp
  qed
qed

text \<open>A tie between 0x3C01 and 0x3C02, and a NaN whose payload has only its last bit set.\<close>

theorem fp32ToFp16_round_to_nearest_even_witness:
  "fp32ToFp16 0x3F803000 = 0x3C02
    \<and> \<bar>val16 (fp32ToFp16 0x3F803000) - val32 0x3F803000\<bar> \<le> \<bar>val16 0x3C01 - val32 0x3F803000\<bar>
    \<and> nan16 (fp32ToFp16 0x7F800001)"
proof -
  have f: "finite32 0x3F803000" "\<not> nan32 0x3F803000" "nan32 0x7F800001" by (simp_all add: finite32_def nan32_def rest32_def)
  have v: "\<bar>val32 0x3F803000\<bar> < 65520" by (simp add: val32_def sgn32_def rest32_def mag_def)
  have h: "finite16 0x3C01" by (simp add: finite16_def rest16_def)
  have "fp32ToFp16 0x3F803000 = 0x3C02"
    by (simp add: fp32ToFp16_def word_le_nat_alt word_less_nat_alt)
  with fp32ToFp16_round_to_nearest_even [of "0x3F803000"] fp32ToFp16_round_to_nearest_even [of "0x7F800001"] v h f show ?thesis by simp
qed

text \<open>
  fp32ToBf16 is the round-to-nearest-even conversion to bfloat16 on every argument that is not a
  NaN.
\<close>

theorem fp32ToBf16_round_to_nearest_even:
  assumes "finite32 x" and "rest16 (fp32ToBf16 x) \<noteq> 0x7F80"
  shows "sgn16 (fp32ToBf16 x) = sgn32 x \<and> \<bar>valbf16 (fp32ToBf16 x) - val32 x\<bar> \<le> \<bar>valbf16 b - val32 x\<bar>
    \<and> (if \<bar>valbf16 (fp32ToBf16 x) - val32 x\<bar> = \<bar>valbf16 b - val32 x\<bar> \<and> sgn16 b = sgn32 x \<and> b \<noteq> fp32ToBf16 x
       then even (rest16 (fp32ToBf16 x)) else True)"
  using fp32ToBf16_finite(1) [OF assms(1)] fp32ToBf16_nearest_finite [OF assms, of b] by simp

theorem fp32ToBf16_round_to_nearest_even_witness:
  "fp32ToBf16 0x3F818000 = 0x3F82
    \<and> \<bar>valbf16 (fp32ToBf16 0x3F818000) - val32 0x3F818000\<bar> \<le> \<bar>valbf16 0x3F81 - val32 0x3F818000\<bar>"
proof -
  have f: "finite32 0x3F818000" by (simp add: finite32_def rest32_def)
  have v: "fp32ToBf16 0x3F818000 = 0x3F82" by (simp add: fp32ToBf16_def word_less_nat_alt)
  have "rest16 (fp32ToBf16 0x3F818000) \<noteq> 0x7F80" unfolding v by (simp add: rest16_def)
  from fp32ToBf16_round_to_nearest_even [OF f this, of "0x3F81"] v show ?thesis by simp
qed

text \<open>
  Widening a half and rounding it back gives the same half, except that a NaN comes back with its
  quiet bit set.
\<close>

theorem fp16_roundtrip:
  "fp32ToFp16 (fp16ToFp32 h) = (if nan16 h then h OR 0x200 else h)"
proof -
  have "\<not> nan16 h \<Longrightarrow> finite16 h \<or> rest16 h = 0x7C00" by (auto simp: nan16_def finite16_def)
  then show ?thesis using fp16_roundtrip_parts [of h] by auto
qed

text \<open>
  fp32ToBf16 has no NaN branch: the NaN 0x7FFFFFFF becomes minus zero and 0x7F800001 becomes
  infinity.
\<close>

theorem fp32ToBf16_drops_nan: "nan32 0x7FFFFFFF \<and> fp32ToBf16 0x7FFFFFFF = 0x8000 \<and> nan32 0x7F800001 \<and> fp32ToBf16 0x7F800001 = 0x7F80"
  by (simp add: nan32_def rest32_def fp32ToBf16_def word_less_nat_alt)

end
