(* ===== verification/FloatOps.thy ===== *)
theory FloatOps
  imports Dtype
begin

text \<open>
  The C++ operators on \<open>float\<close> and \<open>double\<close> that runtime/lib/cmodel_exec.cpp uses, as
  functions on bit patterns (\<open>u32\<close> and \<open>u64\<close>).  Both types are the IEC 60559 binary formats
  and the rounding mode is the default one, to nearest, ties to even: an operation computes the
  exact rational result and rounds it once with \<open>round_mag\<close>.

  What the language leaves open is a parameter, the record \<open>platform\<close>: the NaN an operation
  returns (sign and payload; it is a quiet NaN whatever the parameter gives) and the function
  \<open>std::exp\<close> on \<open>float\<close>, whose accuracy no standard fixes.
\<close>

section \<open>Values\<close>

text \<open>A value is a NaN, an infinity, or a sign and a number of units of the least subnormal.\<close>

datatype fvalue = NaN | Inf bool | Fin bool nat

text \<open>The exact result of an operation: a finite one is a sign, a numerator and a denominator.\<close>

datatype fexact = XNaN | XInf bool | XFin bool nat nat

record platform =
  nan32_of :: "u32 \<Rightarrow> u32 \<Rightarrow> u32"
  nan64_of :: "u64 \<Rightarrow> u64 \<Rightarrow> u64"
  widen_nan :: "u32 \<Rightarrow> u64"
  narrow_nan :: "u64 \<Rightarrow> u32"
  std_expf :: "u32 \<Rightarrow> u32"

definition decode :: "nat \<Rightarrow> nat \<Rightarrow> bool \<Rightarrow> nat \<Rightarrow> fvalue" where
  "decode p infb s r = (if infb < r then NaN else if r = infb then Inf s else Fin s (mag p r))"

definition rest64 :: "u64 \<Rightarrow> nat" where
  "rest64 x = unat x mod 2 ^ 63"

definition sgn64 :: "u64 \<Rightarrow> bool" where
  "sgn64 x = (2 ^ 63 \<le> unat x)"

definition decode32 :: "u32 \<Rightarrow> fvalue" where
  "decode32 x = decode 24 0x7F800000 (sgn32 x) (rest32 x)"

definition decode64 :: "u64 \<Rightarrow> fvalue" where
  "decode64 x = decode 53 0x7FF0000000000000 (sgn64 x) (rest64 x)"

text \<open>The pattern of an exact result; \<open>q\<close> is the NaN the platform chooses.\<close>

definition encode32 :: "u32 \<Rightarrow> fexact \<Rightarrow> u32" where
  "encode32 q r = (case r of
       XNaN \<Rightarrow> q OR 0x7FC00000
     | XInf s \<Rightarrow> (if s then 0x80000000 else 0) OR 0x7F800000
     | XFin s n d \<Rightarrow> (if s then 0x80000000 else 0) OR of_nat (round_mag 24 0x7F800000 n d))"

definition encode64 :: "u64 \<Rightarrow> fexact \<Rightarrow> u64" where
  "encode64 q r = (case r of
       XNaN \<Rightarrow> q OR 0x7FF8000000000000
     | XInf s \<Rightarrow> (if s then 0x8000000000000000 else 0) OR 0x7FF0000000000000
     | XFin s n d \<Rightarrow> (if s then 0x8000000000000000 else 0)
         OR of_nat (round_mag 53 0x7FF0000000000000 n d))"

section \<open>The exact operations\<close>

text \<open>
  Addition works in units of the least subnormal.  An exact zero is negative only when both
  operands are.
\<close>

definition signed :: "bool \<Rightarrow> nat \<Rightarrow> int" where
  "signed s n = (if s then - int n else int n)"

fun exact_add :: "fvalue \<Rightarrow> fvalue \<Rightarrow> fexact" where
  "exact_add NaN _ = XNaN"
| "exact_add _ NaN = XNaN"
| "exact_add (Inf s) (Inf t) = (if s = t then XInf s else XNaN)"
| "exact_add (Inf s) (Fin _ _) = XInf s"
| "exact_add (Fin _ _) (Inf t) = XInf t"
| "exact_add (Fin s m) (Fin t n) =
     (let z = signed s m + signed t n
      in XFin (if z = 0 then s \<and> t else z < 0) (nat \<bar>z\<bar>) 1)"

fun fnegate :: "fvalue \<Rightarrow> fvalue" where
  "fnegate NaN = NaN"
| "fnegate (Inf s) = Inf (\<not> s)"
| "fnegate (Fin s n) = Fin (\<not> s) n"

text \<open>Products and quotients; \<open>u\<close> is the number of units in 1.\<close>

fun exact_mul :: "nat \<Rightarrow> fvalue \<Rightarrow> fvalue \<Rightarrow> fexact" where
  "exact_mul u NaN _ = XNaN"
| "exact_mul u _ NaN = XNaN"
| "exact_mul u (Inf s) (Inf t) = XInf (s \<noteq> t)"
| "exact_mul u (Inf s) (Fin t n) = (if n = 0 then XNaN else XInf (s \<noteq> t))"
| "exact_mul u (Fin s m) (Inf t) = (if m = 0 then XNaN else XInf (s \<noteq> t))"
| "exact_mul u (Fin s m) (Fin t n) = XFin (s \<noteq> t) (m * n) u"

fun exact_div :: "nat \<Rightarrow> fvalue \<Rightarrow> fvalue \<Rightarrow> fexact" where
  "exact_div u NaN _ = XNaN"
| "exact_div u _ NaN = XNaN"
| "exact_div u (Inf s) (Inf t) = XNaN"
| "exact_div u (Inf s) (Fin t _) = XInf (s \<noteq> t)"
| "exact_div u (Fin s _) (Inf t) = XFin (s \<noteq> t) 0 1"
| "exact_div u (Fin s m) (Fin t n) =
     (if n = 0 then (if m = 0 then XNaN else XInf (s \<noteq> t)) else XFin (s \<noteq> t) (m * u) n)"

text \<open>
  The integer square root, two binary digits at a time.  The root of \<open>n\<close> units is
  \<open>sqrt (n * u)\<close> units; every rounding boundary is a multiple of a half, so the integer root of
  \<open>4 * n * u\<close>, with one sticky digit for an inexact root, rounds as the root does.
\<close>

fun isqrt :: "nat \<Rightarrow> nat" where
  "isqrt n = (if n = 0 then 0
     else let r = 2 * isqrt (n div 4) in if (r + 1) * (r + 1) \<le> n then r + 1 else r)"

declare isqrt.simps [simp del]

fun exact_sqrt :: "nat \<Rightarrow> fvalue \<Rightarrow> fexact" where
  "exact_sqrt u NaN = XNaN"
| "exact_sqrt u (Inf s) = (if s then XNaN else XInf False)"
| "exact_sqrt u (Fin s n) =
     (if n = 0 then XFin s 0 1
      else if s then XNaN
      else let r = isqrt (4 * (n * u)) in XFin False (if r * r = 4 * (n * u) then 2 * r else 2 * r + 1) 4)"

text \<open>Conversions between the two formats: 1 is \<open>2 ^ 149\<close> units of \<open>float\<close> and \<open>2 ^ 1074\<close> of \<open>double\<close>.\<close>

fun exact_widen :: "fvalue \<Rightarrow> fexact" where
  "exact_widen NaN = XNaN"
| "exact_widen (Inf s) = XInf s"
| "exact_widen (Fin s n) = XFin s (n * 2 ^ 925) 1"

fun exact_narrow :: "fvalue \<Rightarrow> fexact" where
  "exact_narrow NaN = XNaN"
| "exact_narrow (Inf s) = XInf s"
| "exact_narrow (Fin s n) = XFin s n (2 ^ 925)"

section \<open>The operators on patterns\<close>

definition f32_neg :: "u32 \<Rightarrow> u32" where
  "f32_neg a = a XOR 0x80000000"

definition f32_add :: "platform \<Rightarrow> u32 \<Rightarrow> u32 \<Rightarrow> u32" where
  "f32_add P a b = encode32 (nan32_of P a b) (exact_add (decode32 a) (decode32 b))"

definition f32_sub :: "platform \<Rightarrow> u32 \<Rightarrow> u32 \<Rightarrow> u32" where
  "f32_sub P a b = encode32 (nan32_of P a b) (exact_add (decode32 a) (fnegate (decode32 b)))"

definition f32_mul :: "platform \<Rightarrow> u32 \<Rightarrow> u32 \<Rightarrow> u32" where
  "f32_mul P a b = encode32 (nan32_of P a b) (exact_mul (2 ^ 149) (decode32 a) (decode32 b))"

definition f32_div :: "platform \<Rightarrow> u32 \<Rightarrow> u32 \<Rightarrow> u32" where
  "f32_div P a b = encode32 (nan32_of P a b) (exact_div (2 ^ 149) (decode32 a) (decode32 b))"

definition f32_sqrt :: "platform \<Rightarrow> u32 \<Rightarrow> u32" where
  "f32_sqrt P a = encode32 (nan32_of P a a) (exact_sqrt (2 ^ 149) (decode32 a))"

definition f64_of_f32 :: "platform \<Rightarrow> u32 \<Rightarrow> u64" where
  "f64_of_f32 P a = encode64 (widen_nan P a) (exact_widen (decode32 a))"

definition f32_of_f64 :: "platform \<Rightarrow> u64 \<Rightarrow> u32" where
  "f32_of_f64 P a = encode32 (narrow_nan P a) (exact_narrow (decode64 a))"

definition f64_add :: "platform \<Rightarrow> u64 \<Rightarrow> u64 \<Rightarrow> u64" where
  "f64_add P a b = encode64 (nan64_of P a b) (exact_add (decode64 a) (decode64 b))"

definition f64_div :: "platform \<Rightarrow> u64 \<Rightarrow> u64 \<Rightarrow> u64" where
  "f64_div P a b = encode64 (nan64_of P a b) (exact_div (2 ^ 1074) (decode64 a) (decode64 b))"

text \<open>
  Comparisons: the ordering key of a pattern is its signed rest, so both zeros have key 0; a
  comparison with a NaN is false.
\<close>

definition f32_key :: "u32 \<Rightarrow> int" where
  "f32_key a = signed (sgn32 a) (rest32 a)"

definition f32_gt :: "u32 \<Rightarrow> u32 \<Rightarrow> bool" where
  "f32_gt a b = (\<not> nan32 a \<and> \<not> nan32 b \<and> f32_key b < f32_key a)"

definition f32_eq :: "u32 \<Rightarrow> u32 \<Rightarrow> bool" where
  "f32_eq a b = (\<not> nan32 a \<and> \<not> nan32 b \<and> f32_key a = f32_key b)"

section \<open>Patterns of exact results\<close>

lemma encode32_fin:
  shows "sgn32 (encode32 q (XFin s n d)) = s"
    and "rest32 (encode32 q (XFin s n d)) = round_mag 24 0x7F800000 n d"
proof -
  have le: "round_mag 24 0x7F800000 n d \<le> 0x7F800000" by (rule fp32.round_le)
  then have u: "unat (of_nat (round_mag 24 0x7F800000 n d) :: u32) = round_mag 24 0x7F800000 n d"
    by (intro unat_of_nat_small) simp
  with le have "unat (of_nat (round_mag 24 0x7F800000 n d) :: u32) < 2 ^ 31" by simp
  from or_sign32_parts [OF this, of s] u
  show "sgn32 (encode32 q (XFin s n d)) = s"
    and "rest32 (encode32 q (XFin s n d)) = round_mag 24 0x7F800000 n d"
    by (simp_all only: encode32_def fexact.case)
qed

lemma encode32_inf:
  shows "sgn32 (encode32 q (XInf s)) = s" and "rest32 (encode32 q (XInf s)) = 0x7F800000"
  using or_sign32_parts [of "0x7F800000" s] by (simp_all only: encode32_def fexact.case) simp_all

lemma rest32_ucast: "rest32 x = unat (ucast x :: 31 word)"
  by (simp add: rest32_def unsigned_ucast_eq take_bit_eq_mod [where ?'a = nat])

lemma nan_pattern: "nan32 (q OR 0x7FC00000)"
proof -
  have "rest32 (q OR 0x7FC00000) = unat ((ucast q :: 31 word) OR 0x7FC00000)"
    by (simp only: rest32_ucast unsigned_or_eq) simp
  also have "\<dots> \<ge> unat (0x7FC00000 :: 31 word)"
    unfolding word_le_nat_alt [symmetric] by (subst or.commute) (rule le_word_or2)
  finally show ?thesis by (simp add: nan32_def)
qed

lemma encode32_nan [simp]: "nan32 (encode32 q XNaN)"
  by (simp add: encode32_def nan_pattern)

section \<open>Values and exact results\<close>

text \<open>The value of a finite \<open>float\<close> in units of \<open>2 ^ - 149\<close>.\<close>

definition units32 :: "u32 \<Rightarrow> int" where
  "units32 x = signed (sgn32 x) (mag 24 (rest32 x))"

lemma val32_units: "val32 x = real_of_int (units32 x) / 2 ^ 149"
  by (simp add: val32_def units32_def signed_def)

lemma decode32_finite: "finite32 x \<Longrightarrow> decode32 x = Fin (sgn32 x) (mag 24 (rest32 x))"
  by (simp add: decode32_def decode_def finite32_def)

lemma abs_signed [simp]: "\<bar>signed s n\<bar> = int n"
  by (simp add: signed_def)

lemma signed_mult: "signed s m * signed t n = signed (s \<noteq> t) (m * n)"
  by (auto simp: signed_def)

lemma signed_inject_pos: "signed s m = signed t n \<Longrightarrow> m = n"
  by (auto simp: signed_def split: if_splits)

lemma signed_nat_abs: "(if z = 0 then b else z < 0) = s \<Longrightarrow> signed s (nat \<bar>z\<bar>) = z"
  by (auto simp: signed_def split: if_splits)

lemma mag24_surj:
  assumes "k < 2 ^ 24" and "k * 2 ^ e < 2 ^ 277"
  obtains b where "mag 24 b = k * 2 ^ e" and "b < 0x7F800000"
proof -
  obtain b where b: "mag 24 b = k * 2 ^ e" using assms(1) by (rule mag_surj) simp
  have "mag 24 0x7F800000 = 2 ^ 277" by (simp add: mag24)
  with b assms(2) have "b < 0x7F800000" by (metis mag_less_iff)
  with b that show ?thesis by simp
qed

text \<open>An exact result with at most 24 significant digits is not changed by the rounding.\<close>

lemma encode32_exact:
  assumes "k < 2 ^ 24" and "k * 2 ^ e < 2 ^ 277" and "n = k * 2 ^ e * d" and "0 < d"
  shows "finite32 (encode32 q (XFin s n d))" and "units32 (encode32 q (XFin s n d)) = signed s (k * 2 ^ e)"
proof -
  from assms(1,2) obtain b where b: "mag 24 b = k * 2 ^ e" "b < 0x7F800000" by (rule mag24_surj)
  then have "round_mag 24 0x7F800000 n d = b"
    unfolding assms(3) b(1) [symmetric] by (intro fp32.round_exact assms(4)) simp
  with b show "finite32 (encode32 q (XFin s n d))" "units32 (encode32 q (XFin s n d)) = signed s (k * 2 ^ e)"
    by (simp_all add: finite32_def units32_def encode32_fin)
qed

text \<open>\<open>x\<close> is the number \<open>z * 2 ^ (e - 149)\<close>; \<open>e = 149\<close> are the integers.\<close>

definition fixed32 :: "nat \<Rightarrow> u32 \<Rightarrow> int \<Rightarrow> bool" where
  "fixed32 e x z \<longleftrightarrow> finite32 x \<and> units32 x = z * 2 ^ e"

lemma fixed32_val: "fixed32 e x z \<Longrightarrow> val32 x = real_of_int z * 2 ^ e / 2 ^ 149"
  by (simp add: fixed32_def val32_units)

lemma fixed32_mag: "fixed32 e x z \<Longrightarrow> mag 24 (rest32 x) = nat \<bar>z\<bar> * 2 ^ e"
proof -
  assume "fixed32 e x z"
  then have "int (mag 24 (rest32 x)) = \<bar>z\<bar> * 2 ^ e"
    by (metis abs_mult abs_numeral abs_signed fixed32_def power_abs units32_def)
  then show ?thesis by (metis nat_int nat_mult_distrib abs_ge_zero nat_power_eq nat_2 numeral_2_eq_2 zero_le_numeral)
qed

lemma small_shift: "k \<le> 2 ^ 24 \<Longrightarrow> e \<le> 252 \<Longrightarrow> k * 2 ^ e < (2::nat) ^ 277"
proof -
  assume "k \<le> 2 ^ 24" and "e \<le> 252"
  then have "k * 2 ^ e \<le> 2 ^ 24 * (2::nat) ^ 252" by (intro mult_le_mono power_increasing) simp_all
  also have "\<dots> < 2 ^ 277" by simp
  finally show ?thesis .
qed

lemma fixed32_add:
  assumes "fixed32 e a x" and "fixed32 e b y" and "\<bar>x + y\<bar> < 2 ^ 24" and "e \<le> 252"
  shows "fixed32 e (f32_add P a b) (x + y)"
proof -
  define z where "z = units32 a + units32 b"
  have z: "z = (x + y) * 2 ^ e" using assms(1,2) by (simp add: z_def fixed32_def algebra_simps)
  define s where "s = (if z = 0 then sgn32 a \<and> sgn32 b else z < 0)"
  have r: "f32_add P a b = encode32 (nan32_of P a b) (XFin s (nat \<bar>z\<bar>) 1)"
    using assms(1,2) by (simp add: f32_add_def decode32_finite fixed32_def Let_def s_def z_def units32_def)
  have n: "nat \<bar>z\<bar> = nat \<bar>x + y\<bar> * 2 ^ e" by (simp add: z abs_mult nat_mult_distrib nat_power_eq)
  have k: "nat \<bar>x + y\<bar> < 2 ^ 24" using assms(3) by simp
  have lt: "nat \<bar>x + y\<bar> * 2 ^ e < 2 ^ 277" using k assms(4) by (intro small_shift) simp_all
  have "signed s (nat \<bar>z\<bar>) = z" by (rule signed_nat_abs [OF s_def [symmetric]])
  then show ?thesis
    unfolding fixed32_def r using encode32_exact [OF k lt, of "nat \<bar>z\<bar>" 1] n z by simp
qed

lemma fixed32_mul:
  assumes "fixed32 e a x" and "fixed32 f b y" and "\<bar>x * y\<bar> < 2 ^ 24" and "e + f = g + 149" and "g \<le> 252"
  shows "fixed32 g (f32_mul P a b) (x * y)"
proof -
  have k: "nat \<bar>x * y\<bar> < 2 ^ 24" using assms(3) by simp
  have lt: "nat \<bar>x * y\<bar> * 2 ^ g < 2 ^ 277" using k assms(5) by (intro small_shift) simp_all
  have "mag 24 (rest32 a) * mag 24 (rest32 b) = nat \<bar>x\<bar> * nat \<bar>y\<bar> * 2 ^ (e + f)"
    unfolding fixed32_mag [OF assms(1)] fixed32_mag [OF assms(2)] by (simp add: power_add)
  also have "\<dots> = nat \<bar>x * y\<bar> * 2 ^ g * 2 ^ 149"
    unfolding assms(4) by (simp only: power_add abs_mult nat_mult_distrib [OF abs_ge_zero] mult.assoc)
  finally have n: "mag 24 (rest32 a) * mag 24 (rest32 b) = nat \<bar>x * y\<bar> * 2 ^ g * 2 ^ 149" .
  have r: "f32_mul P a b = encode32 (nan32_of P a b)
      (XFin (sgn32 a \<noteq> sgn32 b) (mag 24 (rest32 a) * mag 24 (rest32 b)) (2 ^ 149))"
    using assms(1,2) by (simp add: f32_mul_def decode32_finite fixed32_def)
  have "signed (sgn32 a \<noteq> sgn32 b) (mag 24 (rest32 a) * mag 24 (rest32 b)) = x * y * 2 ^ g * 2 ^ 149"
  proof -
    have "units32 a * units32 b = (x * y) * 2 ^ (e + f)"
      using assms(1,2) by (simp add: fixed32_def power_add)
    then show ?thesis unfolding units32_def signed_mult assms(4) by (simp only: power_add mult.assoc)
  qed
  then have "signed (sgn32 a \<noteq> sgn32 b) (nat \<bar>x * y\<bar> * 2 ^ g) = x * y * 2 ^ g"
    unfolding n by (auto simp: signed_def split: if_splits)
  then show ?thesis
    unfolding fixed32_def r using encode32_exact [OF k lt n, of "nan32_of P a b"] by simp
qed

section \<open>Operands read from fp16\<close>

lemma mag11_parts:
  assumes "r < 0x7C00"
  obtains k e where "mag 11 r = k * 2 ^ e" and "k < 2 ^ 11" and "e \<le> 29"
proof -
  have m: "mag 11 r = (if r div 2 ^ 10 = 0 then r else (r mod 2 ^ 10 + 2 ^ 10) * 2 ^ (r div 2 ^ 10 - 1))"
    by (rule mag_unfold) simp
  show ?thesis
  proof (cases "r div 2 ^ 10 = 0")
    case True
    then have "r < 2 ^ 10" by (simp add: div_eq_0_iff)
    with True m that [of r 0] show ?thesis by simp
  next
    case False
    have "r mod 2 ^ 10 < (2 ^ 10 :: nat)" by simp
    then have "r mod 2 ^ 10 + 2 ^ 10 < (2 ^ 11 :: nat)" by simp
    moreover have "r div 2 ^ 10 - 1 \<le> 29" using assms by simp
    ultimately show ?thesis using that False m by simp
  qed
qed

lemma widen_fixed:
  assumes "finite16 h"
  obtains z e where "fixed32 (125 + e) (fp16ToFp32 h) z" and "\<bar>z\<bar> < 2 ^ 11" and "e \<le> 29"
proof -
  from assms have "rest16 h < 0x7C00" by (simp add: finite16_def)
  then obtain k e where k: "mag 11 (rest16 h) = k * 2 ^ e" "k < 2 ^ 11" "e \<le> 29" by (rule mag11_parts)
  have "units32 (fp16ToFp32 h) = signed (sgn16 h) k * 2 ^ (125 + e)"
    unfolding units32_def fp16ToFp32_parts(1) widen_finite(2) [OF assms] k(1)
    by (simp add: signed_def power_add)
  moreover have "\<bar>signed (sgn16 h) k\<bar> < 2 ^ 11" using k(2) by simp
  ultimately show ?thesis using that k(3) widen_finite(1) [OF assms] by (auto simp: fixed32_def)
qed

text \<open>
  The product of two fp16 numbers is exact in \<open>float\<close>: 22 significant digits, and an exponent
  far from both ends.  So it does not matter whether a compiler contracts the multiplication and
  the addition of a dot product into a fused operation.
\<close>

lemma f32_mul_widened:
  assumes "finite16 a" and "finite16 b"
  shows "finite32 (f32_mul P (fp16ToFp32 a) (fp16ToFp32 b))"
    and "val32 (f32_mul P (fp16ToFp32 a) (fp16ToFp32 b)) = val16 a * val16 b"
proof -
  obtain x e where x: "fixed32 (125 + e) (fp16ToFp32 a) x" "\<bar>x\<bar> < 2 ^ 11" "e \<le> 29"
    using assms(1) by (rule widen_fixed)
  obtain y f where y: "fixed32 (125 + f) (fp16ToFp32 b) y" "\<bar>y\<bar> < 2 ^ 11" "f \<le> 29"
    using assms(2) by (rule widen_fixed)
  have "\<bar>x * y\<bar> \<le> 2 ^ 11 * 2 ^ 11" unfolding abs_mult using x(2) y(2) by (intro mult_mono) simp_all
  then have xy: "\<bar>x * y\<bar> < 2 ^ 24" by simp
  have p: "fixed32 (101 + e + f) (f32_mul P (fp16ToFp32 a) (fp16ToFp32 b)) (x * y)"
    by (rule fixed32_mul [OF x(1) y(1) xy]) (use x(3) y(3) in simp_all)
  then show "finite32 (f32_mul P (fp16ToFp32 a) (fp16ToFp32 b))" by (simp add: fixed32_def)
  have v: "val32 (fp16ToFp32 h) = val16 h" if "finite16 h" for h
    using widen_exact(2) [OF that] .
  have "val16 a * val16 b = (real_of_int x * 2 ^ (125 + e) / 2 ^ 149) * (real_of_int y * 2 ^ (125 + f) / 2 ^ 149)"
    unfolding v [OF assms(1), symmetric] v [OF assms(2), symmetric] fixed32_val [OF x(1)] fixed32_val [OF y(1)] ..
  also have "\<dots> = real_of_int (x * y) * 2 ^ (101 + e + f) / 2 ^ 149"
    by (simp add: power_add)
  finally show "val32 (f32_mul P (fp16ToFp32 a) (fp16ToFp32 b)) = val16 a * val16 b"
    unfolding fixed32_val [OF p] by simp
qed

lemma fixed32_int: "fixed32 149 x z \<Longrightarrow> val32 x = real_of_int z"
  by (simp add: fixed32_val)

lemma widen_int:
  assumes "finite16 h" and "val16 h = real_of_int z"
  shows "fixed32 149 (fp16ToFp32 h) z"
proof -
  have "real_of_int (units32 (fp16ToFp32 h)) = real_of_int (z * 2 ^ 149)"
    using widen_exact(2) [OF assms(1)] assms(2) by (simp add: val32_units field_simps)
  then have "units32 (fp16ToFp32 h) = z * 2 ^ 149" by (simp only: of_int_eq_iff)
  with widen_exact(1) [OF assms(1)] show ?thesis by (simp add: fixed32_def)
qed

text \<open>An integer below 2048 survives the narrowing.\<close>

lemma narrow_int:
  assumes "fixed32 149 x z" and "\<bar>z\<bar> < 2048"
  shows "finite16 (fp32ToFp16 x)" and "val16 (fp32ToFp16 x) = real_of_int z"
proof -
  have fin: "finite32 x" using assms(1) by (simp add: fixed32_def)
  have "nat \<bar>z\<bar> < 2 ^ 11" using assms(2) by simp
  then obtain b where b: "mag 11 b = nat \<bar>z\<bar> * 2 ^ 24" by (rule mag_surj) simp
  have "mag 11 0x7C00 = 2 ^ 40" by (simp add: mag_def)
  moreover have "nat \<bar>z\<bar> * 2 ^ 24 < 2 ^ 40" using assms(2) by simp
  ultimately have lt: "b < 0x7C00" using b by (metis mag_less_iff)
  have m: "mag 24 (rest32 x) = mag 11 b * 2 ^ 125"
    unfolding fixed32_mag [OF assms(1)] b by simp
  have "round_mag 11 0x7C00 (mag 24 (rest32 x)) (2 ^ 125) = b"
    unfolding m using lt by (intro fp16.round_exact) simp_all
  then have r: "rest16 (fp32ToFp16 x) = b" "sgn16 (fp32ToFp16 x) = sgn32 x"
    using fp32ToFp16_finite [OF fin] by simp_all
  show "finite16 (fp32ToFp16 x)" using lt by (simp add: finite16_def r)
  have "val32 x = real_of_int z" by (rule fixed32_int [OF assms(1)])
  then show "val16 (fp32ToFp16 x) = real_of_int z"
    unfolding val16_def r val32_def m by simp
qed

section \<open>Comparisons\<close>

lemma signed_mono:
  assumes mono: "\<And>x y :: nat. f x < f y \<longleftrightarrow> x < y" and "f 0 = 0"
  shows "signed s (f m) < signed t (f n) \<longleftrightarrow> signed s m < signed t n"
proof -
  have pos: "0 < f x \<longleftrightarrow> 0 < x" for x
    using mono [of 0 x] unfolding assms(2) .
  show ?thesis
    using pos [of m] pos [of n] mono [of m n] mono [of n m] unfolding signed_def
    by (cases s; cases t; simp; linarith)
qed

lemma units32_less_iff: "units32 a < units32 b \<longleftrightarrow> f32_key a < f32_key b"
  unfolding units32_def f32_key_def by (rule signed_mono) simp_all

lemma units32_eq_iff: "units32 a = units32 b \<longleftrightarrow> f32_key a = f32_key b"
  using units32_less_iff [of a b] units32_less_iff [of b a] by linarith

lemma f32_gt_val: "finite32 a \<Longrightarrow> finite32 b \<Longrightarrow> f32_gt a b \<longleftrightarrow> val32 b < val32 a"
  by (simp add: f32_gt_def val32_units divide_less_cancel units32_less_iff finite32_def nan32_def)

lemma f32_eq_val: "finite32 a \<Longrightarrow> finite32 b \<Longrightarrow> f32_eq a b \<longleftrightarrow> val32 a = val32 b"
  by (simp add: f32_eq_def val32_units units32_eq_iff finite32_def nan32_def)

text \<open>Only the two fp16 zeros widen to a zero.\<close>

lemma widened_zero: "f32_eq (fp16ToFp32 h) 0 \<longleftrightarrow> rest16 h = 0"
proof (cases "finite16 h")
  case True
  have "mag 24 (rest32 (fp16ToFp32 h)) = 0 \<longleftrightarrow> rest16 h = 0"
    unfolding widen_finite(2) [OF True] using mag_inject [of 11 "rest16 h" 0] by simp
  moreover have "mag 24 (rest32 (fp16ToFp32 h)) = 0 \<longleftrightarrow> rest32 (fp16ToFp32 h) = 0"
    using mag_inject [of 24 "rest32 (fp16ToFp32 h)" 0] by simp
  ultimately show ?thesis
    using widen_finite(1) [OF True]
    by (auto simp: f32_eq_def f32_key_def signed_def finite32_def nan32_def rest32_def [of 0])
next
  case False
  then have "rest32 (fp16ToFp32 h) \<noteq> 0" "rest16 h \<noteq> 0"
    using widen_special(1) [OF False] by (simp_all add: finite16_def)
  then show ?thesis by (auto simp: f32_eq_def f32_key_def signed_def rest32_def [of 0])
qed

text \<open>The order of fp16 patterns, and widening keeps it.\<close>

definition key16 :: "u16 \<Rightarrow> int" where
  "key16 h = signed (sgn16 h) (rest16 h)"

definition widened_mag :: "nat \<Rightarrow> nat" where
  "widened_mag r = (if r < 0x7C00 then mag 11 r * 2 ^ 125 else 2 ^ 277 + (r - 0x7C00))"

lemma widened_mag_mono: "widened_mag x < widened_mag y \<longleftrightarrow> x < y"
proof -
  have top: "mag 11 0x7C00 = 2 ^ 40" by (simp add: mag_def)
  have below: "mag 11 r * 2 ^ 125 < 2 ^ 277" if "r < 0x7C00" for r
  proof -
    have "mag 11 r < mag 11 0x7C00" using that by (simp only: mag_less_iff)
    then have "mag 11 r * 2 ^ 125 < 2 ^ 40 * (2 :: nat) ^ 125" unfolding top by simp
    also have "\<dots> < 2 ^ 277" by simp
    finally show ?thesis .
  qed
  show ?thesis
  proof (cases "x < 0x7C00"; cases "y < 0x7C00")
    assume "x < 0x7C00" "\<not> y < 0x7C00"
    with below [of x] show ?thesis by (simp add: widened_mag_def del: power_numeral_reduce)
  next
    assume "\<not> x < 0x7C00" "y < 0x7C00"
    with below [of y] show ?thesis by (simp add: widened_mag_def del: power_numeral_reduce)
  qed (auto simp: widened_mag_def)
qed

lemma units_widened: "\<not> nan16 h \<Longrightarrow> units32 (fp16ToFp32 h) = signed (sgn16 h) (widened_mag (rest16 h))"
proof (cases "finite16 h")
  case True
  then show ?thesis
    by (simp add: units32_def fp16ToFp32_parts(1) widen_finite(2) widened_mag_def finite16_def)
next
  case False
  assume "\<not> nan16 h"
  with False have r: "rest16 h = 0x7C00" by (simp add: nan16_def finite16_def)
  have "mag 24 0x7F800000 = 2 ^ 277" by (simp add: mag24)
  with widen_special(1) [OF False] r show ?thesis
    by (simp add: units32_def fp16ToFp32_parts(1) widened_mag_def)
qed

lemma widen_key:
  assumes "\<not> nan16 a" and "\<not> nan16 b"
  shows "f32_key (fp16ToFp32 a) < f32_key (fp16ToFp32 b) \<longleftrightarrow> key16 a < key16 b"
proof -
  have m0: "widened_mag 0 = 0" by (simp add: widened_mag_def)
  show ?thesis
    unfolding units32_less_iff [symmetric] units_widened [OF assms(1)] units_widened [OF assms(2)] key16_def
    by (rule signed_mono [where f = widened_mag, OF widened_mag_mono m0])
qed

lemma nan_widened: "nan32 (fp16ToFp32 h) = nan16 h"
  using widen_finite(1) [of h] widen_special(3) [of h]
  by (cases "finite16 h") (auto simp: nan32_def finite32_def nan16_def finite16_def)

lemma narrow_nan16: "nan32 x \<Longrightarrow> nan16 (fp32ToFp16 x)"
  by (rule fp32ToFp16_special(3)) (simp_all add: nan32_def finite32_def)

section \<open>Evaluation\<close>

text \<open>The rules that evaluate \<open>float\<close> operations on literal patterns.\<close>

lemma bit_length_numeral:
  "bit_length (numeral (num.Bit0 k)) = Suc (bit_length (numeral k))"
  "bit_length (numeral (num.Bit1 k)) = Suc (bit_length (numeral k))"
  "bit_length (Suc 0) = Suc 0" "bit_length 1 = 1"
proof -
  have "numeral (num.Bit0 k) div 2 = (numeral k :: nat)" "numeral (num.Bit1 k) div 2 = (numeral k :: nat)"
    by simp_all
  then show "bit_length (numeral (num.Bit0 k)) = Suc (bit_length (numeral k))"
    "bit_length (numeral (num.Bit1 k)) = Suc (bit_length (numeral k))"
    "bit_length (Suc 0) = Suc 0" "bit_length 1 = 1"
    by (simp_all only: bit_length.simps [of "numeral _"] bit_length.simps [of "1"] One_nat_def [symmetric]) simp_all
qed

lemmas float_eval = decode32_def decode64_def decode_def sgn32_def rest32_def sgn64_def rest64_def
  mag_def round_mag_def rbits_def rne_def encode32_def encode64_def bit_length_numeral signed_def Let_def

text \<open>A platform, for concrete runs: every NaN is the default one and \<open>std::exp\<close> is 1.\<close>

definition sample_platform :: platform where
  "sample_platform = \<lparr>nan32_of = (\<lambda>_ _. 0), nan64_of = (\<lambda>_ _. 0), widen_nan = (\<lambda>_. 0),
     narrow_nan = (\<lambda>_. 0), std_expf = (\<lambda>_. 0x3F800000)\<rparr>"

end
