(* ===== verification/Isa.thy ===== *)
theory Isa
  imports Dtype
begin

text \<open>
  runtime/include/eclipse_isa.h: the memory map, the constants of the cycle model, the opcodes and
  the five descriptors with their layout in DDR.  A descriptor is the object representation of a
  C++ struct: \<open>u32\<close> fields in declaration order, little endian.  \<open>load_*\<close> reads the
  fields from bytes and \<open>bytes_of_*\<close> is what \<open>writeDDR(addr, &desc, sizeof(desc))\<close> copies.
\<close>

section \<open>Memory map and cycle constants\<close>

definition SRAM_ADDR :: u32 where "SRAM_ADDR = 0x10000000"
definition DDR_ADDR :: u32 where "DDR_ADDR = 0x40000000"
definition SRAM_SIZE :: u32 where "SRAM_SIZE = 0x80000"
definition DDR_SIZE :: u32 where "DDR_SIZE = 0x80000000"
definition DTYPE_SIZE :: u64 where "DTYPE_SIZE = 2"

definition DMA_BYTES_PER_CYCLE :: u32 where "DMA_BYTES_PER_CYCLE = 32"
definition DMA_FIXED_OVERHEAD :: u32 where "DMA_FIXED_OVERHEAD = 16"
definition DMA_BURST_BYTES :: u32 where "DMA_BURST_BYTES = 16"
definition MAC_PER_CYCLE :: u32 where "MAC_PER_CYCLE = 256"
definition ELEM_PER_CYCLE :: u32 where "ELEM_PER_CYCLE = 128"
definition SFU_ELEM_PER_CYCLE :: u32 where "SFU_ELEM_PER_CYCLE = ELEM_PER_CYCLE div 4"
definition ACT_FIXED_OVERHEAD :: u32 where "ACT_FIXED_OVERHEAD = 8"
definition REDUCE_TREE_STEPS :: u32 where "REDUCE_TREE_STEPS = 7"
definition ARGMAX_ELEM_PER_CYCLE :: u32 where "ARGMAX_ELEM_PER_CYCLE = ELEM_PER_CYCLE div 2"

text \<open>The \<open>static_assert\<close> of the header: the end of DDR does not wrap around.\<close>

lemma ddr_range_no_wrap: "unat DDR_ADDR + unat DDR_SIZE \<le> 0xFFFFFFFF"
  by (simp add: DDR_ADDR_def DDR_SIZE_def)

lemma memory_map_nat [to_nat]:
  "unat DDR_ADDR = 0x40000000" "unat SRAM_ADDR = 0x10000000"
  "unat DDR_SIZE = 0x80000000" "unat SRAM_SIZE = 0x80000" "unat DTYPE_SIZE = 2"
  "unat (DDR_ADDR + DDR_SIZE) = 0xC0000000" "unat (SRAM_ADDR + SRAM_SIZE) = 0x10080000"
  by (simp_all add: DDR_ADDR_def SRAM_ADDR_def DDR_SIZE_def SRAM_SIZE_def DTYPE_SIZE_def)

section \<open>Opcodes and kinds\<close>

datatype OpCode =
    DMA_LOAD
  | DMA_STORE
  | MATMUL
  | ELEMENTWISE_ADD
  | ELEMENTWISE_SUB
  | ELEMENTWISE_MUL
  | ELEMENTWISE_DIV
  | ACT
  | REDUCE
  | SYNC

datatype ActKind = RELU | EXP | RSQRT | SILU

datatype ReduceKind = REDUCE_MAX | REDUCE_SUM | REDUCE_SQUARE_SUM | REDUCE_ARGMAX

text \<open>
  The enumerations have the underlying type \<open>uint32_t\<close>, so an object of one can hold any \<open>u32\<close>:
  the fields keep the number, and a \<open>switch\<close> looks up its enumerator (\<open>None\<close> is \<open>default\<close>).
\<close>

definition opcodes :: "OpCode list" where
  "opcodes = [DMA_LOAD, DMA_STORE, MATMUL, ELEMENTWISE_ADD, ELEMENTWISE_SUB, ELEMENTWISE_MUL,
     ELEMENTWISE_DIV, ACT, REDUCE, SYNC]"

definition act_kinds :: "ActKind list" where
  "act_kinds = [RELU, EXP, RSQRT, SILU]"

definition reduce_kinds :: "ReduceKind list" where
  "reduce_kinds = [REDUCE_MAX, REDUCE_SUM, REDUCE_SQUARE_SUM, REDUCE_ARGMAX]"

definition enumerator :: "'a list \<Rightarrow> u32 \<Rightarrow> 'a option" where
  "enumerator xs v = (if unat v < length xs then Some (xs ! unat v) else None)"

primrec opcode_value :: "OpCode \<Rightarrow> u32" where
  "opcode_value DMA_LOAD = 0"
| "opcode_value DMA_STORE = 1"
| "opcode_value MATMUL = 2"
| "opcode_value ELEMENTWISE_ADD = 3"
| "opcode_value ELEMENTWISE_SUB = 4"
| "opcode_value ELEMENTWISE_MUL = 5"
| "opcode_value ELEMENTWISE_DIV = 6"
| "opcode_value ACT = 7"
| "opcode_value REDUCE = 8"
| "opcode_value SYNC = 9"

primrec act_kind_value :: "ActKind \<Rightarrow> u32" where
  "act_kind_value RELU = 0"
| "act_kind_value EXP = 1"
| "act_kind_value RSQRT = 2"
| "act_kind_value SILU = 3"

primrec reduce_kind_value :: "ReduceKind \<Rightarrow> u32" where
  "reduce_kind_value REDUCE_MAX = 0"
| "reduce_kind_value REDUCE_SUM = 1"
| "reduce_kind_value REDUCE_SQUARE_SUM = 2"
| "reduce_kind_value REDUCE_ARGMAX = 3"

lemma enumerator_opcode [simp]: "enumerator opcodes (opcode_value op) = Some op"
  by (cases op) (simp_all add: enumerator_def opcodes_def)

lemma enumerator_act_kind [simp]: "enumerator act_kinds (act_kind_value k) = Some k"
  by (cases k) (simp_all add: enumerator_def act_kinds_def)

lemma enumerator_reduce_kind [simp]: "enumerator reduce_kinds (reduce_kind_value k) = Some k"
  by (cases k) (simp_all add: enumerator_def reduce_kinds_def)

lemma opcode_value_inject [simp]: "opcode_value a = opcode_value b \<longleftrightarrow> a = b"
  by (metis enumerator_opcode option.inject)

lemma enumerator_opcodeD: "enumerator opcodes v = Some op \<Longrightarrow> v = opcode_value op"
proof -
  assume e: "enumerator opcodes v = Some op"
  then have "unat v \<in> set [0..<10]" and op: "op = opcodes ! unat v"
    by (auto simp: enumerator_def opcodes_def split: if_splits)
  then have "unat v \<in> set [0, 1, 2, 3, 4, 5, 6, 7, 8, 9]" by (simp add: upt_rec eval_nat_numeral del: set_upt)
  then show ?thesis by (auto simp: word_unat_eq_iff op opcodes_def)
qed

lemma enumerator_None: "enumerator xs v = None \<longleftrightarrow> length xs \<le> unat v"
  by (simp add: enumerator_def)

text \<open>The comparison operators of the enumeration compare the values.\<close>

instantiation OpCode :: linorder
begin

definition less_eq_OpCode :: "OpCode \<Rightarrow> OpCode \<Rightarrow> bool" where
  "less_eq_OpCode a b = (opcode_value a \<le> opcode_value b)"

definition less_OpCode :: "OpCode \<Rightarrow> OpCode \<Rightarrow> bool" where
  "less_OpCode a b = (opcode_value a < opcode_value b)"

instance
  by standard (auto simp: less_eq_OpCode_def less_OpCode_def order.strict_iff_order)

end

record Instruction =
  opcode :: u32
  descPtr :: u32

section \<open>Descriptors\<close>

record DMAParam =
  dma_sramAddr :: u32
  dma_ddrAddr :: u32
  dma_rows :: u32
  dma_cols :: u32
  dma_srcStride :: u32
  dma_dstStride :: u32

text \<open>
  \<open>transA\<close> and \<open>transB\<close> are of type \<open>bool\<close>; the field holds the byte, which \<open>bool_value\<close>
  reads.
\<close>

record MatmulParam =
  mm_dstAddr :: u32
  mm_rhsAddr :: u32
  mm_lhsAddr :: u32
  mm_M :: u32
  mm_K :: u32
  mm_N :: u32
  mm_accumulate :: u32
  mm_transA :: u8
  mm_transB :: u8

record EwiseParam =
  ew_dstAddr :: u32
  ew_rhsAddr :: u32
  ew_lhsAddr :: u32
  ew_rows :: u32
  ew_cols :: u32
  ew_rhsBlk :: u32
  ew_rhsStride :: u32

record ActParam =
  act_dstAddr :: u32
  act_srcAddr :: u32
  act_n :: u32
  act_kind :: u32
  act_extra0 :: u32
  act_extra1 :: u32
  act_extra2 :: u32
  act_extra3 :: u32

record ReduceParam =
  red_dstAddr :: u32
  red_idxAddr :: u32
  red_srcAddr :: u32
  red_rows :: u32
  red_cols :: u32
  red_kind :: u32

definition bool_value :: "u8 \<Rightarrow> bool result" where
  "bool_value b = (if b = 0 then Inr False else if b = 1 then Inr True else Inl BadBool)"

definition u32_at :: "u8 list \<Rightarrow> nat \<Rightarrow> u32" where
  "u32_at bs off = u32_of_bytes (drop off bs)"

definition load_DMAParam :: "u8 list \<Rightarrow> DMAParam" where
  "load_DMAParam bs = \<lparr>dma_sramAddr = u32_at bs 0, dma_ddrAddr = u32_at bs 4, dma_rows = u32_at bs 8,
     dma_cols = u32_at bs 12, dma_srcStride = u32_at bs 16, dma_dstStride = u32_at bs 20\<rparr>"

definition bytes_of_DMAParam :: "DMAParam \<Rightarrow> u8 list" where
  "bytes_of_DMAParam d = concat (map bytes_of_u32 [dma_sramAddr d, dma_ddrAddr d, dma_rows d,
     dma_cols d, dma_srcStride d, dma_dstStride d])"

text \<open>The two padding bytes of a \<open>MatmulParam\<close> are zero, its object being value-initialised.\<close>

definition load_MatmulParam :: "u8 list \<Rightarrow> MatmulParam" where
  "load_MatmulParam bs = \<lparr>mm_dstAddr = u32_at bs 0, mm_rhsAddr = u32_at bs 4, mm_lhsAddr = u32_at bs 8,
     mm_M = u32_at bs 12, mm_K = u32_at bs 16, mm_N = u32_at bs 20, mm_accumulate = u32_at bs 24,
     mm_transA = bs ! 28, mm_transB = bs ! 29\<rparr>"

definition bytes_of_MatmulParam :: "MatmulParam \<Rightarrow> u8 list" where
  "bytes_of_MatmulParam d = concat (map bytes_of_u32 [mm_dstAddr d, mm_rhsAddr d, mm_lhsAddr d,
     mm_M d, mm_K d, mm_N d, mm_accumulate d]) @ [mm_transA d, mm_transB d, 0, 0]"

definition load_EwiseParam :: "u8 list \<Rightarrow> EwiseParam" where
  "load_EwiseParam bs = \<lparr>ew_dstAddr = u32_at bs 0, ew_rhsAddr = u32_at bs 4, ew_lhsAddr = u32_at bs 8,
     ew_rows = u32_at bs 12, ew_cols = u32_at bs 16, ew_rhsBlk = u32_at bs 20, ew_rhsStride = u32_at bs 24\<rparr>"

definition bytes_of_EwiseParam :: "EwiseParam \<Rightarrow> u8 list" where
  "bytes_of_EwiseParam d = concat (map bytes_of_u32 [ew_dstAddr d, ew_rhsAddr d, ew_lhsAddr d,
     ew_rows d, ew_cols d, ew_rhsBlk d, ew_rhsStride d])"

definition load_ActParam :: "u8 list \<Rightarrow> ActParam" where
  "load_ActParam bs = \<lparr>act_dstAddr = u32_at bs 0, act_srcAddr = u32_at bs 4, act_n = u32_at bs 8,
     act_kind = u32_at bs 12, act_extra0 = u32_at bs 16, act_extra1 = u32_at bs 20,
     act_extra2 = u32_at bs 24, act_extra3 = u32_at bs 28\<rparr>"

definition bytes_of_ActParam :: "ActParam \<Rightarrow> u8 list" where
  "bytes_of_ActParam d = concat (map bytes_of_u32 [act_dstAddr d, act_srcAddr d, act_n d,
     act_kind d, act_extra0 d, act_extra1 d, act_extra2 d, act_extra3 d])"

definition load_ReduceParam :: "u8 list \<Rightarrow> ReduceParam" where
  "load_ReduceParam bs = \<lparr>red_dstAddr = u32_at bs 0, red_idxAddr = u32_at bs 4, red_srcAddr = u32_at bs 8,
     red_rows = u32_at bs 12, red_cols = u32_at bs 16, red_kind = u32_at bs 20\<rparr>"

definition bytes_of_ReduceParam :: "ReduceParam \<Rightarrow> u8 list" where
  "bytes_of_ReduceParam d = concat (map bytes_of_u32 [red_dstAddr d, red_idxAddr d, red_srcAddr d,
     red_rows d, red_cols d, red_kind d])"

section \<open>The contract of a descriptor\<close>

text \<open>
  A descriptor type has a fixed size, and reading back what was written gives the descriptor.
\<close>

locale descriptor =
  fixes enc :: "'d \<Rightarrow> u8 list" and dec :: "u8 list \<Rightarrow> 'd" and size_of :: nat
  assumes length_enc [simp]: "length (enc d) = size_of"
    and dec_enc [simp]: "dec (enc d) = d"
begin

lemma enc_inject: "enc d = enc e \<longleftrightarrow> d = e"
  by (metis dec_enc)

end

lemma u32_of_four_bytes:
  "u32_of_bytes (ucast v # ucast (drop_bit 8 v) # ucast (drop_bit 16 v) # ucast (drop_bit 24 v) # bs) = v"
  using u32_of_bytes_of_u32 [of v] by (simp add: u32_of_bytes_def bytes_of_u32_def)

lemmas layout_simps = u32_at_def bytes_of_u32_def u32_of_four_bytes

interpretation dma_desc: descriptor bytes_of_DMAParam load_DMAParam 24
  by unfold_locales (simp_all add: bytes_of_DMAParam_def load_DMAParam_def layout_simps)

interpretation matmul_desc: descriptor bytes_of_MatmulParam load_MatmulParam 32
  by unfold_locales (simp_all add: bytes_of_MatmulParam_def load_MatmulParam_def layout_simps)

interpretation ewise_desc: descriptor bytes_of_EwiseParam load_EwiseParam 28
  by unfold_locales (simp_all add: bytes_of_EwiseParam_def load_EwiseParam_def layout_simps)

interpretation act_desc: descriptor bytes_of_ActParam load_ActParam 32
  by unfold_locales (simp_all add: bytes_of_ActParam_def load_ActParam_def layout_simps)

interpretation reduce_desc: descriptor bytes_of_ReduceParam load_ReduceParam 24
  by unfold_locales (simp_all add: bytes_of_ReduceParam_def load_ReduceParam_def layout_simps)

end
