(* ===== verification/ByteMemory.thy ===== *)
theory ByteMemory
  imports Prelude
begin

text \<open>
  The contract of a bounded byte memory, and what every loop of stores relies on: a load after a
  store, stores that do not meet, and a loop whose iterations write disjoint blocks.  The two
  memories of the simulated chip (CModel) are its instances.
\<close>

section \<open>A bounded array of bytes\<close>

text \<open>
  A \<open>memcpy\<close> from or to a vector of \<open>cap\<close> bytes; past the end it is undefined behaviour.
\<close>

definition copy_from :: "nat \<Rightarrow> (nat \<Rightarrow> u8) \<Rightarrow> nat \<Rightarrow> nat \<Rightarrow> u8 list result" where
  "copy_from cap m off n =
     (if off + n \<le> cap then Inr (map m [off..<off + n]) else Inl OutOfBounds)"

definition poke :: "(nat \<Rightarrow> u8) \<Rightarrow> nat \<Rightarrow> u8 list \<Rightarrow> nat \<Rightarrow> u8" where
  "poke m off bs a = (if off \<le> a \<and> a < off + length bs then bs ! (a - off) else m a)"

definition copy_to :: "nat \<Rightarrow> (nat \<Rightarrow> u8) \<Rightarrow> nat \<Rightarrow> u8 list \<Rightarrow> (nat \<Rightarrow> u8) result" where
  "copy_to cap m off bs =
     (if off + length bs \<le> cap
      then Inr (poke m off bs) else Inl OutOfBounds)"

text \<open>Two blocks of addresses that do not meet.\<close>

definition apart :: "nat \<Rightarrow> nat \<Rightarrow> nat \<Rightarrow> nat \<Rightarrow> bool" where
  "apart p m q n \<longleftrightarrow> p + m \<le> q \<or> q + n \<le> p"

definition inside :: "nat \<Rightarrow> nat \<Rightarrow> nat \<Rightarrow> bool" where
  "inside p n a \<longleftrightarrow> p \<le> a \<and> a < p + n"

lemma apart_sym: "apart p m q n = apart q n p m"
  by (auto simp: apart_def)

lemma apart_not_inside: "apart p m q n \<Longrightarrow> inside q n a \<Longrightarrow> \<not> inside p m a"
  by (auto simp: apart_def inside_def)

section \<open>The contract\<close>

locale byte_memory =
  fixes get :: "'s \<Rightarrow> nat \<Rightarrow> u8"
    and rd :: "'s \<Rightarrow> nat \<Rightarrow> nat \<Rightarrow> u8 list result"
    and wr :: "'s \<Rightarrow> nat \<Rightarrow> u8 list \<Rightarrow> 's result"
    and msize :: nat
  assumes rd_in: "p + n \<le> msize \<Longrightarrow> rd s p n = Inr (map (get s) [p..<p + n])"
    and rd_out: "msize < p + n \<Longrightarrow> rd s p n = Inl OutOfBounds"
    and wr_in: "p + length bs \<le> msize \<Longrightarrow> \<exists>t. wr s p bs = Inr t"
    and wr_out: "msize < p + length bs \<Longrightarrow> wr s p bs = Inl OutOfBounds"
    and get_wr: "wr s p bs = Inr t \<Longrightarrow>
      get t a = (if inside p (length bs) a then bs ! (a - p) else get s a)"
begin

lemma rd_length: "rd s p n = Inr bs \<Longrightarrow> length bs = n"
  using rd_in [of p n s] rd_out [of p n s] by (cases "p + n \<le> msize") auto

lemma wr_fits: "wr s p bs = Inr t \<Longrightarrow> p + length bs \<le> msize"
  using wr_out [of p bs s] by (cases "p + length bs \<le> msize") auto

lemma rd_cong:
  assumes "\<And>a. inside p n a \<Longrightarrow> get s a = get t a"
  shows "rd s p n = rd t p n"
proof (cases "p + n \<le> msize")
  case True
  have "map (get s) [p..<p + n] = map (get t) [p..<p + n]"
    using assms by (auto simp: inside_def)
  then show ?thesis by (simp only: rd_in [OF True])
next
  case False
  then show ?thesis by (simp add: rd_out)
qed

lemma rd_wr_same: "wr s p bs = Inr t \<Longrightarrow> rd t p (length bs) = Inr bs"
proof -
  assume w: "wr s p bs = Inr t"
  have "map (get t) [p..<p + length bs] = bs"
    by (rule nth_equalityI) (simp_all add: get_wr [OF w] inside_def)
  then show ?thesis by (simp add: rd_in [OF wr_fits [OF w]])
qed

lemma rd_wr_apart: "wr s p bs = Inr t \<Longrightarrow> apart p (length bs) q n \<Longrightarrow> rd t q n = rd s q n"
  by (rule rd_cong) (simp add: get_wr apart_not_inside)

text \<open>
  A loop whose \<open>i\<close>-th iteration, from every state that only the earlier iterations have touched,
  writes the bytes \<open>f i\<close> at \<open>off i\<close>, the blocks being apart: afterwards each block holds its
  bytes and everything else is as before.  An iteration may read what it is about to overwrite.
\<close>

lemma fold_writes:
  assumes fits: "\<And>i. i < n \<Longrightarrow> off i + length (f i) \<le> msize"
    and disj: "\<And>i j. i < j \<Longrightarrow> j < n \<Longrightarrow> apart (off i) (length (f i)) (off j) (length (f j))"
    and step: "\<And>i s. i < n \<Longrightarrow> J s \<Longrightarrow>
      (\<And>a. (\<And>j. j < i \<Longrightarrow> \<not> inside (off j) (length (f j)) a) \<Longrightarrow> get s a = get s0 a) \<Longrightarrow>
      body i s = wr s (off i) (f i)"
    and J0: "J s0" and J_wr: "\<And>s p bs t. J s \<Longrightarrow> wr s p bs = Inr t \<Longrightarrow> J t"
  shows "\<exists>t. fold_result body [0..<n] s0 = Inr t \<and> J t
    \<and> (\<forall>i<n. rd t (off i) (length (f i)) = Inr (f i))
    \<and> (\<forall>a. (\<forall>i<n. \<not> inside (off i) (length (f i)) a) \<longrightarrow> get t a = get s0 a)"
proof -
  define I where "I = (\<lambda>k t. J t
    \<and> (\<forall>i<k. rd t (off i) (length (f i)) = Inr (f i))
    \<and> (\<forall>a. (\<forall>i<k. \<not> inside (off i) (length (f i)) a) \<longrightarrow> get t a = get s0 a))"
  have "\<exists>t. fold_result body [0..<n] s0 = Inr t \<and> I n t"
  proof (rule fold_result_upt)
    show "I 0 s0" using J0 by (simp add: I_def)
  next
    fix i s
    assume i: "i < n" and s: "I i s"
    then have b: "body i s = wr s (off i) (f i)" by (intro step) (auto simp: I_def)
    obtain t where t: "wr s (off i) (f i) = Inr t" using wr_in [OF fits [OF i]] by blast
    have "rd t (off j) (length (f j)) = rd s (off j) (length (f j))" if "j < i" for j
      using rd_wr_apart [OF t] disj [OF that i] apart_sym by metis
    moreover have "rd t (off i) (length (f i)) = Inr (f i)" by (rule rd_wr_same [OF t])
    ultimately have "I (Suc i) t"
      using s J_wr [OF _ t] unfolding I_def by (auto simp: less_Suc_eq get_wr [OF t])
    with b t show "\<exists>t. body i s = Inr t \<and> I (Suc i) t" by auto
  qed
  then show ?thesis by (simp add: I_def)
qed

text \<open>The same for a loop that writes two blocks in each iteration.\<close>

lemma fold_two_writes:
  assumes fits: "\<And>i. i < n \<Longrightarrow> p i + length (f i) \<le> msize \<and> q i + length (g i) \<le> msize"
    and disj: "\<And>i j. i < j \<Longrightarrow> j < n \<Longrightarrow>
      apart (p i) (length (f i)) (p j) (length (f j)) \<and> apart (q i) (length (g i)) (q j) (length (g j))"
    and cross: "\<And>i j. i < n \<Longrightarrow> j < n \<Longrightarrow> apart (p i) (length (f i)) (q j) (length (g j))"
    and step: "\<And>i s. i < n \<Longrightarrow> J s \<Longrightarrow>
      (\<And>a. (\<And>j. j < i \<Longrightarrow> \<not> inside (p j) (length (f j)) a \<and> \<not> inside (q j) (length (g j)) a) \<Longrightarrow> get s a = get s0 a) \<Longrightarrow>
      body i s = rbind (wr s (p i) (f i)) (\<lambda>s. wr s (q i) (g i))"
    and J0: "J s0" and J_wr: "\<And>s p bs t. J s \<Longrightarrow> wr s p bs = Inr t \<Longrightarrow> J t"
  shows "\<exists>t. fold_result body [0..<n] s0 = Inr t \<and> J t
    \<and> (\<forall>i<n. rd t (p i) (length (f i)) = Inr (f i) \<and> rd t (q i) (length (g i)) = Inr (g i))
    \<and> (\<forall>a. (\<forall>i<n. \<not> inside (p i) (length (f i)) a \<and> \<not> inside (q i) (length (g i)) a) \<longrightarrow> get t a = get s0 a)"
proof -
  define I where "I = (\<lambda>k t. J t
    \<and> (\<forall>i<k. rd t (p i) (length (f i)) = Inr (f i) \<and> rd t (q i) (length (g i)) = Inr (g i))
    \<and> (\<forall>a. (\<forall>i<k. \<not> inside (p i) (length (f i)) a \<and> \<not> inside (q i) (length (g i)) a) \<longrightarrow> get t a = get s0 a))"
  have "\<exists>t. fold_result body [0..<n] s0 = Inr t \<and> I n t"
  proof (rule fold_result_upt)
    show "I 0 s0" using J0 by (simp add: I_def)
  next
    fix i s
    assume i: "i < n" and s: "I i s"
    then have b: "body i s = rbind (wr s (p i) (f i)) (\<lambda>s. wr s (q i) (g i))"
      by (intro step) (auto simp: I_def)
    obtain u where u: "wr s (p i) (f i) = Inr u" using wr_in fits [OF i] by blast
    obtain t where t: "wr u (q i) (g i) = Inr t" using wr_in fits [OF i] by blast
    have keep: "rd t b m = rd s b m" if "apart (p i) (length (f i)) b m" and "apart (q i) (length (g i)) b m" for b m
      using rd_wr_apart [OF u that(1)] rd_wr_apart [OF t that(2)] by simp
    have old: "rd t (p j) (length (f j)) = rd s (p j) (length (f j)) \<and> rd t (q j) (length (g j)) = rd s (q j) (length (g j))"
      if "j < i" for j
      using disj [OF that i] cross [of i j] cross [of j i] that i by (auto intro!: keep simp: apart_sym)
    have new: "rd t (p i) (length (f i)) = Inr (f i)" "rd t (q i) (length (g i)) = Inr (g i)"
      using rd_wr_same [OF u] rd_wr_same [OF t] rd_wr_apart [OF t] cross [OF i i] apart_sym by metis+
    have "J t" using s J_wr [OF J_wr [OF _ u] t] by (simp add: I_def)
    with s old new have "I (Suc i) t"
      unfolding I_def by (auto simp: less_Suc_eq get_wr [OF t] get_wr [OF u])
    with b u t show "\<exists>t. body i s = Inr t \<and> I (Suc i) t" by auto
  qed
  then show ?thesis by (simp add: I_def)
qed

end

section \<open>Two memories side by side\<close>

text \<open>A store to one memory does not change the other.\<close>

locale two_memories =
  a: byte_memory get_a rd_a wr_a size_a + b: byte_memory get_b rd_b wr_b size_b
  for get_a :: "'s \<Rightarrow> nat \<Rightarrow> u8" and rd_a wr_a size_a
    and get_b :: "'s \<Rightarrow> nat \<Rightarrow> u8" and rd_b wr_b size_b +
  assumes wr_a_frame: "wr_a s p bs = Inr t \<Longrightarrow> get_b t = get_b s"
    and wr_b_frame: "wr_b s p bs = Inr t \<Longrightarrow> get_a t = get_a s"
begin

lemma rd_b_wr_a: "wr_a s p bs = Inr t \<Longrightarrow> rd_b t q n = rd_b s q n"
  by (rule b.rd_cong) (simp add: wr_a_frame)

lemma rd_a_wr_b: "wr_b s p bs = Inr t \<Longrightarrow> rd_a t q n = rd_a s q n"
  by (rule a.rd_cong) (simp add: wr_b_frame)

text \<open>Loads of one memory into the other: a block copied from \<open>b\<close> to \<open>a\<close> can be read in \<open>a\<close>.\<close>

lemma copy_b_to_a:
  assumes "rd_b s q n = Inr bs" and "wr_a s p bs = Inr t"
  shows "rd_a t p n = rd_b s q n" and "rd_b t q n = rd_b s q n"
  using a.rd_wr_same [OF assms(2)] b.rd_length [OF assms(1)] assms(1) rd_b_wr_a [OF assms(2)]
  by simp_all

end

end
