(* ===== verification/CModel.thy ===== *)
theory CModel
  imports FloatOps Isa ByteMemory
begin

text \<open>
  runtime/lib/cmodel.cpp and runtime/include/cmodel.h: the two memories of the chip, the checked
  address translations \<open>ddr\<close> and \<open>sram\<close>, and the fp16 accessors.  A pointer into a vector is
  the index of its byte.
\<close>

section \<open>State and address translation\<close>

record cmodel =
  ddr_bytes :: "nat \<Rightarrow> u8"
  sram_bytes :: "nat \<Rightarrow> u8"

text \<open>\<open>std::vector::resize\<close> value-initialises: both memories start zero.\<close>

definition CModel_init :: cmodel where
  "CModel_init = \<lparr>ddr_bytes = (\<lambda>_. 0), sram_bytes = (\<lambda>_. 0)\<rparr>"

definition ceilDiv :: "u64 \<Rightarrow> u64 \<Rightarrow> u64" where
  "ceilDiv a b = (a + b - 1) div b"

definition ddr :: "u32 \<Rightarrow> nat result" where
  "ddr addr = rbind (eclipse_assert (DDR_ADDR \<le> addr \<and> addr < DDR_ADDR + DDR_SIZE) ''ddr addr out of range'')
     (\<lambda>_. Inr (unat (addr - DDR_ADDR)))"

definition sram :: "u32 \<Rightarrow> nat result" where
  "sram addr = rbind (eclipse_assert (SRAM_ADDR \<le> addr \<and> addr < SRAM_ADDR + SRAM_SIZE) ''sram addr out of range'')
     (\<lambda>_. Inr (unat (addr - SRAM_ADDR)))"

section \<open>Memory accesses\<close>

definition read_ddr :: "cmodel \<Rightarrow> nat \<Rightarrow> nat \<Rightarrow> u8 list result" where
  "read_ddr sim p n = copy_from (unat DDR_SIZE) (ddr_bytes sim) p n"

definition write_ddr :: "cmodel \<Rightarrow> nat \<Rightarrow> u8 list \<Rightarrow> cmodel result" where
  "write_ddr sim p bs = rbind (copy_to (unat DDR_SIZE) (ddr_bytes sim) p bs) (\<lambda>m. Inr (sim\<lparr>ddr_bytes := m\<rparr>))"

definition read_sram :: "cmodel \<Rightarrow> nat \<Rightarrow> nat \<Rightarrow> u8 list result" where
  "read_sram sim p n = copy_from (unat SRAM_SIZE) (sram_bytes sim) p n"

definition write_sram :: "cmodel \<Rightarrow> nat \<Rightarrow> u8 list \<Rightarrow> cmodel result" where
  "write_sram sim p bs = rbind (copy_to (unat SRAM_SIZE) (sram_bytes sim) p bs) (\<lambda>m. Inr (sim\<lparr>sram_bytes := m\<rparr>))"

definition readFP16 :: "cmodel \<Rightarrow> u32 \<Rightarrow> u32 result" where
  "readFP16 sim addr =
     rbind (sram addr) (\<lambda>p. rbind (read_sram sim p 2) (\<lambda>bs. Inr (fp16ToFp32 (u16_of_bytes bs))))"

definition writeFP16 :: "cmodel \<Rightarrow> u32 \<Rightarrow> u32 \<Rightarrow> cmodel result" where
  "writeFP16 sim addr v =
     rbind (sram addr) (\<lambda>p. write_sram sim p (bytes_of_u16 (fp32ToFp16 v)))"

text \<open>\<open>storeU32(sim.sram(addr), v)\<close>, the index store of an ARGMAX reduction.\<close>

definition storeU32_sram :: "cmodel \<Rightarrow> u32 \<Rightarrow> u32 \<Rightarrow> cmodel result" where
  "storeU32_sram sim addr v = rbind (sram addr) (\<lambda>p. write_sram sim p (bytes_of_u32 v))"

text \<open>
  A descriptor at a DDR address, \<open>reinterpret_cast<const T *>(sim.ddr(descPtr))\<close>: the whole object
  has to lie in the vector.  \<open>size_of\<close> is \<open>sizeof(T)\<close>.
\<close>

definition read_desc :: "cmodel \<Rightarrow> u32 \<Rightarrow> nat \<Rightarrow> (u8 list \<Rightarrow> 'd) \<Rightarrow> 'd result" where
  "read_desc sim dp size_of dec =
     rbind (ddr dp) (\<lambda>p. rbind (read_ddr sim p size_of) (\<lambda>bs. Inr (dec bs)))"

section \<open>The memories keep the contract\<close>

lemma copy_from_in: "p + n \<le> cap \<Longrightarrow> copy_from cap m p n = Inr (map m [p..<p + n])"
  by (simp add: copy_from_def)

interpretation mem: two_memories
  sram_bytes read_sram write_sram "unat SRAM_SIZE" ddr_bytes read_ddr write_ddr "unat DDR_SIZE"
  by unfold_locales
    (auto simp: read_sram_def write_sram_def read_ddr_def write_ddr_def copy_from_def copy_to_def poke_def inside_def
      split: if_splits)

lemma write_ddr_poke:
  "p + length bs \<le> 0x80000000 \<Longrightarrow> write_ddr sim p bs = Inr (sim\<lparr>ddr_bytes := poke (ddr_bytes sim) p bs\<rparr>)"
  by (simp add: write_ddr_def copy_to_def to_nat)

lemma write_sram_poke:
  "p + length bs \<le> 0x80000 \<Longrightarrow> write_sram sim p bs = Inr (sim\<lparr>sram_bytes := poke (sram_bytes sim) p bs\<rparr>)"
  by (simp add: write_sram_def copy_to_def to_nat)

text \<open>Whoever wrote a descriptor to DDR lets the chip read it back.\<close>

context descriptor
begin

lemma read_back:
  assumes "ddr dp = Inr p" and "write_ddr sim p (enc d) = Inr t"
  shows "read_desc t dp size_of dec = Inr d"
  using mem.b.rd_wr_same [OF assms(2)] assms(1) by (simp add: read_desc_def)

lemma read_poke:
  assumes "ddr dp = Inr p" and "p + size_of \<le> 0x80000000" and "ddr_bytes sim = poke m p (enc d)"
  shows "read_desc sim dp size_of dec = Inr d"
proof -
  have w: "write_ddr (sim\<lparr>ddr_bytes := m\<rparr>) p (enc d) = Inr (sim\<lparr>ddr_bytes := poke m p (enc d)\<rparr>)"
    using assms(2) by (simp add: write_ddr_poke)
  have "sim\<lparr>ddr_bytes := poke m p (enc d)\<rparr> = sim" using assms(3) by (metis cmodel.surjective cmodel.update_convs(1) cmodel.select_convs(1) old.unit.exhaust)
  with read_back [OF assms(1) w] show ?thesis by simp
qed

end

section \<open>Addresses\<close>

lemma ddr_eq_Inr: "ddr addr = Inr p \<longleftrightarrow> 0x40000000 \<le> unat addr \<and> unat addr < 0xC0000000 \<and> p = unat addr - 0x40000000"
proof -
  have "unat (addr - DDR_ADDR) = unat addr - 0x40000000" if "0x40000000 \<le> unat addr"
    using that by (simp add: unat_sub word_le_nat_alt to_nat)
  then show ?thesis
    by (auto simp: ddr_def eclipse_assert_def word_le_nat_alt word_less_nat_alt to_nat)
qed

lemma sram_eq_Inr: "sram addr = Inr p \<longleftrightarrow> 0x10000000 \<le> unat addr \<and> unat addr < 0x10080000 \<and> p = unat addr - 0x10000000"
proof -
  have "unat (addr - SRAM_ADDR) = unat addr - 0x10000000" if "0x10000000 \<le> unat addr"
    using that by (simp add: unat_sub word_le_nat_alt to_nat)
  then show ?thesis
    by (auto simp: sram_def eclipse_assert_def word_le_nat_alt word_less_nat_alt to_nat)
qed

lemma ddr_eq_Inl: "ddr addr = Inl e \<longleftrightarrow>
    \<not> (0x40000000 \<le> unat addr \<and> unat addr < 0xC0000000) \<and> e = AssertFail ''ddr addr out of range''"
  by (auto simp: ddr_def eclipse_assert_def word_le_nat_alt word_less_nat_alt to_nat)

lemma sram_eq_Inl: "sram addr = Inl e \<longleftrightarrow>
    \<not> (0x10000000 \<le> unat addr \<and> unat addr < 0x10080000) \<and> e = AssertFail ''sram addr out of range''"
  by (auto simp: sram_def eclipse_assert_def word_le_nat_alt word_less_nat_alt to_nat)

section \<open>Arrays of fp16 elements in SRAM\<close>

text \<open>
  The address of element \<open>i\<close> of an array, \<open>base + i * DTYPE_SIZE\<close>: \<open>DTYPE_SIZE\<close> is a
  \<open>size_t\<close>, so the sum is a 64-bit one, converted to the \<open>uint32_t\<close> parameter.
\<close>

definition elem_addr :: "u32 \<Rightarrow> u32 \<Rightarrow> u32" where
  "elem_addr base i = ucast (ucast base + ucast i * DTYPE_SIZE)"

text \<open>The index of a bus address in \<open>sram_\<close>, and the element there.\<close>

definition sram_off :: "u32 \<Rightarrow> nat" where
  "sram_off addr = unat addr - 0x10000000"

definition sram_fp16 :: "cmodel \<Rightarrow> nat \<Rightarrow> u16" where
  "sram_fp16 sim p = u16_of_bytes [sram_bytes sim p, sram_bytes sim (p + 1)]"

definition block_fits :: "u32 \<Rightarrow> nat \<Rightarrow> bool" where
  "block_fits addr n \<longleftrightarrow> n = 0 \<or> 0x10000000 \<le> unat addr \<and> unat addr + 2 * n \<le> 0x10080000"

lemma unat_elem_addr: "unat (elem_addr base i) = (unat base + 2 * unat i) mod 2 ^ 32"
proof -
  have lt: "unat base < 2 ^ 32" "unat i < 2 ^ 32"
    using unsigned_less [of base] unsigned_less [of i] by simp_all
  then have "unat (ucast i * DTYPE_SIZE) = unat i * 2"
    by (simp add: DTYPE_SIZE_def unat_mult_no_wrap unat_ucast_small)
  with lt have "unat (ucast base + ucast i * DTYPE_SIZE) = unat base + unat i * 2"
    by (simp add: unat_add_no_wrap unat_ucast_small)
  then show ?thesis
    by (simp add: elem_addr_def unsigned_ucast_eq take_bit_eq_mod [where ?'a = nat] mult.commute)
qed

lemma elem_addr_word: "elem_addr base i = base + 2 * i"
  by (simp add: word_unat_eq_iff unat_elem_addr unat_word_ariths mod_simps)

lemma elem_addr_add: "elem_addr (elem_addr b i) j = elem_addr b (i + j)"
  by (simp add: elem_addr_word)

lemma elem_addr_0 [simp]: "elem_addr b 0 = b"
  by (simp add: elem_addr_word)

lemma elem_in_block:
  assumes "block_fits addr n" and "i < n"
  shows "unat (elem_addr addr (of_nat i)) = unat addr + 2 * i"
    and "0x10000000 \<le> unat addr" and "unat addr + 2 * i + 2 \<le> 0x10080000"
proof -
  from assms have r: "0x10000000 \<le> unat addr" "unat addr + 2 * n \<le> 0x10080000"
    by (simp_all add: block_fits_def)
  with assms(2) have "i < 2 ^ 32" "unat addr + 2 * i < 2 ^ 32" by simp_all
  then show "unat (elem_addr addr (of_nat i)) = unat addr + 2 * i"
    by (simp add: unat_elem_addr unat_of_nat_small)
  show "0x10000000 \<le> unat addr" "unat addr + 2 * i + 2 \<le> 0x10080000" using r assms(2) by simp_all
qed

lemma readFP16_at:
  assumes "0x10000000 \<le> unat addr" and "unat addr + 2 \<le> 0x10080000"
  shows "readFP16 sim addr = Inr (fp16ToFp32 (sram_fp16 sim (sram_off addr)))"
proof -
  have s: "sram addr = Inr (sram_off addr)" using assms by (simp add: sram_eq_Inr sram_off_def)
  have "sram_off addr + 2 \<le> unat SRAM_SIZE" using assms by (simp add: sram_off_def to_nat)
  from mem.a.rd_in [OF this] s show ?thesis
    by (simp add: readFP16_def sram_fp16_def upt_rec)
qed

lemma readFP16_elem:
  assumes "block_fits addr n" and "i < n"
  shows "readFP16 sim (elem_addr addr (of_nat i)) = Inr (fp16ToFp32 (sram_fp16 sim (sram_off addr + 2 * i)))"
proof -
  note e = elem_in_block [OF assms]
  have "sram_off (elem_addr addr (of_nat i)) = sram_off addr + 2 * i"
    using e by (simp add: sram_off_def)
  with readFP16_at [of "elem_addr addr (of_nat i)" sim] e show ?thesis by simp
qed

lemma writeFP16_at:
  assumes "0x10000000 \<le> unat addr" and "unat addr + 2 \<le> 0x10080000"
  shows "writeFP16 sim addr v = write_sram sim (sram_off addr) (bytes_of_u16 (fp32ToFp16 v))"
  using assms by (simp add: writeFP16_def sram_off_def sram_eq_Inr [THEN iffD2])

lemma writeFP16_elem:
  assumes "block_fits addr n" and "i < n"
  shows "writeFP16 sim (elem_addr addr (of_nat i)) v
    = write_sram sim (sram_off addr + 2 * i) (bytes_of_u16 (fp32ToFp16 v))"
proof -
  note e = elem_in_block [OF assms]
  have "sram_off (elem_addr addr (of_nat i)) = sram_off addr + 2 * i"
    using e by (simp add: sram_off_def)
  with writeFP16_at [of "elem_addr addr (of_nat i)" sim v] e show ?thesis by simp
qed

lemma sram_fp16_written:
  assumes "read_sram sim p 2 = Inr (bytes_of_u16 w)"
  shows "sram_fp16 sim p = w"
proof -
  have "p + 2 \<le> unat SRAM_SIZE"
    using assms mem.a.rd_out [of p 2 sim] by (cases "p + 2 \<le> unat SRAM_SIZE") auto
  from mem.a.rd_in [OF this, of sim] assms
  have "[sram_bytes sim p, sram_bytes sim (p + 1)] = bytes_of_u16 w" by (simp add: upt_rec)
  then show ?thesis by (simp add: sram_fp16_def)
qed

text \<open>
  A loop whose \<open>i\<close>-th iteration writes element \<open>i\<close> of \<open>dst\<close> fills the array.  The
  iteration may read everything but the elements written before it.
\<close>

lemma fill_fp16:
  assumes fit: "block_fits dst n"
    and step: "\<And>i s. i < n \<Longrightarrow> ddr_bytes s = ddr_bytes sim \<Longrightarrow>
      (\<And>a. \<not> inside (sram_off dst) (2 * i) a \<Longrightarrow> sram_bytes s a = sram_bytes sim a) \<Longrightarrow>
      body i s = writeFP16 s (elem_addr dst (of_nat i)) (g i)"
  shows "\<exists>t. fold_result body [0..<n] sim = Inr t \<and> ddr_bytes t = ddr_bytes sim
    \<and> (\<forall>i<n. sram_fp16 t (sram_off dst + 2 * i) = fp32ToFp16 (g i))
    \<and> (\<forall>a. \<not> inside (sram_off dst) (2 * n) a \<longrightarrow> sram_bytes t a = sram_bytes sim a)"
proof -
  define f where "f = (\<lambda>i. bytes_of_u16 (fp32ToFp16 (g i)))"
  have len: "length (f i) = 2" for i by (simp add: f_def)
  have "\<exists>t. fold_result body [0..<n] sim = Inr t \<and> ddr_bytes t = ddr_bytes sim
    \<and> (\<forall>i<n. read_sram t (sram_off dst + 2 * i) (length (f i)) = Inr (f i))
    \<and> (\<forall>a. (\<forall>i<n. \<not> inside (sram_off dst + 2 * i) (length (f i)) a) \<longrightarrow> sram_bytes t a = sram_bytes sim a)"
  proof (rule mem.a.fold_writes)
    fix i assume "i < n"
    from elem_in_block [OF fit this] show "sram_off dst + 2 * i + length (f i) \<le> unat SRAM_SIZE"
      by (simp add: len sram_off_def to_nat)
  next
    fix i :: nat and s :: cmodel
    assume i: "i < n" and d: "ddr_bytes s = ddr_bytes sim"
      and a: "\<And>a. (\<And>j. j < i \<Longrightarrow> \<not> inside (sram_off dst + 2 * j) (length (f j)) a) \<Longrightarrow> sram_bytes s a = sram_bytes sim a"
    have "body i s = writeFP16 s (elem_addr dst (of_nat i)) (g i)"
      by (intro step i d a) (auto simp: inside_def len)
    then show "body i s = write_sram s (sram_off dst + 2 * i) (f i)"
      by (simp add: writeFP16_elem [OF fit i] f_def)
  qed (auto simp: apart_def len mem.wr_a_frame)
  then show ?thesis
  proof (elim exE conjE, intro exI conjI)
    fix t
    assume r: "\<forall>i<n. read_sram t (sram_off dst + 2 * i) (length (f i)) = Inr (f i)"
      and a: "\<forall>a. (\<forall>i<n. \<not> inside (sram_off dst + 2 * i) (length (f i)) a) \<longrightarrow> sram_bytes t a = sram_bytes sim a"
    show "\<forall>i<n. sram_fp16 t (sram_off dst + 2 * i) = fp32ToFp16 (g i)"
      using r by (auto simp: f_def intro: sram_fp16_written)
    show "\<forall>a. \<not> inside (sram_off dst) (2 * n) a \<longrightarrow> sram_bytes t a = sram_bytes sim a"
      using a by (auto simp: inside_def len)
  qed
qed

lemma sram_fp16_cong:
  "sram_bytes s p = sram_bytes t p \<Longrightarrow> sram_bytes s (p + 1) = sram_bytes t (p + 1) \<Longrightarrow> sram_fp16 s p = sram_fp16 t p"
  by (simp add: sram_fp16_def)

text \<open>The elements of an operand that the destination does not meet are not written.\<close>

lemma elem_kept:
  assumes "\<And>a. \<not> inside (sram_off p) (2 * i) a \<Longrightarrow> sram_bytes s a = sram_bytes sim a"
    and "apart (unat p) (2 * m) (unat q) (2 * n)" and "i \<le> m" and "block_fits p m" and "block_fits q n" and "j < n"
  shows "sram_fp16 s (sram_off q + 2 * j) = sram_fp16 sim (sram_off q + 2 * j)"
proof -
  have "\<not> inside (sram_off p) (2 * i) (sram_off q + 2 * j)"
    and "\<not> inside (sram_off p) (2 * i) (sram_off q + 2 * j + 1)"
    using assms(2-6) by (auto simp: inside_def apart_def block_fits_def sram_off_def)
  then show ?thesis by (intro sram_fp16_cong assms(1)) simp_all
qed

end
