(* ===== verification/ExecDma.thy ===== *)
theory ExecDma
  imports CModel
begin

text \<open>
  \<open>execDmaLoad\<close> and \<open>execDmaStore\<close> of runtime/lib/cmodel_exec.cpp: strided copies of rows
  between DDR and SRAM.  A load writes SRAM only, so its descriptor, which lives in DDR, is read
  once.  A store may write over its own descriptor: its loop reads the descriptor again in each
  iteration, as the C++ does, whose stores through \<open>uint8_t *\<close> may alias it.
\<close>

section \<open>The operations\<close>

definition row_bytes :: "DMAParam \<Rightarrow> nat" where
  "row_bytes d = unat (ucast (dma_cols d) * DTYPE_SIZE)"

definition dma_load_row :: "DMAParam \<Rightarrow> nat \<Rightarrow> cmodel \<Rightarrow> cmodel result" where
  "dma_load_row d i sim =
     rbind (ddr (dma_ddrAddr d + dma_srcStride d * of_nat i)) (\<lambda>src.
     rbind (sram (dma_sramAddr d + dma_dstStride d * of_nat i)) (\<lambda>dst.
     rbind (read_ddr sim src (row_bytes d)) (write_sram sim dst)))"

definition execDmaLoad :: "cmodel \<Rightarrow> u32 \<Rightarrow> cmodel result" where
  "execDmaLoad sim dp =
     rbind (read_desc sim dp 24 load_DMAParam) (\<lambda>d.
     rbind (eclipse_assert (dma_sramAddr d mod 16 = 0 \<and> dma_ddrAddr d mod 16 = 0)
              ''dma load: address must be 16-byte aligned'') (\<lambda>_.
     fold_result (dma_load_row d) [0..<unat (dma_rows d)] sim))"

definition dma_store_row :: "DMAParam \<Rightarrow> u32 \<Rightarrow> cmodel \<Rightarrow> cmodel result" where
  "dma_store_row d i sim =
     rbind (sram (dma_sramAddr d + dma_srcStride d * i)) (\<lambda>src.
     rbind (ddr (dma_ddrAddr d + dma_dstStride d * i)) (\<lambda>dst.
     rbind (read_sram sim src (row_bytes d)) (write_ddr sim dst)))"

text \<open>
  The loop of a store; \<open>i\<close> is below a 32-bit bound whenever it is incremented, so it does not
  wrap around and the loop ends whatever is written over \<open>rows\<close>.
\<close>

function dma_store_rows :: "u32 \<Rightarrow> u32 \<Rightarrow> cmodel \<Rightarrow> cmodel result" where
  "dma_store_rows dp i sim =
     rbind (read_desc sim dp 24 load_DMAParam) (\<lambda>d.
       if i < dma_rows d then rbind (dma_store_row d i sim) (dma_store_rows dp (i + 1))
       else Inr sim)"
  by pat_completeness auto

termination
proof (relation "measure (\<lambda>(dp, i, sim). 2 ^ 32 - unat i)", simp)
  fix i :: u32 and d :: DMAParam and dp sim t
  assume "i < dma_rows d"
  then have "unat i < unat (dma_rows d)" by (simp add: word_less_nat_alt)
  moreover have "unat (dma_rows d) < 2 ^ 32" using unsigned_less [of "dma_rows d"] by simp
  ultimately have "unat (i + 1) = Suc (unat i)" and "unat i < 2 ^ 32" by (simp_all add: unat_add_no_wrap)
  then show "((dp, i + 1, t), (dp, i, sim)) \<in> measure (\<lambda>(dp, i, sim). 2 ^ 32 - unat i)" by simp
qed

declare dma_store_rows.simps [simp del]

definition execDmaStore :: "cmodel \<Rightarrow> u32 \<Rightarrow> cmodel result" where
  "execDmaStore sim dp =
     rbind (read_desc sim dp 24 load_DMAParam) (\<lambda>d.
     rbind (eclipse_assert (dma_sramAddr d mod 16 = 0 \<and> dma_ddrAddr d mod 16 = 0)
              ''dma store: address must be 16-byte aligned'') (\<lambda>_.
     dma_store_rows dp 0 sim))"

section \<open>Rows in range\<close>

text \<open>
  The specification side: row \<open>i\<close> of a strided block starts at \<open>addr + stride * i\<close>, as a natural
  number, and the whole block lies in the memory \<open>[lo, hi)\<close>.
\<close>

definition row_at :: "u32 \<Rightarrow> u32 \<Rightarrow> nat \<Rightarrow> nat" where
  "row_at addr stride i = unat addr + unat stride * i"

definition rows_fit :: "nat \<Rightarrow> nat \<Rightarrow> u32 \<Rightarrow> u32 \<Rightarrow> nat \<Rightarrow> nat \<Rightarrow> bool" where
  "rows_fit lo hi addr stride rows bytes \<longleftrightarrow>
     lo \<le> unat addr \<and> (rows = 0 \<or> row_at addr stride (rows - 1) + max 1 bytes \<le> hi)"

definition dma_aligned :: "DMAParam \<Rightarrow> bool" where
  "dma_aligned d \<longleftrightarrow> dma_sramAddr d mod 16 = 0 \<and> dma_ddrAddr d mod 16 = 0"

lemma row_bytes_nat: "row_bytes d = 2 * unat (dma_cols d)"
proof -
  have "unat (dma_cols d) < 2 ^ 32" using unsigned_less [of "dma_cols d"] by simp
  then show ?thesis
    by (simp add: row_bytes_def unat_mult_no_wrap unat_ucast_small DTYPE_SIZE_def)
qed

lemma rows_fit_row:
  assumes "rows_fit lo hi addr stride rows bytes" and "i < rows"
  shows "lo \<le> row_at addr stride i" and "row_at addr stride i + max 1 bytes \<le> hi"
proof -
  have "unat stride * i \<le> unat stride * (rows - 1)" using assms(2) by (intro mult_le_mono) simp_all
  then have "row_at addr stride i \<le> row_at addr stride (rows - 1)" unfolding row_at_def by linarith
  with assms show "row_at addr stride i + max 1 bytes \<le> hi"
    unfolding rows_fit_def by linarith
  from assms show "lo \<le> row_at addr stride i" by (simp add: rows_fit_def row_at_def)
qed

lemma row_addr_nat:
  assumes "rows_fit lo hi addr stride rows bytes" and "i < rows" and "hi \<le> 2 ^ 32"
  shows "unat (addr + stride * of_nat i) = row_at addr stride i"
proof -
  have "row_at addr stride i < 2 ^ 32" using rows_fit_row(2) [OF assms(1,2)] assms(3) by simp
  moreover have "unat (addr + stride * of_nat i) = row_at addr stride i mod 2 ^ 32"
    by (simp add: row_at_def unat_word_ariths unsigned_of_nat take_bit_eq_mod mod_simps)
  ultimately show ?thesis by simp
qed

lemma ddr_row:
  assumes "rows_fit 0x40000000 0xC0000000 addr stride rows bytes" and "i < rows"
  shows "ddr (addr + stride * of_nat i) = Inr (row_at addr stride i - 0x40000000)"
  using rows_fit_row [OF assms] row_addr_nat [OF assms] by (simp add: ddr_eq_Inr)

lemma sram_row:
  assumes "rows_fit 0x10000000 0x10080000 addr stride rows bytes" and "i < rows"
  shows "sram (addr + stride * of_nat i) = Inr (row_at addr stride i - 0x10000000)"
  using rows_fit_row [OF assms] row_addr_nat [OF assms] by (simp add: sram_eq_Inr)

lemma rows_apart:
  assumes "i < j" and "bytes \<le> unat stride" and "lo \<le> unat addr"
  shows "apart (row_at addr stride i - lo) bytes (row_at addr stride j - lo) bytes"
proof -
  have "unat stride * i + unat stride \<le> unat stride * j"
    using assms(1) by (metis Suc_leI mult_Suc_right mult_le_mono2 add.commute)
  then show ?thesis using assms(2,3) by (auto simp: apart_def row_at_def)
qed

section \<open>What a load does\<close>

text \<open>The descriptor of a transfer that stays inside both memories and whose rows do not meet.\<close>

definition dma_load_fits :: "DMAParam \<Rightarrow> bool" where
  "dma_load_fits d \<longleftrightarrow> dma_aligned d
     \<and> rows_fit 0x40000000 0xC0000000 (dma_ddrAddr d) (dma_srcStride d) (unat (dma_rows d)) (row_bytes d)
     \<and> rows_fit 0x10000000 0x10080000 (dma_sramAddr d) (dma_dstStride d) (unat (dma_rows d)) (row_bytes d)
     \<and> row_bytes d \<le> unat (dma_dstStride d)"

lemma read_in_ddr:
  assumes "rows_fit 0x40000000 0xC0000000 addr stride rows bytes" and "i < rows"
  shows "read_ddr sim (row_at addr stride i - 0x40000000) bytes
    = Inr (map (ddr_bytes sim) [row_at addr stride i - 0x40000000..<row_at addr stride i - 0x40000000 + bytes])"
  using rows_fit_row [OF assms] by (intro mem.b.rd_in) (simp add: to_nat)

lemma read_in_sram:
  assumes "rows_fit 0x10000000 0x10080000 addr stride rows bytes" and "i < rows"
  shows "read_sram sim (row_at addr stride i - 0x10000000) bytes
    = Inr (map (sram_bytes sim) [row_at addr stride i - 0x10000000..<row_at addr stride i - 0x10000000 + bytes])"
  using rows_fit_row [OF assms] by (intro mem.a.rd_in) (simp add: to_nat)

lemma dma_load_rows:
  assumes "dma_load_fits d"
  defines "src \<equiv> \<lambda>i. row_at (dma_ddrAddr d) (dma_srcStride d) i - 0x40000000"
    and "dst \<equiv> \<lambda>i. row_at (dma_sramAddr d) (dma_dstStride d) i - 0x10000000"
  shows "\<exists>t. fold_result (dma_load_row d) [0..<unat (dma_rows d)] sim = Inr t
    \<and> ddr_bytes t = ddr_bytes sim
    \<and> (\<forall>i<unat (dma_rows d). read_sram t (dst i) (row_bytes d) = read_ddr sim (src i) (row_bytes d))
    \<and> (\<forall>a. (\<forall>i<unat (dma_rows d). \<not> inside (dst i) (row_bytes d) a) \<longrightarrow> sram_bytes t a = sram_bytes sim a)"
proof -
  have S: "rows_fit 0x40000000 0xC0000000 (dma_ddrAddr d) (dma_srcStride d) (unat (dma_rows d)) (row_bytes d)"
    and D: "rows_fit 0x10000000 0x10080000 (dma_sramAddr d) (dma_dstStride d) (unat (dma_rows d)) (row_bytes d)"
    and w: "row_bytes d \<le> unat (dma_dstStride d)" using assms(1) by (simp_all add: dma_load_fits_def)
  define f where "f = (\<lambda>i. map (ddr_bytes sim) [src i..<src i + row_bytes d])"
  have f: "read_ddr sim (src i) (row_bytes d) = Inr (f i)" if "i < unat (dma_rows d)" for i
    unfolding f_def src_def by (rule read_in_ddr [OF S that])
  have len: "length (f i) = row_bytes d" for i by (simp add: f_def)
  have "\<exists>t. fold_result (dma_load_row d) [0..<unat (dma_rows d)] sim = Inr t \<and> ddr_bytes t = ddr_bytes sim
    \<and> (\<forall>i<unat (dma_rows d). read_sram t (dst i) (length (f i)) = Inr (f i))
    \<and> (\<forall>a. (\<forall>i<unat (dma_rows d). \<not> inside (dst i) (length (f i)) a) \<longrightarrow> sram_bytes t a = sram_bytes sim a)"
  proof (rule mem.a.fold_writes)
    fix i assume "i < unat (dma_rows d)"
    from rows_fit_row [OF D this] show "dst i + length (f i) \<le> unat SRAM_SIZE"
      by (simp add: len dst_def to_nat)
  next
    fix i j :: nat assume "i < j" "j < unat (dma_rows d)"
    moreover have "0x10000000 \<le> unat (dma_sramAddr d)" using D by (simp add: rows_fit_def)
    ultimately show "apart (dst i) (length (f i)) (dst j) (length (f j))"
      unfolding len dst_def using w by (intro rows_apart)
  next
    fix i :: nat and s :: cmodel assume i: "i < unat (dma_rows d)" and s: "ddr_bytes s = ddr_bytes sim"
    have "read_ddr s (src i) (row_bytes d) = Inr (f i)"
      using f [OF i] mem.b.rd_cong [of "src i" "row_bytes d" s sim] s by simp
    then show "dma_load_row d i s = write_sram s (dst i) (f i)"
      unfolding dma_load_row_def ddr_row [OF S i] sram_row [OF D i] by (simp add: src_def dst_def)
  qed (simp_all add: mem.wr_a_frame)
  then show ?thesis by (auto simp: len f)
qed

lemma read_desc_cong: "ddr_bytes (s :: cmodel) = ddr_bytes (t :: cmodel) \<Longrightarrow> read_desc s dp n dec = read_desc t dp n dec"
  by (simp add: read_desc_def mem.b.rd_cong [of _ _ s t])

lemma dma_load_copied:
  assumes "read_desc sim dp 24 load_DMAParam = Inr d" and "dma_load_fits d"
  shows "\<exists>t. execDmaLoad sim dp = Inr t \<and> ddr_bytes t = ddr_bytes sim
    \<and> (\<forall>i<unat (dma_rows d).
         read_sram t (row_at (dma_sramAddr d) (dma_dstStride d) i - 0x10000000) (row_bytes d)
         = read_ddr sim (row_at (dma_ddrAddr d) (dma_srcStride d) i - 0x40000000) (row_bytes d))
    \<and> (\<forall>a. (\<forall>i<unat (dma_rows d).
              \<not> inside (row_at (dma_sramAddr d) (dma_dstStride d) i - 0x10000000) (row_bytes d) a) \<longrightarrow>
            sram_bytes t a = sram_bytes sim a)"
proof -
  have "dma_sramAddr d mod 16 = 0 \<and> dma_ddrAddr d mod 16 = 0"
    using assms(2) by (simp add: dma_load_fits_def dma_aligned_def)
  then have "execDmaLoad sim dp = fold_result (dma_load_row d) [0..<unat (dma_rows d)] sim"
    by (simp add: execDmaLoad_def assms(1))
  then show ?thesis using dma_load_rows [OF assms(2), of sim] by simp
qed

text \<open>
  C21. DMA_LOAD of a transfer whose rows fit returns a state in which row i of the SRAM block
  holds the bytes of row i of the DDR block (the strides apart), and nothing else is changed.
\<close>

theorem execDmaLoad_copies_rows:
  assumes "read_desc sim dp 24 load_DMAParam = Inr d" and "dma_load_fits d"
  shows "\<exists>t. execDmaLoad sim dp = Inr t \<and> ddr_bytes t = ddr_bytes sim
    \<and> (\<forall>i<unat (dma_rows d).
         read_sram t (row_at (dma_sramAddr d) (dma_dstStride d) i - 0x10000000) (row_bytes d)
         = read_ddr sim (row_at (dma_ddrAddr d) (dma_srcStride d) i - 0x40000000) (row_bytes d))
    \<and> (\<forall>a. (\<forall>i<unat (dma_rows d).
              \<not> inside (row_at (dma_sramAddr d) (dma_dstStride d) i - 0x10000000) (row_bytes d) a) \<longrightarrow>
            sram_bytes t a = sram_bytes sim a)"
  by (rule dma_load_copied [OF assms])

text \<open>A transfer of two rows of two elements.\<close>

definition sample_load_desc :: DMAParam where
  "sample_load_desc = \<lparr>dma_sramAddr = 0x10000000, dma_ddrAddr = 0x40010000, dma_rows = 2, dma_cols = 2,
      dma_srcStride = 8, dma_dstStride = 4\<rparr>"

definition sample_load_sim :: cmodel where
  "sample_load_sim = CModel_init\<lparr>ddr_bytes := poke of_nat 0x100 (bytes_of_DMAParam sample_load_desc)\<rparr>"

theorem execDmaLoad_copies_rows_witness:
  "\<exists>t. execDmaLoad sample_load_sim 0x40000100 = Inr t \<and> read_sram t 4 4 = Inr [8, 9, 10, 11]"
proof -
  have desc: "read_desc sample_load_sim 0x40000100 24 load_DMAParam = Inr sample_load_desc"
    by (rule dma_desc.read_poke [of _ "0x100"]) (simp_all add: ddr_eq_Inr sample_load_sim_def)
  have fits: "dma_load_fits sample_load_desc"
    by (simp add: dma_load_fits_def dma_aligned_def rows_fit_def row_at_def row_bytes_nat sample_load_desc_def)
  have "read_ddr sample_load_sim 0x10008 4 = Inr [8, 9, 10, 11]"
    by (simp add: read_ddr_def copy_from_def to_nat sample_load_sim_def poke_def upt_rec)
  moreover have "1 < unat (dma_rows sample_load_desc)" "row_bytes sample_load_desc = 4"
    "row_at (dma_sramAddr sample_load_desc) (dma_dstStride sample_load_desc) 1 - 0x10000000 = 4"
    "row_at (dma_ddrAddr sample_load_desc) (dma_srcStride sample_load_desc) 1 - 0x40000000 = 0x10008"
    by (simp_all add: sample_load_desc_def row_at_def row_bytes_nat)
  ultimately show ?thesis
    using execDmaLoad_copies_rows [OF desc fits] by metis
qed

section \<open>What a store does\<close>

definition dma_store_fits :: "u32 \<Rightarrow> DMAParam \<Rightarrow> bool" where
  "dma_store_fits dp d \<longleftrightarrow> dma_aligned d
     \<and> rows_fit 0x10000000 0x10080000 (dma_sramAddr d) (dma_srcStride d) (unat (dma_rows d)) (row_bytes d)
     \<and> rows_fit 0x40000000 0xC0000000 (dma_ddrAddr d) (dma_dstStride d) (unat (dma_rows d)) (row_bytes d)
     \<and> row_bytes d \<le> unat (dma_dstStride d)
     \<and> (\<forall>i<unat (dma_rows d). apart (row_at (dma_ddrAddr d) (dma_dstStride d) i) (row_bytes d) (unat dp) 24)"

lemma dma_store_rows_as_fold:
  assumes desc: "\<And>s. J s \<Longrightarrow> read_desc s dp 24 load_DMAParam = Inr d"
    and keep: "\<And>i s t. i < unat (dma_rows d) \<Longrightarrow> J s \<Longrightarrow> dma_store_row d (of_nat i) s = Inr t \<Longrightarrow> J t"
    and "J s" and "k \<le> unat (dma_rows d)"
  shows "dma_store_rows dp (of_nat k) s
    = fold_result (\<lambda>i. dma_store_row d (of_nat i)) [k..<unat (dma_rows d)] s"
  using assms(3,4)
proof (induction "unat (dma_rows d) - k" arbitrary: k s)
  case 0
  have "unat (dma_rows d) < 2 ^ 32" using unsigned_less [of "dma_rows d"] by simp
  with 0 have "unat (of_nat k :: u32) = k" by (intro unat_of_nat_small) simp
  with 0 have "\<not> of_nat k < dma_rows d" by (simp add: word_less_nat_alt)
  with 0 desc [OF 0(2)] show ?case by (subst dma_store_rows.simps) simp
next
  case (Suc n)
  then have k: "k < unat (dma_rows d)" by simp
  have "unat (dma_rows d) < 2 ^ 32" using unsigned_less [of "dma_rows d"] by simp
  with k have "unat (of_nat k :: u32) = k" by (intro unat_of_nat_small) simp
  with k have lt: "of_nat k < dma_rows d" by (simp add: word_less_nat_alt)
  have up: "[k..<unat (dma_rows d)] = k # [Suc k..<unat (dma_rows d)]" using k by (rule upt_conv_Cons)
  have next_i: "of_nat k + 1 = (of_nat (Suc k) :: u32)" by simp
  have "rbind (dma_store_row d (of_nat k) s) (dma_store_rows dp (of_nat (Suc k)))
    = rbind (dma_store_row d (of_nat k) s) (fold_result (\<lambda>i. dma_store_row d (of_nat i)) [Suc k..<unat (dma_rows d)])"
  proof (rule rbind_cong [OF refl])
    fix t assume "dma_store_row d (of_nat k) s = Inr t"
    with keep [OF k Suc(3)] have "J t" .
    then show "dma_store_rows dp (of_nat (Suc k)) t
      = fold_result (\<lambda>i. dma_store_row d (of_nat i)) [Suc k..<unat (dma_rows d)] t"
      using Suc k by (intro Suc(1)) simp_all
  qed
  with desc [OF Suc(3)] lt show ?case
    unfolding up by (subst dma_store_rows.simps) (simp only: rbind_Inr next_i fold_result.simps if_True)
qed

lemma dma_store_keeps_desc:
  assumes "dma_store_fits dp d" and "i < unat (dma_rows d)" and "dma_store_row d (of_nat i) s = Inr t"
  shows "read_desc t dp 24 load_DMAParam = read_desc s dp 24 load_DMAParam"
proof -
  have S: "rows_fit 0x10000000 0x10080000 (dma_sramAddr d) (dma_srcStride d) (unat (dma_rows d)) (row_bytes d)"
    and D: "rows_fit 0x40000000 0xC0000000 (dma_ddrAddr d) (dma_dstStride d) (unat (dma_rows d)) (row_bytes d)"
    and ap: "apart (row_at (dma_ddrAddr d) (dma_dstStride d) i) (row_bytes d) (unat dp) 24"
    using assms(1,2) by (simp_all add: dma_store_fits_def)
  define bs where "bs = map (sram_bytes s) [row_at (dma_sramAddr d) (dma_srcStride d) i - 0x10000000
     ..<row_at (dma_sramAddr d) (dma_srcStride d) i - 0x10000000 + row_bytes d]"
  have w: "write_ddr s (row_at (dma_ddrAddr d) (dma_dstStride d) i - 0x40000000) bs = Inr t"
    using assms(3) unfolding dma_store_row_def ddr_row [OF D assms(2)] sram_row [OF S assms(2)]
    by (simp add: read_in_sram [OF S assms(2)] bs_def)
  show ?thesis
  proof (cases "ddr dp")
    case (Inr p)
    then have "apart (row_at (dma_ddrAddr d) (dma_dstStride d) i - 0x40000000) (length bs) p 24"
      using ap rows_fit_row(1) [OF D assms(2)] by (auto simp: ddr_eq_Inr apart_def bs_def)
    from mem.b.rd_wr_apart [OF w this] Inr show ?thesis by (simp add: read_desc_def)
  qed (simp add: read_desc_def)
qed

lemma dma_store_copied:
  assumes "read_desc sim dp 24 load_DMAParam = Inr d" and "dma_store_fits dp d"
  shows "\<exists>t. execDmaStore sim dp = Inr t \<and> sram_bytes t = sram_bytes sim
    \<and> (\<forall>i<unat (dma_rows d).
         read_ddr t (row_at (dma_ddrAddr d) (dma_dstStride d) i - 0x40000000) (row_bytes d)
         = read_sram sim (row_at (dma_sramAddr d) (dma_srcStride d) i - 0x10000000) (row_bytes d))
    \<and> (\<forall>a. (\<forall>i<unat (dma_rows d).
              \<not> inside (row_at (dma_ddrAddr d) (dma_dstStride d) i - 0x40000000) (row_bytes d) a) \<longrightarrow>
            ddr_bytes t a = ddr_bytes sim a)"
proof -
  define src where "src = (\<lambda>i. row_at (dma_sramAddr d) (dma_srcStride d) i - 0x10000000)"
  define dst where "dst = (\<lambda>i. row_at (dma_ddrAddr d) (dma_dstStride d) i - 0x40000000)"
  have S: "rows_fit 0x10000000 0x10080000 (dma_sramAddr d) (dma_srcStride d) (unat (dma_rows d)) (row_bytes d)"
    and D: "rows_fit 0x40000000 0xC0000000 (dma_ddrAddr d) (dma_dstStride d) (unat (dma_rows d)) (row_bytes d)"
    and w: "row_bytes d \<le> unat (dma_dstStride d)"
    and al: "dma_sramAddr d mod 16 = 0 \<and> dma_ddrAddr d mod 16 = 0"
    using assms(2) by (simp_all add: dma_store_fits_def dma_aligned_def)
  define f where "f = (\<lambda>i. map (sram_bytes sim) [src i..<src i + row_bytes d])"
  have f: "read_sram sim (src i) (row_bytes d) = Inr (f i)" if "i < unat (dma_rows d)" for i
    unfolding f_def src_def by (rule read_in_sram [OF S that])
  have len: "length (f i) = row_bytes d" for i by (simp add: f_def)
  have "\<exists>t. fold_result (\<lambda>i. dma_store_row d (of_nat i)) [0..<unat (dma_rows d)] sim = Inr t
    \<and> sram_bytes t = sram_bytes sim
    \<and> (\<forall>i<unat (dma_rows d). read_ddr t (dst i) (length (f i)) = Inr (f i))
    \<and> (\<forall>a. (\<forall>i<unat (dma_rows d). \<not> inside (dst i) (length (f i)) a) \<longrightarrow> ddr_bytes t a = ddr_bytes sim a)"
  proof (rule mem.b.fold_writes)
    fix i assume "i < unat (dma_rows d)"
    from rows_fit_row [OF D this] show "dst i + length (f i) \<le> unat DDR_SIZE"
      by (simp add: len dst_def to_nat)
  next
    fix i j :: nat assume "i < j" "j < unat (dma_rows d)"
    moreover have "0x40000000 \<le> unat (dma_ddrAddr d)" using D by (simp add: rows_fit_def)
    ultimately show "apart (dst i) (length (f i)) (dst j) (length (f j))"
      unfolding len dst_def using w by (intro rows_apart)
  next
    fix i :: nat and s :: cmodel assume i: "i < unat (dma_rows d)" and s: "sram_bytes s = sram_bytes sim"
    have "read_sram s (src i) (row_bytes d) = Inr (f i)"
      using f [OF i] mem.a.rd_cong [of "src i" "row_bytes d" s sim] s by simp
    then show "dma_store_row d (of_nat i) s = write_ddr s (dst i) (f i)"
      unfolding dma_store_row_def ddr_row [OF D i] sram_row [OF S i] by (simp add: src_def dst_def)
  qed (simp_all add: mem.wr_b_frame)
  moreover have "dma_store_rows dp (of_nat 0) sim
    = fold_result (\<lambda>i. dma_store_row d (of_nat i)) [0..<unat (dma_rows d)] sim"
    by (rule dma_store_rows_as_fold [where J = "\<lambda>s. read_desc s dp 24 load_DMAParam = Inr d"])
      (use assms(1) dma_store_keeps_desc [OF assms(2)] in simp_all)
  ultimately show ?thesis
    by (auto simp: execDmaStore_def assms(1) al len f [unfolded src_def] src_def dst_def)
qed

text \<open>
  C22. DMA_STORE, which reads its descriptor in DDR again in every round of its loop, copies every
  row from SRAM to DDR when no row it writes meets the descriptor, and changes nothing else.
\<close>

theorem execDmaStore_copies_rows:
  assumes "read_desc sim dp 24 load_DMAParam = Inr d" and "dma_store_fits dp d"
  shows "\<exists>t. execDmaStore sim dp = Inr t \<and> sram_bytes t = sram_bytes sim
    \<and> (\<forall>i<unat (dma_rows d).
         read_ddr t (row_at (dma_ddrAddr d) (dma_dstStride d) i - 0x40000000) (row_bytes d)
         = read_sram sim (row_at (dma_sramAddr d) (dma_srcStride d) i - 0x10000000) (row_bytes d))
    \<and> (\<forall>a. (\<forall>i<unat (dma_rows d).
              \<not> inside (row_at (dma_ddrAddr d) (dma_dstStride d) i - 0x40000000) (row_bytes d) a) \<longrightarrow>
            ddr_bytes t a = ddr_bytes sim a)"
  by (rule dma_store_copied [OF assms])

text \<open>A transfer of two rows of two elements.\<close>

definition sample_store_desc :: DMAParam where
  "sample_store_desc = \<lparr>dma_sramAddr = 0x10000000, dma_ddrAddr = 0x40010000, dma_rows = 2, dma_cols = 2,
      dma_srcStride = 4, dma_dstStride = 8\<rparr>"

definition sample_store_sim :: cmodel where
  "sample_store_sim = \<lparr>ddr_bytes = poke (\<lambda>_. 0) 0x100 (bytes_of_DMAParam sample_store_desc), sram_bytes = of_nat\<rparr>"

theorem execDmaStore_copies_rows_witness:
  "\<exists>t. execDmaStore sample_store_sim 0x40000100 = Inr t \<and> read_ddr t 0x10008 4 = Inr [4, 5, 6, 7]"
proof -
  have desc: "read_desc sample_store_sim 0x40000100 24 load_DMAParam = Inr sample_store_desc"
    by (rule dma_desc.read_poke [of _ "0x100"]) (simp_all add: ddr_eq_Inr sample_store_sim_def)
  have fits: "dma_store_fits 0x40000100 sample_store_desc"
    by (simp add: dma_store_fits_def dma_aligned_def rows_fit_def row_at_def row_bytes_nat apart_def sample_store_desc_def)
  have "read_sram sample_store_sim 4 4 = Inr [4, 5, 6, 7]"
    by (simp add: read_sram_def copy_from_def to_nat sample_store_sim_def upt_rec)
  moreover have "1 < unat (dma_rows sample_store_desc)" "row_bytes sample_store_desc = 4"
    "row_at (dma_sramAddr sample_store_desc) (dma_srcStride sample_store_desc) 1 - 0x10000000 = 4"
    "row_at (dma_ddrAddr sample_store_desc) (dma_dstStride sample_store_desc) 1 - 0x40000000 = 0x10008"
    by (simp_all add: sample_store_desc_def row_at_def row_bytes_nat)
  ultimately show ?thesis
    using execDmaStore_copies_rows [OF desc fits] by metis
qed

end
