(* ===== verification/ExecMatmul.thy ===== *)
theory ExecMatmul
  imports CModel
begin

text \<open>
  \<open>execMatmul\<close> of runtime/lib/cmodel_exec.cpp.  The overlap check and the offsets are in 32-bit
  arithmetic; the sums run in \<open>float\<close> in the order of \<open>k\<close>, and each result is rounded to fp16
  once.  \<open>dot\<close> and \<open>matmul_elem\<close> are the specification, over the elements of the operands.
\<close>

section \<open>The operation\<close>

definition no_overlap :: "u32 \<Rightarrow> u32 \<Rightarrow> u32 \<Rightarrow> u32 \<Rightarrow> bool" where
  "no_overlap p pEnd q qEnd = (qEnd \<le> p \<or> pEnd \<le> q)"

definition matmul_step :: "platform \<Rightarrow> cmodel \<Rightarrow> MatmulParam \<Rightarrow> u32 \<Rightarrow> u32 \<Rightarrow> nat \<Rightarrow> u32 \<Rightarrow> u32 result" where
  "matmul_step P sim d m n k acc =
     rbind (bool_value (mm_transA d)) (\<lambda>transA.
     rbind (bool_value (mm_transB d)) (\<lambda>transB.
       let lhsOff = (if transA then of_nat k * mm_M d + m else m * mm_K d + of_nat k);
           rhsOff = (if transB then n * mm_K d + of_nat k else of_nat k * mm_N d + n)
       in rbind (readFP16 sim (elem_addr (mm_lhsAddr d) lhsOff)) (\<lambda>a.
          rbind (readFP16 sim (elem_addr (mm_rhsAddr d) rhsOff)) (\<lambda>b.
            Inr (f32_add P acc (f32_mul P a b))))))"

definition matmul_cell :: "platform \<Rightarrow> MatmulParam \<Rightarrow> nat \<Rightarrow> nat \<Rightarrow> cmodel \<Rightarrow> cmodel result" where
  "matmul_cell P d m n sim =
     rbind (fold_result (matmul_step P sim d (of_nat m) (of_nat n)) [0..<unat (mm_K d)] 0) (\<lambda>acc.
       let dst = elem_addr (mm_dstAddr d) (of_nat m * mm_N d + of_nat n)
       in rbind (if mm_accumulate d \<noteq> 0
                 then rbind (readFP16 sim dst) (\<lambda>c. Inr (f32_add P acc c))
                 else Inr acc) (writeFP16 sim dst))"

definition execMatmul :: "platform \<Rightarrow> cmodel \<Rightarrow> u32 \<Rightarrow> cmodel result" where
  "execMatmul P sim dp =
     rbind (read_desc sim dp 32 load_MatmulParam) (\<lambda>d.
       let dstEnd = elem_addr (mm_dstAddr d) (mm_M d * mm_N d);
           lhsEnd = elem_addr (mm_lhsAddr d) (mm_M d * mm_K d);
           rhsEnd = elem_addr (mm_rhsAddr d) (mm_K d * mm_N d)
       in rbind (eclipse_assert
              (no_overlap (mm_dstAddr d) dstEnd (mm_lhsAddr d) lhsEnd
               \<and> no_overlap (mm_dstAddr d) dstEnd (mm_rhsAddr d) rhsEnd
               \<and> no_overlap (mm_lhsAddr d) lhsEnd (mm_rhsAddr d) rhsEnd)
              ''matmul: dst/lhs/rhs must not overlap'') (\<lambda>_.
          fold_result (\<lambda>m. fold_result (matmul_cell P d m) [0..<unat (mm_N d)]) [0..<unat (mm_M d)] sim))"

section \<open>Specification\<close>

text \<open>Element \<open>(m, k)\<close> of the left operand and \<open>(k, n)\<close> of the right one, transposition undone.\<close>

definition lhs_elem :: "cmodel \<Rightarrow> MatmulParam \<Rightarrow> nat \<Rightarrow> nat \<Rightarrow> u16" where
  "lhs_elem sim d m k = sram_fp16 sim (sram_off (mm_lhsAddr d)
     + 2 * (if mm_transA d = 1 then k * unat (mm_M d) + m else m * unat (mm_K d) + k))"

definition rhs_elem :: "cmodel \<Rightarrow> MatmulParam \<Rightarrow> nat \<Rightarrow> nat \<Rightarrow> u16" where
  "rhs_elem sim d k n = sram_fp16 sim (sram_off (mm_rhsAddr d)
     + 2 * (if mm_transB d = 1 then n * unat (mm_K d) + k else k * unat (mm_N d) + n))"

definition dst_elem :: "cmodel \<Rightarrow> MatmulParam \<Rightarrow> nat \<Rightarrow> nat \<Rightarrow> u16" where
  "dst_elem sim d m n = sram_fp16 sim (sram_off (mm_dstAddr d) + 2 * (m * unat (mm_N d) + n))"

text \<open>The dot product of two fp16 vectors as the chip computes it.\<close>

definition dot :: "platform \<Rightarrow> (nat \<Rightarrow> u16) \<Rightarrow> (nat \<Rightarrow> u16) \<Rightarrow> nat \<Rightarrow> u32" where
  "dot P a b K = fold (\<lambda>k acc. f32_add P acc (f32_mul P (fp16ToFp32 (a k)) (fp16ToFp32 (b k)))) [0..<K] 0"

definition matmul_val :: "platform \<Rightarrow> cmodel \<Rightarrow> MatmulParam \<Rightarrow> nat \<Rightarrow> nat \<Rightarrow> u32" where
  "matmul_val P sim d m n =
     (let acc = dot P (lhs_elem sim d m) (\<lambda>k. rhs_elem sim d k n) (unat (mm_K d))
      in if mm_accumulate d \<noteq> 0 then f32_add P acc (fp16ToFp32 (dst_elem sim d m n)) else acc)"

text \<open>The three matrices lie in SRAM and do not meet; the two flags are proper \<open>bool\<close> objects.\<close>

definition matmul_fits :: "MatmulParam \<Rightarrow> bool" where
  "matmul_fits d \<longleftrightarrow>
     (let M = unat (mm_M d); K = unat (mm_K d); N = unat (mm_N d)
      in block_fits (mm_lhsAddr d) (M * K) \<and> block_fits (mm_rhsAddr d) (K * N) \<and> block_fits (mm_dstAddr d) (M * N)
       \<and> apart (unat (mm_dstAddr d)) (2 * (M * N)) (unat (mm_lhsAddr d)) (2 * (M * K))
       \<and> apart (unat (mm_dstAddr d)) (2 * (M * N)) (unat (mm_rhsAddr d)) (2 * (K * N))
       \<and> apart (unat (mm_lhsAddr d)) (2 * (M * K)) (unat (mm_rhsAddr d)) (2 * (K * N))
       \<and> mm_transA d \<le> 1 \<and> mm_transB d \<le> 1)"

section \<open>Addresses of the cells\<close>

lemma bool_value_ok: "b \<le> 1 \<Longrightarrow> bool_value b = Inr (b = 1)"
proof -
  assume "b \<le> 1"
  then have "unat b \<le> 1" by (simp add: word_le_nat_alt)
  then have "b = 0 \<or> b = 1" by (metis One_nat_def le_Suc_eq le_zero_eq unat_eq_zero word_unat_eq_iff unat_1)
  then show ?thesis by (auto simp: bool_value_def)
qed

lemma block_end:
  assumes "block_fits p n" and "unat i = n mod 2 ^ 32"
  shows "unat (elem_addr p i) = unat p + 2 * n"
proof (cases "n = 0")
  case True
  then show ?thesis using assms(2) unat_u32_less [of p] by (simp add: unat_elem_addr)
next
  case False
  then have "unat p + 2 * n \<le> 0x10080000" using assms(1) by (simp add: block_fits_def)
  then show ?thesis using assms(2) by (simp add: unat_elem_addr)
qed

lemma no_overlap_apart:
  assumes "block_fits p m" and "unat i = m mod 2 ^ 32" and "block_fits q n" and "unat j = n mod 2 ^ 32"
  shows "no_overlap p (elem_addr p i) q (elem_addr q j) = apart (unat p) (2 * m) (unat q) (2 * n)"
  by (auto simp: no_overlap_def apart_def word_le_nat_alt block_end [OF assms(1,2)] block_end [OF assms(3,4)])

lemma matmul_step_ok:
  assumes "matmul_fits d" and "m < unat (mm_M d)" and "n < unat (mm_N d)" and "k < unat (mm_K d)"
  shows "matmul_step P sim d (of_nat m) (of_nat n) k acc
    = Inr (f32_add P acc (f32_mul P (fp16ToFp32 (lhs_elem sim d m k)) (fp16ToFp32 (rhs_elem sim d k n))))"
proof -
  from assms(1) have L: "block_fits (mm_lhsAddr d) (unat (mm_M d) * unat (mm_K d))"
    and R: "block_fits (mm_rhsAddr d) (unat (mm_K d) * unat (mm_N d))"
    and b: "mm_transA d \<le> 1" "mm_transB d \<le> 1" by (simp_all add: matmul_fits_def Let_def)
  have l: "(if mm_transA d = 1 then k * unat (mm_M d) + m else m * unat (mm_K d) + k) < unat (mm_M d) * unat (mm_K d)"
    using index_less [OF assms(4,2)] index_less [OF assms(2,4)] by (simp add: mult.commute)
  have r: "(if mm_transB d = 1 then n * unat (mm_K d) + k else k * unat (mm_N d) + n) < unat (mm_K d) * unat (mm_N d)"
    using index_less [OF assms(4,3)] index_less [OF assms(3,4)] by (simp add: mult.commute)
  show ?thesis
    unfolding matmul_step_def bool_value_ok [OF b(1)] bool_value_ok [OF b(2)] rbind_Inr Let_def
      index_of_nat if_distrib [where f = of_nat, symmetric] readFP16_elem [OF L l] readFP16_elem [OF R r]
      lhs_elem_def rhs_elem_def ..
qed

lemma dot_cong:
  "(\<And>k. k < K \<Longrightarrow> a k = a' k \<and> b k = b' k) \<Longrightarrow> dot P a b K = dot P a' b' K"
  unfolding dot_def by (intro fold_cong) auto

lemma matmul_cell_ok:
  assumes fits: "matmul_fits d" and m: "m < unat (mm_M d)" and n: "n < unat (mm_N d)"
    and old: "\<And>a. \<not> inside (sram_off (mm_dstAddr d)) (2 * (m * unat (mm_N d) + n)) a \<Longrightarrow> sram_bytes s a = sram_bytes sim a"
  shows "matmul_cell P d m n s
    = writeFP16 s (elem_addr (mm_dstAddr d) (of_nat (m * unat (mm_N d) + n))) (matmul_val P sim d m n)"
proof -
  from fits have L: "block_fits (mm_lhsAddr d) (unat (mm_M d) * unat (mm_K d))"
    and R: "block_fits (mm_rhsAddr d) (unat (mm_K d) * unat (mm_N d))"
    and D: "block_fits (mm_dstAddr d) (unat (mm_M d) * unat (mm_N d))"
    and DL: "apart (unat (mm_dstAddr d)) (2 * (unat (mm_M d) * unat (mm_N d))) (unat (mm_lhsAddr d)) (2 * (unat (mm_M d) * unat (mm_K d)))"
    and DR: "apart (unat (mm_dstAddr d)) (2 * (unat (mm_M d) * unat (mm_N d))) (unat (mm_rhsAddr d)) (2 * (unat (mm_K d) * unat (mm_N d)))"
    by (simp_all add: matmul_fits_def Let_def)
  have i: "m * unat (mm_N d) + n < unat (mm_M d) * unat (mm_N d)" by (rule index_less [OF m n])
  have same: "lhs_elem s d m k = lhs_elem sim d m k \<and> rhs_elem s d k n = rhs_elem sim d k n" if k: "k < unat (mm_K d)" for k
  proof
    show "lhs_elem s d m k = lhs_elem sim d m k"
      unfolding lhs_elem_def using index_less [OF k m] index_less [OF m k]
      by - (rule elem_kept [OF _ DL less_imp_le [OF i] D L], erule old, simp add: mult.commute)
    show "rhs_elem s d k n = rhs_elem sim d k n"
      unfolding rhs_elem_def using index_less [OF k n] index_less [OF n k]
      by - (rule elem_kept [OF _ DR less_imp_le [OF i] D R], erule old, simp add: mult.commute)
  qed
  have dst: "dst_elem s d m n = dst_elem sim d m n"
    unfolding dst_elem_def by (intro sram_fp16_cong old) (auto simp: inside_def)
  have acc: "fold_result (matmul_step P s d (of_nat m) (of_nat n)) [0..<unat (mm_K d)] 0
    = Inr (dot P (lhs_elem sim d m) (\<lambda>k. rhs_elem sim d k n) (unat (mm_K d)))"
    unfolding dot_def
    by (rule fold_result_pure) (simp add: matmul_step_ok [OF fits m n] same)
  show ?thesis
    unfolding matmul_cell_def acc rbind_Inr Let_def index_of_nat readFP16_elem [OF D i] dst_elem_def [symmetric] dst matmul_val_def
    by (cases "mm_accumulate d = 0") simp_all
qed

section \<open>The product\<close>

lemma fill_matmul:
  assumes "read_desc sim dp 32 load_MatmulParam = Inr d" and "matmul_fits d"
  shows "\<exists>t. execMatmul P sim dp = Inr t \<and> ddr_bytes t = ddr_bytes sim
    \<and> (\<forall>m<unat (mm_M d). \<forall>n<unat (mm_N d). dst_elem t d m n = fp32ToFp16 (matmul_val P sim d m n))
    \<and> (\<forall>a. \<not> inside (sram_off (mm_dstAddr d)) (2 * (unat (mm_M d) * unat (mm_N d))) a \<longrightarrow>
            sram_bytes t a = sram_bytes sim a)"
proof -
  define M K N where "M = unat (mm_M d)" and "K = unat (mm_K d)" and "N = unat (mm_N d)"
  from assms(2) have L: "block_fits (mm_lhsAddr d) (M * K)" and R: "block_fits (mm_rhsAddr d) (K * N)"
    and D: "block_fits (mm_dstAddr d) (M * N)"
    and DL: "apart (unat (mm_dstAddr d)) (2 * (M * N)) (unat (mm_lhsAddr d)) (2 * (M * K))"
    and DR: "apart (unat (mm_dstAddr d)) (2 * (M * N)) (unat (mm_rhsAddr d)) (2 * (K * N))"
    and LR: "apart (unat (mm_lhsAddr d)) (2 * (M * K)) (unat (mm_rhsAddr d)) (2 * (K * N))"
    by (simp_all add: matmul_fits_def Let_def M_def K_def N_def)
  note sizes = unat_mult_mod [of "mm_M d" "mm_N d", folded M_def N_def] unat_mult_mod [of "mm_M d" "mm_K d", folded M_def K_def]
    unat_mult_mod [of "mm_K d" "mm_N d", folded K_def N_def]
  have "execMatmul P sim dp = fold_result (\<lambda>m. fold_result (matmul_cell P d m) [0..<N]) [0..<M] sim"
    unfolding execMatmul_def assms(1) rbind_Inr Let_def no_overlap_apart [OF D sizes(1) L sizes(2)]
      no_overlap_apart [OF D sizes(1) R sizes(3)] no_overlap_apart [OF L sizes(2) R sizes(3)]
    using DL DR LR by (simp add: M_def N_def)
  also have "\<dots> = fold_result (\<lambda>i. matmul_cell P d (i div N) (i mod N)) [0..<M * N] sim"
    by (rule fold_result_nested)
  finally have exec: "execMatmul P sim dp = fold_result (\<lambda>i. matmul_cell P d (i div N) (i mod N)) [0..<M * N] sim" .
  have "\<exists>t. fold_result (\<lambda>i. matmul_cell P d (i div N) (i mod N)) [0..<M * N] sim = Inr t
    \<and> ddr_bytes t = ddr_bytes sim
    \<and> (\<forall>i<M * N. sram_fp16 t (sram_off (mm_dstAddr d) + 2 * i) = fp32ToFp16 (matmul_val P sim d (i div N) (i mod N)))
    \<and> (\<forall>a. \<not> inside (sram_off (mm_dstAddr d)) (2 * (M * N)) a \<longrightarrow> sram_bytes t a = sram_bytes sim a)"
  proof (rule fill_fp16 [OF D])
    fix i and s :: cmodel
    assume i: "i < M * N"
      and old: "\<And>a. \<not> inside (sram_off (mm_dstAddr d)) (2 * i) a \<Longrightarrow> sram_bytes s a = sram_bytes sim a"
    from i have N: "0 < N" by (cases N) simp_all
    with i have mn: "i div N < M" "i mod N < N" by (simp_all add: div_less_iff_less_mult)
    have "i div N * N + i mod N = i" by simp
    with matmul_cell_ok [OF assms(2), of "i div N" "i mod N" s sim P] mn old
    show "matmul_cell P d (i div N) (i mod N) s
      = writeFP16 s (elem_addr (mm_dstAddr d) (of_nat i)) (matmul_val P sim d (i div N) (i mod N))"
      by (simp add: M_def N_def)
  qed
  moreover have "dst_elem t d m n = fp32ToFp16 (matmul_val P sim d m n)"
    if "\<forall>i<M * N. sram_fp16 t (sram_off (mm_dstAddr d) + 2 * i) = fp32ToFp16 (matmul_val P sim d (i div N) (i mod N))"
      and "m < M" and "n < N" for t m n
    using that(1) [rule_format, OF index_less [OF that(2,3)]] that(3) by (simp add: dst_elem_def N_def)
  ultimately show ?thesis unfolding exec M_def N_def by blast
qed

section \<open>Integer matrices\<close>

lemma dot_Suc: "dot P a b (Suc K) = f32_add P (dot P a b K) (f32_mul P (fp16ToFp32 (a K)) (fp16ToFp32 (b K)))"
  by (simp add: dot_def)

lemma sum_abs_bound: "\<bar>\<Sum>k<K. f k\<bar> \<le> (\<Sum>k<K. \<bar>f k :: int\<bar>)"
  by (rule sum_abs)

text \<open>
  With integer operands the sums are exact as long as the absolute values add up to less than
  \<open>2 ^ 24\<close>: then the order of the additions and a fused multiply-add make no difference.
\<close>

lemma dot_int:
  assumes "\<And>k. k < K \<Longrightarrow> finite16 (a k) \<and> val16 (a k) = real_of_int (x k)"
    and "\<And>k. k < K \<Longrightarrow> finite16 (b k) \<and> val16 (b k) = real_of_int (y k)"
    and "(\<Sum>k<K. \<bar>x k * y k\<bar>) < 2 ^ 24"
  shows "fixed32 149 (dot P a b K) (\<Sum>k<K. x k * y k)"
  using assms
proof (induction K)
  case 0
  then show ?case by (simp add: dot_def fixed32_def finite32_def rest32_def units32_def signed_def)
next
  case (Suc K)
  have bound: "(\<Sum>k<K. \<bar>x k * y k\<bar>) + \<bar>x K * y K\<bar> < 2 ^ 24" using Suc.prems(3) by simp
  moreover have "0 \<le> (\<Sum>k<K. \<bar>x k * y k\<bar>)" by (simp add: sum_nonneg)
  ultimately have small: "\<bar>x K * y K\<bar> < 2 ^ 24" and prev: "(\<Sum>k<K. \<bar>x k * y k\<bar>) < 2 ^ 24" by linarith+
  have ih: "fixed32 149 (dot P a b K) (\<Sum>k<K. x k * y k)"
    using Suc.prems(1,2) prev by (intro Suc.IH) auto
  have "fixed32 149 (fp16ToFp32 (a K)) (x K)" and "fixed32 149 (fp16ToFp32 (b K)) (y K)"
    using Suc.prems(1,2) by (auto intro: widen_int)
  then have prod: "fixed32 149 (f32_mul P (fp16ToFp32 (a K)) (fp16ToFp32 (b K))) (x K * y K)"
    using small by (rule fixed32_mul) simp_all
  have "\<bar>(\<Sum>k<K. x k * y k) + x K * y K\<bar> < 2 ^ 24"
    using bound sum_abs_bound [of "\<lambda>k. x k * y k" K] by linarith
  from fixed32_add [OF ih prod this] show ?case by (simp add: dot_Suc)
qed

text \<open>
  When the operands hold integers and the sums stay within the exact range of the formats, MATMUL
  returns the exact integer matrix product: neither the products, nor the fp32 accumulation, nor
  the final rounding lose anything.
\<close>

theorem execMatmul_exact_on_integers:
  assumes "read_desc sim dp 32 load_MatmulParam = Inr d" and "matmul_fits d" and "mm_accumulate d = 0"
    and "\<forall>m<unat (mm_M d). \<forall>k<unat (mm_K d). finite16 (lhs_elem sim d m k) \<and> val16 (lhs_elem sim d m k) = of_int (A m k)"
    and "\<forall>k<unat (mm_K d). \<forall>n<unat (mm_N d). finite16 (rhs_elem sim d k n) \<and> val16 (rhs_elem sim d k n) = of_int (B k n)"
    and "\<forall>m<unat (mm_M d). \<forall>n<unat (mm_N d). (\<Sum>k<unat (mm_K d). \<bar>A m k * B k n\<bar>) < 2048"
  shows "\<exists>t. execMatmul P sim dp = Inr t \<and> (\<forall>m<unat (mm_M d). \<forall>n<unat (mm_N d).
    finite16 (dst_elem t d m n) \<and> val16 (dst_elem t d m n) = of_int (\<Sum>k<unat (mm_K d). A m k * B k n))"
proof -
  have "finite16 (fp32ToFp16 (matmul_val P sim d m n))
      \<and> val16 (fp32ToFp16 (matmul_val P sim d m n)) = of_int (\<Sum>k<unat (mm_K d). A m k * B k n)"
    if "m < unat (mm_M d)" and "n < unat (mm_N d)" for m n
  proof -
    have b: "(\<Sum>k<unat (mm_K d). \<bar>A m k * B k n\<bar>) < 2048" using assms(6) that by blast
    have "fixed32 149 (dot P (lhs_elem sim d m) (\<lambda>k. rhs_elem sim d k n) (unat (mm_K d))) (\<Sum>k<unat (mm_K d). A m k * B k n)"
      by (rule dot_int) (use assms(4,5) that b in auto)
    then have "fixed32 149 (matmul_val P sim d m n) (\<Sum>k<unat (mm_K d). A m k * B k n)"
      by (simp add: matmul_val_def assms(3))
    moreover have "\<bar>\<Sum>k<unat (mm_K d). A m k * B k n\<bar> < 2048"
      using b sum_abs_bound [of "\<lambda>k. A m k * B k n" "unat (mm_K d)"] by linarith
    ultimately show ?thesis using narrow_int by blast
  qed
  moreover obtain t where "execMatmul P sim dp = Inr t"
    "\<forall>m<unat (mm_M d). \<forall>n<unat (mm_N d). dst_elem t d m n = fp32ToFp16 (matmul_val P sim d m n)"
    using fill_matmul [OF assms(1,2), of P] by blast
  ultimately show ?thesis by auto
qed

text \<open>
  C9. MATMUL with operands that fit in SRAM and do not overlap returns a state in which every cell
  of the result is the fp16 rounding of the fp32 sum of products taken in the order of k, for
  every choice of transA, transB and accumulate, and every other byte of SRAM and all of DDR are
  as before.
\<close>

theorem execMatmul_computes_product:
  assumes "read_desc sim dp 32 load_MatmulParam = Inr d" and "matmul_fits d"
  shows "\<exists>t. execMatmul P sim dp = Inr t \<and> ddr_bytes t = ddr_bytes sim
    \<and> (\<forall>m<unat (mm_M d). \<forall>n<unat (mm_N d). dst_elem t d m n = fp32ToFp16 (matmul_val P sim d m n))
    \<and> (\<forall>a. \<not> inside (sram_off (mm_dstAddr d)) (2 * (unat (mm_M d) * unat (mm_N d))) a \<longrightarrow>
            sram_bytes t a = sram_bytes sim a)"
  by (rule fill_matmul [OF assms])

text \<open>The product of the row \<open>[1, 2]\<close> and the column \<open>[3, 4]\<close> is 11.\<close>

definition sample_matmul :: MatmulParam where
  "sample_matmul = \<lparr>mm_dstAddr = 0x10000010, mm_rhsAddr = 0x10000008, mm_lhsAddr = 0x10000000,
     mm_M = 1, mm_K = 2, mm_N = 1, mm_accumulate = 0, mm_transA = 0, mm_transB = 0\<rparr>"

definition sample_matmul_sim :: cmodel where
  "sample_matmul_sim = \<lparr>ddr_bytes = poke (\<lambda>_. 0) 0x100 (bytes_of_MatmulParam sample_matmul),
     sram_bytes = poke (\<lambda>_. 0) 0 (concat (map bytes_of_u16 [0x3C00, 0x4000, 0, 0, 0x4200, 0x4400]))\<rparr>"

lemma sample_matmul_facts:
  shows "read_desc sample_matmul_sim 0x40000100 32 load_MatmulParam = Inr sample_matmul"
    and "matmul_fits sample_matmul"
    and "lhs_elem sample_matmul_sim sample_matmul 0 0 = 0x3C00"
    and "lhs_elem sample_matmul_sim sample_matmul 0 1 = 0x4000"
    and "rhs_elem sample_matmul_sim sample_matmul 0 0 = 0x4200"
    and "rhs_elem sample_matmul_sim sample_matmul 1 0 = 0x4400"
proof -
  show "read_desc sample_matmul_sim 0x40000100 32 load_MatmulParam = Inr sample_matmul"
    by (rule matmul_desc.read_poke [of _ "0x100"]) (simp_all add: ddr_eq_Inr sample_matmul_sim_def)
  show "matmul_fits sample_matmul"
    by (simp add: matmul_fits_def sample_matmul_def block_fits_def apart_def word_le_nat_alt)
qed (simp_all add: lhs_elem_def rhs_elem_def sample_matmul_def sample_matmul_sim_def sram_fp16_def sram_off_def
      poke_def bytes_of_u16_def u16_of_bytes_def)

theorem execMatmul_computes_product_witness:
  "\<exists>t. execMatmul sample_platform sample_matmul_sim 0x40000100 = Inr t \<and> dst_elem t sample_matmul 0 0 = 0x4980"
proof -
  have "dot sample_platform (lhs_elem sample_matmul_sim sample_matmul 0) (\<lambda>k. rhs_elem sample_matmul_sim sample_matmul k 0) 2 = 0x41300000"
  proof -
    have w: "fp16ToFp32 0x3C00 = 0x3F800000" "fp16ToFp32 0x4000 = 0x40000000"
      "fp16ToFp32 0x4200 = 0x40400000" "fp16ToFp32 0x4400 = 0x40800000"
      by (simp_all add: fp16ToFp32_def Let_def)
    have p: "f32_mul sample_platform 0x3F800000 0x40400000 = 0x40400000"
      "f32_mul sample_platform 0x40000000 0x40800000 = 0x41000000"
      by (simp_all add: f32_mul_def float_eval)
    have a: "f32_add sample_platform 0 0x40400000 = 0x40400000"
      "f32_add sample_platform 0x40400000 0x41000000 = 0x41300000"
      by (simp_all add: f32_add_def float_eval)
    have "[0..<2] = [0, 1 :: nat]" by (simp add: upt_rec)
    then show ?thesis
      unfolding dot_def by (simp only: fold.simps comp_apply id_apply sample_matmul_facts w p a)
  qed
  then have "fp32ToFp16 (matmul_val sample_platform sample_matmul_sim sample_matmul 0 0) = 0x4980"
    by (simp add: matmul_val_def sample_matmul_def fp32ToFp16_def)
  moreover have "0 < unat (mm_M sample_matmul)" "0 < unat (mm_N sample_matmul)" by (simp_all add: sample_matmul_def)
  ultimately show ?thesis
    using execMatmul_computes_product [OF sample_matmul_facts(1,2), of sample_platform] by metis
qed

theorem execMatmul_exact_on_integers_witness:
  "\<exists>t. execMatmul sample_platform sample_matmul_sim 0x40000100 = Inr t \<and> val16 (dst_elem t sample_matmul 0 0) = 11"
proof -
  have v: "finite16 0x3C00 \<and> val16 0x3C00 = 1" "finite16 0x4000 \<and> val16 0x4000 = 2"
    "finite16 0x4200 \<and> val16 0x4200 = 3" "finite16 0x4400 \<and> val16 0x4400 = 4"
    by (simp_all add: finite16_def val16_def sgn16_def rest16_def mag_def)
  have dims: "unat (mm_M sample_matmul) = 1" "unat (mm_K sample_matmul) = 2" "unat (mm_N sample_matmul) = 1"
    "mm_accumulate sample_matmul = 0" by (simp_all add: sample_matmul_def)
  have two: "(\<Sum>k<2. f k) = f 0 + f (1 :: nat)" for f :: "nat \<Rightarrow> int"
    by (simp add: numeral_2_eq_2)
  have "\<exists>t. execMatmul sample_platform sample_matmul_sim 0x40000100 = Inr t
    \<and> (\<forall>m<1. \<forall>n<1. finite16 (dst_elem t sample_matmul m n)
      \<and> val16 (dst_elem t sample_matmul m n) = of_int (\<Sum>k<2. (int k + 1) * (int k + 3)))"
    by (rule execMatmul_exact_on_integers [OF sample_matmul_facts(1,2), unfolded dims,
          where A = "\<lambda>m k. int k + 1" and B = "\<lambda>k n. int k + 3"])
      (auto simp: v sample_matmul_facts sample_matmul_facts [simplified] less_2_cases_iff two)
  then show ?thesis by (auto simp: two)
qed

end
