(* ===== verification/ExecEwise.thy ===== *)
theory ExecEwise
  imports CModel
begin

text \<open>
  \<open>execElementwise\<close> of runtime/lib/cmodel_exec.cpp: the four arithmetic instructions over a matrix
  \<open>lhs\<close> and a broadcast \<open>rhs\<close>, whose element for flat index \<open>i\<close> is
  \<open>(i / cols) * rhsStride + i % rhsBlk\<close>.  A division checks its divisor first.
\<close>

section \<open>The operation\<close>

definition ewise_write :: "platform \<Rightarrow> OpCode \<Rightarrow> cmodel \<Rightarrow> u32 \<Rightarrow> u32 \<Rightarrow> u32 \<Rightarrow> cmodel result" where
  "ewise_write P op sim dst lhs rhs = (case op of
       ELEMENTWISE_ADD \<Rightarrow> writeFP16 sim dst (f32_add P lhs rhs)
     | ELEMENTWISE_SUB \<Rightarrow> writeFP16 sim dst (f32_sub P lhs rhs)
     | ELEMENTWISE_MUL \<Rightarrow> writeFP16 sim dst (f32_mul P lhs rhs)
     | ELEMENTWISE_DIV \<Rightarrow>
         rbind (eclipse_assert (\<not> f32_eq rhs 0) ''The divisor cannot be zero.'') (\<lambda>_.
           writeFP16 sim dst (f32_div P lhs rhs))
     | _ \<Rightarrow> Inr sim)"

definition ewise_step :: "platform \<Rightarrow> OpCode \<Rightarrow> EwiseParam \<Rightarrow> nat \<Rightarrow> cmodel \<Rightarrow> cmodel result" where
  "ewise_step P op d i sim =
     rbind (readFP16 sim (elem_addr (ew_lhsAddr d) (of_nat i))) (\<lambda>lhs.
       let s = (of_nat i div ew_cols d) * ew_rhsStride d + of_nat i mod ew_rhsBlk d
       in rbind (readFP16 sim (elem_addr (ew_rhsAddr d) s)) (\<lambda>rhs.
          ewise_write P op sim (elem_addr (ew_dstAddr d) (of_nat i)) lhs rhs))"

definition execElementwise :: "platform \<Rightarrow> cmodel \<Rightarrow> u32 \<Rightarrow> OpCode \<Rightarrow> cmodel result" where
  "execElementwise P sim dp op =
     rbind (read_desc sim dp 28 load_EwiseParam) (\<lambda>d.
     rbind (eclipse_assert (ew_cols d \<noteq> 0 \<and> ew_rhsBlk d \<noteq> 0) ''ewize: cols/rhsBlk must be non-zero'') (\<lambda>_.
     rbind (eclipse_assert (ew_cols d mod ew_rhsBlk d = 0) ''ewize: cols must be divisible by rhsBlk'') (\<lambda>_.
       let n = ew_rows d * ew_cols d
       in fold_result (ewise_step P op d) [0..<unat n] sim)))"

section \<open>Specification\<close>

definition ewise_fun :: "platform \<Rightarrow> OpCode \<Rightarrow> u32 \<Rightarrow> u32 \<Rightarrow> u32" where
  "ewise_fun P op a b = (case op of
       ELEMENTWISE_ADD \<Rightarrow> f32_add P a b
     | ELEMENTWISE_SUB \<Rightarrow> f32_sub P a b
     | ELEMENTWISE_MUL \<Rightarrow> f32_mul P a b
     | _ \<Rightarrow> f32_div P a b)"

definition ewise_opcodes :: "OpCode set" where
  "ewise_opcodes = {ELEMENTWISE_ADD, ELEMENTWISE_SUB, ELEMENTWISE_MUL, ELEMENTWISE_DIV}"

text \<open>
  Element \<open>(r, c)\<close> of the left operand, and of the right one under its broadcast: a row of the
  right operand is \<open>rhsBlk\<close> elements long, repeats along the row, and the next row starts
  \<open>rhsStride\<close> elements later.
\<close>

definition ewise_lhs :: "cmodel \<Rightarrow> EwiseParam \<Rightarrow> nat \<Rightarrow> nat \<Rightarrow> u16" where
  "ewise_lhs sim d r c = sram_fp16 sim (sram_off (ew_lhsAddr d) + 2 * (r * unat (ew_cols d) + c))"

definition ewise_rhs :: "cmodel \<Rightarrow> EwiseParam \<Rightarrow> nat \<Rightarrow> nat \<Rightarrow> u16" where
  "ewise_rhs sim d r c =
     sram_fp16 sim (sram_off (ew_rhsAddr d) + 2 * (r * unat (ew_rhsStride d) + c mod unat (ew_rhsBlk d)))"

definition ewise_dst :: "cmodel \<Rightarrow> EwiseParam \<Rightarrow> nat \<Rightarrow> nat \<Rightarrow> u16" where
  "ewise_dst sim d r c = sram_fp16 sim (sram_off (ew_dstAddr d) + 2 * (r * unat (ew_cols d) + c))"

definition ewise_shape :: "EwiseParam \<Rightarrow> bool" where
  "ewise_shape d \<longleftrightarrow> ew_cols d \<noteq> 0 \<and> ew_rhsBlk d \<noteq> 0 \<and> ew_cols d mod ew_rhsBlk d = 0"

text \<open>The number of elements of the right operand: from its first row to the end of its last.\<close>

definition ewise_rhs_size :: "EwiseParam \<Rightarrow> nat" where
  "ewise_rhs_size d = (unat (ew_rows d) - 1) * unat (ew_rhsStride d) + unat (ew_rhsBlk d)"

text \<open>The result may replace the left operand in place; otherwise the arrays do not meet.\<close>

definition ewise_fits :: "EwiseParam \<Rightarrow> bool" where
  "ewise_fits d \<longleftrightarrow>
     (let n = unat (ew_rows d) * unat (ew_cols d)
      in ewise_shape d \<and> block_fits (ew_lhsAddr d) n \<and> block_fits (ew_dstAddr d) n
       \<and> block_fits (ew_rhsAddr d) (ewise_rhs_size d)
       \<and> (ew_dstAddr d = ew_lhsAddr d \<or> apart (unat (ew_dstAddr d)) (2 * n) (unat (ew_lhsAddr d)) (2 * n))
       \<and> apart (unat (ew_dstAddr d)) (2 * n) (unat (ew_rhsAddr d)) (2 * ewise_rhs_size d))"

section \<open>The step on one element\<close>

lemma ewise_index_less:
  assumes "ewise_fits d" and "i < unat (ew_rows d) * unat (ew_cols d)"
  shows "i < 2 ^ 32" and "i div unat (ew_cols d) < unat (ew_rows d)"
    and "i div unat (ew_cols d) * unat (ew_rhsStride d) + i mod unat (ew_rhsBlk d) < ewise_rhs_size d"
    and "i mod unat (ew_rhsBlk d) = i mod unat (ew_cols d) mod unat (ew_rhsBlk d)"
    and "i div unat (ew_cols d) * unat (ew_cols d) + i mod unat (ew_cols d) = i"
proof -
  from assms(1) have L: "block_fits (ew_lhsAddr d) (unat (ew_rows d) * unat (ew_cols d))"
    and sh: "ew_rhsBlk d \<noteq> 0" "ew_cols d \<noteq> 0" "ew_cols d mod ew_rhsBlk d = 0"
    by (simp_all add: ewise_fits_def ewise_shape_def Let_def)
  from elem_in_block [OF L assms(2)] show "i < 2 ^ 32" by simp
  show r: "i div unat (ew_cols d) < unat (ew_rows d)"
    using assms(2) sh(2) by (simp add: div_less_iff_less_mult unat_gt_0)
  have "i div unat (ew_cols d) * unat (ew_rhsStride d) \<le> (unat (ew_rows d) - 1) * unat (ew_rhsStride d)"
    using r by (intro mult_le_mono) simp_all
  moreover have "i mod unat (ew_rhsBlk d) < unat (ew_rhsBlk d)" using sh(1) by (simp add: unat_gt_0)
  ultimately show "i div unat (ew_cols d) * unat (ew_rhsStride d) + i mod unat (ew_rhsBlk d) < ewise_rhs_size d"
    unfolding ewise_rhs_size_def by linarith
  have "unat (ew_cols d) mod unat (ew_rhsBlk d) = 0" using sh(3) by (metis unat_0 unat_mod)
  then have "unat (ew_rhsBlk d) dvd unat (ew_cols d)" by (rule mod_0_imp_dvd)
  then show "i mod unat (ew_rhsBlk d) = i mod unat (ew_cols d) mod unat (ew_rhsBlk d)"
    by (simp add: mod_mod_cancel)
  show "i div unat (ew_cols d) * unat (ew_cols d) + i mod unat (ew_cols d) = i" by simp
qed

lemma ewise_step_ok:
  assumes fits: "ewise_fits d" and i: "i < unat (ew_rows d) * unat (ew_cols d)"
    and old: "\<And>a. \<not> inside (sram_off (ew_dstAddr d)) (2 * i) a \<Longrightarrow> sram_bytes s a = sram_bytes sim a"
  shows "ewise_step P op d i s = ewise_write P op s (elem_addr (ew_dstAddr d) (of_nat i))
    (fp16ToFp32 (ewise_lhs sim d (i div unat (ew_cols d)) (i mod unat (ew_cols d))))
    (fp16ToFp32 (ewise_rhs sim d (i div unat (ew_cols d)) (i mod unat (ew_cols d))))"
proof -
  define n where "n = unat (ew_rows d) * unat (ew_cols d)"
  from fits have L: "block_fits (ew_lhsAddr d) n" and D: "block_fits (ew_dstAddr d) n"
    and R: "block_fits (ew_rhsAddr d) (ewise_rhs_size d)"
    and DL: "ew_dstAddr d = ew_lhsAddr d \<or> apart (unat (ew_dstAddr d)) (2 * n) (unat (ew_lhsAddr d)) (2 * n)"
    and DR: "apart (unat (ew_dstAddr d)) (2 * n) (unat (ew_rhsAddr d)) (2 * ewise_rhs_size d)"
    by (simp_all add: ewise_fits_def n_def Let_def)
  note ix = ewise_index_less [OF fits i]
  have i': "i < n" using i by (simp add: n_def)
  have l: "sram_fp16 s (sram_off (ew_lhsAddr d) + 2 * i) = sram_fp16 sim (sram_off (ew_lhsAddr d) + 2 * i)"
    using DL
  proof
    assume "ew_dstAddr d = ew_lhsAddr d"
    then show ?thesis by (intro sram_fp16_cong old) (simp_all add: inside_def)
  next
    assume "apart (unat (ew_dstAddr d)) (2 * n) (unat (ew_lhsAddr d)) (2 * n)"
    then show ?thesis by (intro elem_kept [OF _ _ less_imp_le [OF i'] D L i'] old)
  qed
  have r: "sram_fp16 s (sram_off (ew_rhsAddr d) + 2 * (i div unat (ew_cols d) * unat (ew_rhsStride d) + i mod unat (ew_rhsBlk d)))
    = sram_fp16 sim (sram_off (ew_rhsAddr d) + 2 * (i div unat (ew_cols d) * unat (ew_rhsStride d) + i mod unat (ew_rhsBlk d)))"
    by (intro elem_kept [OF _ DR less_imp_le [OF i'] D R ix(3)] old)
  show ?thesis
    unfolding ewise_step_def readFP16_elem [OF L i'] rbind_Inr Let_def div_of_nat_u32 [OF ix(1)] mod_of_nat_u32 [OF ix(1)]
      index_of_nat readFP16_elem [OF R ix(3)] l r ewise_lhs_def ewise_rhs_def ix(5) ix(4) [symmetric] ..
qed

section \<open>The result\<close>

text \<open>
  The loop up to iteration \<open>k\<close>, when no divisor before it is zero, has filled the first \<open>k\<close>
  elements.
\<close>

definition ewise_val :: "platform \<Rightarrow> OpCode \<Rightarrow> cmodel \<Rightarrow> EwiseParam \<Rightarrow> nat \<Rightarrow> nat \<Rightarrow> u32" where
  "ewise_val P op sim d r c = ewise_fun P op (fp16ToFp32 (ewise_lhs sim d r c)) (fp16ToFp32 (ewise_rhs sim d r c))"

definition ewise_divides :: "OpCode \<Rightarrow> cmodel \<Rightarrow> EwiseParam \<Rightarrow> nat \<Rightarrow> nat \<Rightarrow> bool" where
  "ewise_divides op sim d r c = (op = ELEMENTWISE_DIV \<longrightarrow> rest16 (ewise_rhs sim d r c) \<noteq> 0)"

lemma ewise_write_ok:
  assumes "op \<in> ewise_opcodes" and "op = ELEMENTWISE_DIV \<longrightarrow> \<not> f32_eq b 0"
  shows "ewise_write P op s addr a b = writeFP16 s addr (ewise_fun P op a b)"
  using assms by (auto simp: ewise_write_def ewise_fun_def ewise_opcodes_def)

lemma ewise_prefix:
  assumes fits: "ewise_fits d" and op: "op \<in> ewise_opcodes" and k: "k \<le> unat (ew_rows d) * unat (ew_cols d)"
    and div: "\<And>i. i < k \<Longrightarrow> ewise_divides op sim d (i div unat (ew_cols d)) (i mod unat (ew_cols d))"
  shows "\<exists>t. fold_result (ewise_step P op d) [0..<k] sim = Inr t \<and> ddr_bytes t = ddr_bytes sim
    \<and> (\<forall>i<k. sram_fp16 t (sram_off (ew_dstAddr d) + 2 * i) = fp32ToFp16 (ewise_val P op sim d (i div unat (ew_cols d)) (i mod unat (ew_cols d))))
    \<and> (\<forall>a. \<not> inside (sram_off (ew_dstAddr d)) (2 * k) a \<longrightarrow> sram_bytes t a = sram_bytes sim a)"
proof (rule fill_fp16)
  show "block_fits (ew_dstAddr d) k"
    using fits k by (auto simp: ewise_fits_def Let_def block_fits_def)
next
  fix i and s :: cmodel
  assume i: "i < k" and old: "\<And>a. \<not> inside (sram_off (ew_dstAddr d)) (2 * i) a \<Longrightarrow> sram_bytes s a = sram_bytes sim a"
  from i k have i': "i < unat (ew_rows d) * unat (ew_cols d)" by simp
  have "ewise_step P op d i s = ewise_write P op s (elem_addr (ew_dstAddr d) (of_nat i))
    (fp16ToFp32 (ewise_lhs sim d (i div unat (ew_cols d)) (i mod unat (ew_cols d))))
    (fp16ToFp32 (ewise_rhs sim d (i div unat (ew_cols d)) (i mod unat (ew_cols d))))"
    by (rule ewise_step_ok [OF fits i' old])
  also have "\<dots> = writeFP16 s (elem_addr (ew_dstAddr d) (of_nat i)) (ewise_val P op sim d (i div unat (ew_cols d)) (i mod unat (ew_cols d)))"
    using div [OF i] unfolding ewise_val_def by (intro ewise_write_ok op) (simp add: widened_zero ewise_divides_def)
  finally show "ewise_step P op d i s = writeFP16 s (elem_addr (ew_dstAddr d) (of_nat i)) (ewise_val P op sim d (i div unat (ew_cols d)) (i mod unat (ew_cols d)))" .
qed

lemma ewise_exec:
  assumes "read_desc sim dp 28 load_EwiseParam = Inr d" and "ewise_fits d"
  shows "execElementwise P sim dp op
    = fold_result (ewise_step P op d) [0..<unat (ew_rows d) * unat (ew_cols d)] sim"
proof -
  from assms(2) have D: "block_fits (ew_dstAddr d) (unat (ew_rows d) * unat (ew_cols d))"
    and sh: "ew_cols d \<noteq> 0 \<and> ew_rhsBlk d \<noteq> 0" "ew_cols d mod ew_rhsBlk d = 0"
    by (simp_all add: ewise_fits_def ewise_shape_def Let_def)
  from D have "unat (ew_rows d) * unat (ew_cols d) < 2 ^ 32" by (auto simp: block_fits_def)
  then have "unat (ew_rows d * ew_cols d) = unat (ew_rows d) * unat (ew_cols d)"
    by (intro unat_mult_no_wrap) simp
  with assms(1) sh show ?thesis by (simp add: execElementwise_def)
qed

lemma ewise_filled:
  assumes "read_desc sim dp 28 load_EwiseParam = Inr d" and "ewise_fits d" and "op \<in> ewise_opcodes"
    and "\<forall>r<unat (ew_rows d). \<forall>c<unat (ew_cols d). ewise_divides op sim d r c"
  shows "\<exists>t. execElementwise P sim dp op = Inr t \<and> ddr_bytes t = ddr_bytes sim
    \<and> (\<forall>r<unat (ew_rows d). \<forall>c<unat (ew_cols d). ewise_dst t d r c
        = fp32ToFp16 (ewise_val P op sim d r c))
    \<and> (\<forall>a. \<not> inside (sram_off (ew_dstAddr d)) (2 * (unat (ew_rows d) * unat (ew_cols d))) a \<longrightarrow>
            sram_bytes t a = sram_bytes sim a)"
proof -
  define C where "C = unat (ew_cols d)"
  have C: "0 < C" using assms(2) by (simp add: ewise_fits_def ewise_shape_def Let_def unat_gt_0 C_def)
  have "ewise_divides op sim d (i div C) (i mod C)" if "i < unat (ew_rows d) * C" for i
    using assms(4) ewise_index_less(2) [OF assms(2), of i] that C by (simp add: C_def)
  with ewise_prefix [OF assms(2,3) le_refl, of sim P, folded C_def] ewise_exec [OF assms(1,2)]
  obtain t where t: "execElementwise P sim dp op = Inr t" "ddr_bytes t = ddr_bytes sim"
    "\<forall>i<unat (ew_rows d) * C. sram_fp16 t (sram_off (ew_dstAddr d) + 2 * i) = fp32ToFp16 (ewise_val P op sim d (i div C) (i mod C))"
    "\<forall>a. \<not> inside (sram_off (ew_dstAddr d)) (2 * (unat (ew_rows d) * C)) a \<longrightarrow> sram_bytes t a = sram_bytes sim a"
    by (auto simp: C_def)
  have "ewise_dst t d r c = fp32ToFp16 (ewise_val P op sim d r c)" if "r < unat (ew_rows d)" and "c < C" for r c
    using t(3) [rule_format, OF index_less [OF that]] that(2) by (simp add: ewise_dst_def C_def)
  with t show ?thesis by (auto simp: C_def)
qed


text \<open>
  C32. A division whose right operand has a zero among the elements used stops with the assertion
  about the divisor.
\<close>

theorem execElementwise_rejects_zero_divisor:
  assumes "read_desc sim dp 28 load_EwiseParam = Inr d" and "ewise_fits d"
    and "r < unat (ew_rows d)" and "c < unat (ew_cols d)" and "rest16 (ewise_rhs sim d r c) = 0"
  shows "execElementwise P sim dp ELEMENTWISE_DIV = Inl (AssertFail ''The divisor cannot be zero.'')"
proof -
  define C where "C = unat (ew_cols d)"
  define bad where "bad = (\<lambda>i. i < unat (ew_rows d) * C \<and> rest16 (ewise_rhs sim d (i div C) (i mod C)) = 0)"
  have op: "ELEMENTWISE_DIV \<in> ewise_opcodes" by (simp add: ewise_opcodes_def)
  have "bad (r * C + c)" using assms(3-5) index_less [OF assms(3,4)] by (simp add: bad_def C_def)
  then have k: "bad (LEAST i. bad i)" by (rule LeastI)
  define k where "k = (LEAST i. bad i)"
  have kn: "k < unat (ew_rows d) * C" and kz: "rest16 (ewise_rhs sim d (k div C) (k mod C)) = 0"
    using k by (simp_all add: bad_def k_def)
  have "ewise_divides ELEMENTWISE_DIV sim d (i div C) (i mod C)" if "i < k" for i
    using not_less_Least [of i bad] that kn by (auto simp: k_def bad_def ewise_divides_def)
  with ewise_prefix [OF assms(2) op, of k sim P, folded C_def] kn
  obtain t where t: "fold_result (ewise_step P ELEMENTWISE_DIV d) [0..<k] sim = Inr t"
    "\<forall>a. \<not> inside (sram_off (ew_dstAddr d)) (2 * k) a \<longrightarrow> sram_bytes t a = sram_bytes sim a"
    by auto
  have "ewise_step P ELEMENTWISE_DIV d k t = ewise_write P ELEMENTWISE_DIV t (elem_addr (ew_dstAddr d) (of_nat k))
    (fp16ToFp32 (ewise_lhs sim d (k div C) (k mod C))) (fp16ToFp32 (ewise_rhs sim d (k div C) (k mod C)))"
    using ewise_step_ok [OF assms(2), of k t sim P] kn t(2) by (simp add: C_def)
  then have e: "ewise_step P ELEMENTWISE_DIV d k t = Inl (AssertFail ''The divisor cannot be zero.'')"
    using kz by (simp add: ewise_write_def widened_zero)
  have "[0..<unat (ew_rows d) * C] = [0..<k] @ k # [Suc k..<unat (ew_rows d) * C]"
    using kn by (metis le_add_same_cancel1 less_imp_le_nat upt_add_eq_append upt_conv_Cons le_iff_add zero_le)
  then show ?thesis
    using t(1) e ewise_exec [OF assms(1,2)] by (simp add: fold_result_append C_def)
qed

text \<open>Two elements, one of the right operand repeated along the row: \<open>[1, 2] + [3, 3]\<close>, and \<open>[1, 2] / [0, 0]\<close>.\<close>

definition sample_ewise :: EwiseParam where
  "sample_ewise = \<lparr>ew_dstAddr = 0x10000010, ew_rhsAddr = 0x10000008, ew_lhsAddr = 0x10000000,
     ew_rows = 1, ew_cols = 2, ew_rhsBlk = 1, ew_rhsStride = 0\<rparr>"

definition sample_ewise_sim :: "u16 \<Rightarrow> cmodel" where
  "sample_ewise_sim b = \<lparr>ddr_bytes = poke (\<lambda>_. 0) 0x100 (bytes_of_EwiseParam sample_ewise),
     sram_bytes = poke (\<lambda>_. 0) 0 (concat (map bytes_of_u16 [0x3C00, 0x4000, 0, 0, b]))\<rparr>"

lemma sample_ewise_facts:
  shows "read_desc (sample_ewise_sim b) 0x40000100 28 load_EwiseParam = Inr sample_ewise"
    and "ewise_fits sample_ewise"
    and "ewise_lhs (sample_ewise_sim b) sample_ewise 0 1 = 0x4000"
    and "ewise_rhs (sample_ewise_sim b) sample_ewise 0 i = b"
proof -
  show "read_desc (sample_ewise_sim b) 0x40000100 28 load_EwiseParam = Inr sample_ewise"
    by (rule ewise_desc.read_poke [of _ "0x100"]) (simp_all add: ddr_eq_Inr sample_ewise_sim_def)
  show "ewise_fits sample_ewise"
    by (simp add: ewise_fits_def ewise_shape_def ewise_rhs_size_def sample_ewise_def block_fits_def apart_def)
  show "ewise_lhs (sample_ewise_sim b) sample_ewise 0 1 = 0x4000"
    by (simp add: ewise_lhs_def sample_ewise_def sample_ewise_sim_def sram_fp16_def sram_off_def
      poke_def bytes_of_u16_def u16_of_bytes_def)
  have "u16_of_bytes [ucast b, ucast (drop_bit 8 b)] = b"
    using u16_of_bytes_of_u16 [of b] by (simp add: bytes_of_u16_def)
  then show "ewise_rhs (sample_ewise_sim b) sample_ewise 0 i = b"
    by (simp add: ewise_rhs_def sample_ewise_def sample_ewise_sim_def sram_fp16_def sram_off_def
      poke_def bytes_of_u16_def)
qed


theorem execElementwise_rejects_zero_divisor_witness:
  "execElementwise sample_platform (sample_ewise_sim 0x8000) 0x40000100 ELEMENTWISE_DIV
    = Inl (AssertFail ''The divisor cannot be zero.'')"
  by (rule execElementwise_rejects_zero_divisor [OF sample_ewise_facts(1,2), of 0 1])
    (simp_all add: sample_ewise_facts rest16_def, simp_all add: sample_ewise_def)

end
