(* ===== verification/ExecAct.thy ===== *)
theory ExecAct
  imports CModel
begin

text \<open>
  \<open>execAct\<close> of runtime/lib/cmodel_exec.cpp: an activation function applied to \<open>n\<close> elements.
  \<open>RSQRT\<close> and \<open>SILU\<close> have a \<open>double\<close> literal in them, so part of the arithmetic is in
  \<open>double\<close>, converted back to \<open>float\<close> at the call of \<open>writeFP16\<close>.
\<close>

section \<open>The operation\<close>

definition act_fun :: "platform \<Rightarrow> ActKind \<Rightarrow> u32 \<Rightarrow> u32" where
  "act_fun P kind src = (case kind of
       RELU \<Rightarrow> if f32_gt src 0 then src else 0
     | EXP \<Rightarrow> std_expf P src
     | RSQRT \<Rightarrow> f32_of_f64 P (f64_div P 0x3FF0000000000000 (f64_of_f32 P (f32_sqrt P src)))
     | SILU \<Rightarrow> f32_of_f64 P (f64_div P (f64_of_f32 P src)
         (f64_add P 0x3FF0000000000000 (f64_of_f32 P (std_expf P (f32_neg src))))))"

definition act_step :: "platform \<Rightarrow> ActKind \<Rightarrow> ActParam \<Rightarrow> nat \<Rightarrow> cmodel \<Rightarrow> cmodel result" where
  "act_step P kind d i sim =
     rbind (readFP16 sim (elem_addr (act_srcAddr d) (of_nat i))) (\<lambda>src.
       writeFP16 sim (elem_addr (act_dstAddr d) (of_nat i)) (act_fun P kind src))"

definition execAct :: "platform \<Rightarrow> cmodel \<Rightarrow> u32 \<Rightarrow> cmodel result" where
  "execAct P sim dp =
     rbind (read_desc sim dp 32 load_ActParam) (\<lambda>d.
       case enumerator act_kinds (act_kind d) of
         Some kind \<Rightarrow> fold_result (act_step P kind d) [0..<unat (act_n d)] sim
       | None \<Rightarrow> rbind (eclipse_assert False ''unsupported act kind'') (\<lambda>_. Inr sim))"

section \<open>Specification\<close>

definition act_src :: "cmodel \<Rightarrow> ActParam \<Rightarrow> nat \<Rightarrow> u16" where
  "act_src sim d i = sram_fp16 sim (sram_off (act_srcAddr d) + 2 * i)"

definition act_dst :: "cmodel \<Rightarrow> ActParam \<Rightarrow> nat \<Rightarrow> u16" where
  "act_dst sim d i = sram_fp16 sim (sram_off (act_dstAddr d) + 2 * i)"

text \<open>In place, or between two arrays that do not meet.\<close>

definition act_fits :: "ActParam \<Rightarrow> bool" where
  "act_fits d \<longleftrightarrow>
     (let n = unat (act_n d)
      in block_fits (act_srcAddr d) n \<and> block_fits (act_dstAddr d) n
       \<and> (act_dstAddr d = act_srcAddr d \<or> apart (unat (act_dstAddr d)) (2 * n) (unat (act_srcAddr d)) (2 * n)))"

lemma act_step_ok:
  assumes "act_fits d" and i: "i < unat (act_n d)"
    and old: "\<And>a. \<not> inside (sram_off (act_dstAddr d)) (2 * i) a \<Longrightarrow> sram_bytes s a = sram_bytes sim a"
  shows "act_step P kind d i s
    = writeFP16 s (elem_addr (act_dstAddr d) (of_nat i)) (act_fun P kind (fp16ToFp32 (act_src sim d i)))"
proof -
  from assms(1) have S: "block_fits (act_srcAddr d) (unat (act_n d))" and D: "block_fits (act_dstAddr d) (unat (act_n d))"
    and DS: "act_dstAddr d = act_srcAddr d
      \<or> apart (unat (act_dstAddr d)) (2 * unat (act_n d)) (unat (act_srcAddr d)) (2 * unat (act_n d))"
    by (simp_all add: act_fits_def Let_def)
  have "sram_fp16 s (sram_off (act_srcAddr d) + 2 * i) = sram_fp16 sim (sram_off (act_srcAddr d) + 2 * i)"
    using DS
  proof
    assume "act_dstAddr d = act_srcAddr d"
    then show ?thesis by (intro sram_fp16_cong old) (simp_all add: inside_def)
  next
    assume "apart (unat (act_dstAddr d)) (2 * unat (act_n d)) (unat (act_srcAddr d)) (2 * unat (act_n d))"
    then show ?thesis by (intro elem_kept [OF _ _ less_imp_le [OF i] D S i] old)
  qed
  then show ?thesis by (simp add: act_step_def readFP16_elem [OF S i] act_src_def)
qed

lemma act_exec:
  assumes "read_desc sim dp 32 load_ActParam = Inr d" and "act_kind d = act_kind_value kind" and "act_fits d"
  shows "\<exists>t. execAct P sim dp = Inr t \<and> ddr_bytes t = ddr_bytes sim
    \<and> (\<forall>i<unat (act_n d). act_dst t d i = fp32ToFp16 (act_fun P kind (fp16ToFp32 (act_src sim d i))))
    \<and> (\<forall>a. \<not> inside (sram_off (act_dstAddr d)) (2 * unat (act_n d)) a \<longrightarrow> sram_bytes t a = sram_bytes sim a)"
proof -
  have D: "block_fits (act_dstAddr d) (unat (act_n d))" using assms(3) by (simp add: act_fits_def Let_def)
  have "execAct P sim dp = fold_result (act_step P kind d) [0..<unat (act_n d)] sim"
    using assms(1,2) by (simp add: execAct_def)
  moreover have "\<exists>t. fold_result (act_step P kind d) [0..<unat (act_n d)] sim = Inr t \<and> ddr_bytes t = ddr_bytes sim
    \<and> (\<forall>i<unat (act_n d). sram_fp16 t (sram_off (act_dstAddr d) + 2 * i) = fp32ToFp16 (act_fun P kind (fp16ToFp32 (act_src sim d i))))
    \<and> (\<forall>a. \<not> inside (sram_off (act_dstAddr d)) (2 * unat (act_n d)) a \<longrightarrow> sram_bytes t a = sram_bytes sim a)"
    by (rule fill_fp16 [OF D]) (rule act_step_ok [OF assms(3)])
  ultimately show ?thesis by (simp add: act_dst_def)
qed

section \<open>The rectifier\<close>

text \<open>
  \<open>src > 0.0f ? src : 0.0f\<close> is the identity on positive numbers, and on \<open>+\<infinity>\<close>, and plus zero on
  everything else, a NaN included.
\<close>

lemma relu_fp16:
  "fp32ToFp16 (act_fun P RELU (fp16ToFp32 h)) = (if \<not> sgn16 h \<and> 0 < rest16 h \<and> rest16 h \<le> 0x7C00 then h else 0)"
proof -
  have z: "fp32ToFp16 0 = 0" by (simp add: fp32ToFp16_def)
  have n: "nan32 (fp16ToFp32 h) = nan16 h"
    using widen_finite(1) [of h] widen_special(3) [of h]
    by (cases "finite16 h") (auto simp: nan32_def finite32_def nan16_def finite16_def)
  have r: "rest32 (fp16ToFp32 h) = 0 \<longleftrightarrow> rest16 h = 0" if "\<not> nan16 h"
    using widened_zero [of h] that n by (auto simp: f32_eq_def f32_key_def signed_def rest32_def [of 0] nan32_def split: if_splits)
  have "f32_gt (fp16ToFp32 h) 0 \<longleftrightarrow> \<not> nan16 h \<and> \<not> sgn16 h \<and> rest16 h \<noteq> 0"
    using r n by (auto simp: f32_gt_def f32_key_def signed_def fp16ToFp32_parts(1) nan32_def rest32_def [of 0])
  moreover have "fp32ToFp16 (fp16ToFp32 h) = h" if "\<not> nan16 h"
    using that by (intro fp16_roundtrip_parts(1)) (auto simp: nan16_def finite16_def)
  ultimately show ?thesis using z by (auto simp: act_fun_def nan16_def)
qed

text \<open>
  ACT applies its function to every element, in place or between two arrays that do not meet, and
  changes nothing else.
\<close>

theorem execAct_maps:
  assumes "read_desc sim dp 32 load_ActParam = Inr d" and "act_kind d = act_kind_value kind" and "act_fits d"
  shows "\<exists>t. execAct P sim dp = Inr t \<and> ddr_bytes t = ddr_bytes sim
    \<and> (\<forall>i<unat (act_n d). act_dst t d i = fp32ToFp16 (act_fun P kind (fp16ToFp32 (act_src sim d i))))
    \<and> (\<forall>a. \<not> inside (sram_off (act_dstAddr d)) (2 * unat (act_n d)) a \<longrightarrow> sram_bytes t a = sram_bytes sim a)"
  by (rule act_exec [OF assms])

text \<open>
  ACT with RELU keeps the positive elements bit for bit and replaces every other element, NaN
  included, by zero.
\<close>

theorem execAct_relu:
  assumes "read_desc sim dp 32 load_ActParam = Inr d" and "act_kind d = act_kind_value RELU" and "act_fits d"
  shows "\<exists>t. execAct P sim dp = Inr t \<and> (\<forall>i<unat (act_n d). act_dst t d i =
    (if nan16 (act_src sim d i) \<or> sgn16 (act_src sim d i) then 0 else act_src sim d i))"
proof -
  have "(if \<not> sgn16 h \<and> 0 < rest16 h \<and> rest16 h \<le> 0x7C00 then h else 0) = (if nan16 h \<or> sgn16 h then 0 else h)" for h
    using pattern16_eqI [of h 0] by (auto simp: nan16_def sgn16_def [of 0] rest16_def [of 0])
  with act_exec [OF assms, of P] show ?thesis unfolding relu_fp16 by auto
qed

definition sample_act :: ActParam where
  "sample_act = \<lparr>act_dstAddr = 0x10000000, act_srcAddr = 0x10000000, act_n = 3, act_kind = 0,
     act_extra0 = 0, act_extra1 = 0, act_extra2 = 0, act_extra3 = 0\<rparr>"

definition sample_act_sim :: cmodel where
  "sample_act_sim = \<lparr>ddr_bytes = poke (\<lambda>_. 0) 0x100 (bytes_of_ActParam sample_act),
     sram_bytes = poke (\<lambda>_. 0) 0 (concat (map bytes_of_u16 [0x3C00, 0xC000, 0x7E00]))\<rparr>"

lemma sample_act_facts:
  shows "read_desc sample_act_sim 0x40000100 32 load_ActParam = Inr sample_act"
    and "act_kind sample_act = act_kind_value RELU" and "act_fits sample_act" and "unat (act_n sample_act) = 3"
    and "act_src sample_act_sim sample_act 0 = 0x3C00" and "act_src sample_act_sim sample_act 1 = 0xC000"
    and "act_src sample_act_sim sample_act 2 = 0x7E00"
proof -
  show "read_desc sample_act_sim 0x40000100 32 load_ActParam = Inr sample_act"
    by (rule act_desc.read_poke [of _ "0x100"]) (simp_all add: ddr_eq_Inr sample_act_sim_def)
qed (simp_all add: act_fits_def block_fits_def act_src_def sample_act_def sample_act_sim_def sram_fp16_def sram_off_def
      poke_def bytes_of_u16_def u16_of_bytes_def)

theorem execAct_maps_witness:
  "\<exists>t. execAct sample_platform sample_act_sim 0x40000100 = Inr t \<and> act_dst t sample_act 1 = 0"
proof -
  have "fp32ToFp16 (act_fun sample_platform RELU (fp16ToFp32 0xC000)) = 0"
    by (simp add: relu_fp16 sgn16_def)
  then show ?thesis
    using execAct_maps [OF sample_act_facts(1,2,3), of sample_platform] unfolding sample_act_facts(4)
    by (auto simp: sample_act_facts sample_act_facts [simplified] dest!: spec [of _ 1])
qed

theorem execAct_relu_witness:
  "\<exists>t. execAct sample_platform sample_act_sim 0x40000100 = Inr t \<and> act_dst t sample_act 0 = 0x3C00 \<and> act_dst t sample_act 2 = 0"
proof -
  obtain t where t: "execAct sample_platform sample_act_sim 0x40000100 = Inr t"
    "\<And>i. i < 3 \<Longrightarrow> act_dst t sample_act i =
      (if nan16 (act_src sample_act_sim sample_act i) \<or> sgn16 (act_src sample_act_sim sample_act i) then 0
       else act_src sample_act_sim sample_act i)"
    using execAct_relu [OF sample_act_facts(1,2,3), of sample_platform] unfolding sample_act_facts(4) by blast
  from t(2) [of 0] t(2) [of 2] t(1) show ?thesis
    by (simp add: sample_act_facts nan16_def sgn16_def rest16_def)
qed

end
