(* ===== verification/ExecReduce.thy ===== *)
theory ExecReduce
  imports CModel
begin

text \<open>
  \<open>reduceMax\<close>, \<open>reduceArgmax\<close> and \<open>execReduce\<close> of runtime/lib/cmodel_exec.cpp: each row of
  \<open>cols\<close> elements is folded to one value, and for ARGMAX to an index as well.
\<close>

section \<open>The operations\<close>

record ValueIndex =
  vi_value :: u32
  vi_index :: u32

text \<open>\<open>std::numeric_limits<float>::quiet_NaN()\<close>.\<close>

definition quiet_NaN :: u32 where
  "quiet_NaN = 0x7FC00000"

definition reduceMax :: "u32 \<Rightarrow> u32 \<Rightarrow> u32" where
  "reduceMax a b =
     (if nan32 a \<or> nan32 b then quiet_NaN
      else if f32_gt a b then a
      else if f32_gt b a then b
      else if f32_eq a 0 \<and> f32_eq b 0 then (if sgn32 a then b else a)
      else a)"

definition reduceArgmax :: "ValueIndex \<Rightarrow> ValueIndex \<Rightarrow> ValueIndex" where
  "reduceArgmax a b =
     (let value = reduceMax (vi_value a) (vi_value b)
      in if nan32 value then \<lparr>vi_value = value, vi_index = (if nan32 (vi_value a) then vi_index a else vi_index b)\<rparr>
         else \<lparr>vi_value = value, vi_index = (if f32_eq (vi_value a) value then vi_index a else vi_index b)\<rparr>)"

text \<open>
  The fold over one row: element 0 starts it, the others follow in order.  The row is read as it
  is when its iteration starts.
\<close>

definition row_fold :: "cmodel \<Rightarrow> u32 \<Rightarrow> u32 \<Rightarrow> (u32 \<Rightarrow> 'a) \<Rightarrow> (nat \<Rightarrow> u32 \<Rightarrow> 'a \<Rightarrow> 'a) \<Rightarrow> 'a result" where
  "row_fold sim row cols start step =
     rbind (readFP16 sim row) (\<lambda>first.
       fold_result (\<lambda>j acc. rbind (readFP16 sim (elem_addr row (of_nat j))) (\<lambda>v. Inr (step j v acc)))
         [1..<unat cols] (start first))"

definition reduce_row_addr :: "ReduceParam \<Rightarrow> nat \<Rightarrow> u32" where
  "reduce_row_addr d i = elem_addr (red_srcAddr d) (of_nat i * red_cols d)"

definition square :: "platform \<Rightarrow> bool \<Rightarrow> u32 \<Rightarrow> u32" where
  "square P sq x = (if sq then f32_mul P x x else x)"

definition reduce_max_row :: "ReduceParam \<Rightarrow> nat \<Rightarrow> cmodel \<Rightarrow> cmodel result" where
  "reduce_max_row d i sim =
     rbind (row_fold sim (reduce_row_addr d i) (red_cols d) id (\<lambda>j v max. reduceMax max v))
       (writeFP16 sim (elem_addr (red_dstAddr d) (of_nat i)))"

definition reduce_sum_row :: "platform \<Rightarrow> bool \<Rightarrow> ReduceParam \<Rightarrow> nat \<Rightarrow> cmodel \<Rightarrow> cmodel result" where
  "reduce_sum_row P sq d i sim =
     rbind (row_fold sim (reduce_row_addr d i) (red_cols d) (square P sq) (\<lambda>j v sum. f32_add P sum (square P sq v)))
       (writeFP16 sim (elem_addr (red_dstAddr d) (of_nat i)))"

text \<open>\<open>sizeof(uint32_t)\<close> is a \<open>size_t\<close>: the address of an index is a 64-bit sum, converted.\<close>

definition index_addr :: "u32 \<Rightarrow> u32 \<Rightarrow> u32" where
  "index_addr base i = ucast ((ucast base :: u64) + ucast i * 4)"

definition reduce_argmax_row :: "ReduceParam \<Rightarrow> nat \<Rightarrow> cmodel \<Rightarrow> cmodel result" where
  "reduce_argmax_row d i sim =
     rbind (row_fold sim (reduce_row_addr d i) (red_cols d) (\<lambda>v. \<lparr>vi_value = v, vi_index = 0\<rparr>)
              (\<lambda>j v result. reduceArgmax result \<lparr>vi_value = v, vi_index = of_nat j\<rparr>)) (\<lambda>result.
     rbind (writeFP16 sim (elem_addr (red_dstAddr d) (of_nat i)) (vi_value result)) (\<lambda>sim.
       storeU32_sram sim (index_addr (red_idxAddr d) (of_nat i)) (vi_index result)))"

definition execReduce :: "platform \<Rightarrow> cmodel \<Rightarrow> u32 \<Rightarrow> cmodel result" where
  "execReduce P sim dp =
     rbind (read_desc sim dp 24 load_ReduceParam) (\<lambda>d.
     rbind (eclipse_assert (red_rows d \<noteq> 0 \<and> red_cols d \<noteq> 0) ''reduce: rows/cols must be non-zero'') (\<lambda>_.
     rbind (eclipse_assert ((red_kind d = reduce_kind_value REDUCE_ARGMAX) = (red_idxAddr d \<noteq> 0))
              ''reduce: idxAddr is only used by ARGMAX'') (\<lambda>_.
       let rows = [0..<unat (red_rows d)]
       in case enumerator reduce_kinds (red_kind d) of
            Some REDUCE_MAX \<Rightarrow> fold_result (reduce_max_row d) rows sim
          | Some REDUCE_SUM \<Rightarrow> fold_result (reduce_sum_row P False d) rows sim
          | Some REDUCE_SQUARE_SUM \<Rightarrow> fold_result (reduce_sum_row P True d) rows sim
          | Some REDUCE_ARGMAX \<Rightarrow> fold_result (reduce_argmax_row d) rows sim
          | None \<Rightarrow> rbind (eclipse_assert False ''unsupported reduce kind'') (\<lambda>_. Inr sim))))"

section \<open>The maximum\<close>

lemma nan_quiet_NaN [simp]: "nan32 quiet_NaN"
  by (simp add: quiet_NaN_def nan32_def rest32_def)

lemma reduceMax_nan: "nan32 (reduceMax a b) \<longleftrightarrow> nan32 a \<or> nan32 b"
  by (auto simp: reduceMax_def)

lemma reduceMax_key: "\<not> nan32 a \<Longrightarrow> \<not> nan32 b \<Longrightarrow> f32_key (reduceMax a b) = max (f32_key a) (f32_key b)"
  by (auto simp: reduceMax_def f32_gt_def f32_eq_def)

lemma reduceMax_either: "\<not> nan32 a \<Longrightarrow> \<not> nan32 b \<Longrightarrow> reduceMax a b = a \<or> reduceMax a b = b"
  by (auto simp: reduceMax_def)

text \<open>The values of a row and what the loop has after \<open>n\<close> of them.\<close>

definition max_upto :: "(nat \<Rightarrow> u32) \<Rightarrow> nat \<Rightarrow> u32" where
  "max_upto v n = fold (\<lambda>j max. reduceMax max (v j)) [1..<n] (v 0)"

definition argmax_upto :: "(nat \<Rightarrow> u32) \<Rightarrow> nat \<Rightarrow> ValueIndex" where
  "argmax_upto v n = fold (\<lambda>j r. reduceArgmax r \<lparr>vi_value = v j, vi_index = of_nat j\<rparr>) [1..<n]
     \<lparr>vi_value = v 0, vi_index = 0\<rparr>"

lemma max_upto_1 [simp]: "max_upto v (Suc 0) = v 0"
  by (simp add: max_upto_def)

lemma max_upto_Suc: "0 < n \<Longrightarrow> max_upto v (Suc n) = reduceMax (max_upto v n) (v n)"
  by (cases n) (simp_all add: max_upto_def)

lemma argmax_upto_1 [simp]: "argmax_upto v (Suc 0) = \<lparr>vi_value = v 0, vi_index = 0\<rparr>"
  by (simp add: argmax_upto_def)

lemma argmax_upto_Suc:
  "0 < n \<Longrightarrow> argmax_upto v (Suc n) = reduceArgmax (argmax_upto v n) \<lparr>vi_value = v n, vi_index = of_nat n\<rparr>"
  by (cases n) (simp_all add: argmax_upto_def)

lemma nat_induct_1 [consumes 1, case_names 1 Suc]:
  "0 < n \<Longrightarrow> P (Suc 0) \<Longrightarrow> (\<And>n. 0 < n \<Longrightarrow> P n \<Longrightarrow> P (Suc n)) \<Longrightarrow> P n"
  by (erule nat_induct_non_zero) (simp_all only: One_nat_def)

lemma max_upto_nan: "0 < n \<Longrightarrow> nan32 (max_upto v n) \<longleftrightarrow> (\<exists>j<n. nan32 (v j))"
  by (induction n rule: nat_induct_1) (auto simp: max_upto_Suc reduceMax_nan less_Suc_eq)

lemma max_upto_max:
  assumes "0 < n" and "\<And>j. j < n \<Longrightarrow> \<not> nan32 (v j)"
  shows "(\<exists>j<n. max_upto v n = v j) \<and> (\<forall>j<n. f32_key (v j) \<le> f32_key (max_upto v n))"
  using assms
proof (induction n rule: nat_induct_1)
  case 1
  then show ?case by simp
next
  case (Suc n)
  then have ih: "\<exists>j<n. max_upto v n = v j" "\<forall>j<n. f32_key (v j) \<le> f32_key (max_upto v n)" by auto
  have nn: "\<not> nan32 (max_upto v n)" "\<not> nan32 (v n)" using Suc max_upto_nan [of n v] by auto
  have "\<exists>j<Suc n. max_upto v (Suc n) = v j"
    using ih(1) reduceMax_either [OF nn] Suc(1) by (auto simp: max_upto_Suc less_Suc_eq)
  moreover have "\<forall>j<Suc n. f32_key (v j) \<le> f32_key (max_upto v (Suc n))"
    using ih(2) Suc(1) by (auto simp: max_upto_Suc reduceMax_key [OF nn] less_Suc_eq max.coboundedI1)
  ultimately show ?case by blast
qed

text \<open>The value of an ARGMAX is the value of a MAX.\<close>

lemma argmax_value: "0 < n \<Longrightarrow> vi_value (argmax_upto v n) = max_upto v n"
  by (induction n rule: nat_induct_1) (simp_all add: argmax_upto_Suc max_upto_Suc reduceArgmax_def Let_def)

text \<open>Its index is the first position that attains the value, or the first NaN.\<close>

lemma argmax_index:
  assumes "0 < n"
  shows "\<exists>k<n. vi_index (argmax_upto v n) = of_nat k
    \<and> (if \<exists>j<n. nan32 (v j) then nan32 (v k) \<and> (\<forall>j<k. \<not> nan32 (v j))
       else f32_key (v k) = f32_key (max_upto v n) \<and> (\<forall>j<k. f32_key (v j) < f32_key (v k)))"
  using assms
proof (induction n rule: nat_induct_1)
  case 1
  then show ?case by simp
next
  case (Suc n)
  then obtain k where k: "k < n" "vi_index (argmax_upto v n) = of_nat k"
    "if \<exists>j<n. nan32 (v j) then nan32 (v k) \<and> (\<forall>j<k. \<not> nan32 (v j))
       else f32_key (v k) = f32_key (max_upto v n) \<and> (\<forall>j<k. f32_key (v j) < f32_key (v k))" by blast
  note val = argmax_value [OF Suc(1), of v]
  show ?case
  proof (cases "\<exists>j<Suc n. nan32 (v j)")
    case True
    then have "nan32 (max_upto v (Suc n))" using max_upto_nan [of "Suc n" v] by simp
    then have ix: "vi_index (argmax_upto v (Suc n)) = (if nan32 (max_upto v n) then of_nat k else of_nat n)"
      using k(2) by (simp add: argmax_upto_Suc [OF Suc(1)] reduceArgmax_def Let_def val max_upto_Suc [OF Suc(1)])
    show ?thesis
    proof (cases "nan32 (max_upto v n)")
      case nan: True
      then have "\<exists>j<n. nan32 (v j)" using max_upto_nan [OF Suc(1), of v] by simp
      with k ix nan True show ?thesis by (auto intro!: exI [of _ k])
    next
      case False
      then have "\<forall>j<n. \<not> nan32 (v j)" using max_upto_nan [OF Suc(1), of v] by simp
      with True False ix show ?thesis by (auto intro!: exI [of _ n] simp: less_Suc_eq)
    qed
  next
    case False
    then have nn: "\<not> nan32 (max_upto v n)" "\<not> nan32 (v n)" "\<forall>j<n. \<not> nan32 (v j)"
      using max_upto_nan [OF Suc(1), of v] by auto
    have le: "\<forall>j<n. f32_key (v j) \<le> f32_key (max_upto v n)" using max_upto_max [OF Suc(1)] nn by blast
    have clean: "(\<exists>j<n. nan32 (v j)) = False" using nn(3) by blast
    have ki: "f32_key (v k) = f32_key (max_upto v n)" "\<forall>j<k. f32_key (v j) < f32_key (v k)" using k(3) unfolding clean if_False by blast+
    have mx: "f32_key (max_upto v (Suc n)) = max (f32_key (max_upto v n)) (f32_key (v n))"
      by (simp add: max_upto_Suc [OF Suc(1)] reduceMax_key nn)
    have ix: "vi_index (argmax_upto v (Suc n)) = (if f32_key (v n) \<le> f32_key (max_upto v n) then of_nat k else of_nat n)"
      using k(2) nn reduceMax_key [OF nn(1,2)] reduceMax_nan [of "max_upto v n" "v n"]
      by (auto simp: argmax_upto_Suc [OF Suc(1)] reduceArgmax_def Let_def val f32_eq_def)
    show ?thesis
    proof (cases "f32_key (v n) \<le> f32_key (max_upto v n)")
      case True
      with ix mx ki k(1) \<open>\<not> (\<exists>j<Suc n. nan32 (v j))\<close> show ?thesis by (auto intro!: exI [of _ k])
    next
      case gt: False
      with ix mx le \<open>\<not> (\<exists>j<Suc n. nan32 (v j))\<close> show ?thesis by (auto intro!: exI [of _ n])
    qed
  qed
qed

section \<open>Specification\<close>

definition red_elem :: "cmodel \<Rightarrow> ReduceParam \<Rightarrow> nat \<Rightarrow> nat \<Rightarrow> u16" where
  "red_elem sim d i j = sram_fp16 sim (sram_off (red_srcAddr d) + 2 * (i * unat (red_cols d) + j))"

definition red_dst :: "cmodel \<Rightarrow> ReduceParam \<Rightarrow> nat \<Rightarrow> u16" where
  "red_dst sim d i = sram_fp16 sim (sram_off (red_dstAddr d) + 2 * i)"

definition red_idx :: "cmodel \<Rightarrow> ReduceParam \<Rightarrow> nat \<Rightarrow> u32 result" where
  "red_idx sim d i = rbind (read_sram sim (sram_off (red_idxAddr d) + 4 * i) 4) (\<lambda>bs. Inr (u32_of_bytes bs))"

text \<open>The values of row \<open>i\<close>, as the loop reads them.\<close>

definition red_row :: "cmodel \<Rightarrow> ReduceParam \<Rightarrow> nat \<Rightarrow> nat \<Rightarrow> u32" where
  "red_row sim d i j = fp16ToFp32 (red_elem sim d i j)"

definition sum_upto :: "platform \<Rightarrow> bool \<Rightarrow> (nat \<Rightarrow> u32) \<Rightarrow> nat \<Rightarrow> u32" where
  "sum_upto P sq v n = fold (\<lambda>j sum. f32_add P sum (square P sq (v j))) [1..<n] (square P sq (v 0))"

definition reduce_fits :: "ReduceParam \<Rightarrow> bool" where
  "reduce_fits d \<longleftrightarrow>
     (let R = unat (red_rows d); C = unat (red_cols d)
      in red_rows d \<noteq> 0 \<and> red_cols d \<noteq> 0 \<and> block_fits (red_srcAddr d) (R * C) \<and> block_fits (red_dstAddr d) R
       \<and> apart (unat (red_dstAddr d)) (2 * R) (unat (red_srcAddr d)) (2 * (R * C)))"

text \<open>An ARGMAX also has an array of 32-bit indices, apart from the other two.\<close>

definition argmax_fits :: "ReduceParam \<Rightarrow> bool" where
  "argmax_fits d \<longleftrightarrow>
     (let R = unat (red_rows d); C = unat (red_cols d)
      in reduce_fits d \<and> 0x10000000 \<le> unat (red_idxAddr d) \<and> unat (red_idxAddr d) + 4 * R \<le> 0x10080000
       \<and> apart (unat (red_idxAddr d)) (4 * R) (unat (red_srcAddr d)) (2 * (R * C))
       \<and> apart (unat (red_dstAddr d)) (2 * R) (unat (red_idxAddr d)) (4 * R))"

section \<open>The fold over a row\<close>

lemma row_elem_addr: "elem_addr (reduce_row_addr d i) (of_nat j) = elem_addr (red_srcAddr d) (of_nat (i * unat (red_cols d) + j))"
  unfolding reduce_row_addr_def elem_addr_add index_of_nat ..

lemma row_fold_ok:
  assumes S: "block_fits (red_srcAddr d) (R * unat (red_cols d))" and i: "i < R" and C: "red_cols d \<noteq> 0"
    and same: "\<And>j. j < unat (red_cols d) \<Longrightarrow> red_elem s d i j = red_elem sim d i j"
  shows "row_fold s (reduce_row_addr d i) (red_cols d) start step
    = Inr (fold (\<lambda>j acc. step j (red_row sim d i j) acc) [1..<unat (red_cols d)] (start (red_row sim d i 0)))"
proof -
  have read: "readFP16 s (elem_addr (reduce_row_addr d i) (of_nat j)) = Inr (red_row sim d i j)"
    if j: "j < unat (red_cols d)" for j
    unfolding row_elem_addr readFP16_elem [OF S index_less [OF i j]]
    using same [OF j] by (simp add: red_row_def red_elem_def)
  have "0 < unat (red_cols d)" using C by (simp add: unat_gt_0)
  from read [OF this] have first: "readFP16 s (reduce_row_addr d i) = Inr (red_row sim d i 0)"
    by (simp add: elem_addr_0)
  show ?thesis
    unfolding row_fold_def first rbind_Inr by (rule fold_result_pure) (simp add: read)
qed

lemma reduce_fitsD:
  assumes "reduce_fits d"
  shows "red_rows d \<noteq> 0" "red_cols d \<noteq> 0" "0 < unat (red_cols d)"
    "block_fits (red_srcAddr d) (unat (red_rows d) * unat (red_cols d))" "block_fits (red_dstAddr d) (unat (red_rows d))"
    "apart (unat (red_dstAddr d)) (2 * unat (red_rows d)) (unat (red_srcAddr d)) (2 * (unat (red_rows d) * unat (red_cols d)))"
  using assms by (simp_all add: reduce_fits_def Let_def unat_gt_0)

lemma red_elem_kept:
  assumes fits: "reduce_fits d" and i: "i < unat (red_rows d)" and j: "j < unat (red_cols d)" and k: "k < unat (red_rows d)"
    and old: "\<And>a. \<not> inside (sram_off (red_dstAddr d)) (2 * k) a \<Longrightarrow> sram_bytes s a = sram_bytes sim a"
  shows "red_elem s d i j = red_elem sim d i j"
  unfolding red_elem_def
  by (intro elem_kept [OF _ reduce_fitsD(6) [OF fits] less_imp_le [OF k] reduce_fitsD(5,4) [OF fits] index_less [OF i j]] old)

text \<open>The loops over the rows of the kinds that write one value.\<close>

lemma reduce_rows_fill:
  assumes fits: "reduce_fits d"
    and row: "\<And>i s. i < unat (red_rows d) \<Longrightarrow>
      (\<And>j. j < unat (red_cols d) \<Longrightarrow> red_elem s d i j = red_elem sim d i j) \<Longrightarrow>
      body i s = writeFP16 s (elem_addr (red_dstAddr d) (of_nat i)) (g i)"
  shows "\<exists>t. fold_result body [0..<unat (red_rows d)] sim = Inr t \<and> ddr_bytes t = ddr_bytes sim
    \<and> (\<forall>i<unat (red_rows d). red_dst t d i = fp32ToFp16 (g i))
    \<and> (\<forall>a. \<not> inside (sram_off (red_dstAddr d)) (2 * unat (red_rows d)) a \<longrightarrow> sram_bytes t a = sram_bytes sim a)"
  unfolding red_dst_def
proof (rule fill_fp16)
  show "block_fits (red_dstAddr d) (unat (red_rows d))" using fits by (simp add: reduce_fits_def Let_def)
next
  fix i and s :: cmodel
  assume i: "i < unat (red_rows d)"
    and old: "\<And>a. \<not> inside (sram_off (red_dstAddr d)) (2 * i) a \<Longrightarrow> sram_bytes s a = sram_bytes sim a"
  show "body i s = writeFP16 s (elem_addr (red_dstAddr d) (of_nat i)) (g i)"
    by (rule row [OF i], rule red_elem_kept [OF fits i _ i old])
qed

lemma exec_max_rows:
  assumes "read_desc sim dp 24 load_ReduceParam = Inr d" and "red_kind d = reduce_kind_value REDUCE_MAX"
    and "red_idxAddr d = 0" and fits: "reduce_fits d"
  shows "\<exists>t. execReduce P sim dp = Inr t \<and> ddr_bytes t = ddr_bytes sim
    \<and> (\<forall>i<unat (red_rows d). red_dst t d i = fp32ToFp16 (max_upto (red_row sim d i) (unat (red_cols d))))
    \<and> (\<forall>a. \<not> inside (sram_off (red_dstAddr d)) (2 * unat (red_rows d)) a \<longrightarrow> sram_bytes t a = sram_bytes sim a)"
proof -
  note f = reduce_fitsD [OF fits]
  have "execReduce P sim dp = fold_result (reduce_max_row d) [0..<unat (red_rows d)] sim"
    using assms(1-3) f(1,2) enumerator_reduce_kind [of REDUCE_MAX] by (simp add: execReduce_def Let_def)
  moreover have row: "reduce_max_row d i s = writeFP16 s (elem_addr (red_dstAddr d) (of_nat i)) (max_upto (red_row sim d i) (unat (red_cols d)))"
    if "i < unat (red_rows d)" and "\<And>j. j < unat (red_cols d) \<Longrightarrow> red_elem s d i j = red_elem sim d i j" for i s
    using row_fold_ok [OF f(4) that(1) f(2) that(2), where start = "id" and step = "\<lambda>j v max. reduceMax max v"]
    by (simp add: reduce_max_row_def max_upto_def)
  ultimately show ?thesis by (simp only:) (rule reduce_rows_fill [OF fits], rule row)
qed

lemma exec_sum_rows:
  assumes "read_desc sim dp 24 load_ReduceParam = Inr d"
    and "red_kind d = reduce_kind_value (if sq then REDUCE_SQUARE_SUM else REDUCE_SUM)"
    and "red_idxAddr d = 0" and fits: "reduce_fits d"
  shows "\<exists>t. execReduce P sim dp = Inr t \<and> ddr_bytes t = ddr_bytes sim
    \<and> (\<forall>i<unat (red_rows d). red_dst t d i = fp32ToFp16 (sum_upto P sq (red_row sim d i) (unat (red_cols d))))
    \<and> (\<forall>a. \<not> inside (sram_off (red_dstAddr d)) (2 * unat (red_rows d)) a \<longrightarrow> sram_bytes t a = sram_bytes sim a)"
proof -
  note f = reduce_fitsD [OF fits]
  have "execReduce P sim dp = fold_result (reduce_sum_row P sq d) [0..<unat (red_rows d)] sim"
    using assms(1-3) f(1,2) enumerator_reduce_kind [of REDUCE_SUM] enumerator_reduce_kind [of REDUCE_SQUARE_SUM]
    by (cases sq) (simp_all add: execReduce_def Let_def)
  moreover have row: "reduce_sum_row P sq d i s = writeFP16 s (elem_addr (red_dstAddr d) (of_nat i)) (sum_upto P sq (red_row sim d i) (unat (red_cols d)))"
    if "i < unat (red_rows d)" and "\<And>j. j < unat (red_cols d) \<Longrightarrow> red_elem s d i j = red_elem sim d i j" for i s
    using row_fold_ok [OF f(4) that(1) f(2) that(2), where start = "square P sq" and step = "\<lambda>j v sum. f32_add P sum (square P sq v)"]
    by (simp add: reduce_sum_row_def sum_upto_def)
  ultimately show ?thesis by (simp only:) (rule reduce_rows_fill [OF fits], rule row)
qed

section \<open>The indices of an ARGMAX\<close>

lemma unat_index_addr: "unat (index_addr base i) = (unat base + 4 * unat i) mod 2 ^ 32"
proof -
  have lt: "unat base < 2 ^ 32" "unat i < 2 ^ 32"
    using unat_u32_less [of base] unat_u32_less [of i] by simp_all
  then have "unat (ucast i * 4 :: u64) = unat i * 4"
    by (simp add: unat_mult_no_wrap unat_ucast_small)
  with lt have "unat ((ucast base :: u64) + ucast i * 4) = unat base + unat i * 4"
    by (simp add: unat_add_no_wrap unat_ucast_small)
  then show ?thesis
    by (simp add: index_addr_def unsigned_ucast_eq take_bit_eq_mod [where ?'a = nat] mult.commute)
qed

lemma storeU32_index:
  assumes "0x10000000 \<le> unat idx" and "unat idx + 4 * R \<le> 0x10080000" and "i < R"
  shows "storeU32_sram sim (index_addr idx (of_nat i)) v = write_sram sim (sram_off idx + 4 * i) (bytes_of_u32 v)"
proof -
  have "i < 2 ^ 32" using assms(2,3) by simp
  then have "unat (index_addr idx (of_nat i)) = unat idx + 4 * i"
    using assms by (simp add: unat_index_addr unat_of_nat_small)
  then have "sram (index_addr idx (of_nat i)) = Inr (sram_off idx + 4 * i)"
    using assms by (simp add: sram_eq_Inr sram_off_def)
  then show ?thesis by (simp add: storeU32_sram_def)
qed

lemma exec_argmax_rows:
  assumes "read_desc sim dp 24 load_ReduceParam = Inr d" and "red_kind d = reduce_kind_value REDUCE_ARGMAX"
    and fits: "argmax_fits d"
  shows "\<exists>t. execReduce P sim dp = Inr t \<and> ddr_bytes t = ddr_bytes sim
    \<and> (\<forall>i<unat (red_rows d).
        red_dst t d i = fp32ToFp16 (max_upto (red_row sim d i) (unat (red_cols d)))
        \<and> red_idx t d i = Inr (vi_index (argmax_upto (red_row sim d i) (unat (red_cols d)))))"
proof -
  define R C where "R = unat (red_rows d)" and "C = unat (red_cols d)"
  define p q where "p = (\<lambda>i. sram_off (red_dstAddr d) + 2 * i)" and "q = (\<lambda>i. sram_off (red_idxAddr d) + 4 * i)"
  define f where "f = (\<lambda>i. bytes_of_u16 (fp32ToFp16 (max_upto (red_row sim d i) C)))"
  define g where "g = (\<lambda>i. bytes_of_u32 (vi_index (argmax_upto (red_row sim d i) C)))"
  have len: "length (f i) = 2" "length (g i) = 4" for i by (simp_all add: f_def g_def)
  from fits have rf: "reduce_fits d" and I: "0x10000000 \<le> unat (red_idxAddr d)" "unat (red_idxAddr d) + 4 * R \<le> 0x10080000"
    and IS: "apart (unat (red_idxAddr d)) (4 * R) (unat (red_srcAddr d)) (2 * (R * C))"
    and DI: "apart (unat (red_dstAddr d)) (2 * R) (unat (red_idxAddr d)) (4 * R)"
    by (simp_all add: argmax_fits_def Let_def R_def C_def)
  note rfD = reduce_fitsD [OF rf, folded R_def C_def]
  have R0: "0 < R" using rfD(1) by (simp add: R_def unat_gt_0)
  with rfD(5) have D: "0x10000000 \<le> unat (red_dstAddr d)" "unat (red_dstAddr d) + 2 * R \<le> 0x10080000"
    by (simp_all add: block_fits_def)
  have nz: "red_idxAddr d \<noteq> 0" using I(1) by auto
  have exec: "execReduce P sim dp = fold_result (reduce_argmax_row d) [0..<R] sim"
    using assms(1,2) rfD(1,2) nz enumerator_reduce_kind [of REDUCE_ARGMAX] by (simp add: execReduce_def Let_def R_def)
  have "\<exists>t. fold_result (reduce_argmax_row d) [0..<R] sim = Inr t \<and> ddr_bytes t = ddr_bytes sim
    \<and> (\<forall>i<R. read_sram t (p i) (length (f i)) = Inr (f i) \<and> read_sram t (q i) (length (g i)) = Inr (g i))
    \<and> (\<forall>a. (\<forall>i<R. \<not> inside (p i) (length (f i)) a \<and> \<not> inside (q i) (length (g i)) a) \<longrightarrow> sram_bytes t a = sram_bytes sim a)"
  proof (rule mem.a.fold_two_writes)
    show "p i + length (f i) \<le> unat SRAM_SIZE \<and> q i + length (g i) \<le> unat SRAM_SIZE" if "i < R" for i
      using that D I unfolding len p_def q_def sram_off_def to_nat by (intro conjI) linarith+
    show "apart (p i) (length (f i)) (q j) (length (g j))" if "i < R" "j < R" for i j
      using that DI D(1) I(1) by (auto simp: len p_def q_def sram_off_def apart_def)
    show "apart (p i) (length (f i)) (p j) (length (f j)) \<and> apart (q i) (length (g i)) (q j) (length (g j))" if "i < j" "j < R" for i j
      using that by (simp add: len p_def q_def apart_def)
  next
    fix i and s :: cmodel
    assume i: "i < R"
      and old: "\<And>a. (\<And>j. j < i \<Longrightarrow> \<not> inside (p j) (length (f j)) a \<and> \<not> inside (q j) (length (g j)) a) \<Longrightarrow> sram_bytes s a = sram_bytes sim a"
    have same: "red_elem s d i j = red_elem sim d i j" if j: "j < C" for j
    proof -
      have ix: "i * C + j < R * C" by (rule index_less [OF i j])
      have away: "\<not> inside (p k) (length (f k)) a \<and> \<not> inside (q k) (length (g k)) a"
        if "k < i" and "sram_off (red_srcAddr d) + 2 * (i * C + j) \<le> a" and "a \<le> sram_off (red_srcAddr d) + 2 * (i * C + j) + 1" for k a
        using that ix i rfD(4,6) IS D(1) I(1) by (auto simp: len p_def q_def inside_def apart_def block_fits_def sram_off_def)
      show ?thesis
        unfolding red_elem_def C_def [symmetric] by (intro sram_fp16_cong old away) simp_all
    qed
    have rowf: "row_fold s (reduce_row_addr d i) (red_cols d) (\<lambda>v. \<lparr>vi_value = v, vi_index = 0\<rparr>)
        (\<lambda>j v result. reduceArgmax result \<lparr>vi_value = v, vi_index = of_nat j\<rparr>) = Inr (argmax_upto (red_row sim d i) C)"
      unfolding argmax_upto_def C_def
      by (rule row_fold_ok [OF rfD(4) [unfolded C_def] i rfD(2)]) (rule same [unfolded C_def])
    show "reduce_argmax_row d i s = rbind (write_sram s (p i) (f i)) (\<lambda>s. write_sram s (q i) (g i))"
      unfolding reduce_argmax_row_def rowf rbind_Inr writeFP16_elem [OF rfD(5) i] storeU32_index [OF I i]
      by (simp add: argmax_value rfD(3) p_def q_def f_def g_def)
  qed (simp_all add: mem.wr_a_frame)
  then obtain t where t: "fold_result (reduce_argmax_row d) [0..<R] sim = Inr t" "ddr_bytes t = ddr_bytes sim"
    "\<And>i. i < R \<Longrightarrow> read_sram t (p i) 2 = Inr (f i) \<and> read_sram t (q i) 4 = Inr (g i)"
    by (auto simp: len)
  have "red_dst t d i = fp32ToFp16 (max_upto (red_row sim d i) C)
      \<and> red_idx t d i = Inr (vi_index (argmax_upto (red_row sim d i) C))" if "i < R" for i
    using t(3) [OF that] by (simp add: red_dst_def red_idx_def p_def q_def f_def g_def sram_fp16_written)
  with t exec show ?thesis by (auto simp: R_def C_def)
qed

section \<open>Results of the reductions\<close>

lemma row_nan: "nan32 (red_row sim d i j) = nan16 (red_elem sim d i j)"
  by (simp add: red_row_def nan_widened)

lemma row_key_less:
  "\<not> nan16 (red_elem sim d i j) \<Longrightarrow> \<not> nan16 (red_elem sim d i k) \<Longrightarrow>
    f32_key (red_row sim d i j) < f32_key (red_row sim d i k) \<longleftrightarrow> key16 (red_elem sim d i j) < key16 (red_elem sim d i k)"
  by (simp add: red_row_def widen_key)

text \<open>The maximum of a row in terms of its fp16 elements.\<close>

lemma max_row:
  fixes sim d i
  assumes "0 < C"
  defines "out \<equiv> fp32ToFp16 (max_upto (red_row sim d i) C)"
  shows "if \<exists>j<C. nan16 (red_elem sim d i j) then nan16 out
    else \<not> nan16 out \<and> (\<exists>j<C. out = red_elem sim d i j) \<and> (\<forall>j<C. key16 (red_elem sim d i j) \<le> key16 out)"
proof (cases "\<exists>j<C. nan16 (red_elem sim d i j)")
  case True
  then have "nan32 (max_upto (red_row sim d i) C)" using max_upto_nan [OF assms(1)] by (simp add: row_nan)
  with True show ?thesis by (simp add: out_def narrow_nan16)
next
  case False
  then have nn: "\<not> nan16 (red_elem sim d i j)" if "j < C" for j using that by blast
  then obtain k where k: "k < C" "max_upto (red_row sim d i) C = red_row sim d i k"
    "\<forall>j<C. f32_key (red_row sim d i j) \<le> f32_key (max_upto (red_row sim d i) C)"
    using max_upto_max [OF assms(1), of "red_row sim d i"] by (auto simp: row_nan)
  have "out = red_elem sim d i k"
    unfolding out_def k(2) red_row_def using nn [OF k(1)]
    by (intro fp16_roundtrip_parts(1)) (auto simp: nan16_def finite16_def)
  moreover have "key16 (red_elem sim d i j) \<le> key16 (red_elem sim d i k)" if "j < C" for j
    using k(3) that row_key_less [OF nn [OF k(1)] nn [OF that]] by (auto simp: k(2) not_less [symmetric])
  ultimately show ?thesis using nn k(1) by auto
qed

text \<open>
  REDUCE with MAX writes for every row a value that is an element of the row and not less than any
  element, or a NaN when the row has one.
\<close>

theorem execReduce_max:
  assumes "read_desc sim dp 24 load_ReduceParam = Inr d" and "red_kind d = reduce_kind_value REDUCE_MAX"
    and "red_idxAddr d = 0" and "reduce_fits d"
  shows "\<exists>t. execReduce P sim dp = Inr t \<and> (\<forall>i<unat (red_rows d).
    if \<exists>j<unat (red_cols d). nan16 (red_elem sim d i j) then nan16 (red_dst t d i)
    else (\<exists>j<unat (red_cols d). red_dst t d i = red_elem sim d i j)
      \<and> (\<forall>j<unat (red_cols d). key16 (red_elem sim d i j) \<le> key16 (red_dst t d i)))"
proof -
  obtain t where t: "execReduce P sim dp = Inr t"
    "\<And>i. i < unat (red_rows d) \<Longrightarrow> red_dst t d i = fp32ToFp16 (max_upto (red_row sim d i) (unat (red_cols d)))"
    using exec_max_rows [OF assms] by blast
  have "if \<exists>j<unat (red_cols d). nan16 (red_elem sim d i j) then nan16 (red_dst t d i)
    else (\<exists>j<unat (red_cols d). red_dst t d i = red_elem sim d i j)
      \<and> (\<forall>j<unat (red_cols d). key16 (red_elem sim d i j) \<le> key16 (red_dst t d i))"
    if "i < unat (red_rows d)" for i
    using max_row [OF reduce_fitsD(3) [OF assms(4)], of sim d i] t(2) [OF that] by (simp split: if_splits)
  with t(1) show ?thesis by blast
qed

text \<open>
  C31. REDUCE with ARGMAX over rows without NaN writes the maximum of each row and the index of
  its first occurrence.
\<close>

theorem execReduce_argmax:
  assumes "read_desc sim dp 24 load_ReduceParam = Inr d" and "red_kind d = reduce_kind_value REDUCE_ARGMAX"
    and "argmax_fits d"
  shows "\<exists>t. execReduce P sim dp = Inr t \<and> (\<forall>i<unat (red_rows d). \<exists>k<unat (red_cols d).
    red_idx t d i = Inr (of_nat k)
    \<and> (if \<exists>j<unat (red_cols d). nan16 (red_elem sim d i j)
       then nan16 (red_dst t d i) \<and> nan16 (red_elem sim d i k) \<and> (\<forall>j<k. \<not> nan16 (red_elem sim d i j))
       else key16 (red_elem sim d i k) = key16 (red_dst t d i)
        \<and> (\<forall>j<unat (red_cols d). key16 (red_elem sim d i j) \<le> key16 (red_elem sim d i k))
        \<and> (\<forall>j<k. key16 (red_elem sim d i j) < key16 (red_elem sim d i k))))"
proof -
  define C where "C = unat (red_cols d)"
  have rf: "reduce_fits d" using assms(3) by (simp add: argmax_fits_def Let_def)
  have C: "0 < C" using reduce_fitsD(3) [OF rf] by (simp add: C_def)
  obtain t where t: "execReduce P sim dp = Inr t"
    "\<And>i. i < unat (red_rows d) \<Longrightarrow> red_dst t d i = fp32ToFp16 (max_upto (red_row sim d i) C)
      \<and> red_idx t d i = Inr (vi_index (argmax_upto (red_row sim d i) C))"
    using exec_argmax_rows [OF assms, of P] by (auto simp: C_def)
  have "\<exists>k<C. red_idx t d i = Inr (of_nat k)
    \<and> (if \<exists>j<C. nan16 (red_elem sim d i j)
       then nan16 (red_dst t d i) \<and> nan16 (red_elem sim d i k) \<and> (\<forall>j<k. \<not> nan16 (red_elem sim d i j))
       else key16 (red_elem sim d i k) = key16 (red_dst t d i)
        \<and> (\<forall>j<C. key16 (red_elem sim d i j) \<le> key16 (red_elem sim d i k))
        \<and> (\<forall>j<k. key16 (red_elem sim d i j) < key16 (red_elem sim d i k)))"
    if i: "i < unat (red_rows d)" for i
  proof -
    from argmax_index [OF C, of "red_row sim d i"] obtain k where k: "k < C"
      "vi_index (argmax_upto (red_row sim d i) C) = of_nat k"
      "if \<exists>j<C. nan32 (red_row sim d i j) then nan32 (red_row sim d i k) \<and> (\<forall>j<k. \<not> nan32 (red_row sim d i j))
       else f32_key (red_row sim d i k) = f32_key (max_upto (red_row sim d i) C)
         \<and> (\<forall>j<k. f32_key (red_row sim d i j) < f32_key (red_row sim d i k))" by blast
    note mx = max_row [OF C, of sim d i]
    show ?thesis
    proof (cases "\<exists>j<C. nan16 (red_elem sim d i j)")
      case True
      with k mx t(2) [OF i] show ?thesis by (auto simp: row_nan intro!: exI [of _ k])
    next
      case False
      then have nn: "\<not> nan16 (red_elem sim d i j)" if "j < C" for j using that by blast
      have clean: "(\<exists>j<C. nan16 (red_elem sim d i j)) = False" using False by simp
      from mx [unfolded clean if_False] obtain m where m: "m < C" "red_dst t d i = red_elem sim d i m"
        "\<forall>j<C. key16 (red_elem sim d i j) \<le> key16 (red_elem sim d i m)" using t(2) [OF i] by auto
      have top: "\<forall>j<C. f32_key (red_row sim d i j) \<le> f32_key (max_upto (red_row sim d i) C)"
        using max_upto_max [OF C, of "red_row sim d i"] nn by (simp add: row_nan)
      have kk: "f32_key (red_row sim d i k) = f32_key (max_upto (red_row sim d i) C)"
        "\<forall>j<k. f32_key (red_row sim d i j) < f32_key (red_row sim d i k)"
        using k(3) unfolding row_nan clean if_False by blast+
      have le: "key16 (red_elem sim d i j) \<le> key16 (red_elem sim d i k)" if "j < C" for j
        using top that row_key_less [OF nn [OF k(1)] nn [OF that]] by (auto simp: kk(1) not_less [symmetric])
      have "key16 (red_elem sim d i k) = key16 (red_dst t d i)"
        using le [OF m(1)] m(3) k(1) unfolding m(2) by (intro antisym) simp_all
      moreover have "\<forall>j<k. key16 (red_elem sim d i j) < key16 (red_elem sim d i k)"
        using kk(2) row_key_less [OF nn nn [OF k(1)]] k(1) by auto
      ultimately show ?thesis using k(1,2) t(2) [OF i] False le by (auto intro!: exI [of _ k])
    qed
  qed
  with t(1) show ?thesis unfolding C_def by blast
qed

section \<open>Sums of integers\<close>

lemma sum_upto_Suc:
  "0 < n \<Longrightarrow> sum_upto P sq v (Suc n) = f32_add P (sum_upto P sq v n) (square P sq (v n))"
  by (cases n) (simp_all add: sum_upto_def)

lemma square_int:
  assumes "fixed32 149 a x" and "\<bar>if sq then x * x else x\<bar> < 2 ^ 24"
  shows "fixed32 149 (square P sq a) (if sq then x * x else x)"
  using assms fixed32_mul [OF assms(1,1), of 149 P] by (cases sq) (simp_all add: square_def)

lemma sum_upto_int:
  assumes "0 < n" and "\<And>j. j < n \<Longrightarrow> fixed32 149 (v j) (x j)"
    and "(\<Sum>j<n. \<bar>if sq then x j * x j else x j\<bar>) < 2 ^ 24"
  shows "fixed32 149 (sum_upto P sq v n) (\<Sum>j<n. if sq then x j * x j else x j)"
  using assms
proof (induction n rule: nat_induct_1)
  case 1
  then show ?case using square_int [of "v 0" "x 0" sq P] by (simp add: sum_upto_def)
next
  case (Suc n)
  define f where "f = (\<lambda>j. if sq then x j * x j else x j)"
  have b: "(\<Sum>j<n. \<bar>f j\<bar>) + \<bar>f n\<bar> < 2 ^ 24" using Suc.prems(2) by (simp add: f_def)
  moreover have "0 \<le> (\<Sum>j<n. \<bar>f j\<bar>)" by (simp add: sum_nonneg)
  ultimately have small: "\<bar>f n\<bar> < 2 ^ 24" "(\<Sum>j<n. \<bar>f j\<bar>) < 2 ^ 24" by linarith+
  have ih: "fixed32 149 (sum_upto P sq v n) (\<Sum>j<n. f j)"
    using Suc.IH Suc.prems(1) small(2) by (simp add: f_def)
  have new: "fixed32 149 (square P sq (v n)) (f n)"
    using square_int [of "v n" "x n" sq P] Suc.prems(1) small(1) by (simp add: f_def)
  have "\<bar>(\<Sum>j<n. f j) + f n\<bar> < 2 ^ 24"
    using b sum_abs [of f "{..<n}"] by linarith
  from fixed32_add [OF ih new this] show ?case by (simp add: sum_upto_Suc [OF Suc(1)] f_def)
qed

text \<open>
  REDUCE with SUM or SQUARE_SUM over rows of integers writes the exact sum, or sum of squares,
  when the partial sums stay in the exact range.
\<close>

theorem execReduce_sum_of_integers:
  assumes "read_desc sim dp 24 load_ReduceParam = Inr d"
    and "red_kind d = reduce_kind_value (if sq then REDUCE_SQUARE_SUM else REDUCE_SUM)"
    and "red_idxAddr d = 0" and "reduce_fits d"
    and "\<forall>i<unat (red_rows d). \<forall>j<unat (red_cols d). finite16 (red_elem sim d i j) \<and> val16 (red_elem sim d i j) = of_int (x i j)"
    and "\<forall>i<unat (red_rows d). (\<Sum>j<unat (red_cols d). \<bar>if sq then x i j * x i j else x i j\<bar>) < 2048"
  shows "\<exists>t. execReduce P sim dp = Inr t \<and> (\<forall>i<unat (red_rows d). finite16 (red_dst t d i)
    \<and> val16 (red_dst t d i) = of_int (\<Sum>j<unat (red_cols d). if sq then x i j * x i j else x i j))"
proof -
  obtain t where t: "execReduce P sim dp = Inr t"
    "\<And>i. i < unat (red_rows d) \<Longrightarrow> red_dst t d i = fp32ToFp16 (sum_upto P sq (red_row sim d i) (unat (red_cols d)))"
    using exec_sum_rows [OF assms(1-4)] by blast
  have "finite16 (red_dst t d i) \<and> val16 (red_dst t d i) = of_int (\<Sum>j<unat (red_cols d). if sq then x i j * x i j else x i j)"
    if i: "i < unat (red_rows d)" for i
  proof -
    have b: "(\<Sum>j<unat (red_cols d). \<bar>if sq then x i j * x i j else x i j\<bar>) < 2048" using assms(6) i by blast
    have "fixed32 149 (red_row sim d i j) (x i j)" if "j < unat (red_cols d)" for j
      unfolding red_row_def using assms(5) i that by (intro widen_int) auto
    then have "fixed32 149 (sum_upto P sq (red_row sim d i) (unat (red_cols d))) (\<Sum>j<unat (red_cols d). if sq then x i j * x i j else x i j)"
      using b by (intro sum_upto_int reduce_fitsD(3) [OF assms(4)]) auto
    moreover have "\<bar>\<Sum>j<unat (red_cols d). if sq then x i j * x i j else x i j\<bar> < 2048"
      using b sum_abs [of "\<lambda>j. if sq then x i j * x i j else x i j" "{..<unat (red_cols d)}"] by linarith
    ultimately show ?thesis unfolding t(2) [OF i] using narrow_int by blast
  qed
  with t(1) show ?thesis by blast
qed

section \<open>Concrete runs\<close>

text \<open>One row \<open>[1, 3, 3]\<close>: the maximum is 3, first at index 1, the sum is 7.\<close>

definition sample_reduce :: "ReduceKind \<Rightarrow> ReduceParam" where
  "sample_reduce kind = \<lparr>red_dstAddr = 0x10000010, red_idxAddr = (if kind = REDUCE_ARGMAX then 0x10000020 else 0),
     red_srcAddr = 0x10000000, red_rows = 1, red_cols = 3, red_kind = reduce_kind_value kind\<rparr>"

definition sample_reduce_sim :: "ReduceKind \<Rightarrow> cmodel" where
  "sample_reduce_sim kind = \<lparr>ddr_bytes = poke (\<lambda>_. 0) 0x100 (bytes_of_ReduceParam (sample_reduce kind)),
     sram_bytes = poke (\<lambda>_. 0) 0 (concat (map bytes_of_u16 [0x3C00, 0x4200, 0x4200]))\<rparr>"

lemma sample_reduce_facts:
  shows "read_desc (sample_reduce_sim kind) 0x40000100 24 load_ReduceParam = Inr (sample_reduce kind)"
    and "reduce_fits (sample_reduce kind)" and "argmax_fits (sample_reduce REDUCE_ARGMAX)"
    and "unat (red_rows (sample_reduce kind)) = 1" and "unat (red_cols (sample_reduce kind)) = 3"
    and "red_kind (sample_reduce kind) = reduce_kind_value kind"
    and "red_idxAddr (sample_reduce kind) = (if kind = REDUCE_ARGMAX then 0x10000020 else 0)"
    and "red_elem (sample_reduce_sim kind) (sample_reduce kind) 0 j
      = (if j = 0 then 0x3C00 else if j < 3 then 0x4200 else 0)"
proof -
  show "read_desc (sample_reduce_sim kind) 0x40000100 24 load_ReduceParam = Inr (sample_reduce kind)"
    by (rule reduce_desc.read_poke [of _ "0x100"]) (simp_all add: ddr_eq_Inr sample_reduce_sim_def)
  show "red_elem (sample_reduce_sim kind) (sample_reduce kind) 0 j = (if j = 0 then 0x3C00 else if j < 3 then 0x4200 else 0)"
  proof -
    consider "j = 0" | "j = 1" | "j = 2" | "3 \<le> j" by linarith
    then show ?thesis
      by cases (simp_all add: red_elem_def sample_reduce_def sample_reduce_sim_def sram_fp16_def sram_off_def
        poke_def bytes_of_u16_def u16_of_bytes_def)
  qed
qed (simp_all add: sample_reduce_def reduce_fits_def argmax_fits_def block_fits_def apart_def)

lemma sample_reduce_keys: "key16 0x3C00 = 0x3C00" "key16 0x4200 = 0x4200" "\<not> nan16 0x3C00" "\<not> nan16 0x4200"
  by (simp_all add: key16_def signed_def sgn16_def rest16_def nan16_def)

lemma sample_reduce_clean:
  "(\<exists>j<3. nan16 (red_elem (sample_reduce_sim kind) (sample_reduce kind) 0 j)) = False"
  by (auto simp: sample_reduce_facts(8) sample_reduce_keys)

theorem execReduce_max_witness:
  "\<exists>t. execReduce sample_platform (sample_reduce_sim REDUCE_MAX) 0x40000100 = Inr t
    \<and> 0x4200 \<le> key16 (red_dst t (sample_reduce REDUCE_MAX) 0)"
proof -
  have "red_kind (sample_reduce REDUCE_MAX) = reduce_kind_value REDUCE_MAX" "red_idxAddr (sample_reduce REDUCE_MAX) = 0"
    by (simp_all add: sample_reduce_facts)
  note run = execReduce_max [OF sample_reduce_facts(1) this sample_reduce_facts(2), of sample_platform,
      unfolded sample_reduce_facts(4,5)]
  from run obtain t where t: "execReduce sample_platform (sample_reduce_sim REDUCE_MAX) 0x40000100 = Inr t"
    and r: "\<forall>i<1. if \<exists>j<3. nan16 (red_elem (sample_reduce_sim REDUCE_MAX) (sample_reduce REDUCE_MAX) i j)
      then nan16 (red_dst t (sample_reduce REDUCE_MAX) i)
      else (\<exists>j<3. red_dst t (sample_reduce REDUCE_MAX) i = red_elem (sample_reduce_sim REDUCE_MAX) (sample_reduce REDUCE_MAX) i j)
        \<and> (\<forall>j<3. key16 (red_elem (sample_reduce_sim REDUCE_MAX) (sample_reduce REDUCE_MAX) i j)
          \<le> key16 (red_dst t (sample_reduce REDUCE_MAX) i))" by blast
  have "key16 (red_elem (sample_reduce_sim REDUCE_MAX) (sample_reduce REDUCE_MAX) 0 1)
      \<le> key16 (red_dst t (sample_reduce REDUCE_MAX) 0)"
    using r [rule_format, OF zero_less_one, unfolded sample_reduce_clean if_False] by simp
  with t show ?thesis unfolding sample_reduce_facts(8) by (simp add: sample_reduce_keys)
qed

theorem execReduce_argmax_witness:
  "\<exists>t. execReduce sample_platform (sample_reduce_sim REDUCE_ARGMAX) 0x40000100 = Inr t
    \<and> red_idx t (sample_reduce REDUCE_ARGMAX) 0 = Inr 1"
proof -
  define e where "e = (\<lambda>i. red_elem (sample_reduce_sim REDUCE_ARGMAX) (sample_reduce REDUCE_ARGMAX) i)"
  have e: "e 0 j = (if j = 0 then 0x3C00 else if j < 3 then 0x4200 else 0)" for j
    unfolding e_def by (rule sample_reduce_facts(8))
  have clean: "(\<exists>j<3. nan16 (e 0 j)) = False" unfolding e_def by (rule sample_reduce_clean)
  from execReduce_argmax [OF sample_reduce_facts(1,6,3), of sample_platform, unfolded sample_reduce_facts(4,5)]
  obtain t where t: "execReduce sample_platform (sample_reduce_sim REDUCE_ARGMAX) 0x40000100 = Inr t"
    and r: "\<forall>i<1. \<exists>k<3. red_idx t (sample_reduce REDUCE_ARGMAX) i = Inr (of_nat k)
      \<and> (if \<exists>j<3. nan16 (e i j)
        then nan16 (red_dst t (sample_reduce REDUCE_ARGMAX) i) \<and> nan16 (e i k) \<and> (\<forall>j<k. \<not> nan16 (e i j))
        else key16 (e i k) = key16 (red_dst t (sample_reduce REDUCE_ARGMAX) i)
          \<and> (\<forall>j<3. key16 (e i j) \<le> key16 (e i k)) \<and> (\<forall>j<k. key16 (e i j) < key16 (e i k)))"
    unfolding e_def by blast
  from r [rule_format, OF zero_less_one, unfolded clean if_False] obtain k where
    k: "k < 3" "red_idx t (sample_reduce REDUCE_ARGMAX) 0 = Inr (of_nat k)"
    "\<forall>j<3. key16 (e 0 j) \<le> key16 (e 0 k)" "\<forall>j<k. key16 (e 0 j) < key16 (e 0 k)" by blast
  have "k \<noteq> 0" using k(3) [rule_format, of 1] by (cases "k = 0") (simp_all add: e sample_reduce_keys)
  moreover have "\<not> 1 < k" using k(1) k(4) [rule_format, of 1] by (auto simp: e sample_reduce_keys)
  ultimately have "k = 1" by simp
  with t k(2) show ?thesis by simp
qed

theorem execReduce_sum_of_integers_witness:
  "\<exists>t. execReduce sample_platform (sample_reduce_sim REDUCE_SUM) 0x40000100 = Inr t
    \<and> val16 (red_dst t (sample_reduce REDUCE_SUM) 0) = 7"
proof -
  define x :: "nat \<Rightarrow> nat \<Rightarrow> int" where "x = (\<lambda>i j. if j = 0 then 1 else 3)"
  have v: "finite16 0x3C00 \<and> val16 0x3C00 = 1" "finite16 0x4200 \<and> val16 0x4200 = 3"
    by (simp_all add: finite16_def val16_def sgn16_def rest16_def mag_def)
  have three: "(\<Sum>j<3. f j) = f 0 + f 1 + f (2 :: nat)" for f :: "nat \<Rightarrow> int"
    by (simp add: numeral_3_eq_3 numeral_2_eq_2)
  have "\<exists>t. execReduce sample_platform (sample_reduce_sim REDUCE_SUM) 0x40000100 = Inr t
    \<and> (\<forall>i<1. finite16 (red_dst t (sample_reduce REDUCE_SUM) i)
      \<and> val16 (red_dst t (sample_reduce REDUCE_SUM) i) = of_int (\<Sum>j<3. if False then x i j * x i j else x i j))"
    by (rule execReduce_sum_of_integers [OF sample_reduce_facts(1) _ _ sample_reduce_facts(2), unfolded sample_reduce_facts(4,5)])
      (auto simp: sample_reduce_facts x_def v three)
  then show ?thesis by (auto simp: three x_def)
qed

end
