(* ===== verification/Exec.thy ===== *)
theory Exec
  imports ExecDma ExecMatmul ExecEwise ExecAct ExecReduce
begin

text \<open>
  \<open>CModel::exec\<close> of runtime/lib/cmodel_exec.cpp, the dispatch on the opcode, and what each
  instruction leaves alone: only \<open>DMA_STORE\<close> writes DDR, and it does not write SRAM.
\<close>

definition exec :: "platform \<Rightarrow> cmodel \<Rightarrow> Instruction \<Rightarrow> cmodel result" where
  "exec P sim inst = (case enumerator opcodes (opcode inst) of
       Some DMA_LOAD \<Rightarrow> execDmaLoad sim (descPtr inst)
     | Some DMA_STORE \<Rightarrow> execDmaStore sim (descPtr inst)
     | Some MATMUL \<Rightarrow> execMatmul P sim (descPtr inst)
     | Some ELEMENTWISE_ADD \<Rightarrow> execElementwise P sim (descPtr inst) ELEMENTWISE_ADD
     | Some ELEMENTWISE_SUB \<Rightarrow> execElementwise P sim (descPtr inst) ELEMENTWISE_SUB
     | Some ELEMENTWISE_MUL \<Rightarrow> execElementwise P sim (descPtr inst) ELEMENTWISE_MUL
     | Some ELEMENTWISE_DIV \<Rightarrow> execElementwise P sim (descPtr inst) ELEMENTWISE_DIV
     | Some ACT \<Rightarrow> execAct P sim (descPtr inst)
     | Some REDUCE \<Rightarrow> execReduce P sim (descPtr inst)
     | Some SYNC \<Rightarrow> Inr sim
     | None \<Rightarrow> rbind (eclipse_assert False ''Instruction must have opcode!'') (\<lambda>_. Inr sim))"

section \<open>Frames\<close>

named_theorems keeps_ddr \<open>operations that do not change DDR\<close>

lemma write_sram_keeps [keeps_ddr]: "write_sram s p bs = Inr t \<Longrightarrow> ddr_bytes t = ddr_bytes s"
  by (rule mem.wr_a_frame)

lemma writeFP16_keeps [keeps_ddr]: "writeFP16 s addr v = Inr t \<Longrightarrow> ddr_bytes t = ddr_bytes s"
  by (auto simp: writeFP16_def rbind_eq_Inr dest: keeps_ddr)

lemma storeU32_keeps [keeps_ddr]: "storeU32_sram s addr v = Inr t \<Longrightarrow> ddr_bytes t = ddr_bytes s"
  by (auto simp: storeU32_sram_def rbind_eq_Inr dest: keeps_ddr)

lemma fold_keeps:
  assumes "fold_result body xs s = Inr t"
    and "\<And>x s t. body x s = Inr t \<Longrightarrow> ddr_bytes t = ddr_bytes (s :: cmodel)"
  shows "ddr_bytes t = ddr_bytes s"
  by (rule fold_result_invariant [where I = "\<lambda>u. ddr_bytes u = ddr_bytes s", OF assms(1)])
    (use assms(2) in auto)

lemma dma_load_row_keeps [keeps_ddr]: "dma_load_row d i s = Inr t \<Longrightarrow> ddr_bytes t = ddr_bytes s"
  by (auto simp: dma_load_row_def rbind_eq_Inr dest: keeps_ddr)

lemma execDmaLoad_keeps [keeps_ddr]: "execDmaLoad s dp = Inr t \<Longrightarrow> ddr_bytes t = ddr_bytes s"
  by (auto simp: execDmaLoad_def rbind_eq_Inr elim!: fold_keeps dest: keeps_ddr)

lemma matmul_cell_keeps [keeps_ddr]: "matmul_cell P d m n s = Inr t \<Longrightarrow> ddr_bytes t = ddr_bytes s"
  by (auto simp: matmul_cell_def rbind_eq_Inr Let_def dest: keeps_ddr)

lemma execMatmul_keeps [keeps_ddr]: "execMatmul P s dp = Inr t \<Longrightarrow> ddr_bytes t = ddr_bytes s"
  by (auto simp: execMatmul_def rbind_eq_Inr Let_def elim!: fold_keeps dest: keeps_ddr)

lemma ewise_write_keeps [keeps_ddr]: "ewise_write P op s addr a b = Inr t \<Longrightarrow> ddr_bytes t = ddr_bytes s"
  by (cases op) (auto simp: ewise_write_def rbind_eq_Inr dest: keeps_ddr)

lemma ewise_step_keeps [keeps_ddr]: "ewise_step P op d i s = Inr t \<Longrightarrow> ddr_bytes t = ddr_bytes s"
  by (auto simp: ewise_step_def rbind_eq_Inr Let_def dest: keeps_ddr)

lemma execElementwise_keeps [keeps_ddr]: "execElementwise P s dp op = Inr t \<Longrightarrow> ddr_bytes t = ddr_bytes s"
  by (auto simp: execElementwise_def rbind_eq_Inr Let_def elim!: fold_keeps dest: keeps_ddr)

lemma act_step_keeps [keeps_ddr]: "act_step P kind d i s = Inr t \<Longrightarrow> ddr_bytes t = ddr_bytes s"
  by (auto simp: act_step_def rbind_eq_Inr dest: keeps_ddr)

lemma execAct_keeps [keeps_ddr]: "execAct P s dp = Inr t \<Longrightarrow> ddr_bytes t = ddr_bytes s"
  by (auto simp: execAct_def rbind_eq_Inr split: option.splits elim!: fold_keeps dest: keeps_ddr)

lemma reduce_rows_keep [keeps_ddr]:
  "reduce_max_row d i s = Inr t \<Longrightarrow> ddr_bytes t = ddr_bytes s"
  "reduce_sum_row P sq d i s = Inr t \<Longrightarrow> ddr_bytes t = ddr_bytes s"
  "reduce_argmax_row d i s = Inr t \<Longrightarrow> ddr_bytes t = ddr_bytes s"
  by (auto simp: reduce_max_row_def reduce_sum_row_def reduce_argmax_row_def rbind_eq_Inr dest!: keeps_ddr)

lemma execReduce_keeps [keeps_ddr]: "execReduce P s dp = Inr t \<Longrightarrow> ddr_bytes t = ddr_bytes s"
proof -
  assume "execReduce P s dp = Inr t"
  then obtain d k where "enumerator reduce_kinds (red_kind d) = Some k"
    and "(case k of REDUCE_MAX \<Rightarrow> fold_result (reduce_max_row d) [0..<unat (red_rows d)] s
          | REDUCE_SUM \<Rightarrow> fold_result (reduce_sum_row P False d) [0..<unat (red_rows d)] s
          | REDUCE_SQUARE_SUM \<Rightarrow> fold_result (reduce_sum_row P True d) [0..<unat (red_rows d)] s
          | REDUCE_ARGMAX \<Rightarrow> fold_result (reduce_argmax_row d) [0..<unat (red_rows d)] s) = Inr t"
    unfolding execReduce_def Let_def rbind_eq_Inr by (auto split: option.splits)
  then show ?thesis by (cases k) (auto elim!: fold_keeps dest: keeps_ddr)
qed

lemma dma_store_row_keeps: "dma_store_row d i s = Inr t \<Longrightarrow> sram_bytes t = sram_bytes s"
  by (auto simp: dma_store_row_def rbind_eq_Inr dest: mem.wr_b_frame)

lemma dma_store_rows_keeps: "dma_store_rows dp i s = Inr t \<Longrightarrow> sram_bytes t = sram_bytes s"
proof (induction dp i s rule: dma_store_rows.induct)
  case (1 dp i s)
  from "1.prems" obtain d where d: "read_desc s dp 24 load_DMAParam = Inr d"
    and r: "(if i < dma_rows d then rbind (dma_store_row d i s) (dma_store_rows dp (i + 1)) else Inr s) = Inr t"
    by (subst (asm) dma_store_rows.simps) (auto simp: rbind_eq_Inr)
  show ?case
  proof (cases "i < dma_rows d")
    case True
    with r obtain u where "dma_store_row d i s = Inr u" "dma_store_rows dp (i + 1) u = Inr t"
      by (auto simp: rbind_eq_Inr)
    with "1.IH" [OF d True] dma_store_row_keeps [of d i s u] show ?thesis by auto
  next
    case False
    with r show ?thesis by simp
  qed
qed

lemma execDmaStore_keeps: "execDmaStore s dp = Inr t \<Longrightarrow> sram_bytes t = sram_bytes s"
  by (auto simp: execDmaStore_def rbind_eq_Inr dest: dma_store_rows_keeps)

text \<open>
  C33. Whatever the instruction and its descriptor, exec changes DDR only for DMA_STORE, and for
  DMA_STORE it does not change SRAM.
\<close>

theorem exec_frame:
  assumes "exec P sim inst = Inr t"
  shows "if opcode inst = opcode_value DMA_STORE then sram_bytes t = sram_bytes sim else ddr_bytes t = ddr_bytes sim"
proof (cases "enumerator opcodes (opcode inst)")
  case None
  with assms show ?thesis by (simp add: exec_def)
next
  case (Some op)
  then have v: "opcode inst = opcode_value op" by (rule enumerator_opcodeD)
  with assms Some show ?thesis
    by (cases op) (auto simp: exec_def dest: keeps_ddr execDmaStore_keeps)
qed

text \<open>
  An instruction whose opcode is none of the ten is refused by an assertion.
\<close>

theorem exec_unknown_opcode:
  assumes "10 \<le> unat (opcode inst)"
  shows "exec P sim inst = Inl (AssertFail ''Instruction must have opcode!'')"
proof -
  have "enumerator opcodes (opcode inst) = None" using assms by (simp add: enumerator_None opcodes_def)
  then show ?thesis by (simp add: exec_def)
qed

theorem exec_unknown_opcode_witness:
  "exec sample_platform CModel_init \<lparr>opcode = 77, descPtr = 0x40000100\<rparr>
    = Inl (AssertFail ''Instruction must have opcode!'')"
  by (rule exec_unknown_opcode) simp

theorem exec_frame_witness:
  "\<exists>t. exec sample_platform sample_act_sim \<lparr>opcode = 7, descPtr = 0x40000100\<rparr> = Inr t
    \<and> ddr_bytes t = ddr_bytes sample_act_sim"
proof -
  have "enumerator opcodes 7 = Some ACT" using enumerator_opcode [of ACT] by simp
  then have run: "exec sample_platform sample_act_sim \<lparr>opcode = 7, descPtr = 0x40000100\<rparr>
      = execAct sample_platform sample_act_sim 0x40000100" by (simp add: exec_def)
  obtain t where t: "execAct sample_platform sample_act_sim 0x40000100 = Inr t"
    using act_exec [OF sample_act_facts(1,2,3)] by blast
  with exec_frame [of sample_platform sample_act_sim "\<lparr>opcode = 7, descPtr = 0x40000100\<rparr>" t] run
  show ?thesis by simp
qed

end
