(* ===== verification/Cycles.thy ===== *)
theory Cycles
  imports CModel
begin

text \<open>
  runtime/lib/cmodel_cycles.cpp: the cycle estimate of each instruction, in the integer types of
  the source (\<open>uint32_t\<close> row arithmetic, \<open>uint64_t\<close> totals).  The lemmas give the
  estimates as natural numbers where nothing wraps around.
\<close>

section \<open>The estimates\<close>

definition dma_row_bursts :: "DMAParam \<Rightarrow> u32 \<Rightarrow> nat \<Rightarrow> u32" where
  "dma_row_bursts d stride i =
     (let rowBytes = ucast (ucast (dma_cols d) * DTYPE_SIZE);
          start = dma_ddrAddr d + stride * of_nat i
      in (start + rowBytes - 1) div DMA_BURST_BYTES - start div DMA_BURST_BYTES + 1)"

definition cyclesDma :: "cmodel \<Rightarrow> u32 \<Rightarrow> bool \<Rightarrow> u64 result" where
  "cyclesDma sim dp isLoad =
     rbind (read_desc sim dp 24 load_DMAParam) (\<lambda>d.
       let stride = (if isLoad then dma_srcStride d else dma_dstStride d);
           bursts = fold (\<lambda>i b. b + ucast (dma_row_bursts d stride i)) [0..<unat (dma_rows d)] (0 :: u64)
       in Inr (ceilDiv (bursts * ucast DMA_BURST_BYTES) (ucast DMA_BYTES_PER_CYCLE) + ucast DMA_FIXED_OVERHEAD))"

definition cyclesMatmul :: "cmodel \<Rightarrow> u32 \<Rightarrow> u64 result" where
  "cyclesMatmul sim dp =
     rbind (read_desc sim dp 32 load_MatmulParam) (\<lambda>d.
       Inr (ceilDiv (ucast (mm_M d * mm_N d)) (ucast MAC_PER_CYCLE) * ucast (mm_K d)))"

definition cyclesElementwise :: "cmodel \<Rightarrow> u32 \<Rightarrow> u64 result" where
  "cyclesElementwise sim dp =
     rbind (read_desc sim dp 28 load_EwiseParam) (\<lambda>d.
       Inr (ceilDiv (ucast (ew_rows d) * ucast (ew_cols d)) (ucast ELEM_PER_CYCLE)))"

definition cyclesAct :: "cmodel \<Rightarrow> u32 \<Rightarrow> u64 result" where
  "cyclesAct sim dp =
     rbind (read_desc sim dp 32 load_ActParam) (\<lambda>d.
       if act_kind d = act_kind_value RELU then Inr (ceilDiv (ucast (act_n d)) (ucast ELEM_PER_CYCLE))
       else Inr (ceilDiv (ucast (act_n d)) (ucast SFU_ELEM_PER_CYCLE) + ucast ACT_FIXED_OVERHEAD))"

definition cyclesReduce :: "cmodel \<Rightarrow> u32 \<Rightarrow> u64 result" where
  "cyclesReduce sim dp =
     rbind (read_desc sim dp 24 load_ReduceParam) (\<lambda>d.
       let elemPerCycle = (if red_kind d = reduce_kind_value REDUCE_ARGMAX then ARGMAX_ELEM_PER_CYCLE else ELEM_PER_CYCLE)
       in Inr (ceilDiv (ucast (red_rows d) * ucast (red_cols d)) (ucast elemPerCycle)
            + ucast (red_rows d) * ucast REDUCE_TREE_STEPS))"

definition computeCycles :: "cmodel \<Rightarrow> Instruction \<Rightarrow> u64 result" where
  "computeCycles sim inst = (case enumerator opcodes (opcode inst) of
       Some DMA_LOAD \<Rightarrow> cyclesDma sim (descPtr inst) True
     | Some DMA_STORE \<Rightarrow> cyclesDma sim (descPtr inst) False
     | Some MATMUL \<Rightarrow> cyclesMatmul sim (descPtr inst)
     | Some ELEMENTWISE_ADD \<Rightarrow> cyclesElementwise sim (descPtr inst)
     | Some ELEMENTWISE_SUB \<Rightarrow> cyclesElementwise sim (descPtr inst)
     | Some ELEMENTWISE_MUL \<Rightarrow> cyclesElementwise sim (descPtr inst)
     | Some ELEMENTWISE_DIV \<Rightarrow> cyclesElementwise sim (descPtr inst)
     | Some ACT \<Rightarrow> cyclesAct sim (descPtr inst)
     | Some REDUCE \<Rightarrow> cyclesReduce sim (descPtr inst)
     | Some SYNC \<Rightarrow> Inr 0
     | None \<Rightarrow> rbind (eclipse_assert False ''computeCycles: opcode not implemented'') (\<lambda>_. Inr 0))"

section \<open>The estimates as natural numbers\<close>

definition ceil_div :: "nat \<Rightarrow> nat \<Rightarrow> nat" where
  "ceil_div a b = (a + b - 1) div b"

lemma ceil_div_bounds: "0 < b \<Longrightarrow> a \<le> b * ceil_div a b \<and> b * ceil_div a b < a + b"
proof -
  assume b: "0 < b"
  have "b * ((a + b - 1) div b) + (a + b - 1) mod b = a + b - 1" by (rule mult_div_mod_eq)
  moreover have "(a + b - 1) mod b < b" using b by (rule mod_less_divisor)
  ultimately show ?thesis using b unfolding ceil_div_def by linarith
qed

lemma unat_ceilDiv:
  assumes "unat a + unat b < 2 ^ 64" and "0 < unat b"
  shows "unat (ceilDiv a b) = ceil_div (unat a) (unat b)"
proof -
  have ab: "unat (a + b) = unat a + unat b" using assms(1) by (intro unat_add_no_wrap) simp
  have "unat (a + b - 1) = unat a + unat b - 1"
    using assms(2) ab by (subst unat_sub) (simp_all add: word_le_nat_alt)
  then show ?thesis by (simp add: ceilDiv_def ceil_div_def unat_div)
qed

lemma unat_cycle_constants [to_nat]:
  "unat DMA_BURST_BYTES = 16" "unat DMA_BYTES_PER_CYCLE = 32" "unat DMA_FIXED_OVERHEAD = 16"
  "unat MAC_PER_CYCLE = 256" "unat ELEM_PER_CYCLE = 128" "unat SFU_ELEM_PER_CYCLE = 32"
  "unat ACT_FIXED_OVERHEAD = 8" "unat REDUCE_TREE_STEPS = 7" "unat ARGMAX_ELEM_PER_CYCLE = 64"
  by (simp_all add: DMA_BURST_BYTES_def DMA_BYTES_PER_CYCLE_def DMA_FIXED_OVERHEAD_def MAC_PER_CYCLE_def
      ELEM_PER_CYCLE_def SFU_ELEM_PER_CYCLE_def ACT_FIXED_OVERHEAD_def REDUCE_TREE_STEPS_def ARGMAX_ELEM_PER_CYCLE_def unat_div)

lemma unat_ucast_u64 [simp]: "unat (ucast (x :: u32) :: u64) = unat x"
  using unat_u32_less [of x] by (intro unat_ucast_small) simp

lemma u32_prod_less: "unat (x :: u32) * unat (y :: u32) \<le> 0xFFFFFFFE00000001"
proof -
  have "unat x * unat y \<le> 0xFFFFFFFF * 0xFFFFFFFF"
    using unat_u32_less [of x] unat_u32_less [of y] by (intro mult_le_mono) simp_all
  then show ?thesis by simp
qed

lemma unat_u32_prod: "unat (ucast (x :: u32) * ucast (y :: u32) :: u64) = unat x * unat y"
  using u32_prod_less [of x y] by (subst unat_mult_no_wrap) simp_all

lemma ceil_div_le: "0 < b \<Longrightarrow> ceil_div a b \<le> a"
proof -
  assume b: "0 < b"
  show "ceil_div a b \<le> a"
  proof (cases "a = 0")
    case True
    with b show ?thesis by (simp add: ceil_div_def)
  next
    case False
    then have "b * ceil_div a b < a + b" using ceil_div_bounds [OF b, of a] by simp
    also have "a + b \<le> b * a + b" using b by (cases b) simp_all
    finally have "b * ceil_div a b < b * (a + 1)" by simp
    then have "ceil_div a b < a + 1" unfolding mult_less_cancel1 by blast
    then show ?thesis by simp
  qed
qed

text \<open>The estimate of an element-wise instruction never wraps around, nor that of a reduction.\<close>

lemma cyclesElementwise_nat:
  assumes "read_desc sim dp 28 load_EwiseParam = Inr d"
  shows "\<exists>c. cyclesElementwise sim dp = Inr c \<and> unat c = ceil_div (unat (ew_rows d) * unat (ew_cols d)) 128"
proof -
  have "unat (ceilDiv (ucast (ew_rows d) * ucast (ew_cols d)) (ucast ELEM_PER_CYCLE))
      = ceil_div (unat (ew_rows d) * unat (ew_cols d)) 128"
    using u32_prod_less [of "ew_rows d" "ew_cols d"]
    by (subst unat_ceilDiv) (simp_all add: unat_u32_prod to_nat)
  with assms show ?thesis by (simp add: cyclesElementwise_def)
qed

lemma cyclesAct_nat:
  assumes "read_desc sim dp 32 load_ActParam = Inr d"
  shows "\<exists>c. cyclesAct sim dp = Inr c \<and> unat c =
    (if act_kind d = act_kind_value RELU then ceil_div (unat (act_n d)) 128 else ceil_div (unat (act_n d)) 32 + 8)"
proof -
  have n: "unat (act_n d) < 2 ^ 32" using unat_u32_less [of "act_n d"] by simp
  then have r: "unat (ceilDiv (ucast (act_n d)) (ucast ELEM_PER_CYCLE)) = ceil_div (unat (act_n d)) 128"
    by (subst unat_ceilDiv) (simp_all add: to_nat)
  from n have s: "unat (ceilDiv (ucast (act_n d)) (ucast SFU_ELEM_PER_CYCLE)) = ceil_div (unat (act_n d)) 32"
    by (subst unat_ceilDiv) (simp_all add: to_nat)
  have "ceil_div (unat (act_n d)) 32 \<le> unat (act_n d)" by (rule ceil_div_le) simp
  with n have "unat (ceilDiv (ucast (act_n d)) (ucast SFU_ELEM_PER_CYCLE) + ucast ACT_FIXED_OVERHEAD)
      = ceil_div (unat (act_n d)) 32 + 8"
    by (subst unat_add_no_wrap) (simp_all add: s to_nat)
  with assms r show ?thesis by (simp add: cyclesAct_def)
qed

definition reduce_width :: "ReduceParam \<Rightarrow> nat" where
  "reduce_width d = (if red_kind d = reduce_kind_value REDUCE_ARGMAX then 64 else 128)"

lemma cyclesReduce_nat:
  assumes "read_desc sim dp 24 load_ReduceParam = Inr d"
  shows "\<exists>c. cyclesReduce sim dp = Inr c \<and> unat c =
    ceil_div (unat (red_rows d) * unat (red_cols d)) (reduce_width d) + 7 * unat (red_rows d)"
proof -
  define e where "e = (if red_kind d = reduce_kind_value REDUCE_ARGMAX then ARGMAX_ELEM_PER_CYCLE else ELEM_PER_CYCLE)"
  have e: "unat e = reduce_width d" by (simp add: e_def reduce_width_def to_nat)
  have w: "64 \<le> reduce_width d" "reduce_width d \<le> 128" by (simp_all add: reduce_width_def)
  define p where "p = unat (red_rows d) * unat (red_cols d)"
  have p: "p \<le> 0xFFFFFFFE00000001" unfolding p_def by (rule u32_prod_less)
  have r: "unat (red_rows d) < 0x100000000" by (rule unat_u32_less)
  have a: "unat (ceilDiv (ucast (red_rows d) * ucast (red_cols d)) (ucast e)) = ceil_div p (reduce_width d)"
    using p w by (subst unat_ceilDiv) (simp_all add: unat_u32_prod e p_def)
  have b: "unat (ucast (red_rows d) * ucast REDUCE_TREE_STEPS :: u64) = 7 * unat (red_rows d)"
    by (simp add: unat_u32_prod to_nat)
  have "reduce_width d * ceil_div p (reduce_width d) < p + reduce_width d"
    using ceil_div_bounds [of "reduce_width d" p] w by simp
  moreover have "64 * ceil_div p (reduce_width d) \<le> reduce_width d * ceil_div p (reduce_width d)"
    using w by (intro mult_le_mono) simp_all
  ultimately have "ceil_div p (reduce_width d) + 7 * unat (red_rows d) < 0x10000000000000000"
    using p w(2) r by linarith
  then have "unat (ceilDiv (ucast (red_rows d) * ucast (red_cols d)) (ucast e) + ucast (red_rows d) * ucast REDUCE_TREE_STEPS)
      = ceil_div p (reduce_width d) + 7 * unat (red_rows d)"
    by (subst unat_add_no_wrap) (simp_all add: a b)
  with assms show ?thesis
    by (cases "red_kind d = reduce_kind_value REDUCE_ARGMAX") (simp_all add: cyclesReduce_def Let_def e_def p_def)
qed

text \<open>A matrix product that fits SRAM: \<open>M * N\<close> does not wrap around in 32 bits.\<close>

lemma cyclesMatmul_nat:
  assumes "read_desc sim dp 32 load_MatmulParam = Inr d" and "unat (mm_M d) * unat (mm_N d) \<le> 0x40000"
  shows "\<exists>c. cyclesMatmul sim dp = Inr c \<and> unat c = ceil_div (unat (mm_M d) * unat (mm_N d)) 256 * unat (mm_K d)"
proof -
  define p where "p = unat (mm_M d) * unat (mm_N d)"
  have p: "p \<le> 0x40000" using assms(2) by (simp add: p_def)
  then have mn: "unat (mm_M d * mm_N d) = p" unfolding p_def by (intro unat_mult_no_wrap) simp
  have c: "unat (ceilDiv (ucast (mm_M d * mm_N d)) (ucast MAC_PER_CYCLE)) = ceil_div p 256"
    using p by (subst unat_ceilDiv) (simp_all add: mn to_nat)
  have k: "unat (mm_K d) < 2 ^ 32" using unat_u32_less [of "mm_K d"] by simp
  have "ceil_div p 256 \<le> p" by (rule ceil_div_le) simp
  then have "ceil_div p 256 * unat (mm_K d) \<le> 0x40000 * 2 ^ 32"
    using p k by (intro mult_le_mono) simp_all
  then have "unat (ceilDiv (ucast (mm_M d * mm_N d)) (ucast MAC_PER_CYCLE) * ucast (mm_K d)) = ceil_div p 256 * unat (mm_K d)"
    by (subst unat_mult_no_wrap) (simp_all add: c)
  with assms(1) show ?thesis by (simp add: cyclesMatmul_def p_def)
qed

section \<open>Bursts\<close>

text \<open>A row of \<open>w\<close> bytes at \<open>a\<close> meets this many aligned blocks of 16 bytes.\<close>

definition blocks_met :: "nat \<Rightarrow> nat \<Rightarrow> nat" where
  "blocks_met a w = card ((\<lambda>x. x div 16) ` {a..<a + w})"

lemma blocks_met_eq:
  assumes "0 < w"
  shows "blocks_met a w = (a + w - 1) div 16 + 1 - a div 16"
proof -
  have "(\<lambda>x. x div 16) ` {a..<a + w} = {a div 16..(a + w - 1) div 16}"
  proof
    show "(\<lambda>x. x div 16) ` {a..<a + w} \<subseteq> {a div 16..(a + w - 1) div 16}"
      by (auto intro: div_le_mono)
    show "{a div 16..(a + w - 1) div 16} \<subseteq> (\<lambda>x. x div 16) ` {a..<a + w}"
    proof
      fix b assume b: "b \<in> {a div 16..(a + w - 1) div 16}"
      define x where "x = max a (16 * b)"
      have "16 * b \<le> a + w - 1" using b by (simp add: less_eq_div_iff_mult_less_eq mult.commute)
      then have "x \<in> {a..<a + w}" using assms by (auto simp: x_def)
      moreover have "x div 16 = b"
      proof (cases "16 * b \<le> a")
        case True
        then have "b \<le> a div 16" by (simp add: less_eq_div_iff_mult_less_eq mult.commute)
        with b True show ?thesis by (simp add: x_def)
      next
        case False
        then show ?thesis by (simp add: x_def)
      qed
      ultimately show "b \<in> (\<lambda>x. x div 16) ` {a..<a + w}" by blast
    qed
  qed
  then show ?thesis by (simp add: blocks_met_def)
qed

lemma dma_row_bursts_nat:
  assumes "0 < dma_cols d" and "unat (dma_ddrAddr d + stride * of_nat i) + 2 * unat (dma_cols d) \<le> 0xFFFFFFFF"
  shows "unat (dma_row_bursts d stride i)
    = blocks_met (unat (dma_ddrAddr d + stride * of_nat i)) (2 * unat (dma_cols d))"
proof -
  define start where "start = dma_ddrAddr d + stride * of_nat i"
  define rowBytes :: u32 where "rowBytes = ucast (ucast (dma_cols d) * DTYPE_SIZE)"
  have c: "0 < unat (dma_cols d)" using assms(1) by (simp add: word_less_nat_alt)
  have le: "unat start + 2 * unat (dma_cols d) \<le> 0xFFFFFFFF" using assms(2) by (simp add: start_def)
  have "unat (ucast (dma_cols d) * DTYPE_SIZE) = 2 * unat (dma_cols d)"
    using unat_u32_less [of "dma_cols d"] by (subst unat_mult_no_wrap) (simp_all add: to_nat)
  then have w: "unat rowBytes = 2 * unat (dma_cols d)"
    using le unfolding rowBytes_def by (subst unat_ucast_small) simp_all
  have "unat (start + rowBytes) = unat start + 2 * unat (dma_cols d)"
    using le w by (subst unat_add_no_wrap) simp_all
  then have last: "unat (start + rowBytes - 1) = unat start + 2 * unat (dma_cols d) - 1"
    using c by (subst unat_sub) (simp_all add: word_le_nat_alt)
  have mono: "unat start div 16 \<le> (unat start + 2 * unat (dma_cols d) - 1) div 16"
    using c by (intro div_le_mono) simp
  then have "unat ((start + rowBytes - 1) div DMA_BURST_BYTES - start div DMA_BURST_BYTES)
    = (unat start + 2 * unat (dma_cols d) - 1) div 16 - unat start div 16"
    by (subst unat_sub) (simp_all add: word_le_nat_alt unat_div last to_nat)
  moreover have "(unat start + 2 * unat (dma_cols d) - 1) div 16 - unat start div 16 \<le> 0xFFFFFFFF div 16"
    using le by (intro le_trans [OF diff_le_self] div_le_mono) simp
  ultimately have "unat ((start + rowBytes - 1) div DMA_BURST_BYTES - start div DMA_BURST_BYTES + 1)
    = (unat start + 2 * unat (dma_cols d) - 1) div 16 - unat start div 16 + 1"
    by (subst unat_add_no_wrap) simp_all
  then show ?thesis
    using c mono by (simp add: dma_row_bursts_def Let_def blocks_met_eq Suc_diff_le flip: start_def rowBytes_def)
qed

lemma unat_fold_sum:
  "(\<Sum>i<n. unat (f i :: u32)) < 2 ^ 64 \<Longrightarrow> unat (fold (\<lambda>i b. b + ucast (f i)) [0..<n] (0 :: u64)) = (\<Sum>i<n. unat (f i))"
proof (induction n)
  case 0
  then show ?case by simp
next
  case (Suc n)
  then have "unat (fold (\<lambda>i b. b + ucast (f i)) [0..<n] (0 :: u64)) = (\<Sum>i<n. unat (f i))" by simp
  with Suc.prems show ?case by (simp add: unat_add_no_wrap)
qed

definition dma_stride :: "DMAParam \<Rightarrow> bool \<Rightarrow> u32" where
  "dma_stride d isLoad = (if isLoad then dma_srcStride d else dma_dstStride d)"

text \<open>Every row lies in DDR: the DDR side of a transfer that succeeds.\<close>

definition dma_rows_in_ddr :: "DMAParam \<Rightarrow> bool \<Rightarrow> bool" where
  "dma_rows_in_ddr d isLoad \<longleftrightarrow> 0 < dma_cols d \<and> (\<forall>i<unat (dma_rows d).
     0x40000000 \<le> unat (dma_ddrAddr d + dma_stride d isLoad * of_nat i)
     \<and> unat (dma_ddrAddr d + dma_stride d isLoad * of_nat i) + 2 * unat (dma_cols d) \<le> 0xC0000000)"

lemma cyclesDma_nat:
  assumes "read_desc sim dp 24 load_DMAParam = Inr d" and "dma_rows_in_ddr d isLoad"
  shows "\<exists>c. cyclesDma sim dp isLoad = Inr c \<and> unat c =
    ceil_div (16 * (\<Sum>i<unat (dma_rows d). blocks_met (unat (dma_ddrAddr d + dma_stride d isLoad * of_nat i)) (2 * unat (dma_cols d)))) 32 + 16"
proof -
  define st where "st = (\<lambda>i :: nat. unat (dma_ddrAddr d + dma_stride d isLoad * of_nat i))"
  define B where "B = (\<Sum>i<unat (dma_rows d). blocks_met (st i) (2 * unat (dma_cols d)))"
  have c: "0 < dma_cols d" using assms(2) by (simp add: dma_rows_in_ddr_def)
  then have c': "0 < 2 * unat (dma_cols d)" by (simp add: word_less_nat_alt)
  have in_ddr: "0x40000000 \<le> st i \<and> st i + 2 * unat (dma_cols d) \<le> 0xC0000000" if "i < unat (dma_rows d)" for i
    using assms(2) that by (simp add: dma_rows_in_ddr_def st_def)
  have each: "blocks_met (st i) (2 * unat (dma_cols d)) \<le> 0x8000001" if "i < unat (dma_rows d)" for i
  proof -
    have "(st i + 2 * unat (dma_cols d) - 1) div 16 \<le> 0xC0000000 div 16"
      using in_ddr [OF that] by (intro div_le_mono) linarith
    moreover have "0x40000000 div 16 \<le> st i div 16"
      using in_ddr [OF that] by (intro div_le_mono) linarith
    ultimately show ?thesis unfolding blocks_met_eq [OF c'] by simp
  qed
  have "B \<le> (\<Sum>i<unat (dma_rows d). 0x8000001)" unfolding B_def by (intro sum_mono) (simp add: each)
  also have "\<dots> = unat (dma_rows d) * 0x8000001" by simp
  also have "\<dots> \<le> 0xFFFFFFFF * 0x8000001" using unat_u32_less [of "dma_rows d"] by (intro mult_le_mono) simp_all
  finally have B: "B \<le> 0x80000007FFFFFFF + 0x80000000" by simp
  have row: "unat (dma_row_bursts d (dma_stride d isLoad) i) = blocks_met (st i) (2 * unat (dma_cols d))"
    if "i < unat (dma_rows d)" for i
    unfolding st_def using in_ddr [OF that] by (intro dma_row_bursts_nat c) (simp add: st_def)
  define bursts :: u64 where "bursts = fold (\<lambda>i b. b + ucast (dma_row_bursts d (dma_stride d isLoad) i)) [0..<unat (dma_rows d)] 0"
  have sum: "(\<Sum>i<unat (dma_rows d). unat (dma_row_bursts d (dma_stride d isLoad) i)) = B"
    unfolding B_def by (intro sum.cong refl row) simp
  have b: "unat bursts = B"
    unfolding bursts_def using unat_fold_sum [of "dma_row_bursts d (dma_stride d isLoad)" "unat (dma_rows d)"] B
    unfolding sum by simp
  have b16: "unat (bursts * ucast DMA_BURST_BYTES) = 16 * B"
    using B by (subst unat_mult_no_wrap) (simp_all add: b to_nat)
  have cd: "unat (ceilDiv (bursts * ucast DMA_BURST_BYTES) (ucast DMA_BYTES_PER_CYCLE)) = ceil_div (16 * B) 32"
    using B by (subst unat_ceilDiv) (simp_all add: b16 to_nat)
  have "ceil_div (16 * B) 32 \<le> 16 * B" by (rule ceil_div_le) simp
  then have "unat (ceilDiv (bursts * ucast DMA_BURST_BYTES) (ucast DMA_BYTES_PER_CYCLE) + ucast DMA_FIXED_OVERHEAD)
    = ceil_div (16 * B) 32 + 16"
    using B by (subst unat_add_no_wrap) (simp_all add: cd to_nat)
  then show ?thesis
    using assms(1) by (simp add: cyclesDma_def Let_def flip: dma_stride_def bursts_def B_def [unfolded st_def])
qed

section \<open>Properties\<close>

text \<open>
  C37. The cycles of a DMA whose rows lie in DDR are 16 of overhead plus the bus cycles of its
  traffic, 32 bytes per cycle, rounded up once, where the traffic is 16 bytes for each 16-byte
  block that the bytes of a row touch, summed over the rows: half the number of blocks, rounded
  up, whatever the alignment of the rows.
\<close>

theorem cyclesDma_counts_blocks:
  assumes "read_desc sim dp 24 load_DMAParam = Inr d" and "dma_rows_in_ddr d isLoad"
  shows "\<exists>c. cyclesDma sim dp isLoad = Inr c \<and> unat c =
    ceil_div (16 * (\<Sum>i<unat (dma_rows d). blocks_met (unat (dma_ddrAddr d + dma_stride d isLoad * of_nat i)) (2 * unat (dma_cols d)))) 32 + 16"
  by (rule cyclesDma_nat [OF assms])

definition sample_burst :: DMAParam where
  "sample_burst = \<lparr>dma_sramAddr = 0x10000000, dma_ddrAddr = 0x40010000, dma_rows = 1, dma_cols = 9,
     dma_srcStride = 18, dma_dstStride = 18\<rparr>"

definition sample_burst_sim :: cmodel where
  "sample_burst_sim = CModel_init\<lparr>ddr_bytes := poke (\<lambda>_. 0) 0x100 (bytes_of_DMAParam sample_burst)\<rparr>"

theorem cyclesDma_counts_blocks_witness:
  "\<exists>c. cyclesDma sample_burst_sim 0x40000100 True = Inr c \<and> unat c = 17"
proof -
  have desc: "read_desc sample_burst_sim 0x40000100 24 load_DMAParam = Inr sample_burst"
    by (rule dma_desc.read_poke [of _ "0x100"]) (simp_all add: ddr_eq_Inr sample_burst_sim_def)
  have rows: "dma_rows_in_ddr sample_burst True"
    by (simp add: dma_rows_in_ddr_def dma_stride_def sample_burst_def word_less_nat_alt)
  have dims: "unat (dma_rows sample_burst) = 1" "2 * unat (dma_cols sample_burst) = 18"
    "unat (dma_ddrAddr sample_burst) = 0x40010000" by (simp_all add: sample_burst_def)
  show ?thesis
    using cyclesDma_counts_blocks [OF desc rows] unfolding dims
    by (simp add: dims blocks_met_eq ceil_div_def)
qed

text \<open>
  The MATMUL estimate suffices for the M*N*K multiplications at 256 per cycle, and exceeds that by
  less than one cycle per step of k, when the result fits in SRAM (the 32-bit product M*N does not
  wrap).
\<close>

theorem cyclesMatmul_roofline:
  assumes "read_desc sim dp 32 load_MatmulParam = Inr d" and "unat (mm_M d) * unat (mm_N d) \<le> 0x40000"
  shows "\<exists>c. cyclesMatmul sim dp = Inr c
    \<and> unat (mm_M d) * unat (mm_N d) * unat (mm_K d) \<le> 256 * unat c
    \<and> 256 * unat c \<le> (unat (mm_M d) * unat (mm_N d) + 255) * unat (mm_K d)"
proof -
  define p where "p = unat (mm_M d) * unat (mm_N d)"
  obtain c where c: "cyclesMatmul sim dp = Inr c" "unat c = ceil_div p 256 * unat (mm_K d)"
    using cyclesMatmul_nat [OF assms] by (auto simp: p_def)
  have "p \<le> 256 * ceil_div p 256" and "256 * ceil_div p 256 \<le> p + 255"
    using ceil_div_bounds [of 256 p] by simp_all
  then have "p * unat (mm_K d) \<le> 256 * ceil_div p 256 * unat (mm_K d)"
    and "256 * ceil_div p 256 * unat (mm_K d) \<le> (p + 255) * unat (mm_K d)"
    by (auto intro: mult_le_mono1)
  with c show ?thesis by (auto simp: p_def mult.assoc)
qed

definition sample_product :: MatmulParam where
  "sample_product = \<lparr>mm_dstAddr = 0x10000100, mm_rhsAddr = 0x10000080, mm_lhsAddr = 0x10000000,
     mm_M = 17, mm_K = 4, mm_N = 16, mm_accumulate = 0, mm_transA = 0, mm_transB = 0\<rparr>"

definition sample_product_sim :: cmodel where
  "sample_product_sim = CModel_init\<lparr>ddr_bytes := poke (\<lambda>_. 0) 0x100 (bytes_of_MatmulParam sample_product)\<rparr>"

theorem cyclesMatmul_roofline_witness:
  "\<exists>c. cyclesMatmul sample_product_sim 0x40000100 = Inr c \<and> 1088 \<le> 256 * unat c"
proof -
  have desc: "read_desc sample_product_sim 0x40000100 32 load_MatmulParam = Inr sample_product"
    by (rule matmul_desc.read_poke [of _ "0x100"]) (simp_all add: ddr_eq_Inr sample_product_sim_def)
  have dims: "unat (mm_M sample_product) = 17" "unat (mm_N sample_product) = 16" "unat (mm_K sample_product) = 4"
    by (simp_all add: sample_product_def)
  show ?thesis using cyclesMatmul_roofline [OF desc] unfolding dims by auto
qed

text \<open>
  For every descriptor the REDUCE estimate is ceil(rows*cols / width) + 7*rows, with half the
  width for ARGMAX, and is at most the rows * (ceil(cols / width) + 7) of docs/spec/isa.md; the
  witness is a descriptor where the two differ.
\<close>

theorem cyclesReduce_estimate:
  assumes "read_desc sim dp 24 load_ReduceParam = Inr d"
  shows "\<exists>c. cyclesReduce sim dp = Inr c
    \<and> unat c = ceil_div (unat (red_rows d) * unat (red_cols d)) (reduce_width d) + 7 * unat (red_rows d)
    \<and> unat c \<le> unat (red_rows d) * (ceil_div (unat (red_cols d)) (reduce_width d) + 7)"
proof -
  define R C W where "R = unat (red_rows d)" and "C = unat (red_cols d)" and "W = reduce_width d"
  have W: "0 < W" by (simp add: W_def reduce_width_def)
  have "ceil_div (R * C) W \<le> R * ceil_div C W"
  proof -
    have "C \<le> W * ceil_div C W" using ceil_div_bounds [OF W] by blast
    then have "R * C \<le> W * (R * ceil_div C W)" by (metis mult.left_commute mult_le_mono2)
    moreover have "W * ceil_div (R * C) W < R * C + W" using ceil_div_bounds [OF W] by blast
    ultimately have "W * ceil_div (R * C) W < W * (R * ceil_div C W) + W" by linarith
    then have "W * ceil_div (R * C) W < W * (R * ceil_div C W + 1)" by simp
    then have "ceil_div (R * C) W < R * ceil_div C W + 1" unfolding mult_less_cancel1 by blast
    then show ?thesis by simp
  qed
  with cyclesReduce_nat [OF assms] show ?thesis by (auto simp: R_def C_def W_def algebra_simps)
qed

definition sample_rows :: ReduceParam where
  "sample_rows = \<lparr>red_dstAddr = 0x10000100, red_idxAddr = 0, red_srcAddr = 0x10000000,
     red_rows = 2, red_cols = 1, red_kind = 0\<rparr>"

definition sample_rows_sim :: cmodel where
  "sample_rows_sim = CModel_init\<lparr>ddr_bytes := poke (\<lambda>_. 0) 0x100 (bytes_of_ReduceParam sample_rows)\<rparr>"

text \<open>
  Two rows of one element: 15 cycles, one fewer than \<open>rows * ceil(cols / 128) + rows * 7\<close>, the
  formula of docs/spec/isa.md.
\<close>

theorem cyclesReduce_estimate_witness:
  "\<exists>c. cyclesReduce sample_rows_sim 0x40000100 = Inr c \<and> unat c = 15 \<and> unat c \<noteq> 2 * (ceil_div 1 128 + 7)"
proof -
  have desc: "read_desc sample_rows_sim 0x40000100 24 load_ReduceParam = Inr sample_rows"
    by (rule reduce_desc.read_poke [of _ "0x100"]) (simp_all add: ddr_eq_Inr sample_rows_sim_def)
  have dims: "unat (red_rows sample_rows) = 2" "unat (red_cols sample_rows) = 1" "reduce_width sample_rows = 128"
    by (simp_all add: sample_rows_def reduce_width_def)
  show ?thesis using cyclesReduce_estimate [OF desc] unfolding dims by (auto simp: ceil_div_def)
qed

end
