(* ===== verification/Simulator.thy ===== *)
theory Simulator
  imports Exec Cycles
begin

text \<open>
  runtime/lib/simulator.cpp: the instruction queue, the execution loop and the cycle account.
\<close>

record CycleEntry =
  ce_inst :: Instruction
  ce_cycles :: u64

record simulator =
  cmodel_state :: cmodel
  queue :: "Instruction list"
  totalCycles :: u64
  cycleLog :: "CycleEntry list"

definition Simulator_init :: simulator where
  "Simulator_init = \<lparr>cmodel_state = CModel_init, queue = [], totalCycles = 0, cycleLog = []\<rparr>"

text \<open>\<open>memcpy(cmodel_.ddr(addr), buffer, size)\<close>.\<close>

definition writeDDR :: "simulator \<Rightarrow> u32 \<Rightarrow> u8 list \<Rightarrow> simulator result" where
  "writeDDR s addr buffer =
     rbind (ddr addr) (\<lambda>p. rbind (write_ddr (cmodel_state s) p buffer) (\<lambda>m. Inr (s\<lparr>cmodel_state := m\<rparr>)))"

definition push :: "simulator \<Rightarrow> Instruction \<Rightarrow> simulator" where
  "push s inst = s\<lparr>queue := queue s @ [inst]\<rparr>"

text \<open>One round of the loop of \<open>run\<close>, for the instruction taken from the front of the queue.\<close>

definition run_step :: "platform \<Rightarrow> Instruction \<Rightarrow> simulator \<Rightarrow> simulator result" where
  "run_step P inst s =
     rbind (exec P (cmodel_state s) inst) (\<lambda>m.
     rbind (computeCycles m inst) (\<lambda>cycles.
       Inr (s\<lparr>cmodel_state := m, totalCycles := totalCycles s + cycles,
              cycleLog := cycleLog s @ [\<lparr>ce_inst = inst, ce_cycles = cycles\<rparr>]\<rparr>)))"

lemma run_step_queue: "run_step P inst s = Inr t \<Longrightarrow> queue t = queue s"
  by (auto simp: run_step_def rbind_eq_Inr)

function run :: "platform \<Rightarrow> simulator \<Rightarrow> simulator result" where
  "run P s = (case queue s of
       [] \<Rightarrow> Inr s
     | inst # rest \<Rightarrow> rbind (run_step P inst (s\<lparr>queue := rest\<rparr>)) (run P))"
  by pat_completeness auto

termination
  by (relation "measure (\<lambda>(P, s). length (queue s))") (auto dest!: run_step_queue)

declare run.simps [simp del]

section \<open>The loop as a fold over the queue\<close>

lemma run_step_set_queue:
  "run_step P inst (s\<lparr>queue := q\<rparr>) = rbind (run_step P inst s) (\<lambda>t. Inr (t\<lparr>queue := q\<rparr>))"
  by (cases "exec P (cmodel_state s) inst"; cases "computeCycles (projr (exec P (cmodel_state s) inst)) inst")
    (simp_all add: run_step_def)

text \<open>The reference: execute a list of instructions from a state, ignoring the queue.\<close>

definition run_list :: "platform \<Rightarrow> Instruction list \<Rightarrow> simulator \<Rightarrow> simulator result" where
  "run_list P insts s = fold_result (run_step P) insts s"

lemma run_as_list: "run P s = run_list P (queue s) (s\<lparr>queue := []\<rparr>)"
proof (induction "queue s" arbitrary: s)
  case Nil
  then show ?case by (subst run.simps) (simp add: run_list_def)
next
  case (Cons inst rest)
  have "run P s = rbind (run_step P inst (s\<lparr>queue := rest\<rparr>)) (run P)"
    by (subst run.simps) (simp add: Cons(2) [symmetric])
  also have "\<dots> = rbind (run_step P inst (s\<lparr>queue := rest\<rparr>)) (\<lambda>t. run_list P rest (t\<lparr>queue := []\<rparr>))"
  proof (rule rbind_cong [OF refl])
    fix t assume t: "run_step P inst (s\<lparr>queue := rest\<rparr>) = Inr t"
    then have "rest = queue t" using run_step_queue [OF t] by simp
    then show "run P t = run_list P rest (t\<lparr>queue := []\<rparr>)" using Cons(1) [of t] by simp
  qed
  also have "\<dots> = run_list P (inst # rest) (s\<lparr>queue := []\<rparr>)"
    unfolding run_step_set_queue run_list_def
    by (cases "run_step P inst s") (simp_all add: run_step_set_queue)
  finally show ?case by (simp add: Cons(2))
qed


lemma run_list_append: "run_list P (xs @ ys) s = rbind (run_list P xs s) (run_list P ys)"
  by (simp add: run_list_def [abs_def] fold_result_append)

lemma run_list_queue: "run_list P insts s = Inr t \<Longrightarrow> queue t = queue s"
  unfolding run_list_def
  by (rule fold_result_invariant [where I = "\<lambda>u. queue u = queue s"]) (auto dest: run_step_queue)

text \<open>The account: the log grows by one entry per instruction, in order, and the total by their sum.\<close>

lemma run_list_log:
  "run_list P insts s = Inr t \<Longrightarrow> \<exists>es. cycleLog t = cycleLog s @ es \<and> map ce_inst es = insts
    \<and> totalCycles t = totalCycles s + sum_list (map ce_cycles es)"
proof (induction insts arbitrary: s)
  case Nil
  then show ?case by (simp add: run_list_def)
next
  case (Cons inst rest)
  then obtain u where u: "run_step P inst s = Inr u" "run_list P rest u = Inr t"
    by (auto simp: run_list_def rbind_eq_Inr)
  from Cons.IH [OF u(2)] obtain es where es: "cycleLog t = cycleLog u @ es" "map ce_inst es = rest"
    "totalCycles t = totalCycles u + sum_list (map ce_cycles es)" by blast
  from u(1) obtain c where "cycleLog u = cycleLog s @ [\<lparr>ce_inst = inst, ce_cycles = c\<rparr>]" "totalCycles u = totalCycles s + c"
    by (auto simp: run_step_def rbind_eq_Inr)
  with es show ?case by (intro exI [of _ "\<lparr>ce_inst = inst, ce_cycles = c\<rparr> # es"]) (simp add: add.assoc)
qed

text \<open>The machine state after a run is the instructions' effects in order.\<close>

definition exec_list :: "platform \<Rightarrow> Instruction list \<Rightarrow> cmodel \<Rightarrow> cmodel result" where
  "exec_list P insts m = fold_result (\<lambda>inst m. exec P m inst) insts m"

lemma run_list_state:
  "run_list P insts s = Inr t \<Longrightarrow> exec_list P insts (cmodel_state s) = Inr (cmodel_state t)"
proof (induction insts arbitrary: s)
  case Nil
  then show ?case by (simp add: run_list_def exec_list_def)
next
  case (Cons inst rest)
  then obtain u where u: "run_step P inst s = Inr u" "run_list P rest u = Inr t"
    by (auto simp: run_list_def rbind_eq_Inr)
  from u(1) have "exec P (cmodel_state s) inst = Inr (cmodel_state u)"
    by (auto simp: run_step_def rbind_eq_Inr)
  with Cons.IH [OF u(2)] show ?case by (simp add: exec_list_def)
qed

section \<open>Properties\<close>

text \<open>
  C13. When run returns, the memories are those of executing the queued instructions in order, the
  queue is empty, the cycle log has grown by exactly one entry per instruction in order, and the
  total by the sum of their cycles.
\<close>

theorem run_refines_exec_list:
  assumes "run P s = Inr t"
  shows "exec_list P (queue s) (cmodel_state s) = Inr (cmodel_state t) \<and> queue t = []
    \<and> (\<exists>es. cycleLog t = cycleLog s @ es \<and> map ce_inst es = queue s
        \<and> totalCycles t = totalCycles s + sum_list (map ce_cycles es))"
  using assms run_list_state [of P "queue s" "s\<lparr>queue := []\<rparr>" t] run_list_queue [of P "queue s" "s\<lparr>queue := []\<rparr>" t]
    run_list_log [of P "queue s" "s\<lparr>queue := []\<rparr>" t]
  by (simp add: run_as_list)

theorem run_refines_exec_list_witness:
  "\<exists>t. run sample_platform (push Simulator_init \<lparr>opcode = 9, descPtr = 0\<rparr>) = Inr t \<and> queue t = []"
proof -
  have "enumerator opcodes 9 = Some SYNC" using enumerator_opcode [of SYNC] by simp
  then have "run_step sample_platform \<lparr>opcode = 9, descPtr = 0\<rparr> s
      = Inr (s\<lparr>cycleLog := cycleLog s @ [\<lparr>ce_inst = \<lparr>opcode = 9, descPtr = 0\<rparr>, ce_cycles = 0\<rparr>]\<rparr>)" for s
    by (simp add: run_step_def exec_def computeCycles_def)
  then obtain t where t: "run sample_platform (push Simulator_init \<lparr>opcode = 9, descPtr = 0\<rparr>) = Inr t"
    by (simp add: run_as_list run_list_def push_def Simulator_init_def)
  from run_refines_exec_list [OF t] t show ?thesis by blast
qed

text \<open>
  Running a queue is running any prefix of it and then the rest from the state reached, errors
  included.
\<close>

theorem run_in_two_parts:
  "run P (s\<lparr>queue := xs @ ys\<rparr>) = rbind (run P (s\<lparr>queue := xs\<rparr>)) (\<lambda>t. run P (t\<lparr>queue := ys\<rparr>))"
proof -
  have "rbind (run_list P xs (s\<lparr>queue := []\<rparr>)) (run_list P ys)
    = rbind (run_list P xs (s\<lparr>queue := []\<rparr>)) (\<lambda>t. run_list P ys (t\<lparr>queue := []\<rparr>))"
  proof (rule rbind_cong [OF refl])
    fix t assume "run_list P xs (s\<lparr>queue := []\<rparr>) = Inr t"
    then have "queue t = []" using run_list_queue by fastforce
    then have "t\<lparr>queue := []\<rparr> = t" by (cases t) simp
    then show "run_list P ys t = run_list P ys (t\<lparr>queue := []\<rparr>)" by simp
  qed
  then show ?thesis by (simp add: run_as_list run_list_append)
qed

text \<open>
  A MATMUL descriptor written with writeDDR is read back unchanged by the chip at the same
  address, and SRAM is not touched.
\<close>

theorem descriptor_roundtrip:
  assumes "writeDDR s dp (bytes_of_MatmulParam d) = Inr t"
  shows "read_desc (cmodel_state t) dp 32 load_MatmulParam = Inr d \<and> sram_bytes (cmodel_state t) = sram_bytes (cmodel_state s)"
proof -
  from assms obtain p m where "ddr dp = Inr p" and w: "write_ddr (cmodel_state s) p (bytes_of_MatmulParam d) = Inr m"
    and "cmodel_state t = m" by (auto simp: writeDDR_def rbind_eq_Inr)
  then show ?thesis using matmul_desc.read_back [of dp p] mem.wr_b_frame [OF w] by simp
qed

theorem descriptor_roundtrip_witness:
  "\<exists>t. writeDDR Simulator_init 0x40000100 (bytes_of_MatmulParam sample_matmul) = Inr t
    \<and> read_desc (cmodel_state t) 0x40000100 32 load_MatmulParam = Inr sample_matmul"
proof -
  have p: "ddr 0x40000100 = Inr 0x100" by (simp add: ddr_eq_Inr)
  have "\<exists>m. write_ddr (cmodel_state Simulator_init) 0x100 (bytes_of_MatmulParam sample_matmul) = Inr m"
    by (rule mem.b.wr_in) (simp add: to_nat)
  then obtain t where t: "writeDDR Simulator_init 0x40000100 (bytes_of_MatmulParam sample_matmul) = Inr t"
    by (auto simp: writeDDR_def p)
  from descriptor_roundtrip [OF t] t show ?thesis by blast
qed

end
