(* ===== verification/Ir.thy ===== *)
theory Ir
  imports Isa
begin

text \<open>
  The part of MLIR's data that the compiler's passes read and build: memref types, SSA values,
  and the operations of the eclipse dialect in the order of a walk.

  A value carries the operation that defines it, so that \<open>getDefiningOp\<close> is the case distinction
  on its constructor, \<open>getType\<close> is \<open>value_type\<close>, and the tag, unique in a module, makes two
  values equal exactly when they are the same SSA value.  Offsets, sizes and strides of a subview
  are the integers they fold to.
\<close>

section \<open>Types\<close>

record elem_type =
  elt_name :: string
  elt_bits :: nat

definition f16 :: elem_type where
  "f16 = \<lparr>elt_name = ''f16'', elt_bits = 16\<rparr>"

text \<open>The layout of a memref: the identity, or strides and an offset.\<close>

datatype layout = IdentityLayout | Strided "int list" int

record memref =
  mr_shape :: "int list"
  mr_elem :: elem_type
  mr_layout :: layout
  mr_space :: nat

datatype ty = MemRef memref | OtherTy

definition kDynamic :: int where
  "kDynamic = - (2 ^ 63)"

definition has_static_shape :: "memref \<Rightarrow> bool" where
  "has_static_shape t \<longleftrightarrow> (\<forall>d \<in> set (mr_shape t). d \<noteq> kDynamic)"

abbreviation dim :: "memref \<Rightarrow> nat \<Rightarrow> int" where
  "dim t i \<equiv> mr_shape t ! i"

definition num_elements :: "memref \<Rightarrow> int" where
  "num_elements t = prod_list (mr_shape t)"

definition SRAM_MEMORY_SPACE :: nat where "SRAM_MEMORY_SPACE = 0"
definition DDR_MEMORY_SPACE :: nat where "DDR_MEMORY_SPACE = 1"
definition SRAM_ALIGNMENT :: u64 where "SRAM_ALIGNMENT = 32"

definition packed_memref :: "int list \<Rightarrow> elem_type \<Rightarrow> memref" where
  "packed_memref shape e = \<lparr>mr_shape = shape, mr_elem = e, mr_layout = IdentityLayout, mr_space = SRAM_MEMORY_SPACE\<rparr>"

section \<open>Values and operations\<close>

datatype ir_value =
    BlockArg nat memref
  | SramBuf nat u32 memref
  | AllocRes nat memref "nat option"
  | CastRes nat ir_value memref
  | SubViewRes nat ir_value "int list" "int list" "int list" memref
  | ExpandRes nat ir_value memref

primrec value_type :: "ir_value \<Rightarrow> memref" where
  "value_type (BlockArg i t) = t"
| "value_type (SramBuf i a t) = t"
| "value_type (AllocRes i t al) = t"
| "value_type (CastRes i v t) = t"
| "value_type (SubViewRes i v offs sizes strides t) = t"
| "value_type (ExpandRes i v t) = t"

datatype binop = BinAdd | BinSub | BinMul | BinDiv

datatype operation =
    Define ir_value
  | DmaLoadOp ir_value ir_value
  | DmaStoreOp ir_value ir_value
  | SyncOp
  | MatmulOp ir_value ir_value ir_value bool bool bool
  | EwiseOp binop ir_value ir_value ir_value
  | ActOp ir_value ir_value ActKind
  | ReduceOp ir_value ir_value "ir_value option" ReduceKind
  | DeallocOp ir_value
  | ForOp int int int "int \<Rightarrow> operation list"
  | OtherOp "ir_value list"

text \<open>
  The operands: \<open>DmaLoadOp src dst\<close>, \<open>DmaStoreOp src dst\<close>,
  \<open>MatmulOp lhs rhs dst accumulate transA transB\<close>, \<open>EwiseOp op lhs rhs dst\<close>,
  \<open>ActOp src dst kind\<close>, \<open>ReduceOp src dst idx kind\<close>; \<open>ForOp lb ub step body\<close> is \<open>scf.for\<close>, its
  body a function of the induction variable.
\<close>

primrec binop_code :: "binop \<Rightarrow> OpCode" where
  "binop_code BinAdd = ELEMENTWISE_ADD"
| "binop_code BinSub = ELEMENTWISE_SUB"
| "binop_code BinMul = ELEMENTWISE_MUL"
| "binop_code BinDiv = ELEMENTWISE_DIV"

text \<open>\<open>v.getDefiningOp<SramOp>().getAddr()\<close>.\<close>

definition sram_addr :: "ir_value \<Rightarrow> u32 result" where
  "sram_addr v = (case v of SramBuf i a t \<Rightarrow> Inr a | _ \<Rightarrow> Inl NullDeref)"

lemma sram_addr_eq_Inr: "sram_addr v = Inr a \<longleftrightarrow> (\<exists>i t. v = SramBuf i a t)"
  by (cases v) (auto simp: sram_addr_def)

end
