(* ===== verification/Dialect.thy ===== *)
theory Dialect
  imports Ir
begin

text \<open>
  The verifiers of compiler/lib/Dialect/Eclipse/Ops/*.cpp.  The type constraints of the operation
  definitions (rank 2, element type and memory space) are checked by MLIR before they run.
\<close>

definition memref_of :: "ty \<Rightarrow> memref option" where
  "memref_of t = (case t of MemRef m \<Rightarrow> Some m | OtherTy \<Rightarrow> None)"

definition verify_that :: "bool \<Rightarrow> string \<Rightarrow> unit result" where
  "verify_that c msg = (if c then Inr () else Inl (VerifyError msg))"

lemma verify_that_Inr [simp]: "verify_that c msg = Inr u \<longleftrightarrow> c"
  by (simp add: verify_that_def)

section \<open>Act\<close>

definition verifyAct :: "ty \<Rightarrow> ty \<Rightarrow> unit result" where
  "verifyAct src dst = (case (memref_of src, memref_of dst) of
       (Some s, Some d) \<Rightarrow> verify_that (mr_shape s = mr_shape d) ''ActOp src and dst shapes must match (''
     | _ \<Rightarrow> Inl (VerifyError ''ActOp operands must be MemRef types''))"

section \<open>DMA\<close>

text \<open>\<open>for (i = shape.size() - 1; i > 0; i--) if (strides[i - 1] != strides[i] * shape[i]) return false;\<close>\<close>

fun packed_from :: "int list \<Rightarrow> int list \<Rightarrow> nat \<Rightarrow> bool" where
  "packed_from strides shape 0 = True"
| "packed_from strides shape (Suc i) =
     (if strides ! i \<noteq> strides ! Suc i * shape ! Suc i then False else packed_from strides shape i)"

definition isPacked :: "memref \<Rightarrow> bool" where
  "isPacked t = (case mr_layout t of
       IdentityLayout \<Rightarrow> True
     | Strided strides offset \<Rightarrow>
         if last strides \<noteq> 1 then False
         else packed_from strides (mr_shape t) (length (mr_shape t) - 1))"

definition verifyDmaLoad :: "ty \<Rightarrow> ty \<Rightarrow> unit result" where
  "verifyDmaLoad src dst = (case (memref_of src, memref_of dst) of
       (Some s, Some d) \<Rightarrow>
         rbind (verify_that (mr_elem s = mr_elem d) ''DmaLoadOp source and destination element types must match ('') (\<lambda>_.
         rbind (verify_that (mr_shape s = mr_shape d) ''DmaLoadOp source and destination shapes must match ('') (\<lambda>_.
         rbind (verify_that (mr_space s = DDR_MEMORY_SPACE) ''src (DDR) must be in memory space 1'') (\<lambda>_.
         rbind (verify_that (mr_space d = SRAM_MEMORY_SPACE) ''dst (SRAM) must be in memory space 0'') (\<lambda>_.
           verify_that (isPacked d) ''dst (SRAM) must have identity layout (no strides)''))))
     | _ \<Rightarrow> Inl (VerifyError ''DmaLoadOp operands must be MemRef types''))"

definition verifyDmaStore :: "ty \<Rightarrow> ty \<Rightarrow> unit result" where
  "verifyDmaStore src dst = (case (memref_of src, memref_of dst) of
       (Some s, Some d) \<Rightarrow>
         rbind (verify_that (mr_elem s = mr_elem d) ''DmaStoreOp source and destination element types must match ('') (\<lambda>_.
         rbind (verify_that (mr_shape s = mr_shape d) ''DmaStoreOp source and destination shapes must match ('') (\<lambda>_.
           verify_that (isPacked s) ''src (SRAM) must be packed''))
     | _ \<Rightarrow> Inl (VerifyError ''DmaStoreOp operands must be MemRef types''))"

section \<open>Elementwise\<close>

text \<open>C++ \<open>%\<close> on \<open>int64_t\<close> truncates towards zero; it is zero exactly when the divisor divides.\<close>

definition verifyEwiseShapes :: "ty \<Rightarrow> ty \<Rightarrow> ty \<Rightarrow> unit result" where
  "verifyEwiseShapes lhs rhs dst = (case (memref_of lhs, memref_of rhs, memref_of dst) of
       (Some l, Some r, Some d) \<Rightarrow>
         rbind (verify_that (mr_shape l = mr_shape d) ''lhs and dst shapes must match ('') (\<lambda>_.
         rbind (verify_that (length (mr_shape d) = 2 \<and> length (mr_shape r) = 2) ''dst and rhs must be rank-2 ('') (\<lambda>_.
         rbind (verify_that (dim r 0 = 1 \<or> dim r 0 = dim d 0) ''rhs rows must be 1 or match dst rows ('') (\<lambda>_.
           verify_that (0 < dim r 1 \<and> dim r 1 dvd dim d 1) ''dst row width must be a multiple of rhs row width ('')))
     | _ \<Rightarrow> Inl (VerifyError ''operands must be MemRef types''))"

section \<open>Matmul\<close>

text \<open>With a transposition the left operand is laid out K x M, the right one N x K.\<close>

definition matmul_dims :: "bool \<Rightarrow> bool \<Rightarrow> memref \<Rightarrow> memref \<Rightarrow> int \<times> int \<times> int \<times> int" where
  "matmul_dims transA transB l r =
     (if transA then dim l 1 else dim l 0, if transA then dim l 0 else dim l 1,
      if transB then dim r 1 else dim r 0, if transB then dim r 0 else dim r 1)"

definition verifyMatmul :: "ty \<Rightarrow> ty \<Rightarrow> ty \<Rightarrow> bool \<Rightarrow> bool \<Rightarrow> unit result" where
  "verifyMatmul lhs rhs dst transA transB = (case (memref_of lhs, memref_of rhs, memref_of dst) of
       (Some l, Some r, Some d) \<Rightarrow> (case matmul_dims transA transB l r of (m, lhsK, rhsK, n) \<Rightarrow>
         rbind (verify_that (lhsK = rhsK) ''MatmulOp lhs K must match rhs M ('') (\<lambda>_.
         rbind (verify_that (dim d 0 = m) ''MatmulOp dst M must match lhs M ('') (\<lambda>_.
           verify_that (dim d 1 = n) ''MatmulOp dst N must match rhs N ('')))
     | _ \<Rightarrow> Inl (VerifyError ''MatmulOp operands must be MemRef types''))"

section \<open>Reduce and Sync\<close>

text \<open>
  \<open>idx\<close> is the optional operand.  The operands are compared as SSA values, their types through
  \<open>ty_of\<close>.
\<close>

definition verifyReduce :: "('v \<Rightarrow> ty) \<Rightarrow> 'v \<Rightarrow> 'v \<Rightarrow> 'v option \<Rightarrow> ReduceKind \<Rightarrow> unit result" where
  "verifyReduce ty_of src dst idx kind = (case (memref_of (ty_of src), memref_of (ty_of dst)) of
       (Some s, Some d) \<Rightarrow>
         rbind (verify_that (has_static_shape s \<and> has_static_shape d) ''ReduceOp src/dst must have static shapes'') (\<lambda>_.
         rbind (verify_that (dim s 0 \<noteq> 0 \<and> dim s 1 \<noteq> 0) ''ReduceOp src shape must be non-zero'') (\<lambda>_.
         rbind (verify_that (dim d 0 = dim s 0 \<and> dim d 1 = 1) ''ReduceOp dst must be rows x 1, got '') (\<lambda>_.
         rbind (verify_that ((kind = REDUCE_ARGMAX) = (idx \<noteq> None)) ''ReduceOp idx is required by argmax, unused otherwise'') (\<lambda>_.
         rbind (case idx of
             None \<Rightarrow> Inr ()
           | Some i \<Rightarrow>
               rbind (case memref_of (ty_of i) of
                   Some it \<Rightarrow> rbind (verify_that (has_static_shape it) ''ReduceOp idx must have a static shape'') (\<lambda>_.
                     verify_that (mr_shape it = mr_shape d) ''ReduceOp idx must have the same shape as dst'')
                 | None \<Rightarrow> Inl (VerifyError ''ReduceOp idx must have a static shape'')) (\<lambda>_.
               verify_that (i \<noteq> src \<and> i \<noteq> dst) ''ReduceOp src/dst/idx must not alias'')) (\<lambda>_.
           verify_that (src \<noteq> dst) ''ReduceOp src/dst must not alias'')))))
     | _ \<Rightarrow> Inl (VerifyError ''ReduceOp operands must be MemRef types''))"

definition verifySync :: "unit result" where
  "verifySync = Inr ()"

section \<open>Properties\<close>

text \<open>The row-major strides of a shape: each is the number of elements below its dimension.\<close>

definition row_major :: "int list \<Rightarrow> int list" where
  "row_major shape = map (\<lambda>i. prod_list (drop (Suc i) shape)) [0..<length shape]"

lemma packed_from_iff: "packed_from strides shape k \<longleftrightarrow> (\<forall>i<k. strides ! i = strides ! Suc i * shape ! Suc i)"
  by (induction k) (auto simp: less_Suc_eq)

lemma packed_strides:
  assumes "length strides = length shape" and "shape \<noteq> []"
  shows "last strides = 1 \<and> packed_from strides shape (length shape - 1) \<longleftrightarrow> strides = row_major shape"
proof
  define n where "n = length shape - 1"
  have n: "length shape = Suc n" using assms(2) by (simp add: n_def)
  have last: "last strides = strides ! n" using assms by (metis n diff_Suc_1 last_conv_nth length_0_conv nat.distinct(1))
  have step: "prod_list (drop (Suc i) shape) = shape ! Suc i * prod_list (drop (Suc (Suc i)) shape)" if "i < n" for i
    using that n by (simp add: Cons_nth_drop_Suc [symmetric])
  {
    assume "last strides = 1 \<and> packed_from strides shape (length shape - 1)"
    then have one: "strides ! n = 1" and p: "\<And>i. i < n \<Longrightarrow> strides ! i = strides ! Suc i * shape ! Suc i"
      using last by (simp_all add: packed_from_iff n_def)
    have "strides ! (n - j) = prod_list (drop (Suc (n - j)) shape)" if "j \<le> n" for j
      using that
    proof (induction j)
      case 0
      show ?case using one n by simp
    next
      case (Suc j)
      then have i: "n - Suc j < n" "Suc (n - Suc j) = n - j" by simp_all
      with Suc p [OF i(1)] step [OF i(1)] show ?case by simp
    qed
    then have "strides ! i = prod_list (drop (Suc i) shape)" if "i < length shape" for i
      using that n by (metis diff_diff_cancel diff_le_self less_Suc_eq_le)
    then show "strides = row_major shape"
      using assms(1) by (intro nth_equalityI) (simp_all add: row_major_def)
  }
  {
    assume r: "strides = row_major shape"
    have v: "strides ! i = prod_list (drop (Suc i) shape)" if "i \<le> n" for i
      using that n by (simp add: r row_major_def del: upt_Suc)
    show "last strides = 1 \<and> packed_from strides shape (length shape - 1)"
      using v [of n] v step n by (simp add: last packed_from_iff mult.commute)
  }
qed

text \<open>
  isPacked accepts a strided layout exactly when its strides are the row-major strides of the
  shape; the offset is not looked at.
\<close>

theorem isPacked_iff_row_major:
  assumes "mr_layout t = Strided strides offset" and "length strides = length (mr_shape t)" and "mr_shape t \<noteq> []"
  shows "isPacked t \<longleftrightarrow> strides = row_major (mr_shape t)"
  using packed_strides [OF assms(2,3)] by (auto simp: isPacked_def assms(1))

definition sample_tile :: "int list \<Rightarrow> memref" where
  "sample_tile strides = \<lparr>mr_shape = [4, 16], mr_elem = f16, mr_layout = Strided strides 32, mr_space = 1\<rparr>"

theorem isPacked_iff_row_major_witness:
  "isPacked (sample_tile [16, 1]) \<and> \<not> isPacked (sample_tile [64, 1])"
  using isPacked_iff_row_major [of "sample_tile [16, 1]" "[16, 1]" 32] isPacked_iff_row_major [of "sample_tile [64, 1]" "[64, 1]" 32]
  by (simp add: sample_tile_def row_major_def upt_rec)

end
