(* ===== verification/Lowering.thy ===== *)
theory Lowering
  imports Dialect
begin

text \<open>
  compiler/lib/Conversion/ConvertLinalgToEclipse: the rewrite patterns from linalg on memrefs to
  the eclipse dialect.  A pattern is a match, which may fail (\<open>None\<close>), and the list of operations
  it builds; \<open>n\<close> is the first tag that no value of the module has.  The body of a generic operation
  is the tree of the yielded values.
\<close>

section \<open>The operations of linalg\<close>

datatype affine_expr =
    AffineDim nat
  | AffineSym nat
  | AffineConst int
  | AffineAdd affine_expr affine_expr
  | AffineMul affine_expr affine_expr
  | AffineMod affine_expr affine_expr
  | AffineFloorDiv affine_expr affine_expr

record affine_map =
  am_dims :: nat
  am_syms :: nat
  am_results :: "affine_expr list"

datatype iterator_type = IterParallel | IterReduction

datatype arith_op = AddF | SubF | MulF | DivF | MaximumF | MaxNumF | OtherArith nat

text \<open>
  A value in a body: an argument of the body's block, a float constant, any other value, or the
  result of an operation with its operands; the flag says that the operation is in the body's block.
\<close>

datatype body_val =
    BodyArg nat
  | BodyConst real
  | BodyOuter nat
  | BodyOp bool arith_op "body_val list"

text \<open>An operand of a generic operation: a memref, or something else.\<close>

datatype operand = MemOperand ir_value | OtherOperand nat

record generic_op =
  g_inputs :: "operand list"
  g_outputs :: "operand list"
  g_iterators :: "iterator_type list"
  g_maps :: "affine_map list"
  g_yield :: "body_val list"

definition operand_memref :: "operand \<Rightarrow> ir_value option" where
  "operand_memref v = (case v of MemOperand m \<Rightarrow> Some m | OtherOperand i \<Rightarrow> None)"

section \<open>Common helpers\<close>

definition tileK :: int where "tileK = 16"

definition toDDR :: "nat \<Rightarrow> ir_value \<Rightarrow> ir_value" where
  "toDDR n v = CastRes n v ((value_type v)\<lparr>mr_space := DDR_MEMORY_SPACE\<rparr>)"

text \<open>\<open>MemRefType::get(shape, elementType)\<close>: identity layout, memory space 0.\<close>

definition sramTypeOf :: "ir_value \<Rightarrow> memref" where
  "sramTypeOf v = packed_memref (mr_shape (value_type v)) (mr_elem (value_type v))"

definition new_alloc :: "nat \<Rightarrow> memref \<Rightarrow> ir_value" where
  "new_alloc n t = AllocRes n t None"

section \<open>Elementwise operations\<close>

definition emitEwiseSequence :: "nat \<Rightarrow> ir_value \<Rightarrow> ir_value \<Rightarrow> ir_value \<Rightarrow> binop \<Rightarrow> operation list" where
  "emitEwiseSequence n big small out build =
     (let bigDDR = toDDR n big; smallDDR = toDDR (n + 1) small; outDDR = toDDR (n + 2) out;
          bigSram = new_alloc (n + 3) (sramTypeOf big);
          smallSram = new_alloc (n + 4) (sramTypeOf small);
          outSram = new_alloc (n + 5) (sramTypeOf out)
      in [Define bigDDR, Define smallDDR, Define outDDR, Define bigSram, Define smallSram, Define outSram,
          DmaLoadOp bigDDR bigSram, DmaLoadOp smallDDR smallSram, SyncOp,
          EwiseOp build bigSram smallSram outSram,
          SyncOp, DmaStoreOp outSram outDDR,
          DeallocOp outSram, DeallocOp smallSram, DeallocOp bigSram])"

text \<open>The named operations \<open>linalg.add\<close>, \<open>sub\<close>, \<open>mul\<close>, \<open>div\<close>.\<close>

definition EwiseLowering :: "nat \<Rightarrow> binop \<Rightarrow> ir_value \<Rightarrow> ir_value \<Rightarrow> ir_value \<Rightarrow> operation list" where
  "EwiseLowering n b in0 in1 out = emitEwiseSequence n in0 in1 out b"

definition isIdentityMap :: "affine_map \<Rightarrow> bool" where
  "isIdentityMap m =
     (if am_dims m \<noteq> 2 \<or> am_syms m \<noteq> 0 \<or> length (am_results m) \<noteq> 2 then False
      else am_results m ! 0 = AffineDim 0 \<and> am_results m ! 1 = AffineDim 1)"

definition isConstZero :: "affine_expr \<Rightarrow> bool" where
  "isConstZero e = (case e of AffineConst c \<Rightarrow> c = 0 | _ \<Rightarrow> False)"

definition matchModD1 :: "affine_expr \<Rightarrow> int option" where
  "matchModD1 e = (case e of
       AffineMod l r \<Rightarrow>
         if l \<noteq> AffineDim 1 then None
         else (case r of AffineConst c \<Rightarrow> Some c | _ \<Rightarrow> None)
     | _ \<Rightarrow> None)"

definition rhsMapMatches :: "affine_map \<Rightarrow> int list \<Rightarrow> int list \<Rightarrow> bool" where
  "rhsMapMatches m rhsShape dstShape =
     (if am_dims m \<noteq> 2 \<or> am_syms m \<noteq> 0 \<or> length (am_results m) \<noteq> 2 then False
      else let rowOk = (if rhsShape ! 0 = 1 then isConstZero (am_results m ! 0)
                        else am_results m ! 0 = AffineDim 0)
           in if \<not> rowOk then False
              else if rhsShape ! 1 = 1 then isConstZero (am_results m ! 1)
              else if rhsShape ! 1 = dstShape ! 1
                then am_results m ! 1 = AffineDim 1 \<or> matchModD1 (am_results m ! 1) = Some (rhsShape ! 1)
              else matchModD1 (am_results m ! 1) = Some (rhsShape ! 1))"

definition binOpOf :: "arith_op \<Rightarrow> binop option" where
  "binOpOf op = (case op of AddF \<Rightarrow> Some BinAdd | SubF \<Rightarrow> Some BinSub | MulF \<Rightarrow> Some BinMul
     | DivF \<Rightarrow> Some BinDiv | _ \<Rightarrow> None)"

definition argIndex :: "body_val \<Rightarrow> int" where
  "argIndex v = (case v of BodyArg i \<Rightarrow> int i | _ \<Rightarrow> -1)"

text \<open>\<open>compute\<close>: the binary operation in the body that defines the only yielded value.\<close>

definition body_compute :: "generic_op \<Rightarrow> (binop \<times> int \<times> int) option" where
  "body_compute g = (case g_yield g of
       [BodyOp inside op [a, b]] \<Rightarrow>
         if \<not> inside then None
         else (case binOpOf op of None \<Rightarrow> None
             | Some bin \<Rightarrow>
                 if argIndex a < 0 \<or> argIndex b < 0 then None else Some (bin, argIndex a, argIndex b))
     | _ \<Rightarrow> None)"

text \<open>The checks of \<open>EwiseBroadcastLowering\<close> on the shapes, the operand order and the maps.\<close>

definition broadcast_checks :: "affine_map list \<Rightarrow> memref \<Rightarrow> memref \<Rightarrow> memref \<Rightarrow> binop \<Rightarrow> int \<Rightarrow> int \<Rightarrow> nat option" where
  "broadcast_checks maps t0 t1 ot bin aIdx bIdx =
     (if \<not> has_static_shape t0 \<or> \<not> has_static_shape t1 \<or> \<not> has_static_shape ot then None
      else if length (mr_shape ot) \<noteq> 2 then None
      else if mr_shape t0 \<noteq> mr_shape ot \<and> mr_shape t1 \<noteq> mr_shape ot then None
      else let bigIdx = (if mr_shape t0 = mr_shape ot then 0 else 1);
               smallIdx = 1 - bigIdx;
               forward = (aIdx = int bigIdx \<and> bIdx = int smallIdx);
               swapped = (aIdx = int smallIdx \<and> bIdx = int bigIdx);
               st = (if smallIdx = 0 then t0 else t1)
           in if \<not> forward \<and> \<not> swapped then None
              else if swapped \<and> bin \<noteq> BinAdd \<and> bin \<noteq> BinMul then None
              else if length (mr_shape st) \<noteq> 2 \<or> dim st 1 \<le> 0 \<or> \<not> dim st 1 dvd dim ot 1 then None
              else if dim st 0 \<noteq> 1 \<and> dim st 0 \<noteq> dim ot 0 then None
              else if length maps \<noteq> 3 \<or> \<not> isIdentityMap (maps ! bigIdx) \<or> \<not> isIdentityMap (maps ! 2)
                  \<or> \<not> rhsMapMatches (maps ! smallIdx) (mr_shape st) (mr_shape ot) then None
              else Some bigIdx)"

text \<open>The match of \<open>EwiseBroadcastLowering\<close>: the big operand, the small one, the result, the operation.\<close>

definition match_broadcast :: "generic_op \<Rightarrow> (ir_value \<times> ir_value \<times> ir_value \<times> binop) option" where
  "match_broadcast g =
     (case (g_inputs g, g_outputs g) of
        ([i0, i1], [o0]) \<Rightarrow>
          if \<not> list_all (\<lambda>t. t = IterParallel) (g_iterators g) then None
          else (case body_compute g of None \<Rightarrow> None
            | Some (bin, aIdx, bIdx) \<Rightarrow>
              (case (operand_memref i0, operand_memref i1, operand_memref o0) of
                 (Some v0, Some v1, Some vo) \<Rightarrow>
                   (case broadcast_checks (g_maps g) (value_type v0) (value_type v1) (value_type vo) bin aIdx bIdx of
                      None \<Rightarrow> None
                    | Some bigIdx \<Rightarrow> Some (if bigIdx = 0 then (v0, v1, vo, bin) else (v1, v0, vo, bin)))
               | _ \<Rightarrow> None))
      | _ \<Rightarrow> None)"

definition EwiseBroadcastLowering :: "nat \<Rightarrow> generic_op \<Rightarrow> operation list option" where
  "EwiseBroadcastLowering n g = (case match_broadcast g of
       None \<Rightarrow> None
     | Some (big, small, out, bin) \<Rightarrow> Some (emitEwiseSequence n big small out bin))"

section \<open>Activations\<close>

definition lowerAct :: "nat \<Rightarrow> ir_value \<Rightarrow> ir_value \<Rightarrow> ActKind \<Rightarrow> operation list" where
  "lowerAct n src dst kind =
     (let srcDDR = toDDR n src; dstDDR = toDDR (n + 1) dst;
          srcSram = new_alloc (n + 2) (sramTypeOf dst); dstSram = new_alloc (n + 3) (sramTypeOf dst)
      in [Define srcDDR, Define dstDDR, Define srcSram, Define dstSram,
          DmaLoadOp srcDDR srcSram, SyncOp, ActOp srcSram dstSram kind, SyncOp, DmaStoreOp dstSram dstDDR,
          DeallocOp dstSram, DeallocOp srcSram])"

text \<open>\<open>linalg.exp\<close> and \<open>linalg.rsqrt\<close>.\<close>

definition NamedActLowering :: "nat \<Rightarrow> ActKind \<Rightarrow> ir_value \<Rightarrow> ir_value \<Rightarrow> operation list" where
  "NamedActLowering n kind in0 out = lowerAct n in0 out kind"

text \<open>\<open>m_AnyZeroFloat\<close>: a constant zero of either sign.\<close>

definition is_zero_const :: "body_val \<Rightarrow> bool" where
  "is_zero_const v = (case v of BodyConst c \<Rightarrow> c = 0 | _ \<Rightarrow> False)"

definition matchActBody :: "generic_op \<Rightarrow> ActKind option" where
  "matchActBody g = (case g_yield g of
       BodyOp inside op [lhs, rhs] # _ \<Rightarrow>
         if op \<noteq> MaximumF \<and> op \<noteq> MaxNumF then None
         else if lhs = BodyArg 0 \<and> is_zero_const rhs \<or> rhs = BodyArg 0 \<and> is_zero_const lhs then Some RELU
         else None
     | _ \<Rightarrow> None)"

definition ActLowering :: "nat \<Rightarrow> generic_op \<Rightarrow> operation list option" where
  "ActLowering n g = (case (g_inputs g, g_outputs g) of
       ([MemOperand i0], [MemOperand o0]) \<Rightarrow>
         (case matchActBody g of None \<Rightarrow> None | Some kind \<Rightarrow> Some (lowerAct n i0 o0 kind))
     | _ \<Rightarrow> None)"

section \<open>Reductions\<close>

definition lowerReduce :: "nat \<Rightarrow> ir_value \<Rightarrow> ir_value \<Rightarrow> ReduceKind \<Rightarrow> operation list" where
  "lowerReduce n src dst kind =
     (let srcDDR = toDDR n src; dstDDR = toDDR (n + 1) dst;
          srcSram = new_alloc (n + 2) (sramTypeOf src); dstSram = new_alloc (n + 3) (sramTypeOf dst)
      in [Define srcDDR, Define dstDDR, Define srcSram, Define dstSram,
          DmaLoadOp srcDDR srcSram, SyncOp, ReduceOp srcSram dstSram None kind, SyncOp, DmaStoreOp dstSram dstDDR,
          DeallocOp dstSram, DeallocOp srcSram])"

definition matchReduceBody :: "body_val \<Rightarrow> body_val \<Rightarrow> body_val \<Rightarrow> ReduceKind option" where
  "matchReduceBody rootv inp out = (case rootv of
       BodyOp inside op [lhs, rhs] \<Rightarrow>
         if op = AddF then
           (if lhs \<noteq> out \<and> rhs \<noteq> out then None
            else let other = (if lhs = out then rhs else lhs)
                 in if other = inp then Some REDUCE_SUM
                    else (case other of
                        BodyOp inside' op' [l, r] \<Rightarrow>
                          if op' = MulF \<and> l = inp \<and> r = inp then Some REDUCE_SQUARE_SUM else None
                      | _ \<Rightarrow> None))
         else if op = MaximumF \<or> op = MaxNumF then
           (if lhs = inp \<and> rhs = out \<or> lhs = out \<and> rhs = inp then Some REDUCE_MAX else None)
         else None
     | _ \<Rightarrow> None)"

definition GenericReduceLowering :: "nat \<Rightarrow> generic_op \<Rightarrow> operation list option" where
  "GenericReduceLowering n g = (case (g_inputs g, g_outputs g) of
       ([MemOperand i0], [MemOperand o0]) \<Rightarrow>
         if g_iterators g \<noteq> [IterParallel, IterReduction] then None
         else if length (g_maps g) \<noteq> 2 \<or> length (am_results (g_maps g ! 0)) \<noteq> 2 \<or> length (am_results (g_maps g ! 1)) \<noteq> 2 then None
         else if g_maps g ! 0 \<noteq> \<lparr>am_dims = 2, am_syms = 0, am_results = [AffineDim 0, AffineDim 1]\<rparr> then None
         else if \<not> isConstZero (am_results (g_maps g ! 1) ! 1) then None
         else (case g_yield g of
             rootv # _ \<Rightarrow> (case matchReduceBody rootv (BodyArg 0) (BodyArg 1) of
                 None \<Rightarrow> None | Some kind \<Rightarrow> Some (lowerReduce n i0 o0 kind))
           | [] \<Rightarrow> None)
     | _ \<Rightarrow> None)"

text \<open>
  \<open>linalg.reduce\<close>, with its dimensions and the value its combiner yields; the rank-1 result is
  expanded to one column.
\<close>

definition NamedReduceLowering :: "nat \<Rightarrow> operand list \<Rightarrow> operand list \<Rightarrow> int list \<Rightarrow> body_val \<Rightarrow> operation list option" where
  "NamedReduceLowering n inputs inits dims rootv = (case (inputs, inits) of
       ([i0], [o0]) \<Rightarrow>
         if dims \<noteq> [1] then None
         else (case (operand_memref i0, operand_memref o0) of
             (Some src, Some init) \<Rightarrow>
               let st = value_type src; it = value_type init
               in if \<not> has_static_shape st \<or> \<not> has_static_shape it then None
                  else if length (mr_shape st) \<noteq> 2 \<or> length (mr_shape it) \<noteq> 1 then None
                  else if dim it 0 \<noteq> dim st 0 then None
                  else (case matchReduceBody rootv (BodyArg 0) (BodyArg 1) of
                      None \<Rightarrow> None
                    | Some kind \<Rightarrow>
                        let dst2d = ExpandRes n init \<lparr>mr_shape = [dim it 0, 1], mr_elem = mr_elem it,
                              mr_layout = IdentityLayout, mr_space = mr_space it\<rparr>
                        in Some (Define dst2d # lowerReduce (n + 1) src dst2d kind))
           | _ \<Rightarrow> None)
     | _ \<Rightarrow> None)"

section \<open>Matrix product\<close>

definition memref_strides :: "memref \<Rightarrow> int list" where
  "memref_strides t = (case mr_layout t of IdentityLayout \<Rightarrow> row_major (mr_shape t) | Strided s off \<Rightarrow> s)"

definition memref_offset :: "memref \<Rightarrow> int" where
  "memref_offset t = (case mr_layout t of IdentityLayout \<Rightarrow> 0 | Strided s off \<Rightarrow> off)"

text \<open>The subview of a rank-2 memref, with the layout its type carries.\<close>

definition subview2 :: "nat \<Rightarrow> ir_value \<Rightarrow> int list \<Rightarrow> int list \<Rightarrow> ir_value" where
  "subview2 n v offs sizes =
     (let t = value_type v; s = memref_strides t
      in SubViewRes n v offs sizes [1, 1]
           (t\<lparr>mr_shape := sizes,
              mr_layout := Strided s (memref_offset t + offs ! 0 * s ! 0 + offs ! 1 * s ! 1)\<rparr>))"

text \<open>One tile of the inner dimension: load its columns and rows, multiply, with or without accumulation.\<close>

definition matmul_tile :: "nat \<Rightarrow> int \<Rightarrow> int \<Rightarrow> ir_value \<Rightarrow> ir_value \<Rightarrow> ir_value \<Rightarrow> ir_value \<Rightarrow> ir_value \<Rightarrow> bool \<Rightarrow> int \<Rightarrow> operation list" where
  "matmul_tile n m cols lhsDDR rhsDDR lhsSram rhsSram dstSram acc ik =
     (let subLhs = subview2 n lhsDDR [0, ik] [m, tileK];
          subRhs = subview2 (n + 1) rhsDDR [ik, 0] [tileK, cols]
      in [Define subLhs, Define subRhs, DmaLoadOp subLhs lhsSram, DmaLoadOp subRhs rhsSram, SyncOp,
          MatmulOp lhsSram rhsSram dstSram acc False False, SyncOp])"

definition MatmulLowering :: "nat \<Rightarrow> ir_value \<Rightarrow> ir_value \<Rightarrow> ir_value \<Rightarrow> operation list result" where
  "MatmulLowering n lhs rhs dst =
     (let lhsDDR = toDDR n lhs; rhsDDR = toDDR (n + 1) rhs; dstDDR = toDDR (n + 2) dst;
          lt = value_type lhs; rt = value_type rhs; dt = value_type dst;
          m = dim lt 0; k = dim lt 1; cols = dim rt 1;
          lhsSram = new_alloc (n + 3) (packed_memref [m, tileK] (mr_elem lt));
          rhsSram = new_alloc (n + 4) (packed_memref [tileK, cols] (mr_elem rt));
          dstSram = new_alloc (n + 5) (packed_memref [m, cols] (mr_elem dt))
      in if \<not> tileK dvd k then Inl (Unreachable ''Currently only supports cases with exact division.'')
         else let tile = k div tileK
              in Inr ([Define lhsDDR, Define rhsDDR, Define dstDDR, Define lhsSram, Define rhsSram, Define dstSram]
                 @ matmul_tile (n + 6) m cols lhsDDR rhsDDR lhsSram rhsSram dstSram False 0
                 @ (if tile > 1
                    then [ForOp 1 tile 1 (\<lambda>iv. matmul_tile (n + 8 + 2 * nat iv) m cols lhsDDR rhsDDR lhsSram rhsSram dstSram
                            True (iv * tileK))]
                    else [])
                 @ [DmaStoreOp dstSram dstDDR, DeallocOp dstSram, DeallocOp rhsSram, DeallocOp lhsSram]))"


section \<open>The pass\<close>

datatype linalg_op =
    LinalgBinary binop ir_value ir_value ir_value
  | LinalgExp ir_value ir_value
  | LinalgRsqrt ir_value ir_value
  | LinalgMatmul ir_value ir_value ir_value
  | LinalgGeneric generic_op
  | LinalgReduce "operand list" "operand list" "int list" body_val
  | LinalgOther nat

text \<open>
  The patterns for a generic operation, in the order of their registration.  At most one of them
  matches (\<open>generic_patterns_disjoint\<close>), so the driver's order does not matter.
\<close>

definition lower_generic :: "nat \<Rightarrow> generic_op \<Rightarrow> operation list option" where
  "lower_generic n g = (case EwiseBroadcastLowering n g of Some ops \<Rightarrow> Some ops
     | None \<Rightarrow> (case ActLowering n g of Some ops \<Rightarrow> Some ops
       | None \<Rightarrow> GenericReduceLowering n g))"

fun lower_linalg :: "nat \<Rightarrow> linalg_op \<Rightarrow> operation list option result" where
  "lower_linalg n (LinalgBinary b in0 in1 out) = Inr (Some (EwiseLowering n b in0 in1 out))"
| "lower_linalg n (LinalgExp in0 out) = Inr (Some (NamedActLowering n EXP in0 out))"
| "lower_linalg n (LinalgRsqrt in0 out) = Inr (Some (NamedActLowering n RSQRT in0 out))"
| "lower_linalg n (LinalgMatmul lhs rhs dst) = rbind (MatmulLowering n lhs rhs dst) (\<lambda>ops. Inr (Some ops))"
| "lower_linalg n (LinalgGeneric g) = Inr (lower_generic n g)"
| "lower_linalg n (LinalgReduce ins inits dims y) = Inr (NamedReduceLowering n ins inits dims y)"
| "lower_linalg n (LinalgOther i) = Inr None"

text \<open>The number of new values of a rewrite.\<close>

fun new_values :: "linalg_op \<Rightarrow> nat" where
  "new_values (LinalgMatmul lhs rhs dst) = 8 + 2 * nat (dim (value_type lhs) 1 div tileK)"
| "new_values op = 6"

text \<open>
  \<open>runOnOperation\<close> on a straight line of operations: the others are legal and stay; a linalg
  operation that no pattern rewrites makes the pass fail (\<open>None\<close>).
\<close>

fun convert_linalg :: "nat \<Rightarrow> (operation + linalg_op) list \<Rightarrow> operation list option result" where
  "convert_linalg n [] = Inr (Some [])"
| "convert_linalg n (Inl legal # ops) = rbind (convert_linalg n ops) (\<lambda>r. Inr (map_option ((#) legal) r))"
| "convert_linalg n (Inr linalg # ops) =
     rbind (lower_linalg n linalg) (\<lambda>new.
       case new of None \<Rightarrow> Inr None
     | Some xs \<Rightarrow> rbind (convert_linalg (n + new_values linalg) ops) (\<lambda>r. Inr (map_option ((@) xs) r)))"

lemma generic_disjoint:
  "(if ActLowering n g = None then 0 else 1) + (if EwiseBroadcastLowering n g = None then 0 else 1)
     + (if GenericReduceLowering n g = None then 0 else 1) \<le> (1 :: nat)"
proof -
  have a: "length (g_inputs g) = 1" if "ActLowering n g \<noteq> None"
    using that by (auto simp: ActLowering_def split: list.splits operand.splits)
  have b: "length (g_inputs g) = 2" if "EwiseBroadcastLowering n g \<noteq> None"
    using that by (auto simp: EwiseBroadcastLowering_def match_broadcast_def split: list.splits option.splits)
  have c: "length (g_inputs g) = 1" if "GenericReduceLowering n g \<noteq> None"
    using that by (auto simp: GenericReduceLowering_def split: list.splits operand.splits)
  have "ActLowering n g = None \<or> GenericReduceLowering n g = None"
  proof (rule ccontr)
    assume "\<not> ?thesis"
    then have "matchActBody g \<noteq> None" "\<exists>y ys. g_yield g = y # ys \<and> matchReduceBody y (BodyArg 0) (BodyArg 1) \<noteq> None"
      by (auto simp: ActLowering_def GenericReduceLowering_def split: list.splits operand.splits option.splits if_splits)
    then show False
      by (auto simp: matchActBody_def matchReduceBody_def is_zero_const_def split: list.splits body_val.splits if_splits)
  qed
  with a b c show ?thesis
    by (cases "ActLowering n g = None"; cases "EwiseBroadcastLowering n g = None"; cases "GenericReduceLowering n g = None") simp_all
qed

text \<open>
  At most one of the three patterns for a generic operation matches it.
\<close>

theorem generic_patterns_disjoint:
  "(if ActLowering n g = None then 0 else 1) + (if EwiseBroadcastLowering n g = None then 0 else 1)
     + (if GenericReduceLowering n g = None then 0 else 1) \<le> (1 :: nat)"
  by (rule generic_disjoint)

end
