(* ===== verification/Tensors.thy ===== *)
theory Tensors
  imports Lowering
begin

text \<open>
  The meaning of the IR at the level of tensors, against which the passes are judged.  Memory maps
  every root buffer (a block argument, an allocation) to its elements; casts, subviews and expanded
  shapes are windows on their root.  The arithmetic of the chip is a parameter; \<open>step_op\<close> is what
  one operation of the program does to memory.
\<close>

section \<open>Views\<close>

type_synonym 'a tensors = "ir_value \<Rightarrow> int list \<Rightarrow> 'a"

primrec root_of :: "ir_value \<Rightarrow> ir_value" where
  "root_of (BlockArg i t) = BlockArg i t"
| "root_of (SramBuf i a t) = SramBuf i a t"
| "root_of (AllocRes i t al) = AllocRes i t al"
| "root_of (CastRes i v t) = root_of v"
| "root_of (SubViewRes i v offs sizes strides t) = root_of v"
| "root_of (ExpandRes i v t) = root_of v"

text \<open>The index into the root buffer; the one that an index of the root has in the view.\<close>

primrec root_index :: "ir_value \<Rightarrow> int list \<Rightarrow> int list" where
  "root_index (BlockArg i t) js = js"
| "root_index (SramBuf i a t) js = js"
| "root_index (AllocRes i t al) js = js"
| "root_index (CastRes i v t) js = root_index v js"
| "root_index (SubViewRes i v offs sizes strides t) js = root_index v (map2 (+) offs (map2 (*) strides js))"
| "root_index (ExpandRes i v t) js = root_index v (butlast js)"

primrec own_index :: "ir_value \<Rightarrow> int list \<Rightarrow> int list" where
  "own_index (BlockArg i t) js = js"
| "own_index (SramBuf i a t) js = js"
| "own_index (AllocRes i t al) js = js"
| "own_index (CastRes i v t) js = own_index v js"
| "own_index (SubViewRes i v offs sizes strides t) js = map2 (div) (map2 (-) (own_index v js) offs) strides"
| "own_index (ExpandRes i v t) js = own_index v js @ [0]"

definition in_shape :: "memref \<Rightarrow> int list \<Rightarrow> bool" where
  "in_shape t js \<longleftrightarrow> list_all2 (\<lambda>j s. 0 \<le> j \<and> j < s) js (mr_shape t)"

lemma in_shape_2: "mr_shape t = [a, b] \<Longrightarrow> in_shape t js \<longleftrightarrow> (\<exists>r c. js = [r, c] \<and> 0 \<le> r \<and> r < a \<and> 0 \<le> c \<and> c < b)"
  by (auto simp: in_shape_def list_all2_Cons2)

text \<open>A view whose elements are distinct elements of the root.\<close>

primrec addressable :: "ir_value \<Rightarrow> bool" where
  "addressable (BlockArg i t) = True"
| "addressable (SramBuf i a t) = True"
| "addressable (AllocRes i t al) = True"
| "addressable (CastRes i v t) = (addressable v \<and> mr_shape t = mr_shape (value_type v))"
| "addressable (SubViewRes i v offs sizes strides t) =
     (addressable v \<and> mr_shape t = sizes \<and> length offs = length sizes \<and> length strides = length sizes
      \<and> length sizes = length (mr_shape (value_type v)) \<and> list_all (\<lambda>s. 0 < s) strides
      \<and> list_all (\<lambda>i. 0 \<le> offs ! i \<and> offs ! i + strides ! i * (sizes ! i - 1) < mr_shape (value_type v) ! i) [0..<length sizes])"
| "addressable (ExpandRes i v t) =
     (addressable v \<and> mr_shape t = mr_shape (value_type v) @ [1])"

lemma own_root_index: "addressable v \<Longrightarrow> in_shape (value_type v) js \<Longrightarrow> own_index v (root_index v js) = js"
proof (induction v arbitrary: js)
  case (CastRes i v t)
  then show ?case by (simp add: in_shape_def)
next
  case (SubViewRes i v offs sizes strides t)
  define ks where "ks = map2 (+) offs (map2 (*) strides js)"
  from SubViewRes.prems have js: "list_all2 (\<lambda>j s. 0 \<le> j \<and> j < s) js sizes"
    and len: "length offs = length sizes" "length strides = length sizes" "length sizes = length (mr_shape (value_type v))"
    and b: "\<And>i. i < length sizes \<Longrightarrow> 0 < strides ! i \<and> 0 \<le> offs ! i
        \<and> offs ! i + strides ! i * (sizes ! i - 1) < mr_shape (value_type v) ! i"
    by (auto simp: in_shape_def list_all_length)
  have l: "length js = length sizes" using js by (rule list_all2_lengthD)
  have "0 \<le> ks ! i \<and> ks ! i < mr_shape (value_type v) ! i" if i: "i < length sizes" for i
  proof -
    from js i have j: "0 \<le> js ! i" "js ! i \<le> sizes ! i - 1" by (simp_all add: list_all2_conv_all_nth)
    from b [OF i] j have "0 \<le> strides ! i * js ! i" "strides ! i * js ! i \<le> strides ! i * (sizes ! i - 1)"
      by (simp, intro mult_left_mono) simp_all
    moreover have "ks ! i = offs ! i + strides ! i * js ! i" using i l len by (simp add: ks_def)
    ultimately show ?thesis using b [OF i] by linarith
  qed
  then have "in_shape (value_type v) ks" using l len by (simp add: in_shape_def list_all2_conv_all_nth ks_def)
  with SubViewRes have "own_index v (root_index v ks) = ks" by simp
  moreover have "map2 (div) (map2 (-) ks offs) strides = js"
    using l len b by (intro nth_equalityI) (auto simp: ks_def less_imp_neq [symmetric])
  ultimately show ?case by (simp add: ks_def)
next
  case (ExpandRes i v t)
  from ExpandRes.prems obtain ks k where js: "js = ks @ [k]" and k: "0 \<le> k" "k < 1" and ks: "in_shape (value_type v) ks"
    by (auto simp: in_shape_def list_all2_append2 list_all2_Cons2)
  with ExpandRes show ?case by simp
qed simp_all

definition read :: "'a tensors \<Rightarrow> ir_value \<Rightarrow> int list \<Rightarrow> 'a" where
  "read m v js = m (root_of v) (root_index v js)"

definition store :: "'a tensors \<Rightarrow> ir_value \<Rightarrow> (int list \<Rightarrow> 'a) \<Rightarrow> 'a tensors" where
  "store m v f = m(root_of v := (\<lambda>js. let ks = own_index v js
     in if in_shape (value_type v) ks \<and> root_index v ks = js then f ks else m (root_of v) js))"

lemma read_store_same: "addressable v \<Longrightarrow> in_shape (value_type v) js \<Longrightarrow> read (store m v f) v js = f js"
  by (simp add: read_def store_def own_root_index)

lemma read_store_other: "root_of v \<noteq> root_of w \<Longrightarrow> read (store m w f) v = read m v"
  by (simp add: read_def store_def fun_eq_iff)

lemma store_other: "r \<noteq> root_of w \<Longrightarrow> store m w f r = m r"
  by (simp add: store_def)

section \<open>Operations\<close>

record 'a chip =
  ch_arith :: "arith_op \<Rightarrow> 'a \<Rightarrow> 'a \<Rightarrow> 'a"
  ch_const :: "real \<Rightarrow> 'a"
  ch_act :: "ActKind \<Rightarrow> 'a \<Rightarrow> 'a"
  ch_reduce :: "ReduceKind \<Rightarrow> 'a list \<Rightarrow> 'a"
  ch_argmax :: "'a list \<Rightarrow> 'a"
  ch_dot :: "'a option \<Rightarrow> ('a \<times> 'a) list \<Rightarrow> 'a"

primrec bin_arith :: "binop \<Rightarrow> arith_op" where
  "bin_arith BinAdd = AddF"
| "bin_arith BinSub = SubF"
| "bin_arith BinMul = MulF"
| "bin_arith BinDiv = DivF"

definition row_values :: "'a tensors \<Rightarrow> ir_value \<Rightarrow> int \<Rightarrow> 'a list" where
  "row_values m s r = map (\<lambda>c. read m s [r, c]) [0..dim (value_type s) 1 - 1]"

definition dot_pairs :: "'a tensors \<Rightarrow> ir_value \<Rightarrow> ir_value \<Rightarrow> bool \<Rightarrow> bool \<Rightarrow> int list \<Rightarrow> ('a \<times> 'a) list" where
  "dot_pairs m l r transA transB js =
     map (\<lambda>k. (read m l (if transA then [k, js ! 0] else [js ! 0, k]),
               read m r (if transB then [js ! 1, k] else [k, js ! 1])))
       [0..(if transA then dim (value_type l) 0 else dim (value_type l) 1) - 1]"

function for_range :: "int \<Rightarrow> int \<Rightarrow> int \<Rightarrow> int list" where
  "for_range lb ub st = (if 0 < st \<and> lb < ub then lb # for_range (lb + st) ub st else [])"
  by pat_completeness auto
termination by (relation "measure (\<lambda>(lb, ub, st). nat (ub - lb))") auto

declare for_range.simps [simp del]

primrec step_op :: "'a chip \<Rightarrow> operation \<Rightarrow> 'a tensors \<Rightarrow> 'a tensors" where
  "step_op C (Define v) = id"
| "step_op C (DmaLoadOp s d) = (\<lambda>m. store m d (read m s))"
| "step_op C (DmaStoreOp s d) = (\<lambda>m. store m d (read m s))"
| "step_op C SyncOp = id"
| "step_op C (MatmulOp l r d acc transA transB) = (\<lambda>m. store m d (\<lambda>js.
     ch_dot C (if acc then Some (read m d js) else None) (dot_pairs m l r transA transB js)))"
| "step_op C (EwiseOp b l r d) = (\<lambda>m. store m d (\<lambda>js. ch_arith C (bin_arith b) (read m l js)
     (read m r [if dim (value_type r) 0 = 1 then 0 else js ! 0, js ! 1 mod dim (value_type r) 1])))"
| "step_op C (ActOp s d k) = (\<lambda>m. store m d (\<lambda>js. ch_act C k (read m s js)))"
| "step_op C (ReduceOp s d i k) = (\<lambda>m.
     let m' = store m d (\<lambda>js. ch_reduce C k (row_values m s (js ! 0)))
     in (case i of None \<Rightarrow> m' | Some v \<Rightarrow> store m' v (\<lambda>js. ch_argmax C (row_values m s (js ! 0)))))"
| "step_op C (DeallocOp v) = id"
| "step_op C (ForOp lb ub st body) = fold (\<lambda>iv. fold id ((map (step_op C) \<circ> body) iv)) (for_range lb ub st)"
| "step_op C (OtherOp vs) = id"

definition run_ops :: "'a chip \<Rightarrow> operation list \<Rightarrow> 'a tensors \<Rightarrow> 'a tensors" where
  "run_ops C ops = fold (step_op C) ops"

lemma run_ops_simps [simp]:
  "run_ops C [] m = m"
  "run_ops C (x # ops) m = run_ops C ops (step_op C x m)"
  "run_ops C (ops @ ops') m = run_ops C ops' (run_ops C ops m)"
  by (simp_all add: run_ops_def)

lemma step_for: "step_op C (ForOp lb ub st body) m = fold (\<lambda>iv. run_ops C (body iv)) (for_range lb ub st) m"
  by (simp add: run_ops_def fold_map comp_def)

lemma step_for_upto: "step_op C (ForOp lb ub 1 body) m = fold (\<lambda>iv. run_ops C (body iv)) [lb..ub - 1] m"
proof -
  have "for_range lb ub 1 = [lb..ub - 1]"
  proof (induction "nat (ub - lb)" arbitrary: lb)
    case 0
    then show ?case by (simp add: for_range.simps)
  next
    case (Suc n)
    then have "for_range (lb + 1) ub 1 = [lb + 1..ub - 1]" "lb < ub" by simp_all
    then show ?case by (subst for_range.simps) (simp add: upto_rec1)
  qed
  then show ?thesis unfolding step_for by simp
qed

section \<open>Fresh buffers\<close>

text \<open>All the values a view is made of have tags below \<open>n\<close>.\<close>

primrec tags_below :: "nat \<Rightarrow> ir_value \<Rightarrow> bool" where
  "tags_below n (BlockArg i t) = (i < n)"
| "tags_below n (SramBuf i a t) = (i < n)"
| "tags_below n (AllocRes i t al) = (i < n)"
| "tags_below n (CastRes i v t) = (i < n \<and> tags_below n v)"
| "tags_below n (SubViewRes i v offs sizes strides t) = (i < n \<and> tags_below n v)"
| "tags_below n (ExpandRes i v t) = (i < n \<and> tags_below n v)"

lemma root_of_fresh: "tags_below n v \<Longrightarrow> n \<le> k \<Longrightarrow> root_of v \<noteq> new_alloc k t"
  by (induction v) (auto simp: new_alloc_def)

lemma tags_below_root: "tags_below n v \<Longrightarrow> tags_below n (root_of v)"
  by (induction v) auto

lemma fresh_alloc: "tags_below n r \<Longrightarrow> n \<le> k \<Longrightarrow> r \<noteq> new_alloc k t"
  by (auto simp: new_alloc_def)

lemma new_alloc_simps [simp]:
  "root_of (new_alloc k t) = new_alloc k t" "addressable (new_alloc k t)" "value_type (new_alloc k t) = t"
  "new_alloc k t = new_alloc k' t' \<longleftrightarrow> k = k' \<and> t = t'"
  by (simp_all add: new_alloc_def)

lemma toDDR_simps [simp]:
  "root_of (toDDR k v) = root_of v" "read m (toDDR k v) = read m v" "store m (toDDR k v) f = store m v f"
  "mr_shape (value_type (toDDR k v)) = mr_shape (value_type v)"
  by (simp_all add: toDDR_def read_def store_def in_shape_def Let_def fun_eq_iff)

lemma sramTypeOf_shape [simp]: "mr_shape (sramTypeOf v) = mr_shape (value_type v)"
  by (simp add: sramTypeOf_def packed_memref_def)

end
