(* ===== verification/Elide.thy ===== *)
theory Elide
  imports Tensors
begin

text \<open>
  compiler/lib/Dialect/Eclipse/Transforms/EclipseElideCopies: a value that is stored to DDR and
  loaded back in the same block is used from where it is, and a store that then feeds nothing is
  erased.  A module is the list of its operations in the order of the walk, each with its identity
  and the block it is in; operations of a nested region carry their own block.
\<close>

section \<open>Uses\<close>

record walked =
  w_id :: nat
  w_block :: nat
  w_op :: operation

primrec def_operands :: "ir_value \<Rightarrow> ir_value list" where
  "def_operands (BlockArg i t) = []"
| "def_operands (SramBuf i a t) = []"
| "def_operands (AllocRes i t al) = []"
| "def_operands (CastRes i v t) = [v]"
| "def_operands (SubViewRes i v offs sizes strides t) = [v]"
| "def_operands (ExpandRes i v t) = [v]"

fun operands :: "operation \<Rightarrow> ir_value list" where
  "operands (Define v) = def_operands v"
| "operands (DmaLoadOp s d) = [s, d]"
| "operands (DmaStoreOp s d) = [s, d]"
| "operands SyncOp = []"
| "operands (MatmulOp l r d acc transA transB) = [l, r, d]"
| "operands (EwiseOp b l r d) = [l, r, d]"
| "operands (ActOp s d k) = [s, d]"
| "operands (ReduceOp s d i k) = [s, d] @ (case i of None \<Rightarrow> [] | Some v \<Rightarrow> [v])"
| "operands (DeallocOp v) = [v]"
| "operands (ForOp lb ub st body) = []"
| "operands (OtherOp vs) = vs"

definition users :: "walked list \<Rightarrow> ir_value \<Rightarrow> walked list" where
  "users prog v = filter (\<lambda>w. v \<in> set (operands (w_op w))) prog"

text \<open>A use of \<open>a\<close> becomes a use of \<open>b\<close>, also in the definitions a value is made of.\<close>

primrec subst_value :: "ir_value \<Rightarrow> ir_value \<Rightarrow> ir_value \<Rightarrow> ir_value" where
  "subst_value a b (BlockArg i t) = (if BlockArg i t = a then b else BlockArg i t)"
| "subst_value a b (SramBuf i p t) = (if SramBuf i p t = a then b else SramBuf i p t)"
| "subst_value a b (AllocRes i t al) = (if AllocRes i t al = a then b else AllocRes i t al)"
| "subst_value a b (CastRes i v t) = (if CastRes i v t = a then b else CastRes i (subst_value a b v) t)"
| "subst_value a b (SubViewRes i v offs sizes strides t) =
     (if SubViewRes i v offs sizes strides t = a then b else SubViewRes i (subst_value a b v) offs sizes strides t)"
| "subst_value a b (ExpandRes i v t) = (if ExpandRes i v t = a then b else ExpandRes i (subst_value a b v) t)"

text \<open>The definition of a value keeps its result and changes its operand.\<close>

primrec subst_def :: "ir_value \<Rightarrow> ir_value \<Rightarrow> ir_value \<Rightarrow> ir_value" where
  "subst_def a b (BlockArg i t) = BlockArg i t"
| "subst_def a b (SramBuf i p t) = SramBuf i p t"
| "subst_def a b (AllocRes i t al) = AllocRes i t al"
| "subst_def a b (CastRes i v t) = CastRes i (subst_value a b v) t"
| "subst_def a b (SubViewRes i v offs sizes strides t) = SubViewRes i (subst_value a b v) offs sizes strides t"
| "subst_def a b (ExpandRes i v t) = ExpandRes i (subst_value a b v) t"

primrec subst_op :: "ir_value \<Rightarrow> ir_value \<Rightarrow> operation \<Rightarrow> operation" where
  "subst_op a b (Define v) = Define (subst_def a b v)"
| "subst_op a b (DmaLoadOp s d) = DmaLoadOp (subst_value a b s) (subst_value a b d)"
| "subst_op a b (DmaStoreOp s d) = DmaStoreOp (subst_value a b s) (subst_value a b d)"
| "subst_op a b SyncOp = SyncOp"
| "subst_op a b (MatmulOp l r d acc transA transB) =
     MatmulOp (subst_value a b l) (subst_value a b r) (subst_value a b d) acc transA transB"
| "subst_op a b (EwiseOp op l r d) = EwiseOp op (subst_value a b l) (subst_value a b r) (subst_value a b d)"
| "subst_op a b (ActOp s d k) = ActOp (subst_value a b s) (subst_value a b d) k"
| "subst_op a b (ReduceOp s d i k) = ReduceOp (subst_value a b s) (subst_value a b d) (map_option (subst_value a b) i) k"
| "subst_op a b (DeallocOp v) = DeallocOp (subst_value a b v)"
| "subst_op a b (ForOp lb ub st body) = ForOp lb ub st (map (subst_op a b) \<circ> body)"
| "subst_op a b (OtherOp vs) = OtherOp (map (subst_value a b) vs)"

definition replaceAllUsesWith :: "ir_value \<Rightarrow> ir_value \<Rightarrow> walked list \<Rightarrow> walked list" where
  "replaceAllUsesWith a b prog = map (\<lambda>w. w\<lparr>w_op := subst_op a b (w_op w)\<rparr>) prog"

definition erase :: "nat \<Rightarrow> walked list \<Rightarrow> walked list" where
  "erase i prog = filter (\<lambda>w. w_id w \<noteq> i) prog"

definition op_with_id :: "nat \<Rightarrow> walked list \<Rightarrow> operation option" where
  "op_with_id i prog = map_option w_op (find (\<lambda>w. w_id w = i) prog)"

section \<open>The pass\<close>

text \<open>A match is a pair of identities: of the store and of the load.\<close>

record Match =
  m_storeOp :: nat
  m_loadOp :: nat

fun getCastSource :: "ir_value \<Rightarrow> ir_value" where
  "getCastSource (CastRes i v t) = getCastSource v"
| "getCastSource v = v"

definition is_view :: "operation \<Rightarrow> bool" where
  "is_view op = (case op of Define v \<Rightarrow> (case v of CastRes i s t \<Rightarrow> True | SubViewRes i s offs sizes strides t \<Rightarrow> True | _ \<Rightarrow> False)
     | _ \<Rightarrow> False)"

definition op_result :: "operation \<Rightarrow> ir_value option" where
  "op_result op = (case op of Define v \<Rightarrow> Some v | _ \<Rightarrow> None)"

definition viewOnlyFeedsStore :: "walked list \<Rightarrow> operation \<Rightarrow> nat \<Rightarrow> bool" where
  "viewOnlyFeedsStore prog viewOp storeOp =
     (case op_result viewOp of None \<Rightarrow> True
      | Some v \<Rightarrow> list_all (\<lambda>w. w_id w = storeOp \<or> is_view (w_op w)) (users prog v))"

definition rootIsDead :: "walked list \<Rightarrow> nat \<Rightarrow> bool" where
  "rootIsDead prog storeOp =
     (case op_with_id storeOp prog of
        Some (DmaStoreOp s d) \<Rightarrow>
          list_all (\<lambda>w. if is_view (w_op w) then viewOnlyFeedsStore prog (w_op w) storeOp else False)
            (users prog (getCastSource d))
      | _ \<Rightarrow> False)"

text \<open>One operation of the walk: the last store of every root, and the matches so far.\<close>

definition walk_step :: "walked \<Rightarrow> (ir_value \<rightharpoonup> walked) \<times> Match list \<Rightarrow> (ir_value \<rightharpoonup> walked) \<times> Match list" where
  "walk_step w acc = (case acc of (lastStore, matchList) \<Rightarrow>
     (case w_op w of
        DmaStoreOp s d \<Rightarrow> (lastStore(getCastSource d \<mapsto> w), matchList)
      | DmaLoadOp s d \<Rightarrow>
          (case lastStore (getCastSource s) of
             None \<Rightarrow> (lastStore, matchList)
           | Some st \<Rightarrow>
               if w_block st \<noteq> w_block w then (lastStore, matchList)
               else (lastStore, matchList @ [\<lparr>m_storeOp = w_id st, m_loadOp = w_id w\<rparr>]))
      | _ \<Rightarrow> (lastStore, matchList)))"

definition collect_matches :: "walked list \<Rightarrow> Match list" where
  "collect_matches prog = snd (fold walk_step prog (Map.empty, []))"

definition forward_match :: "Match \<Rightarrow> walked list \<Rightarrow> walked list" where
  "forward_match m prog =
     (case (op_with_id (m_storeOp m) prog, op_with_id (m_loadOp m) prog) of
        (Some (DmaStoreOp src d), Some (DmaLoadOp s dst)) \<Rightarrow> erase (m_loadOp m) (replaceAllUsesWith dst src prog)
      | _ \<Rightarrow> prog)"

definition erase_store :: "Match \<Rightarrow> nat set \<times> walked list \<Rightarrow> nat set \<times> walked list" where
  "erase_store m acc = (case acc of (finished, prog) \<Rightarrow>
     if m_storeOp m \<in> finished then (finished, prog)
     else (insert (m_storeOp m) finished,
           if rootIsDead prog (m_storeOp m) then erase (m_storeOp m) prog else prog))"

definition eclipse_elide_copies :: "walked list \<Rightarrow> walked list" where
  "eclipse_elide_copies prog =
     (let matchList = collect_matches prog;
          forwarded = fold forward_match matchList prog
      in snd (fold erase_store matchList ({}, forwarded)))"

definition program :: "walked list \<Rightarrow> operation list" where
  "program prog = map w_op prog"

section \<open>Forwarding preserves the program\<close>

text \<open>The shapes that the verifiers enforce, for the operations of one block.\<close>

fun shapes_ok :: "operation \<Rightarrow> bool" where
  "shapes_ok (DmaLoadOp s d) = (mr_shape (value_type s) = mr_shape (value_type d))"
| "shapes_ok (DmaStoreOp s d) = (mr_shape (value_type s) = mr_shape (value_type d))"
| "shapes_ok (MatmulOp l r d acc transA transB) =
     (length (mr_shape (value_type l)) = 2 \<and> length (mr_shape (value_type r)) = 2 \<and> length (mr_shape (value_type d)) = 2
      \<and> (case matmul_dims transA transB (value_type l) (value_type r) of
           (m, lhsK, rhsK, n) \<Rightarrow> lhsK = rhsK \<and> mr_shape (value_type d) = [m, n]))"
| "shapes_ok (EwiseOp b l r d) =
     (length (mr_shape (value_type d)) = 2 \<and> length (mr_shape (value_type r)) = 2 \<and> mr_shape (value_type l) = mr_shape (value_type d)
      \<and> (dim (value_type r) 0 = 1 \<or> dim (value_type r) 0 = dim (value_type d) 0) \<and> 0 < dim (value_type r) 1)"
| "shapes_ok (ActOp s d k) = (mr_shape (value_type s) = mr_shape (value_type d))"
| "shapes_ok (ReduceOp s d i k) =
     (i = None \<and> length (mr_shape (value_type s)) = 2 \<and> length (mr_shape (value_type d)) = 2
      \<and> dim (value_type d) 0 = dim (value_type s) 0)"
| "shapes_ok (ForOp lb ub st body) = False"
| "shapes_ok op = True"

fun writes :: "operation \<Rightarrow> ir_value list" where
  "writes (DmaLoadOp s d) = [d]"
| "writes (DmaStoreOp s d) = [d]"
| "writes (MatmulOp l r d acc transA transB) = [d]"
| "writes (EwiseOp b l r d) = [d]"
| "writes (ActOp s d k) = [d]"
| "writes (ReduceOp s d i k) = d # (case i of None \<Rightarrow> [] | Some v \<Rightarrow> [v])"
| "writes op = []"

lemma step_unwritten:
  assumes "shapes_ok op" and "\<forall>d \<in> set (writes op). root_of d \<noteq> r"
  shows "step_op C op m r = m r"
  using assms by (cases op) (auto simp: store_other)

lemma run_unwritten:
  "\<forall>op \<in> set ops. shapes_ok op \<and> (\<forall>d \<in> set (writes op). root_of d \<noteq> r) \<Longrightarrow> run_ops C ops m r = m r"
  by (induction ops arbitrary: m) (simp_all add: step_unwritten)

lemma store_cong:
  "(\<And>js. in_shape (value_type d) js \<Longrightarrow> f js = g js) \<Longrightarrow> store m d f = store m d g"
  by (auto simp: store_def Let_def fun_eq_iff)


text \<open>
  The relation between the original run and the one where \<open>S\<close> stands for \<open>B\<close>, from the load on:
  memory agrees but for \<open>B\<close>, whose elements are those of \<open>S\<close>.
\<close>

definition stands_for :: "ir_value \<Rightarrow> ir_value \<Rightarrow> 'a tensors \<Rightarrow> 'a tensors \<Rightarrow> bool" where
  "stands_for B S m m' \<longleftrightarrow>
     (\<forall>w. w \<noteq> B \<longrightarrow> m w = m' w) \<and> (\<forall>js. in_shape (value_type B) js \<longrightarrow> m B js = m' S js)"

definition direct_use :: "ir_value \<Rightarrow> ir_value \<Rightarrow> bool" where
  "direct_use B v \<longleftrightarrow> v = B \<or> root_of v \<noteq> B"

definition is_alloc :: "ir_value \<Rightarrow> bool" where
  "is_alloc v = (case v of AllocRes i t al \<Rightarrow> True | _ \<Rightarrow> False)"

lemma is_alloc_simps:
  assumes "is_alloc v"
  shows "root_of v = v" and "root_index v js = js" and "own_index v js = js" and "addressable v" and "subst_value v w v = w"
  using assms by (cases v; simp add: is_alloc_def)+

lemma subst_other: "root_of B = B \<Longrightarrow> root_of v \<noteq> B \<Longrightarrow> subst_value B S v = v"
  by (induction v) auto

lemma read_stands_for:
  assumes "stands_for B S m m'" and "is_alloc B" and "is_alloc S" and "direct_use B v" and "in_shape (value_type v) js"
  shows "read m v js = read m' (subst_value B S v) js"
proof (cases "v = B")
  case True
  with assms show ?thesis by (simp add: read_def is_alloc_simps stands_for_def)
next
  case False
  with assms(4) have "root_of v \<noteq> B" by (simp add: direct_use_def)
  with assms show ?thesis by (simp add: subst_other is_alloc_simps read_def stands_for_def)
qed

lemma stands_for_store:
  assumes "stands_for B S m m'" and "root_of d \<noteq> B" and "root_of d \<noteq> S"
    and "\<And>js. in_shape (value_type d) js \<Longrightarrow> f js = g js"
  shows "stands_for B S (store m d f) (store m' d g)"
proof -
  have "m (root_of d) = m' (root_of d)" using assms(1,2) by (simp add: stands_for_def)
  then have "store m' d g (root_of d) = store m d g (root_of d)" by (simp add: store_def Let_def fun_eq_iff)
  moreover have "store m d f = store m d g" by (rule store_cong) (rule assms(4))
  ultimately show ?thesis
    using assms(1-3) unfolding stands_for_def by (metis store_other)
qed

lemma in_shape_pair: "length (mr_shape t) = 2 \<Longrightarrow> in_shape t js \<longleftrightarrow>
    (\<exists>r c. js = [r, c] \<and> 0 \<le> r \<and> r < dim t 0 \<and> 0 \<le> c \<and> c < dim t 1)"
  by (cases "mr_shape t" rule: list.exhaust; cases "tl (mr_shape t)") (auto simp: in_shape_def list_all2_Cons2)

lemma step_stands_for:
  assumes rel: "stands_for B S m m'" and alloc: "is_alloc B" "is_alloc S" and shape: "mr_shape (value_type S) = mr_shape (value_type B)"
    and ok: "shapes_ok op" and uses: "\<forall>v \<in> set (operands op). direct_use B v"
    and dst: "\<forall>d \<in> set (writes op). root_of d \<noteq> B \<and> root_of d \<noteq> S"
  shows "stands_for B S (step_op C op m) (step_op C (subst_op B S op) m')"
proof -
  note rd = read_stands_for [OF rel alloc]
  have dst_same: "subst_value B S d = d" if "d \<in> set (writes op)" for d
    using dst that by (intro subst_other is_alloc_simps alloc) blast
  have ty: "mr_shape (value_type (subst_value B S v)) = mr_shape (value_type v)" if "direct_use B v" for v
    using that shape by (cases "v = B") (simp_all add: direct_use_def is_alloc_simps alloc subst_other)
  show ?thesis
  proof (cases op)
    case (DmaLoadOp s d)
    with ok uses dst dst_same [of d] show ?thesis
      by (auto intro!: stands_for_store [OF rel] rd simp: in_shape_def)
  next
    case (DmaStoreOp s d)
    with ok uses dst dst_same [of d] show ?thesis
      by (auto intro!: stands_for_store [OF rel] rd simp: in_shape_def)
  next
    case (MatmulOp l r d acc transA transB)
    with uses have u: "direct_use B l" "direct_use B r" "direct_use B d" by simp_all
    from MatmulOp ok have len: "length (mr_shape (value_type l)) = 2" "length (mr_shape (value_type r)) = 2"
      "length (mr_shape (value_type d)) = 2" by simp_all
    have "dot_pairs m l r transA transB js = dot_pairs m' (subst_value B S l) (subst_value B S r) transA transB js"
      if js: "in_shape (value_type d) js" for js
      unfolding dot_pairs_def ty [OF u(1)]
      using ok js by (intro map_cong refl prod.inject [THEN iffD2] conjI rd u)
        (auto simp: MatmulOp in_shape_pair len matmul_dims_def split: if_splits)
    then show ?thesis
      using MatmulOp dst dst_same [of d] rd [OF u(3)] by (auto intro!: stands_for_store [OF rel])
  next
    case (EwiseOp b l r d)
    with uses have u: "direct_use B l" "direct_use B r" by simp_all
    from EwiseOp ok have len: "length (mr_shape (value_type d)) = 2" "length (mr_shape (value_type r)) = 2"
      and l: "mr_shape (value_type l) = mr_shape (value_type d)"
      and r: "dim (value_type r) 0 = 1 \<or> dim (value_type r) 0 = dim (value_type d) 0" "0 < dim (value_type r) 1" by simp_all
    have "in_shape (value_type r) [if dim (value_type r) 0 = 1 then 0 else js ! 0, js ! 1 mod dim (value_type r) 1]"
      if "in_shape (value_type d) js" for js
      using that r by (auto simp: in_shape_pair len)
    then show ?thesis
      using EwiseOp dst dst_same [of d] rd [OF u(1)] rd [OF u(2)] l
      by (auto intro!: stands_for_store [OF rel] simp: ty [OF u(2)] in_shape_def)
  next
    case (ActOp s d k)
    with ok uses dst dst_same [of d] rd [of s] show ?thesis
      by (auto intro!: stands_for_store [OF rel] simp: in_shape_def)
  next
    case (ReduceOp s d i k)
    with uses have u: "direct_use B s" by simp
    from ReduceOp ok have i: "i = None" and len: "length (mr_shape (value_type s)) = 2" "length (mr_shape (value_type d)) = 2"
      and d: "dim (value_type d) 0 = dim (value_type s) 0" by simp_all
    have "row_values m s (js ! 0) = row_values m' (subst_value B S s) (js ! 0)" if "in_shape (value_type d) js" for js
      unfolding row_values_def ty [OF u]
      using that d by (intro map_cong refl rd u) (auto simp: in_shape_pair len)
    then show ?thesis
      using ReduceOp dst dst_same [of d] i by (auto intro!: stands_for_store [OF rel] simp: Let_def)
  qed (use ok rel in simp_all)
qed

lemma run_stands_for:
  assumes "stands_for B S m m'" and "is_alloc B" and "is_alloc S" and "mr_shape (value_type S) = mr_shape (value_type B)"
    and "\<forall>op \<in> set ops. shapes_ok op \<and> (\<forall>v \<in> set (operands op). direct_use B v)
      \<and> (\<forall>d \<in> set (writes op). root_of d \<noteq> B \<and> root_of d \<noteq> S)"
  shows "stands_for B S (run_ops C ops m) (run_ops C (map (subst_op B S) ops) m')"
  using assms(1,5)
proof (induction ops arbitrary: m m')
  case (Cons op ops)
  then show ?case using step_stands_for [OF Cons.prems(1) assms(2-4)] by simp
qed simp


lemma subst_op_other:
  assumes "root_of B = B" and "\<forall>v \<in> set (operands op). root_of v \<noteq> B" and "shapes_ok op"
  shows "subst_op B S op = op"
proof (cases op)
  case (Define v)
  with assms show ?thesis by (cases v) (auto simp: subst_other)
next
  case (ReduceOp s d i k)
  with assms show ?thesis by (cases i) (auto simp: subst_other)
next
  case (OtherOp vs)
  with assms show ?thesis by (auto simp: subst_other intro: map_idI)
qed (use assms in \<open>auto simp: subst_other\<close>)

lemma op_with_id_split: "distinct (map w_id (xs @ w # ys)) \<Longrightarrow> op_with_id (w_id w) (xs @ w # ys) = Some (w_op w)"
  by (induction xs) (auto simp: op_with_id_def)

lemma erase_split: "distinct (map w_id (xs @ w # ys)) \<Longrightarrow> erase (w_id w) (xs @ w # ys) = xs @ ys"
  by (induction xs) (auto simp: erase_def filter_id_conv image_iff)

lemma erase_replace: "erase i (replaceAllUsesWith a b prog) = replaceAllUsesWith a b (erase i prog)"
  by (induction prog) (auto simp: erase_def replaceAllUsesWith_def)

lemma program_replace: "program (replaceAllUsesWith a b prog) = map (subst_op a b) (program prog)"
  by (simp add: program_def replaceAllUsesWith_def)

lemma cast_source:
  shows "root_of (getCastSource v) = root_of v" and "root_index (getCastSource v) js = root_index v js"
    and "addressable v \<Longrightarrow> mr_shape (value_type (getCastSource v)) = mr_shape (value_type v)"
  by (induction v rule: getCastSource.induct) simp_all

text \<open>
  The conditions under which a match is safe: what is stored stays in \<open>S\<close> and in DDR until the load,
  nothing uses \<open>B\<close> before the load, and after it both \<open>S\<close> and \<open>B\<close> are only read, as whole buffers.
\<close>

definition untouched :: "ir_value \<Rightarrow> ir_value \<Rightarrow> ir_value \<Rightarrow> operation list \<Rightarrow> operation list \<Rightarrow> operation list \<Rightarrow> bool" where
  "untouched S D B pre mid post \<longleftrightarrow>
     list_all (\<lambda>op. shapes_ok op \<and> list_all (\<lambda>v. root_of v \<noteq> B) (operands op)) (pre @ mid)
     \<and> list_all (\<lambda>op. list_all (\<lambda>d. root_of d \<noteq> S \<and> root_of d \<noteq> root_of D) (writes op)) mid
     \<and> list_all (\<lambda>op. shapes_ok op \<and> list_all (direct_use B) (operands op)
          \<and> list_all (\<lambda>d. root_of d \<noteq> B \<and> root_of d \<noteq> S) (writes op)) post"

lemma forward_match_program:
  assumes prog: "prog = pre @ st # mid @ ld # post" and ids: "distinct (map w_id prog)"
    and ops: "w_op st = DmaStoreOp S D" "w_op ld = DmaLoadOp D' B"
    and "root_of B = B" and "S \<noteq> B" and "root_of S = S" and "root_of D \<noteq> B"
    and "\<forall>w \<in> set (pre @ mid). shapes_ok (w_op w) \<and> (\<forall>v \<in> set (operands (w_op w)). root_of v \<noteq> B)"
  shows "program (forward_match \<lparr>m_storeOp = w_id st, m_loadOp = w_id ld\<rparr> prog)
    = program pre @ DmaStoreOp S D # program mid @ map (subst_op B S) (program post)"
proof -
  have same: "map (subst_op B S) (program xs) = program xs" if "set xs \<subseteq> set (pre @ mid)" for xs
    unfolding program_def using that assms(5,9) by (auto intro!: subst_op_other)
  have p2: "prog = (pre @ st # mid) @ ld # post" using prog by simp
  have "op_with_id (w_id st) prog = Some (DmaStoreOp S D)" "op_with_id (w_id ld) prog = Some (DmaLoadOp D' B)"
    using op_with_id_split [of pre st "mid @ ld # post"] op_with_id_split [of "pre @ st # mid" ld post] ids ops prog by simp_all
  moreover have "erase (w_id ld) prog = (pre @ st # mid) @ post"
    unfolding p2 by (rule erase_split) (use ids p2 in simp)
  moreover have "subst_op B S (DmaStoreOp S D) = DmaStoreOp S D"
    using assms(5-8) by (simp add: subst_other)
  ultimately show ?thesis
    using ops(1) same [of pre] same [of mid] by (simp add: forward_match_def erase_replace program_replace) (simp add: program_def)
qed

lemma forward_match_run:
  assumes prog: "prog = pre @ st # mid @ ld # post" and ids: "distinct (map w_id prog)"
    and ops: "w_op st = DmaStoreOp S D" "w_op ld = DmaLoadOp D' B" and key: "getCastSource D = getCastSource D'"
    and alloc: "is_alloc S" "is_alloc B" "S \<noteq> B" and D: "addressable D" "addressable D'" "root_of D \<noteq> S" "root_of D \<noteq> B"
    and shapes: "shapes_ok (w_op st)" "shapes_ok (w_op ld)"
    and free: "untouched S D B (program pre) (program mid) (program post)" and w: "w \<noteq> B"
  shows "run_ops C (program (forward_match \<lparr>m_storeOp = w_id st, m_loadOp = w_id ld\<rparr> prog)) m w = run_ops C (program prog) m w"
proof -
  define m0 where "m0 = run_ops C (program pre) m"
  define m1 where "m1 = store m0 D (read m0 S)"
  define m2 where "m2 = run_ops C (program mid) m1"
  define m3 where "m3 = store m2 B (read m2 D')"
  have roots: "root_of S = S" "root_of B = B" by (simp_all add: is_alloc_simps alloc)
  have orig: "run_ops C (program prog) m = run_ops C (program post) m3"
    using ops by (simp add: prog program_def m0_def m1_def m2_def m3_def)
  have "program (forward_match \<lparr>m_storeOp = w_id st, m_loadOp = w_id ld\<rparr> prog)
      = program pre @ DmaStoreOp S D # program mid @ map (subst_op B S) (program post)"
    by (rule forward_match_program [OF prog ids ops])
      (use free roots alloc D in \<open>auto simp: untouched_def list_all_iff program_def\<close>)
  then have new: "run_ops C (program (forward_match \<lparr>m_storeOp = w_id st, m_loadOp = w_id ld\<rparr> prog)) m
      = run_ops C (map (subst_op B S) (program post)) m2"
    by (simp add: m0_def m1_def m2_def)
  have shape: "mr_shape (value_type S) = mr_shape (value_type D)" "mr_shape (value_type D') = mr_shape (value_type B)"
    "mr_shape (value_type D) = mr_shape (value_type D')"
    using shapes ops cast_source(3) [OF D(1)] cast_source(3) [OF D(2)] key by simp_all
  have keep: "m2 S = m1 S" "m2 (root_of D) = m1 (root_of D)"
    unfolding m2_def by (rule run_unwritten; use free in \<open>auto simp: untouched_def list_all_iff\<close>)+
  have view: "root_of D' = root_of D" "root_index D' js = root_index D js" for js
    using cast_source(1,2) key by metis+
  have "stands_for B S m3 m2"
    unfolding stands_for_def
  proof (intro conjI allI impI)
    fix js
    assume js: "in_shape (value_type B) js"
    then have d: "in_shape (value_type D) js" by (simp add: in_shape_def shape)
    have "m3 B js = read m2 D' js"
      using read_store_same [OF is_alloc_simps(4) [OF alloc(2)] js, of m2] by (simp add: m3_def read_def roots is_alloc_simps alloc)
    also have "\<dots> = read m1 D js" by (simp add: read_def view keep)
    also have "\<dots> = m0 S js" using read_store_same [OF D(1) d, of m0 "read m0 S"] by (simp add: m1_def read_def is_alloc_simps alloc)
    also have "\<dots> = m2 S js" using D(3) by (simp add: keep m1_def store_other)
    finally show "m3 B js = m2 S js" .
  qed (simp add: m3_def store_other roots)
  then have "stands_for B S (run_ops C (program post) m3) (run_ops C (map (subst_op B S) (program post)) m2)"
    by (rule run_stands_for) (use alloc shape free in \<open>auto simp: untouched_def list_all_iff\<close>)
  then show ?thesis using w by (simp add: stands_for_def orig new)
qed


text \<open>
  C16. Forwarding a stored buffer to a load of the same root, as the first loop of
  EclipseElideCopies does for a match, leaves the final contents of every buffer but the erased
  copy as they were, under these conditions: the operations have the shapes that the verifiers
  enforce and contain no loop and no ARGMAX; the buffer and its copy are different allocations and
  the DDR root is neither; the copy is not used before the load; the buffer and the DDR root are
  not written between the store and the load; after the load neither the buffer nor its copy is
  written, and the copy is used as a whole, not through a view. The pass itself checks none of
  these but the order of the pair in one block.
\<close>

theorem forward_match_preserves_program:
  assumes "prog = pre @ st # mid @ ld # post" and "distinct (map w_id prog)"
    and "w_op st = DmaStoreOp S D" and "w_op ld = DmaLoadOp D' B" and "getCastSource D = getCastSource D'"
    and "is_alloc S" and "is_alloc B" and "S \<noteq> B" and "addressable D" and "addressable D'" and "root_of D \<noteq> S" and "root_of D \<noteq> B"
    and "shapes_ok (w_op st)" and "shapes_ok (w_op ld)"
    and "untouched S D B (program pre) (program mid) (program post)"
  shows "\<forall>w. w \<noteq> B \<longrightarrow>
    run_ops C (program (forward_match \<lparr>m_storeOp = w_id st, m_loadOp = w_id ld\<rparr> prog)) m w = run_ops C (program prog) m w"
  using forward_match_run [OF assms] by blast

section \<open>Erasing a store preserves the program\<close>

text \<open>Agreement everywhere but in one buffer, the way of dead assignments.\<close>

definition same_but :: "ir_value \<Rightarrow> 'a tensors \<Rightarrow> 'a tensors \<Rightarrow> bool" where
  "same_but R m m' \<longleftrightarrow> (\<forall>w. w \<noteq> R \<longrightarrow> m w = m' w)"

definition loop_free :: "operation \<Rightarrow> bool" where
  "loop_free op = (case op of ForOp lb ub st body \<Rightarrow> False | _ \<Rightarrow> True)"

lemma read_same_but: "same_but R m m' \<Longrightarrow> root_of v \<noteq> R \<Longrightarrow> read m v = read m' v"
  by (simp add: same_but_def read_def fun_eq_iff)

lemma store_same_but: "same_but R m m' \<Longrightarrow> root_of d \<noteq> R \<Longrightarrow> same_but R (store m d f) (store m' d f)"
  by (simp add: same_but_def store_def Let_def cong: if_cong)

lemma store_root_same_but: "same_but R m m' \<Longrightarrow> root_of d = R \<Longrightarrow> same_but R (store m d f) m'"
  by (simp add: same_but_def store_def)

lemma step_same_but:
  assumes rel: "same_but R m m'" and lf: "loop_free op" and uses: "\<forall>v \<in> set (operands op). root_of v \<noteq> R"
  shows "same_but R (step_op C op m) (step_op C op m')"
proof -
  note rd = read_same_but [OF rel]
  have rows: "row_values m s r = row_values m' s r" if "root_of s \<noteq> R" for s r
    by (simp add: row_values_def rd [OF that])
  have dots: "dot_pairs m l r tA tB js = dot_pairs m' l r tA tB js" if "root_of l \<noteq> R" "root_of r \<noteq> R" for l r tA tB js
    by (simp add: dot_pairs_def rd [OF that(1)] rd [OF that(2)])
  show ?thesis
  proof (cases op)
    case (ReduceOp s d i k)
    with rel uses show ?thesis
      by (cases i) (simp_all add: rows Let_def store_same_but)
  qed (use rel lf uses in \<open>simp_all add: rd dots store_same_but loop_free_def cong: if_cong\<close>)
qed

lemma run_same_but:
  assumes "same_but R m m'" and "\<forall>op \<in> set ops. loop_free op \<and> (is_view op \<or> (\<forall>v \<in> set (operands op). root_of v \<noteq> R))"
  shows "same_but R (run_ops C ops m) (run_ops C ops m')"
  using assms
proof (induction ops arbitrary: m m')
  case (Cons op ops)
  have "step_op C op x = x" if "is_view op" for x :: "'a tensors"
    using that by (cases op) (simp_all add: is_view_def)
  then have "same_but R (step_op C op m) (step_op C op m')" using Cons.prems step_same_but by (cases "is_view op") auto
  with Cons show ?case by simp
qed simp

text \<open>
  What \<open>rootIsDead\<close> relies on without checking it: a value of the module that lies in the buffer is
  the buffer or a view taken directly from it, by an operation of the module.
\<close>

definition flat_views :: "walked list \<Rightarrow> ir_value \<Rightarrow> bool" where
  "flat_views prog R = list_all (\<lambda>w. list_all (\<lambda>v. root_of v = R \<longrightarrow> v = R
     \<or> (R \<in> set (def_operands v) \<and> list_ex (\<lambda>u. w_op u = Define v) prog)) (operands (w_op w))) prog"

lemma dead_root_users:
  assumes ids: "distinct (map w_id prog)" and st: "st \<in> set prog" "w_op st = DmaStoreOp S D"
    and dead: "rootIsDead prog (w_id st)" and flat: "flat_views prog (getCastSource D)"
    and w: "w \<in> set prog" "w \<noteq> st" and v: "v \<in> set (operands (w_op w))" "root_of v = getCastSource D"
  shows "is_view (w_op w)"
proof -
  obtain xs ys where "prog = xs @ st # ys" using st(1) by (auto simp: in_set_conv_decomp)
  with op_with_id_split [of xs st ys] ids st(2) have "op_with_id (w_id st) prog = Some (DmaStoreOp S D)" by simp
  with dead have views: "is_view (w_op u) \<and> viewOnlyFeedsStore prog (w_op u) (w_id st)"
    if "u \<in> set prog" "getCastSource D \<in> set (operands (w_op u))" for u
    using that by (auto simp: rootIsDead_def users_def list_all_iff split: if_splits)
  from flat w(1) v consider "v = getCastSource D"
    | u where "u \<in> set prog" "w_op u = Define v" "getCastSource D \<in> set (def_operands v)"
    by (fastforce simp: flat_views_def list_all_iff list_ex_iff)
  then show ?thesis
  proof cases
    case 1
    with views [OF w(1)] v(1) show ?thesis by simp
  next
    case 2
    have "w_id w \<noteq> w_id st" using ids w st(1) by (auto simp: distinct_map inj_on_def)
    moreover have "viewOnlyFeedsStore prog (Define v) (w_id st)" using views [OF 2(1)] 2(2,3) by simp
    ultimately show ?thesis
      using w(1) v(1) by (auto simp: viewOnlyFeedsStore_def op_result_def users_def list_all_iff)
  qed
qed

text \<open>
  C39. Erasing a store when rootIsDead holds, as the second loop of EclipseElideCopies does,
  leaves what the program computes in every buffer but the target of the store as it was, in a
  module without loops where every value that lies in that DDR buffer is the buffer itself or a
  cast or subview taken directly from it by an operation of the module. The last condition is not
  checked by the pass and is needed: with a view of a view the erased store is still read
  (erased_store_is_read).
\<close>

theorem erase_store_preserves_program:
  assumes "prog = pre @ st # post" and "distinct (map w_id prog)" and "w_op st = DmaStoreOp S D"
    and "\<forall>w \<in> set prog. loop_free (w_op w)" and "flat_views prog (getCastSource D)" and "root_of (getCastSource D) = getCastSource D"
  shows "\<forall>w. w \<noteq> getCastSource D \<longrightarrow>
    run_ops C (program (snd (erase_store \<lparr>m_storeOp = w_id st, m_loadOp = l\<rparr> ({}, prog)))) m w = run_ops C (program prog) m w"
proof (cases "rootIsDead prog (w_id st)")
  case True
  define R where "R = getCastSource D"
  have root: "root_of D = R" using cast_source(1) [of D] assms(6) by (simp add: R_def)
  have "st \<notin> set pre" "st \<notin> set post" "st \<in> set prog" using assms(1,2) by auto
  with dead_root_users [OF assms(2) _ assms(3) True assms(5)] assms(1,4)
  have other: "\<forall>op \<in> set (program post). loop_free op \<and> (is_view op \<or> (\<forall>v \<in> set (operands op). root_of v \<noteq> R))"
    by (fastforce simp: program_def R_def)
  have "same_but R (store m0 D f) m0" for m0 f
    by (rule store_root_same_but [OF _ root]) (simp add: same_but_def)
  from run_same_but [OF this other] have "same_but R (run_ops C (program prog) m) (run_ops C (program (pre @ post)) m)"
    using assms(3) by (simp add: assms(1) program_def)
  moreover have "snd (erase_store \<lparr>m_storeOp = w_id st, m_loadOp = l\<rparr> ({}, prog)) = pre @ post"
    using True erase_split [of pre st post] assms(1,2) by (simp add: erase_store_def)
  ultimately show ?thesis by (simp add: same_but_def R_def)
qed (simp add: erase_store_def)

section \<open>Erased stores\<close>

text \<open>
  \<open>rootIsDead\<close> looks through one level of views only.  A module whose value is loaded back and
  also loaded through a subview of a cast loses its store.
\<close>

definition buf :: "nat \<Rightarrow> ir_value" where
  "buf i = AllocRes i (packed_memref [1, 1] f16) None"

definition ddr_cast :: "nat \<Rightarrow> ir_value" where
  "ddr_cast i = toDDR i (buf 0)"

definition ddr_sub :: ir_value where
  "ddr_sub = subview2 13 (ddr_cast 12) [0, 0] [1, 1]"

definition numbered :: "operation list \<Rightarrow> walked list" where
  "numbered ops = map2 (\<lambda>i op. \<lparr>w_id = i, w_block = 0, w_op = op\<rparr>) [0..<length ops] ops"

definition sample_chain :: "walked list" where
  "sample_chain = numbered [Define (ddr_cast 10), DmaStoreOp (buf 1) (ddr_cast 10),
      Define (ddr_cast 11), DmaLoadOp (ddr_cast 11) (buf 2), ActOp (buf 2) (buf 3) RELU,
      Define (ddr_cast 12), Define ddr_sub, DmaLoadOp ddr_sub (buf 4),
      ActOp (buf 4) (buf 5) RELU, SyncOp]"

definition sample_memory :: "nat tensors" where
  "sample_memory v js = (if v = buf 1 then 7 else 0)"

definition sample_nat_chip :: "nat chip" where
  "sample_nat_chip = \<lparr>ch_arith = (\<lambda>op a b. a), ch_const = (\<lambda>c. 0), ch_act = (\<lambda>k x. x), ch_reduce = (\<lambda>k xs. 0),
     ch_argmax = (\<lambda>xs. 0), ch_dot = (\<lambda>c ps. 0)\<rparr>"

text \<open>
  EclipseElideCopies erases a store that is still read: in a module that loads a stored value once
  directly and once through a subview, the second consumer computes on stale DDR after the pass.
\<close>

theorem erased_store_is_read:
  "read (run_ops sample_nat_chip (program sample_chain) sample_memory) (buf 5) [0, 0] = 7 \<and>
   read (run_ops sample_nat_chip (program (eclipse_elide_copies sample_chain)) sample_memory) (buf 5) [0, 0] = 0"
  by code_simp

text \<open>The first of the two matches alone is safe.\<close>

definition sample_pair :: "walked list" where
  "sample_pair = numbered [Define (ddr_cast 10), DmaStoreOp (buf 1) (ddr_cast 10),
     Define (ddr_cast 11), DmaLoadOp (ddr_cast 11) (buf 2), ActOp (buf 2) (buf 3) RELU]"

theorem forward_match_preserves_program_witness:
  "run_ops sample_nat_chip (program (forward_match \<lparr>m_storeOp = 1, m_loadOp = 3\<rparr> sample_pair)) sample_memory (buf 3)
     = run_ops sample_nat_chip (program sample_pair) sample_memory (buf 3)"
proof -
  define wk where "wk = (\<lambda>i op. \<lparr>w_id = i, w_block = 0, w_op = op\<rparr>)"
  have split: "sample_pair = [wk 0 (Define (ddr_cast 10))] @ wk 1 (DmaStoreOp (buf 1) (ddr_cast 10)) # [wk 2 (Define (ddr_cast 11))]
      @ wk 3 (DmaLoadOp (ddr_cast 11) (buf 2)) # [wk 4 (ActOp (buf 2) (buf 3) RELU)]"
    by (simp add: sample_pair_def numbered_def wk_def upt_rec)
  show ?thesis
    using forward_match_preserves_program [OF split, of "buf 1" "ddr_cast 10" "ddr_cast 11" "buf 2" sample_nat_chip sample_memory]
    by (simp add: split wk_def ddr_cast_def buf_def toDDR_def is_alloc_def untouched_def program_def direct_use_def)
qed

text \<open>After the forwarding only the store uses the view of the DDR buffer: it is erased, and the other buffers keep their contents.\<close>

definition sample_forwarded :: "walked list" where
  "sample_forwarded = numbered [Define (ddr_cast 10), DmaStoreOp (buf 1) (ddr_cast 10), Define (ddr_cast 11), ActOp (buf 1) (buf 3) RELU]"

theorem erase_store_preserves_program_witness:
  "length (snd (erase_store \<lparr>m_storeOp = 1, m_loadOp = 3\<rparr> ({}, sample_forwarded))) = 3
    \<and> read (run_ops sample_nat_chip (program (snd (erase_store \<lparr>m_storeOp = 1, m_loadOp = 3\<rparr> ({}, sample_forwarded)))) sample_memory) (buf 3) [0, 0] = 7
    \<and> run_ops sample_nat_chip (program (snd (erase_store \<lparr>m_storeOp = 1, m_loadOp = 3\<rparr> ({}, sample_forwarded)))) sample_memory (buf 3)
        = run_ops sample_nat_chip (program sample_forwarded) sample_memory (buf 3)"
proof -
  define wk where "wk = (\<lambda>i op. \<lparr>w_id = i, w_block = 0, w_op = op\<rparr>)"
  have split: "sample_forwarded = [wk 0 (Define (ddr_cast 10))] @ wk 1 (DmaStoreOp (buf 1) (ddr_cast 10))
      # [wk 2 (Define (ddr_cast 11)), wk 3 (ActOp (buf 1) (buf 3) RELU)]"
    by (simp add: sample_forwarded_def numbered_def wk_def upt_rec)
  have "length (snd (erase_store \<lparr>m_storeOp = 1, m_loadOp = 3\<rparr> ({}, sample_forwarded))) = 3" by code_simp
  moreover have "read (run_ops sample_nat_chip (program (snd (erase_store \<lparr>m_storeOp = 1, m_loadOp = 3\<rparr> ({}, sample_forwarded)))) sample_memory) (buf 3) [0, 0] = 7"
    by code_simp
  moreover have "run_ops sample_nat_chip (program (snd (erase_store \<lparr>m_storeOp = 1, m_loadOp = 3\<rparr> ({}, sample_forwarded)))) sample_memory (buf 3)
        = run_ops sample_nat_chip (program sample_forwarded) sample_memory (buf 3)"
    using erase_store_preserves_program [OF split, of "buf 1" "ddr_cast 10" sample_nat_chip 3 sample_memory]
    by (simp add: split wk_def ddr_cast_def buf_def toDDR_def loop_free_def flat_views_def)
  ultimately show ?thesis by blast
qed

text \<open>
  A function that stores its result and then uses it.
\<close>

definition sample_result :: ir_value where
  "sample_result = BlockArg 0 (packed_memref [1, 1] f16)"

definition sample_output :: "walked list" where
  "sample_output = numbered [Define (toDDR 10 sample_result), DmaStoreOp (buf 1) (toDDR 10 sample_result),
     Define (toDDR 11 sample_result), DmaLoadOp (toDDR 11 sample_result) (buf 2), ActOp (buf 2) (buf 3) RELU]"

text \<open>
  Nothing exempts the arguments of the function: a result that is also loaded back is never
  written.
\<close>

theorem erased_store_is_result:
  "read (run_ops sample_nat_chip (program sample_output) sample_memory) sample_result [0, 0] = 7 \<and>
   read (run_ops sample_nat_chip (program (eclipse_elide_copies sample_output)) sample_memory) sample_result [0, 0] = 0"
  by code_simp

end
