(* ===== verification/Allocate.thy ===== *)
theory Allocate
  imports Ir CModel
begin

text \<open>
  compiler/lib/Dialect/Eclipse/Transforms/EclipseAllocate: the bump allocator of SRAM and the pass
  that gives every function argument and allocation an address.  \<open>llvm::alignTo\<close> is a parameter.
\<close>

section \<open>SramAllocator\<close>

record SramAllocator =
  sa_base :: u32
  sa_size :: u32
  sa_next :: u32

definition SramAllocator_init :: "u32 \<Rightarrow> u32 \<Rightarrow> SramAllocator" where
  "SramAllocator_init base sz = \<lparr>sa_base = base, sa_size = sz, sa_next = base\<rparr>"

definition allocate :: "(u64 \<Rightarrow> u64 \<Rightarrow> u64) \<Rightarrow> SramAllocator \<Rightarrow> u32 \<Rightarrow> u32 \<Rightarrow> u32 \<times> SramAllocator" where
  "allocate alignTo a sz alignment =
     (let alignd = ucast (alignTo (ucast (sa_next a)) (ucast alignment)) :: u32
      in if alignd + sz > sa_base a + sa_size a then (0, a)
         else (alignd, a\<lparr>sa_next := alignd + sz\<rparr>))"

section \<open>The pass\<close>

text \<open>
  A function is the list of its arguments, each with whether its type is a memref.  The state of the
  pass: the allocator, the next DDR address, the attributes \<open>eclipse.ddr_addr\<close>, the addresses of the
  buffers that replace allocations, and whether \<open>signalPassFailure\<close> was called.
\<close>

record alloc_state =
  as_sram :: SramAllocator
  as_ddr :: u32
  as_attrs :: "ir_value \<rightharpoonup> int"
  as_bufs :: "ir_value \<rightharpoonup> u32"
  as_failed :: bool

definition ddrStride :: u32 where "ddrStride = 0x10000"

definition alloc_init :: alloc_state where
  "alloc_init = \<lparr>as_sram = SramAllocator_init SRAM_ADDR SRAM_SIZE, as_ddr = DDR_ADDR + 0x10000,
     as_attrs = Map.empty, as_bufs = Map.empty, as_failed = False\<rparr>"

text \<open>Give \<open>v\<close> the next DDR address, as an attribute of 64 bits.\<close>

definition assign_ddr :: "ir_value \<Rightarrow> alloc_state \<Rightarrow> alloc_state" where
  "assign_ddr v st = st\<lparr>as_attrs := (as_attrs st)(v \<mapsto> uint (as_ddr st)), as_ddr := as_ddr st + ddrStride\<rparr>"

definition allocate_args :: "(ir_value \<times> bool) list \<Rightarrow> alloc_state \<Rightarrow> alloc_state" where
  "allocate_args args st =
     (let st' = fold (\<lambda>(v, is_memref). if is_memref then assign_ddr v else id) args st
      in if as_ddr st' > DDR_ADDR + DDR_SIZE then st'\<lparr>as_failed := True\<rparr> else st')"

definition byte_size :: "memref \<Rightarrow> int" where
  "byte_size t = num_elements t * int (elt_bits (mr_elem t)) div 8"

text \<open>
  The layout \<open>golden-mirror\<close>, from the products whose operands are allocations; the walk visits
  the body of a loop once, here at the first value of its variable, on which an allocation does not
  depend.
\<close>

definition golden_matmul :: "ir_value \<Rightarrow> ir_value \<Rightarrow> ir_value \<Rightarrow> (ir_value \<rightharpoonup> u32) \<Rightarrow> (ir_value \<rightharpoonup> u32)" where
  "golden_matmul lhs rhs dst m = (case (lhs, rhs, dst) of
       (AllocRes i lt la, AllocRes j rt ra, AllocRes k dt da) \<Rightarrow>
         let cSize = word_of_int (byte_size dt) :: u64;
             aAddr = SRAM_ADDR;
             bAddr = ucast (ucast SRAM_ADDR + cSize) :: u32;
             cAddr = ucast (ucast SRAM_ADDR + 2 * cSize) :: u32
         in m(lhs \<mapsto> aAddr, rhs \<mapsto> bAddr, dst \<mapsto> cAddr)
     | _ \<Rightarrow> m)"

primrec golden_step :: "operation \<Rightarrow> (ir_value \<rightharpoonup> u32) \<Rightarrow> (ir_value \<rightharpoonup> u32)" where
  "golden_step (Define v) = id"
| "golden_step (DmaLoadOp s d) = id"
| "golden_step (DmaStoreOp s d) = id"
| "golden_step SyncOp = id"
| "golden_step (MatmulOp l r d acc ta tb) = golden_matmul l r d"
| "golden_step (EwiseOp b l r d) = id"
| "golden_step (ActOp s d k) = id"
| "golden_step (ReduceOp s d i k) = id"
| "golden_step (DeallocOp v) = id"
| "golden_step (ForOp lb ub st body) = fold id ((map golden_step \<circ> body) lb)"
| "golden_step (OtherOp vs) = id"

definition goldenLayout :: "bool \<Rightarrow> operation list \<Rightarrow> (ir_value \<rightharpoonup> u32)" where
  "goldenLayout golden_mirror ops = (if golden_mirror then fold golden_step ops Map.empty else Map.empty)"

text \<open>
  Memory space 0, and no user that casts it to DDR.  Here and in \<open>alloc_one\<close> the operations are those
  of the blocks outside loops, where every pattern of the lowering puts its allocations and casts.
\<close>

definition is_sram :: "operation list \<Rightarrow> ir_value \<Rightarrow> memref \<Rightarrow> bool" where
  "is_sram ops v t \<longleftrightarrow> mr_space t = SRAM_MEMORY_SPACE
     \<and> \<not> list_ex (\<lambda>op. case op of Define (CastRes j s t') \<Rightarrow> s = v \<and> mr_space t' = DDR_MEMORY_SPACE | _ \<Rightarrow> False) ops"

definition alloc_one :: "(u64 \<Rightarrow> u64 \<Rightarrow> u64) \<Rightarrow> (ir_value \<rightharpoonup> u32) \<Rightarrow> operation list \<Rightarrow> operation \<Rightarrow> alloc_state \<Rightarrow> alloc_state" where
  "alloc_one alignTo golden ops op st = (case op of
       Define (AllocRes i t al) \<Rightarrow>
         let v = AllocRes i t al
         in if is_sram ops v t then
              let sz = byte_size t;
                  alignment = (case al of Some n \<Rightarrow> of_nat n | None \<Rightarrow> SRAM_ALIGNMENT);
                  (addr, sram') = (case golden v of
                      Some a \<Rightarrow> (a, as_sram st)
                    | None \<Rightarrow> allocate alignTo (as_sram st) (word_of_int sz) (ucast alignment))
              in if addr = 0 then st\<lparr>as_sram := sram', as_failed := True\<rparr>
                 else st\<lparr>as_sram := sram', as_bufs := (as_bufs st)(v \<mapsto> addr)\<rparr>
            else assign_ddr v st
     | _ \<Rightarrow> st)"

definition eclipse_allocate :: "(u64 \<Rightarrow> u64 \<Rightarrow> u64) \<Rightarrow> bool \<Rightarrow> (ir_value \<times> bool) list list \<Rightarrow> operation list \<Rightarrow> alloc_state" where
  "eclipse_allocate alignTo golden_mirror funcs ops =
     fold (alloc_one alignTo (goldenLayout golden_mirror ops) ops) ops (fold allocate_args funcs alloc_init)"

text \<open>The values after the pass: an allocation with a buffer is replaced by it in every use.\<close>

primrec replace_allocs :: "(ir_value \<rightharpoonup> u32) \<Rightarrow> ir_value \<Rightarrow> ir_value" where
  "replace_allocs bufs (BlockArg i t) = BlockArg i t"
| "replace_allocs bufs (SramBuf i a t) = SramBuf i a t"
| "replace_allocs bufs (AllocRes i t al) = (case bufs (AllocRes i t al) of Some a \<Rightarrow> SramBuf i a t | None \<Rightarrow> AllocRes i t al)"
| "replace_allocs bufs (CastRes i v t) = CastRes i (replace_allocs bufs v) t"
| "replace_allocs bufs (SubViewRes i v offs sizes strides t) = SubViewRes i (replace_allocs bufs v) offs sizes strides t"
| "replace_allocs bufs (ExpandRes i v t) = ExpandRes i (replace_allocs bufs v) t"

section \<open>The allocator's contract\<close>

text \<open>
  What the pass relies on: rounding up to a multiple, exact as long as 64 bits suffice.
\<close>

locale align_to =
  fixes alignTo :: "u64 \<Rightarrow> u64 \<Rightarrow> u64"
  assumes align_dvd: "a \<noteq> 0 \<Longrightarrow> unat v + unat a \<le> 2 ^ 64 \<Longrightarrow> unat a dvd unat (alignTo v a)"
    and align_ge: "a \<noteq> 0 \<Longrightarrow> unat v + unat a \<le> 2 ^ 64 \<Longrightarrow> unat v \<le> unat (alignTo v a)"
    and align_less: "a \<noteq> 0 \<Longrightarrow> unat v + unat a \<le> 2 ^ 64 \<Longrightarrow> unat (alignTo v a) < unat v + unat a"
begin

text \<open>A request that 32 bits can hold: the buffer follows the ones before it, or there is no room.\<close>

definition good_request :: "u32 \<times> u32 \<Rightarrow> bool" where
  "good_request r = (case r of (sz, al) \<Rightarrow> unat sz \<le> 2 ^ 31 \<and> 0 < unat al \<and> unat al \<le> 2 ^ 24)"

lemma allocate_cases:
  assumes "good_request (sz, al)" and lim: "unat (sa_base a) + unat (sa_size a) \<le> 2 ^ 30" and nx: "unat (sa_next a) \<le> 2 ^ 30"
    and "allocate alignTo a sz al = (addr, a')"
  shows "(addr = 0 \<and> a' = a) \<or>
    (unat (sa_next a) \<le> unat addr \<and> unat al dvd unat addr \<and> unat addr + unat sz \<le> unat (sa_base a) + unat (sa_size a)
      \<and> a' = a\<lparr>sa_next := addr + sz\<rparr> \<and> unat (addr + sz) = unat addr + unat sz)"
proof -
  have g: "unat sz \<le> 2 ^ 31" "0 < unat al" "unat al \<le> 2 ^ 24" using assms(1) by (simp_all add: good_request_def)
  define v w where "v = (ucast (sa_next a) :: u64)" and "w = (ucast al :: u64)"
  have v: "unat v = unat (sa_next a)" "unat w = unat al"
    using unat_u32_less [of "sa_next a"] unat_u32_less [of al] by (simp_all add: v_def w_def unat_ucast_small)
  have w0: "w \<noteq> 0" and fit: "unat v + unat w \<le> 2 ^ 64"
    using g v nx by (auto simp: word_unat_eq_iff)
  define r where "r = alignTo v w"
  from align_dvd [OF w0 fit] align_ge [OF w0 fit] align_less [OF w0 fit]
  have r: "unat al dvd unat r" "unat (sa_next a) \<le> unat r" "unat r < unat (sa_next a) + unat al"
    by (simp_all add: v r_def)
  define alignd where "alignd = (ucast r :: u32)"
  have rs: "unat r < 2 ^ 30 + 2 ^ 24 + 1" using r(3) nx g(3) by simp
  then have d: "unat alignd = unat r" by (simp add: alignd_def unat_ucast_small)
  have sum: "unat (alignd + sz) = unat alignd + unat sz" using rs d g(1) by (intro unat_add_no_wrap) simp
  have limit: "unat (sa_base a + sa_size a) = unat (sa_base a) + unat (sa_size a)" using lim by (intro unat_add_no_wrap) simp
  show ?thesis
    using assms(4) r d sum limit
    by (auto simp: allocate_def Let_def alignd_def [symmetric] r_def [symmetric] v_def [symmetric] w_def [symmetric]
        word_less_nat_alt split: if_splits)
qed

text \<open>A request with room for its size and its alignment is served.\<close>

lemma allocate_fits:
  assumes g: "good_request (sz, al)" and base: "0 < unat (sa_next a)"
    and room: "unat (sa_next a) + unat al + unat sz \<le> unat (sa_base a) + unat (sa_size a)"
    and lim: "unat (sa_base a) + unat (sa_size a) \<le> 2 ^ 30"
  shows "\<exists>addr. allocate alignTo a sz al = (addr, a\<lparr>sa_next := addr + sz\<rparr>) \<and> addr \<noteq> 0
    \<and> unat (addr + sz) \<le> unat (sa_next a) + unat al + unat sz \<and> 0 < unat (addr + sz)"
proof -
  have b: "unat sz \<le> 2 ^ 31" "0 < unat al" "unat al \<le> 2 ^ 24" using g by (simp_all add: good_request_def)
  have nx: "unat (sa_next a) \<le> 2 ^ 30" using room lim by simp
  define v w where "v = (ucast (sa_next a) :: u64)" and "w = (ucast al :: u64)"
  have v: "unat v = unat (sa_next a)" "unat w = unat al"
    using unat_u32_less [of "sa_next a"] unat_u32_less [of al] by (simp_all add: v_def w_def unat_ucast_small)
  have w0: "w \<noteq> 0" and fit: "unat v + unat w \<le> 2 ^ 64" using b v nx by (auto simp: word_unat_eq_iff)
  define r where "r = alignTo v w"
  from align_ge [OF w0 fit] align_less [OF w0 fit]
  have r: "unat (sa_next a) \<le> unat r" "unat r < unat (sa_next a) + unat al" by (simp_all add: v r_def)
  define addr where "addr = (ucast r :: u32)"
  have "unat r < 2 ^ 30 + 2 ^ 24 + 1" using r(2) nx b(3) by simp
  then have d: "unat addr = unat r" by (simp add: addr_def unat_ucast_small)
  have sum: "unat (addr + sz) = unat addr + unat sz" using r(2) d nx b by (intro unat_add_no_wrap) simp
  have limit: "unat (sa_base a + sa_size a) = unat (sa_base a) + unat (sa_size a)" using lim by (intro unat_add_no_wrap) simp
  have "(sa_base a + sa_size a < addr + sz) = False" using room r(2) d sum limit by (simp add: word_less_nat_alt)
  then have "allocate alignTo a sz al = (addr, a\<lparr>sa_next := addr + sz\<rparr>)"
    by (simp add: allocate_def Let_def v_def [symmetric] w_def [symmetric] r_def [symmetric] addr_def [symmetric] del: not_less)
  moreover have "addr \<noteq> 0" using base r(1) d by (auto simp: word_unat_eq_iff)
  ultimately show ?thesis using r d sum base by (intro exI [of _ addr]) simp
qed

end

text \<open>The rounding of the runtime's \<open>ceilDiv\<close> is such a function.\<close>

definition round_up :: "u64 \<Rightarrow> u64 \<Rightarrow> u64" where
  "round_up v a = ceilDiv v a * a"

interpretation round_up: align_to round_up
proof
  fix v a :: u64
  assume a: "a \<noteq> 0" and fit: "unat v + unat a \<le> 2 ^ 64"
  define A V where "A = unat a" and "V = unat v"
  have A: "0 < A" using a by (simp add: A_def unat_gt_0)
  have "unat (v + a - 1) = V + A - 1"
  proof -
    have eq: "v + a - 1 = of_nat (V + A - 1)" using A by (simp add: V_def A_def of_nat_diff)
    have "V + A - 1 < 2 ^ LENGTH(64)" using A fit by (simp add: V_def A_def)
    then show ?thesis unfolding eq by (rule unat_of_nat_small)
  qed
  then have c: "unat (ceilDiv v a) = (V + A - 1) div A" by (simp add: ceilDiv_def unat_div A_def)
  have "(V + A - 1) div A * A \<le> V + A - 1" by simp
  then have "(V + A - 1) div A * A < 2 ^ 64" using A fit unfolding A_def V_def by linarith
  then have r: "unat (round_up v a) = (V + A - 1) div A * A"
    using c by (simp add: round_up_def unat_mult_no_wrap A_def)
  show "unat a dvd unat (round_up v a)" by (simp add: r A_def)
  show "unat v \<le> unat (round_up v a)"
  proof -
    have "V + A - 1 < (V + A - 1) div A * A + A" using A by (metis add.commute dividend_less_div_times)
    then show ?thesis using A by (simp add: r V_def)
  qed
  show "unat (round_up v a) < unat v + unat a"
    using A \<open>(V + A - 1) div A * A \<le> V + A - 1\<close> unfolding r V_def A_def by linarith
qed

section \<open>Requests served one after the other\<close>

text \<open>The blocks handed out for a list of requests, as address, size and alignment.\<close>

primrec serve :: "(u64 \<Rightarrow> u64 \<Rightarrow> u64) \<Rightarrow> SramAllocator \<Rightarrow> (u32 \<times> u32) list \<Rightarrow> (u32 \<times> u32 \<times> u32) list" where
  "serve alignTo a [] = []"
| "serve alignTo a (r # rs) = (case r of (sz, al) \<Rightarrow>
     case allocate alignTo a sz al of (addr, a') \<Rightarrow> (addr, sz, al) # serve alignTo a' rs)"

definition served :: "(u64 \<Rightarrow> u64 \<Rightarrow> u64) \<Rightarrow> SramAllocator \<Rightarrow> (u32 \<times> u32) list \<Rightarrow> (u32 \<times> u32 \<times> u32) list" where
  "served alignTo a rs = filter (\<lambda>(addr, sz, al). addr \<noteq> 0) (serve alignTo a rs)"

definition block_before :: "u32 \<times> u32 \<times> u32 \<Rightarrow> u32 \<times> u32 \<times> u32 \<Rightarrow> bool" where
  "block_before x y \<longleftrightarrow> unat (fst x) + unat (fst (snd x)) \<le> unat (fst y)"

definition block_within :: "nat \<Rightarrow> nat \<Rightarrow> u32 \<times> u32 \<times> u32 \<Rightarrow> bool" where
  "block_within lo hi x \<longleftrightarrow> lo \<le> unat (fst x) \<and> unat (fst x) + unat (fst (snd x)) \<le> hi \<and> unat (snd (snd x)) dvd unat (fst x)"

context align_to
begin

lemma served_blocks:
  assumes "list_all good_request rs" and "unat (sa_base a) + unat (sa_size a) \<le> 2 ^ 30"
    and "unat (sa_next a) \<le> unat (sa_base a) + unat (sa_size a)"
  shows "sorted_wrt block_before (served alignTo a rs)
    \<and> (\<forall>b \<in> set (served alignTo a rs). block_within (unat (sa_next a)) (unat (sa_base a) + unat (sa_size a)) b)"
  using assms
proof (induction rs arbitrary: a)
  case Nil
  then show ?case by (simp add: served_def)
next
  case (Cons r rs)
  obtain sz al where r: "r = (sz, al)" by (cases r)
  obtain addr a' where al: "allocate alignTo a sz al = (addr, a')" by (cases "allocate alignTo a sz al")
  from Cons.prems(2,3) have nx: "unat (sa_next a) \<le> 2 ^ 30" by linarith
  have g: "good_request (sz, al)" "list_all good_request rs" using Cons.prems(1) by (simp_all add: r)
  from allocate_cases [OF g(1) Cons.prems(2) nx al] show ?case
  proof (elim disjE conjE)
    assume "addr = 0" "a' = a"
    then have "served alignTo a (r # rs) = served alignTo a rs" by (simp add: served_def r al)
    with Cons.IH [OF g(2) Cons.prems(2,3)] show ?thesis by simp
  next
    assume b: "unat (sa_next a) \<le> unat addr" "unat al dvd unat addr"
      "unat addr + unat sz \<le> unat (sa_base a) + unat (sa_size a)" "a' = a\<lparr>sa_next := addr + sz\<rparr>"
      "unat (addr + sz) = unat addr + unat sz"
    then have IH: "sorted_wrt block_before (served alignTo a' rs)"
      "\<forall>b \<in> set (served alignTo a' rs). block_within (unat addr + unat sz) (unat (sa_base a) + unat (sa_size a)) b"
      using Cons.IH [of a'] g(2) Cons.prems(2) by simp_all
    moreover from this(2) have "\<forall>b \<in> set (served alignTo a' rs). block_within (unat (sa_next a)) (unat (sa_base a) + unat (sa_size a)) b"
      "\<forall>b \<in> set (served alignTo a' rs). block_before (addr, sz, al) b"
      using b(1) by (auto simp: block_within_def block_before_def)
    moreover have "block_within (unat (sa_next a)) (unat (sa_base a) + unat (sa_size a)) (addr, sz, al)"
      using b(1-3) by (simp add: block_within_def)
    moreover have s: "served alignTo a (r # rs) = (if addr = 0 then served alignTo a' rs else (addr, sz, al) # served alignTo a' rs)"
      by (simp add: served_def r al)
    ultimately show ?thesis unfolding s by simp
  qed
qed

end

section \<open>The buffers of a module\<close>

definition buf_bytes :: "ir_value \<Rightarrow> nat" where
  "buf_bytes v = nat (byte_size (value_type v))"

definition buf_align :: "ir_value \<Rightarrow> nat" where
  "buf_align v = (case v of AllocRes i t (Some n) \<Rightarrow> n | _ \<Rightarrow> 32)"

definition request_ok :: "operation \<Rightarrow> bool" where
  "request_ok op = (case op of
       Define (AllocRes i t al) \<Rightarrow> 0 \<le> byte_size t \<and> byte_size t \<le> 2 ^ 31
         \<and> (case al of None \<Rightarrow> True | Some n \<Rightarrow> 0 < n \<and> n \<le> 2 ^ 24)
     | _ \<Rightarrow> True)"

definition sram_inv :: "alloc_state \<Rightarrow> bool" where
  "sram_inv st \<longleftrightarrow> sa_base (as_sram st) = SRAM_ADDR \<and> sa_size (as_sram st) = SRAM_SIZE
     \<and> 0x10000000 \<le> unat (sa_next (as_sram st)) \<and> unat (sa_next (as_sram st)) \<le> 0x10080000
     \<and> (\<forall>v a. as_bufs st v = Some a \<longrightarrow> 0x10000000 \<le> unat a \<and> unat a + buf_bytes v \<le> unat (sa_next (as_sram st))
        \<and> buf_align v dvd unat a)
     \<and> (\<forall>v w a b. as_bufs st v = Some a \<longrightarrow> as_bufs st w = Some b \<longrightarrow> v \<noteq> w \<longrightarrow> apart (unat a) (buf_bytes v) (unat b) (buf_bytes w))"

lemma sram_inv_args: "sram_inv st \<Longrightarrow> sram_inv (allocate_args args st)"
proof -
  have "sram_inv (assign_ddr v s) = sram_inv s" for v s by (simp add: sram_inv_def assign_ddr_def)
  then have "sram_inv (fold (\<lambda>(v, m). if m then assign_ddr v else id) args st) = sram_inv st"
    by (induction args arbitrary: st) (simp_all split: prod.splits)
  moreover have "sram_inv (s\<lparr>as_failed := b\<rparr>) = sram_inv s" for s b by (simp add: sram_inv_def)
  ultimately show "sram_inv st \<Longrightarrow> sram_inv (allocate_args args st)" by (simp add: allocate_args_def Let_def)
qed

context align_to
begin

lemma sram_inv_step:
  assumes "sram_inv st" and "request_ok op"
  shows "sram_inv (alloc_one alignTo Map.empty ops op st)"
proof (cases "\<exists>i t al. op = Define (AllocRes i t al)")
  case False
  then have "alloc_one alignTo Map.empty ops op st = st"
    by (auto simp: alloc_one_def split: operation.splits ir_value.splits)
  with assms(1) show ?thesis by simp
next
  case True
  then obtain i t al where op: "op = Define (AllocRes i t al)" by blast
  show ?thesis
  proof (cases "is_sram ops (AllocRes i t al) t")
    case False
    with assms(1) show ?thesis by (simp add: alloc_one_def op assign_ddr_def sram_inv_def)
  next
    case True
    define v where "v = AllocRes i t al"
    define sz :: u32 where "sz = word_of_int (byte_size t)"
    define align where "align = (ucast (case al of Some n \<Rightarrow> of_nat n :: u64 | None \<Rightarrow> SRAM_ALIGNMENT) :: u32)"
    from assms(2) have bytes: "0 \<le> byte_size t" "byte_size t \<le> 2 ^ 31" and al: "case al of None \<Rightarrow> True | Some n \<Rightarrow> 0 < n \<and> n \<le> 2 ^ 24"
      by (simp_all add: request_ok_def op)
    have vb: "buf_bytes v = nat (byte_size t)" by (simp add: v_def buf_bytes_def)
    have sz: "unat sz = buf_bytes v"
    proof -
      have "sz = of_nat (nat (byte_size t))" using bytes(1) by (simp add: sz_def)
      then show ?thesis unfolding vb by (simp only:) (rule unat_of_nat_small, use bytes in simp)
    qed
    have "0 < unat align \<and> unat align \<le> 2 ^ 24" and va: "unat align = buf_align v"
      using al by (cases al; simp add: align_def SRAM_ALIGNMENT_def unat_ucast_small unat_of_nat_small buf_align_def v_def)+
    then have g: "good_request (sz, align)" using bytes by (simp add: good_request_def sz vb)
    obtain addr a' where a: "allocate alignTo (as_sram st) sz align = (addr, a')" by (cases "allocate alignTo (as_sram st) sz align")
    from assms(1) have lim: "unat (sa_base (as_sram st)) + unat (sa_size (as_sram st)) = 0x10080000"
      and nx: "unat (sa_next (as_sram st)) \<le> 0x10080000" by (simp_all add: sram_inv_def to_nat)
    have step: "alloc_one alignTo Map.empty ops op st = (if addr = 0 then st\<lparr>as_sram := a', as_failed := True\<rparr>
        else st\<lparr>as_sram := a', as_bufs := (as_bufs st)(v \<mapsto> addr)\<rparr>)"
      using True a unfolding sz_def align_def v_def by (simp add: alloc_one_def op Let_def)
    have "unat (sa_base (as_sram st)) + unat (sa_size (as_sram st)) \<le> 2 ^ 30" "unat (sa_next (as_sram st)) \<le> 2 ^ 30"
      using lim nx by simp_all
    from allocate_cases [OF g this a] show ?thesis
    proof (elim disjE conjE)
      assume "addr = 0" "a' = as_sram st"
      with assms(1) show ?thesis by (simp add: step sram_inv_def)
    next
      assume d: "unat align dvd unat addr"
      assume b: "unat (sa_next (as_sram st)) \<le> unat addr"
        "unat addr + unat sz \<le> unat (sa_base (as_sram st)) + unat (sa_size (as_sram st))"
        "a' = (as_sram st)\<lparr>sa_next := addr + sz\<rparr>" "unat (addr + sz) = unat addr + unat sz"
      have nz: "addr \<noteq> 0" using b(1) assms(1) by (auto simp: sram_inv_def)
      have up: "unat (sa_next a') = unat addr + buf_bytes v" "sa_base a' = sa_base (as_sram st)" "sa_size a' = sa_size (as_sram st)"
        using b(3,4) sz by simp_all
      show ?thesis
        using assms(1) nz b(1,2) lim unfolding step sram_inv_def
        by (auto simp: up sz apart_def d [unfolded va]) fastforce+
    qed
  qed
qed

lemma sram_inv_pass:
  assumes "\<forall>op \<in> set ops. request_ok op"
  shows "sram_inv (eclipse_allocate alignTo False funcs ops)"
proof -
  have i: "sram_inv alloc_init"
    by (simp add: sram_inv_def alloc_init_def SramAllocator_init_def to_nat)
  have f: "sram_inv st \<Longrightarrow> sram_inv (fold allocate_args funcs st)" for st
    by (induction funcs arbitrary: st) (simp_all add: sram_inv_args)
  have o: "\<forall>op \<in> set os. request_ok op \<Longrightarrow> sram_inv st \<Longrightarrow> sram_inv (fold (alloc_one alignTo Map.empty ops) os st)" for os st
    by (induction os arbitrary: st) (simp_all add: sram_inv_step)
  show ?thesis using o [OF assms f [OF i]] by (simp add: eclipse_allocate_def goldenLayout_def)
qed

end
section \<open>DDR addresses\<close>

text \<open>The address of slot \<open>j\<close>, and the attribute that names it.\<close>

definition slot :: "nat \<Rightarrow> u32" where
  "slot j = DDR_ADDR + 0x10000 * of_nat (Suc j)"

lemma slot_Suc: "slot j + ddrStride = slot (Suc j)"
  by (simp add: slot_def ddrStride_def algebra_simps)

lemma unat_slot: "j < 0x7FFF \<Longrightarrow> unat (slot j) = 0x40000000 + 0x10000 * Suc j"
proof -
  assume j: "j < 0x7FFF"
  then have b: "Suc j < 2 ^ 32" "0x10000 * Suc j < 2 ^ 32" by simp_all
  have s: "unat (of_nat (Suc j) :: u32) = Suc j" by (rule unat_of_nat_small) (use b in simp)
  have "unat (0x10000 * of_nat (Suc j) :: u32) = unat (0x10000 :: u32) * unat (of_nat (Suc j) :: u32)"
    by (rule unat_mult_no_wrap) (use b s in simp)
  then have m: "unat (0x10000 * of_nat (Suc j) :: u32) = 0x10000 * Suc j" using s by simp
  then have "unat (slot j) = unat DDR_ADDR + unat (0x10000 * of_nat (Suc j) :: u32)"
    unfolding slot_def by (intro unat_add_no_wrap) (use j in \<open>simp add: to_nat\<close>)
  with m show ?thesis by (simp add: to_nat)
qed

text \<open>
  Every attribute names a slot of its own, \<open>curDdrAddr\<close> is the first free one, and at most \<open>n\<close>
  slots are taken.
\<close>

definition ddr_inv :: "nat \<Rightarrow> alloc_state \<Rightarrow> bool" where
  "ddr_inv n st \<longleftrightarrow> (\<exists>k \<le> n. as_ddr st = slot k
     \<and> (\<forall>v a. as_attrs st v = Some a \<longrightarrow> (\<exists>j<k. a = uint (slot j)))
     \<and> (\<forall>v w a. as_attrs st v = Some a \<longrightarrow> as_attrs st w = Some a \<longrightarrow> v = w))"

lemma ddr_inv_mono: "ddr_inv n st \<Longrightarrow> n \<le> m \<Longrightarrow> ddr_inv m st"
  unfolding ddr_inv_def by (meson le_trans)

lemma ddr_inv_frame: "as_ddr s = as_ddr t \<Longrightarrow> as_attrs s = as_attrs t \<Longrightarrow> ddr_inv n s = ddr_inv n t"
  by (simp add: ddr_inv_def)

lemma slot_eq: "i < 0x7FFF \<Longrightarrow> j < 0x7FFF \<Longrightarrow> slot i = slot j \<longleftrightarrow> i = j"
  using unat_slot [of i] unat_slot [of j] by (auto simp: word_unat_eq_iff)

lemma ddr_inv_assign:
  assumes "ddr_inv n st" and "n < 0x7FFF"
  shows "ddr_inv (Suc n) (assign_ddr v st)"
proof -
  from assms(1) obtain k where k: "k \<le> n" "as_ddr st = slot k"
    and old: "\<And>w a. as_attrs st w = Some a \<Longrightarrow> \<exists>j<k. a = uint (slot j)"
    and inj: "\<And>u w a. as_attrs st u = Some a \<Longrightarrow> as_attrs st w = Some a \<Longrightarrow> u = w"
    unfolding ddr_inv_def by blast
  define X where "X = uint (slot k)"
  have "X \<noteq> uint (slot j)" if "j < k" for j
    using slot_eq [of k j] that k(1) assms(2) by (auto simp: X_def dest: word_uint_eqI)
  then have new: "as_attrs st w \<noteq> Some X" for w using old by metis
  have attrs: "as_attrs (assign_ddr v st) = (as_attrs st)(v \<mapsto> X)" "as_ddr (assign_ddr v st) = slot (Suc k)"
    by (simp_all add: assign_ddr_def X_def k(2) slot_Suc)
  show ?thesis
    unfolding ddr_inv_def attrs
  proof (intro exI [of _ "Suc k"] conjI)
    show "\<forall>w a. ((as_attrs st)(v \<mapsto> X)) w = Some a \<longrightarrow> (\<exists>j < Suc k. a = uint (slot j))"
    proof (intro allI impI)
      fix w a
      assume a: "((as_attrs st)(v \<mapsto> X)) w = Some a"
      show "\<exists>j < Suc k. a = uint (slot j)"
      proof (cases "w = v")
        case True
        with a show ?thesis by (auto simp: X_def)
      next
        case False
        with a old [of w a] obtain j where "j < k" "a = uint (slot j)" by auto
        then show ?thesis by (intro exI [of _ j]) simp
      qed
    qed
    show "\<forall>u w a. ((as_attrs st)(v \<mapsto> X)) u = Some a \<longrightarrow> ((as_attrs st)(v \<mapsto> X)) w = Some a \<longrightarrow> u = w"
      using new inj by auto
  qed (use k in simp_all)
qed

lemma ddr_inv_fold_args:
  "ddr_inv n st \<Longrightarrow> n + length args \<le> 0x7FFF \<Longrightarrow>
    ddr_inv (n + length args) (fold (\<lambda>(v, m). if m then assign_ddr v else id) args st)"
proof (induction args arbitrary: n st)
  case Nil
  then show ?case by simp
next
  case (Cons x args)
  obtain v m where x: "x = (v, m)" by (cases x)
  have "ddr_inv (Suc n) (if m then assign_ddr v st else st)"
    using Cons.prems ddr_inv_assign [OF Cons.prems(1)] ddr_inv_mono [OF Cons.prems(1), of "Suc n"] by simp
  from Cons.IH [OF this] Cons.prems(2) show ?case by (cases m) (simp_all add: x)
qed

lemma ddr_inv_args:
  "ddr_inv n st \<Longrightarrow> n + length args \<le> 0x7FFF \<Longrightarrow> ddr_inv (n + length args) (allocate_args args st)"
proof -
  have "ddr_inv k (s\<lparr>as_failed := b\<rparr>) = ddr_inv k s" for k s b by (rule ddr_inv_frame) simp_all
  then show "ddr_inv n st \<Longrightarrow> n + length args \<le> 0x7FFF \<Longrightarrow> ddr_inv (n + length args) (allocate_args args st)"
    using ddr_inv_fold_args by (simp add: allocate_args_def Let_def)
qed

lemma alloc_one_ddr:
  "(as_ddr (alloc_one alignTo golden ops op st) = as_ddr st \<and> as_attrs (alloc_one alignTo golden ops op st) = as_attrs st)
    \<or> (\<exists>i t al. alloc_one alignTo golden ops op st = assign_ddr (AllocRes i t al) st)"
  by (cases op) (auto simp: alloc_one_def Let_def split: ir_value.splits prod.splits option.splits)

lemma ddr_inv_one:
  assumes "ddr_inv n st" and "n < 0x7FFF"
  shows "ddr_inv (Suc n) (alloc_one alignTo golden ops op st)"
  using alloc_one_ddr [of alignTo golden ops op st]
proof (elim disjE conjE exE)
  assume "as_ddr (alloc_one alignTo golden ops op st) = as_ddr st" "as_attrs (alloc_one alignTo golden ops op st) = as_attrs st"
  then have "ddr_inv n (alloc_one alignTo golden ops op st)" using assms(1) ddr_inv_frame by blast
  then show ?thesis by (rule ddr_inv_mono) simp
next
  fix i t al
  assume "alloc_one alignTo golden ops op st = assign_ddr (AllocRes i t al) st"
  then show ?thesis using ddr_inv_assign [OF assms] by simp
qed

lemma ddr_inv_ops:
  "ddr_inv n st \<Longrightarrow> n + length os \<le> 0x7FFF \<Longrightarrow> ddr_inv (n + length os) (fold (alloc_one alignTo golden ops) os st)"
proof (induction os arbitrary: n st)
  case Nil
  then show ?case by simp
next
  case (Cons op os)
  have "ddr_inv (Suc n) (alloc_one alignTo golden ops op st)" using Cons.prems by (intro ddr_inv_one) simp_all
  from Cons.IH [OF this] Cons.prems(2) show ?case by simp
qed

lemma ddr_inv_funcs:
  "ddr_inv n st \<Longrightarrow> n + sum_list (map length funcs) \<le> 0x7FFF \<Longrightarrow>
    ddr_inv (n + sum_list (map length funcs)) (fold allocate_args funcs st)"
proof (induction funcs arbitrary: n st)
  case Nil
  then show ?case by simp
next
  case (Cons args funcs)
  have "ddr_inv (n + length args) (allocate_args args st)" using Cons.prems by (intro ddr_inv_args) simp_all
  from Cons.IH [OF this] Cons.prems(2) show ?case by (simp add: add.assoc)
qed

lemma ddr_inv_init: "ddr_inv 0 alloc_init"
  by (simp add: ddr_inv_def alloc_init_def slot_def)

lemma ddr_inv_pass:
  assumes "sum_list (map length funcs) + length ops \<le> 0x7FFF"
  shows "ddr_inv 0x7FFF (eclipse_allocate alignTo gm funcs ops)"
proof -
  have "ddr_inv (0 + sum_list (map length funcs)) (fold allocate_args funcs alloc_init)"
    by (rule ddr_inv_funcs [OF ddr_inv_init]) (use assms in simp)
  then have "ddr_inv (0 + sum_list (map length funcs) + length ops) (eclipse_allocate alignTo gm funcs ops)"
    unfolding eclipse_allocate_def by (rule ddr_inv_ops) (use assms in simp)
  then show ?thesis by (rule ddr_inv_mono) (use assms in simp)
qed

section \<open>Properties\<close>

text \<open>
  A sequence of requests to SramAllocator that it serves gets aligned, increasing, disjoint blocks
  inside its region.
\<close>

theorem allocator_serves_disjoint_blocks:
  assumes "align_to alignTo" and "list_all align_to.good_request rs" and "unat base + unat sz \<le> 2 ^ 30"
  shows "sorted_wrt block_before (served alignTo (SramAllocator_init base sz) rs)
    \<and> (\<forall>b \<in> set (served alignTo (SramAllocator_init base sz) rs). block_within (unat base) (unat base + unat sz) b)"
  using align_to.served_blocks [OF assms(1), of rs "SramAllocator_init base sz"] assms(2,3)
  by (simp add: SramAllocator_init_def)

text \<open>
  C15. In the default layout the buffers that the allocation pass places in SRAM lie in SRAM at
  the alignment they ask for and no two of them overlap, whatever the functions and the order of
  the operations, provided that llvm::alignTo rounds up as documented and no allocation asks for
  more than 2^31 bytes or for an alignment that is 0 or above 2^24. Without the bound the 32-bit
  sum of the allocator wraps around (allocate_wraps_around).
\<close>

theorem eclipse_allocate_sram_disjoint:
  assumes "align_to alignTo" and "\<forall>op \<in> set ops. request_ok op"
    and "as_bufs (eclipse_allocate alignTo False funcs ops) v = Some a"
    and "as_bufs (eclipse_allocate alignTo False funcs ops) w = Some b" and "v \<noteq> w"
  shows "0x10000000 \<le> unat a \<and> unat a + buf_bytes v \<le> 0x10080000 \<and> buf_align v dvd unat a
    \<and> apart (unat a) (buf_bytes v) (unat b) (buf_bytes w)"
  using align_to.sram_inv_pass [OF assms(1,2), of funcs] assms(3-5) unfolding sram_inv_def
  by (meson le_trans)

text \<open>
  C27. The DDR addresses that the allocation pass gives to arguments and allocations are in DDR
  and at least 64 KiB apart, when the arguments of the functions and the operations of the module
  are at most 32767 together.
\<close>

theorem eclipse_allocate_ddr_slots:
  assumes "sum_list (map length funcs) + length ops \<le> 0x7FFF"
    and "as_attrs (eclipse_allocate alignTo gm funcs ops) v = Some a"
    and "as_attrs (eclipse_allocate alignTo gm funcs ops) w = Some b" and "v \<noteq> w"
  shows "0x40010000 \<le> a \<and> a < 0xC0000000 \<and> (a + 0x10000 \<le> b \<or> b + 0x10000 \<le> a)"
proof -
  from ddr_inv_pass [OF assms(1), of alignTo gm]
  obtain k where k: "k \<le> 0x7FFF"
    and att: "\<And>u c. as_attrs (eclipse_allocate alignTo gm funcs ops) u = Some c \<Longrightarrow> \<exists>j<k. c = uint (slot j)"
    and inj: "\<And>u u' c. as_attrs (eclipse_allocate alignTo gm funcs ops) u = Some c \<Longrightarrow>
      as_attrs (eclipse_allocate alignTo gm funcs ops) u' = Some c \<Longrightarrow> u = u'"
    unfolding ddr_inv_def by blast
  from att [OF assms(2)] att [OF assms(3)] obtain i j where ij: "i < k" "a = uint (slot i)" "j < k" "b = uint (slot j)"
    by blast
  have "a \<noteq> b" using inj [OF assms(2)] assms(3,4) by blast
  then have ne: "i \<noteq> j" using ij by auto
  have lt: "i < 0x7FFF" "j < 0x7FFF" using ij k by simp_all
  have u: "a = int (0x40000000 + 0x10000 * Suc i)" "b = int (0x40000000 + 0x10000 * Suc j)"
    using ij unat_slot [OF lt(1)] unat_slot [OF lt(2)] by (simp_all add: uint_nat)
  from ne lt show ?thesis unfolding u by (simp, linarith)
qed

text \<open>Two buffers of 4 x 16 halves and one allocation that is cast to DDR.\<close>

definition sample_alloc :: "nat \<Rightarrow> ir_value" where
  "sample_alloc i = AllocRes i (packed_memref [4, 16] f16) None"

definition sample_ddr_cast :: ir_value where
  "sample_ddr_cast = CastRes 9 (sample_alloc 2) ((packed_memref [4, 16] f16)\<lparr>mr_space := 1\<rparr>)"

definition sample_module :: "operation list" where
  "sample_module = [Define (sample_alloc 0), Define (sample_alloc 1), Define (sample_alloc 2), Define sample_ddr_cast]"

definition sample_args :: "(ir_value \<times> bool) list" where
  "sample_args = [(BlockArg 20 (packed_memref [4, 16] f16), True), (BlockArg 21 (packed_memref [4, 16] f16), True)]"

lemma round_up_32: "round_up 0x10000000 32 = 0x10000000" "round_up 0x10000080 32 = 0x10000080"
  by (simp_all add: round_up_def ceilDiv_def word_unat_eq_iff unat_div)

lemma sample_run:
  "as_bufs (eclipse_allocate round_up False [sample_args] sample_module) (sample_alloc 0) = Some 0x10000000"
  "as_bufs (eclipse_allocate round_up False [sample_args] sample_module) (sample_alloc 1) = Some 0x10000080"
  "as_attrs (eclipse_allocate round_up False [sample_args] sample_module) (sample_alloc 2) = Some 0x40030000"
  "as_attrs (eclipse_allocate round_up False [sample_args] sample_module) (fst (sample_args ! 1)) = Some 0x40020000"
  by (simp_all add: eclipse_allocate_def goldenLayout_def sample_module_def alloc_one_def sample_alloc_def sample_ddr_cast_def
      is_sram_def packed_memref_def SRAM_MEMORY_SPACE_def DDR_MEMORY_SPACE_def byte_size_def num_elements_def f16_def
      SRAM_ALIGNMENT_def allocate_def allocate_args_def sample_args_def assign_ddr_def ddrStride_def alloc_init_def
      SramAllocator_init_def SRAM_ADDR_def SRAM_SIZE_def DDR_ADDR_def DDR_SIZE_def round_up_32 word_less_nat_alt Let_def)

theorem allocator_serves_disjoint_blocks_witness:
  "served round_up (SramAllocator_init SRAM_ADDR SRAM_SIZE) [(128, 32), (0x80000, 32), (128, 32)]
      = [(0x10000000, 128, 32), (0x10000080, 128, 32)]
    \<and> sorted_wrt block_before (served round_up (SramAllocator_init SRAM_ADDR SRAM_SIZE) [(128, 32), (0x80000, 32), (128, 32)])"
proof -
  have g: "list_all align_to.good_request [(128, 32), (0x80000, 32), (128, 32)]"
    by (simp add: round_up.good_request_def)
  have fit: "unat SRAM_ADDR + unat SRAM_SIZE \<le> 2 ^ 30" by (simp add: to_nat)
  have "served round_up (SramAllocator_init SRAM_ADDR SRAM_SIZE) [(128, 32), (0x80000, 32), (128, 32)]
      = [(0x10000000, 128, 32), (0x10000080, 128, 32)]"
    by (simp add: served_def SramAllocator_init_def allocate_def SRAM_ADDR_def SRAM_SIZE_def round_up_32 word_less_nat_alt Let_def)
  with allocator_serves_disjoint_blocks [OF round_up.align_to_axioms g fit] show ?thesis by blast
qed

lemma sample_requests_ok: "\<forall>op \<in> set sample_module. request_ok op"
  by (simp add: sample_module_def request_ok_def sample_alloc_def sample_ddr_cast_def byte_size_def packed_memref_def
      num_elements_def f16_def)

theorem eclipse_allocate_sram_disjoint_witness:
  "apart 0x10000000 128 0x10000080 128 \<and> buf_bytes (sample_alloc 0) = 128"
proof -
  have ne: "sample_alloc 0 \<noteq> sample_alloc 1" by (simp add: sample_alloc_def)
  have b: "buf_bytes (sample_alloc i) = 128" for i
    by (simp add: buf_bytes_def sample_alloc_def byte_size_def packed_memref_def num_elements_def f16_def)
  from eclipse_allocate_sram_disjoint [OF round_up.align_to_axioms sample_requests_ok sample_run(1,2) ne]
  show ?thesis by (simp add: b)
qed

theorem eclipse_allocate_ddr_slots_witness:
  "as_attrs (eclipse_allocate round_up False [sample_args] sample_module) (sample_alloc 2) = Some 0x40030000
    \<and> as_attrs (eclipse_allocate round_up False [sample_args] sample_module) (fst (sample_args ! 1)) = Some 0x40020000
    \<and> ((0x40030000 :: int) + 0x10000 \<le> 0x40020000 \<or> (0x40020000 :: int) + 0x10000 \<le> 0x40030000)"
proof -
  have n: "sum_list (map length [sample_args]) + length sample_module \<le> 0x7FFF" by (simp add: sample_args_def sample_module_def)
  have ne: "sample_alloc 2 \<noteq> fst (sample_args ! 1)" by (simp add: sample_alloc_def sample_args_def)
  from eclipse_allocate_ddr_slots [OF n sample_run(3,4) ne] sample_run(3,4) show ?thesis by blast
qed

text \<open>The ABI: input tensors go where the runner writes them.\<close>

lemma fold_args_attrs:
  "distinct (map fst args) \<Longrightarrow> as_ddr st = slot n \<Longrightarrow>
    as_ddr (fold (\<lambda>(v, m). if m then assign_ddr v else id) (map (\<lambda>v. (v, True)) vs) st) = slot (n + length vs)
    \<and> (distinct vs \<longrightarrow> (\<forall>k < length vs. as_attrs (fold (\<lambda>(v, m). if m then assign_ddr v else id) (map (\<lambda>v. (v, True)) vs) st) (vs ! k)
        = Some (uint (slot (n + k)))))
    \<and> (\<forall>w. w \<notin> set vs \<longrightarrow> as_attrs (fold (\<lambda>(v, m). if m then assign_ddr v else id) (map (\<lambda>v. (v, True)) vs) st) w = as_attrs st w)"
proof (induction vs arbitrary: st n)
  case Nil
  then show ?case by simp
next
  case (Cons v vs)
  have d: "as_ddr (assign_ddr v st) = slot (Suc n)" using Cons.prems by (simp add: assign_ddr_def slot_Suc)
  have a: "as_attrs (assign_ddr v st) = (as_attrs st)(v \<mapsto> uint (slot n))" using Cons.prems by (simp add: assign_ddr_def)
  note IH = Cons.IH [OF Cons.prems(1) d]
  have "as_attrs (fold (\<lambda>(v, m). if m then assign_ddr v else id) (map (\<lambda>v. (v, True)) vs) (assign_ddr v st)) ((v # vs) ! k)
      = Some (uint (slot (n + k)))" if "distinct (v # vs)" "k < length (v # vs)" for k
  proof (cases k)
    case 0
    with IH that a show ?thesis by simp
  next
    case (Suc j)
    with IH that show ?thesis by simp
  qed
  with IH a show ?case by auto
qed

lemma ops_keep_args:
  "as_attrs (fold (alloc_one alignTo golden ops) os st) (BlockArg i t) = as_attrs st (BlockArg i t)"
proof (induction os arbitrary: st)
  case (Cons op os)
  have "as_attrs (alloc_one alignTo golden ops op st) (BlockArg i t) = as_attrs st (BlockArg i t)"
    using alloc_one_ddr [of alignTo golden ops op st] by (auto simp: assign_ddr_def)
  with Cons show ?case by simp
qed simp

lemma args_abi:
  assumes "distinct vs" and "vs ! k = BlockArg i t" and "k < length vs"
  shows "as_attrs (eclipse_allocate alignTo gm [map (\<lambda>v. (v, True)) vs] ops) (vs ! k)
    = Some (uint (slot k))"
proof -
  have z: "as_ddr alloc_init = slot 0" by (simp add: alloc_init_def slot_def)
  have "as_attrs (allocate_args (map (\<lambda>v. (v, True)) vs) alloc_init) (vs ! k) = Some (uint (slot k))"
  proof -
    have "\<forall>k < length vs. as_attrs (fold (\<lambda>(v, m). if m then assign_ddr v else id) (map (\<lambda>v. (v, True)) vs) alloc_init) (vs ! k)
        = Some (uint (slot k))"
      using fold_args_attrs [of "[]", OF _ z, of vs] assms(1) by simp
    with assms(3) have "as_attrs (fold (\<lambda>(v, m). if m then assign_ddr v else id) (map (\<lambda>v. (v, True)) vs) alloc_init) (vs ! k)
        = Some (uint (slot k))" by blast
    then show ?thesis unfolding allocate_args_def Let_def by (simp split: if_splits)
  qed
  then show ?thesis using assms(2) by (simp add: eclipse_allocate_def ops_keep_args)
qed

text \<open>
  The memref argument k of a function gets the address DDR_ADDR + 0x10000 * (k + 1), which is
  where eclipse-run writes the input file argv[k + 3].
\<close>

theorem eclipse_allocate_args_abi:
  assumes "distinct vs" and "vs ! k = BlockArg i t" and "k < length vs"
  shows "as_attrs (eclipse_allocate alignTo gm [map (\<lambda>v. (v, True)) vs] ops) (vs ! k)
    = Some (uint (DDR_ADDR + 0x10000 * of_nat ((k + 3) - 2) :: u32))"
  using args_abi [OF assms, of alignTo gm ops] by (simp add: slot_def)

theorem eclipse_allocate_args_abi_witness:
  "as_attrs (eclipse_allocate round_up False
      [map (\<lambda>v. (v, True)) [BlockArg 20 (packed_memref [4, 16] f16), BlockArg 21 (packed_memref [4, 16] f16)]] sample_module)
      (BlockArg 21 (packed_memref [4, 16] f16)) = Some 0x40020000"
  using eclipse_allocate_args_abi [of "[BlockArg 20 (packed_memref [4, 16] f16), BlockArg 21 (packed_memref [4, 16] f16)]" 1 21
      "packed_memref [4, 16] f16" round_up False sample_module]
  by (simp add: DDR_ADDR_def)

text \<open>
  The bound check of SramAllocator is in 32-bit arithmetic: a first request for 0xF0000000 bytes
  of the 512 KiB of SRAM is accepted, at 0x10000000.
\<close>

theorem allocate_wraps_around:
  assumes "align_to alignTo"
  shows "\<exists>al. allocate alignTo (SramAllocator_init SRAM_ADDR SRAM_SIZE) 0xF0000000 32 = (0x10000000, al)"
proof -
  define v a :: u64 where "v = 0x10000000" and "a = 32"
  have a: "a \<noteq> 0" "unat v + unat a \<le> 2 ^ 64" by (simp_all add: v_def a_def)
  from align_to.align_dvd [OF assms a] align_to.align_ge [OF assms a] align_to.align_less [OF assms a]
  have r: "32 dvd unat (alignTo v a)" "0x10000000 \<le> unat (alignTo v a)" "unat (alignTo v a) < 0x10000020"
    by (simp_all add: v_def a_def)
  from r(1) obtain q where "unat (alignTo v a) = 32 * q" by (auto elim: dvdE)
  with r(2,3) have "unat (alignTo v a) = 0x10000000" by simp
  then have "alignTo v a = 0x10000000" by (simp add: word_unat_eq_iff)
  then show ?thesis
    by (simp add: allocate_def SramAllocator_init_def SRAM_ADDR_def SRAM_SIZE_def v_def a_def Let_def)
qed

theorem allocate_wraps_around_witness:
  "\<exists>al. allocate round_up (SramAllocator_init SRAM_ADDR SRAM_SIZE) 0xF0000000 32 = (0x10000000, al)"
  by (rule allocate_wraps_around [OF round_up.align_to_axioms])

end
