(* ===== verification/CText.thy ===== *)
theory CText
  imports Prelude
begin

text \<open>
  The part of the C library that tools/eclipse-run.cpp reads numbers with: \<open>strtoul\<close> and
  \<open>strtol\<close> with base 0 on a platform with a 64-bit \<open>long\<close>, and the notation of numbers they
  invert.  A C string is the list of its characters up to the terminating zero.
\<close>

section \<open>Characters\<close>

definition isspace :: "char \<Rightarrow> bool" where
  "isspace c \<longleftrightarrow> c \<in> set '' '' \<or> 9 \<le> (of_char c :: nat) \<and> (of_char c :: nat) \<le> 13"

text \<open>The value of a digit in bases up to 36, and 36 for any other character.\<close>

definition digit_val :: "char \<Rightarrow> nat" where
  "digit_val c =
     (let n = of_char c
      in if 48 \<le> n \<and> n \<le> 57 then n - 48
         else if 97 \<le> n \<and> n \<le> 122 then n - 87
         else if 65 \<le> n \<and> n \<le> 90 then n - 55
         else 36)"

section \<open>strtoul and strtol\<close>

fun digits_val :: "nat \<Rightarrow> nat \<Rightarrow> string \<Rightarrow> nat" where
  "digits_val b acc [] = acc"
| "digits_val b acc (c # cs) = (if digit_val c < b then digits_val b (acc * b + digit_val c) cs else acc)"

text \<open>Base 0: a prefix \<open>0x\<close> that a hexadecimal digit follows, a leading zero, or decimal.\<close>

definition magnitude :: "string \<Rightarrow> nat" where
  "magnitude s =
     (case s of
        [] \<Rightarrow> 0
      | c # cs \<Rightarrow>
          if c \<noteq> CHR ''0'' then digits_val 10 0 s
          else (case cs of
              d # e # _ \<Rightarrow> if (d = CHR ''x'' \<or> d = CHR ''X'') \<and> digit_val e < 16 then digits_val 16 0 (tl cs)
                else digits_val 8 0 s
            | _ \<Rightarrow> digits_val 8 0 s))"

definition signed_magnitude :: "string \<Rightarrow> bool \<times> nat" where
  "signed_magnitude s =
     (case dropWhile isspace s of
        [] \<Rightarrow> (False, 0)
      | c # cs \<Rightarrow> if c = CHR ''-'' then (True, magnitude cs)
          else if c = CHR ''+'' then (False, magnitude cs)
          else (False, magnitude (c # cs)))"

definition strtoul :: "string \<Rightarrow> u64" where
  "strtoul s = (case signed_magnitude s of (neg, m) \<Rightarrow>
     if 2 ^ 64 \<le> m then - 1 else if neg then - of_nat m else of_nat m)"

definition strtol :: "string \<Rightarrow> int" where
  "strtol s = (case signed_magnitude s of (neg, m) \<Rightarrow>
     if neg then max (- (2 ^ 63)) (- int m) else min (2 ^ 63 - 1) (int m))"

section \<open>Notation of numbers\<close>

text \<open>The digits of \<open>n\<close> in base \<open>b\<close>, most significant first, and \<open>0\<close> for zero.\<close>

definition digit_char :: "nat \<Rightarrow> char" where
  "digit_char d = char_of (if d < 10 then 48 + d else 87 + d)"

fun digits_of :: "nat \<Rightarrow> nat \<Rightarrow> string" where
  "digits_of b n = (if b < 2 \<or> n < b then [digit_char n] else digits_of b (n div b) @ [digit_char (n mod b)])"

declare digits_of.simps [simp del]

lemma of_char_digit [simp]: "d < 36 \<Longrightarrow> (of_char (digit_char d) :: nat) = (if d < 10 then 48 + d else 87 + d)"
  by (simp add: digit_char_def)

lemma digit_val_char [simp]: "d < 36 \<Longrightarrow> digit_val (digit_char d) = d"
  by (simp add: digit_val_def Let_def)

lemma digits_val_append:
  "\<forall>c \<in> set xs. digit_val c < b \<Longrightarrow> digits_val b acc (xs @ ys) = digits_val b (digits_val b acc xs) ys"
  by (induction xs arbitrary: acc) simp_all

lemma digits_of_digits: "2 \<le> b \<Longrightarrow> b \<le> 36 \<Longrightarrow> c \<in> set (digits_of b n) \<Longrightarrow> \<exists>d<b. c = digit_char d"
proof (induction b n rule: digits_of.induct)
  case (1 b n)
  then have "n mod b < b" by simp
  then have last: "\<exists>d<b. digit_char (n mod b) = digit_char d" by blast
  from 1 show ?case by (subst (asm) (2) digits_of.simps) (auto split: if_splits simp: last)
qed

lemma digits_of_range: "2 \<le> b \<Longrightarrow> b \<le> 36 \<Longrightarrow> c \<in> set (digits_of b n) \<Longrightarrow> digit_val c < b"
  using digits_of_digits by fastforce

lemma digits_of_Nil [simp]: "digits_of b n \<noteq> []"
  by (subst digits_of.simps) simp

lemma digits_val_of: "2 \<le> b \<Longrightarrow> b \<le> 36 \<Longrightarrow> digits_val b 0 (digits_of b n) = n"
proof (induction b n rule: digits_of.induct)
  case (1 b n)
  show ?case
  proof (cases "n < b")
    case True
    with 1 show ?thesis by (subst digits_of.simps) simp
  next
    case False
    have "n mod b < b" using 1(2) by simp
    moreover from this have "n mod b < 36" using 1(3) by linarith
    ultimately have last: "digits_val b acc [digit_char (n mod b)] = acc * b + n mod b" for acc
      by simp
    have IH: "digits_val b 0 (digits_of b (n div b)) = n div b" using 1 False by simp
    have range: "\<forall>c \<in> set (digits_of b (n div b)). digit_val c < b" using digits_of_range 1(2,3) by blast
    have split: "digits_of b n = digits_of b (n div b) @ [digit_char (n mod b)]"
      using False 1(2) by (subst digits_of.simps) simp
    show ?thesis unfolding split digits_val_append [OF range] IH last by (rule div_mult_mod_eq)
  qed
qed

lemma digits_of_first: "2 \<le> b \<Longrightarrow> b \<le> 36 \<Longrightarrow> 0 < n \<Longrightarrow> digit_val (hd (digits_of b n)) \<noteq> 0"
proof (induction b n rule: digits_of.induct)
  case (1 b n)
  show ?case
  proof (cases "n < b")
    case True
    with 1 show ?thesis by (subst digits_of.simps) simp
  next
    case False
    with 1(2,3) have "0 < n div b" by (simp add: div_greater_zero_iff)
    with 1 False show ?thesis by (subst digits_of.simps) simp
  qed
qed

text \<open>\<open>0x\<close> and hexadecimal digits; decimal digits, with a sign when negative.\<close>

definition hex_text :: "nat \<Rightarrow> string" where
  "hex_text n = ''0x'' @ digits_of 16 n"

definition dec_text :: "int \<Rightarrow> string" where
  "dec_text i = (if i < 0 then CHR ''-'' # digits_of 10 (nat (- i)) else digits_of 10 (nat i))"

text \<open>A character of such a text is neither a blank nor the sign that separates a field's name.\<close>

definition plain :: "char \<Rightarrow> bool" where
  "plain c \<longleftrightarrow> 33 \<le> (of_char c :: nat) \<and> (of_char c :: nat) \<le> 126 \<and> c \<noteq> CHR ''=''"

lemma plain_digit:
  assumes "d < 36"
  shows "plain (digit_char d)"
proof -
  have "(of_char (digit_char d) :: nat) \<noteq> of_char (CHR ''='')" using assms by auto
  then have "digit_char d \<noteq> CHR ''=''" by metis
  with assms show ?thesis by (simp add: plain_def)
qed

lemma plain_digits: "2 \<le> b \<Longrightarrow> b \<le> 36 \<Longrightarrow> c \<in> set (digits_of b n) \<Longrightarrow> plain c"
  using digits_of_digits plain_digit by (metis order_less_le_trans)

lemma hex_text_plain: "c \<in> set (hex_text n) \<Longrightarrow> plain c"
  using plain_digits [of 16] by (auto simp: hex_text_def plain_def)

lemma dec_text_plain: "c \<in> set (dec_text i) \<Longrightarrow> plain c"
  using plain_digits [of 10] by (auto simp: dec_text_def plain_def split: if_splits)

lemma isspace_plain: "plain c \<Longrightarrow> \<not> isspace c"
  by (auto simp: plain_def isspace_def)

section \<open>Reading what was written\<close>

lemma dropWhile_plain: "\<forall>c \<in> set s. plain c \<Longrightarrow> dropWhile isspace s = s"
  using isspace_plain by (cases s) auto

lemma magnitude_hex: "magnitude (hex_text n) = n"
proof -
  obtain d ds where d: "digits_of 16 n = d # ds" by (cases "digits_of 16 n") simp_all
  have "digit_val d < 16" using digits_of_range [of 16 d n] d by simp
  then show ?thesis using digits_val_of [of 16 n] by (simp add: magnitude_def hex_text_def d)
qed

lemma magnitude_dec: "magnitude (digits_of 10 n) = n"
proof (cases "n < 10")
  case True
  then have d: "digits_of 10 n = [digit_char n]" by (subst digits_of.simps) simp
  show ?thesis
  proof (cases "n = 0")
    case False
    then have "digit_val (digit_char n) \<noteq> digit_val (CHR ''0'')" using True by (simp add: digit_val_def)
    then have "digit_char n \<noteq> CHR ''0''" by metis
    with d True show ?thesis by (simp add: magnitude_def)
  next
    case True
    with d have "digits_of 10 n = ''0''" by (simp add: digit_char_def char_of_eq_iff)
    with True show ?thesis by (simp add: magnitude_def digit_val_def)
  qed
next
  case False
  then have nz: "digit_val (hd (digits_of 10 n)) \<noteq> 0" using digits_of_first [of 10 n] by simp
  obtain c cs where c: "digits_of 10 n = c # cs" by (cases "digits_of 10 n") simp_all
  have "c \<noteq> CHR ''0''" using nz c by (auto simp: digit_val_def)
  with c digits_val_of [of 10 n] show ?thesis by (simp add: magnitude_def)
qed

text \<open>A text that starts with a digit has no sign to skip.\<close>

lemma signed_magnitude_digit:
  "\<forall>c \<in> set s. plain c \<Longrightarrow> s \<noteq> [] \<Longrightarrow> digit_val (hd s) < 10 \<Longrightarrow> signed_magnitude s = (False, magnitude s)"
  by (cases s) (auto simp: signed_magnitude_def isspace_plain digit_val_def)

lemma digits_of_hd: "digit_val (hd (digits_of 10 n)) < 10"
  using digits_of_range [of 10 "hd (digits_of 10 n)" n] by simp

lemma strtoul_hex: "n < 2 ^ 64 \<Longrightarrow> strtoul (hex_text n) = of_nat n"
  using signed_magnitude_digit [of "hex_text n"] hex_text_plain [of _ n]
  by (simp add: strtoul_def magnitude_hex) (simp add: hex_text_def digit_val_def)

lemma strtol_dec: "- (2 ^ 63) \<le> i \<Longrightarrow> i < 2 ^ 63 \<Longrightarrow> strtol (dec_text i) = i"
proof -
  assume r: "- (2 ^ 63) \<le> i" "i < 2 ^ 63"
  have p: "\<forall>c \<in> set (dec_text i). plain c" using dec_text_plain by blast
  show ?thesis
  proof (cases "i < 0")
    case True
    then have "signed_magnitude (dec_text i) = (True, nat (- i))"
      using p by (simp add: signed_magnitude_def isspace_plain dec_text_def magnitude_dec)
    with r True show ?thesis by (simp add: strtol_def)
  next
    case False
    then have "signed_magnitude (dec_text i) = (False, nat i)"
      using p by (simp add: signed_magnitude_digit dec_text_def magnitude_dec digits_of_hd)
    with r False show ?thesis by (simp add: strtol_def)
  qed
qed

end
