(* ===== verification/Easm.thy ===== *)
theory Easm
  imports CText
begin

text \<open>
  \<open>parseEasm\<close> of tools/eclipse-run.cpp: the lines \<open>fgets\<close> delivers, the split of a line into
  tokens at blanks, and the fields \<open>name=value\<close> of an instruction.  The position in the line is
  the rest of the line; a file is its text.
\<close>

record Insn =
  insn_op :: string
  insn_fields :: "string \<rightharpoonup> string"

section \<open>Lines\<close>

definition newline :: char where
  "newline = char_of (10 :: nat)"

text \<open>
  \<open>fgets(line, sizeof(line), fp)\<close> with a buffer of 4096 characters: up to 4095 characters, the
  newline included.  A longer line is delivered in pieces.
\<close>

definition fgets :: "string \<Rightarrow> string" where
  "fgets s = take (min 4095 (Suc (length (takeWhile (\<lambda>c. c \<noteq> newline) s)))) s"

function fgets_lines :: "string \<Rightarrow> string list" where
  "fgets_lines s = (if s = [] then [] else fgets s # fgets_lines (drop (length (fgets s)) s))"
  by pat_completeness auto

termination
  by (relation "measure length") (auto simp: fgets_def min_def)

declare fgets_lines.simps [simp del]

section \<open>Tokens\<close>

definition blank :: "char \<Rightarrow> bool" where
  "blank c \<longleftrightarrow> (of_char c :: nat) = 32 \<or> (of_char c :: nat) = 9"

text \<open>The characters of \<open>s.erase(s.find_last_not_of(" \t\r\n") + 1)\<close>.\<close>

definition trailing :: "char \<Rightarrow> bool" where
  "trailing c \<longleftrightarrow> blank c \<or> (of_char c :: nat) = 13 \<or> (of_char c :: nat) = 10"

definition trim :: "string \<Rightarrow> string" where
  "trim s = rev (dropWhile trailing (rev s))"

definition add_token :: "Insn \<Rightarrow> string \<Rightarrow> Insn" where
  "add_token insn tok =
     (if tok = [] then insn
      else if insn_op insn = [] then insn\<lparr>insn_op := tok\<rparr>
      else if CHR ''='' \<in> set tok
        then insn\<lparr>insn_fields := (insn_fields insn)
          (takeWhile (\<lambda>c. c \<noteq> CHR ''='') tok \<mapsto> tl (dropWhile (\<lambda>c. c \<noteq> CHR ''='') tok))\<rparr>
      else insn)"

lemma scan_rest_shorter:
  "s \<noteq> [] \<Longrightarrow> length (dropWhile (\<lambda>c. \<not> blank c) (dropWhile blank s)) < length s"
proof (induction s)
  case (Cons c s)
  then show ?case by (cases "blank c"; cases "s = []") (auto simp: length_dropWhile_le le_imp_less_Suc)
qed simp

function scan :: "Insn \<Rightarrow> string \<Rightarrow> Insn" where
  "scan insn s =
     (if s = [] then insn
      else let tok_on = dropWhile blank s;
               tok = takeWhile (\<lambda>c. \<not> blank c) tok_on
           in scan (add_token insn tok) (dropWhile (\<lambda>c. \<not> blank c) tok_on))"
  by pat_completeness auto

termination
  by (relation "measure (\<lambda>(insn, s). length s)") (simp_all add: scan_rest_shorter)

declare scan.simps [simp del]

text \<open>
  One line of the file: \<open>std::string s(line)\<close> ends at the first zero character, and an empty
  line gives no instruction.
\<close>

definition parse_line :: "string \<Rightarrow> Insn option" where
  "parse_line line =
     (let s = trim (takeWhile (\<lambda>c. (of_char c :: nat) \<noteq> 0) line)
      in if s = [] then None else Some (scan \<lparr>insn_op = [], insn_fields = Map.empty\<rparr> s))"

definition parseEasm :: "string \<Rightarrow> Insn list" where
  "parseEasm content = List.map_filter parse_line (fgets_lines content)"

section \<open>Reading back a written line\<close>

text \<open>
  The form the emitter writes: a mnemonic padded with blanks, the fields, a newline.
\<close>

definition field_text :: "string \<times> string \<Rightarrow> string" where
  "field_text f = CHR '' '' # fst f @ CHR ''='' # snd f"

definition easm_line :: "string \<Rightarrow> nat \<Rightarrow> (string \<times> string) list \<Rightarrow> string" where
  "easm_line name pad fs = name @ replicate pad (CHR '' '') @ concat (map field_text fs) @ [newline]"

definition printable :: "string \<Rightarrow> nat \<Rightarrow> (string \<times> string) list \<Rightarrow> bool" where
  "printable name pad fs \<longleftrightarrow> name \<noteq> [] \<and> list_all plain name
     \<and> list_all (\<lambda>(k, v). list_all plain k \<and> list_all plain v) fs \<and> length (easm_line name pad fs) \<le> 4095"

lemma plain_chars:
  "plain c \<Longrightarrow> \<not> blank c" "plain c \<Longrightarrow> \<not> trailing c" "plain c \<Longrightarrow> c \<noteq> newline" "plain c \<Longrightarrow> c \<noteq> CHR ''=''"
  "plain c \<Longrightarrow> (of_char c :: nat) \<noteq> 0"
  by (auto simp: plain_def blank_def trailing_def newline_def)

lemma special_chars:
  "blank (CHR '' '')" "trailing newline" "trailing (CHR '' '')" "\<not> blank (CHR ''='')" "\<not> trailing (CHR ''='')"
  "newline \<noteq> CHR '' ''" "newline \<noteq> CHR ''=''" "(of_char newline :: nat) \<noteq> 0"
  "\<not> plain newline"
  by (simp_all add: blank_def trailing_def newline_def plain_def char_of_eq_iff)

lemma scan_Nil [simp]: "scan insn [] = insn"
  by (subst scan.simps) simp

lemma scan_blanks: "list_all blank bs \<Longrightarrow> scan insn (bs @ s) = scan insn s"
proof -
  assume b: "list_all blank bs"
  then have "\<forall>c \<in> set bs. blank c" by (simp add: list_all_iff)
  then have d: "dropWhile blank (bs @ s) = dropWhile blank s" by (simp add: dropWhile_append2)
  show ?thesis
  proof (cases "s = []")
    case True
    with b have "dropWhile blank bs = []" by (simp add: dropWhile_eq_Nil_conv list_all_iff)
    with True show ?thesis by (cases "bs = []") (simp_all add: scan.simps [of insn bs] add_token_def Let_def del: dropWhile_eq_Nil_conv)
  next
    case False
    then show ?thesis by (simp add: scan.simps [of insn "bs @ s"] scan.simps [of insn s] d)
  qed
qed

lemma scan_token:
  assumes "tok \<noteq> []" and "\<forall>c \<in> set tok. \<not> blank c" and "s = [] \<or> blank (hd s)"
  shows "scan insn (tok @ s) = scan (add_token insn tok) s"
proof -
  from assms(1,2) have d: "dropWhile blank (tok @ s) = tok @ s" by (cases tok) auto
  have t: "takeWhile (\<lambda>c. \<not> blank c) (tok @ s) = tok" "dropWhile (\<lambda>c. \<not> blank c) (tok @ s) = s"
    using assms(2,3) by (cases s; simp add: takeWhile_append dropWhile_append)+
  show ?thesis using assms(1) by (subst scan.simps) (simp add: d t)
qed

lemma add_field:
  assumes "insn_op insn \<noteq> []" and "list_all plain k"
  shows "add_token insn (k @ CHR ''='' # v) = insn\<lparr>insn_fields := (insn_fields insn)(k \<mapsto> v)\<rparr>"
proof -
  have k: "\<forall>c \<in> set k. c \<noteq> CHR ''=''" using assms(2) plain_chars(4) by (auto simp: list_all_iff)
  then have "takeWhile (\<lambda>c. c \<noteq> CHR ''='') (k @ CHR ''='' # v) = k"
    and "dropWhile (\<lambda>c. c \<noteq> CHR ''='') (k @ CHR ''='' # v) = CHR ''='' # v"
    by (simp_all add: takeWhile_append2 dropWhile_append2)
  with assms(1) show ?thesis by (simp add: add_token_def)
qed

lemma scan_fields:
  assumes "insn_op insn \<noteq> []" and "list_all (\<lambda>(k, v). list_all plain k \<and> list_all plain v) fs"
  shows "scan insn (concat (map field_text fs)) = insn\<lparr>insn_fields := insn_fields insn ++ map_of (rev fs)\<rparr>"
  using assms
proof (induction fs arbitrary: insn)
  case Nil
  then show ?case by simp
next
  case (Cons f fs)
  obtain k v where f: "f = (k, v)" by (cases f)
  define tok where "tok = k @ CHR ''='' # v"
  define insn' where "insn' = insn\<lparr>insn_fields := (insn_fields insn)(k \<mapsto> v)\<rparr>"
  have plain: "list_all plain k" "list_all plain v" using Cons.prems(2) by (simp_all add: f)
  then have nb: "\<forall>c \<in> set tok. \<not> blank c" using plain_chars(1) special_chars(4) by (auto simp: tok_def list_all_iff)
  have after: "concat (map field_text fs) = [] \<or> blank (hd (concat (map field_text fs)))"
    using special_chars(1) by (cases fs) (simp_all add: field_text_def)
  have "scan insn (concat (map field_text (f # fs))) = scan insn ('' '' @ tok @ concat (map field_text fs))"
    by (simp add: f field_text_def tok_def)
  also have "\<dots> = scan insn (tok @ concat (map field_text fs))"
    by (rule scan_blanks) (simp add: special_chars)
  also have "\<dots> = scan (add_token insn tok) (concat (map field_text fs))"
    by (rule scan_token) (use nb after in \<open>simp_all add: tok_def\<close>)
  also have "add_token insn tok = insn'"
    unfolding tok_def insn'_def by (rule add_field [OF Cons.prems(1) plain(1)])
  also have "scan insn' (concat (map field_text fs)) = insn'\<lparr>insn_fields := insn_fields insn' ++ map_of (rev fs)\<rparr>"
    by (rule Cons.IH) (use Cons.prems in \<open>simp_all add: insn'_def\<close>)
  also have "insn_fields insn' ++ map_of (rev fs) = insn_fields insn ++ map_of (rev (f # fs))"
    by (rule ext) (simp add: insn'_def f map_add_def split: option.splits)
  also have "insn'\<lparr>insn_fields := m\<rparr> = insn\<lparr>insn_fields := m\<rparr>" for m
    by (simp add: insn'_def)
  finally show ?case .
qed

lemma trim_line:
  assumes "xs \<noteq> []" and "\<not> trailing (last xs)" and "\<forall>c \<in> set ys. trailing c"
  shows "trim (xs @ ys) = xs"
proof -
  have "dropWhile trailing (rev ys @ rev xs) = dropWhile trailing (rev xs)"
    by (rule dropWhile_append2) (use assms(3) in simp)
  also have "\<dots> = rev xs" using assms(1,2) by (cases xs rule: rev_cases) simp_all
  finally show ?thesis by (simp add: trim_def)
qed

lemma last_fields:
  assumes "fs \<noteq> []" and "list_all (\<lambda>(k, v). list_all plain k \<and> list_all plain v) fs"
  shows "concat (map field_text fs) \<noteq> [] \<and> \<not> trailing (last (concat (map field_text fs)))"
proof -
  obtain gs k v where fs: "fs = gs @ [(k, v)]" using assms(1) by (cases fs rule: rev_cases) auto
  have "list_all plain v" using assms(2) by (simp add: fs)
  then have "\<not> trailing (last (field_text (k, v)))"
    using plain_chars(2) special_chars(5) by (cases v rule: rev_cases) (auto simp: field_text_def list_all_iff)
  moreover have "field_text (k, v) \<noteq> []" by (simp add: field_text_def)
  ultimately show ?thesis by (simp add: fs)
qed

lemma line_trimmed:
  assumes "printable name pad fs"
  shows "trim (easm_line name pad fs) = (if fs = [] then name else name @ replicate pad (CHR '' '') @ concat (map field_text fs))"
proof (cases "fs = []")
  case True
  have "\<not> trailing (last name)" and "name \<noteq> []"
    using assms plain_chars(2) last_in_set [of name] by (auto simp: printable_def list_all_iff)
  then have "trim (name @ (replicate pad (CHR '' '') @ [newline])) = name"
    by (intro trim_line) (auto simp: special_chars)
  with True show ?thesis by (simp add: easm_line_def)
next
  case False
  then have "trim ((name @ replicate pad (CHR '' '') @ concat (map field_text fs)) @ [newline])
      = name @ replicate pad (CHR '' '') @ concat (map field_text fs)"
    using last_fields [of fs] assms by (intro trim_line) (auto simp: special_chars printable_def)
  with False show ?thesis by (simp add: easm_line_def)
qed

lemma line_chars:
  assumes "printable name pad fs" and "c \<in> set (butlast (easm_line name pad fs))"
  shows "c \<noteq> newline \<and> (of_char c :: nat) \<noteq> 0"
proof -
  from assms(2) have "c \<in> set name \<or> c = CHR '' '' \<or> (\<exists>(k, v) \<in> set fs. c \<in> set (field_text (k, v)))"
    by (auto simp: easm_line_def butlast_append split: if_splits)
  then show ?thesis
    using assms(1) plain_chars(5) special_chars(6,7,9)
    by (auto simp: printable_def list_all_iff field_text_def)
qed

lemma parse_printed_line:
  assumes "printable name pad fs"
  shows "parse_line (easm_line name pad fs) = Some \<lparr>insn_op = name, insn_fields = map_of (rev fs)\<rparr>"
proof -
  define body where "body = name @ replicate pad (CHR '' '') @ concat (map field_text fs)"
  have line: "easm_line name pad fs = body @ [newline]" by (simp add: easm_line_def body_def)
  have "\<forall>c \<in> set (easm_line name pad fs). (of_char c :: nat) \<noteq> 0"
    using line_chars [OF assms] special_chars(8) by (auto simp: line)
  then have whole: "takeWhile (\<lambda>c. (of_char c :: nat) \<noteq> 0) (easm_line name pad fs) = easm_line name pad fs"
    by (simp add: takeWhile_eq_all_conv)
  have n: "name \<noteq> []" "\<forall>c \<in> set name. \<not> blank c" and f: "list_all (\<lambda>(k, v). list_all plain k \<and> list_all plain v) fs"
    using assms plain_chars(1) by (auto simp: printable_def list_all_iff)
  define start :: Insn where "start = \<lparr>insn_op = [], insn_fields = Map.empty\<rparr>"
  define named :: Insn where "named = \<lparr>insn_op = name, insn_fields = Map.empty\<rparr>"
  have named: "add_token start name = named" using n(1) by (simp add: add_token_def start_def named_def)
  have "scan start name = named" using scan_token [OF n, of "[]" start] named by simp
  moreover have "scan start body = named\<lparr>insn_fields := map_of (rev fs)\<rparr>" if "fs \<noteq> []"
  proof -
    have "scan start body = scan named (replicate pad (CHR '' '') @ concat (map field_text fs))"
      unfolding body_def named [symmetric]
      by (rule scan_token [OF n]) (use that in \<open>cases pad; cases fs; simp add: special_chars field_text_def\<close>)
    also have "\<dots> = scan named (concat (map field_text fs))"
      by (rule scan_blanks) (simp add: list_all_iff special_chars)
    also have "\<dots> = named\<lparr>insn_fields := map_of (rev fs)\<rparr>"
      using scan_fields [OF _ f, of named] n(1) by (simp add: named_def)
    finally show ?thesis .
  qed
  ultimately have "scan start (if fs = [] then name else body) = \<lparr>insn_op = name, insn_fields = map_of (rev fs)\<rparr>"
    by (simp add: named_def)
  then show ?thesis
    using n(1) unfolding parse_line_def whole line_trimmed [OF assms] Let_def start_def body_def by simp
qed

lemma fgets_line:
  assumes "printable name pad fs"
  shows "fgets (easm_line name pad fs @ rest) = easm_line name pad fs"
proof -
  define body where "body = name @ replicate pad (CHR '' '') @ concat (map field_text fs)"
  have line: "easm_line name pad fs = body @ [newline]" by (simp add: easm_line_def body_def)
  have "\<forall>c \<in> set body. c \<noteq> newline" using line_chars [OF assms] by (auto simp: line)
  then have "takeWhile (\<lambda>c. c \<noteq> newline) (body @ newline # rest) = body" by (simp add: takeWhile_append2)
  moreover have "Suc (length body) \<le> 4095" using assms by (simp add: printable_def line)
  ultimately show ?thesis by (simp add: fgets_def line min_def)
qed

lemma fgets_lines_printed:
  "\<forall>(name, pad, fs) \<in> set ls. printable name pad fs \<Longrightarrow>
    fgets_lines (concat (map (\<lambda>(name, pad, fs). easm_line name pad fs) ls)) = map (\<lambda>(name, pad, fs). easm_line name pad fs) ls"
proof (induction ls)
  case Nil
  then show ?case by (subst fgets_lines.simps) simp
next
  case (Cons l ls)
  obtain name pad fs where l: "l = (name, pad, fs)" by (cases l)
  have p: "printable name pad fs" using Cons.prems by (simp add: l)
  have "easm_line name pad fs \<noteq> []" by (simp add: easm_line_def)
  with Cons p show ?case by (subst fgets_lines.simps) (simp add: l fgets_line)
qed

lemma parse_printed_lines:
  assumes "\<forall>(name, pad, fs) \<in> set ls. printable name pad fs"
  shows "parseEasm (concat (map (\<lambda>(name, pad, fs). easm_line name pad fs) ls))
    = map (\<lambda>(name, pad, fs). \<lparr>insn_op = name, insn_fields = map_of (rev fs)\<rparr>) ls"
proof -
  have "List.map_filter parse_line (map (\<lambda>(name, pad, fs). easm_line name pad fs) ls)
      = map (\<lambda>(name, pad, fs). \<lparr>insn_op = name, insn_fields = map_of (rev fs)\<rparr>) ls"
    using assms by (induction ls) (auto simp: List.map_filter_simps parse_printed_line)
  then show ?thesis by (simp add: parseEasm_def fgets_lines_printed [OF assms])
qed

text \<open>
  The parser reads a file of printed lines back as the list of their mnemonics and fields.
\<close>

theorem parseEasm_reads_back:
  assumes "\<forall>(name, pad, fs) \<in> set ls. printable name pad fs"
  shows "parseEasm (concat (map (\<lambda>(name, pad, fs). easm_line name pad fs) ls))
    = map (\<lambda>(name, pad, fs). \<lparr>insn_op = name, insn_fields = map_of (rev fs)\<rparr>) ls"
  by (rule parse_printed_lines [OF assms])

theorem parseEasm_reads_back_witness:
  "parseEasm (easm_line ''ACT'' 12 [(''n'', ''7''), (''kind'', ''0'')] @ easm_line ''SYNC'' 0 [])
    = [\<lparr>insn_op = ''ACT'', insn_fields = [''n'' \<mapsto> ''7'', ''kind'' \<mapsto> ''0'']\<rparr>, \<lparr>insn_op = ''SYNC'', insn_fields = Map.empty\<rparr>]"
proof -
  have "\<forall>(name, pad, fs) \<in> set [(''ACT'', 12, [(''n'', ''7''), (''kind'', ''0'')]), (''SYNC'', 0, [])]. printable name pad fs"
    by (simp add: printable_def easm_line_def field_text_def plain_def)
  from parseEasm_reads_back [OF this] show ?thesis by (simp add: fun_upd_twist)
qed

end
