(* ===== verification/Runner.thy ===== *)
theory Runner
  imports Easm Simulator
begin

text \<open>
  The driver of tools/eclipse-run.cpp: from the instructions of a parsed file to descriptors in DDR
  and a queue, the run, and the bytes of the last stored tensor.  The file system is a parameter:
  \<open>fs\<close> gives the bytes of the files that can be opened for reading, \<open>can_write\<close> the paths that
  can be opened for writing.
\<close>

section \<open>Fields\<close>

definition hexVal :: "string \<Rightarrow> u32" where
  "hexVal s = ucast (strtoul s)"

definition intVal :: "string \<Rightarrow> int" where
  "intVal s = strtol s"

definition ewiseOpCode :: "string \<Rightarrow> OpCode" where
  "ewiseOpCode name =
     (if name = ''ELEMENTWISE_SUB'' then ELEMENTWISE_SUB
      else if name = ''ELEMENTWISE_MUL'' then ELEMENTWISE_MUL
      else if name = ''ELEMENTWISE_DIV'' then ELEMENTWISE_DIV
      else ELEMENTWISE_ADD)"

text \<open>\<open>std::map::at\<close>, and the two conversions to a \<open>uint32_t\<close> field of a descriptor.\<close>

definition field_at :: "(string \<rightharpoonup> string) \<Rightarrow> string \<Rightarrow> string result" where
  "field_at f k = (case f k of None \<Rightarrow> Inl (MissingField k) | Some v \<Rightarrow> Inr v)"

definition hex_at :: "(string \<rightharpoonup> string) \<Rightarrow> string \<Rightarrow> u32 result" where
  "hex_at f k = rbind (field_at f k) (\<lambda>v. Inr (hexVal v))"

definition int_at :: "(string \<rightharpoonup> string) \<Rightarrow> string \<Rightarrow> u32 result" where
  "int_at f k = rbind (field_at f k) (\<lambda>v. Inr (word_of_int (intVal v)))"

definition bool_at :: "(string \<rightharpoonup> string) \<Rightarrow> string \<Rightarrow> u8 result" where
  "bool_at f k = rbind (field_at f k) (\<lambda>v. Inr (if intVal v \<noteq> 0 then 1 else 0))"

definition dma_fields :: "(string \<rightharpoonup> string) \<Rightarrow> DMAParam result" where
  "dma_fields f =
     rbind (hex_at f ''sram'') (\<lambda>s. rbind (hex_at f ''ddr'') (\<lambda>d.
     rbind (int_at f ''rows'') (\<lambda>r. rbind (int_at f ''cols'') (\<lambda>c.
     rbind (int_at f ''srcStride'') (\<lambda>ss. rbind (int_at f ''dstStride'') (\<lambda>ds.
       Inr \<lparr>dma_sramAddr = s, dma_ddrAddr = d, dma_rows = r, dma_cols = c,
            dma_srcStride = ss, dma_dstStride = ds\<rparr>))))))"

definition matmul_fields :: "(string \<rightharpoonup> string) \<Rightarrow> MatmulParam result" where
  "matmul_fields f =
     rbind (hex_at f ''dst'') (\<lambda>d. rbind (hex_at f ''rhs'') (\<lambda>r. rbind (hex_at f ''lhs'') (\<lambda>l.
     rbind (int_at f ''M'') (\<lambda>m. rbind (int_at f ''N'') (\<lambda>n. rbind (int_at f ''K'') (\<lambda>k.
     rbind (int_at f ''acc'') (\<lambda>acc. rbind (bool_at f ''ta'') (\<lambda>ta. rbind (bool_at f ''tb'') (\<lambda>tb.
       Inr \<lparr>mm_dstAddr = d, mm_rhsAddr = r, mm_lhsAddr = l, mm_M = m, mm_K = k, mm_N = n,
            mm_accumulate = acc, mm_transA = ta, mm_transB = tb\<rparr>)))))))))"

definition ewise_fields :: "(string \<rightharpoonup> string) \<Rightarrow> EwiseParam result" where
  "ewise_fields f =
     rbind (hex_at f ''dst'') (\<lambda>d. rbind (hex_at f ''rhs'') (\<lambda>r. rbind (hex_at f ''lhs'') (\<lambda>l.
     rbind (int_at f ''rows'') (\<lambda>rows. rbind (int_at f ''cols'') (\<lambda>cols.
     rbind (int_at f ''blk'') (\<lambda>blk. rbind (int_at f ''stride'') (\<lambda>stride.
       Inr \<lparr>ew_dstAddr = d, ew_rhsAddr = r, ew_lhsAddr = l, ew_rows = rows, ew_cols = cols,
            ew_rhsBlk = blk, ew_rhsStride = stride\<rparr>)))))))"

definition act_fields :: "(string \<rightharpoonup> string) \<Rightarrow> ActParam result" where
  "act_fields f =
     rbind (hex_at f ''dst'') (\<lambda>d. rbind (hex_at f ''src'') (\<lambda>s.
     rbind (int_at f ''n'') (\<lambda>n. rbind (int_at f ''kind'') (\<lambda>k.
       Inr \<lparr>act_dstAddr = d, act_srcAddr = s, act_n = n, act_kind = k,
            act_extra0 = 0, act_extra1 = 0, act_extra2 = 0, act_extra3 = 0\<rparr>))))"

text \<open>The index address is read for an ARGMAX only; the descriptor is value-initialised.\<close>

definition reduce_fields :: "(string \<rightharpoonup> string) \<Rightarrow> ReduceParam result" where
  "reduce_fields f =
     rbind (hex_at f ''dst'') (\<lambda>d. rbind (hex_at f ''src'') (\<lambda>s.
     rbind (int_at f ''rows'') (\<lambda>r. rbind (int_at f ''cols'') (\<lambda>c. rbind (int_at f ''kind'') (\<lambda>k.
     rbind (if k = reduce_kind_value REDUCE_ARGMAX then hex_at f ''idx'' else Inr 0) (\<lambda>i.
       Inr \<lparr>red_dstAddr = d, red_idxAddr = i, red_srcAddr = s, red_rows = r, red_cols = c, red_kind = k\<rparr>))))))"

section \<open>The instruction loop\<close>

record driver =
  drv_sim :: simulator
  outDdr :: u32
  outBytes :: u32

definition push_op :: "OpCode \<Rightarrow> u32 \<Rightarrow> driver \<Rightarrow> driver" where
  "push_op op dp st = st\<lparr>drv_sim := push (drv_sim st) \<lparr>opcode = opcode_value op, descPtr = dp\<rparr>\<rparr>"

text \<open>\<open>sim.writeDDR(descAddr, &desc, sizeof(desc)); sim.push(Instruction{op, descAddr});\<close>\<close>

definition put_insn :: "OpCode \<Rightarrow> u32 \<Rightarrow> u8 list \<Rightarrow> driver \<Rightarrow> driver result" where
  "put_insn op descAddr desc st =
     rbind (writeDDR (drv_sim st) descAddr desc) (\<lambda>s. Inr (push_op op descAddr (st\<lparr>drv_sim := s\<rparr>)))"

definition dma_out :: "DMAParam \<Rightarrow> driver \<Rightarrow> driver" where
  "dma_out d st = st\<lparr>outDdr := dma_ddrAddr d,
     outBytes := ucast (ucast (dma_rows d * dma_cols d) * DTYPE_SIZE)\<rparr>"

definition step_insn :: "Insn \<Rightarrow> driver \<Rightarrow> driver result" where
  "step_insn insn st =
     (let name = insn_op insn; f = insn_fields insn
      in if name = ''SYNC'' then Inr (push_op SYNC 0 st)
         else rbind (hex_at f ''desc'') (\<lambda>descAddr.
           if name = ''DMA_LOAD'' \<or> name = ''DMA_STORE'' then
             rbind (dma_fields f) (\<lambda>d.
             rbind (put_insn (if name = ''DMA_LOAD'' then DMA_LOAD else DMA_STORE) descAddr (bytes_of_DMAParam d) st) (\<lambda>st.
               Inr (if name = ''DMA_STORE'' then dma_out d st else st)))
           else if name = ''MATMUL'' then
             rbind (matmul_fields f) (\<lambda>d. put_insn MATMUL descAddr (bytes_of_MatmulParam d) st)
           else if name = ''ELEMENTWISE_ADD'' \<or> name = ''ELEMENTWISE_SUB''
               \<or> name = ''ELEMENTWISE_MUL'' \<or> name = ''ELEMENTWISE_DIV'' then
             rbind (ewise_fields f) (\<lambda>d. put_insn (ewiseOpCode name) descAddr (bytes_of_EwiseParam d) st)
           else if name = ''ACT'' then
             rbind (act_fields f) (\<lambda>d. put_insn ACT descAddr (bytes_of_ActParam d) st)
           else if name = ''REDUCE'' then
             rbind (reduce_fields f) (\<lambda>d. put_insn REDUCE descAddr (bytes_of_ReduceParam d) st)
           else Inl (ExitWith 2)))"

section \<open>main\<close>

definition text_of_bytes :: "u8 list \<Rightarrow> string" where
  "text_of_bytes bs = map (\<lambda>b. char_of (unat b)) bs"

definition load_inputs :: "(string \<Rightarrow> u8 list option) \<Rightarrow> string list \<Rightarrow> simulator \<Rightarrow> simulator result" where
  "load_inputs fs argv sim =
     fold_result (\<lambda>i sim. case fs (argv ! i) of
         None \<Rightarrow> Inl (ExitWith 2)
       | Some buf \<Rightarrow> writeDDR sim (DDR_ADDR + 0x10000 * of_nat (i - 2)) buf) [3..<length argv] sim"

text \<open>What a run of the process leaves: its exit code, the cycles it prints, the output file.\<close>

record outcome =
  exit_code :: int
  printed_cycles :: u64
  out_file :: "u8 list option"

definition write_output :: "(string \<Rightarrow> bool) \<Rightarrow> string \<Rightarrow> u32 \<Rightarrow> u32 \<Rightarrow> simulator \<Rightarrow> outcome result" where
  "write_output can_write outPath addr n sim =
     (if n = 0 then Inr \<lparr>exit_code = 0, printed_cycles = totalCycles sim, out_file = None\<rparr>
      else if \<not> can_write outPath then Inr \<lparr>exit_code = 2, printed_cycles = totalCycles sim, out_file = None\<rparr>
      else rbind (ddr addr) (\<lambda>p. rbind (read_ddr (cmodel_state sim) p (unat n)) (\<lambda>bs.
        Inr \<lparr>exit_code = 0, printed_cycles = totalCycles sim, out_file = Some bs\<rparr>)))"

definition eclipse_run :: "platform \<Rightarrow> (string \<Rightarrow> u8 list option) \<Rightarrow> (string \<Rightarrow> bool) \<Rightarrow> string list \<Rightarrow> outcome result" where
  "eclipse_run P fs can_write argv =
     (if length argv < 4 then Inl (ExitWith 2)
      else case fs (argv ! 1) of
          None \<Rightarrow> Inl (ExitWith 1)
        | Some text \<Rightarrow>
            let insns = parseEasm (text_of_bytes text)
            in rbind (load_inputs fs argv Simulator_init) (\<lambda>sim.
               rbind (fold_result step_insn insns \<lparr>drv_sim = sim, outDdr = 0, outBytes = 0\<rparr>) (\<lambda>st.
               rbind (run P (drv_sim st)) (\<lambda>sim.
                 write_output can_write (argv ! 2) (outDdr st) (outBytes st) sim))))"

section \<open>What the loop puts in place\<close>

text \<open>
  The reference: the opcode, the descriptor address and the descriptor bytes that a line stands for.
\<close>

definition insn_image :: "Insn \<Rightarrow> (OpCode \<times> u32 \<times> u8 list) result" where
  "insn_image insn =
     (let name = insn_op insn; f = insn_fields insn
      in if name = ''SYNC'' then Inr (SYNC, 0, [])
         else rbind (hex_at f ''desc'') (\<lambda>dp.
           if name = ''DMA_LOAD'' then rbind (dma_fields f) (\<lambda>d. Inr (DMA_LOAD, dp, bytes_of_DMAParam d))
           else if name = ''DMA_STORE'' then rbind (dma_fields f) (\<lambda>d. Inr (DMA_STORE, dp, bytes_of_DMAParam d))
           else if name = ''MATMUL'' then rbind (matmul_fields f) (\<lambda>d. Inr (MATMUL, dp, bytes_of_MatmulParam d))
           else if name = ''ELEMENTWISE_ADD'' then rbind (ewise_fields f) (\<lambda>d. Inr (ELEMENTWISE_ADD, dp, bytes_of_EwiseParam d))
           else if name = ''ELEMENTWISE_SUB'' then rbind (ewise_fields f) (\<lambda>d. Inr (ELEMENTWISE_SUB, dp, bytes_of_EwiseParam d))
           else if name = ''ELEMENTWISE_MUL'' then rbind (ewise_fields f) (\<lambda>d. Inr (ELEMENTWISE_MUL, dp, bytes_of_EwiseParam d))
           else if name = ''ELEMENTWISE_DIV'' then rbind (ewise_fields f) (\<lambda>d. Inr (ELEMENTWISE_DIV, dp, bytes_of_EwiseParam d))
           else if name = ''ACT'' then rbind (act_fields f) (\<lambda>d. Inr (ACT, dp, bytes_of_ActParam d))
           else if name = ''REDUCE'' then rbind (reduce_fields f) (\<lambda>d. Inr (REDUCE, dp, bytes_of_ReduceParam d))
           else Inl (ExitWith 2)))"

text \<open>One line: the bytes go to the descriptor address, the instruction to the end of the queue.\<close>

definition placed :: "OpCode \<times> u32 \<times> u8 list \<Rightarrow> simulator \<Rightarrow> simulator \<Rightarrow> bool" where
  "placed img s t = (case img of (op, dp, bs) \<Rightarrow>
     queue t = queue s @ [\<lparr>opcode = opcode_value op, descPtr = dp\<rparr>]
     \<and> totalCycles t = totalCycles s \<and> cycleLog t = cycleLog s
     \<and> (if op = SYNC then cmodel_state t = cmodel_state s
        else \<exists>p. ddr dp = Inr p \<and> write_ddr (cmodel_state s) p bs = Inr (cmodel_state t)))"

lemma put_insn_placed:
  assumes "put_insn op dp bs st = Inr st'" and "op \<noteq> SYNC"
  shows "placed (op, dp, bs) (drv_sim st) (drv_sim st')"
  using assms by (auto simp: put_insn_def placed_def rbind_eq_Inr writeDDR_def push_op_def push_def)

lemma dma_out_sim [simp]: "drv_sim (dma_out d st) = drv_sim st"
  by (simp add: dma_out_def)

lemma step_insn_image:
  assumes "step_insn insn st = Inr st'"
  shows "\<exists>img. insn_image insn = Inr img \<and> placed img (drv_sim st) (drv_sim st')"
proof (cases "insn_op insn = ''SYNC''")
  case True
  with assms show ?thesis
    by (auto simp: step_insn_def insn_image_def placed_def push_op_def push_def Let_def)
next
  case False
  then show ?thesis
    using assms put_insn_placed unfolding step_insn_def insn_image_def Let_def
    by (auto simp: rbind_eq_Inr ewiseOpCode_def split: if_splits)
qed
text \<open>
  What the whole file leaves in the simulator: the instructions in order, each descriptor in DDR as
  long as no later one was written over it, and nothing else changed.
\<close>

definition image_instr :: "OpCode \<times> u32 \<times> u8 list \<Rightarrow> Instruction" where
  "image_instr img = (case img of (op, dp, bs) \<Rightarrow> \<lparr>opcode = opcode_value op, descPtr = dp\<rparr>)"

definition meets :: "OpCode \<times> u32 \<times> u8 list \<Rightarrow> nat \<Rightarrow> bool" where
  "meets img a = (case img of (op, dp, bs) \<Rightarrow> op \<noteq> SYNC \<and> inside (unat dp - 0x40000000) (length bs) a)"

definition block_apart :: "OpCode \<times> u32 \<times> u8 list \<Rightarrow> OpCode \<times> u32 \<times> u8 list \<Rightarrow> bool" where
  "block_apart img jmg = (case img of (op, dp, bs) \<Rightarrow> case jmg of (op', dp', bs') \<Rightarrow>
     op = SYNC \<or> op' = SYNC \<or> apart (unat dp) (length bs) (unat dp') (length bs'))"

definition in_ddr :: "cmodel \<Rightarrow> OpCode \<times> u32 \<times> u8 list \<Rightarrow> bool" where
  "in_ddr m img = (case img of (op, dp, bs) \<Rightarrow>
     op = SYNC \<or> (\<exists>p. ddr dp = Inr p \<and> read_ddr m p (length bs) = Inr bs))"

lemma placed_in_ddr: "placed img s t \<Longrightarrow> in_ddr (cmodel_state t) img"
  by (cases img) (auto simp: placed_def in_ddr_def split: if_splits dest: mem.b.rd_wr_same)

lemma placed_frame:
  assumes "placed img s t"
  shows "sram_bytes (cmodel_state t) = sram_bytes (cmodel_state s)"
    and "\<not> meets img a \<Longrightarrow> ddr_bytes (cmodel_state t) a = ddr_bytes (cmodel_state s) a"
  using assms
  by (cases img; auto simp: placed_def meets_def ddr_eq_Inr mem.b.get_wr split: if_splits dest: mem.wr_b_frame)+

lemma in_ddr_kept:
  assumes "in_ddr m img" and "\<And>a. meets img a \<Longrightarrow> ddr_bytes m' a = ddr_bytes m a"
  shows "in_ddr m' img"
proof -
  obtain op dp bs where img: "img = (op, dp, bs)" by (cases img)
  show ?thesis
  proof (cases "op = SYNC")
    case False
    with assms(1) obtain p where p: "ddr dp = Inr p" "read_ddr m p (length bs) = Inr bs"
      by (auto simp: img in_ddr_def)
    have "read_ddr m' p (length bs) = read_ddr m p (length bs)"
      by (rule mem.b.rd_cong) (use assms(2) False p(1) in \<open>auto simp: img meets_def ddr_eq_Inr\<close>)
    with p show ?thesis by (auto simp: img in_ddr_def)
  qed (simp add: img in_ddr_def)
qed

lemma block_apart_meets:
  assumes "block_apart img jmg" and "in_ddr m img" and "in_ddr m' jmg" and "meets img a"
  shows "\<not> meets jmg a"
  using assms by (cases img; cases jmg) (auto simp: block_apart_def in_ddr_def meets_def apart_def inside_def ddr_eq_Inr)

text \<open>A list of images put in place one after the other, by whatever code.\<close>

primrec all_placed :: "(OpCode \<times> u32 \<times> u8 list) list \<Rightarrow> simulator \<Rightarrow> simulator \<Rightarrow> bool" where
  "all_placed [] s t \<longleftrightarrow> t = s"
| "all_placed (img # imgs) s t \<longleftrightarrow> (\<exists>u. placed img s u \<and> all_placed imgs u t)"

lemma all_placed_effect:
  assumes "all_placed imgs s t"
  shows "queue t = queue s @ map image_instr imgs"
    and "totalCycles t = totalCycles s" and "cycleLog t = cycleLog s"
    and "sram_bytes (cmodel_state t) = sram_bytes (cmodel_state s)"
    and "\<forall>img \<in> set imgs. \<not> meets img a \<Longrightarrow> ddr_bytes (cmodel_state t) a = ddr_bytes (cmodel_state s) a"
    and "\<forall>img \<in> set imgs. \<exists>m. in_ddr m img"
  using assms
proof (induction imgs arbitrary: s)
  case (Cons img imgs)
  {
    case 1
    with Cons.IH(1) show ?case by (cases img) (auto simp: placed_def image_instr_def)
  next
    case 2
    with Cons.IH(2) show ?case by (cases img) (auto simp: placed_def)
  next
    case 3
    with Cons.IH(3) show ?case by (cases img) (auto simp: placed_def)
  next
    case 4
    with Cons.IH(4) show ?case by (auto dest: placed_frame(1))
  next
    case 5
    with Cons.IH(5) show ?case by (auto dest: placed_frame(2))
  next
    case 6
    with Cons.IH(6) show ?case by (auto dest: placed_in_ddr)
  }
qed simp_all

lemma all_placed_there:
  "all_placed imgs s t \<Longrightarrow> sorted_wrt block_apart imgs \<Longrightarrow> \<forall>img \<in> set imgs. in_ddr (cmodel_state t) img"
proof (induction imgs arbitrary: s)
  case (Cons img imgs)
  then obtain u where pl: "placed img s u" and rest: "all_placed imgs u t" by auto
  have here: "in_ddr (cmodel_state u) img" by (rule placed_in_ddr [OF pl])
  have some: "\<forall>img \<in> set imgs. \<exists>m. in_ddr m img" by (rule all_placed_effect(6) [OF rest])
  have "in_ddr (cmodel_state t) img"
    by (rule in_ddr_kept [OF here], rule all_placed_effect(5) [OF rest])
      (use Cons.prems(2) some block_apart_meets [OF _ here] in auto)
  with Cons.IH [OF rest] Cons.prems(2) show ?case by simp
qed simp

lemma loop_all_placed:
  "fold_result step_insn insns st = Inr st' \<Longrightarrow>
    \<exists>imgs. map insn_image insns = map Inr imgs \<and> all_placed imgs (drv_sim st) (drv_sim st')"
proof (induction insns arbitrary: st)
  case (Cons insn insns)
  then obtain u where u: "step_insn insn st = Inr u" "fold_result step_insn insns u = Inr st'"
    by (auto simp: rbind_eq_Inr)
  from step_insn_image [OF u(1)] obtain img where img: "insn_image insn = Inr img" "placed img (drv_sim st) (drv_sim u)" by blast
  from Cons.IH [OF u(2)] obtain imgs where "map insn_image insns = map Inr imgs" "all_placed imgs (drv_sim u) (drv_sim st')" by blast
  with img show ?case by (intro exI [of _ "img # imgs"]) auto
qed simp

lemma loop_places:
  assumes "fold_result step_insn insns st = Inr st'"
  shows "\<exists>imgs. map insn_image insns = map Inr imgs
    \<and> queue (drv_sim st') = queue (drv_sim st) @ map image_instr imgs
    \<and> totalCycles (drv_sim st') = totalCycles (drv_sim st) \<and> cycleLog (drv_sim st') = cycleLog (drv_sim st)
    \<and> sram_bytes (cmodel_state (drv_sim st')) = sram_bytes (cmodel_state (drv_sim st))
    \<and> (\<forall>a. (\<forall>img \<in> set imgs. \<not> meets img a) \<longrightarrow>
        ddr_bytes (cmodel_state (drv_sim st')) a = ddr_bytes (cmodel_state (drv_sim st)) a)
    \<and> (\<forall>img \<in> set imgs. \<exists>m. in_ddr m img)
    \<and> (sorted_wrt block_apart imgs \<longrightarrow> (\<forall>img \<in> set imgs. in_ddr (cmodel_state (drv_sim st')) img))"
proof -
  from loop_all_placed [OF assms] obtain imgs where i: "map insn_image insns = map Inr imgs"
    and pl: "all_placed imgs (drv_sim st) (drv_sim st')" by blast
  show ?thesis
    by (rule exI [of _ imgs]) (use i all_placed_effect [OF pl] all_placed_there [OF pl] in blast)
qed

text \<open>The output registers hold the address and the size of the last \<open>DMA_STORE\<close>.\<close>

definition store_of :: "Insn \<Rightarrow> DMAParam option" where
  "store_of insn = (if insn_op insn = ''DMA_STORE''
     then (case dma_fields (insn_fields insn) of Inr d \<Rightarrow> Some d | Inl e \<Rightarrow> None) else None)"

definition note_store :: "Insn \<Rightarrow> u32 \<times> u32 \<Rightarrow> u32 \<times> u32" where
  "note_store insn out = (case store_of insn of None \<Rightarrow> out
     | Some d \<Rightarrow> (dma_ddrAddr d, ucast (ucast (dma_rows d * dma_cols d) * DTYPE_SIZE)))"

lemma unat_out_bytes: "unat (ucast (ucast (x :: u32) * DTYPE_SIZE) :: u32) = unat x * 2 mod 2 ^ 32"
  using unat_u32_less [of x]
  by (simp add: unsigned_ucast_eq take_bit_eq_mod [where ?'a = nat] unat_mult_no_wrap unat_ucast_small to_nat)

lemma push_put_out [simp]:
  "outDdr (push_op op dp st) = outDdr st" "outBytes (push_op op dp st) = outBytes st"
  "put_insn op dp bs st = Inr st' \<Longrightarrow> outDdr st' = outDdr st"
  "put_insn op dp bs st = Inr st' \<Longrightarrow> outBytes st' = outBytes st"
  by (auto simp: push_op_def put_insn_def rbind_eq_Inr)

lemma step_insn_out:
  "step_insn insn st = Inr st' \<Longrightarrow> (outDdr st', outBytes st') = note_store insn (outDdr st, outBytes st)"
  unfolding step_insn_def note_store_def store_of_def Let_def
  by (auto simp: rbind_eq_Inr dma_out_def split: if_splits sum.splits)

lemma loop_out:
  "fold_result step_insn insns st = Inr st' \<Longrightarrow>
    (outDdr st', outBytes st') = fold note_store insns (outDdr st, outBytes st)"
proof (induction insns arbitrary: st)
  case (Cons insn insns)
  then obtain u where "step_insn insn st = Inr u" "fold_result step_insn insns u = Inr st'"
    by (auto simp: rbind_eq_Inr)
  with Cons.IH [of u] step_insn_out [of insn st u] show ?case by simp
qed simp

lemma fold_note_store:
  "fold note_store insns out = (case List.map_filter store_of insns of
     [] \<Rightarrow> out
   | d # ds \<Rightarrow> (dma_ddrAddr (last (d # ds)), ucast (ucast (dma_rows (last (d # ds)) * dma_cols (last (d # ds))) * DTYPE_SIZE)))"
  by (induction insns arbitrary: out) (auto simp: note_store_def List.map_filter_simps split: option.splits list.splits)
section \<open>The input tensors\<close>

lemma input_addr:
  assumes "3 \<le> i" and "i \<le> 0x8000"
  shows "unat (DDR_ADDR + 0x10000 * of_nat (i - 2) :: u32) = 0x40000000 + 0x10000 * (i - 2)"
proof -
  have b: "i - 2 < 2 ^ 32" "0x10000 * (i - 2) < 2 ^ 32" using assms by simp_all
  then have "unat (0x10000 * of_nat (i - 2) :: u32) = 0x10000 * (i - 2)"
    by (simp add: unat_mult_no_wrap unat_of_nat_small)
  with assms show ?thesis by (simp add: unat_add_no_wrap to_nat)
qed

lemma writeDDR_input:
  assumes "3 \<le> i" and "i \<le> 0x8000" and "writeDDR s (DDR_ADDR + 0x10000 * of_nat (i - 2)) buf = Inr t"
  shows "write_ddr (cmodel_state s) (0x10000 * (i - 2)) buf = Inr (cmodel_state t)"
  using assms(3) input_addr [OF assms(1,2)] by (auto simp: writeDDR_def rbind_eq_Inr ddr_eq_Inr)

text \<open>Every input lies whole at its ABI address when none is larger than its 64 KiB slot.\<close>

lemma load_inputs_prefix:
  assumes "fold_result (\<lambda>i sim. case fs (argv ! i) of
         None \<Rightarrow> Inl (ExitWith 2)
       | Some buf \<Rightarrow> writeDDR sim (DDR_ADDR + 0x10000 * of_nat (i - 2)) buf) [3..<n] s = Inr t"
    and "n \<le> 0x8000" and "\<forall>i. 3 \<le> i \<longrightarrow> i < n \<longrightarrow> (\<forall>buf. fs (argv ! i) = Some buf \<longrightarrow> length buf \<le> 0x10000)"
  shows "\<forall>i. 3 \<le> i \<longrightarrow> i < n \<longrightarrow> (\<exists>buf. fs (argv ! i) = Some buf \<and>
      read_ddr (cmodel_state t) (0x10000 * (i - 2)) (length buf) = Inr buf)"
  using assms
proof (induction n arbitrary: t)
  case 0
  then show ?case by simp
next
  case (Suc n)
  show ?case
  proof (cases "n < 3")
    case True
    then show ?thesis by simp
  next
    case False
    then have upt: "[3..<Suc n] = [3..<n] @ [n]" by simp
    from Suc.prems(1) obtain u buf where u: "fold_result (\<lambda>i sim. case fs (argv ! i) of
         None \<Rightarrow> Inl (ExitWith 2)
       | Some buf \<Rightarrow> writeDDR sim (DDR_ADDR + 0x10000 * of_nat (i - 2)) buf) [3..<n] s = Inr u"
      and buf: "fs (argv ! n) = Some buf" and w: "writeDDR u (DDR_ADDR + 0x10000 * of_nat (n - 2)) buf = Inr t"
      unfolding upt fold_result_append by (auto simp: rbind_eq_Inr split: option.splits)
    have w': "write_ddr (cmodel_state u) (0x10000 * (n - 2)) buf = Inr (cmodel_state t)"
      using writeDDR_input [OF _ _ w] False Suc.prems(2) by simp
    have IH: "\<forall>i. 3 \<le> i \<longrightarrow> i < n \<longrightarrow> (\<exists>buf. fs (argv ! i) = Some buf \<and>
        read_ddr (cmodel_state u) (0x10000 * (i - 2)) (length buf) = Inr buf)"
      using Suc.IH [OF u] Suc.prems(2,3) by simp
    have "\<exists>b. fs (argv ! i) = Some b \<and> read_ddr (cmodel_state t) (0x10000 * (i - 2)) (length b) = Inr b"
      if i: "3 \<le> i" "i < n" for i
    proof -
      from IH i obtain b where b: "fs (argv ! i) = Some b"
        "read_ddr (cmodel_state u) (0x10000 * (i - 2)) (length b) = Inr b" by blast
      have "length b \<le> 0x10000" using Suc.prems(3) i b(1) by simp
      moreover have "Suc (i - 2) \<le> n - 2" using i by simp
      then have "0x10000 * Suc (i - 2) \<le> 0x10000 * (n - 2)" by (rule mult_le_mono2)
      ultimately have "apart (0x10000 * (n - 2)) (length buf) (0x10000 * (i - 2)) (length b)"
        by (simp add: apart_def)
      from mem.b.rd_wr_apart [OF w' this] b show ?thesis by simp
    qed
    with buf mem.b.rd_wr_same [OF w'] show ?thesis by (auto simp: less_Suc_eq)
  qed
qed

section \<open>Properties\<close>

text \<open>
  After the inputs are loaded, the bytes of input i are in DDR at DDR_ADDR + 0x10000 * i, when no
  input is longer than its slot of 64 KiB.
\<close>

theorem load_inputs_places_tensors:
  assumes "load_inputs fs argv s = Inr t" and "length argv \<le> 0x8000"
    and "\<forall>i. 3 \<le> i \<longrightarrow> i < length argv \<longrightarrow> (\<forall>buf. fs (argv ! i) = Some buf \<longrightarrow> length buf \<le> 0x10000)"
  shows "\<forall>i. 3 \<le> i \<longrightarrow> i < length argv \<longrightarrow> (\<exists>buf. fs (argv ! i) = Some buf \<and>
      read_ddr (cmodel_state t) (0x10000 * (i - 2)) (length buf) = Inr buf)"
  by (rule load_inputs_prefix [OF assms(1) [unfolded load_inputs_def] assms(2,3)])

theorem load_inputs_places_tensors_witness:
  "\<exists>t. load_inputs (\<lambda>p. Some [1, 2, 3]) [''eclipse-run'', ''a'', ''b'', ''x'', ''y''] Simulator_init = Inr t
    \<and> read_ddr (cmodel_state t) 0x20000 3 = Inr [1, 2, 3]"
proof -
  let ?argv = "[''eclipse-run'', ''a'', ''b'', ''x'', ''y'']"
  have w: "\<exists>t. writeDDR s (DDR_ADDR + 0x10000 * of_nat (i - 2)) [1, 2, 3] = Inr t" if "i = 3 \<or> i = 4" for s i
  proof -
    have "unat (DDR_ADDR + 0x10000 * of_nat (i - 2) :: u32) = 0x40000000 + 0x10000 * (i - 2)"
      by (rule input_addr) (use that in auto)
    then have d: "ddr (DDR_ADDR + 0x10000 * of_nat (i - 2)) = Inr (0x10000 * (i - 2))"
      using that by (auto simp: ddr_eq_Inr)
    have "\<exists>m. write_ddr (cmodel_state s) (0x10000 * (i - 2)) [1, 2, 3] = Inr m"
      by (rule mem.b.wr_in) (use that in \<open>auto simp: to_nat\<close>)
    with d show ?thesis by (auto simp: writeDDR_def)
  qed
  have two: "[3..<length ?argv] = [3, 4]" by (simp add: upt_rec)
  obtain u where u: "writeDDR Simulator_init (DDR_ADDR + 0x10000 * of_nat (3 - 2)) [1, 2, 3] = Inr u"
    using w [of 3] by blast
  obtain t where t: "writeDDR u (DDR_ADDR + 0x10000 * of_nat (4 - 2)) [1, 2, 3] = Inr t" using w [of 4] by blast
  have l: "load_inputs (\<lambda>p. Some [1, 2, 3]) ?argv Simulator_init = Inr t"
    unfolding load_inputs_def two using u t by simp
  have "\<exists>buf. Some [1, 2, 3] = Some buf \<and> read_ddr (cmodel_state t) (0x10000 * (4 - 2)) (length buf) = Inr buf"
    using load_inputs_places_tensors [OF l] by (auto dest!: spec [of _ 4])
  with l show ?thesis by (simp add: numeral_3_eq_3)
qed

lemma text_of_bytes_of_char: "text_of_bytes (map of_char s) = s"
proof -
  have "char_of (unat (of_char c :: u8)) = c" for c
  proof -
    have "(of_char c :: nat) < 256" by simp
    then have "unat (of_nat (of_char c) :: u8) = of_char c" by (intro unat_of_nat_small) simp
    then have "unat (of_char c :: u8) = of_char c" unfolding of_nat_of_char .
    then show ?thesis by simp
  qed
  then show ?thesis by (simp add: text_of_bytes_def comp_def map_idI)
qed

text \<open>
  A line without a descriptor address raises out_of_range, and an unknown mnemonic ends the
  program with exit code 2.
\<close>

theorem step_insn_errors:
  assumes "insn_op insn \<noteq> ''SYNC''"
  shows "(insn_fields insn ''desc'' = None \<longrightarrow> step_insn insn st = Inl (MissingField ''desc''))
    \<and> (insn_fields insn ''desc'' \<noteq> None \<longrightarrow> insn_op insn \<notin> {''DMA_LOAD'', ''DMA_STORE'', ''MATMUL'', ''ELEMENTWISE_ADD'',
        ''ELEMENTWISE_SUB'', ''ELEMENTWISE_MUL'', ''ELEMENTWISE_DIV'', ''ACT'', ''REDUCE''} \<longrightarrow> step_insn insn st = Inl (ExitWith 2))"
  using assms by (auto simp: step_insn_def Let_def hex_at_def field_at_def)

definition idle_driver :: driver where
  "idle_driver = \<lparr>drv_sim = Simulator_init, outDdr = 0, outBytes = 0\<rparr>"

theorem step_insn_errors_witness:
  "step_insn \<lparr>insn_op = ''CONV'', insn_fields = [''desc'' \<mapsto> ''0x40000100'']\<rparr> idle_driver = Inl (ExitWith 2)
    \<and> step_insn \<lparr>insn_op = ''ACT'', insn_fields = [''dst'' \<mapsto> ''0x10000000'']\<rparr> idle_driver = Inl (MissingField ''desc'')"
  using step_insn_errors [of "\<lparr>insn_op = ''CONV'', insn_fields = [''desc'' \<mapsto> ''0x40000100'']\<rparr>" idle_driver]
    step_insn_errors [of "\<lparr>insn_op = ''ACT'', insn_fields = [''dst'' \<mapsto> ''0x10000000'']\<rparr>" idle_driver] by simp

text \<open>
  The numbers of a printed field are read back, hexadecimal and decimal, for every 32-bit value.
\<close>

theorem field_values_roundtrip:
  "hexVal (hex_text (unat w)) = w \<and> word_of_int (intVal (dec_text (uint w))) = w
    \<and> word_of_int (intVal (dec_text (sint w))) = w"
proof -
  have u: "unat w < 2 ^ 64" using unat_u32_less [of w] by simp
  have "hexVal (hex_text (unat w)) = ucast (of_nat (unat w) :: u64)"
    unfolding hexVal_def strtoul_hex [OF u] ..
  also have "of_nat (unat w) = (ucast w :: u64)" by simp
  also have "ucast (ucast w :: u64) = w" by (rule ucast_up_ucast_id) (simp add: is_up)
  finally have h: "hexVal (hex_text (unat w)) = w" .
  have "uint w < 2 ^ 63" "- (2 ^ 63) \<le> sint w" "sint w < 2 ^ 63"
    using unsigned_less [of w, where ?'a = int] sint_range_size [of w] by (simp_all add: word_size)
  moreover have "- (2 ^ 63) \<le> uint w"
    by (rule order_trans [of _ 0]) simp_all
  ultimately show ?thesis using h by (simp add: intVal_def strtol_dec)
qed

end
