(* ===== verification/Emit.thy ===== *)
theory Emit
  imports Dialect Runner
begin

text \<open>
  The emitter, compiler/lib/Dialect/Eclipse/Transforms/EclipseToEasm/*.cpp: one line of text per
  operation, and the address of the next descriptor.  The number formats of \<open>llvm::formatv\<close> are a
  parameter, as is the full unrolling of \<open>scf.for\<close>; \<open>attrs\<close> gives the attribute
  \<open>eclipse.ddr_addr\<close> of a function argument or an allocation.
\<close>

section \<open>Number formats\<close>

text \<open>\<open>{:x}\<close> and \<open>{:d}\<close>.\<close>

record formatter =
  fmt_hex :: "nat \<Rightarrow> string"
  fmt_dec :: "int \<Rightarrow> string"

locale number_format =
  fixes hex :: "nat \<Rightarrow> string" and dec :: "int \<Rightarrow> string"
  assumes hex_value: "n < 2 ^ 32 \<Longrightarrow> strtoul (hex n) = of_nat n"
    and dec_value: "- (2 ^ 63) \<le> i \<Longrightarrow> i < 2 ^ 63 \<Longrightarrow> strtol (dec i) = i"
    and hex_plain: "list_all plain (hex n)" and dec_plain: "list_all plain (dec i)"
    and hex_short: "n < 2 ^ 32 \<Longrightarrow> length (hex n) \<le> 32"
    and dec_short: "- (2 ^ 63) \<le> i \<Longrightarrow> i < 2 ^ 63 \<Longrightarrow> length (dec i) \<le> 32"
begin

lemma hex_field: "hexVal (hex (unat w)) = w"
proof -
  have u: "unat w < 2 ^ 32" using unat_u32_less [of w] by simp
  have "hexVal (hex (unat w)) = ucast (of_nat (unat w) :: u64)" unfolding hexVal_def hex_value [OF u] ..
  also have "of_nat (unat w) = (ucast w :: u64)" by simp
  also have "ucast (ucast w :: u64) = w" by (rule ucast_up_ucast_id) (simp add: is_up)
  finally show ?thesis .
qed

lemma dec_field: "- (2 ^ 63) \<le> i \<Longrightarrow> i < 2 ^ 63 \<Longrightarrow> intVal (dec i) = i"
  by (simp add: intVal_def dec_value)

lemma dec_word: "word_of_int (intVal (dec (uint (w :: u32)))) = w"
proof -
  have "uint w < 2 ^ 63" using unsigned_less [of w, where ?'a = int] by simp
  moreover have "- (2 ^ 63) \<le> uint w" by (rule order_trans [of _ 0]) simp_all
  ultimately show ?thesis by (simp add: dec_field)
qed

end

text \<open>The prefixed hexadecimal and the decimal notation satisfy the laws.\<close>

lemma length_digits_of: "2 \<le> b \<Longrightarrow> n < b ^ Suc k \<Longrightarrow> length (digits_of b n) \<le> Suc k"
proof (induction k arbitrary: n)
  case 0
  then show ?case by (subst digits_of.simps) simp
next
  case (Suc k)
  then have "n div b < b ^ Suc k" by (simp add: less_mult_imp_div_less mult.commute)
  with Suc show ?case by (subst digits_of.simps) simp
qed

interpretation c_format: number_format hex_text dec_text
proof
  fix n :: nat and i :: int
  show "n < 2 ^ 32 \<Longrightarrow> strtoul (hex_text n) = of_nat n" by (rule strtoul_hex) simp
  show "- (2 ^ 63) \<le> i \<Longrightarrow> i < 2 ^ 63 \<Longrightarrow> strtol (dec_text i) = i" by (rule strtol_dec)
  show "list_all plain (hex_text n)" "list_all plain (dec_text i)"
    using hex_text_plain dec_text_plain by (simp_all add: list_all_iff)
  have hex: "length (digits_of 16 n) \<le> Suc 7" if "n < 2 ^ 32" by (rule length_digits_of) (use that in simp_all)
  then show "n < 2 ^ 32 \<Longrightarrow> length (hex_text n) \<le> 32" by (fastforce simp: hex_text_def)
  have dec: "length (digits_of 10 m) \<le> Suc 18" if "m < 10 ^ 19" for m by (rule length_digits_of) (use that in simp_all)
  assume "- (2 ^ 63) \<le> i" "i < 2 ^ 63"
  then have "nat i < 10 ^ 19" "nat (- i) < 10 ^ 19" by simp_all
  from dec [OF this(1)] dec [OF this(2)] show "length (dec_text i) \<le> 32" by (simp add: dec_text_def)
qed

section \<open>Emission\<close>

definition DESC_LEN :: u32 where "DESC_LEN = 0x40"
definition DESC_STARTADDR :: u32 where "DESC_STARTADDR = DDR_ADDR + 0x100"

type_synonym attributes = "ir_value \<Rightarrow> int option"

text \<open>A hexadecimal field, and the decimal fields of a \<open>uint32_t\<close>, an \<open>int64_t\<close>, a \<open>uint64_t\<close>.\<close>

definition hexf :: "formatter \<Rightarrow> string \<Rightarrow> u32 \<Rightarrow> string \<times> string" where
  "hexf F k w = (k, fmt_hex F (unat w))"

definition decf :: "formatter \<Rightarrow> string \<Rightarrow> u32 \<Rightarrow> string \<times> string" where
  "decf F k w = (k, fmt_dec F (uint w))"

definition intf :: "formatter \<Rightarrow> string \<Rightarrow> int \<Rightarrow> string \<times> string" where
  "intf F k i = (k, fmt_dec F i)"

definition emitActOp :: "formatter \<Rightarrow> ir_value \<Rightarrow> ir_value \<Rightarrow> ActKind \<Rightarrow> u32 \<Rightarrow> (string \<times> u32) result" where
  "emitActOp F src dst kind descAddr =
     rbind (sram_addr dst) (\<lambda>d. rbind (sram_addr src) (\<lambda>s.
       let n = foldl (\<lambda>n x. n * word_of_int x) (1 :: u32) (mr_shape (value_type src))
       in Inr (easm_line ''ACT'' (15 - 3)
            [hexf F ''desc'' descAddr, hexf F ''dst'' d, hexf F ''src'' s, decf F ''n'' n,
             decf F ''kind'' (act_kind_value kind)], descAddr + DESC_LEN)))"

text \<open>The emitted line of a DMA; the strides are \<open>uint64_t\<close> in one case, \<open>uint32_t\<close> in the other.\<close>

definition dma_line :: "formatter \<Rightarrow> string \<Rightarrow> u32 \<Rightarrow> u32 \<Rightarrow> u32 \<Rightarrow> int \<Rightarrow> int \<Rightarrow> int \<Rightarrow> int \<Rightarrow> string" where
  "dma_line F name descAddr sram_a addr rows cols srcStride dstStride =
     easm_line name (15 - length name)
       [hexf F ''desc'' descAddr, hexf F ''sram'' sram_a, hexf F ''ddr'' addr, intf F ''rows'' rows,
        intf F ''cols'' cols, intf F ''srcStride'' srcStride, intf F ''dstStride'' dstStride]"

definition attr_addr :: "attributes \<Rightarrow> ir_value \<Rightarrow> u32 result" where
  "attr_addr attrs v = (case attrs v of None \<Rightarrow> Inl NullDeref | Some i \<Rightarrow> Inr (word_of_int i))"

definition ddrBaseAddr :: "attributes \<Rightarrow> ir_value \<Rightarrow> u32 result" where
  "ddrBaseAddr attrs base = (case base of
       BlockArg i t \<Rightarrow> attr_addr attrs base
     | AllocRes i t al \<Rightarrow> attr_addr attrs base
     | _ \<Rightarrow> Inr 0)"

text \<open>\<open>isa<BlockArgument>(arg) || arg.getDefiningOp<memref::AllocOp>()\<close>.\<close>

definition has_ddr_base :: "ir_value \<Rightarrow> bool" where
  "has_ddr_base v = (case v of BlockArg i t \<Rightarrow> True | AllocRes i t al \<Rightarrow> True | _ \<Rightarrow> False)"

text \<open>\<open>cols * eclipse_runtime::DTYPE_SIZE\<close>, a product of an \<open>int64_t\<close> and a \<open>size_t\<close>.\<close>

definition packed_stride :: "int \<Rightarrow> int" where
  "packed_stride cols = uint (word_of_int cols * DTYPE_SIZE)"

definition u32_stride :: "int \<Rightarrow> u32" where
  "u32_stride cols = ucast (word_of_int cols * DTYPE_SIZE)"

definition emitDmaLoadOp :: "formatter \<Rightarrow> attributes \<Rightarrow> ir_value \<Rightarrow> ir_value \<Rightarrow> u32 \<Rightarrow> (string \<times> u32) result" where
  "emitDmaLoadOp F attrs src dst descAddr =
     rbind (sram_addr dst) (\<lambda>sram_a. case src of
         BlockArg i t \<Rightarrow> Inl NullDeref
       | CastRes i arg t \<Rightarrow>
           if \<not> has_ddr_base arg then Inr ([], descAddr)
           else rbind (ddrBaseAddr attrs arg) (\<lambda>addr.
             let rows = dim (value_type arg) 0; cols = dim (value_type arg) 1
             in Inr (dma_line F ''DMA_LOAD'' descAddr sram_a addr rows cols (packed_stride cols) (packed_stride cols),
                     descAddr + DESC_LEN))
       | SubViewRes i srcv offsets sizes strides t \<Rightarrow> (case srcv of
             CastRes j arg t' \<Rightarrow>
               if \<not> has_ddr_base arg then Inr ([], descAddr)
               else rbind (ddrBaseAddr attrs arg) (\<lambda>baseAddr.
                 let rowOffset = word_of_int (offsets ! 0) :: u32;
                     colOffset = word_of_int (offsets ! 1) :: u32;
                     rows = word_of_int (sizes ! 0) :: u32;
                     cols = word_of_int (sizes ! 1) :: u32;
                     rowSrcStride = u32_stride (dim (value_type arg) 1);
                     colStride = u32_stride (strides ! 1);
                     rowDstStride = u32_stride (sizes ! 1);
                     addr = baseAddr + rowOffset * rowSrcStride + colOffset * colStride
                 in Inr (dma_line F ''DMA_LOAD'' descAddr sram_a addr (uint rows) (uint cols)
                           (uint rowSrcStride) (uint rowDstStride), descAddr + DESC_LEN))
           | _ \<Rightarrow> Inl NullDeref)
       | _ \<Rightarrow> Inl (Unreachable ''dmaloadOp src getDefiningOp must be Cast/Subview''))"

definition emitDmaStoreOp :: "formatter \<Rightarrow> attributes \<Rightarrow> ir_value \<Rightarrow> ir_value \<Rightarrow> u32 \<Rightarrow> (string \<times> u32) result" where
  "emitDmaStoreOp F attrs src dst descAddr = (case dst of
       CastRes i arg t \<Rightarrow> (case arg of
           AllocRes j aty al \<Rightarrow>
             rbind (attr_addr attrs arg) (\<lambda>addr. rbind (sram_addr src) (\<lambda>sram_a.
               let rows = dim aty 0; cols = dim aty 1
               in Inr (dma_line F ''DMA_STORE'' descAddr sram_a addr rows cols (packed_stride cols) (packed_stride cols),
                       descAddr + DESC_LEN)))
         | _ \<Rightarrow> Inl NullDeref)
     | _ \<Rightarrow> Inl NullDeref)"

definition ewise_mnemonic :: "binop \<Rightarrow> string" where
  "ewise_mnemonic b = (case b of BinAdd \<Rightarrow> ''ELEMENTWISE_ADD'' | BinSub \<Rightarrow> ''ELEMENTWISE_SUB''
     | BinMul \<Rightarrow> ''ELEMENTWISE_MUL'' | BinDiv \<Rightarrow> ''ELEMENTWISE_DIV'')"

definition emitEwise :: "formatter \<Rightarrow> string \<Rightarrow> ir_value \<Rightarrow> ir_value \<Rightarrow> ir_value \<Rightarrow> u32 \<Rightarrow> (string \<times> u32) result" where
  "emitEwise F mnemonic lhsv rhsv dstv descAddr =
     rbind (sram_addr dstv) (\<lambda>dst. rbind (sram_addr lhsv) (\<lambda>lhs. rbind (sram_addr rhsv) (\<lambda>rhs.
       let rows = word_of_int (dim (value_type dstv) 0) :: u32;
           cols = word_of_int (dim (value_type dstv) 1) :: u32;
           blk = word_of_int (dim (value_type rhsv) 1) :: u32;
           stride = (if dim (value_type rhsv) 0 = 1 then 0 else blk)
       in Inr (easm_line mnemonic (15 - length mnemonic)
            [hexf F ''desc'' descAddr, hexf F ''dst'' dst, hexf F ''lhs'' lhs, hexf F ''rhs'' rhs,
             decf F ''rows'' rows, decf F ''cols'' cols, decf F ''blk'' blk, decf F ''stride'' stride],
            descAddr + DESC_LEN))))"

definition emitEwiseOp :: "formatter \<Rightarrow> binop \<Rightarrow> ir_value \<Rightarrow> ir_value \<Rightarrow> ir_value \<Rightarrow> u32 \<Rightarrow> (string \<times> u32) result" where
  "emitEwiseOp F b lhsv rhsv dstv descAddr = emitEwise F (ewise_mnemonic b) lhsv rhsv dstv descAddr"

definition emitMatmulOp :: "formatter \<Rightarrow> ir_value \<Rightarrow> ir_value \<Rightarrow> ir_value \<Rightarrow> bool \<Rightarrow> bool \<Rightarrow> bool \<Rightarrow> u32 \<Rightarrow> (string \<times> u32) result" where
  "emitMatmulOp F lhsv rhsv dstv acc transA transB descAddr =
     rbind (sram_addr dstv) (\<lambda>dst. rbind (sram_addr lhsv) (\<lambda>lhs. rbind (sram_addr rhsv) (\<lambda>rhs.
       let l = value_type lhsv; r = value_type rhsv;
           M = word_of_int (if transA then dim l 1 else dim l 0) :: u32;
           K = word_of_int (if transA then dim l 0 else dim l 1) :: u32;
           N = word_of_int (if transB then dim r 0 else dim r 1) :: u32
       in Inr (easm_line ''MATMUL'' (14 - 6)
            [hexf F ''desc'' descAddr, hexf F ''dst'' dst, hexf F ''lhs'' lhs, hexf F ''rhs'' rhs,
             decf F ''M'' M, decf F ''N'' N, decf F ''K'' K, decf F ''acc'' (of_bool acc),
             decf F ''ta'' (of_bool transA), decf F ''tb'' (of_bool transB)],
            descAddr + DESC_LEN))))"

definition emitReduceOp :: "formatter \<Rightarrow> ir_value \<Rightarrow> ir_value \<Rightarrow> ir_value option \<Rightarrow> ReduceKind \<Rightarrow> u32 \<Rightarrow> (string \<times> u32) result" where
  "emitReduceOp F srcv dstv idxv kind descAddr =
     rbind (sram_addr dstv) (\<lambda>dst. rbind (sram_addr srcv) (\<lambda>src.
       let s = value_type srcv; k = reduce_kind_value kind
       in case idxv of
            Some i \<Rightarrow> rbind (sram_addr i) (\<lambda>idxAddr.
              Inr (easm_line ''REDUCE'' (15 - 6)
                [hexf F ''desc'' descAddr, hexf F ''dst'' dst, hexf F ''idx'' idxAddr, hexf F ''src'' src,
                 intf F ''rows'' (dim s 0), intf F ''cols'' (dim s 1), decf F ''kind'' k], descAddr + DESC_LEN))
          | None \<Rightarrow>
              Inr (easm_line ''REDUCE'' (15 - 6)
                [hexf F ''desc'' descAddr, hexf F ''dst'' dst, hexf F ''src'' src,
                 intf F ''rows'' (dim s 0), intf F ''cols'' (dim s 1), decf F ''kind'' k], descAddr + DESC_LEN)))"

definition emitSyncOp :: "u32 \<Rightarrow> (string \<times> u32) result" where
  "emitSyncOp descAddr = Inr (easm_line ''SYNC'' 0 [], descAddr)"

text \<open>The dispatch of the walk; any other operation writes nothing.\<close>

definition emit_op :: "formatter \<Rightarrow> attributes \<Rightarrow> operation \<Rightarrow> u32 \<Rightarrow> (string \<times> u32) result" where
  "emit_op F attrs op descAddr = (case op of
       DmaLoadOp src dst \<Rightarrow> emitDmaLoadOp F attrs src dst descAddr
     | DmaStoreOp src dst \<Rightarrow> emitDmaStoreOp F attrs src dst descAddr
     | SyncOp \<Rightarrow> emitSyncOp descAddr
     | MatmulOp lhs rhs dst acc ta tb \<Rightarrow> emitMatmulOp F lhs rhs dst acc ta tb descAddr
     | EwiseOp b lhs rhs dst \<Rightarrow> emitEwiseOp F b lhs rhs dst descAddr
     | ActOp src dst kind \<Rightarrow> emitActOp F src dst kind descAddr
     | ReduceOp src dst idx kind \<Rightarrow> emitReduceOp F src dst idx kind descAddr
     | _ \<Rightarrow> Inr ([], descAddr))"

text \<open>
  \<open>runOnOperation\<close>: \<open>can_open\<close> says whether the output file opens, \<open>unroll\<close> stands for
  \<open>loopUnrollFull\<close> and the folding after it.  The result is the text of the file.  When the unrolling
  of a loop fails the source signals the failure of the pass and goes on with the rest of the file;
  the result here is the failure, and what is left of the file is not modelled.
\<close>

definition eclipse_to_easm :: "formatter \<Rightarrow> attributes \<Rightarrow> (operation list \<Rightarrow> operation list option) \<Rightarrow> bool
    \<Rightarrow> operation list \<Rightarrow> (string \<times> u32) result" where
  "eclipse_to_easm F attrs unroll can_open ops =
     (if \<not> can_open then Inl (VerifyError ''Failed to open file '')
      else case unroll ops of
          None \<Rightarrow> Inl (VerifyError ''loop unrolling failed'')
        | Some flat \<Rightarrow>
            fold_result (\<lambda>op (text, descAddr).
              rbind (emit_op F attrs op descAddr) (\<lambda>(line, next). Inr (text @ line, next))) flat ([], DESC_STARTADDR))"

end
