(* ===== verification/EmitRead.thy ===== *)
theory EmitRead
  imports Emit
begin

text \<open>
  What the runner reads in the emitted text: every line is parsed back to the descriptor that the
  operation stands for, and the descriptors of a program lie one after the other below the first
  tensor.  This connects the two ends of the tool chain: the compiler's text and the chip's bytes.
\<close>

section \<open>The descriptor an operation stands for\<close>

definition sbuf_addr :: "ir_value \<Rightarrow> u32" where
  "sbuf_addr v = (case v of SramBuf i a t \<Rightarrow> a | _ \<Rightarrow> 0)"

definition base_addr :: "attributes \<Rightarrow> ir_value \<Rightarrow> u32" where
  "base_addr attrs v = word_of_int (the (attrs v))"

text \<open>
  The block of a DMA in DDR: its address, rows, columns and the distance of its rows, in bytes.  A
  subview starts at its offset in the base, whose rows keep their distance.
\<close>

definition ddr_block :: "attributes \<Rightarrow> ir_value \<Rightarrow> u32 \<times> int \<times> int \<times> int" where
  "ddr_block attrs v = (case v of
       CastRes i base t \<Rightarrow> (base_addr attrs base, dim (value_type base) 0, dim (value_type base) 1, 2 * dim (value_type base) 1)
     | SubViewRes i (CastRes j base t') offs sizes strides t \<Rightarrow>
         (base_addr attrs base + word_of_int (2 * (offs ! 0 * dim (value_type base) 1 + offs ! 1 * strides ! 1)),
          sizes ! 0, sizes ! 1, 2 * dim (value_type base) 1)
     | _ \<Rightarrow> (0, 0, 0, 0))"

definition expected :: "attributes \<Rightarrow> operation \<Rightarrow> u32 \<Rightarrow> OpCode \<times> u32 \<times> u8 list" where
  "expected attrs op da = (case op of
       DmaLoadOp src dst \<Rightarrow> (case ddr_block attrs src of (addr, rows, cols, pitch) \<Rightarrow>
         (DMA_LOAD, da, bytes_of_DMAParam \<lparr>dma_sramAddr = sbuf_addr dst, dma_ddrAddr = addr, dma_rows = word_of_int rows,
            dma_cols = word_of_int cols, dma_srcStride = word_of_int pitch, dma_dstStride = word_of_int (2 * cols)\<rparr>))
     | DmaStoreOp src dst \<Rightarrow> (case ddr_block attrs dst of (addr, rows, cols, pitch) \<Rightarrow>
         (DMA_STORE, da, bytes_of_DMAParam \<lparr>dma_sramAddr = sbuf_addr src, dma_ddrAddr = addr, dma_rows = word_of_int rows,
            dma_cols = word_of_int cols, dma_srcStride = word_of_int (2 * cols), dma_dstStride = word_of_int pitch\<rparr>))
     | MatmulOp lhs rhs dst acc ta tb \<Rightarrow> (case matmul_dims ta tb (value_type lhs) (value_type rhs) of (m, k, k', n) \<Rightarrow>
         (MATMUL, da, bytes_of_MatmulParam \<lparr>mm_dstAddr = sbuf_addr dst, mm_rhsAddr = sbuf_addr rhs, mm_lhsAddr = sbuf_addr lhs,
            mm_M = word_of_int m, mm_K = word_of_int k, mm_N = word_of_int n, mm_accumulate = of_bool acc,
            mm_transA = of_bool ta, mm_transB = of_bool tb\<rparr>))
     | EwiseOp b lhs rhs dst \<Rightarrow>
         (binop_code b, da, bytes_of_EwiseParam \<lparr>ew_dstAddr = sbuf_addr dst, ew_rhsAddr = sbuf_addr rhs,
            ew_lhsAddr = sbuf_addr lhs, ew_rows = word_of_int (dim (value_type dst) 0),
            ew_cols = word_of_int (dim (value_type dst) 1), ew_rhsBlk = word_of_int (dim (value_type rhs) 1),
            ew_rhsStride = (if dim (value_type rhs) 0 = 1 then 0 else word_of_int (dim (value_type rhs) 1))\<rparr>)
     | ActOp src dst kind \<Rightarrow>
         (ACT, da, bytes_of_ActParam \<lparr>act_dstAddr = sbuf_addr dst, act_srcAddr = sbuf_addr src,
            act_n = word_of_int (num_elements (value_type src)), act_kind = act_kind_value kind,
            act_extra0 = 0, act_extra1 = 0, act_extra2 = 0, act_extra3 = 0\<rparr>)
     | ReduceOp src dst idx kind \<Rightarrow>
         (REDUCE, da, bytes_of_ReduceParam \<lparr>red_dstAddr = sbuf_addr dst,
            red_idxAddr = (case idx of None \<Rightarrow> 0 | Some i \<Rightarrow> sbuf_addr i), red_srcAddr = sbuf_addr src,
            red_rows = word_of_int (dim (value_type src) 0), red_cols = word_of_int (dim (value_type src) 1),
            red_kind = reduce_kind_value kind\<rparr>)
     | _ \<Rightarrow> (SYNC, 0, []))"

section \<open>Reading one line\<close>

text \<open>
  What the verifier and the earlier passes guarantee of the operation: static extents that fit in 31
  bits, an index operand for an ARGMAX only.
\<close>

definition small :: "int \<Rightarrow> bool" where
  "small i \<longleftrightarrow> 0 \<le> i \<and> i < 2 ^ 31"

definition readable :: "operation \<Rightarrow> bool" where
  "readable op = (case op of
       DmaLoadOp src dst \<Rightarrow> (case src of
           CastRes i base t \<Rightarrow> has_ddr_base base \<and> small (dim (value_type base) 0) \<and> small (dim (value_type base) 1)
         | SubViewRes i (CastRes j base t') offs sizes strides t \<Rightarrow>
             has_ddr_base base \<and> small (sizes ! 0) \<and> small (sizes ! 1)
         | _ \<Rightarrow> False)
     | DmaStoreOp src dst \<Rightarrow> (case dst of
           CastRes i base t \<Rightarrow> small (dim (value_type base) 0) \<and> small (dim (value_type base) 1)
         | _ \<Rightarrow> False)
     | ReduceOp src dst idx kind \<Rightarrow> small (dim (value_type src) 0) \<and> small (dim (value_type src) 1)
         \<and> (kind = REDUCE_ARGMAX) = (idx \<noteq> None)
     | _ \<Rightarrow> True)"

definition instruction_op :: "operation \<Rightarrow> bool" where
  "instruction_op op = (case op of Define v \<Rightarrow> False | DeallocOp v \<Rightarrow> False | ForOp lb ub step body \<Rightarrow> False
     | OtherOp vs \<Rightarrow> False | _ \<Rightarrow> True)"

lemma word_times_dtype: "word_of_int i * DTYPE_SIZE = (word_of_int (2 * i) :: u64)"
  by (simp add: DTYPE_SIZE_def mult.commute)

lemma u32_stride_eq: "u32_stride i = word_of_int (2 * i)"
proof -
  have "(ucast (word_of_int n :: u64) :: u32) = word_of_int n" for n
    by (rule bit_word_eqI) (simp add: bit_simps)
  then show ?thesis by (simp only: u32_stride_def word_times_dtype)
qed

lemma packed_stride_eq: "small i \<Longrightarrow> packed_stride i = 2 * i"
proof -
  assume i: "small i"
  then have "take_bit 64 (2 * i) = 2 * i" by (simp add: small_def take_bit_int_eq_self)
  then have "uint (word_of_int (2 * i) :: u64) = 2 * i" by (simp only: uint_word_of_int_eq) simp
  then show ?thesis by (simp only: packed_stride_def word_times_dtype)
qed

lemma fold_dims: "foldl (\<lambda>n x. n * word_of_int x) (w :: u32) xs = w * word_of_int (prod_list xs)"
  by (induction xs arbitrary: w) (simp_all add: mult.assoc)

lemma u32_of_uint: "word_of_int (uint (word_of_int i :: u32)) = (word_of_int i :: u32)"
  by simp

locale emitter = number_format "fmt_hex F" "fmt_dec F" for F :: formatter
begin

lemma printable_fields:
  assumes "name \<noteq> []" and "list_all plain name" and "length name + pad \<le> 16" and "length fs \<le> 10"
    and "\<forall>f \<in> set fs. list_all plain (fst f) \<and> length (fst f) \<le> 16 \<and> list_all plain (snd f) \<and> length (snd f) \<le> 32"
  shows "printable name pad fs"
proof -
  have "length (concat (map field_text fs)) \<le> 50 * length fs"
    using assms(5) by (induction fs) (auto simp: field_text_def)
  then have "length (easm_line name pad fs) \<le> 4095" using assms(3,4) by (simp add: easm_line_def)
  then show ?thesis using assms(1,2,5) by (auto simp: printable_def list_all_iff)
qed

lemma uint_range: "- (2 ^ 63) \<le> uint (w :: u32)" "uint (w :: u32) < 2 ^ 63"
proof -
  show "uint w < 2 ^ 63" using unsigned_less [of w, where ?'a = int] by simp
  show "- (2 ^ 63) \<le> uint w" by (rule order_trans [of _ 0 "uint w"]) simp_all
qed

lemma hexf_shape: "list_all plain (snd (hexf F k w)) \<and> length (snd (hexf F k w)) \<le> 32"
proof -
  have "unat w < 2 ^ 32" using unat_u32_less [of w] by simp
  from hex_short [OF this] hex_plain [of "unat w"] show ?thesis by (simp add: hexf_def)
qed

lemma decf_shape: "list_all plain (snd (decf F k w)) \<and> length (snd (decf F k w)) \<le> 32"
  using dec_short [OF uint_range] dec_plain by (simp add: decf_def)

lemma intf_shape:
  "- (2 ^ 63) \<le> i \<Longrightarrow> i < 2 ^ 63 \<Longrightarrow> list_all plain (snd (intf F k i)) \<and> length (snd (intf F k i)) \<le> 32"
  using dec_short dec_plain by (simp add: intf_def)

lemma fst_fields [simp]: "fst (hexf F k w) = k" "fst (decf F k w) = k" "fst (intf F k i) = k"
  by (simp_all add: hexf_def decf_def intf_def)

lemma bool_field: "intVal (fmt_dec F (uint (of_bool b :: u32))) = of_bool b"
  by (cases b) (simp_all add: dec_field)

lemmas field_reads = hex_at_def int_at_def bool_at_def field_at_def hex_field dec_word dec_field bool_field
  hexf_def decf_def intf_def

definition reads_as :: "string \<Rightarrow> OpCode \<times> u32 \<times> u8 list \<Rightarrow> bool" where
  "reads_as line img \<longleftrightarrow> (\<exists>name pad fs. line = easm_line name pad fs \<and> printable name pad fs
     \<and> insn_image \<lparr>insn_op = name, insn_fields = map_of (rev fs)\<rparr> = Inr img)"

lemma reads_asI:
  assumes "name \<noteq> []" and "list_all plain name" and "length name + pad \<le> 16" and "length fs \<le> 10"
    and "\<forall>f \<in> set fs. list_all plain (fst f) \<and> length (fst f) \<le> 16 \<and> list_all plain (snd f) \<and> length (snd f) \<le> 32"
    and "insn_image \<lparr>insn_op = name, insn_fields = map_of (rev fs)\<rparr> = Inr img"
  shows "reads_as (easm_line name pad fs) img"
  using printable_fields [OF assms(1-5)] assms(6) by (auto simp: reads_as_def)

lemma act_reads:
  assumes "emitActOp F src dst kind da = Inr (line, next)"
  shows "next = da + DESC_LEN \<and> reads_as line (expected attrs (ActOp src dst kind) da)"
proof -
  from assms obtain d s where v: "sram_addr dst = Inr d" "sram_addr src = Inr s" and n: "next = da + DESC_LEN"
    and line: "line = easm_line ''ACT'' (15 - 3)
            [hexf F ''desc'' da, hexf F ''dst'' d, hexf F ''src'' s,
             decf F ''n'' (foldl (\<lambda>n x. n * word_of_int x) 1 (mr_shape (value_type src))),
             decf F ''kind'' (act_kind_value kind)]"
    by (auto simp: emitActOp_def rbind_eq_Inr Let_def)
  from v have a: "sbuf_addr dst = d" "sbuf_addr src = s" by (auto simp: sram_addr_eq_Inr sbuf_addr_def)
  have "reads_as line (expected attrs (ActOp src dst kind) da)"
    unfolding line
  proof (rule reads_asI)
    show "insn_image \<lparr>insn_op = ''ACT'', insn_fields = map_of (rev
            [hexf F ''desc'' da, hexf F ''dst'' d, hexf F ''src'' s,
             decf F ''n'' (foldl (\<lambda>n x. n * word_of_int x) 1 (mr_shape (value_type src))),
             decf F ''kind'' (act_kind_value kind)])\<rparr> = Inr (expected attrs (ActOp src dst kind) da)"
      by (simp add: insn_image_def Let_def act_fields_def field_reads expected_def a fold_dims num_elements_def)
  qed (simp_all add: plain_def hexf_shape decf_shape)
  with n show ?thesis by simp
qed

lemma sbuf_addr_eq: "sram_addr v = Inr a \<Longrightarrow> sbuf_addr v = a"
  by (auto simp: sram_addr_eq_Inr sbuf_addr_def)

lemma matmul_reads:
  assumes "emitMatmulOp F lhsv rhsv dstv acc ta tb da = Inr (line, next)"
  shows "next = da + DESC_LEN \<and> reads_as line (expected attrs (MatmulOp lhsv rhsv dstv acc ta tb) da)"
proof -
  define l r where "l = value_type lhsv" and "r = value_type rhsv"
  define M K N :: u32 where "M = word_of_int (if ta then dim l 1 else dim l 0)"
    and "K = word_of_int (if ta then dim l 0 else dim l 1)" and "N = word_of_int (if tb then dim r 0 else dim r 1)"
  from assms obtain dst lhs rhs where v: "sram_addr dstv = Inr dst" "sram_addr lhsv = Inr lhs" "sram_addr rhsv = Inr rhs"
    and n: "next = da + DESC_LEN" and line: "line = easm_line ''MATMUL'' (14 - 6)
            [hexf F ''desc'' da, hexf F ''dst'' dst, hexf F ''lhs'' lhs, hexf F ''rhs'' rhs,
             decf F ''M'' M, decf F ''N'' N, decf F ''K'' K, decf F ''acc'' (of_bool acc),
             decf F ''ta'' (of_bool ta), decf F ''tb'' (of_bool tb)]"
    unfolding M_def K_def N_def l_def r_def by (auto simp: emitMatmulOp_def rbind_eq_Inr Let_def)
  have e: "expected attrs (MatmulOp lhsv rhsv dstv acc ta tb) da = (MATMUL, da, bytes_of_MatmulParam
      \<lparr>mm_dstAddr = dst, mm_rhsAddr = rhs, mm_lhsAddr = lhs, mm_M = M, mm_K = K, mm_N = N,
       mm_accumulate = of_bool acc, mm_transA = of_bool ta, mm_transB = of_bool tb\<rparr>)"
    using v by (auto simp: expected_def matmul_dims_def sbuf_addr_eq M_def K_def N_def l_def r_def)
  have "reads_as line (expected attrs (MatmulOp lhsv rhsv dstv acc ta tb) da)"
    unfolding line e
  proof (rule reads_asI)
    show "insn_image \<lparr>insn_op = ''MATMUL'', insn_fields = map_of (rev
            [hexf F ''desc'' da, hexf F ''dst'' dst, hexf F ''lhs'' lhs, hexf F ''rhs'' rhs,
             decf F ''M'' M, decf F ''N'' N, decf F ''K'' K, decf F ''acc'' (of_bool acc),
             decf F ''ta'' (of_bool ta), decf F ''tb'' (of_bool tb)])\<rparr>
      = Inr (MATMUL, da, bytes_of_MatmulParam
      \<lparr>mm_dstAddr = dst, mm_rhsAddr = rhs, mm_lhsAddr = lhs, mm_M = M, mm_K = K, mm_N = N,
       mm_accumulate = of_bool acc, mm_transA = of_bool ta, mm_transB = of_bool tb\<rparr>)"
      by (simp add: insn_image_def Let_def matmul_fields_def field_reads)
  qed (simp_all add: plain_def hexf_shape decf_shape)
  with n show ?thesis by simp
qed

lemma mnemonic_facts:
  "ewise_mnemonic b \<noteq> []" "length (ewise_mnemonic b) = 15" "list_all plain (ewise_mnemonic b)"
  by (cases b; simp add: ewise_mnemonic_def plain_def)+

lemma ewise_reads:
  assumes "emitEwiseOp F b lhsv rhsv dstv da = Inr (line, next)"
  shows "next = da + DESC_LEN \<and> reads_as line (expected attrs (EwiseOp b lhsv rhsv dstv) da)"
proof -
  define rows cols blk stride :: u32 where "rows = word_of_int (dim (value_type dstv) 0)"
    and "cols = word_of_int (dim (value_type dstv) 1)" and "blk = word_of_int (dim (value_type rhsv) 1)"
    and "stride = (if dim (value_type rhsv) 0 = 1 then 0 else word_of_int (dim (value_type rhsv) 1))"
  from assms obtain dst lhs rhs where v: "sram_addr dstv = Inr dst" "sram_addr lhsv = Inr lhs" "sram_addr rhsv = Inr rhs"
    and n: "next = da + DESC_LEN" and line: "line = easm_line (ewise_mnemonic b) (15 - length (ewise_mnemonic b))
            [hexf F ''desc'' da, hexf F ''dst'' dst, hexf F ''lhs'' lhs, hexf F ''rhs'' rhs,
             decf F ''rows'' rows, decf F ''cols'' cols, decf F ''blk'' blk, decf F ''stride'' stride]"
    unfolding rows_def cols_def blk_def stride_def by (auto simp: emitEwiseOp_def emitEwise_def rbind_eq_Inr Let_def)
  have e: "expected attrs (EwiseOp b lhsv rhsv dstv) da = (binop_code b, da, bytes_of_EwiseParam
      \<lparr>ew_dstAddr = dst, ew_rhsAddr = rhs, ew_lhsAddr = lhs, ew_rows = rows, ew_cols = cols,
       ew_rhsBlk = blk, ew_rhsStride = stride\<rparr>)"
    using v by (auto simp: expected_def sbuf_addr_eq rows_def cols_def blk_def stride_def)
  have "reads_as line (expected attrs (EwiseOp b lhsv rhsv dstv) da)"
    unfolding line e
  proof (rule reads_asI)
    show "insn_image \<lparr>insn_op = ewise_mnemonic b, insn_fields = map_of (rev
            [hexf F ''desc'' da, hexf F ''dst'' dst, hexf F ''lhs'' lhs, hexf F ''rhs'' rhs,
             decf F ''rows'' rows, decf F ''cols'' cols, decf F ''blk'' blk, decf F ''stride'' stride])\<rparr>
      = Inr (binop_code b, da, bytes_of_EwiseParam
      \<lparr>ew_dstAddr = dst, ew_rhsAddr = rhs, ew_lhsAddr = lhs, ew_rows = rows, ew_cols = cols,
       ew_rhsBlk = blk, ew_rhsStride = stride\<rparr>)"
      by (cases b) (simp_all add: ewise_mnemonic_def insn_image_def Let_def ewise_fields_def field_reads)
  qed (simp_all add: mnemonic_facts plain_def hexf_shape decf_shape)
  with n show ?thesis by simp
qed

lemma small_range: "small i \<Longrightarrow> - (2 ^ 63) \<le> i \<and> i < 2 ^ 63" "small i \<Longrightarrow> - (2 ^ 63) \<le> 2 * i \<and> 2 * i < 2 ^ 63"
  by (simp_all add: small_def)

lemma dma_line_reads:
  assumes "name = ''DMA_LOAD'' \<and> op = DMA_LOAD \<or> name = ''DMA_STORE'' \<and> op = DMA_STORE"
    and "\<forall>i \<in> {rows, cols, ss, ds}. - (2 ^ 63) \<le> i \<and> i < 2 ^ 63"
  shows "reads_as (dma_line F name da sa addr rows cols ss ds) (op, da, bytes_of_DMAParam
    \<lparr>dma_sramAddr = sa, dma_ddrAddr = addr, dma_rows = word_of_int rows, dma_cols = word_of_int cols,
     dma_srcStride = word_of_int ss, dma_dstStride = word_of_int ds\<rparr>)"
  unfolding dma_line_def
proof (rule reads_asI)
  show "insn_image \<lparr>insn_op = name, insn_fields = map_of (rev
       [hexf F ''desc'' da, hexf F ''sram'' sa, hexf F ''ddr'' addr, intf F ''rows'' rows,
        intf F ''cols'' cols, intf F ''srcStride'' ss, intf F ''dstStride'' ds])\<rparr>
    = Inr (op, da, bytes_of_DMAParam
    \<lparr>dma_sramAddr = sa, dma_ddrAddr = addr, dma_rows = word_of_int rows, dma_cols = word_of_int cols,
     dma_srcStride = word_of_int ss, dma_dstStride = word_of_int ds\<rparr>)"
    using assms by (elim disjE conjE) (simp_all add: insn_image_def Let_def dma_fields_def field_reads)
qed (use assms in \<open>auto simp: plain_def hexf_shape intf_shape\<close>)

lemma reduce_reads:
  assumes "emitReduceOp F srcv dstv idxv kind da = Inr (line, next)" and "readable (ReduceOp srcv dstv idxv kind)"
  shows "next = da + DESC_LEN \<and> reads_as line (expected attrs (ReduceOp srcv dstv idxv kind) da)"
proof -
  define rows cols where "rows = dim (value_type srcv) 0" and "cols = dim (value_type srcv) 1"
  have r: "- (2 ^ 63) \<le> rows" "rows < 2 ^ 63" "- (2 ^ 63) \<le> cols" "cols < 2 ^ 63" and idx: "(kind = REDUCE_ARGMAX) = (idxv \<noteq> None)"
    using assms(2) small_range by (simp_all add: readable_def rows_def cols_def)
  from assms(1) obtain dst src where v: "sram_addr dstv = Inr dst" "sram_addr srcv = Inr src"
    by (auto simp: emitReduceOp_def rbind_eq_Inr)
  have kind: "(reduce_kind_value kind = 3) = (kind = REDUCE_ARGMAX)"
    by (cases kind) simp_all
  show ?thesis
  proof (cases idxv)
    case None
    with assms(1) v have n: "next = da + DESC_LEN" and line: "line = easm_line ''REDUCE'' (15 - 6)
                [hexf F ''desc'' da, hexf F ''dst'' dst, hexf F ''src'' src,
                 intf F ''rows'' rows, intf F ''cols'' cols, decf F ''kind'' (reduce_kind_value kind)]"
      by (auto simp: emitReduceOp_def Let_def rows_def cols_def)
    have e: "expected attrs (ReduceOp srcv dstv idxv kind) da = (REDUCE, da, bytes_of_ReduceParam
      \<lparr>red_dstAddr = dst, red_idxAddr = 0, red_srcAddr = src, red_rows = word_of_int rows,
       red_cols = word_of_int cols, red_kind = reduce_kind_value kind\<rparr>)"
      using v None by (simp add: expected_def sbuf_addr_eq rows_def cols_def)
    have "reads_as line (expected attrs (ReduceOp srcv dstv idxv kind) da)"
      unfolding line e
    proof (rule reads_asI)
      show "insn_image \<lparr>insn_op = ''REDUCE'', insn_fields = map_of (rev [hexf F ''desc'' da, hexf F ''dst'' dst, hexf F ''src'' src,
                 intf F ''rows'' rows, intf F ''cols'' cols, decf F ''kind'' (reduce_kind_value kind)])\<rparr>
        = Inr (REDUCE, da, bytes_of_ReduceParam
      \<lparr>red_dstAddr = dst, red_idxAddr = 0, red_srcAddr = src, red_rows = word_of_int rows,
       red_cols = word_of_int cols, red_kind = reduce_kind_value kind\<rparr>)"
        using idx None r by (simp add: insn_image_def Let_def reduce_fields_def field_reads kind)
    qed (use r in \<open>simp_all add: plain_def hexf_shape decf_shape intf_shape\<close>)
    with n show ?thesis by simp
  next
    case (Some i)
    with assms(1) v obtain ia where i: "sram_addr i = Inr ia" and n: "next = da + DESC_LEN"
      and line: "line = easm_line ''REDUCE'' (15 - 6)
                [hexf F ''desc'' da, hexf F ''dst'' dst, hexf F ''idx'' ia, hexf F ''src'' src,
                 intf F ''rows'' rows, intf F ''cols'' cols, decf F ''kind'' (reduce_kind_value kind)]"
      by (auto simp: emitReduceOp_def Let_def rows_def cols_def rbind_eq_Inr)
    have e: "expected attrs (ReduceOp srcv dstv idxv kind) da = (REDUCE, da, bytes_of_ReduceParam
      \<lparr>red_dstAddr = dst, red_idxAddr = ia, red_srcAddr = src, red_rows = word_of_int rows,
       red_cols = word_of_int cols, red_kind = reduce_kind_value kind\<rparr>)"
      using v i Some by (simp add: expected_def sbuf_addr_eq rows_def cols_def)
    have "reads_as line (expected attrs (ReduceOp srcv dstv idxv kind) da)"
      unfolding line e
    proof (rule reads_asI)
      show "insn_image \<lparr>insn_op = ''REDUCE'', insn_fields = map_of (rev [hexf F ''desc'' da, hexf F ''dst'' dst,
                 hexf F ''idx'' ia, hexf F ''src'' src,
                 intf F ''rows'' rows, intf F ''cols'' cols, decf F ''kind'' (reduce_kind_value kind)])\<rparr>
        = Inr (REDUCE, da, bytes_of_ReduceParam
      \<lparr>red_dstAddr = dst, red_idxAddr = ia, red_srcAddr = src, red_rows = word_of_int rows,
       red_cols = word_of_int cols, red_kind = reduce_kind_value kind\<rparr>)"
        using idx Some r by (simp add: insn_image_def Let_def reduce_fields_def field_reads)
    qed (use r in \<open>simp_all add: plain_def hexf_shape decf_shape intf_shape\<close>)
    with n show ?thesis by simp
  qed
qed

lemma base_addr_eq: "has_ddr_base v \<Longrightarrow> ddrBaseAddr attrs v = Inr a \<Longrightarrow> base_addr attrs v = a"
  by (auto simp: has_ddr_base_def ddrBaseAddr_def attr_addr_def base_addr_def split: ir_value.splits option.splits)

lemma subview_addr:
  "word_of_int a * word_of_int (2 * c) + word_of_int b * word_of_int (2 * s) = (word_of_int (2 * (a * c + b * s)) :: u32)"
  by (simp add: algebra_simps)

lemma load_reads:
  assumes "emitDmaLoadOp F attrs src dst da = Inr (line, next)" and "readable (DmaLoadOp src dst)"
  shows "next = da + DESC_LEN \<and> reads_as line (expected attrs (DmaLoadOp src dst) da)"
proof (cases src)
  case (CastRes i base t)
  define rows cols where "rows = dim (value_type base) 0" and "cols = dim (value_type base) 1"
  from assms(2) CastRes have b: "has_ddr_base base" and r: "small rows" "small cols" by (simp_all add: readable_def rows_def cols_def)
  from assms(1) CastRes b obtain sa addr where v: "sram_addr dst = Inr sa" "ddrBaseAddr attrs base = Inr addr" and n: "next = da + DESC_LEN"
    and line: "line = dma_line F ''DMA_LOAD'' da sa addr rows cols (packed_stride cols) (packed_stride cols)"
    by (auto simp: emitDmaLoadOp_def rbind_eq_Inr Let_def rows_def cols_def)
  have "expected attrs (DmaLoadOp src dst) da = (DMA_LOAD, da, bytes_of_DMAParam \<lparr>dma_sramAddr = sa, dma_ddrAddr = addr,
      dma_rows = word_of_int rows, dma_cols = word_of_int cols, dma_srcStride = word_of_int (packed_stride cols),
      dma_dstStride = word_of_int (packed_stride cols)\<rparr>)"
    using v base_addr_eq [OF b v(2)] r
    by (simp add: expected_def ddr_block_def CastRes sbuf_addr_eq rows_def cols_def packed_stride_eq)
  moreover have "\<forall>i \<in> {rows, cols, packed_stride cols, packed_stride cols}. - (2 ^ 63) \<le> i \<and> i < 2 ^ 63"
    using r small_range by (simp add: packed_stride_eq)
  ultimately show ?thesis using n dma_line_reads [of "''DMA_LOAD''" DMA_LOAD] by (simp add: line)
next
  case (SubViewRes i sv offs sizes strides t)
  with assms(2) obtain j base t' where sv: "sv = CastRes j base t'" and b: "has_ddr_base base"
    and r: "small (sizes ! 0)" "small (sizes ! 1)"
    by (auto simp: readable_def split: ir_value.splits)
  define pitch where "pitch = dim (value_type base) 1"
  from assms(1) SubViewRes sv b obtain sa addr where v: "sram_addr dst = Inr sa" "ddrBaseAddr attrs base = Inr addr"
    and n: "next = da + DESC_LEN"
    and line: "line = dma_line F ''DMA_LOAD'' da sa
       (addr + word_of_int (offs ! 0) * u32_stride pitch + word_of_int (offs ! 1) * u32_stride (strides ! 1))
       (uint (word_of_int (sizes ! 0) :: u32)) (uint (word_of_int (sizes ! 1) :: u32))
       (uint (u32_stride pitch)) (uint (u32_stride (sizes ! 1)))"
    by (auto simp: emitDmaLoadOp_def rbind_eq_Inr Let_def pitch_def)
  have e: "expected attrs (DmaLoadOp src dst) da = (DMA_LOAD, da, bytes_of_DMAParam \<lparr>dma_sramAddr = sa,
      dma_ddrAddr = addr + word_of_int (offs ! 0) * u32_stride pitch + word_of_int (offs ! 1) * u32_stride (strides ! 1),
      dma_rows = word_of_int (uint (word_of_int (sizes ! 0) :: u32)), dma_cols = word_of_int (uint (word_of_int (sizes ! 1) :: u32)),
      dma_srcStride = word_of_int (uint (u32_stride pitch)), dma_dstStride = word_of_int (uint (u32_stride (sizes ! 1)))\<rparr>)"
    unfolding expected_def ddr_block_def SubViewRes sv u32_stride_eq add.assoc subview_addr
    using v base_addr_eq [OF b v(2)] by (simp add: sbuf_addr_eq pitch_def)
  have range: "\<forall>i \<in> {uint (word_of_int (sizes ! 0) :: u32), uint (word_of_int (sizes ! 1) :: u32), uint (u32_stride pitch),
      uint (u32_stride (sizes ! 1))}. - (2 ^ 63) \<le> i \<and> i < 2 ^ 63"
    using uint_range by blast
  have "reads_as line (expected attrs (DmaLoadOp src dst) da)"
    unfolding e line by (rule dma_line_reads [OF _ range]) simp
  with n show ?thesis by simp
qed (use assms(2) in \<open>simp_all add: readable_def\<close>)

lemma store_reads:
  assumes "emitDmaStoreOp F attrs src dst da = Inr (line, next)" and "readable (DmaStoreOp src dst)"
  shows "next = da + DESC_LEN \<and> reads_as line (expected attrs (DmaStoreOp src dst) da)"
proof -
  from assms(1) obtain i j base t aty al where dst: "dst = CastRes i base t" and base: "base = AllocRes j aty al"
    by (auto simp: emitDmaStoreOp_def split: ir_value.splits)
  define rows cols where "rows = dim (value_type base) 0" and "cols = dim (value_type base) 1"
  from assms(2) have r: "small rows" "small cols" by (simp_all add: readable_def rows_def cols_def dst)
  from assms(1) obtain sa addr where v: "sram_addr src = Inr sa" "attr_addr attrs base = Inr addr" and n: "next = da + DESC_LEN"
    and line: "line = dma_line F ''DMA_STORE'' da sa addr rows cols (packed_stride cols) (packed_stride cols)"
    by (auto simp: emitDmaStoreOp_def rbind_eq_Inr Let_def rows_def cols_def dst base)
  have "base_addr attrs base = addr" using v(2) by (auto simp: attr_addr_def base_addr_def split: option.splits)
  then have "expected attrs (DmaStoreOp src dst) da = (DMA_STORE, da, bytes_of_DMAParam \<lparr>dma_sramAddr = sa, dma_ddrAddr = addr,
      dma_rows = word_of_int rows, dma_cols = word_of_int cols, dma_srcStride = word_of_int (packed_stride cols),
      dma_dstStride = word_of_int (packed_stride cols)\<rparr>)"
    using v r by (simp add: expected_def ddr_block_def dst sbuf_addr_eq rows_def cols_def packed_stride_eq)
  moreover have "\<forall>i \<in> {rows, cols, packed_stride cols, packed_stride cols}. - (2 ^ 63) \<le> i \<and> i < 2 ^ 63"
    using r small_range by (simp add: packed_stride_eq)
  ultimately show ?thesis using n dma_line_reads [of "''DMA_STORE''" DMA_STORE] by (simp add: line)
qed

lemma sync_reads: "reads_as (easm_line ''SYNC'' 0 []) (SYNC, 0, [])"
  by (rule reads_asI) (simp_all add: plain_def insn_image_def Let_def)

lemma emit_op_reads:
  assumes "emit_op F attrs op da = Inr (line, next)" and "readable op" and "instruction_op op"
  shows "next = (if op = SyncOp then da else da + DESC_LEN) \<and> reads_as line (expected attrs op da)"
  using assms act_reads ewise_reads matmul_reads reduce_reads load_reads store_reads sync_reads
  by (cases op) (auto simp: emit_op_def instruction_op_def emitSyncOp_def expected_def)

end
section \<open>A whole program\<close>

fun program_images :: "attributes \<Rightarrow> operation list \<Rightarrow> u32 \<Rightarrow> (OpCode \<times> u32 \<times> u8 list) list" where
  "program_images attrs [] da = []"
| "program_images attrs (op # ops) da =
     (if \<not> instruction_op op then program_images attrs ops da
      else expected attrs op da # program_images attrs ops (if op = SyncOp then da else da + DESC_LEN))"

definition emit_step :: "formatter \<Rightarrow> attributes \<Rightarrow> operation \<Rightarrow> string \<times> u32 \<Rightarrow> (string \<times> u32) result" where
  "emit_step F attrs op s = (case s of (text, da) \<Rightarrow>
     rbind (emit_op F attrs op da) (\<lambda>(line, next). Inr (text @ line, next)))"

lemma eclipse_to_easm_fold:
  "unroll ops = Some flat \<Longrightarrow> eclipse_to_easm F attrs unroll True ops = fold_result (emit_step F attrs) flat ([], DESC_STARTADDR)"
  by (simp add: eclipse_to_easm_def) (rule fold_result_cong, simp add: emit_step_def split: prod.splits)

context emitter
begin

lemma emit_program:
  assumes "fold_result (emit_step F attrs) ops (t0, da) = Inr (text, next)"
    and "\<forall>op \<in> set ops. instruction_op op \<longrightarrow> readable op"
  shows "\<exists>ls. text = t0 @ concat (map (\<lambda>(name, pad, fs). easm_line name pad fs) ls)
    \<and> (\<forall>(name, pad, fs) \<in> set ls. printable name pad fs)
    \<and> map (\<lambda>(name, pad, fs). insn_image \<lparr>insn_op = name, insn_fields = map_of (rev fs)\<rparr>) ls = map Inr (program_images attrs ops da)"
  using assms
proof (induction ops arbitrary: t0 da)
  case Nil
  then show ?case by (intro exI [of _ "[]"]) simp
next
  case (Cons op ops)
  from Cons.prems(1) obtain u where u: "emit_step F attrs op (t0, da) = Inr u"
    and fu: "fold_result (emit_step F attrs) ops u = Inr (text, next)"
    by (auto simp: rbind_eq_Inr)
  from u obtain line da' where e: "emit_op F attrs op da = Inr (line, da')" and "u = (t0 @ line, da')"
    by (auto simp: emit_step_def rbind_eq_Inr)
  with fu have rest: "fold_result (emit_step F attrs) ops (t0 @ line, da') = Inr (text, next)" by simp
  from Cons.IH [OF rest] Cons.prems(2) obtain ls where ls:
    "text = (t0 @ line) @ concat (map (\<lambda>(name, pad, fs). easm_line name pad fs) ls)"
    "\<forall>(name, pad, fs) \<in> set ls. printable name pad fs"
    "map (\<lambda>(name, pad, fs). insn_image \<lparr>insn_op = name, insn_fields = map_of (rev fs)\<rparr>) ls = map Inr (program_images attrs ops da')"
    by auto
  show ?case
  proof (cases "instruction_op op")
    case False
    then have "line = [] \<and> da' = da" using e by (cases op) (auto simp: instruction_op_def emit_op_def)
    with ls False show ?thesis by (intro exI [of _ ls]) simp
  next
    case True
    then have r: "da' = (if op = SyncOp then da else da + DESC_LEN)" "reads_as line (expected attrs op da)"
      using emit_op_reads [OF e] Cons.prems(2) by auto
    then obtain name pad fs where l: "line = easm_line name pad fs" "printable name pad fs"
      "insn_image \<lparr>insn_op = name, insn_fields = map_of (rev fs)\<rparr> = Inr (expected attrs op da)"
      by (auto simp: reads_as_def)
    with ls r True show ?thesis by (intro exI [of _ "(name, pad, fs) # ls"]) simp
  qed
qed

lemma program_reads_back:
  assumes "eclipse_to_easm F attrs unroll True ops = Inr (text, next)" and "unroll ops = Some flat"
    and "\<forall>op \<in> set flat. instruction_op op \<longrightarrow> readable op"
  shows "map insn_image (parseEasm text) = map Inr (program_images attrs flat DESC_STARTADDR)"
proof -
  from emit_program [OF assms(1) [unfolded eclipse_to_easm_fold [of unroll, OF assms(2)]] assms(3)]
  obtain ls where ls: "text = concat (map (\<lambda>(name, pad, fs). easm_line name pad fs) ls)"
    "\<forall>(name, pad, fs) \<in> set ls. printable name pad fs"
    "map (\<lambda>(name, pad, fs). insn_image \<lparr>insn_op = name, insn_fields = map_of (rev fs)\<rparr>) ls
      = map Inr (program_images attrs flat DESC_STARTADDR)"
    by auto
  show ?thesis unfolding ls(1) parse_printed_lines [OF ls(2)] using ls(3) by (simp add: comp_def case_prod_unfold)
qed

end

text \<open>The documented number formats, and the emitter with them.\<close>

definition c_formatter :: formatter where
  "c_formatter = \<lparr>fmt_hex = hex_text, fmt_dec = dec_text\<rparr>"

interpretation c_emitter: emitter c_formatter
  by unfold_locales
    (simp_all add: c_formatter_def c_format.hex_value c_format.dec_value c_format.hex_plain c_format.dec_plain
      c_format.hex_short c_format.dec_short)

section \<open>The descriptors lie apart\<close>

lemma expected_parts:
  assumes "expected attrs op da = (opc, dp, bs)" and "instruction_op op"
  shows "length bs \<le> 0x20" and "op = SyncOp \<longleftrightarrow> opc = SYNC" and "op \<noteq> SyncOp \<Longrightarrow> dp = da"
proof -
  show "length bs \<le> 0x20"
    using assms by (cases op)
      (auto simp: expected_def instruction_op_def bytes_of_DMAParam_def bytes_of_MatmulParam_def bytes_of_EwiseParam_def
        bytes_of_ActParam_def bytes_of_ReduceParam_def bytes_of_u32_def split: prod.splits)
  show "op = SyncOp \<longleftrightarrow> opc = SYNC"
  proof (cases op)
    case (EwiseOp b l r d)
    then show ?thesis using assms by (cases b) (auto simp: expected_def)
  qed (use assms in \<open>auto simp: expected_def instruction_op_def split: prod.splits\<close>)
  show "op \<noteq> SyncOp \<Longrightarrow> dp = da"
    using assms by (cases op) (auto simp: expected_def instruction_op_def split: prod.splits)
qed

text \<open>The number of descriptors of a program.\<close>

definition descriptors :: "operation list \<Rightarrow> nat" where
  "descriptors ops = length (filter (\<lambda>op. instruction_op op \<and> op \<noteq> SyncOp) ops)"

lemma program_images_layout:
  assumes "unat da + 0x40 * descriptors ops \<le> 0xFFFFFFFF"
  shows "sorted_wrt block_apart (program_images attrs ops da)
    \<and> (\<forall>(opc, dp, bs) \<in> set (program_images attrs ops da). opc = SYNC \<or>
        unat da \<le> unat dp \<and> unat dp + length bs \<le> unat da + 0x40 * descriptors ops)"
  using assms
proof (induction ops arbitrary: da)
  case Nil
  then show ?case by simp
next
  case (Cons op ops)
  show ?case
  proof (cases "instruction_op op")
    case False
    with Cons show ?thesis by (simp add: descriptors_def)
  next
    case True
    obtain opc dp bs where img: "expected attrs op da = (opc, dp, bs)" by (cases "expected attrs op da")
    note parts = expected_parts [OF img True]
    show ?thesis
    proof (cases "op = SyncOp")
      case True
      then have "opc = SYNC" using parts(2) by simp
      then have "block_apart (opc, dp, bs) jmg" for jmg by (cases jmg) (simp add: block_apart_def)
      moreover have "descriptors (op # ops) = descriptors ops" using True by (simp add: descriptors_def)
      moreover have "expected attrs SyncOp da = (SYNC, dp, bs)" using img True \<open>opc = SYNC\<close> by simp
      ultimately show ?thesis using Cons True \<open>opc = SYNC\<close> by (simp add: instruction_op_def)
    next
      case False
      have n: "descriptors (op # ops) = Suc (descriptors ops)" using True False by (simp add: descriptors_def)
      then have nx: "unat (da + DESC_LEN) = unat da + 0x40"
        using Cons.prems by (simp add: DESC_LEN_def unat_add_no_wrap)
      with Cons.IH [of "da + DESC_LEN"] Cons.prems n
      have IH: "sorted_wrt block_apart (program_images attrs ops (da + DESC_LEN))"
        "\<forall>(opc, dp, bs) \<in> set (program_images attrs ops (da + DESC_LEN)). opc = SYNC \<or>
          unat da + 0x40 \<le> unat dp \<and> unat dp + length bs \<le> unat da + 0x40 + 0x40 * descriptors ops"
        by auto
      have "opc \<noteq> SYNC" "dp = da" using parts(2,3) False by auto
      then have "block_apart (opc, dp, bs) jmg" if "jmg \<in> set (program_images attrs ops (da + DESC_LEN))" for jmg
        using IH(2) that parts(1) by (fastforce simp: block_apart_def apart_def)
      with IH True False \<open>dp = da\<close> parts(1) n show ?thesis by (fastforce simp: img)
    qed
  qed
qed

section \<open>Properties\<close>


definition sample_buf :: "nat \<Rightarrow> u32 \<Rightarrow> int list \<Rightarrow> ir_value" where
  "sample_buf i a shape = SramBuf i a (packed_memref shape f16)"

definition sample_ops :: "operation list" where
  "sample_ops = [Define (sample_buf 0 0x10000000 [4, 16]),
     ActOp (sample_buf 0 0x10000000 [4, 16]) (sample_buf 1 0x10000080 [4, 16]) RELU, SyncOp,
     EwiseOp BinDiv (sample_buf 0 0x10000000 [4, 16]) (sample_buf 2 0x10000100 [1, 1]) (sample_buf 1 0x10000080 [4, 16])]"

lemma sample_ops_emit: "\<exists>text next. eclipse_to_easm c_formatter attrs Some True sample_ops = Inr (text, next)"
  by (simp add: eclipse_to_easm_fold [OF refl] sample_ops_def emit_step_def emit_op_def emitActOp_def emitSyncOp_def
      emitEwiseOp_def emitEwise_def sram_addr_def sample_buf_def Let_def)


context emitter
begin

lemma emitted_next:
  "fold_result (emit_step F attrs) ops (t0, da) = Inr (text, next) \<Longrightarrow> \<forall>op \<in> set ops. instruction_op op \<longrightarrow> readable op \<Longrightarrow>
    next = da + of_nat (descriptors ops) * DESC_LEN"
proof (induction ops arbitrary: t0 da)
  case (Cons op ops)
  from Cons.prems(1) obtain u where u: "emit_step F attrs op (t0, da) = Inr u" and fu: "fold_result (emit_step F attrs) ops u = Inr (text, next)"
    by (auto simp: rbind_eq_Inr)
  from u obtain line da' where e: "emit_op F attrs op da = Inr (line, da')" and u': "u = (t0 @ line, da')"
    by (auto simp: emit_step_def rbind_eq_Inr)
  have "da' = (if instruction_op op \<and> op \<noteq> SyncOp then da + DESC_LEN else da)"
  proof (cases "instruction_op op")
    case True
    with emit_op_reads [OF e] Cons.prems(2) show ?thesis by simp
  next
    case False
    with e show ?thesis by (cases op) (auto simp: instruction_op_def emit_op_def)
  qed
  with Cons.IH [OF fu [unfolded u']] Cons.prems(2) show ?case by (auto simp: descriptors_def algebra_simps)
qed (simp add: descriptors_def)

end

text \<open>Descriptor \<open>k\<close> has the \<open>k\<close>-th slot of 64 bytes.\<close>

lemma descriptor_addresses:
  "map (fst \<circ> snd) (filter (\<lambda>img. fst img \<noteq> SYNC) (program_images attrs ops da)) = map (\<lambda>k. da + of_nat k * DESC_LEN) [0..<descriptors ops]"
proof (induction ops arbitrary: da)
  case (Cons op ops)
  show ?case
  proof (cases "instruction_op op")
    case True
    obtain opc dp bs where img: "expected attrs op da = (opc, dp, bs)" by (cases "expected attrs op da")
    note parts = expected_parts [OF img True]
    have "[0..<Suc n] = 0 # map Suc [0..<n]" for n by (simp add: upt_conv_Cons map_Suc_upt del: upt_Suc)
    with Cons.IH [of da] Cons.IH [of "da + DESC_LEN"] True img parts(2,3) show ?thesis
      by (simp add: descriptors_def comp_def algebra_simps del: upt_Suc)
  qed (use Cons in \<open>simp add: descriptors_def\<close>)
qed (simp add: descriptors_def)

lemma expected_bytes: "expected attrs op da = (opc, dp, bs) \<Longrightarrow> instruction_op op \<Longrightarrow> opc = SYNC \<or> bs \<noteq> []"
  by (cases op)
    (auto simp: expected_def instruction_op_def bytes_of_DMAParam_def bytes_of_MatmulParam_def bytes_of_EwiseParam_def
      bytes_of_ActParam_def bytes_of_ReduceParam_def bytes_of_u32_def split: prod.splits)

lemma overlapping_descriptor:
  assumes "1020 < descriptors ops"
  shows "\<exists>img \<in> set (program_images attrs ops DESC_STARTADDR). meets img 0x10000"
proof -
  have "1020 \<in> set [0..<descriptors ops]" using assms by (simp del: upt_Suc)
  then have "DESC_STARTADDR + of_nat 1020 * DESC_LEN \<in> set (map (\<lambda>k. DESC_STARTADDR + of_nat k * DESC_LEN) [0..<descriptors ops])"
    by (simp only: set_map image_eqI)
  then obtain opc dp bs where img: "(opc, dp, bs) \<in> set (program_images attrs ops DESC_STARTADDR)" "opc \<noteq> SYNC"
    and dp: "dp = DESC_STARTADDR + of_nat 1020 * DESC_LEN"
    unfolding descriptor_addresses [of attrs, symmetric] by auto
  have "unat dp = 0x40010000" unfolding dp by (simp add: DESC_STARTADDR_def DESC_LEN_def DDR_ADDR_def)
  moreover have "bs \<noteq> []"
  proof -
    have "\<forall>(opc, dp, bs) \<in> set (program_images attrs ops da). opc = SYNC \<or> bs \<noteq> []" for da
      by (induction ops arbitrary: da) (auto dest: expected_bytes)
    with img show ?thesis by blast
  qed
  ultimately show ?thesis using img by (intro bexI [OF _ img(1)]) (simp add: meets_def inside_def)
qed

text \<open>
  C28. With a printer of numbers that the parser reads back, the text that eclipse-to-easm emits
  has its descriptors, in the order of the operations, at DDR_ADDR + 0x100 and every 64 bytes from
  there, and the address it ends with is the next one. With at most 1020 descriptors they do not
  overlap and lie below the first tensor at DDR_ADDR + 0x10000; with more, which are emitted just
  as well, one of them lies on the first byte of that tensor.
\<close>

theorem emitted_descriptors_apart:
  assumes "number_format (fmt_hex F) (fmt_dec F)"
    and "eclipse_to_easm F attrs unroll True ops = Inr (text, next)" and "unroll ops = Some flat"
    and "\<forall>op \<in> set flat. instruction_op op \<longrightarrow> readable op"
  shows "\<exists>imgs. map insn_image (parseEasm text) = map Inr imgs
    \<and> map (fst \<circ> snd) (filter (\<lambda>img. fst img \<noteq> SYNC) imgs) = map (\<lambda>k. DESC_STARTADDR + of_nat k * DESC_LEN) [0..<descriptors flat]
    \<and> next = DESC_STARTADDR + of_nat (descriptors flat) * DESC_LEN
    \<and> (if descriptors flat \<le> 1020
       then sorted_wrt block_apart imgs
         \<and> (\<forall>(opc, dp, bs) \<in> set imgs. opc = SYNC \<or> 0x40000100 \<le> unat dp \<and> unat dp + length bs \<le> 0x40010000)
       else \<exists>img \<in> set imgs. meets img 0x10000)"
proof (intro exI [of _ "program_images attrs flat DESC_STARTADDR"] conjI)
  show "map insn_image (parseEasm text) = map Inr (program_images attrs flat DESC_STARTADDR)"
    by (rule emitter.program_reads_back [OF emitter.intro [OF assms(1)] assms(2,3,4)])
  show "next = DESC_STARTADDR + of_nat (descriptors flat) * DESC_LEN"
    by (rule emitter.emitted_next [OF emitter.intro [OF assms(1)] assms(2) [unfolded eclipse_to_easm_fold [of unroll, OF assms(3)]] assms(4)])
  have s: "unat DESC_STARTADDR = 0x40000100" by (simp add: DESC_STARTADDR_def DDR_ADDR_def)
  have "sorted_wrt block_apart (program_images attrs flat DESC_STARTADDR)
      \<and> (\<forall>(opc, dp, bs) \<in> set (program_images attrs flat DESC_STARTADDR). opc = SYNC \<or> 0x40000100 \<le> unat dp \<and> unat dp + length bs \<le> 0x40010000)"
    if "descriptors flat \<le> 1020"
  proof -
    have "unat DESC_STARTADDR + 0x40 * descriptors flat \<le> 0x40010000" using that by (simp add: s)
    with program_images_layout [of DESC_STARTADDR flat attrs] show ?thesis by (fastforce simp: s)
  qed
  then show "if descriptors flat \<le> 1020
      then sorted_wrt block_apart (program_images attrs flat DESC_STARTADDR)
        \<and> (\<forall>(opc, dp, bs) \<in> set (program_images attrs flat DESC_STARTADDR). opc = SYNC \<or> 0x40000100 \<le> unat dp \<and> unat dp + length bs \<le> 0x40010000)
      else \<exists>img \<in> set (program_images attrs flat DESC_STARTADDR). meets img 0x10000"
    using overlapping_descriptor [of flat attrs] by simp
qed (rule descriptor_addresses)

text \<open>Two descriptors, and 1021 of them, which are emitted just as well.\<close>

definition one_act :: operation where
  "one_act = ActOp (sample_buf 0 0x10000000 [4, 16]) (sample_buf 1 0x10000080 [4, 16]) RELU"

lemma many_emitted: "\<exists>u. fold_result (emit_step c_formatter attrs) (replicate n one_act) s = Inr u"
proof (induction n arbitrary: s)
  case (Suc n)
  have "\<exists>u. emit_step c_formatter attrs one_act s = Inr u"
    by (cases s) (simp add: emit_step_def emit_op_def one_act_def emitActOp_def sram_addr_def sample_buf_def Let_def)
  with Suc show ?case by auto
qed simp

theorem emitted_descriptors_apart_witness:
  "(\<exists>text next imgs. eclipse_to_easm c_formatter (\<lambda>_. None) Some True sample_ops = Inr (text, next)
      \<and> map insn_image (parseEasm text) = map Inr imgs \<and> sorted_wrt block_apart imgs \<and> next = 0x40000180)
    \<and> (\<exists>text next imgs. eclipse_to_easm c_formatter (\<lambda>_. None) Some True (replicate 1021 one_act) = Inr (text, next)
      \<and> map insn_image (parseEasm text) = map Inr imgs \<and> (\<exists>img \<in> set imgs. meets img 0x10000))"
proof
  have f: "number_format (fmt_hex c_formatter) (fmt_dec c_formatter)" using c_emitter.emitter_axioms by (simp add: emitter_def)
  have d: "descriptors sample_ops = 2" by (simp add: descriptors_def sample_ops_def instruction_op_def)
  have r: "\<forall>op \<in> set sample_ops. instruction_op op \<longrightarrow> readable op" by (simp add: sample_ops_def readable_def)
  obtain easm nxt where e: "eclipse_to_easm c_formatter (\<lambda>_. None) Some True sample_ops = Inr (easm, nxt)" using sample_ops_emit by blast
  from emitted_descriptors_apart [OF f e refl r] e show "\<exists>text next imgs. eclipse_to_easm c_formatter (\<lambda>_. None) Some True sample_ops = Inr (text, next)
      \<and> map insn_image (parseEasm text) = map Inr imgs \<and> sorted_wrt block_apart imgs \<and> next = 0x40000180"
    by (fastforce simp: d DESC_STARTADDR_def DESC_LEN_def DDR_ADDR_def)
  have d: "descriptors (replicate 1021 one_act) = 1021" by (simp add: descriptors_def one_act_def instruction_op_def)
  have r: "\<forall>op \<in> set (replicate 1021 one_act). instruction_op op \<longrightarrow> readable op" by (simp add: one_act_def readable_def)
  obtain easm nxt where e: "eclipse_to_easm c_formatter (\<lambda>_. None) Some True (replicate 1021 one_act) = Inr (easm, nxt)"
    using many_emitted [of "\<lambda>_. None" 1021 "([], DESC_STARTADDR)"] by (auto simp: eclipse_to_easm_fold [OF refl])
  from emitted_descriptors_apart [OF f e refl r] obtain imgs where "map insn_image (parseEasm easm) = map Inr imgs"
    "if descriptors (replicate 1021 one_act) \<le> 1020 then sorted_wrt block_apart imgs
         \<and> (\<forall>(opc, dp, bs) \<in> set imgs. opc = SYNC \<or> 0x40000100 \<le> unat dp \<and> unat dp + length bs \<le> 0x40010000)
       else \<exists>img \<in> set imgs. meets img 0x10000" by blast
  with e show "\<exists>text next imgs. eclipse_to_easm c_formatter (\<lambda>_. None) Some True (replicate 1021 one_act) = Inr (text, next)
      \<and> map insn_image (parseEasm text) = map Inr imgs \<and> (\<exists>img \<in> set imgs. meets img 0x10000)"
    by (auto simp: d)
qed

end
