(* ===== verification/LoweringSem.thy ===== *)
theory LoweringSem
  imports Tensors
begin

text \<open>
  What the lowering promises.  A generic operation computes each output element from the elements
  its indexing maps select, with the body; the eclipse operations move and combine whole matrices.
  The meaning of the float operations is a parameter.
\<close>

section \<open>Meaning of maps and bodies\<close>

primrec eval_affine :: "int list \<Rightarrow> affine_expr \<Rightarrow> int" where
  "eval_affine ds (AffineDim i) = ds ! i"
| "eval_affine ds (AffineSym i) = 0"
| "eval_affine ds (AffineConst c) = c"
| "eval_affine ds (AffineAdd a b) = eval_affine ds a + eval_affine ds b"
| "eval_affine ds (AffineMul a b) = eval_affine ds a * eval_affine ds b"
| "eval_affine ds (AffineMod a b) = eval_affine ds a mod eval_affine ds b"
| "eval_affine ds (AffineFloorDiv a b) = eval_affine ds a div eval_affine ds b"

definition eval_map :: "affine_map \<Rightarrow> int list \<Rightarrow> int list" where
  "eval_map m ds = map (eval_affine ds) (am_results m)"

text \<open>The value of a body; \<open>None\<close> for an operation of another arity.\<close>

fun eval_body :: "(arith_op \<Rightarrow> 'a \<Rightarrow> 'a \<Rightarrow> 'a) \<Rightarrow> (real \<Rightarrow> 'a) \<Rightarrow> (nat \<Rightarrow> 'a) \<Rightarrow> (nat \<Rightarrow> 'a) \<Rightarrow> body_val \<Rightarrow> 'a option" where
  "eval_body f c outer args (BodyArg i) = Some (args i)"
| "eval_body f c outer args (BodyConst x) = Some (c x)"
| "eval_body f c outer args (BodyOuter i) = Some (outer i)"
| "eval_body f c outer args (BodyOp b op [x, y]) =
     (case (eval_body f c outer args x, eval_body f c outer args y) of
        (Some u, Some v) \<Rightarrow> Some (f op u v) | _ \<Rightarrow> None)"
| "eval_body f c outer args (BodyOp b op vs) = None"

lemma binOpOf_Some: "binOpOf op = Some b \<Longrightarrow> op = bin_arith b"
  by (cases op) (auto simp: binOpOf_def)

section \<open>Broadcast\<close>

lemma isIdentityMap_eval: "isIdentityMap m \<Longrightarrow> eval_map m [r, c] = [r, c]"
proof -
  assume m: "isIdentityMap m"
  then obtain e0 e1 where "am_results m = [e0, e1]"
    by (auto simp: isIdentityMap_def length_Suc_conv numeral_2_eq_2 split: if_splits)
  with m show ?thesis by (simp add: isIdentityMap_def eval_map_def split: if_splits)
qed

lemma isConstZero_eval: "isConstZero e \<Longrightarrow> eval_affine ds e = 0"
  by (cases e) (simp_all add: isConstZero_def)

lemma matchModD1_eval: "matchModD1 e = Some k \<Longrightarrow> eval_affine [r, c] e = c mod k"
  by (auto simp: matchModD1_def split: affine_expr.splits if_splits)

text \<open>
  A map that the match accepts reads, at \<open>(r, c)\<close>, the element that the descriptor's read pattern
  reads: row 0 or \<open>r\<close>, column \<open>c\<close> modulo the row length.
\<close>

lemma rhsMapMatches_eval:
  assumes "rhsMapMatches m [s0, s1] [rows, cols]" and "0 \<le> c" and "c < cols"
  shows "eval_map m [r, c] = [if s0 = 1 then 0 else r, c mod s1]"
proof -
  from assms(1) obtain e0 e1 where e: "am_results m = [e0, e1]"
    by (auto simp: rhsMapMatches_def length_Suc_conv numeral_2_eq_2 split: if_splits)
  have row: "eval_affine [r, c] e0 = (if s0 = 1 then 0 else r)"
    using assms(1) isConstZero_eval by (auto simp: rhsMapMatches_def e Let_def split: if_splits)
  have "eval_affine [r, c] e1 = c mod s1"
  proof (cases "s1 = 1")
    case True
    then show ?thesis
      using assms(1) isConstZero_eval by (auto simp: rhsMapMatches_def e Let_def split: if_splits)
  next
    case False
    then have "e1 = AffineDim 1 \<and> s1 = cols \<or> matchModD1 e1 = Some s1"
      using assms(1) by (auto simp: rhsMapMatches_def e Let_def split: if_splits)
    then show ?thesis using assms(2,3) matchModD1_eval by (auto simp: mod_pos_pos_trivial)
  qed
  with row e show ?thesis by (simp add: eval_map_def)
qed

lemma body_compute_eval:
  assumes "body_compute g = Some (bin, a, b)"
  shows "\<exists>y. g_yield g = [y] \<and> 0 \<le> a \<and> 0 \<le> b \<and>
    eval_body f c outer args y = Some (f (bin_arith bin) (args (nat a)) (args (nat b)))"
  using assms binOpOf_Some
  by (auto simp: body_compute_def argIndex_def split: list.splits body_val.splits option.splits if_splits)

lemma broadcast_checksD:
  assumes "broadcast_checks maps t0 t1 ot bin a b = Some big"
  defines "bt \<equiv> if big = 0 then t0 else t1" and "st \<equiv> if big = 0 then t1 else t0"
  shows "big \<le> 1" and "\<exists>rows cols s0 s1. mr_shape ot = [rows, cols] \<and> mr_shape bt = [rows, cols] \<and> mr_shape st = [s0, s1] \<and>
      0 < s1 \<and> s1 dvd cols \<and> (s0 = 1 \<or> s0 = rows) \<and> rhsMapMatches (maps ! (1 - big)) [s0, s1] [rows, cols]"
    and "isIdentityMap (maps ! big)" and "isIdentityMap (maps ! 2)"
    and "a = int big \<and> b = int (1 - big) \<or> a = int (1 - big) \<and> b = int big \<and> (bin = BinAdd \<or> bin = BinMul)"
proof -
  define B where "B = (if mr_shape t0 = mr_shape ot then 0 else 1 :: nat)"
  define S where "S = (if 1 - B = 0 then t0 else t1)"
  have B: "B = big" "length (mr_shape ot) = 2" "mr_shape t0 = mr_shape ot \<or> mr_shape t1 = mr_shape ot"
    "a = int B \<and> b = int (1 - B) \<or> a = int (1 - B) \<and> b = int B \<and> (bin = BinAdd \<or> bin = BinMul)"
    "length (mr_shape S) = 2" "0 < dim S 1" "dim S 1 dvd dim ot 1" "dim S 0 = 1 \<or> dim S 0 = dim ot 0"
    "isIdentityMap (maps ! B)" "isIdentityMap (maps ! 2)" "rhsMapMatches (maps ! (1 - B)) (mr_shape S) (mr_shape ot)"
    using assms(1) unfolding broadcast_checks_def Let_def B_def [symmetric] S_def [symmetric]
    by (fastforce split: if_split_asm)+
  have st: "S = st" unfolding S_def st_def B(1) by (auto simp: B_def simp flip: B(1))
  have bt: "mr_shape bt = mr_shape ot" using B(3) by (auto simp: bt_def B_def simp flip: B(1))
  show "big \<le> 1" by (simp add: B_def flip: B(1))
  from B(2) obtain rows cols where o: "mr_shape ot = [rows, cols]" by (auto simp: length_Suc_conv numeral_2_eq_2)
  from B(5) obtain s0 s1 where s: "mr_shape st = [s0, s1]" by (auto simp: st length_Suc_conv numeral_2_eq_2)
  from B(6,7,8,11) o s show "\<exists>rows cols s0 s1. mr_shape ot = [rows, cols] \<and> mr_shape bt = [rows, cols] \<and> mr_shape st = [s0, s1] \<and>
      0 < s1 \<and> s1 dvd cols \<and> (s0 = 1 \<or> s0 = rows) \<and> rhsMapMatches (maps ! (1 - big)) [s0, s1] [rows, cols]"
    by (simp add: bt st B(1) dim_def)
  show "isIdentityMap (maps ! big)" "isIdentityMap (maps ! 2)"
    "a = int big \<and> b = int (1 - big) \<or> a = int (1 - big) \<and> b = int big \<and> (bin = BinAdd \<or> bin = BinMul)"
    using B(4,9,10) by (simp_all add: B(1))
qed

lemma match_broadcastD:
  assumes "match_broadcast g = Some (big, small, out, bin)"
  obtains v0 v1 a b k where "g_inputs g = [MemOperand v0, MemOperand v1]" and "g_outputs g = [MemOperand out]"
    and "body_compute g = Some (bin, a, b)"
    and "broadcast_checks (g_maps g) (value_type v0) (value_type v1) (value_type out) bin a b = Some k"
    and "(big, small) = (if k = 0 then (v0, v1) else (v1, v0))"
proof -
  from assms obtain i0 i1 o0 where io: "g_inputs g = [i0, i1]" "g_outputs g = [o0]"
    by (auto simp: match_broadcast_def split: list.splits)
  note m = assms [unfolded match_broadcast_def io]
  from m obtain a b bin' where bc: "body_compute g = Some (bin', a, b)"
    by (cases "body_compute g") (auto split: if_splits)
  from m bc have "\<exists>v0 v1 vo. i0 = MemOperand v0 \<and> i1 = MemOperand v1 \<and> o0 = MemOperand vo"
    by (cases i0; cases i1; cases o0) (simp_all add: operand_memref_def split: if_splits)
  then obtain v0 v1 vo where v: "i0 = MemOperand v0" "i1 = MemOperand v1" "o0 = MemOperand vo" by blast
  from m bc v obtain k where k: "broadcast_checks (g_maps g) (value_type v0) (value_type v1) (value_type vo) bin' a b = Some k"
      and r: "(if k = 0 then (v0, v1, vo, bin') else (v1, v0, vo, bin')) = (big, small, out, bin)"
    by (auto simp: operand_memref_def split: option.split_asm if_split_asm)
  from r have "vo = out" "bin' = bin" "(big, small) = (if k = 0 then (v0, v1) else (v1, v0))" by (auto split: if_splits)
  with io v bc k show thesis by (intro that) auto
qed


text \<open>
  What the body of a generic operation computes for one index of its iteration space.  linalg writes
  it to the element that the output map gives for the index.
\<close>

definition generic_value :: "'a chip \<Rightarrow> (nat \<Rightarrow> 'a) \<Rightarrow> 'a tensors \<Rightarrow> generic_op \<Rightarrow> int list \<Rightarrow> 'a option" where
  "generic_value C outer m g js =
     eval_body (ch_arith C) (ch_const C) outer
       (\<lambda>k. case (g_inputs g @ g_outputs g) ! k of
          MemOperand v \<Rightarrow> read m v (eval_map (g_maps g ! k) js) | OtherOperand i \<Rightarrow> outer i)
       (hd (g_yield g))"

lemma emitEwiseSequence_run:
  fixes C :: "'a chip" and m :: "'a tensors" and b :: binop
  assumes fresh: "tags_below n big" "tags_below n small" "tags_below n out" and out: "addressable out"
    and shapes: "mr_shape (value_type out) = [rows, cols]" "mr_shape (value_type big) = [rows, cols]"
      "mr_shape (value_type small) = [s0, s1]" "s0 = 1 \<or> s0 = rows" "0 < s1"
  defines "m' \<equiv> run_ops C (emitEwiseSequence n big small out b) m"
  shows "0 \<le> r \<Longrightarrow> r < rows \<Longrightarrow> 0 \<le> c \<Longrightarrow> c < cols \<Longrightarrow>
      read m' out [r, c] = ch_arith C (bin_arith b) (read m big [r, c]) (read m small [if s0 = 1 then 0 else r, c mod s1])"
    and "tags_below n w \<Longrightarrow> w \<noteq> root_of out \<Longrightarrow> m' w = m w"
proof -
  define B S D where "B = new_alloc (n + 3) (sramTypeOf big)" and "S = new_alloc (n + 4) (sramTypeOf small)"
    and "D = new_alloc (n + 5) (sramTypeOf out)"
  define m1 where "m1 = store m B (read m big)"
  define m2 where "m2 = store m1 S (read m1 small)"
  define m3 where "m3 = store m2 D (\<lambda>js. ch_arith C (bin_arith b) (read m2 B js)
    (read m2 S [if s0 = 1 then 0 else js ! 0, js ! 1 mod s1]))"
  have m': "m' = store m3 out (read m3 D)"
    by (simp add: m'_def emitEwiseSequence_def Let_def m3_def m2_def m1_def B_def S_def D_def shapes)
  have apart: "B \<noteq> S" "B \<noteq> D" "S \<noteq> D" "root_of small \<noteq> B" by (simp_all add: B_def S_def D_def root_of_fresh [OF fresh(2)])
  have self: "root_of B = B" "root_of S = S" "root_of D = D" "addressable B" "addressable S" "addressable D"
    and ty: "mr_shape (value_type B) = [rows, cols]" "mr_shape (value_type S) = [s0, s1]" "mr_shape (value_type D) = [rows, cols]"
    by (simp_all add: B_def S_def D_def shapes)
  {
    assume rc: "0 \<le> r" "r < rows" "0 \<le> c" "c < cols"
    then have "read m' out [r, c] = read m3 D [r, c]"
      unfolding m' by (intro read_store_same [OF out]) (simp add: in_shape_2 [OF shapes(1)])
    also have "\<dots> = ch_arith C (bin_arith b) (read m2 B [r, c]) (read m2 S [if s0 = 1 then 0 else r, c mod s1])"
      unfolding m3_def using rc by (subst read_store_same) (simp_all add: self in_shape_2 [OF ty(3)])
    also have "read m2 B [r, c] = read m big [r, c]"
      unfolding m2_def m1_def using rc apart by (simp add: self read_store_other read_store_same in_shape_2 [OF ty(1)])
    also have "read m2 S [if s0 = 1 then 0 else r, c mod s1] = read m1 small [if s0 = 1 then 0 else r, c mod s1]"
      unfolding m2_def using rc shapes(4,5) by (intro read_store_same) (auto simp: self in_shape_2 [OF ty(2)])
    also have "\<dots> = read m small [if s0 = 1 then 0 else r, c mod s1]"
      unfolding m1_def using apart by (simp add: read_store_other self)
    finally show "read m' out [r, c] = ch_arith C (bin_arith b) (read m big [r, c]) (read m small [if s0 = 1 then 0 else r, c mod s1])" .
  }
  {
    assume w: "tags_below n w" "w \<noteq> root_of out"
    have "w \<noteq> B" "w \<noteq> S" "w \<noteq> D" using fresh_alloc [OF w(1)] by (simp_all add: B_def S_def D_def)
    with w show "m' w = m w" by (simp add: m' m3_def m2_def m1_def store_other self)
  }
qed

text \<open>
  What the pattern relies on when it exchanges the operands: addition and multiplication commute.
\<close>

locale commuting_chip =
  fixes C :: "'a chip"
  assumes add_commute: "ch_arith C AddF x y = ch_arith C AddF y x"
    and mul_commute: "ch_arith C MulF x y = ch_arith C MulF y x"
begin

text \<open>
  The rewrite of a broadcasting generic operation: every element of the result is what the body
  computes from the elements that the maps select, when addition and multiplication commute.
\<close>

lemma EwiseBroadcastLowering_implements:
  assumes lowered: "EwiseBroadcastLowering n g = Some ops"
    and mem: "g_inputs g = [MemOperand v0, MemOperand v1]" "g_outputs g = [MemOperand out]"
    and fresh: "tags_below n v0" "tags_below n v1" "tags_below n out" and out: "addressable out"
  shows "in_shape (value_type out) js \<Longrightarrow> generic_value C outer m g js = Some (read (run_ops C ops m) out js)"
    and "tags_below n w \<Longrightarrow> w \<noteq> root_of out \<Longrightarrow> run_ops C ops m w = m w"
proof -
  from lowered obtain big small out' bin where mb: "match_broadcast g = Some (big, small, out', bin)"
    and ops: "ops = emitEwiseSequence n big small out' bin"
    by (auto simp: EwiseBroadcastLowering_def split: option.splits)
  from mb obtain a b k where bc: "body_compute g = Some (bin, a, b)" and [simp]: "out' = out"
    and k: "broadcast_checks (g_maps g) (value_type v0) (value_type v1) (value_type out) bin a b = Some k"
    and bs: "(big, small) = (if k = 0 then (v0, v1) else (v1, v0))"
    by (elim match_broadcastD) (simp add: mem)
  note D = broadcast_checksD [OF k]
  from D(2) obtain rows cols s0 s1 where sh: "mr_shape (value_type out) = [rows, cols]"
    "mr_shape (value_type big) = [rows, cols]" "mr_shape (value_type small) = [s0, s1]"
    "0 < s1" "s0 = 1 \<or> s0 = rows" and rm: "rhsMapMatches (g_maps g ! (1 - k)) [s0, s1] [rows, cols]"
    using bs by (auto split: if_splits)
  have f: "tags_below n big" "tags_below n small" using fresh bs by (auto split: if_splits)
  note run = emitEwiseSequence_run [OF f fresh(3) out sh(1,2,3,5,4), where C = C and b = bin and m = m, folded ops [simplified]]
  {
    assume "in_shape (value_type out) js"
    then obtain r c where js: "js = [r, c]" and rc: "0 \<le> r" "r < rows" "0 \<le> c" "c < cols"
      by (auto simp: in_shape_2 [OF sh(1)])
    define args where "args = (\<lambda>i. case (g_inputs g @ g_outputs g) ! i of
      MemOperand v \<Rightarrow> read m v (eval_map (g_maps g ! i) js) | OtherOperand i \<Rightarrow> outer i)"
    have k01: "k = 0 \<or> k = 1" using D(1) by linarith
    have ab: "args k = read m big [r, c]" "args (1 - k) = read m small [if s0 = 1 then 0 else r, c mod s1]"
      using k01 bs isIdentityMap_eval [OF D(3)] rhsMapMatches_eval [OF rm rc(3,4)] by (auto simp: args_def mem js)
    from body_compute_eval [OF bc, of "ch_arith C" "ch_const C" outer args] obtain y
      where y: "g_yield g = [y]" and v: "eval_body (ch_arith C) (ch_const C) outer args y
        = Some (ch_arith C (bin_arith bin) (args (nat a)) (args (nat b)))" by blast
    have "ch_arith C (bin_arith bin) (args (nat a)) (args (nat b)) = ch_arith C (bin_arith bin) (args k) (args (1 - k))"
      using D(5) add_commute mul_commute by (elim disjE conjE) simp_all
    moreover have "generic_value C outer m g js = eval_body (ch_arith C) (ch_const C) outer args y"
      by (simp add: generic_value_def y args_def)
    moreover have "read (run_ops C ops m) out js = ch_arith C (bin_arith bin) (args k) (args (1 - k))"
      unfolding ab js by (rule run(1) [OF rc])
    ultimately show "generic_value C outer m g js = Some (read (run_ops C ops m) out js)" using v by simp
  }
  show "tags_below n w \<Longrightarrow> w \<noteq> root_of out \<Longrightarrow> run_ops C ops m w = m w" by (rule run(2))
qed

end


section \<open>Activations\<close>

lemma lowerAct_run:
  fixes C :: "'a chip" and m :: "'a tensors" and kind :: ActKind and n :: nat
  assumes dst: "addressable dst"
    and shapes: "mr_shape (value_type src) = mr_shape (value_type dst)"
  defines "m' \<equiv> run_ops C (lowerAct n src dst kind) m"
  shows "in_shape (value_type dst) js \<Longrightarrow> read m' dst js = ch_act C kind (read m src js)"
    and "tags_below n w \<Longrightarrow> w \<noteq> root_of dst \<Longrightarrow> m' w = m w"
proof -
  define S D where "S = new_alloc (n + 2) (sramTypeOf dst)" and "D = new_alloc (n + 3) (sramTypeOf dst)"
  define m1 where "m1 = store m S (read m src)"
  define m2 where "m2 = store m1 D (\<lambda>js. ch_act C kind (read m1 S js))"
  have m': "m' = store m2 dst (read m2 D)"
    by (simp add: m'_def lowerAct_def Let_def m2_def m1_def S_def D_def)
  have self: "root_of S = S" "root_of D = D" "addressable S" "addressable D"
    and ty: "in_shape (value_type S) js = in_shape (value_type dst) js" "in_shape (value_type D) js = in_shape (value_type dst) js" for js
    by (simp_all add: S_def D_def in_shape_def)
  show "in_shape (value_type dst) js \<Longrightarrow> read m' dst js = ch_act C kind (read m src js)"
    by (simp add: m' m2_def m1_def read_store_same dst self ty)
  assume w: "tags_below n w" "w \<noteq> root_of dst"
  then have "w \<noteq> S" "w \<noteq> D" using fresh_alloc [OF w(1)] by (simp_all add: S_def D_def)
  with w show "m' w = m w" by (simp add: m' m2_def m1_def store_other self)
qed

lemma matchActBody_RELU:
  assumes "matchActBody g = Some kind"
  shows "kind = RELU \<and> (\<exists>inside op. (op = MaximumF \<or> op = MaxNumF) \<and>
    (hd (g_yield g) = BodyOp inside op [BodyArg 0, BodyConst 0] \<or> hd (g_yield g) = BodyOp inside op [BodyConst 0, BodyArg 0]))"
  using assms by (auto simp: matchActBody_def is_zero_const_def split: list.splits body_val.splits if_splits)

section \<open>Reductions\<close>

lemma lowerReduce_run:
  fixes C :: "'a chip" and m :: "'a tensors" and kind :: ReduceKind and n :: nat
  assumes dst: "addressable dst"
    and shapes: "mr_shape (value_type src) = [rows, cols]" "mr_shape (value_type dst) = [rows, 1]"
  defines "m' \<equiv> run_ops C (lowerReduce n src dst kind) m"
  shows "0 \<le> r \<Longrightarrow> r < rows \<Longrightarrow> read m' dst [r, 0] = ch_reduce C kind (row_values m src r)"
    and "tags_below n w \<Longrightarrow> w \<noteq> root_of dst \<Longrightarrow> m' w = m w"
proof -
  define S D where "S = new_alloc (n + 2) (sramTypeOf src)" and "D = new_alloc (n + 3) (sramTypeOf dst)"
  define m1 where "m1 = store m S (read m src)"
  define m2 where "m2 = store m1 D (\<lambda>js. ch_reduce C kind (row_values m1 S (js ! 0)))"
  have m': "m' = store m2 dst (read m2 D)"
    by (simp add: m'_def lowerReduce_def Let_def m2_def m1_def S_def D_def)
  have self: "root_of S = S" "root_of D = D" "addressable S" "addressable D"
    and ty: "mr_shape (value_type S) = [rows, cols]" "mr_shape (value_type D) = [rows, 1]"
    by (simp_all add: S_def D_def shapes)
  {
    assume r: "0 \<le> r" "r < rows"
    have "row_values m1 S r = row_values m src r"
      using r by (simp add: row_values_def ty shapes m1_def read_store_same self in_shape_2 [OF ty(1)])
    then show "read m' dst [r, 0] = ch_reduce C kind (row_values m src r)"
      using r by (simp add: m' m2_def read_store_same dst self in_shape_2 [OF ty(2)] in_shape_2 [OF shapes(2)])
  }
  assume w: "tags_below n w" "w \<noteq> root_of dst"
  then have "w \<noteq> S" "w \<noteq> D" using fresh_alloc [OF w(1)] by (simp_all add: S_def D_def)
  with w show "m' w = m w" by (simp add: m' m2_def m1_def store_other self)
qed

text \<open>One step of a reduction: the accumulator and the element.\<close>

primrec combine :: "'a chip \<Rightarrow> ReduceKind \<Rightarrow> 'a \<Rightarrow> 'a \<Rightarrow> 'a" where
  "combine C REDUCE_SUM acc x = ch_arith C AddF acc x"
| "combine C REDUCE_SQUARE_SUM acc x = ch_arith C AddF acc (ch_arith C MulF x x)"
| "combine C REDUCE_MAX acc x = ch_arith C MaximumF acc x"
| "combine C REDUCE_ARGMAX acc x = acc"

lemma matchReduceBodyD:
  assumes "matchReduceBody y (BodyArg 0) (BodyArg 1) = Some kind"
  shows "\<exists>inside inside' op. kind = REDUCE_SUM \<and> y \<in> {BodyOp inside AddF [BodyArg 0, BodyArg 1], BodyOp inside AddF [BodyArg 1, BodyArg 0]}
    \<or> kind = REDUCE_SQUARE_SUM \<and> y \<in> {BodyOp inside AddF [BodyOp inside' MulF [BodyArg 0, BodyArg 0], BodyArg 1],
         BodyOp inside AddF [BodyArg 1, BodyOp inside' MulF [BodyArg 0, BodyArg 0]]}
    \<or> kind = REDUCE_MAX \<and> (op = MaximumF \<or> op = MaxNumF) \<and> y \<in> {BodyOp inside op [BodyArg 0, BodyArg 1], BodyOp inside op [BodyArg 1, BodyArg 0]}"
  using assms by (auto simp: matchReduceBody_def Let_def split: body_val.splits list.splits if_splits)


section \<open>Matrix product\<close>

lemma subview2_read [simp]:
  "root_of (subview2 k v offs sizes) = root_of v"
  "mr_shape (value_type (subview2 k v offs sizes)) = sizes"
  "read m (subview2 k v [a, b] sizes) [i, j] = read m v [a + i, b + j]"
  by (simp_all add: subview2_def Let_def read_def)

text \<open>The value of a cell after tiles 0 to \<open>t\<close> of 16 pairs each.\<close>

primrec tiled_dot :: "'a chip \<Rightarrow> (int \<Rightarrow> 'a \<times> 'a) \<Rightarrow> nat \<Rightarrow> 'a" where
  "tiled_dot C p 0 = ch_dot C None (map p [0..15])"
| "tiled_dot C p (Suc t) = ch_dot C (Some (tiled_dot C p t)) (map (\<lambda>k. p (16 * int (Suc t) + k)) [0..15])"

definition cell_pairs :: "'a tensors \<Rightarrow> ir_value \<Rightarrow> ir_value \<Rightarrow> int \<Rightarrow> int \<Rightarrow> int \<Rightarrow> 'a \<times> 'a" where
  "cell_pairs m lhs rhs i j k = (read m lhs [i, k], read m rhs [k, j])"

lemma matmul_tile_run:
  fixes C :: "'a chip" and m :: "'a tensors" and rows cols ik :: int
    and a k :: nat and e e' e'' :: elem_type and lhs rhs :: ir_value and acc :: bool
  defines "L \<equiv> new_alloc a (packed_memref [rows, 16] e)" and "R \<equiv> new_alloc (Suc a) (packed_memref [16, cols] e')"
    and "D \<equiv> new_alloc (Suc (Suc a)) (packed_memref [rows, cols] e'')"
  assumes roots: "root_of lhs \<noteq> L" "root_of lhs \<noteq> R" "root_of rhs \<noteq> L" "root_of rhs \<noteq> R"
  defines "m' \<equiv> run_ops C (matmul_tile k rows cols lhs rhs L R D acc ik) m"
  shows "0 \<le> i \<Longrightarrow> i < rows \<Longrightarrow> 0 \<le> j \<Longrightarrow> j < cols \<Longrightarrow>
      read m' D [i, j] = ch_dot C (if acc then Some (read m D [i, j]) else None) (map (\<lambda>k. cell_pairs m lhs rhs i j (ik + k)) [0..15])"
    and "w \<noteq> L \<Longrightarrow> w \<noteq> R \<Longrightarrow> w \<noteq> D \<Longrightarrow> m' w = m w"
proof -
  define m1 where "m1 = store m L (read m (subview2 k lhs [0, ik] [rows, 16]))"
  define m2 where "m2 = store m1 R (read m1 (subview2 (Suc k) rhs [ik, 0] [16, cols]))"
  define c where "c = (\<lambda>js. ch_dot C (if acc then Some (read m2 D js) else None) (dot_pairs m2 L R False False js))"
  have m': "m' = store m2 D c"
    unfolding c_def m2_def m1_def by (simp add: m'_def matmul_tile_def Let_def tileK_def)
  have apart: "L \<noteq> R" "L \<noteq> D" "R \<noteq> D" by (simp_all add: L_def R_def D_def)
  have self: "root_of L = L" "root_of R = R" "root_of D = D" "addressable L" "addressable R" "addressable D"
    and ty: "mr_shape (value_type L) = [rows, 16]" "mr_shape (value_type R) = [16, cols]" "mr_shape (value_type D) = [rows, cols]"
    by (simp_all add: L_def R_def D_def packed_memref_def)
  {
    assume ij: "0 \<le> i" "i < rows" "0 \<le> j" "j < cols"
    have "(read m2 L [i, k'], read m2 R [k', j]) = cell_pairs m lhs rhs i j (ik + k')" if "k' \<in> set [0..15]" for k'
      using that ij roots apart
      by (simp add: cell_pairs_def m2_def m1_def read_store_other read_store_same self in_shape_2 [OF ty(1)] in_shape_2 [OF ty(2)])
    then have "dot_pairs m2 L R False False [i, j] = map (\<lambda>k. cell_pairs m lhs rhs i j (ik + k)) [0..15]"
      unfolding dot_pairs_def by (simp add: ty)
    moreover have "read m2 D [i, j] = read m D [i, j]"
      using apart by (simp add: m2_def m1_def read_store_other self)
    ultimately show "read m' D [i, j] = ch_dot C (if acc then Some (read m D [i, j]) else None)
        (map (\<lambda>k. cell_pairs m lhs rhs i j (ik + k)) [0..15])"
      using ij by (simp add: m' c_def read_store_same self in_shape_2 [OF ty(3)])
  }
  show "w \<noteq> L \<Longrightarrow> w \<noteq> R \<Longrightarrow> w \<noteq> D \<Longrightarrow> m' w = m w"
    by (simp add: m' m2_def m1_def store_other self)
qed

lemma matmul_loop_run:
  fixes C :: "'a chip" and m :: "'a tensors" and rows cols :: int
    and a :: nat and e e' e'' :: elem_type and lhs rhs :: ir_value and tag :: "int \<Rightarrow> nat"
  defines "L \<equiv> new_alloc a (packed_memref [rows, 16] e)" and "R \<equiv> new_alloc (Suc a) (packed_memref [16, cols] e')"
    and "D \<equiv> new_alloc (Suc (Suc a)) (packed_memref [rows, cols] e'')"
  assumes apart: "root_of lhs \<noteq> L" "root_of lhs \<noteq> R" "root_of lhs \<noteq> D" "root_of rhs \<noteq> L" "root_of rhs \<noteq> R" "root_of rhs \<noteq> D"
    and first: "\<And>i j. 0 \<le> i \<Longrightarrow> i < rows \<Longrightarrow> 0 \<le> j \<Longrightarrow> j < cols \<Longrightarrow>
        read m D [i, j] = tiled_dot C (cell_pairs m0 lhs rhs i j) 0"
    and same: "\<And>w. w \<noteq> L \<Longrightarrow> w \<noteq> R \<Longrightarrow> w \<noteq> D \<Longrightarrow> m w = m0 w"
  defines "loop \<equiv> \<lambda>t. fold (\<lambda>iv. run_ops C (matmul_tile (tag iv) rows cols lhs rhs L R D True (iv * 16))) [1..int t] m"
  shows "(\<forall>i j. 0 \<le> i \<longrightarrow> i < rows \<longrightarrow> 0 \<le> j \<longrightarrow> j < cols \<longrightarrow>
        read (loop t) D [i, j] = tiled_dot C (cell_pairs m0 lhs rhs i j) t) \<and>
      (\<forall>w. w \<noteq> L \<longrightarrow> w \<noteq> R \<longrightarrow> w \<noteq> D \<longrightarrow> loop t w = m0 w)"
proof (induction t)
  case 0
  show ?case using first same by (simp add: loop_def)
next
  case (Suc t)
  have loop: "loop (Suc t) = run_ops C (matmul_tile (tag (int (Suc t))) rows cols lhs rhs L R D True (int (Suc t) * 16)) (loop t)"
    unfolding loop_def by (simp add: upto_rec2)
  note tile = matmul_tile_run [where lhs = lhs and rhs = rhs and a = a and e = e and e' = e' and e'' = e'' and C = C
      and rows = rows and cols = cols and k = "tag (int (Suc t))" and acc = True and ik = "int (Suc t) * 16" and m = "loop t",
      folded L_def R_def D_def, OF apart(1,2,4,5), folded loop]
  have "cell_pairs (loop t) lhs rhs i j = cell_pairs m0 lhs rhs i j" for i j
    using Suc.IH apart by (simp add: cell_pairs_def read_def fun_eq_iff)
  with Suc.IH tile show ?case by (simp add: mult.commute del: of_nat_Suc)
qed


text \<open>
  The tiled loop: every cell of the destination is the product of its row and its column, in tiles
  of 16 from the left; the old contents of the destination take no part.
\<close>

lemma MatmulLowering_run:
  fixes C :: "'a chip"
  assumes lowered: "MatmulLowering n lhs rhs dst = Inr ops"
    and fresh: "tags_below n lhs" "tags_below n rhs" "tags_below n dst" and dst: "addressable dst"
    and shapes: "mr_shape (value_type lhs) = [rows, K]" "mr_shape (value_type rhs) = [K, cols]"
      "mr_shape (value_type dst) = [rows, cols]" and K: "16 \<le> K"
  shows "0 \<le> i \<Longrightarrow> i < rows \<Longrightarrow> 0 \<le> j \<Longrightarrow> j < cols \<Longrightarrow>
      read (run_ops C ops m) dst [i, j] = tiled_dot C (cell_pairs m lhs rhs i j) (nat (K div 16) - 1)"
    and "tags_below n w \<Longrightarrow> w \<noteq> root_of dst \<Longrightarrow> run_ops C ops m w = m w"
proof -
  define L R D where "L = new_alloc (n + 3) (packed_memref [rows, 16] (mr_elem (value_type lhs)))"
    and "R = new_alloc (Suc (n + 3)) (packed_memref [16, cols] (mr_elem (value_type rhs)))"
    and "D = new_alloc (Suc (Suc (n + 3))) (packed_memref [rows, cols] (mr_elem (value_type dst)))"
  define lv rv where "lv = toDDR n lhs" and "rv = toDDR (n + 1) rhs"
  define t where "t = nat (K div 16) - 1"
  define m1 where "m1 = run_ops C (matmul_tile (n + 6) rows cols lv rv L R D False 0) m"
  define loop where "loop = fold (\<lambda>iv. run_ops C (matmul_tile (n + 8 + 2 * nat iv) rows cols lv rv L R D True (iv * 16))) [1..int t] m1"
  have div: "16 dvd K" using lowered by (auto simp: MatmulLowering_def Let_def shapes tileK_def split: if_splits)
  have tile: "K div 16 = int t + 1" using K by (simp add: t_def)
  have run: "run_ops C ops m = store loop dst (read loop D)"
    using lowered div
    by (cases "t = 0") (auto simp: MatmulLowering_def Let_def shapes tileK_def tile step_for_upto run_ops_def [symmetric]
        loop_def m1_def L_def R_def D_def lv_def rv_def numeral_eq_Suc simp del: step_op.simps(10))
  have roots: "root_of lv = root_of lhs" "root_of rv = root_of rhs"
    and apart: "root_of lv \<noteq> L" "root_of lv \<noteq> R" "root_of lv \<noteq> D" "root_of rv \<noteq> L" "root_of rv \<noteq> R" "root_of rv \<noteq> D"
    by (simp_all add: lv_def rv_def L_def R_def D_def root_of_fresh [OF fresh(1)] root_of_fresh [OF fresh(2)])
  have cells: "cell_pairs m lv rv i j = cell_pairs m lhs rhs i j" for i j
    by (simp add: cell_pairs_def lv_def rv_def fun_eq_iff)
  note first = matmul_tile_run [where lhs = lv and rhs = rv and a = "n + 3" and C = C and rows = rows and cols = cols
      and k = "n + 6" and acc = False and ik = 0 and m = m and e = "mr_elem (value_type lhs)"
      and e' = "mr_elem (value_type rhs)" and e'' = "mr_elem (value_type dst)", folded L_def R_def D_def, OF apart(1,2,4,5), folded m1_def]
  have all: "(\<forall>i j. 0 \<le> i \<longrightarrow> i < rows \<longrightarrow> 0 \<le> j \<longrightarrow> j < cols \<longrightarrow>
        read loop D [i, j] = tiled_dot C (cell_pairs m lv rv i j) t) \<and> (\<forall>w. w \<noteq> L \<longrightarrow> w \<noteq> R \<longrightarrow> w \<noteq> D \<longrightarrow> loop w = m w)"
    unfolding loop_def L_def R_def D_def
    by (rule matmul_loop_run) (use apart first in \<open>simp_all add: L_def R_def D_def\<close>)
  {
    assume ij: "0 \<le> i" "i < rows" "0 \<le> j" "j < cols"
    then show "read (run_ops C ops m) dst [i, j] = tiled_dot C (cell_pairs m lhs rhs i j) (nat (K div 16) - 1)"
      using all by (simp add: run read_store_same dst in_shape_2 [OF shapes(3)] cells t_def)
  }
  assume w: "tags_below n w" "w \<noteq> root_of dst"
  then have "w \<noteq> L" "w \<noteq> R" "w \<noteq> D" using fresh_alloc [OF w(1)] by (simp_all add: L_def R_def D_def)
  with w all show "run_ops C ops m w = m w" by (simp add: run store_other)
qed

end
