(* ===== verification/Chip.thy ===== *)
theory Chip
  imports LoweringSem ExecMatmul ExecEwise ExecAct ExecReduce
begin

text \<open>
  The chip of the instruction-level model, as a parameter of the tensor semantics: fp16 elements,
  operations in \<open>float\<close>, one rounding per result.  All NaNs are one NaN here; which NaN an operation
  returns is the platform's choice.  With it, the lowering patterns are correct on fp16 data.
\<close>

section \<open>The fp16 chip\<close>

definition canon16 :: "u16 \<Rightarrow> u16" where
  "canon16 h = (if nan16 h then 0x7E00 else h)"

definition round16 :: "u32 \<Rightarrow> u16" where
  "round16 x = canon16 (fp32ToFp16 x)"

text \<open>What is not the chip's: constants, operations of other names, the format of an index.\<close>

record fp16_env =
  fe_const :: "real \<Rightarrow> u16"
  fe_other :: "nat \<Rightarrow> u16 \<Rightarrow> u16 \<Rightarrow> u16"
  fe_index :: "u32 \<Rightarrow> u16"

definition fp16_arith :: "platform \<Rightarrow> fp16_env \<Rightarrow> arith_op \<Rightarrow> u16 \<Rightarrow> u16 \<Rightarrow> u16" where
  "fp16_arith P E op a b =
     (let x = fp16ToFp32 a; y = fp16ToFp32 b
      in case op of
           AddF \<Rightarrow> round16 (ewise_fun P ELEMENTWISE_ADD x y)
         | SubF \<Rightarrow> round16 (ewise_fun P ELEMENTWISE_SUB x y)
         | MulF \<Rightarrow> round16 (ewise_fun P ELEMENTWISE_MUL x y)
         | DivF \<Rightarrow> round16 (ewise_fun P ELEMENTWISE_DIV x y)
         | MaximumF \<Rightarrow> round16 (reduceMax x y)
         | MaxNumF \<Rightarrow> if nan16 a then canon16 b else if nan16 b then a else round16 (reduceMax x y)
         | OtherArith i \<Rightarrow> fe_other E i a b)"

definition fp16_dot :: "platform \<Rightarrow> u16 option \<Rightarrow> (u16 \<times> u16) list \<Rightarrow> u16" where
  "fp16_dot P old ps =
     (let acc = dot P (\<lambda>k. fst (ps ! k)) (\<lambda>k. snd (ps ! k)) (length ps)
      in round16 (case old of None \<Rightarrow> acc | Some c \<Rightarrow> f32_add P acc (fp16ToFp32 c)))"

definition fp16_reduce :: "platform \<Rightarrow> ReduceKind \<Rightarrow> u16 list \<Rightarrow> u16" where
  "fp16_reduce P kind xs =
     (let v = (\<lambda>j. fp16ToFp32 (xs ! j)); n = length xs
      in round16 (case kind of
           REDUCE_SUM \<Rightarrow> sum_upto P False v n
         | REDUCE_SQUARE_SUM \<Rightarrow> sum_upto P True v n
         | _ \<Rightarrow> max_upto v n))"

definition fp16_chip :: "platform \<Rightarrow> fp16_env \<Rightarrow> u16 chip" where
  "fp16_chip P E = \<lparr>ch_arith = fp16_arith P E, ch_const = fe_const E,
     ch_act = (\<lambda>kind h. round16 (act_fun P kind (fp16ToFp32 h))),
     ch_reduce = fp16_reduce P,
     ch_argmax = (\<lambda>xs. fe_index E (vi_index (argmax_upto (\<lambda>j. fp16ToFp32 (xs ! j)) (length xs)))),
     ch_dot = fp16_dot P\<rparr>"

text \<open>These are the values that the execution functions store.\<close>

lemma fp16_chip_matmul:
  "round16 (matmul_val P sim d i j) =
     ch_dot (fp16_chip P E) (if mm_accumulate d \<noteq> 0 then Some (dst_elem sim d i j) else None)
       (map (\<lambda>k. (lhs_elem sim d i k, rhs_elem sim d k j)) [0..<unat (mm_K d)])"
proof -
  have "dot P (\<lambda>k. fst (map (\<lambda>k. (f k, g k)) [0..<K] ! k)) (\<lambda>k. snd (map (\<lambda>k. (f k, g k)) [0..<K] ! k)) K = dot P f g K"
    for f g K by (rule dot_cong) simp
  then show ?thesis by (simp add: fp16_chip_def fp16_dot_def matmul_val_def Let_def)
qed

lemma fp16_chip_ewise:
  "round16 (ewise_val P (binop_code b) sim d r c) =
     ch_arith (fp16_chip P E) (bin_arith b) (ewise_lhs sim d r c) (ewise_rhs sim d r c)"
  by (cases b) (simp_all add: fp16_chip_def fp16_arith_def ewise_val_def)

section \<open>The laws of its arithmetic\<close>

lemma exact_add_commute: "exact_add a b = exact_add b a"
  by (cases a; cases b) (auto simp: Let_def add.commute)

lemma exact_mul_commute: "exact_mul u a b = exact_mul u b a"
  by (cases a; cases b) (auto simp: mult.commute)

lemma round16_nan: "nan32 x \<Longrightarrow> round16 x = 0x7E00"
  by (simp add: round16_def canon16_def narrow_nan16)

lemma round16_encode: "round16 (encode32 q r) = round16 (encode32 q' r)"
proof (cases r)
  case XNaN
  then show ?thesis using round16_nan [OF encode32_nan [of q]] round16_nan [OF encode32_nan [of q']] by simp
qed (simp_all add: encode32_def)

lemma unat_parts32: "unat a = rest32 a + (if sgn32 a then 2 ^ 31 else 0)"
  using unat_u32_less [of a] by (auto simp: rest32_def sgn32_def mod_if)

lemma zero_key_inject:
  assumes "f32_key a = 0" and "f32_key b = 0" and "sgn32 a = sgn32 b"
  shows "a = b"
proof -
  from assms have "rest32 a = 0" "rest32 b = 0" by (auto simp: f32_key_def signed_def split: if_splits)
  with assms(3) have "unat a = unat b" by (simp add: unat_parts32)
  then show ?thesis by (simp add: word_unat_eq_iff)
qed

lemma f32_key_inject:
  assumes "f32_key a = f32_key b" and "f32_key a \<noteq> 0"
  shows "a = b"
proof -
  have s: "sgn32 a = sgn32 b" "rest32 a = rest32 b"
    using assms by (auto simp: f32_key_def signed_def split: if_splits)
  then have "unat a = unat b" by (simp add: unat_parts32)
  then show ?thesis by (simp add: word_unat_eq_iff)
qed

lemma reduceMax_commute: "reduceMax a b = reduceMax b a"
proof (cases "nan32 a \<or> nan32 b \<or> f32_key a \<noteq> f32_key b")
  case True
  then show ?thesis by (auto simp: reduceMax_def f32_gt_def f32_eq_def)
next
  case False
  have z: "\<not> nan32 0" "f32_key 0 = 0" by (simp_all add: nan32_def rest32_def f32_key_def signed_def)
  from False consider "a = b" | "f32_key a = 0" "f32_key b = 0" using f32_key_inject by auto
  then show ?thesis
  proof cases
    case 2
    then have "sgn32 a = sgn32 b \<Longrightarrow> a = b" by (rule zero_key_inject)
    with 2 False show ?thesis by (auto simp: reduceMax_def f32_gt_def f32_eq_def z)
  qed simp
qed

lemma fp16_commute:
  "ch_arith (fp16_chip P E) AddF a b = ch_arith (fp16_chip P E) AddF b a"
  "ch_arith (fp16_chip P E) MulF a b = ch_arith (fp16_chip P E) MulF b a"
  "ch_arith (fp16_chip P E) MaximumF a b = ch_arith (fp16_chip P E) MaximumF b a"
  by (simp_all add: fp16_chip_def fp16_arith_def ewise_fun_def f32_add_def f32_mul_def Let_def
      exact_add_commute [of "decode32 (fp16ToFp32 a)"] exact_mul_commute [of _ "decode32 (fp16ToFp32 a)"] round16_encode
      reduceMax_commute [of "fp16ToFp32 a"])

interpretation fp16: commuting_chip "fp16_chip P E" for P E
  by unfold_locales (rule fp16_commute)+


section \<open>Integer matrices\<close>

definition holds_int :: "u16 \<Rightarrow> int \<Rightarrow> bool" where
  "holds_int h z \<longleftrightarrow> finite16 h \<and> val16 h = of_int z"

lemma round16_int: "fixed32 149 x z \<Longrightarrow> \<bar>z\<bar> < 2048 \<Longrightarrow> holds_int (round16 x) z"
  using narrow_int [of x z] by (auto simp: holds_int_def round16_def canon16_def nan16_def finite16_def)

lemma fp16_dot_int:
  assumes "\<And>k. k < n \<Longrightarrow> holds_int (fst (p k)) (x k) \<and> holds_int (snd (p k)) (y k)"
    and "(\<Sum>k<n. \<bar>x k * y k\<bar>) < 2048"
    and "\<And>c. old = Some c \<Longrightarrow> holds_int c z" and "old = None \<Longrightarrow> z = 0"
    and "\<bar>(\<Sum>k<n. x k * y k) + z\<bar> < 2048"
  shows "holds_int (fp16_dot P old (map p [0..<n])) ((\<Sum>k<n. x k * y k) + z)"
proof -
  have "dot P (\<lambda>k. fst (map p [0..<n] ! k)) (\<lambda>k. snd (map p [0..<n] ! k)) n = dot P (\<lambda>k. fst (p k)) (\<lambda>k. snd (p k)) n"
    by (rule dot_cong) simp
  moreover have d: "fixed32 149 (dot P (\<lambda>k. fst (p k)) (\<lambda>k. snd (p k)) n) (\<Sum>k<n. x k * y k)"
    by (rule dot_int) (use assms(1,2) in \<open>auto simp: holds_int_def\<close>)
  moreover have "fixed32 149 (f32_add P (dot P (\<lambda>k. fst (p k)) (\<lambda>k. snd (p k)) n) (fp16ToFp32 c)) ((\<Sum>k<n. x k * y k) + z)"
    if "old = Some c" for c
    by (rule fixed32_add [OF d widen_int]) (use assms(3) [OF that] assms(5) in \<open>simp_all add: holds_int_def\<close>)
  ultimately show ?thesis
    using assms(4,5) by (cases old) (auto simp: fp16_dot_def Let_def intro!: round16_int)
qed

lemma upto_map: "map f [0..int n - 1] = map (\<lambda>k. f (int k)) [0..<n]"
proof -
  have "[0..int n - 1] = map int [0..<n]"
    by (induction n) (simp_all add: upto_rec2)
  then show ?thesis by simp
qed

lemma sum_lessThan_add: "(\<Sum>k<n + m. f k) = (\<Sum>k<n. f k) + (\<Sum>k<m. f (n + k))" for f :: "nat \<Rightarrow> int"
  by (induction m) simp_all

text \<open>A chip whose dot products are exact on small integers; the tiles of a product keep the property.\<close>

locale integer_chip =
  fixes C :: "u16 chip"
  assumes dot_exact: "(\<And>k. k < n \<Longrightarrow> holds_int (fst (p k)) (x k) \<and> holds_int (snd (p k)) (y k))
      \<Longrightarrow> (\<Sum>k<n. \<bar>x k * y k\<bar>) < 2048
      \<Longrightarrow> (\<And>c. old = Some c \<Longrightarrow> holds_int c z) \<Longrightarrow> (old = None \<Longrightarrow> z = 0)
      \<Longrightarrow> \<bar>(\<Sum>k<n. x k * y k) + z\<bar> < 2048
      \<Longrightarrow> holds_int (ch_dot C old (map p [0..<n])) ((\<Sum>k<n. x k * y k) + z)"
begin

lemma tiled_dot_int:
  assumes "\<And>k. k < 16 * Suc t \<Longrightarrow> holds_int (fst (p (int k))) (x k) \<and> holds_int (snd (p (int k))) (y k)"
    and "(\<Sum>k<16 * Suc t. \<bar>x k * y k\<bar>) < 2048"
  shows "holds_int (tiled_dot C p t) (\<Sum>k<16 * Suc t. x k * y k)"
  using assms
proof (induction t)
  case 0
  have b: "(\<Sum>k<16. \<bar>x k * y k\<bar>) < 2048" using 0(2) by simp
  then have "\<bar>\<Sum>k<16. x k * y k\<bar> < 2048" using sum_abs_bound [of "\<lambda>k. x k * y k" 16] by linarith
  then have "holds_int (ch_dot C None (map (\<lambda>k. p (int k)) [0..<16])) ((\<Sum>k<16. x k * y k) + 0)"
    by (intro dot_exact) (use 0 in auto)
  then show ?case using upto_map [of p 16] by simp
next
  case (Suc t)
  define N where "N = 16 * Suc t"
  have split: "(\<Sum>k<16 * Suc (Suc t). f k) = (\<Sum>k<N. f k) + (\<Sum>k<16. f (N + k))" for f :: "nat \<Rightarrow> int"
    using sum_lessThan_add [of f N 16] by (simp add: N_def)
  have nn: "0 \<le> (\<Sum>k<N. \<bar>x k * y k\<bar>)" "0 \<le> (\<Sum>k<16. \<bar>x (N + k) * y (N + k)\<bar>)" by (simp_all add: sum_nonneg)
  have b: "(\<Sum>k<N. \<bar>x k * y k\<bar>) + (\<Sum>k<16. \<bar>x (N + k) * y (N + k)\<bar>) < 2048"
    using Suc.prems(2) by (simp only: split)
  have b1: "(\<Sum>k<16 * Suc t. \<bar>x k * y k\<bar>) < 2048" and b2: "(\<Sum>k<16. \<bar>x (N + k) * y (N + k)\<bar>) < 2048"
    using b nn unfolding N_def by linarith+
  have pk: "holds_int (fst (p (int (N + k)))) (x (N + k)) \<and> holds_int (snd (p (int (N + k)))) (y (N + k))" if "k < 16" for k
    by (rule Suc.prems(1)) (use that in \<open>simp add: N_def\<close>)
  have ih: "holds_int (tiled_dot C p t) (\<Sum>k<N. x k * y k)"
    unfolding N_def by (rule Suc.IH [OF _ b1]) (rule Suc.prems(1), simp)
  have "\<bar>(\<Sum>k<16. x (N + k) * y (N + k)) + (\<Sum>k<N. x k * y k)\<bar> < 2048"
    using b sum_abs_bound [of "\<lambda>k. x k * y k" N] sum_abs_bound [of "\<lambda>k. x (N + k) * y (N + k)" 16] by linarith
  then have "holds_int (ch_dot C (Some (tiled_dot C p t)) (map (\<lambda>k. p (int (N + k))) [0..<16]))
      ((\<Sum>k<16. x (N + k) * y (N + k)) + (\<Sum>k<N. x k * y k))"
    by (intro dot_exact [OF _ b2]) (use ih pk in auto)
  moreover have "int (N + k) = 16 * int (Suc t) + int k" for k by (simp add: N_def)
  ultimately show ?case
    unfolding split tiled_dot.simps using upto_map [of "\<lambda>k. p (16 * int (Suc t) + k)" 16]
    by (simp add: add.commute del: of_nat_Suc)
qed

end

interpretation fp16_int: integer_chip "fp16_chip P E" for P E
proof
  fix n :: nat and p :: "nat \<Rightarrow> u16 \<times> u16" and x y :: "nat \<Rightarrow> int" and old :: "u16 option" and z :: int
  assume "\<And>k. k < n \<Longrightarrow> holds_int (fst (p k)) (x k) \<and> holds_int (snd (p k)) (y k)" "(\<Sum>k<n. \<bar>x k * y k\<bar>) < 2048"
    "\<And>c. old = Some c \<Longrightarrow> holds_int c z" "old = None \<Longrightarrow> z = 0" "\<bar>(\<Sum>k<n. x k * y k) + z\<bar> < 2048"
  from fp16_dot_int [OF this] show "holds_int (ch_dot (fp16_chip P E) old (map p [0..<n])) ((\<Sum>k<n. x k * y k) + z)"
    by (simp add: fp16_chip_def)
qed

section \<open>Activations and maxima\<close>

lemma reduceMax_zero: "\<not> nan32 a \<Longrightarrow> reduceMax a 0 = (if f32_gt a 0 then a else 0)"
proof -
  assume a: "\<not> nan32 a"
  have z: "\<not> nan32 0" "f32_key 0 = 0" by (simp_all add: nan32_def rest32_def f32_key_def signed_def)
  have "a = 0" if "f32_key a = 0" "\<not> sgn32 a"
    using that z by (intro zero_key_inject) (simp_all add: sgn32_def)
  with a z show ?thesis by (auto simp: reduceMax_def f32_gt_def f32_eq_def)
qed

lemma widen_zero: "fp16ToFp32 0 = 0"
  by (simp add: fp16ToFp32_def)

lemma round16_widen: "\<not> nan16 h \<Longrightarrow> round16 (fp16ToFp32 h) = h"
proof -
  assume "\<not> nan16 h"
  then have "finite16 h \<or> rest16 h = 0x7C00" by (auto simp: nan16_def finite16_def)
  with fp16_roundtrip_parts(1) [of h] \<open>\<not> nan16 h\<close> show ?thesis by (simp add: round16_def canon16_def)
qed

lemma fp16_relu:
  assumes "op = MaximumF \<or> op = MaxNumF" and "\<not> nan16 x"
  shows "ch_arith (fp16_chip P E) op x 0 = ch_act (fp16_chip P E) RELU x"
    and "ch_arith (fp16_chip P E) op 0 x = ch_act (fp16_chip P E) RELU x"
proof -
  have n: "\<not> nan32 (fp16ToFp32 x)" "\<not> nan16 0" using assms(2) by (simp_all add: nan_widened nan16_def rest16_def)
  show 1: "ch_arith (fp16_chip P E) op x 0 = ch_act (fp16_chip P E) RELU x"
    using assms n by (auto simp: fp16_chip_def fp16_arith_def Let_def act_fun_def widen_zero reduceMax_zero)
  show "ch_arith (fp16_chip P E) op 0 x = ch_act (fp16_chip P E) RELU x"
    using assms n 1 by (auto simp: fp16_chip_def fp16_arith_def Let_def reduceMax_commute [of "fp16ToFp32 x"])
qed

lemma fp16_relu_nan: "nan16 x \<Longrightarrow> ch_act (fp16_chip P E) RELU x = 0"
  by (simp add: fp16_chip_def act_fun_def f32_gt_def nan_widened round16_widen [of 0, unfolded widen_zero] nan16_def rest16_def)

lemma canon16_nan [simp]: "nan16 (canon16 h) = nan16 h"
  by (simp add: canon16_def nan16_def rest16_def)

text \<open>A maximum loses nothing: the row's maximum is the fold of the fp16 maximum over the row.\<close>

lemma fp16_max_fold:
  assumes "0 < n" and "n \<le> length xs"
  shows "round16 (max_upto (\<lambda>j. fp16ToFp32 (xs ! j)) n)
    = fold (\<lambda>x acc. combine (fp16_chip P E) REDUCE_MAX acc x) (map ((!) xs) [1..<n]) (canon16 (xs ! 0))"
  using assms
proof (induction n rule: nat_induct_1)
  case 1
  then show ?case
    using round16_widen [of "xs ! 0"] round16_nan [of "fp16ToFp32 (xs ! 0)"] by (auto simp: canon16_def nan_widened)
next
  case (Suc n)
  define v where "v = (\<lambda>j. fp16ToFp32 (xs ! j))"
  have "round16 (max_upto v (Suc n)) = combine (fp16_chip P E) REDUCE_MAX (round16 (max_upto v n)) (xs ! n)"
  proof (cases "nan32 (max_upto v n)")
    case True
    then have "nan32 (max_upto v (Suc n))" by (simp add: max_upto_Suc [OF Suc.hyps] reduceMax_nan)
    moreover have "nan16 0x7E00" by (simp add: nan16_def rest16_def)
    ultimately show ?thesis
      using True by (simp add: round16_nan fp16_chip_def fp16_arith_def reduceMax_nan nan_widened)
  next
    case False
    then have "\<And>j. j < n \<Longrightarrow> \<not> nan32 (v j)" using max_upto_nan [OF Suc.hyps] by blast
    then obtain j where j: "max_upto v n = fp16ToFp32 (xs ! j)" "\<not> nan16 (xs ! j)"
      using max_upto_max [OF Suc.hyps, of v] False by (auto simp: v_def nan_widened)
    then show ?thesis
      by (simp add: max_upto_Suc [OF Suc.hyps] round16_widen fp16_chip_def fp16_arith_def v_def [symmetric])
        (simp add: v_def)
  qed
  with Suc show ?case by (simp add: v_def)
qed

lemma matchReduceBody_combine:
  assumes "matchReduceBody y (BodyArg 0) (BodyArg 1) = Some kind"
    and "kind = REDUCE_MAX \<Longrightarrow> \<not> nan16 x \<and> \<not> nan16 acc"
  shows "eval_body (ch_arith (fp16_chip P E)) c outer (\<lambda>k. if k = 0 then x else acc) y = Some (combine (fp16_chip P E) kind acc x)"
proof -
  have num: "ch_arith (fp16_chip P E) MaxNumF a b = ch_arith (fp16_chip P E) MaximumF a b" if "\<not> nan16 a" "\<not> nan16 b" for a b
    using that by (simp add: fp16_chip_def fp16_arith_def)
  from matchReduceBodyD [OF assms(1)] show ?thesis
    using fp16_commute [of P E acc x] fp16_commute(1) [of P E acc "ch_arith (fp16_chip P E) MulF x x"] num [of acc x] num [of x acc] assms(2)
    by auto
qed

end
