(* ===== verification/Refine.thy ===== *)
theory Refine
  imports EmitRead Chip
begin

text \<open>
  The chip executes the compiled program as the tensor semantics says.  A flat program, its buffers
  placed in SRAM and in the DDR slots, is run on both sides: as descriptors on the byte memories of
  \<open>CModel\<close>, and as operations on tensors of fp16 words with \<open>step_op\<close>.  Every instruction keeps the
  two in step, so the whole program runs to its end and leaves in every buffer, bit for bit, the
  tensor that the semantics computes.
\<close>

section \<open>The arithmetic of the chip, bit for bit\<close>

definition arith_code :: "arith_op \<Rightarrow> OpCode" where
  "arith_code op = (case op of AddF \<Rightarrow> ELEMENTWISE_ADD | SubF \<Rightarrow> ELEMENTWISE_SUB | MulF \<Rightarrow> ELEMENTWISE_MUL
     | _ \<Rightarrow> ELEMENTWISE_DIV)"

lemma arith_code_bin [simp]: "arith_code (bin_arith b) = binop_code b"
  by (cases b) (simp_all add: arith_code_def)

definition bit_dot :: "platform \<Rightarrow> u16 option \<Rightarrow> (u16 \<times> u16) list \<Rightarrow> u16" where
  "bit_dot P old ps =
     (let acc = dot P (\<lambda>k. fst (ps ! k)) (\<lambda>k. snd (ps ! k)) (length ps)
      in fp32ToFp16 (case old of None \<Rightarrow> acc | Some c \<Rightarrow> f32_add P acc (fp16ToFp32 c)))"

definition bit_reduce :: "platform \<Rightarrow> ReduceKind \<Rightarrow> u16 list \<Rightarrow> u16" where
  "bit_reduce P kind xs =
     (let v = (\<lambda>j. fp16ToFp32 (xs ! j)); n = length xs
      in fp32ToFp16 (case kind of
           REDUCE_SUM \<Rightarrow> sum_upto P False v n
         | REDUCE_SQUARE_SUM \<Rightarrow> sum_upto P True v n
         | _ \<Rightarrow> max_upto v n))"

text \<open>An ARGMAX stores 32-bit indices, which are no fp16 tensor; \<open>E\<close> says how they would read.\<close>

definition bit_chip :: "platform \<Rightarrow> fp16_env \<Rightarrow> u16 chip" where
  "bit_chip P E = \<lparr>
     ch_arith = (\<lambda>op a b. fp32ToFp16 (ewise_fun P (arith_code op) (fp16ToFp32 a) (fp16ToFp32 b))),
     ch_const = fe_const E,
     ch_act = (\<lambda>kind h. fp32ToFp16 (act_fun P kind (fp16ToFp32 h))),
     ch_reduce = bit_reduce P,
     ch_argmax = (\<lambda>xs. fe_index E (vi_index (argmax_upto (\<lambda>j. fp16ToFp32 (xs ! j)) (length xs)))),
     ch_dot = bit_dot P\<rparr>"

section \<open>Where a buffer lies\<close>

definition rows_of :: "ir_value \<Rightarrow> nat" where
  "rows_of v = nat (dim (value_type v) 0)"

definition cols_of :: "ir_value \<Rightarrow> nat" where
  "cols_of v = nat (dim (value_type v) 1)"

definition is_buf :: "ir_value \<Rightarrow> bool" where
  "is_buf v = (case v of SramBuf i a t \<Rightarrow> True | _ \<Rightarrow> False)"

definition ddr_fp16 :: "cmodel \<Rightarrow> nat \<Rightarrow> u16" where
  "ddr_fp16 m p = u16_of_bytes [ddr_bytes m p, ddr_bytes m (p + 1)]"

definition ddr_off :: "u32 \<Rightarrow> nat" where
  "ddr_off addr = unat addr - 0x40000000"

text \<open>Element \<open>i\<close>, in row-major order, of a root buffer.\<close>

definition elem :: "attributes \<Rightarrow> cmodel \<Rightarrow> ir_value \<Rightarrow> nat \<Rightarrow> u16" where
  "elem attrs m v i =
     (if is_buf v then sram_fp16 m (sram_off (sbuf_addr v) + 2 * i)
      else ddr_fp16 m (ddr_off (base_addr attrs v) + 2 * i))"

text \<open>
  The buffers of a program: matrices with positive extents, in SRAM or behind the descriptors in
  DDR, at aligned addresses, two of the same memory apart.
\<close>

definition block_ok :: "attributes \<Rightarrow> ir_value \<Rightarrow> bool" where
  "block_ok attrs v \<longleftrightarrow> length (mr_shape (value_type v)) = 2 \<and> 0 < rows_of v \<and> 0 < cols_of v
     \<and> (if is_buf v
        then 0x10000000 \<le> unat (sbuf_addr v) \<and> unat (sbuf_addr v) + 2 * (rows_of v * cols_of v) \<le> 0x10080000
          \<and> sbuf_addr v mod 16 = 0
        else has_ddr_base v
          \<and> 0x40010000 \<le> unat (base_addr attrs v) \<and> unat (base_addr attrs v) + 2 * (rows_of v * cols_of v) \<le> 0xC0000000
          \<and> base_addr attrs v mod 16 = 0)"

definition blocks_apart :: "attributes \<Rightarrow> ir_value \<Rightarrow> ir_value \<Rightarrow> bool" where
  "blocks_apart attrs v w \<longleftrightarrow>
     (if is_buf v then is_buf w \<longrightarrow> apart (unat (sbuf_addr v)) (2 * (rows_of v * cols_of v)) (unat (sbuf_addr w)) (2 * (rows_of w * cols_of w))
      else \<not> is_buf w \<longrightarrow> apart (unat (base_addr attrs v)) (2 * (rows_of v * cols_of v)) (unat (base_addr attrs w)) (2 * (rows_of w * cols_of w)))"

definition layout_ok :: "attributes \<Rightarrow> ir_value list \<Rightarrow> bool" where
  "layout_ok attrs V \<longleftrightarrow> (\<forall>v \<in> set V. block_ok attrs v \<and> (\<forall>w \<in> set V. v \<noteq> w \<longrightarrow> blocks_apart attrs v w))"

text \<open>The memory holds the tensors.\<close>

definition holds :: "attributes \<Rightarrow> ir_value list \<Rightarrow> u16 tensors \<Rightarrow> cmodel \<Rightarrow> bool" where
  "holds attrs V T m \<longleftrightarrow> (\<forall>v \<in> set V. \<forall>r<rows_of v. \<forall>c<cols_of v. elem attrs m v (r * cols_of v + c) = T v [int r, int c])"

text \<open>The tensors that a memory holds.\<close>

definition tensors_of :: "attributes \<Rightarrow> cmodel \<Rightarrow> u16 tensors" where
  "tensors_of attrs m v js = elem attrs m v (nat (js ! 0) * cols_of v + nat (js ! 1))"

lemma holds_tensors_of: "holds attrs V (tensors_of attrs m) m"
  by (simp add: holds_def tensors_of_def)

lemma holdsD: "holds attrs V T m \<Longrightarrow> v \<in> set V \<Longrightarrow> r < rows_of v \<Longrightarrow> c < cols_of v \<Longrightarrow>
    elem attrs m v (r * cols_of v + c) = T v [int r, int c]"
  by (simp add: holds_def)

section \<open>Extents and addresses\<close>

lemma extent_bound: "0 < (a :: nat) \<Longrightarrow> 0 < b \<Longrightarrow> a * b \<le> n \<Longrightarrow> a \<le> n \<and> b \<le> n"
  by (metis One_nat_def Suc_leI le_trans mult.right_neutral mult_le_mono nat_mult_1 order_refl)

lemma block_shape:
  assumes "block_ok attrs v"
  shows "mr_shape (value_type v) = [int (rows_of v), int (cols_of v)]"
    and "0 < rows_of v" "0 < cols_of v" "rows_of v * cols_of v \<le> 0x40000000"
    and "rows_of v \<le> 0x40000000" "cols_of v \<le> 0x40000000"
proof -
  from assms have l: "length (mr_shape (value_type v)) = 2" and p: "0 < rows_of v" "0 < cols_of v"
    by (simp_all add: block_ok_def)
  from l obtain a b where "mr_shape (value_type v) = [a, b]" by (auto simp: length_Suc_conv numeral_2_eq_2)
  with p show "mr_shape (value_type v) = [int (rows_of v), int (cols_of v)]" by (simp add: rows_of_def cols_of_def)
  from assms show b: "rows_of v * cols_of v \<le> 0x40000000" by (auto simp: block_ok_def split: if_splits)
  from p extent_bound [OF p b] show "0 < rows_of v" "0 < cols_of v" "rows_of v \<le> 0x40000000" "cols_of v \<le> 0x40000000"
    by simp_all
qed

lemma unat_of_extent: "n \<le> 0xFFFFFFFF \<Longrightarrow> unat (word_of_int (int n) :: u32) = n"
  by (simp add: unat_of_nat_small)

lemma buf_cases: "is_buf v \<Longrightarrow> \<exists>i a t. v = SramBuf i a t"
  by (cases v) (simp_all add: is_buf_def)

lemma root_of_base: "is_buf v \<or> has_ddr_base v \<Longrightarrow> root_of v = v" "is_buf v \<or> has_ddr_base v \<Longrightarrow> root_index v js = js"
  "is_buf v \<or> has_ddr_base v \<Longrightarrow> own_index v js = js"
  by (cases v; simp add: is_buf_def has_ddr_base_def)+

lemma base_not_buf: "has_ddr_base v \<Longrightarrow> \<not> is_buf v"
  by (cases v) (simp_all add: has_ddr_base_def is_buf_def)

lemma block_kind: "block_ok attrs v \<Longrightarrow> is_buf v \<or> has_ddr_base v"
  by (auto simp: block_ok_def split: if_splits)

lemma block_in_sram:
  assumes "block_ok attrs v" and "is_buf v"
  shows "block_fits (sbuf_addr v) (rows_of v * cols_of v)"
  using assms by (simp add: block_ok_def block_fits_def)

lemma read_root: "block_ok attrs v \<Longrightarrow> read T v js = T v js"
  using block_kind root_of_base by (simp add: read_def)

lemma store_root:
  assumes "block_ok attrs v" and "r < rows_of v" and "c < cols_of v"
  shows "store T v f v [int r, int c] = f [int r, int c]"
  using assms(2,3) root_of_base [OF block_kind [OF assms(1)]] by (simp add: store_def in_shape_def block_shape(1) [OF assms(1)])

text \<open>A byte of a buffer belongs to no other buffer of the same memory.\<close>

lemma elem_sram_kept:
  assumes "layout_ok attrs V" and "v \<in> set V" and "d \<in> set V" and "v \<noteq> d" and "is_buf d"
    and "ddr_bytes m' = ddr_bytes m"
    and out: "\<And>a. \<not> inside (sram_off (sbuf_addr d)) (2 * (rows_of d * cols_of d)) a \<Longrightarrow> sram_bytes m' a = sram_bytes m a"
    and i: "i < rows_of v * cols_of v"
  shows "elem attrs m' v i = elem attrs m v i"
proof (cases "is_buf v")
  case True
  from assms(1-3) have b: "block_ok attrs v" "block_ok attrs d" and "blocks_apart attrs d v"
    using assms(4) by (auto simp: layout_ok_def)
  then have "apart (unat (sbuf_addr d)) (2 * (rows_of d * cols_of d)) (unat (sbuf_addr v)) (2 * (rows_of v * cols_of v))"
    using True assms(5) by (simp add: blocks_apart_def)
  from elem_kept [OF out this le_refl block_in_sram [OF b(2) assms(5)] block_in_sram [OF b(1) True] i] True
  show ?thesis by (simp add: elem_def)
next
  case False
  then show ?thesis using assms(6) by (simp add: elem_def ddr_fp16_def)
qed

text \<open>An instruction that fills one SRAM buffer is a store of the tensor semantics.\<close>

lemma holds_sram_store:
  assumes "layout_ok attrs V" and "holds attrs V T m" and "d \<in> set V" and "is_buf d"
    and "ddr_bytes m' = ddr_bytes m"
    and "\<And>a. \<not> inside (sram_off (sbuf_addr d)) (2 * (rows_of d * cols_of d)) a \<Longrightarrow> sram_bytes m' a = sram_bytes m a"
    and new: "\<And>r c. r < rows_of d \<Longrightarrow> c < cols_of d \<Longrightarrow>
      sram_fp16 m' (sram_off (sbuf_addr d) + 2 * (r * cols_of d + c)) = f [int r, int c]"
  shows "holds attrs V (store T d f) m'"
  unfolding holds_def
proof (intro ballI allI impI)
  fix v r c assume v: "v \<in> set V" and rc: "r < rows_of v" "c < cols_of v"
  have ok: "block_ok attrs v" using assms(1) v by (simp add: layout_ok_def)
  show "elem attrs m' v (r * cols_of v + c) = store T d f v [int r, int c]"
  proof (cases "v = d")
    case True
    then show ?thesis using new rc store_root [OF ok rc, of T f] assms(4) by (simp add: elem_def)
  next
    case False
    have "elem attrs m' v (r * cols_of v + c) = elem attrs m v (r * cols_of v + c)"
      using elem_sram_kept [OF assms(1) v assms(3) False assms(4,5,6)] index_less [OF rc] by blast
    moreover have "store T d f v = T v" using False root_of_base(1) [of d] assms(4) by (simp add: store_other)
    ultimately show ?thesis using holdsD [OF assms(2) v rc] by simp
  qed
qed

text \<open>The same for a store to DDR.\<close>

lemma holds_ddr_store:
  assumes L: "layout_ok attrs V" and H: "holds attrs V T m" and d: "d \<in> set V" "has_ddr_base d"
    and sr: "sram_bytes m' = sram_bytes m"
    and out: "\<And>a. \<not> inside (ddr_off (base_addr attrs d)) (2 * (rows_of d * cols_of d)) a \<Longrightarrow> ddr_bytes m' a = ddr_bytes m a"
    and new: "\<And>r c. r < rows_of d \<Longrightarrow> c < cols_of d \<Longrightarrow>
      ddr_fp16 m' (ddr_off (base_addr attrs d) + 2 * (r * cols_of d + c)) = f [int r, int c]"
  shows "holds attrs V (store T d f) m'"
  unfolding holds_def
proof (intro ballI allI impI)
  fix v r c assume v: "v \<in> set V" and rc: "r < rows_of v" "c < cols_of v"
  have ok: "block_ok attrs v" "block_ok attrs d" using L v d(1) by (simp_all add: layout_ok_def)
  have nb: "\<not> is_buf d" by (rule base_not_buf [OF d(2)])
  show "elem attrs m' v (r * cols_of v + c) = store T d f v [int r, int c]"
  proof (cases "v = d")
    case True
    then show ?thesis using new rc store_root [OF ok(1) rc, of T f] nb by (simp add: elem_def)
  next
    case False
    define i where "i = r * cols_of v + c"
    have i: "i < rows_of v * cols_of v" unfolding i_def by (rule index_less [OF rc])
    have "elem attrs m' v i = elem attrs m v i"
    proof (cases "is_buf v")
      case True
      then show ?thesis using sr by (simp add: elem_def sram_fp16_def)
    next
      case nv: False
      from L v d(1) False have "blocks_apart attrs d v" by (auto simp: layout_ok_def)
      then have "apart (unat (base_addr attrs d)) (2 * (rows_of d * cols_of d)) (unat (base_addr attrs v)) (2 * (rows_of v * cols_of v))"
        using nb nv by (simp add: blocks_apart_def)
      moreover have "0x40010000 \<le> unat (base_addr attrs v)" "0x40010000 \<le> unat (base_addr attrs d)"
        using ok nb nv by (simp_all add: block_ok_def)
      ultimately have "\<not> inside (ddr_off (base_addr attrs d)) (2 * (rows_of d * cols_of d)) (ddr_off (base_addr attrs v) + 2 * i + e)" if "e < 2" for e
        using i that by (auto simp: apart_def inside_def ddr_off_def)
      from out [OF this [of 0]] out [OF this [of 1]] nv show ?thesis by (simp add: elem_def ddr_fp16_def)
    qed
    moreover have "store T d f v = T v" using False root_of_base(1) [of d] d(2) by (simp add: store_other)
    ultimately show ?thesis using holdsD [OF H v rc] by (simp add: i_def)
  qed
qed

section \<open>The instructions\<close>

context descriptor
begin

lemma read_image: "in_ddr m (op, dp, enc d) \<Longrightarrow> op \<noteq> SYNC \<Longrightarrow> read_desc m dp size_of dec = Inr d"
  by (auto simp: in_ddr_def read_desc_def)

end

text \<open>
  What the compiler guarantees of an operation: the verifiers have accepted it, its buffers are
  among the placed ones, in the memory the operation needs (\<open>buf\<close> says which are in SRAM), results and second operands are different buffers, a subview has unit strides and starts
  at an aligned address.  An ARGMAX, which no lowering emits, writes no tensor of fp16.
\<close>

definition ddr_base :: "ir_value \<Rightarrow> ir_value" where
  "ddr_base v = (case v of CastRes i b t \<Rightarrow> b | SubViewRes i (CastRes j b t') offs sizes strides t \<Rightarrow> b | _ \<Rightarrow> v)"

definition view_ok :: "ir_value \<Rightarrow> bool" where
  "view_ok v = (addressable v \<and> (case v of
       CastRes i b t \<Rightarrow> has_ddr_base b
     | SubViewRes i (CastRes j b t') offs sizes strides t \<Rightarrow>
         has_ddr_base b \<and> strides = [1, 1] \<and> (offs ! 0 * dim (value_type b) 1 + offs ! 1) mod 8 = 0
     | _ \<Rightarrow> False))"

definition op_ok :: "(ir_value \<Rightarrow> bool) \<Rightarrow> ir_value list \<Rightarrow> operation \<Rightarrow> bool" where
  "op_ok buf V op = (case op of
       DmaLoadOp src dst \<Rightarrow> view_ok src \<and> ddr_base src \<in> set V \<and> \<not> buf (ddr_base src) \<and> buf dst \<and> dst \<in> set V
         \<and> verifyDmaLoad (MemRef (value_type src)) (MemRef (value_type dst)) = Inr ()
     | DmaStoreOp src dst \<Rightarrow> (\<exists>i b t. dst = CastRes i b t) \<and> view_ok dst \<and> ddr_base dst \<in> set V \<and> \<not> buf (ddr_base dst)
         \<and> buf src \<and> src \<in> set V
         \<and> verifyDmaStore (MemRef (value_type src)) (MemRef (value_type dst)) = Inr ()
     | MatmulOp l r d acc ta tb \<Rightarrow> {l, r, d} \<subseteq> {v \<in> set V. buf v} \<and> d \<noteq> l \<and> d \<noteq> r \<and> l \<noteq> r
         \<and> verifyMatmul (MemRef (value_type l)) (MemRef (value_type r)) (MemRef (value_type d)) ta tb = Inr ()
     | EwiseOp b l r d \<Rightarrow> {l, r, d} \<subseteq> {v \<in> set V. buf v} \<and> d \<noteq> r
         \<and> verifyEwiseShapes (MemRef (value_type l)) (MemRef (value_type r)) (MemRef (value_type d)) = Inr ()
     | ActOp s d kind \<Rightarrow> {s, d} \<subseteq> {v \<in> set V. buf v}
         \<and> verifyAct (MemRef (value_type s)) (MemRef (value_type d)) = Inr ()
     | ReduceOp s d idx kind \<Rightarrow> {s, d} \<subseteq> {v \<in> set V. buf v} \<and> kind \<noteq> REDUCE_ARGMAX
         \<and> verifyReduce (\<lambda>v. MemRef (value_type v)) s d idx kind = Inr ()
     | ForOp lb ub st body \<Rightarrow> False
     | _ \<Rightarrow> True)"

text \<open>A division divides by no zero.\<close>

definition divides_ok :: "operation \<Rightarrow> u16 tensors \<Rightarrow> bool" where
  "divides_ok op T = (case op of
       EwiseOp BinDiv l r d \<Rightarrow>
         (\<forall>i<rows_of d. \<forall>j<cols_of d. rest16 (T r [if dim (value_type r) 0 = 1 then 0 else int i, int j mod dim (value_type r) 1]) \<noteq> 0)
     | _ \<Rightarrow> True)"

text \<open>
  What one instruction has to do: it ends, the memory holds the tensors of the next state, and the
  bytes of DDR below the tensors are as before.
\<close>

definition simulates :: "platform \<Rightarrow> fp16_env \<Rightarrow> attributes \<Rightarrow> ir_value list \<Rightarrow> operation \<Rightarrow> u16 tensors \<Rightarrow> cmodel result \<Rightarrow> cmodel \<Rightarrow> bool" where
  "simulates P E attrs V op T res m \<longleftrightarrow> (\<exists>m'. res = Inr m' \<and> holds attrs V (step_op (bit_chip P E) op T) m'
     \<and> (\<forall>a<0x10000. ddr_bytes m' a = ddr_bytes m a))"

lemma dim_eq: "block_ok attrs v \<Longrightarrow> dim (value_type v) 0 = int (rows_of v)" "block_ok attrs v \<Longrightarrow> dim (value_type v) 1 = int (cols_of v)"
  "block_ok attrs v \<Longrightarrow> dim (value_type v) (Suc 0) = int (cols_of v)"
  by (simp_all add: block_shape)

lemma same_shape: "block_ok attrs v \<Longrightarrow> block_ok attrs w \<Longrightarrow> mr_shape (value_type v) = mr_shape (value_type w) \<longleftrightarrow> rows_of v = rows_of w \<and> cols_of v = cols_of w"
  by (simp add: block_shape)

lemma exec_image: "exec P sim (image_instr (op, dp, bs)) = (case op of
       DMA_LOAD \<Rightarrow> execDmaLoad sim dp
     | DMA_STORE \<Rightarrow> execDmaStore sim dp
     | MATMUL \<Rightarrow> execMatmul P sim dp
     | ACT \<Rightarrow> execAct P sim dp
     | REDUCE \<Rightarrow> execReduce P sim dp
     | SYNC \<Rightarrow> Inr sim
     | _ \<Rightarrow> execElementwise P sim dp op)"
  by (cases op) (simp_all only: image_instr_def prod.case exec_def enumerator_opcode Instruction.select_convs option.case OpCode.case)

lemma simulatesI: "res = Inr m' \<Longrightarrow> holds attrs V (step_op (bit_chip P E) op T) m' \<Longrightarrow> (\<And>a. a < 0x10000 \<Longrightarrow> ddr_bytes m' a = ddr_bytes m a)
    \<Longrightarrow> simulates P E attrs V op T res m"
  by (auto simp: simulates_def)

lemma act_simulates:
  assumes L: "layout_ok attrs V" and H: "holds attrs V T m" and ok: "op_ok is_buf V (ActOp s d kind)"
    and img: "in_ddr m (expected attrs (ActOp s d kind) da)"
  shows "simulates P E attrs V (ActOp s d kind) T (exec P m (image_instr (expected attrs (ActOp s d kind) da))) m"
proof -
  from ok have V: "s \<in> set V" "d \<in> set V" and B: "is_buf s" "is_buf d"
    and sh: "mr_shape (value_type s) = mr_shape (value_type d)" by (auto simp: op_ok_def verifyAct_def memref_of_def)
  from L V have K: "block_ok attrs s" "block_ok attrs d" and A: "d \<noteq> s \<Longrightarrow> blocks_apart attrs d s"
    by (auto simp: layout_ok_def)
  from sh have RC: "rows_of s = rows_of d" "cols_of s = cols_of d" by (simp_all add: rows_of_def cols_of_def)
  define p where "p = \<lparr>act_dstAddr = sbuf_addr d, act_srcAddr = sbuf_addr s,
            act_n = word_of_int (num_elements (value_type s)), act_kind = act_kind_value kind,
            act_extra0 = 0, act_extra1 = 0, act_extra2 = 0, act_extra3 = 0\<rparr>"
  have n: "unat (act_n p) = rows_of d * cols_of d"
    using unat_of_extent [of "rows_of d * cols_of d"] block_shape [OF K(2)]
    by (simp add: p_def num_elements_def sh)
  have e: "expected attrs (ActOp s d kind) da = (ACT, da, bytes_of_ActParam p)" by (simp add: expected_def p_def)
  have desc: "read_desc m da 32 load_ActParam = Inr p" using act_desc.read_image img by (simp add: e)
  have fits: "act_fits p"
    unfolding act_fits_def n Let_def
    using block_in_sram [OF K(1) B(1)] block_in_sram [OF K(2) B(2)] A B
    by (auto simp: p_def RC blocks_apart_def)
  have k: "act_kind p = act_kind_value kind" by (simp add: p_def)
  from act_exec [OF desc k fits, of P] obtain m' where m': "execAct P m da = Inr m'" "ddr_bytes m' = ddr_bytes m"
    and new: "\<And>i. i < unat (act_n p) \<Longrightarrow> act_dst m' p i = fp32ToFp16 (act_fun P kind (fp16ToFp32 (act_src m p i)))"
    and out: "\<And>a. \<not> inside (sram_off (act_dstAddr p)) (2 * unat (act_n p)) a \<Longrightarrow> sram_bytes m' a = sram_bytes m a"
    by blast
  have "holds attrs V (store T d (\<lambda>js. ch_act (bit_chip P E) kind (read T s js))) m'"
  proof (rule holds_sram_store [OF L H V(2) B(2) m'(2)])
    fix r c assume rc: "r < rows_of d" "c < cols_of d"
    have "sram_fp16 m (sram_off (sbuf_addr s) + 2 * (r * cols_of d + c)) = T s [int r, int c]"
      using holdsD [OF H V(1)] rc B(1) by (simp add: elem_def RC)
    with new [unfolded n, OF index_less [OF rc]]
    show "sram_fp16 m' (sram_off (sbuf_addr d) + 2 * (r * cols_of d + c)) = ch_act (bit_chip P E) kind (read T s [int r, int c])"
      by (simp add: act_dst_def act_src_def p_def bit_chip_def read_root [OF K(1)])
  qed (rule out [unfolded n], simp add: p_def)
  then show ?thesis by - (rule simulatesI [of _ m'], simp_all add: e exec_image m')
qed

lemma bit_dot_map:
  "ch_dot (bit_chip P E) old (map (\<lambda>k. (f k, g k)) [0..<K]) =
     fp32ToFp16 (case old of None \<Rightarrow> dot P f g K | Some c \<Rightarrow> f32_add P (dot P f g K) (fp16ToFp32 c))"
proof -
  have "dot P (\<lambda>k. fst (map (\<lambda>k. (f k, g k)) [0..<K] ! k)) (\<lambda>k. snd (map (\<lambda>k. (f k, g k)) [0..<K] ! k)) K = dot P f g K"
    by (rule dot_cong) simp
  then show ?thesis by (simp add: bit_chip_def bit_dot_def Let_def)
qed

lemma matmul_simulates:
  assumes L: "layout_ok attrs V" and H: "holds attrs V T m" and ok: "op_ok is_buf V (MatmulOp l r d acc ta tb)"
    and img: "in_ddr m (expected attrs (MatmulOp l r d acc ta tb) da)"
  shows "simulates P E attrs V (MatmulOp l r d acc ta tb) T
    (exec P m (image_instr (expected attrs (MatmulOp l r d acc ta tb) da))) m"
proof -
  from ok have V: "l \<in> set V" "r \<in> set V" "d \<in> set V" and B: "is_buf l" "is_buf r" "is_buf d"
    and ne: "d \<noteq> l" "d \<noteq> r" "l \<noteq> r" by (auto simp: op_ok_def)
  from L V ne have K: "block_ok attrs l" "block_ok attrs r" "block_ok attrs d"
    and A: "blocks_apart attrs d l" "blocks_apart attrs d r" "blocks_apart attrs l r"
    by (auto simp: layout_ok_def)
  define N where "N = (if ta then rows_of l else cols_of l)"
  from ok have S: "rows_of d = (if ta then cols_of l else rows_of l)" "cols_of d = (if tb then rows_of r else cols_of r)"
      "N = (if tb then cols_of r else rows_of r)"
    by (simp_all add: op_ok_def verifyMatmul_def memref_of_def matmul_dims_def rbind_eq_Inr dim_eq [OF K(1)] dim_eq [OF K(2)] dim_eq [OF K(3)]
        N_def split: if_splits)
  have md: "matmul_dims ta tb (value_type l) (value_type r) = (int (rows_of d), int N, int N, int (cols_of d))"
    using S by (simp add: matmul_dims_def dim_eq [OF K(1)] dim_eq [OF K(2)] N_def split: if_splits)
  define p where "p = \<lparr>mm_dstAddr = sbuf_addr d, mm_rhsAddr = sbuf_addr r, mm_lhsAddr = sbuf_addr l,
            mm_M = word_of_int (int (rows_of d)), mm_K = word_of_int (int N), mm_N = word_of_int (int (cols_of d)), mm_accumulate = of_bool acc,
            mm_transA = of_bool ta, mm_transB = of_bool tb\<rparr>"
  have e: "expected attrs (MatmulOp l r d acc ta tb) da = (MATMUL, da, bytes_of_MatmulParam p)"
    by (simp only: expected_def operation.case md prod.case p_def)
  have p: "mm_dstAddr p = sbuf_addr d" "mm_rhsAddr p = sbuf_addr r" "mm_lhsAddr p = sbuf_addr l"
      "mm_accumulate p \<noteq> 0 \<longleftrightarrow> acc" "mm_transA p = 1 \<longleftrightarrow> ta" "mm_transB p = 1 \<longleftrightarrow> tb"
      "mm_transA p \<le> 1" "mm_transB p \<le> 1"
    by (simp_all add: p_def)
  have n: "unat (mm_M p) = rows_of d" "unat (mm_N p) = cols_of d" "unat (mm_K p) = N"
    using block_shape(5,6) [OF K(1)] block_shape(5,6) [OF K(3)] unat_of_extent
    by (simp_all add: p_def N_def unat_of_nat_small)
  have sz: "rows_of l * cols_of l = rows_of d * N" "rows_of r * cols_of r = N * cols_of d"
    using S by (cases ta; cases tb; simp add: N_def mult.commute)+
  have desc: "read_desc m da 32 load_MatmulParam = Inr p" using matmul_desc.read_image img by (simp add: e)
  have fits: "matmul_fits p"
    unfolding matmul_fits_def n Let_def
    using block_in_sram [OF K(1) B(1)] block_in_sram [OF K(2) B(2)] block_in_sram [OF K(3) B(3)] A B
    by (simp add: p sz blocks_apart_def)
  from fill_matmul [OF desc fits, of P] obtain m' where m': "execMatmul P m da = Inr m'" "ddr_bytes m' = ddr_bytes m"
    and new: "\<And>i j. i < rows_of d \<Longrightarrow> j < cols_of d \<Longrightarrow> dst_elem m' p i j = fp32ToFp16 (matmul_val P m p i j)"
    and out: "\<And>a. \<not> inside (sram_off (mm_dstAddr p)) (2 * (unat (mm_M p) * unat (mm_N p))) a \<Longrightarrow> sram_bytes m' a = sram_bytes m a"
    unfolding n by blast
  have lhs: "lhs_elem m p i k = T l (if ta then [int k, int i] else [int i, int k])" if "i < rows_of d" "k < N" for i k
    using holdsD [OF H V(1), of k i] holdsD [OF H V(1), of i k] that S B(1)
    by (cases ta) (simp_all add: lhs_elem_def elem_def n p N_def)
  have rhs: "rhs_elem m p k j = T r (if tb then [int j, int k] else [int k, int j])" if "j < cols_of d" "k < N" for j k
    using holdsD [OF H V(2), of k j] holdsD [OF H V(2), of j k] that S B(2)
    by (cases tb) (simp_all add: rhs_elem_def elem_def n p)
  have dst: "dst_elem m p i j = T d [int i, int j]" if "i < rows_of d" "j < cols_of d" for i j
    using holdsD [OF H V(3) that] B(3) by (simp add: dst_elem_def elem_def n p)
  have pairs: "dot_pairs T l r ta tb [int i, int j] =
      map (\<lambda>k. (T l (if ta then [int k, int i] else [int i, int k]), T r (if tb then [int j, int k] else [int k, int j]))) [0..<N]" for i j
    by (cases ta) (simp_all add: dot_pairs_def dim_eq [OF K(1)] N_def read_root [OF K(1)] read_root [OF K(2)] upto_map)
  have "holds attrs V (store T d (\<lambda>js. ch_dot (bit_chip P E) (if acc then Some (read T d js) else None) (dot_pairs T l r ta tb js))) m'"
  proof (rule holds_sram_store [OF L H V(3) B(3) m'(2)])
    fix i j assume ij: "i < rows_of d" "j < cols_of d"
    have "dot P (lhs_elem m p i) (\<lambda>k. rhs_elem m p k j) N
        = dot P (\<lambda>k. T l (if ta then [int k, int i] else [int i, int k])) (\<lambda>k. T r (if tb then [int j, int k] else [int k, int j])) N"
      by (rule dot_cong) (use lhs rhs ij in simp)
    then have "ch_dot (bit_chip P E) (if acc then Some (T d [int i, int j]) else None) (dot_pairs T l r ta tb [int i, int j])
        = fp32ToFp16 (matmul_val P m p i j)"
      unfolding pairs bit_dot_map by (simp add: matmul_val_def Let_def n p dst [OF ij])
    with new [OF ij] show "sram_fp16 m' (sram_off (sbuf_addr d) + 2 * (i * cols_of d + j))
        = ch_dot (bit_chip P E) (if acc then Some (read T d [int i, int j]) else None) (dot_pairs T l r ta tb [int i, int j])"
      by (simp only: dst_elem_def n p read_root [OF K(3)])
  qed (rule out [unfolded n], simp add: p)
  then show ?thesis by - (rule simulatesI [of _ m'], simp_all add: e exec_image m')
qed

lemma ewise_simulates:
  assumes L: "layout_ok attrs V" and H: "holds attrs V T m" and ok: "op_ok is_buf V (EwiseOp b l r d)"
    and div: "divides_ok (EwiseOp b l r d) T" and img: "in_ddr m (expected attrs (EwiseOp b l r d) da)"
  shows "simulates P E attrs V (EwiseOp b l r d) T (exec P m (image_instr (expected attrs (EwiseOp b l r d) da))) m"
proof -
  from ok have V: "l \<in> set V" "r \<in> set V" "d \<in> set V" and B: "is_buf l" "is_buf r" "is_buf d" and ne: "d \<noteq> r"
    by (auto simp: op_ok_def)
  from L V ne have K: "block_ok attrs l" "block_ok attrs r" "block_ok attrs d"
    and A: "d \<noteq> l \<Longrightarrow> blocks_apart attrs d l" "blocks_apart attrs d r"
    by (auto simp: layout_ok_def)
  from ok have S: "rows_of l = rows_of d" "cols_of l = cols_of d" "rows_of r = 1 \<or> rows_of r = rows_of d" "cols_of r dvd cols_of d"
    by (simp_all add: op_ok_def verifyEwiseShapes_def memref_of_def rbind_eq_Inr dim_eq [OF K(2)] dim_eq [OF K(3)] same_shape [OF K(1,3)])
  note sh = block_shape [OF K(1)] block_shape [OF K(2)] block_shape [OF K(3)]
  define st where "st = (if rows_of r = 1 then 0 else cols_of r)"
  define p where "p = \<lparr>ew_dstAddr = sbuf_addr d, ew_rhsAddr = sbuf_addr r, ew_lhsAddr = sbuf_addr l,
     ew_rows = word_of_int (int (rows_of d)), ew_cols = word_of_int (int (cols_of d)), ew_rhsBlk = word_of_int (int (cols_of r)),
     ew_rhsStride = word_of_int (int st)\<rparr>"
  have e: "expected attrs (EwiseOp b l r d) da = (binop_code b, da, bytes_of_EwiseParam p)"
    by (simp add: expected_def p_def dim_eq [OF K(2)] dim_eq [OF K(3)] st_def)
  have p: "ew_dstAddr p = sbuf_addr d" "ew_rhsAddr p = sbuf_addr r" "ew_lhsAddr p = sbuf_addr l" by (simp_all add: p_def)
  have n: "unat (ew_rows p) = rows_of d" "unat (ew_cols p) = cols_of d" "unat (ew_rhsBlk p) = cols_of r" "unat (ew_rhsStride p) = st"
    using sh by (simp_all add: p_def unat_of_nat_small st_def)
  have size: "ewise_rhs_size p = rows_of r * cols_of r"
    using S(3) sh by (auto simp: ewise_rhs_size_def n st_def algebra_simps diff_mult_distrib)
  have desc: "read_desc m da 28 load_EwiseParam = Inr p" by (rule ewise_desc.read_image [OF img [unfolded e]]) (cases b; simp)
  have "unat (ew_cols p mod ew_rhsBlk p) = 0" using S(4) by (simp add: unat_mod n)
  moreover have "unat (ew_cols p) \<noteq> 0" "unat (ew_rhsBlk p) \<noteq> 0" using sh by (simp_all add: n)
  ultimately have "ewise_shape p" unfolding ewise_shape_def by (simp add: unat_eq_zero)
  then have fits: "ewise_fits p"
    unfolding ewise_fits_def n Let_def size
    using block_in_sram [OF K(1) B(1)] block_in_sram [OF K(2) B(2)] block_in_sram [OF K(3) B(3)] A B
    by (auto simp: p S blocks_apart_def)
  have lhs: "ewise_lhs m p i j = T l [int i, int j]" if "i < rows_of d" "j < cols_of d" for i j
    using holdsD [OF H V(1), of i j] that S B(1) by (simp add: ewise_lhs_def elem_def n p)
  have rhs: "ewise_rhs m p i j = T r [if dim (value_type r) 0 = 1 then 0 else int i, int j mod dim (value_type r) 1]"
    if "i < rows_of d" "j < cols_of d" for i j
  proof -
    define i' where "i' = (if rows_of r = 1 then 0 else i)"
    have "i' < rows_of r" "j mod cols_of r < cols_of r" "i * st = i' * cols_of r" using that S(3) sh by (auto simp: i'_def st_def)
    with holdsD [OF H V(2), of i' "j mod cols_of r"] B(2) show ?thesis
      by (simp add: ewise_rhs_def elem_def n p dim_eq [OF K(2)] i'_def zmod_int)
  qed
  have ops: "binop_code b \<in> ewise_opcodes" by (cases b) (simp_all add: ewise_opcodes_def)
  have nz: "\<forall>i<unat (ew_rows p). \<forall>j<unat (ew_cols p). ewise_divides (binop_code b) m p i j"
    using div by (cases b) (simp_all add: divides_ok_def ewise_divides_def rhs n)
  from ewise_filled [OF desc fits ops nz, of P] obtain m' where m': "execElementwise P m da (binop_code b) = Inr m'" "ddr_bytes m' = ddr_bytes m"
    and new: "\<And>i j. i < rows_of d \<Longrightarrow> j < cols_of d \<Longrightarrow> ewise_dst m' p i j = fp32ToFp16 (ewise_val P (binop_code b) m p i j)"
    and out: "\<And>a. \<not> inside (sram_off (ew_dstAddr p)) (2 * (unat (ew_rows p) * unat (ew_cols p))) a \<Longrightarrow> sram_bytes m' a = sram_bytes m a"
    unfolding n by blast
  have "holds attrs V (store T d (\<lambda>js. ch_arith (bit_chip P E) (bin_arith b) (read T l js)
     (read T r [if dim (value_type r) 0 = 1 then 0 else js ! 0, js ! 1 mod dim (value_type r) 1]))) m'"
  proof (rule holds_sram_store [OF L H V(3) B(3) m'(2)])
    fix i j assume ij: "i < rows_of d" "j < cols_of d"
    show "sram_fp16 m' (sram_off (sbuf_addr d) + 2 * (i * cols_of d + j)) = ch_arith (bit_chip P E) (bin_arith b) (read T l [int i, int j])
     (read T r [if dim (value_type r) 0 = 1 then 0 else [int i, int j] ! 0, [int i, int j] ! 1 mod dim (value_type r) 1])"
      using new [OF ij]
      by (simp add: ewise_dst_def n p bit_chip_def ewise_val_def lhs [OF ij] rhs [OF ij] read_root [OF K(1)] read_root [OF K(2)])
  qed (rule out [unfolded n], simp add: p)
  moreover have "exec P m (image_instr (expected attrs (EwiseOp b l r d) da)) = Inr m'"
    unfolding e exec_image using m'(1) by (cases b) simp_all
  ultimately show ?thesis by - (rule simulatesI [of _ m'], simp_all add: m')
qed

lemma fold_upto_cong: "(\<And>j. j < n \<Longrightarrow> f j = g j) \<Longrightarrow> fold f [k..<n] x = fold g [k..<n] x"
  by (rule fold_cong) auto

lemma bit_reduce_rows:
  assumes "block_ok attrs s"
  shows "ch_reduce (bit_chip P E) kind (row_values T s (int i)) = fp32ToFp16 (case kind of
       REDUCE_SUM \<Rightarrow> sum_upto P False (\<lambda>j. fp16ToFp32 (T s [int i, int j])) (cols_of s)
     | REDUCE_SQUARE_SUM \<Rightarrow> sum_upto P True (\<lambda>j. fp16ToFp32 (T s [int i, int j])) (cols_of s)
     | _ \<Rightarrow> max_upto (\<lambda>j. fp16ToFp32 (T s [int i, int j])) (cols_of s))"
proof -
  have row: "row_values T s (int i) = map (\<lambda>j. T s [int i, int j]) [0..<cols_of s]"
    by (simp add: row_values_def dim_eq [OF assms] read_root [OF assms] upto_map)
  have c: "0 < cols_of s" by (rule block_shape [OF assms])
  show ?thesis
    unfolding row by (simp add: bit_chip_def bit_reduce_def Let_def sum_upto_def max_upto_def c split: ReduceKind.split)
      (intro conjI impI arg_cong [where f = fp32ToFp16] fold_upto_cong; simp)
qed

lemma reduce_simulates:
  assumes L: "layout_ok attrs V" and H: "holds attrs V T m" and ok: "op_ok is_buf V (ReduceOp s d idx kind)"
    and img: "in_ddr m (expected attrs (ReduceOp s d idx kind) da)"
  shows "simulates P E attrs V (ReduceOp s d idx kind) T (exec P m (image_instr (expected attrs (ReduceOp s d idx kind) da))) m"
proof -
  from ok have V: "s \<in> set V" "d \<in> set V" and B: "is_buf s" "is_buf d" and k: "kind \<noteq> REDUCE_ARGMAX"
    and v: "verifyReduce (\<lambda>v. MemRef (value_type v)) s d idx kind = Inr ()"
    by (auto simp: op_ok_def)
  from v k have idx: "idx = None" and ne: "d \<noteq> s" and S: "dim (value_type d) 0 = dim (value_type s) 0" "dim (value_type d) 1 = 1"
    by (auto simp: verifyReduce_def memref_of_def rbind_eq_Inr)
  from L V ne have K: "block_ok attrs s" "block_ok attrs d" and A: "blocks_apart attrs d s" by (auto simp: layout_ok_def)
  from S have RC: "rows_of d = rows_of s" "cols_of d = 1" by (simp_all add: rows_of_def cols_of_def)
  note sh = block_shape [OF K(1)]
  define p where "p = \<lparr>red_dstAddr = sbuf_addr d, red_idxAddr = 0, red_srcAddr = sbuf_addr s,
            red_rows = word_of_int (int (rows_of s)), red_cols = word_of_int (int (cols_of s)), red_kind = reduce_kind_value kind\<rparr>"
  have e: "expected attrs (ReduceOp s d idx kind) da = (REDUCE, da, bytes_of_ReduceParam p)"
    by (simp add: expected_def p_def idx dim_eq [OF K(1)])
  have p: "red_dstAddr p = sbuf_addr d" "red_srcAddr p = sbuf_addr s" "red_idxAddr p = 0" "red_kind p = reduce_kind_value kind"
    by (simp_all add: p_def)
  have n: "unat (red_rows p) = rows_of s" "unat (red_cols p) = cols_of s" using sh by (simp_all add: p_def unat_of_nat_small)
  have desc: "read_desc m da 24 load_ReduceParam = Inr p" by (rule reduce_desc.read_image [OF img [unfolded e]]) simp
  have "red_rows p \<noteq> 0" "red_cols p \<noteq> 0" using n sh(2,3) by auto
  then have fits: "reduce_fits p"
    unfolding reduce_fits_def n Let_def
    using block_in_sram [OF K(1) B(1)] block_in_sram [OF K(2) B(2)] A B by (simp add: p RC blocks_apart_def)
  have elem: "red_row m p i j = fp16ToFp32 (T s [int i, int j])" if "i < rows_of s" "j < cols_of s" for i j
    using holdsD [OF H V(1) that] B(1) by (simp add: red_row_def red_elem_def elem_def n p)
  have val: "(case kind of REDUCE_SUM \<Rightarrow> sum_upto P False (red_row m p i) (cols_of s)
      | REDUCE_SQUARE_SUM \<Rightarrow> sum_upto P True (red_row m p i) (cols_of s) | _ \<Rightarrow> max_upto (red_row m p i) (cols_of s))
    = (case kind of REDUCE_SUM \<Rightarrow> sum_upto P False (\<lambda>j. fp16ToFp32 (T s [int i, int j])) (cols_of s)
     | REDUCE_SQUARE_SUM \<Rightarrow> sum_upto P True (\<lambda>j. fp16ToFp32 (T s [int i, int j])) (cols_of s)
     | _ \<Rightarrow> max_upto (\<lambda>j. fp16ToFp32 (T s [int i, int j])) (cols_of s))" if "i < rows_of s" for i
  proof -
    show ?thesis using elem [OF that] sh(3)
      by (simp add: sum_upto_def max_upto_def split: ReduceKind.split) (intro conjI impI fold_upto_cong; simp)
  qed
  obtain m' where m': "execReduce P m da = Inr m'" "ddr_bytes m' = ddr_bytes m"
    and new: "\<And>i. i < rows_of s \<Longrightarrow> red_dst m' p i = ch_reduce (bit_chip P E) kind (row_values T s (int i))"
    and out: "\<And>a. \<not> inside (sram_off (red_dstAddr p)) (2 * unat (red_rows p)) a \<Longrightarrow> sram_bytes m' a = sram_bytes m a"
  proof (cases kind)
    case REDUCE_MAX
    with exec_max_rows [OF desc _ p(3) fits, of P] val that show thesis by (force simp: n p bit_reduce_rows [OF K(1)])
  next
    case REDUCE_SUM
    with exec_sum_rows [OF desc _ p(3) fits, of False P] val that show thesis by (force simp: n p bit_reduce_rows [OF K(1)])
  next
    case REDUCE_SQUARE_SUM
    with exec_sum_rows [OF desc _ p(3) fits, of True P] val that show thesis by (force simp: n p bit_reduce_rows [OF K(1)])
  qed (use k in simp)
  have "holds attrs V (store T d (\<lambda>js. ch_reduce (bit_chip P E) kind (row_values T s (js ! 0)))) m'"
  proof (rule holds_sram_store [OF L H V(2) B(2) m'(2)])
    fix i j assume ij: "i < rows_of d" "j < cols_of d"
    with new [of i] show "sram_fp16 m' (sram_off (sbuf_addr d) + 2 * (i * cols_of d + j))
        = ch_reduce (bit_chip P E) kind (row_values T s ([int i, int j] ! 0))"
      by (simp add: RC red_dst_def p)
  qed (rule out [unfolded n], simp add: p RC)
  then show ?thesis by - (rule simulatesI [of _ m'], simp_all add: e [unfolded idx] exec_image m' idx)
qed

section \<open>Transfers\<close>

lemma mod16: "(w :: u32) mod 16 = 0 \<longleftrightarrow> unat w mod 16 = 0"
  by (simp add: word_unat_eq_iff unat_mod)

text \<open>The block that a DMA descriptor names is a window of its base.\<close>

lemma ddr_window:
  fixes T :: "'b tensors"
  assumes view: "view_ok v" and K: "block_ok attrs (ddr_base v)"
    and sh: "mr_shape (value_type v) = [int R, int C]" "0 < R" "0 < C"
  obtains addr o0 o1 where "ddr_block attrs v = (addr, int R, int C, 2 * int (cols_of (ddr_base v)))"
    and "unat addr = unat (base_addr attrs (ddr_base v)) + 2 * (o0 * cols_of (ddr_base v) + o1)" and "addr mod 16 = 0"
    and "o0 + R \<le> rows_of (ddr_base v)" and "o1 + C \<le> cols_of (ddr_base v)"
    and "\<And>r c. read T v [int r, int c] = T (ddr_base v) [int (o0 + r), int (o1 + c)]"
    and "has_ddr_base (ddr_base v)"
proof (cases v)
  case (CastRes i b t)
  with view have b: "ddr_base v = b" "has_ddr_base b" "mr_shape t = mr_shape (value_type b)" by (simp_all add: view_ok_def ddr_base_def)
  have K: "block_ok attrs b" using K b(1) by simp
  have RC: "rows_of b = R" "cols_of b = C" using sh(1) b(3) CastRes by (simp_all add: rows_of_def cols_of_def)
  show thesis
  proof (rule that [of "base_addr attrs b" 0 0])
    show "ddr_block attrs v = (base_addr attrs b, int R, int C, 2 * int (cols_of (ddr_base v)))"
      by (simp add: CastRes ddr_block_def ddr_base_def dim_eq [OF K] RC)
    show "base_addr attrs b mod 16 = 0" using K base_not_buf [OF b(2)] by (simp add: block_ok_def)
    show "read T v [int r, int c] = T (ddr_base v) [int (0 + r), int (0 + c)]" for r c
      using read_root [OF K, of T] b(2) by (simp add: CastRes ddr_base_def read_def)
  qed (use b RC in simp_all)
next
  case (SubViewRes i w offs sizes strides t)
  with view obtain j b t' where w: "w = CastRes j b t'" by (auto simp: view_ok_def split: ir_value.splits)
  have b: "ddr_base v = b" by (simp add: SubViewRes w ddr_base_def)
  have K: "block_ok attrs b" using K b by simp
  note d = dim_eq [OF K]
  from view have hb: "has_ddr_base b" and st: "strides = [1, 1]" and al: "(offs ! 0 * dim (value_type b) 1 + offs ! 1) mod 8 = 0"
    by (simp_all add: SubViewRes w view_ok_def)
  from view have ad: "addressable v" by (simp only: view_ok_def)
  note ad = ad [unfolded SubViewRes w addressable.simps value_type.simps]
  from ad have t': "mr_shape t' = mr_shape (value_type b)" by blast
  from ad sh(1) have sz: "sizes = [int R, int C]" by (auto simp: SubViewRes)
  with ad have l: "length offs = 2" by auto
  from l obtain x y where o: "offs = [x, y]" by (auto simp: length_Suc_conv numeral_2_eq_2)
  from ad have "0 \<le> x" "x + (int R - 1) < int (rows_of b)" "0 \<le> y" "y + (int C - 1) < int (cols_of b)"
    by (simp_all add: SubViewRes w sz st o t' upt_rec d)
  then obtain o0 o1 where xy: "x = int o0" "y = int o1" and fit: "o0 + R \<le> rows_of b" "o1 + C \<le> cols_of b"
    using zero_le_imp_eq_int [of x] zero_le_imp_eq_int [of y] sh(2,3) by auto
  define k where "k = o0 * cols_of b + o1"
  have "o0 < rows_of b" "o1 < cols_of b" using fit sh(2,3) by simp_all
  from index_less [OF this] have k: "k < rows_of b * cols_of b" by (simp add: k_def)
  have A: "unat (base_addr attrs b) + 2 * (rows_of b * cols_of b) \<le> 0xC0000000" "base_addr attrs b mod 16 = 0"
    using K base_not_buf [OF hb] by (simp_all add: block_ok_def)
  define addr where "addr = base_addr attrs b + word_of_int (2 * int k)"
  have "unat (word_of_int (2 * int k) :: u32) = 2 * k" using unat_of_extent [of "2 * k"] k A by simp
  then have ua: "unat addr = unat (base_addr attrs b) + 2 * k" using k A by (simp add: addr_def unat_add_no_wrap)
  show thesis
  proof (rule that [of addr o0 o1])
    show "ddr_block attrs v = (addr, int R, int C, 2 * int (cols_of (ddr_base v)))"
      by (simp add: SubViewRes w ddr_block_def ddr_base_def d sz st o xy addr_def k_def)
    have "int (k mod 8) = 0" using al by (simp add: o xy d k_def zmod_int)
    then have "k mod 8 = 0" by simp
    moreover have "unat (base_addr attrs b) mod 16 = 0" using A(2) mod16 by simp
    ultimately have "unat addr mod 16 = 0" unfolding ua by presburger
    then show "addr mod 16 = 0" by (simp only: mod16)
    show "read T v [int r, int c] = T (ddr_base v) [int (o0 + r), int (o1 + c)]" for r c
      using root_of_base [of b] hb by (simp add: SubViewRes w ddr_base_def read_def st o xy)
  qed (use fit ua hb in \<open>simp_all add: b k_def\<close>)
qed (use view in \<open>simp_all add: view_ok_def\<close>)

lemma copied_words:
  assumes "read_sram t p (2 * n) = read_ddr s q (2 * n)" and "p + 2 * n \<le> 0x80000" and "q + 2 * n \<le> 0x80000000" and "j < n"
  shows "sram_fp16 t (p + 2 * j) = ddr_fp16 s (q + 2 * j)"
proof -
  have eq: "map (sram_bytes t) [p..<p + 2 * n] = map (ddr_bytes s) [q..<q + 2 * n]"
    using assms(1) mem.a.rd_in [of p "2 * n" t] mem.b.rd_in [of q "2 * n" s] assms(2,3) by (simp add: to_nat)
  have "sram_bytes t (p + k) = ddr_bytes s (q + k)" if "k < 2 * n" for k
    using arg_cong [OF eq, of "\<lambda>xs. xs ! k"] that by simp
  from this [of "2 * j"] this [of "2 * j + 1"] assms(4) show ?thesis by (simp add: sram_fp16_def ddr_fp16_def add.assoc)
qed

lemma strided_fit:
  assumes "lo \<le> A" and "A + S * (R - 1) + 2 * C \<le> hi" and "unat addr = A" and "unat stride = S" and "0 < C"
  shows "rows_fit lo hi addr stride R (2 * C)"
  using assms by (auto simp: rows_fit_def row_at_def)

lemma row_end: "rows_fit lo hi addr stride R n \<Longrightarrow> i < R \<Longrightarrow> row_at addr stride i - lo + n \<le> hi - lo"
  using rows_fit_row [of lo hi addr stride R n i] by (simp add: max_def split: if_splits)

lemma window_end: "0 < R \<Longrightarrow> o0 + R \<le> RB \<Longrightarrow> o1 + C \<le> CB \<Longrightarrow> o0 * CB + o1 + CB * (R - 1) + C \<le> RB * (CB :: nat)"
proof -
  assume h: "0 < R" "o0 + R \<le> RB" "o1 + C \<le> CB"
  then have "o0 * CB + CB * (R - 1) + CB = (o0 + R) * CB" by (cases R) (simp_all add: algebra_simps)
  moreover have "(o0 + R) * CB \<le> RB * CB" using h(2) by (rule mult_le_mono1)
  ultimately show ?thesis using h(3) by linarith
qed

lemma load_simulates:
  assumes L: "layout_ok attrs V" and H: "holds attrs V T m" and ok: "op_ok is_buf V (DmaLoadOp src d)"
    and img: "in_ddr m (expected attrs (DmaLoadOp src d) da)"
  shows "simulates P E attrs V (DmaLoadOp src d) T (exec P m (image_instr (expected attrs (DmaLoadOp src d) da))) m"
proof -
  define b where "b = ddr_base src"
  from ok have view: "view_ok src" and V: "b \<in> set V" "d \<in> set V" and B: "is_buf d"
    and sh: "mr_shape (value_type src) = mr_shape (value_type d)"
    by (auto simp: op_ok_def verifyDmaLoad_def memref_of_def rbind_eq_Inr b_def)
  from L V have K: "block_ok attrs b" "block_ok attrs d" by (auto simp: layout_ok_def)
  define R C RB CB where "R = rows_of d" and "C = cols_of d" and "RB = rows_of b" and "CB = cols_of b"
  note D = block_shape [OF K(2), folded R_def C_def] and S = block_shape [OF K(1), folded RB_def CB_def]
  from D(1) sh have sh': "mr_shape (value_type src) = [int R, int C]" by simp
  obtain addr o0 o1 where w: "ddr_block attrs src = (addr, int R, int C, 2 * int CB)"
    and ua: "unat addr = unat (base_addr attrs b) + 2 * (o0 * CB + o1)" and al: "addr mod 16 = 0"
    and fit: "o0 + R \<le> RB" "o1 + C \<le> CB" and rd: "\<And>r c. read T src [int r, int c] = T b [int (o0 + r), int (o1 + c)]"
    and hb: "has_ddr_base b"
    by (rule ddr_window [OF view K(1) [unfolded b_def] sh' D(2,3), folded b_def, folded RB_def CB_def, of T]) (rule that)
  define p where "p = \<lparr>dma_sramAddr = sbuf_addr d, dma_ddrAddr = addr, dma_rows = word_of_int (int R),
            dma_cols = word_of_int (int C), dma_srcStride = word_of_int (2 * int CB), dma_dstStride = word_of_int (2 * int C)\<rparr>"
  have e: "expected attrs (DmaLoadOp src d) da = (DMA_LOAD, da, bytes_of_DMAParam p)" by (simp add: expected_def w p_def)
  have p: "dma_sramAddr p = sbuf_addr d" "dma_ddrAddr p = addr" by (simp_all add: p_def)
  have n: "unat (dma_rows p) = R" "row_bytes p = 2 * C" "unat (dma_srcStride p) = 2 * CB" "unat (dma_dstStride p) = 2 * C"
    using D S unat_of_extent [of "2 * CB"] unat_of_extent [of "2 * C"] by (simp_all add: p_def row_bytes_nat unat_of_nat_small)
  have desc: "read_desc m da 24 load_DMAParam = Inr p" by (rule dma_desc.read_image [OF img [unfolded e]]) simp
  have A: "0x40010000 \<le> unat (base_addr attrs b)" "unat (base_addr attrs b) + 2 * (RB * CB) \<le> 0xC0000000"
      "0x10000000 \<le> unat (sbuf_addr d)" "unat (sbuf_addr d) + 2 * (R * C) \<le> 0x10080000" "sbuf_addr d mod 16 = 0"
    using K B base_not_buf [OF hb] by (simp_all add: block_ok_def RB_def CB_def R_def C_def)
  have E: "unat addr + 2 * CB * (R - 1) + 2 * C \<le> unat (base_addr attrs b) + 2 * (RB * CB)"
    using window_end [OF D(2) fit] by (simp add: ua algebra_simps)
  have E': "C * (R - 1) + C = R * C" using D(2) by (cases R) simp_all
  have ge: "unat (base_addr attrs b) \<le> unat addr" by (simp add: ua)
  have "0x10000000 \<le> unat (sbuf_addr d)" "unat (sbuf_addr d) + 2 * C * (R - 1) + 2 * C \<le> 0x10080000"
      "0x40000000 \<le> unat addr" "unat addr + 2 * CB * (R - 1) + 2 * C \<le> 0xC0000000"
    using A E E' ge unfolding mult.assoc by linarith+
  then have F: "rows_fit 0x40000000 0xC0000000 addr (dma_srcStride p) R (2 * C)"
      "rows_fit 0x10000000 0x10080000 (sbuf_addr d) (dma_dstStride p) R (2 * C)"
    using strided_fit [OF _ _ refl n(3) D(3)] strided_fit [OF _ _ refl n(4) D(3)] by blast+
  have fits: "dma_load_fits p"
    unfolding dma_load_fits_def n dma_aligned_def p using al A(5) F by simp
  from dma_load_copied [OF desc fits] obtain m' where m': "execDmaLoad m da = Inr m'" "ddr_bytes m' = ddr_bytes m"
    and new: "\<And>i. i < R \<Longrightarrow> read_sram m' (row_at (sbuf_addr d) (dma_dstStride p) i - 0x10000000) (2 * C)
         = read_ddr m (row_at addr (dma_srcStride p) i - 0x40000000) (2 * C)"
    and out: "\<And>a. (\<And>i. i < R \<Longrightarrow> \<not> inside (row_at (sbuf_addr d) (dma_dstStride p) i - 0x10000000) (2 * C) a) \<Longrightarrow> sram_bytes m' a = sram_bytes m a"
    unfolding n p by blast
  have at: "row_at (sbuf_addr d) (dma_dstStride p) i - 0x10000000 = sram_off (sbuf_addr d) + 2 * (i * C)" for i
    using A(3) by (simp add: row_at_def n sram_off_def mult_ac)
  have "holds attrs V (store T d (read T src)) m'"
  proof (rule holds_sram_store [OF L H V(2) B m'(2), folded R_def C_def])
    fix a assume a: "\<not> inside (sram_off (sbuf_addr d)) (2 * (R * C)) a"
    show "sram_bytes m' a = sram_bytes m a"
    proof (rule out)
      fix i assume "i < R"
      then have "Suc i * C \<le> R * C" by (intro mult_le_mono1) simp
      with a show "\<not> inside (row_at (sbuf_addr d) (dma_dstStride p) i - 0x10000000) (2 * C) a" unfolding at by (auto simp: inside_def)
    qed
  next
    fix i j assume ij: "i < R" "j < C"
    have "row_at (sbuf_addr d) (dma_dstStride p) i - 0x10000000 + 2 * C \<le> 0x80000"
      "row_at addr (dma_srcStride p) i - 0x40000000 + 2 * C \<le> 0x80000000"
      using row_end [OF F(2) ij(1)] row_end [OF F(1) ij(1)] by simp_all
    from copied_words [OF new [OF ij(1)] this ij(2)]
    have "sram_fp16 m' (sram_off (sbuf_addr d) + 2 * (i * C) + 2 * j) = ddr_fp16 m (row_at addr (dma_srcStride p) i - 0x40000000 + 2 * j)"
      by (simp only: at)
    also have "row_at addr (dma_srcStride p) i - 0x40000000 + 2 * j = ddr_off (base_addr attrs b) + 2 * ((o0 + i) * CB + (o1 + j))"
      using A(1) by (simp add: row_at_def n ua ddr_off_def algebra_simps)
    also have "ddr_fp16 m \<dots> = T b [int (o0 + i), int (o1 + j)]"
      using holdsD [OF H V(1), of "o0 + i" "o1 + j"] ij fit base_not_buf [OF hb] by (simp add: elem_def RB_def CB_def)
    finally show "sram_fp16 m' (sram_off (sbuf_addr d) + 2 * (i * C + j)) = read T src [int i, int j]"
      by (simp add: rd algebra_simps)
  qed
  then show ?thesis by - (rule simulatesI [of _ m'], simp_all add: e exec_image m')
qed

lemma store_simulates:
  assumes L: "layout_ok attrs V" and H: "holds attrs V T m" and ok: "op_ok is_buf V (DmaStoreOp s dst)"
    and img: "in_ddr m (expected attrs (DmaStoreOp s dst) da)" and low: "unat da + 0x20 \<le> 0x40010000"
  shows "simulates P E attrs V (DmaStoreOp s dst) T (exec P m (image_instr (expected attrs (DmaStoreOp s dst) da))) m"
proof -
  from ok obtain k b t where dst: "dst = CastRes k b t" by (auto simp: op_ok_def)
  with ok have V: "b \<in> set V" "s \<in> set V" and B: "is_buf s" and hb: "has_ddr_base b"
    and sh: "mr_shape (value_type s) = mr_shape (value_type b)"
    by (auto simp: op_ok_def verifyDmaStore_def memref_of_def rbind_eq_Inr view_ok_def ddr_base_def)
  from L V have K: "block_ok attrs b" "block_ok attrs s" by (auto simp: layout_ok_def)
  define R C where "R = rows_of b" and "C = cols_of b"
  have RC: "rows_of s = R" "cols_of s = C" using sh by (simp_all add: rows_of_def cols_of_def R_def C_def)
  note D = block_shape [OF K(1), folded R_def C_def]
  define addr where "addr = base_addr attrs b"
  define p where "p = \<lparr>dma_sramAddr = sbuf_addr s, dma_ddrAddr = addr, dma_rows = word_of_int (int R),
            dma_cols = word_of_int (int C), dma_srcStride = word_of_int (2 * int C), dma_dstStride = word_of_int (2 * int C)\<rparr>"
  have e: "expected attrs (DmaStoreOp s dst) da = (DMA_STORE, da, bytes_of_DMAParam p)"
    by (simp add: expected_def dst ddr_block_def p_def addr_def dim_eq [OF K(1)] R_def C_def)
  have p: "dma_sramAddr p = sbuf_addr s" "dma_ddrAddr p = addr" by (simp_all add: p_def)
  have n: "unat (dma_rows p) = R" "row_bytes p = 2 * C" "unat (dma_srcStride p) = 2 * C" "unat (dma_dstStride p) = 2 * C"
    using D unat_of_extent [of "2 * C"] by (simp_all add: p_def row_bytes_nat unat_of_nat_small)
  have desc: "read_desc m da 24 load_DMAParam = Inr p" by (rule dma_desc.read_image [OF img [unfolded e]]) simp
  have A: "0x40010000 \<le> unat addr" "unat addr + 2 * (R * C) \<le> 0xC0000000" "addr mod 16 = 0"
      "0x10000000 \<le> unat (sbuf_addr s)" "unat (sbuf_addr s) + 2 * (R * C) \<le> 0x10080000" "sbuf_addr s mod 16 = 0"
    using K B base_not_buf [OF hb] RC by (simp_all add: block_ok_def R_def C_def addr_def)
  have "C * (R - 1) + C = R * C" using D(2) by (cases R) simp_all
  then have "unat (sbuf_addr s) + 2 * C * (R - 1) + 2 * C \<le> 0x10080000" "0x40000000 \<le> unat addr" "unat addr + 2 * C * (R - 1) + 2 * C \<le> 0xC0000000"
    using A unfolding mult.assoc by linarith+
  then have F: "rows_fit 0x40000000 0xC0000000 addr (dma_dstStride p) R (2 * C)"
      "rows_fit 0x10000000 0x10080000 (sbuf_addr s) (dma_srcStride p) R (2 * C)"
    using strided_fit [OF _ _ refl n(4) D(3)] strided_fit [OF _ _ refl n(3) D(3)] A(4) by blast+
  have "apart (row_at addr (dma_dstStride p) i) (2 * C) (unat da) 24" for i
    using A(1) low by (simp add: apart_def row_at_def)
  then have fits: "dma_store_fits da p"
    unfolding dma_store_fits_def n dma_aligned_def p using A(3,6) F by simp
  from dma_store_copied [OF desc fits] obtain m' where m': "execDmaStore m da = Inr m'" "sram_bytes m' = sram_bytes m"
    and new: "\<And>i. i < R \<Longrightarrow> read_ddr m' (row_at addr (dma_dstStride p) i - 0x40000000) (2 * C)
         = read_sram m (row_at (sbuf_addr s) (dma_srcStride p) i - 0x10000000) (2 * C)"
    and out: "\<And>a. (\<And>i. i < R \<Longrightarrow> \<not> inside (row_at addr (dma_dstStride p) i - 0x40000000) (2 * C) a) \<Longrightarrow> ddr_bytes m' a = ddr_bytes m a"
    unfolding n p by blast
  have at: "row_at addr (dma_dstStride p) i - 0x40000000 = ddr_off addr + 2 * (i * C)"
    "row_at (sbuf_addr s) (dma_srcStride p) i - 0x10000000 = sram_off (sbuf_addr s) + 2 * (i * C)" for i
    using A(1,4) by (simp_all add: row_at_def n sram_off_def ddr_off_def mult_ac)
  have kept: "ddr_bytes m' a = ddr_bytes m a" if a: "\<not> inside (ddr_off addr) (2 * (R * C)) a" for a
  proof (rule out)
    fix i assume "i < R"
    then have "Suc i * C \<le> R * C" by (intro mult_le_mono1) simp
    with a show "\<not> inside (row_at addr (dma_dstStride p) i - 0x40000000) (2 * C) a" unfolding at by (auto simp: inside_def)
  qed
  have "holds attrs V (store T b (read T s)) m'"
  proof (rule holds_ddr_store [OF L H V(1) hb m'(2), folded R_def C_def addr_def])
    fix i j assume ij: "i < R" "j < C"
    have "row_at (sbuf_addr s) (dma_srcStride p) i - 0x10000000 + 2 * C \<le> 0x80000"
      "row_at addr (dma_dstStride p) i - 0x40000000 + 2 * C \<le> 0x80000000"
      using row_end [OF F(2) ij(1)] row_end [OF F(1) ij(1)] by simp_all
    from copied_words [OF new [OF ij(1), symmetric] this ij(2)]
    have "ddr_fp16 m' (ddr_off addr + 2 * (i * C) + 2 * j) = sram_fp16 m (sram_off (sbuf_addr s) + 2 * (i * C) + 2 * j)"
      by (simp only: at)
    also have "\<dots> = T s [int i, int j]"
      using holdsD [OF H V(2), of i j] ij B by (simp add: elem_def RC algebra_simps)
    finally show "ddr_fp16 m' (ddr_off addr + 2 * (i * C + j)) = read T s [int i, int j]"
      by (simp add: read_root [OF K(2)] algebra_simps)
  qed (rule kept)
  moreover have "step_op (bit_chip P E) (DmaStoreOp s dst) T = store T b (read T s)"
    using ok root_of_base [of b] hb by (simp add: dst store_def op_ok_def view_ok_def in_shape_def cong: if_cong)
  moreover have "ddr_bytes m' a = ddr_bytes m a" if "a < 0x10000" for a
    using that A(1) by (intro kept) (simp add: inside_def ddr_off_def)
  ultimately show ?thesis using m' by - (rule simulatesI [of _ m'], simp_all add: e exec_image)
qed

section \<open>The program\<close>

lemma instruction_simulates:
  assumes "layout_ok attrs V" and "holds attrs V T m" and "op_ok is_buf V op" and "divides_ok op T" and "instruction_op op"
    and "in_ddr m (expected attrs op da)" and "op \<noteq> SyncOp \<Longrightarrow> unat da + 0x20 \<le> 0x40010000"
  shows "simulates P E attrs V op T (exec P m (image_instr (expected attrs op da))) m"
proof (cases op)
  case SyncOp
  with assms(2) show ?thesis by - (rule simulatesI [of _ m], simp_all only: expected_def operation.case exec_image OpCode.case step_op.simps id_apply)
next
  case (DmaLoadOp s d)
  show ?thesis unfolding DmaLoadOp by (rule load_simulates) (use assms DmaLoadOp in simp_all)
next
  case (DmaStoreOp s d)
  show ?thesis unfolding DmaStoreOp by (rule store_simulates) (use assms DmaStoreOp in simp_all)
next
  case (MatmulOp l r d acc ta tb)
  show ?thesis unfolding MatmulOp by (rule matmul_simulates) (use assms MatmulOp in simp_all)
next
  case (EwiseOp b l r d)
  show ?thesis unfolding EwiseOp by (rule ewise_simulates) (use assms EwiseOp in simp_all)
next
  case (ActOp s d k)
  show ?thesis unfolding ActOp by (rule act_simulates) (use assms ActOp in simp_all)
next
  case (ReduceOp s d i k)
  show ?thesis unfolding ReduceOp by (rule reduce_simulates) (use assms ReduceOp in simp_all)
qed (use assms in \<open>simp_all add: instruction_op_def\<close>)

lemma other_op_skips: "\<not> instruction_op op \<Longrightarrow> op_ok is_buf V op \<Longrightarrow> step_op C op T = T"
  by (cases op) (simp_all add: instruction_op_def op_ok_def)

text \<open>No division of the program divides by a zero of the tensors it meets.\<close>

fun divisors_ok :: "u16 chip \<Rightarrow> operation list \<Rightarrow> u16 tensors \<Rightarrow> bool" where
  "divisors_ok C [] T = True"
| "divisors_ok C (op # ops) T = (divides_ok op T \<and> divisors_ok C ops (step_op C op T))"

lemma images_kept:
  assumes "\<forall>img \<in> set imgs. in_ddr m img" and "\<forall>(opc, dp, bs) \<in> set imgs. opc = SYNC \<or> unat dp + length bs \<le> 0x40010000"
    and "\<And>a. a < 0x10000 \<Longrightarrow> ddr_bytes m' a = ddr_bytes m a"
  shows "\<forall>img \<in> set imgs. in_ddr m' img"
proof
  fix img assume i: "img \<in> set imgs"
  show "in_ddr m' img"
  proof (rule in_ddr_kept)
    show "in_ddr m img" using assms(1) i by blast
    fix a assume "meets img a"
    then have "a < 0x10000" using assms(1,2) i by (cases img) (fastforce simp: meets_def inside_def in_ddr_def ddr_eq_Inr)
    then show "ddr_bytes m' a = ddr_bytes m a" by (rule assms(3))
  qed
qed

text \<open>The cycle estimate of an instruction needs its descriptor and nothing else.\<close>

lemma computes_as: "computeCycles m (image_instr (op, dp, bs)) = (case op of
    DMA_LOAD \<Rightarrow> cyclesDma m dp True | DMA_STORE \<Rightarrow> cyclesDma m dp False | MATMUL \<Rightarrow> cyclesMatmul m dp
  | ACT \<Rightarrow> cyclesAct m dp | REDUCE \<Rightarrow> cyclesReduce m dp | SYNC \<Rightarrow> Inr 0 | _ \<Rightarrow> cyclesElementwise m dp)"
  by (cases op) (simp_all only: computeCycles_def image_instr_def prod.case enumerator_opcode Instruction.select_convs option.case OpCode.case)

lemma image_cycles:
  assumes "instruction_op op" and "in_ddr m (expected attrs op da)"
  shows "\<exists>c. computeCycles m (image_instr (expected attrs op da)) = Inr c"
proof -
  note cyc = computes_as [of m]
  show ?thesis
  proof (cases op)
    case (EwiseOp b l r d)
    with assms(2) obtain p where e: "expected attrs op da = (binop_code b, da, bytes_of_EwiseParam p)" by (simp add: expected_def)
    have "read_desc m da 28 load_EwiseParam = Inr p"
      by (rule ewise_desc.read_image [OF assms(2) [unfolded e]]) (cases b; simp)
    then show ?thesis unfolding e cyc by (cases b) (simp_all add: cyclesElementwise_def)
  qed (use assms in \<open>auto simp: instruction_op_def expected_def cyc cyclesDma_def cyclesMatmul_def cyclesAct_def cyclesReduce_def Let_def
        dest!: dma_desc.read_image matmul_desc.read_image act_desc.read_image reduce_desc.read_image split: prod.splits\<close>)
qed

text \<open>An instruction whose estimate is \<open>c\<close> wherever its descriptor is in place.\<close>

definition costs :: "OpCode \<times> u32 \<times> u8 list \<Rightarrow> nat \<Rightarrow> bool" where
  "costs img c \<longleftrightarrow> (\<forall>m. in_ddr m img \<longrightarrow> computeCycles m (image_instr img) = Inr (of_nat c))"

lemma program_simulates:
  assumes "layout_ok attrs V" and "holds attrs V T (cmodel_state s)" and "\<forall>op \<in> set ops. op_ok is_buf V op" and "divisors_ok (bit_chip P E) ops T"
    and "\<forall>img \<in> set (program_images attrs ops da). in_ddr (cmodel_state s) img" and "unat da + 0x40 * descriptors ops \<le> 0x40010000"
  shows "\<exists>t. run_list P (map image_instr (program_images attrs ops da)) s = Inr t
    \<and> holds attrs V (run_ops (bit_chip P E) ops T) (cmodel_state t)
    \<and> (\<forall>cs. list_all2 costs (program_images attrs ops da) cs \<longrightarrow> totalCycles t = totalCycles s + of_nat (sum_list cs))"
  using assms(2-6)
proof (induction ops arbitrary: T s da)
  case Nil
  then show ?case by (simp add: run_list_def)
next
  case (Cons op ops)
  show ?case
  proof (cases "instruction_op op")
    case False
    with Cons.prems other_op_skips [OF False, of V "bit_chip P E" T] Cons.IH [of T s da] show ?thesis
      by (simp add: descriptors_def)
  next
    case True
    define da' where "da' = (if op = SyncOp then da else da + DESC_LEN)"
    have imgs: "program_images attrs (op # ops) da = expected attrs op da # program_images attrs ops da'"
      using True by (simp add: da'_def)
    have nx: "unat da' + 0x40 * descriptors ops \<le> 0x40010000" and low: "op \<noteq> SyncOp \<Longrightarrow> unat da + 0x20 \<le> 0x40010000"
      using Cons.prems(5) True by (auto simp: da'_def descriptors_def DESC_LEN_def unat_add_no_wrap)
    have here: "in_ddr (cmodel_state s) (expected attrs op da)" using Cons.prems(4) imgs by simp
    have "simulates P E attrs V op T (exec P (cmodel_state s) (image_instr (expected attrs op da))) (cmodel_state s)"
      by (rule instruction_simulates [OF assms(1) Cons.prems(1) _ _ True here low]) (use Cons.prems in simp_all)
    then obtain m where m: "exec P (cmodel_state s) (image_instr (expected attrs op da)) = Inr m"
      "holds attrs V (step_op (bit_chip P E) op T) m" "\<And>a. a < 0x10000 \<Longrightarrow> ddr_bytes m a = ddr_bytes (cmodel_state s) a"
      by (auto simp: simulates_def)
    have "\<forall>(opc, dp, bs) \<in> set (program_images attrs (op # ops) da). opc = SYNC \<or> unat dp + length bs \<le> 0x40010000"
      using program_images_layout [of da "op # ops" attrs] Cons.prems(5) by fastforce
    then have kept: "\<forall>img \<in> set (program_images attrs (op # ops) da). in_ddr m img"
      by (rule images_kept [rotated]) (use Cons.prems(4) m(3) in auto)
    then obtain c where c: "computeCycles m (image_instr (expected attrs op da)) = Inr c"
      using image_cycles [OF True, of m attrs da] imgs by auto
    define u where "u = s\<lparr>cmodel_state := m, totalCycles := totalCycles s + c,
        cycleLog := cycleLog s @ [\<lparr>ce_inst = image_instr (expected attrs op da), ce_cycles = c\<rparr>]\<rparr>"
    have step: "run_step P (image_instr (expected attrs op da)) s = Inr u"
      using m(1) c by (simp add: run_step_def u_def)
    have u: "cmodel_state u = m" "totalCycles u = totalCycles s + c" by (simp_all add: u_def)
    have "in_ddr m (expected attrs op da)" using kept imgs by simp
    then have cost: "c = of_nat k" if "costs (expected attrs op da) k" for k
      using that c by (simp add: costs_def)
    from Cons.IH [of "step_op (bit_chip P E) op T" u da', OF _ _ _ _ nx] Cons.prems(2,3) m(2) kept u(1)
    obtain t where t: "run_list P (map image_instr (program_images attrs ops da')) u = Inr t"
      "holds attrs V (run_ops (bit_chip P E) ops (step_op (bit_chip P E) op T)) (cmodel_state t)"
      "\<forall>cs. list_all2 costs (program_images attrs ops da') cs \<longrightarrow> totalCycles t = totalCycles u + of_nat (sum_list cs)"
      unfolding imgs by auto
    have "totalCycles t = totalCycles s + of_nat (sum_list cs)"
      if cs: "list_all2 costs (program_images attrs (op # ops) da) cs" for cs
    proof -
      obtain k ks where k: "cs = k # ks" "costs (expected attrs op da) k" "list_all2 costs (program_images attrs ops da') ks"
        using cs unfolding imgs by (auto simp: list_all2_Cons1)
      have "totalCycles t = totalCycles u + of_nat (sum_list ks)" using t(3) k(3) by blast
      then show ?thesis unfolding u(2) cost [OF k(2)] k(1) by (simp add: add.assoc)
    qed
    with t(1,2) show ?thesis unfolding imgs by (simp add: run_list_def step)
  qed
qed

section \<open>Properties\<close>


end
