(* ===== verification/Compiled.thy ===== *)
theory Compiled
  imports Refine
begin

text \<open>
  The tool chain from the flat program to the output file: eclipse-to-easm writes the text,
  eclipse-run parses it, loads the input tensors, executes and writes the last stored tensor.  With
  the chip of Refine this is total correctness: the run ends, with the bytes of the tensor that the
  tensor semantics computes from the loaded inputs.
\<close>

section \<open>The driver does not stop before the run\<close>

lemma step_insn_ready:
  assumes "insn_image insn = Inr (op, dp, bs)" and "op = SYNC \<or> (\<exists>p. ddr dp = Inr p \<and> p + length bs \<le> 0x80000000)"
  shows "\<exists>st'. step_insn insn st = Inr st'"
proof -
  have put: "\<exists>st'. put_insn opc dp bs st = Inr st'" if "op \<noteq> SYNC" for opc
  proof -
    from assms(2) that obtain p where p: "ddr dp = Inr p" "p + length bs \<le> 0x80000000" by blast
    then show ?thesis by (simp add: put_insn_def writeDDR_def write_ddr_poke)
  qed
  show ?thesis
  proof (cases "insn_op insn = ''SYNC''")
    case False
    then show ?thesis using assms(1) put unfolding insn_image_def step_insn_def Let_def
      by (auto simp: rbind_eq_Inr split: if_splits)
  qed (simp add: step_insn_def Let_def)
qed

lemma loop_ready:
  assumes "map insn_image insns = map Inr imgs"
    and "\<forall>(op, dp, bs) \<in> set imgs. op = SYNC \<or> (\<exists>p. ddr dp = Inr p \<and> p + length bs \<le> 0x80000000)"
  shows "\<exists>st'. fold_result step_insn insns st = Inr st'"
  using assms
proof (induction insns arbitrary: imgs st)
  case Nil
  then show ?case by simp
next
  case (Cons insn insns)
  then obtain op dp bs jmgs where j: "imgs = (op, dp, bs) # jmgs" "insn_image insn = Inr (op, dp, bs)" "map insn_image insns = map Inr jmgs"
    by (cases imgs) auto
  from step_insn_ready [OF j(2)] Cons.prems(2) j(1) obtain u where "step_insn insn st = Inr u" by auto
  with Cons.IH [OF j(3), of u] Cons.prems(2) j(1) show ?case by simp
qed

lemma op_readable:
  assumes L: "layout_ok attrs V" and ok: "op_ok is_buf V op" and i: "instruction_op op"
  shows "readable op"
proof -
  have small: "small (dim (value_type v) 0) \<and> small (dim (value_type v) 1)" if "v \<in> set V" for v
  proof -
    have K: "block_ok attrs v" using L that by (simp add: layout_ok_def)
    show ?thesis using block_shape(5,6) [OF K] by (simp add: dim_eq [OF K] small_def)
  qed
  show ?thesis
  proof (cases op)
    case (DmaLoadOp s d)
    with ok have "view_ok s" "mr_shape (value_type s) = mr_shape (value_type d)" "small (dim (value_type (ddr_base s)) 0)" "small (dim (value_type (ddr_base s)) 1)"
      "small (dim (value_type d) 0)" "small (dim (value_type d) 1)"
      using small by (auto simp: op_ok_def verifyDmaLoad_def memref_of_def rbind_eq_Inr)
    with DmaLoadOp show ?thesis by (auto simp: readable_def view_ok_def ddr_base_def split: ir_value.splits)
  next
    case (DmaStoreOp s d)
    with ok small show ?thesis by (auto simp: readable_def op_ok_def ddr_base_def)
  next
    case (ReduceOp s d idx k)
    with ok small show ?thesis by (auto simp: readable_def op_ok_def verifyReduce_def memref_of_def rbind_eq_Inr)
  qed (simp_all add: readable_def)
qed

section \<open>The output\<close>

definition tensor_bytes :: "u16 tensors \<Rightarrow> ir_value \<Rightarrow> u8 list" where
  "tensor_bytes T v = concat (map (\<lambda>i. bytes_of_u16 (T v [int (i div cols_of v), int (i mod cols_of v)])) [0..<rows_of v * cols_of v])"

definition stored :: "operation \<Rightarrow> ir_value option" where
  "stored op = (case op of DmaStoreOp s d \<Rightarrow> Some (ddr_base d) | _ \<Rightarrow> None)"

lemma bytes_of_word: "bytes_of_u16 (u16_of_bytes [a, b]) = [a, b]"
proof -
  have "(ucast (ucast a OR push_bit 8 (ucast b) :: u16) :: u8) = a" "(ucast (drop_bit 8 (ucast a OR push_bit 8 (ucast b) :: u16)) :: u8) = b"
    by (rule bit_word_eqI; auto simp: bit_simps dest: bit_imp_le_length)+
  then show ?thesis by (simp add: bytes_of_u16_def u16_of_bytes_def)
qed

lemma words_of_bytes: "map f [p..<p + 2 * n] = concat (map (\<lambda>i. bytes_of_u16 (u16_of_bytes [f (p + 2 * i), f (p + 2 * i + 1)])) [0..<n])"
  by (induction n) (simp_all add: bytes_of_word)

lemma held_bytes:
  assumes "layout_ok attrs V" and "holds attrs V T m" and "v \<in> set V" and "has_ddr_base v"
  shows "\<exists>p. ddr (base_addr attrs v) = Inr p \<and> read_ddr m p (2 * (rows_of v * cols_of v)) = Inr (tensor_bytes T v)"
proof -
  have K: "block_ok attrs v" using assms(1,3) by (simp add: layout_ok_def)
  have nb: "\<not> is_buf v" by (rule base_not_buf [OF assms(4)])
  define p where "p = ddr_off (base_addr attrs v)"
  have "0 < rows_of v * cols_of v" using block_shape(2,3) [OF K] by simp
  moreover from K nb have b: "0x40010000 \<le> unat (base_addr attrs v)" "unat (base_addr attrs v) + 2 * (rows_of v * cols_of v) \<le> 0xC0000000"
    by (simp_all add: block_ok_def)
  ultimately have "unat (base_addr attrs v) < 0xC0000000" by linarith
  with b have p: "ddr (base_addr attrs v) = Inr p" "p + 2 * (rows_of v * cols_of v) \<le> 0x80000000"
    by (simp_all add: p_def ddr_off_def ddr_eq_Inr)
  have "read_ddr m p (2 * (rows_of v * cols_of v)) = Inr (map (ddr_bytes m) [p..<p + 2 * (rows_of v * cols_of v)])"
    using p(2) by (intro mem.b.rd_in) (simp add: to_nat)
  also have "map (ddr_bytes m) [p..<p + 2 * (rows_of v * cols_of v)] = tensor_bytes T v"
    unfolding words_of_bytes tensor_bytes_def
  proof (intro arg_cong [where f = concat] map_cong refl arg_cong [where f = bytes_of_u16])
    fix i assume "i \<in> set [0..<rows_of v * cols_of v]"
    then have "i div cols_of v < rows_of v" "i mod cols_of v < cols_of v"
      using block_shape(3) [OF K] by (simp_all add: div_less_iff_less_mult)
    from holdsD [OF assms(2,3) this] nb
    show "u16_of_bytes [ddr_bytes m (p + 2 * i), ddr_bytes m (p + 2 * i + 1)] = T v [int (i div cols_of v), int (i mod cols_of v)]"
      by (simp add: elem_def ddr_fp16_def p_def)
  qed
  finally show ?thesis using p(1) by blast
qed

text \<open>The driver's output registers, from the descriptors of the program.\<close>

definition image_store :: "OpCode \<times> u32 \<times> u8 list \<Rightarrow> DMAParam option" where
  "image_store img = (case img of (op, dp, bs) \<Rightarrow> if op = DMA_STORE then Some (load_DMAParam bs) else None)"

lemma store_of_image: "insn_image insn = Inr img \<Longrightarrow> store_of insn = image_store img"
  unfolding insn_image_def store_of_def image_store_def Let_def
  by (auto simp: rbind_eq_Inr split: if_splits)

lemma stores_of_images: "map insn_image insns = map Inr imgs \<Longrightarrow> List.map_filter store_of insns = List.map_filter image_store imgs"
proof (induction insns arbitrary: imgs)
  case (Cons insn insns)
  then obtain img jmgs where "imgs = img # jmgs" "insn_image insn = Inr img" "map insn_image insns = map Inr jmgs" by (cases imgs) auto
  with Cons.IH [of jmgs] store_of_image [of insn img] show ?case by (simp add: List.map_filter_simps split: option.split)
qed (simp add: List.map_filter_simps)

definition param_of :: "attributes \<Rightarrow> ir_value \<Rightarrow> DMAParam \<Rightarrow> bool" where
  "param_of attrs b d \<longleftrightarrow> dma_ddrAddr d = base_addr attrs b \<and> unat (dma_rows d) = rows_of b \<and> unat (dma_cols d) = cols_of b"

lemma program_stores:
  assumes "layout_ok attrs V" and "\<forall>op \<in> set ops. op_ok is_buf V op"
  shows "list_all2 (\<lambda>d b. param_of attrs b d \<and> b \<in> set V \<and> has_ddr_base b)
    (List.map_filter image_store (program_images attrs ops da)) (List.map_filter stored ops)"
  using assms(2)
proof (induction ops arbitrary: da)
  case Nil
  then show ?case by (simp add: List.map_filter_simps)
next
  case (Cons op ops)
  show ?case
  proof (cases "\<exists>s d. op = DmaStoreOp s d")
    case True
    then obtain s d where op: "op = DmaStoreOp s d" by blast
    with Cons.prems obtain i b t where d: "d = CastRes i b t" and V: "b \<in> set V" "has_ddr_base b"
      by (auto simp: op_ok_def view_ok_def ddr_base_def)
    have K: "block_ok attrs b" using assms(1) V by (simp add: layout_ok_def)
    have "\<exists>p. image_store (expected attrs op da) = Some p \<and> param_of attrs b p"
      using block_shape(5,6) [OF K]
      by (simp add: op d expected_def ddr_block_def image_store_def param_of_def dim_eq [OF K] unat_of_nat_small)
    with Cons V show ?thesis by (auto simp: List.map_filter_simps op d stored_def ddr_base_def instruction_op_def)
  next
    case False
    have e: "image_store (expected attrs op da) = None"
    proof (cases op)
      case (EwiseOp b l r d)
      then show ?thesis by (cases b) (simp_all add: expected_def image_store_def)
    qed (use False in \<open>auto simp: expected_def image_store_def split: prod.splits\<close>)
    moreover have "stored op = None" using False by (cases op) (simp_all add: stored_def)
    ultimately show ?thesis using Cons by (simp add: List.map_filter_simps)
  qed
qed

lemma list_all2_last: "list_all2 R xs ys \<Longrightarrow> xs \<noteq> [] \<Longrightarrow> R (last xs) (last ys)"
  by (induction xs ys rule: list_all2_induct) (auto simp: list_all2_Nil)

section \<open>From the text to the output file\<close>

lemma holds_kept:
  assumes "layout_ok attrs V" and "holds attrs V T m" and "sram_bytes m' = sram_bytes m"
    and "\<And>a. 0x10000 \<le> a \<Longrightarrow> ddr_bytes m' a = ddr_bytes m a"
  shows "holds attrs V T m'"
  unfolding holds_def
proof (intro ballI allI impI)
  fix v r c assume v: "v \<in> set V" and rc: "r < rows_of v" "c < cols_of v"
  have "elem attrs m' v i = elem attrs m v i" for i
  proof (cases "is_buf v")
    case False
    moreover have "block_ok attrs v" using assms(1) v by (simp add: layout_ok_def)
    ultimately have "0x10000 \<le> ddr_off (base_addr attrs v)" by (auto simp: block_ok_def ddr_off_def)
    with False assms(4) show ?thesis by (simp add: elem_def ddr_fp16_def)
  qed (simp add: elem_def sram_fp16_def assms(3))
  with holdsD [OF assms(2) v rc] show "elem attrs m' v (r * cols_of v + c) = T v [int r, int c]" by simp
qed

text \<open>The descriptors of a program with at most 1020 of them: apart, and below the slots of the tensors.\<close>

lemma images_low:
  assumes "descriptors ops \<le> 1020"
  shows "sorted_wrt block_apart (program_images attrs ops DESC_STARTADDR)"
    and "\<forall>(opc, dp, bs) \<in> set (program_images attrs ops DESC_STARTADDR). opc = SYNC \<or> 0x40000100 \<le> unat dp \<and> unat dp + length bs \<le> 0x40010000"
    and "img \<in> set (program_images attrs ops DESC_STARTADDR) \<Longrightarrow> 0x10000 \<le> a \<Longrightarrow> \<not> meets img a"
proof -
  have s: "unat DESC_STARTADDR = 0x40000100" by (simp add: DESC_STARTADDR_def DDR_ADDR_def)
  have "unat DESC_STARTADDR + 0x40 * descriptors ops \<le> 0x40010000" using assms by (simp add: s)
  with program_images_layout [of DESC_STARTADDR ops attrs]
  show apart: "sorted_wrt block_apart (program_images attrs ops DESC_STARTADDR)"
    and low: "\<forall>(opc, dp, bs) \<in> set (program_images attrs ops DESC_STARTADDR). opc = SYNC \<or> 0x40000100 \<le> unat dp \<and> unat dp + length bs \<le> 0x40010000"
    by (simp, fastforce simp: s)
  show "\<not> meets img a" if "img \<in> set (program_images attrs ops DESC_STARTADDR)" and "0x10000 \<le> a"
    using low that by (cases img) (fastforce simp: meets_def inside_def)
qed

lemma images_placed:
  assumes insns: "map insn_image insns = map Inr (program_images attrs ops DESC_STARTADDR)"
    and n: "descriptors ops \<le> 1020" and q: "queue sim = []"
  shows "\<exists>st. fold_result step_insn insns \<lparr>drv_sim = sim, outDdr = 0, outBytes = 0\<rparr> = Inr st
    \<and> queue (drv_sim st) = map image_instr (program_images attrs ops DESC_STARTADDR)
    \<and> totalCycles (drv_sim st) = totalCycles sim
    \<and> sram_bytes (cmodel_state (drv_sim st)) = sram_bytes (cmodel_state sim)
    \<and> (\<forall>a \<ge> 0x10000. ddr_bytes (cmodel_state (drv_sim st)) a = ddr_bytes (cmodel_state sim) a)
    \<and> (\<forall>img \<in> set (program_images attrs ops DESC_STARTADDR). in_ddr (cmodel_state (drv_sim st)) img)"
proof -
  define imgs where "imgs = program_images attrs ops DESC_STARTADDR"
  note apart = images_low(1) [OF n, of attrs, folded imgs_def] and low = images_low(2) [OF n, of attrs, folded imgs_def]
  have "\<forall>(op, dp, bs) \<in> set imgs. op = SYNC \<or> (\<exists>p. ddr dp = Inr p \<and> p + length bs \<le> 0x80000000)"
    using low by (fastforce simp: ddr_eq_Inr)
  from loop_ready [OF insns [folded imgs_def] this] obtain st
    where st: "fold_result step_insn insns \<lparr>drv_sim = sim, outDdr = 0, outBytes = 0\<rparr> = Inr st" by blast
  from loop_places [OF st] obtain jmgs where j: "map insn_image insns = map Inr jmgs"
    "queue (drv_sim st) = map image_instr jmgs" "totalCycles (drv_sim st) = totalCycles sim"
    "sram_bytes (cmodel_state (drv_sim st)) = sram_bytes (cmodel_state sim)"
    "\<forall>a. (\<forall>img \<in> set jmgs. \<not> meets img a) \<longrightarrow> ddr_bytes (cmodel_state (drv_sim st)) a = ddr_bytes (cmodel_state sim) a"
    "sorted_wrt block_apart jmgs \<longrightarrow> (\<forall>img \<in> set jmgs. in_ddr (cmodel_state (drv_sim st)) img)"
    using q by auto
  have "map Inr jmgs = (map Inr imgs :: (error + _) list)" using j(1) insns by (simp add: imgs_def)
  then have same: "jmgs = imgs" by (simp add: inj_map_eq_map)
  have "\<not> meets img a" if "img \<in> set imgs" and "0x10000 \<le> a" for img a
    using images_low(3) [OF n] that unfolding imgs_def by blast
  with st j(2-6) apart show ?thesis unfolding same imgs_def [symmetric] by blast
qed

lemma load_inputs_kept:
  assumes "load_inputs fs argv s = Inr t"
  shows "queue t = queue s \<and> totalCycles t = totalCycles s \<and> cycleLog t = cycleLog s"
  by (rule fold_result_invariant [where I = "\<lambda>u. queue u = queue s \<and> totalCycles u = totalCycles s \<and> cycleLog u = cycleLog s", OF assms [unfolded load_inputs_def]])
    (auto simp: writeDDR_def rbind_eq_Inr split: option.splits)

lemma load_inputs_queue: "load_inputs fs argv Simulator_init = Inr sim \<Longrightarrow> queue sim = []"
  using load_inputs_kept by (fastforce simp: Simulator_init_def)

lemma load_inputs_cycles: "load_inputs fs argv Simulator_init = Inr sim \<Longrightarrow> totalCycles sim = 0 \<and> cycleLog sim = []"
  using load_inputs_kept by (fastforce simp: Simulator_init_def)

lemma output_written:
  assumes "layout_ok attrs V" and "holds attrs V T (cmodel_state t)" and "\<forall>op \<in> set ops. op_ok is_buf V op" and "can_write path"
    and "map insn_image insns = map Inr (program_images attrs ops da)"
    and "(a, n) = fold note_store insns (0, 0)"
  shows "\<exists>out. write_output can_write path a n t = Inr out \<and> exit_code out = 0 \<and> printed_cycles out = totalCycles t
    \<and> out_file out = (case List.map_filter stored ops of [] \<Rightarrow> None | b # bs \<Rightarrow> Some (tensor_bytes T (last (b # bs))))"
proof -
  note regs = assms(6) [unfolded fold_note_store stores_of_images [OF assms(5)]]
  note S = program_stores [OF assms(1,3), of da]
  show ?thesis
  proof (cases "List.map_filter image_store (program_images attrs ops da)")
    case Nil
    with S regs show ?thesis by (simp add: write_output_def)
  next
    case (Cons d ds)
    with S obtain b bs where B: "List.map_filter stored ops = b # bs" by (auto simp: list_all2_Cons1)
    define D v where "D = last (d # ds)" and "v = last (b # bs)"
    from list_all2_last [OF S] Cons B have D: "param_of attrs v D" "v \<in> set V" "has_ddr_base v" by (auto simp: D_def v_def)
    have regs: "a = dma_ddrAddr D" "n = ucast (ucast (dma_rows D * dma_cols D) * DTYPE_SIZE)"
      using regs by (simp_all only: Cons list.case prod.inject D_def)
    have K: "block_ok attrs v" using assms(1) D(2) by (simp add: layout_ok_def)
    note sh = block_shape [OF K]
    have prod: "unat (dma_rows D * dma_cols D) = rows_of v * cols_of v"
      using D(1) sh(4) by (simp add: param_of_def unat_mult_no_wrap)
    have n: "unat n = 2 * (rows_of v * cols_of v)"
      unfolding regs(2) unat_out_bytes prod using sh(4) by (subst mod_less) (simp_all add: mult.commute)
    have a: "a = base_addr attrs v" using D(1) by (simp add: regs(1) param_of_def)
    have "n \<noteq> 0" using n sh(2,3) by (metis mult_pos_pos nat_neq_iff pos2 unat_0)
    with held_bytes [OF assms(1,2) D(2,3)] n a assms(4) show ?thesis
      by (auto simp: write_output_def B v_def)
  qed
qed

lemma compiled_run:
  assumes fmt: "number_format (fmt_hex F) (fmt_dec F)"
    and easm: "eclipse_to_easm F attrs unroll True ops = Inr (text, next)" and flat: "unroll ops = Some flat"
    and L: "layout_ok attrs V" and ok: "\<forall>op \<in> set flat. op_ok is_buf V op" and n: "descriptors flat \<le> 1020"
    and argv: "4 \<le> length argv" "fs (argv ! 1) = Some (map of_char text)" "can_write (argv ! 2)"
    and sim: "load_inputs fs argv Simulator_init = Inr sim"
    and T: "holds attrs V T (cmodel_state sim)" and div: "divisors_ok (bit_chip P E) flat T"
  shows "\<exists>out. eclipse_run P fs can_write argv = Inr out \<and> exit_code out = 0
    \<and> out_file out = (case List.map_filter stored flat of [] \<Rightarrow> None
        | b # bs \<Rightarrow> Some (tensor_bytes (run_ops (bit_chip P E) flat T) (last (b # bs))))
    \<and> (\<forall>cs. list_all2 costs (program_images attrs flat DESC_STARTADDR) cs \<longrightarrow> printed_cycles out = of_nat (sum_list cs))"
proof -
  define insns where "insns = parseEasm (text_of_bytes (map of_char text))"
  have "\<forall>op \<in> set flat. instruction_op op \<longrightarrow> readable op" using op_readable [OF L] ok by blast
  from emitter.program_reads_back [OF emitter.intro [OF fmt] easm flat this]
  have insns: "map insn_image insns = map Inr (program_images attrs flat DESC_STARTADDR)"
    by (simp add: insns_def text_of_bytes_of_char)
  from images_placed [OF insns n load_inputs_queue [OF sim]] load_inputs_cycles [OF sim] obtain st
    where st: "fold_result step_insn insns \<lparr>drv_sim = sim, outDdr = 0, outBytes = 0\<rparr> = Inr st"
      and q: "queue (drv_sim st) = map image_instr (program_images attrs flat DESC_STARTADDR)"
      and m: "sram_bytes (cmodel_state (drv_sim st)) = sram_bytes (cmodel_state sim)"
        "\<And>a. 0x10000 \<le> a \<Longrightarrow> ddr_bytes (cmodel_state (drv_sim st)) a = ddr_bytes (cmodel_state sim) a"
      and total: "totalCycles (drv_sim st) = 0"
      and imgs: "\<forall>img \<in> set (program_images attrs flat DESC_STARTADDR). in_ddr (cmodel_state (drv_sim st)) img" by auto
  have H: "holds attrs V T (cmodel_state (drv_sim st\<lparr>queue := []\<rparr>))"
    using holds_kept [OF L T m] by simp
  have "unat DESC_STARTADDR + 0x40 * descriptors flat \<le> 0x40010000" using n by (simp add: DESC_STARTADDR_def DDR_ADDR_def)
  from program_simulates [OF L H ok div _ this] imgs obtain t
    where t: "run P (drv_sim st) = Inr t" "holds attrs V (run_ops (bit_chip P E) flat T) (cmodel_state t)"
      "\<forall>cs. list_all2 costs (program_images attrs flat DESC_STARTADDR) cs \<longrightarrow> totalCycles t = of_nat (sum_list cs)"
    by (auto simp: run_as_list q total)
  have "(outDdr st, outBytes st) = fold note_store insns (0, 0)" using loop_out [OF st] by simp
  from output_written [where can_write = can_write and path = "argv ! 2", OF L t(2) ok argv(3) insns this] obtain out
    where "write_output can_write (argv ! 2) (outDdr st) (outBytes st) t = Inr out" "exit_code out = 0" "printed_cycles out = totalCycles t"
      "out_file out = (case List.map_filter stored flat of [] \<Rightarrow> None
        | b # bs \<Rightarrow> Some (tensor_bytes (run_ops (bit_chip P E) flat T) (last (b # bs))))"
    by blast
  with argv(1,2) sim st t(1,3) show ?thesis by (simp add: eclipse_run_def insns_def [symmetric] Let_def)
qed

section \<open>Properties\<close>

text \<open>
  C3. For any layout of fp16 matrices without empty dimensions in disjoint blocks of SRAM and DDR,
  aligned to 16 bytes, those of DDR from DDR_ADDR + 0x10000 on: when the operations of the
  unrolled program pass their verifiers and keep to the buffers of the layout (transfers at
  multiples of 16 bytes between a buffer and a view of a DDR buffer, three different buffers in a
  matmul, the result of an elementwise operation not its right operand, no ARGMAX), there are at
  most 1020 descriptors, the input files (at least one) can be loaded and the output opened, and
  no division meets a zero divisor on the loaded tensors, then eclipse-run on the text that
  eclipse-to-easm wrote, with any printer of numbers that the parser reads back, returns with exit
  code 0 and writes the tensor that the operations compute from the loaded memory.
\<close>

theorem compiled_program_computes:
  assumes "number_format (fmt_hex F) (fmt_dec F)"
    and "eclipse_to_easm F attrs unroll True ops = Inr (text, next)" and "unroll ops = Some flat"
    and "layout_ok attrs V" and "\<forall>op \<in> set flat. op_ok is_buf V op" and "descriptors flat \<le> 1020"
    and "4 \<le> length argv" and "fs (argv ! 1) = Some (map of_char text)" and "can_write (argv ! 2)"
    and "load_inputs fs argv Simulator_init = Inr sim"
    and "divisors_ok (bit_chip P E) flat (tensors_of attrs (cmodel_state sim))"
  shows "\<exists>out. eclipse_run P fs can_write argv = Inr out \<and> exit_code out = 0
    \<and> out_file out = (case List.map_filter stored flat of [] \<Rightarrow> None
        | b # bs \<Rightarrow> Some (tensor_bytes (run_ops (bit_chip P E) flat (tensors_of attrs (cmodel_state sim))) (last (b # bs))))"
  using compiled_run [where fs = fs and can_write = can_write and argv = argv, OF assms(1-10) holds_tensors_of assms(11)] by blast

text \<open>A program that loads the argument, applies RELU in place and stores the result in a second slot.\<close>

definition demo_ty :: "nat \<Rightarrow> memref" where
  "demo_ty space = (packed_memref [2, 8] f16)\<lparr>mr_space := space\<rparr>"

definition demo_arg :: ir_value where "demo_arg = BlockArg 0 (demo_ty 0)"
definition demo_out :: ir_value where "demo_out = AllocRes 1 (demo_ty 0) None"
definition demo_sram :: ir_value where "demo_sram = SramBuf 2 0x10000000 (demo_ty 0)"

definition demo_flat :: "operation list" where
  "demo_flat = [DmaLoadOp (CastRes 3 demo_arg (demo_ty 1)) demo_sram,
     ActOp demo_sram demo_sram RELU,
     DmaStoreOp demo_sram (CastRes 4 demo_out (demo_ty 1))]"

definition demo_attrs :: attributes where
  "demo_attrs = [demo_arg \<mapsto> 0x40010000, demo_out \<mapsto> 0x40020000]"

definition demo_env :: fp16_env where
  "demo_env = \<lparr>fe_const = (\<lambda>_. 0), fe_other = (\<lambda>_ _ _. 0), fe_index = ucast\<rparr>"

lemma demo_flat_ok:
  "layout_ok demo_attrs [demo_arg, demo_out, demo_sram]"
  "\<forall>op \<in> set demo_flat. op_ok is_buf [demo_arg, demo_out, demo_sram] op"
  "descriptors demo_flat = 3"
  "\<exists>text next. eclipse_to_easm c_formatter demo_attrs Some True demo_flat = Inr (text, next)"
proof -
  note sd = demo_arg_def demo_out_def demo_sram_def demo_ty_def packed_memref_def
  have m: "base_addr demo_attrs demo_arg = 0x40010000" "base_addr demo_attrs demo_out = 0x40020000"
    by (simp_all add: base_addr_def demo_attrs_def demo_arg_def demo_out_def)
  show "layout_ok demo_attrs [demo_arg, demo_out, demo_sram]"
    by (simp add: layout_ok_def block_ok_def blocks_apart_def apart_def m) (simp add: sd is_buf_def has_ddr_base_def rows_of_def cols_of_def sbuf_addr_def)
  show "\<forall>op \<in> set demo_flat. op_ok is_buf [demo_arg, demo_out, demo_sram] op"
    by (simp add: demo_flat_def op_ok_def verifyDmaLoad_def verifyDmaStore_def verifyAct_def memref_of_def view_ok_def ddr_base_def)
      (simp add: sd is_buf_def has_ddr_base_def SRAM_MEMORY_SPACE_def DDR_MEMORY_SPACE_def isPacked_def verify_that_def)
  show "descriptors demo_flat = 3" by (simp add: descriptors_def demo_flat_def instruction_op_def)
  show "\<exists>text next. eclipse_to_easm c_formatter demo_attrs Some True demo_flat = Inr (text, next)"
    by (simp add: eclipse_to_easm_fold [OF refl] demo_flat_def emit_step_def emit_op_def emitActOp_def emitDmaLoadOp_def emitDmaStoreOp_def
        sram_addr_def demo_sram_def demo_arg_def demo_out_def ddrBaseAddr_def attr_addr_def demo_attrs_def has_ddr_base_def Let_def)
qed

theorem compiled_program_computes_witness:
  "\<exists>text sim out. load_inputs (\<lambda>p. if p = ''p'' then Some (map of_char text) else Some [0, 0xC0]) [''eclipse-run'', ''p'', ''o'', ''x''] Simulator_init = Inr sim
    \<and> eclipse_run sample_platform (\<lambda>p. if p = ''p'' then Some (map of_char text) else Some [0, 0xC0]) (\<lambda>_. True) [''eclipse-run'', ''p'', ''o'', ''x''] = Inr out
    \<and> exit_code out = 0
    \<and> out_file out = Some (tensor_bytes (run_ops (bit_chip sample_platform demo_env) demo_flat
        (tensors_of demo_attrs (cmodel_state sim))) demo_out)"
proof -
  obtain prog nxt where e: "eclipse_to_easm c_formatter demo_attrs Some True demo_flat = Inr (prog, nxt)"
    using demo_flat_ok(4) by blast
  define fs where "fs = (\<lambda>p. if p = ''p'' then Some (map of_char prog) else Some [0, 0xC0 :: u8])"
  let ?argv = "[''eclipse-run'', ''p'', ''o'', ''x'']"
  have f: "number_format (fmt_hex c_formatter) (fmt_dec c_formatter)" using c_emitter.emitter_axioms by (simp add: emitter_def)
  have "ddr (DDR_ADDR + 0x10000 * of_nat (3 - 2)) = Inr 0x10000" using input_addr [of 3] by (simp add: ddr_eq_Inr)
  then obtain sim where sim: "load_inputs fs ?argv Simulator_init = Inr sim"
    by (simp add: load_inputs_def upt_rec fs_def writeDDR_def write_ddr_poke)
  have "descriptors demo_flat \<le> 1020" "divisors_ok C demo_flat T" "4 \<le> length ?argv"
    "fs (?argv ! 1) = Some (map of_char prog)" for C T
    by (simp_all add: demo_flat_ok(3) fs_def) (simp add: demo_flat_def divides_ok_def)
  from compiled_program_computes [where can_write = "\<lambda>_. True" and P = sample_platform and E = demo_env, OF f e refl demo_flat_ok(1,2) this(1,3,4) _ sim this(2)]
  have "\<exists>out. eclipse_run sample_platform fs (\<lambda>_. True) ?argv = Inr out \<and> exit_code out = 0
    \<and> out_file out = Some (tensor_bytes (run_ops (bit_chip sample_platform demo_env) demo_flat
        (tensors_of demo_attrs (cmodel_state sim))) demo_out)"
    by (simp add: demo_flat_def List.map_filter_simps stored_def ddr_base_def)
  with sim show ?thesis unfolding fs_def by blast
qed


end
