(* ===== verification/Placed.thy ===== *)
theory Placed
  imports Allocate Compiled
begin

text \<open>
  The allocation pass as a placement: the buffers it hands out, in SRAM and in the DDR slots, are a
  layout in the sense of Refine, and replacing the allocations by their buffers changes no tensor.
  So the back end from the allocation to the output file computes what the operations mean.
\<close>

section \<open>Replacing values\<close>

text \<open>\<open>replaceAllUsesWith\<close> on the operands of an operation.\<close>

primrec map_values :: "(ir_value \<Rightarrow> ir_value) \<Rightarrow> operation \<Rightarrow> operation" where
  "map_values f (Define v) = Define (f v)"
| "map_values f (DmaLoadOp s d) = DmaLoadOp (f s) (f d)"
| "map_values f (DmaStoreOp s d) = DmaStoreOp (f s) (f d)"
| "map_values f SyncOp = SyncOp"
| "map_values f (MatmulOp l r d acc ta tb) = MatmulOp (f l) (f r) (f d) acc ta tb"
| "map_values f (EwiseOp b l r d) = EwiseOp b (f l) (f r) (f d)"
| "map_values f (ActOp s d k) = ActOp (f s) (f d) k"
| "map_values f (ReduceOp s d i k) = ReduceOp (f s) (f d) (map_option f i) k"
| "map_values f (DeallocOp v) = DeallocOp (f v)"
| "map_values f (ForOp lb ub st body) = ForOp lb ub st (map (map_values f) \<circ> body)"
| "map_values f (OtherOp vs) = OtherOp (map f vs)"

lemma replace_view [simp]:
  "value_type (replace_allocs m v) = value_type v"
  "root_of (replace_allocs m v) = replace_allocs m (root_of v)"
  "root_index (replace_allocs m v) js = root_index v js"
  "own_index (replace_allocs m v) js = own_index v js"
  "addressable (replace_allocs m v) = addressable v"
proof -
  show ty [simp]: "value_type (replace_allocs m v) = value_type v" for v by (cases v) (auto split: option.splits)
  show "root_of (replace_allocs m v) = replace_allocs m (root_of v)" by (induction v) (auto split: option.splits)
  show "root_index (replace_allocs m v) js = root_index v js" by (induction v arbitrary: js) (auto split: option.splits)
  show "own_index (replace_allocs m v) js = own_index v js" by (induction v arbitrary: js) (auto split: option.splits)
  show "addressable (replace_allocs m v) = addressable v" by (induction v) (auto split: option.splits)
qed

lemma replace_rows [simp]: "rows_of (replace_allocs m v) = rows_of v" "cols_of (replace_allocs m v) = cols_of v"
  by (simp_all add: rows_of_def cols_of_def)

text \<open>The tensors of the replaced buffers.\<close>

definition renames :: "(ir_value \<rightharpoonup> u32) \<Rightarrow> ir_value list \<Rightarrow> 'a tensors \<Rightarrow> 'a tensors \<Rightarrow> bool" where
  "renames m V T T' \<longleftrightarrow> (\<forall>v \<in> set V. T' (replace_allocs m v) = T v)"

lemma read_renamed: "renames m V T T' \<Longrightarrow> root_of v \<in> set V \<Longrightarrow> read T' (replace_allocs m v) js = read T v js"
  by (simp add: renames_def read_def)

lemma store_renamed:
  assumes "inj_on (replace_allocs m) (set V)" and "renames m V T T'" and "root_of v \<in> set V" and "\<And>js. g' js = g js"
  shows "renames m V (store T v g) (store T' (replace_allocs m v) g')"
proof -
  have "store T' (replace_allocs m v) g' (replace_allocs m w) = store T v g w" if w: "w \<in> set V" for w
  proof (cases "w = root_of v")
    case True
    then show ?thesis using assms(2-4) by (auto simp: store_def renames_def in_shape_def Let_def fun_eq_iff)
  next
    case False
    then have "replace_allocs m w \<noteq> root_of (replace_allocs m v)" using inj_onD [OF assms(1) _ w assms(3)] by auto
    then show ?thesis using False w assms(2) by (simp add: store_other renames_def)
  qed
  then show ?thesis by (simp add: renames_def)
qed

fun op_roots :: "operation \<Rightarrow> ir_value set" where
  "op_roots (DmaLoadOp s d) = {root_of s, root_of d}"
| "op_roots (DmaStoreOp s d) = {root_of s, root_of d}"
| "op_roots (MatmulOp l r d acc ta tb) = {root_of l, root_of r, root_of d}"
| "op_roots (EwiseOp b l r d) = {root_of l, root_of r, root_of d}"
| "op_roots (ActOp s d k) = {root_of s, root_of d}"
| "op_roots (ReduceOp s d i k) = {root_of s, root_of d} \<union> root_of ` set_option i"
| "op_roots op = {}"

definition flat_op :: "operation \<Rightarrow> bool" where
  "flat_op op = (case op of ForOp lb ub st body \<Rightarrow> False | _ \<Rightarrow> True)"

lemma step_renamed:
  assumes inj: "inj_on (replace_allocs m) (set V)" and ren: "renames m V T T'" and "op_roots op \<subseteq> set V" and "flat_op op"
  shows "renames m V (step_op C op T) (step_op C (map_values (replace_allocs m) op) T')"
proof (cases op)
  case (MatmulOp l r d acc ta tb)
  with assms(3) read_renamed [OF ren] show ?thesis
    by (auto simp: dot_pairs_def intro!: store_renamed [OF inj ren] cong: if_cong)
next
  case (ReduceOp s d i k)
  have rows: "row_values T' (replace_allocs m s) = row_values T s"
    using read_renamed [OF ren] assms(3) by (simp add: ReduceOp row_values_def fun_eq_iff)
  have r1: "renames m V (store T d (\<lambda>js. ch_reduce C k (row_values T s (js ! 0))))
      (store T' (replace_allocs m d) (\<lambda>js. ch_reduce C k (row_values T' (replace_allocs m s) (js ! 0))))"
    by (rule store_renamed [OF inj ren]) (use assms(3) rows ReduceOp in simp_all)
  show ?thesis
  proof (cases i)
    case None
    with r1 show ?thesis by (simp add: ReduceOp)
  next
    case (Some v)
    with store_renamed [OF inj r1, of v "\<lambda>js. ch_argmax C (row_values T' (replace_allocs m s) (js ! 0))"
        "\<lambda>js. ch_argmax C (row_values T s (js ! 0))"] rows assms(3) show ?thesis by (simp add: ReduceOp)
  qed
qed (use assms read_renamed [OF ren] in \<open>auto intro!: store_renamed [OF inj ren] simp: flat_op_def\<close>)

lemma run_renamed:
  assumes "inj_on (replace_allocs m) (set V)" and "renames m V T T'" and "\<forall>op \<in> set ops. op_roots op \<subseteq> set V \<and> flat_op op"
  shows "renames m V (run_ops C ops T) (run_ops C (map (map_values (replace_allocs m)) ops) T')"
  using assms(2,3)
proof (induction ops arbitrary: T T')
  case (Cons op ops)
  with step_renamed [OF assms(1) Cons.prems(1), of op C] show ?case by simp
qed simp

section \<open>What is kept under the replacement\<close>

definition in_bufs :: "(ir_value \<rightharpoonup> u32) \<Rightarrow> ir_value \<Rightarrow> bool" where
  "in_bufs m v \<longleftrightarrow> (case v of AllocRes i t al \<Rightarrow> m v \<noteq> None | _ \<Rightarrow> False)"

lemma in_bufs_buf [simp]: "in_bufs m v \<Longrightarrow> is_buf (replace_allocs m v)"
  by (cases v) (auto simp: in_bufs_def is_buf_def)

lemma replace_base: "\<not> in_bufs m v \<Longrightarrow> has_ddr_base v \<Longrightarrow> replace_allocs m v = v"
  by (cases v) (auto simp: in_bufs_def has_ddr_base_def)

lemma replace_alloc: "in_bufs m v \<Longrightarrow> \<exists>i t a al. v = AllocRes i t al \<and> m v = Some a \<and> replace_allocs m v = SramBuf i a t"
  by (cases v) (auto simp: in_bufs_def)

lemma view_replaced:
  assumes "view_ok v" and "\<not> in_bufs m (ddr_base v)"
  shows "view_ok (replace_allocs m v) \<and> ddr_base (replace_allocs m v) = replace_allocs m (ddr_base v)"
proof (cases v)
  case (CastRes i b t)
  with assms have "replace_allocs m b = b" by (intro replace_base) (simp_all add: view_ok_def ddr_base_def)
  then have "replace_allocs m v = v" by (simp add: CastRes)
  with assms(1) show ?thesis by (simp add: CastRes ddr_base_def)
next
  case (SubViewRes i w offs sizes strides t)
  with assms(1) obtain j b t' where w: "w = CastRes j b t'" by (auto simp: view_ok_def split: ir_value.splits)
  with SubViewRes assms have "replace_allocs m b = b" by (intro replace_base) (simp_all add: view_ok_def ddr_base_def)
  then have "replace_allocs m v = v" by (simp add: SubViewRes w)
  with assms(1) show ?thesis by (simp add: SubViewRes w ddr_base_def)
qed (use assms(1) in \<open>simp_all add: view_ok_def\<close>)

lemma op_ok_replaced:
  assumes inj: "inj_on (replace_allocs m) (set V)" and ok: "op_ok (in_bufs m) V op"
  shows "op_ok is_buf (map (replace_allocs m) V) (map_values (replace_allocs m) op)"
proof -
  have eq: "replace_allocs m v = replace_allocs m w \<longleftrightarrow> v = w" if "v \<in> set V" "w \<in> set V" for v w
    using inj_onD [OF inj _ that] by auto
  have base: "\<not> is_buf (replace_allocs m (ddr_base v))" if "view_ok v" "\<not> in_bufs m (ddr_base v)" for v
  proof -
    have "has_ddr_base (ddr_base v)" using that(1) by (auto simp: view_ok_def ddr_base_def split: ir_value.splits)
    with replace_base [OF that(2) this] base_not_buf show ?thesis by simp
  qed
  show ?thesis
  proof (cases op)
    case (DmaLoadOp s d)
    with ok view_replaced [of s m] base [of s] show ?thesis by (auto simp: op_ok_def)
  next
    case (DmaStoreOp s d)
    with ok view_replaced [of d m] base [of d] show ?thesis by (auto simp: op_ok_def)
  next
    case (ReduceOp s d i k)
    with ok have "i = None" by (auto simp: op_ok_def verifyReduce_def memref_of_def rbind_eq_Inr)
    with ok ReduceOp eq show ?thesis by (auto simp: op_ok_def verifyReduce_def memref_of_def rbind_eq_Inr)
  qed (use ok eq in \<open>auto simp: op_ok_def\<close>)
qed

lemma op_ok_roots: "op_ok (in_bufs m) V op \<Longrightarrow> op_roots op \<subseteq> set V \<and> flat_op op"
proof -
  assume ok: "op_ok (in_bufs m) V op"
  have b: "root_of v = v" if "in_bufs m v" for v using that by (cases v) (simp_all add: in_bufs_def)
  have view: "root_of v = ddr_base v" if "view_ok v" for v
    using that by (auto simp: view_ok_def ddr_base_def has_ddr_base_def split: ir_value.splits)
  show ?thesis
  proof (cases op)
    case (ReduceOp s d i k)
    with ok have "i = None" by (auto simp: op_ok_def verifyReduce_def memref_of_def rbind_eq_Inr)
    with ok ReduceOp b show ?thesis by (auto simp: op_ok_def flat_op_def)
  qed (use ok b view in \<open>auto simp: op_ok_def flat_op_def\<close>)
qed

lemma divisors_replaced:
  assumes "inj_on (replace_allocs m) (set V)" and "renames m V T T'" and "\<forall>op \<in> set ops. op_ok (in_bufs m) V op"
  shows "divisors_ok C (map (map_values (replace_allocs m)) ops) T' = divisors_ok C ops T"
  using assms(2,3)
proof (induction ops arbitrary: T T')
  case (Cons op ops)
  have ok: "op_ok (in_bufs m) V op" using Cons.prems(2) by simp
  have "divides_ok (map_values (replace_allocs m) op) T' = divides_ok op T"
  proof (cases op)
    case (EwiseOp b l r d)
    then have "T' (replace_allocs m r) = T r" using ok Cons.prems(1) by (simp add: op_ok_def renames_def)
    with EwiseOp show ?thesis by (cases b) (simp_all add: divides_ok_def)
  qed (simp_all add: divides_ok_def)
  moreover have "renames m V (step_op C op T) (step_op C (map_values (replace_allocs m) op) T')"
    using step_renamed [OF assms(1) Cons.prems(1)] op_ok_roots [OF ok] by blast
  ultimately show ?case using Cons.IH Cons.prems(2) by simp
qed simp

section \<open>The layout that the pass makes\<close>

text \<open>
  A root value that the pass has placed: a matrix of fp16 with positive extents; in SRAM at an
  alignment of 16 bytes, or in DDR within its slot of 64 KiB.
\<close>

definition placeable :: "alloc_state \<Rightarrow> ir_value \<Rightarrow> bool" where
  "placeable st v \<longleftrightarrow> length (mr_shape (value_type v)) = 2 \<and> 0 < rows_of v \<and> 0 < cols_of v \<and> mr_elem (value_type v) = f16
     \<and> (if in_bufs (as_bufs st) v then 16 dvd buf_align v
        else has_ddr_base v \<and> as_attrs st v \<noteq> None \<and> 2 * (rows_of v * cols_of v) \<le> 0x10000)"

lemma placeable_bytes: "placeable st v \<Longrightarrow> buf_bytes v = 2 * (rows_of v * cols_of v)"
proof -
  assume p: "placeable st v"
  then obtain a b where "mr_shape (value_type v) = [a, b]" by (auto simp: placeable_def length_Suc_conv numeral_2_eq_2)
  moreover have "mr_elem (value_type v) = f16" "0 < rows_of v" "0 < cols_of v" using p by (simp_all add: placeable_def)
  ultimately show ?thesis
    by (simp add: buf_bytes_def byte_size_def num_elements_def rows_of_def cols_of_def f16_def nat_mult_distrib)
qed

lemma slot_nat: "j < 0x7FFF \<Longrightarrow> unat (slot j) = 0x40010000 + 0x10000 * j"
  by (simp add: unat_slot)

lemma slot_addr:
  assumes "ddr_inv 0x7FFF st" and "as_attrs st v = Some a"
  shows "\<exists>j < 0x7FFF. base_addr (as_attrs st) v = slot j \<and> a = uint (slot j)"
proof -
  from assms obtain k j where j: "k \<le> 0x7FFF" "j < k" "a = uint (slot j)" unfolding ddr_inv_def by blast
  then have "base_addr (as_attrs st) v = slot j" using assms(2) by (simp add: base_addr_def)
  moreover have "j < 0x7FFF" using j by simp
  ultimately show ?thesis using j(3) by blast
qed

lemma allocated_layout:
  assumes "sram_inv st" and "ddr_inv 0x7FFF st" and V: "\<forall>v \<in> set V. placeable st v"
  shows "layout_ok (as_attrs st) (map (replace_allocs (as_bufs st)) V) \<and> inj_on (replace_allocs (as_bufs st)) (set V)"
proof -
  let ?f = "replace_allocs (as_bufs st)"
  have ok: "block_ok (as_attrs st) (?f v)" if v: "v \<in> set V" for v
  proof (cases "in_bufs (as_bufs st) v")
    case True
    then obtain i t a al where r: "v = AllocRes i t al" "as_bufs st v = Some a" "?f v = SramBuf i a t" using replace_alloc by blast
    have "0x10000000 \<le> unat a" "unat a + buf_bytes v \<le> 0x10080000" "buf_align v dvd unat a"
      using assms(1) r(2) unfolding sram_inv_def by (blast, meson le_trans, blast)
    moreover have p: "placeable st v" using V v by blast
    then have "length (mr_shape (value_type v)) = 2" "0 < rows_of v" "0 < cols_of v" "16 dvd buf_align v"
      using True by (simp_all add: placeable_def)
    moreover have "is_buf (?f v)" "sbuf_addr (?f v) = a" using True by (simp, simp only: r(3) sbuf_addr_def ir_value.case)
    ultimately show ?thesis by (simp add: block_ok_def mod16 placeable_bytes [OF p] mod_eq_0_iff_dvd) (metis dvd_trans)
  next
    case False
    with V v have p: "has_ddr_base v" "2 * (rows_of v * cols_of v) \<le> 0x10000" by (simp_all add: placeable_def)
    from False V v obtain j where j: "j < 0x7FFF" "base_addr (as_attrs st) v = slot j"
      using slot_addr [OF assms(2)] by (fastforce simp: placeable_def)
    have "16 dvd unat (slot j)" unfolding slot_nat [OF j(1)] by (intro dvd_add dvd_mult2) simp_all
    then have "unat (slot j) mod 16 = 0" by (rule dvd_imp_mod_0)
    moreover have "0x40010000 \<le> unat (slot j)" "unat (slot j) + 2 * (rows_of v * cols_of v) \<le> 0xC0000000"
      using slot_nat [OF j(1)] j(1) p(2) by linarith+
    moreover have "length (mr_shape (value_type v)) = 2" "0 < rows_of v" "0 < cols_of v" using V v by (simp_all add: placeable_def)
    ultimately show ?thesis
      by (simp only: block_ok_def replace_base [OF False p(1)] base_not_buf [OF p(1)] mod16 j(2) p(1) if_False simp_thms)
  qed
  have apart: "blocks_apart (as_attrs st) (?f v) (?f w)" if v: "v \<in> set V" and w: "w \<in> set V" and ne: "v \<noteq> w" for v w
  proof (cases "in_bufs (as_bufs st) v")
    case True
    then obtain i t a al where r: "v = AllocRes i t al" "as_bufs st v = Some a" "?f v = SramBuf i a t" using replace_alloc by blast
    show ?thesis
    proof (cases "in_bufs (as_bufs st) w")
      case bw: True
      then obtain j t' b al' where s: "w = AllocRes j t' al'" "as_bufs st w = Some b" "?f w = SramBuf j b t'" using replace_alloc by blast
      have "apart (unat a) (buf_bytes v) (unat b) (buf_bytes w)"
        using assms(1) r(2) s(2) ne unfolding sram_inv_def by blast
      moreover have "buf_bytes v = 2 * (rows_of v * cols_of v)" "buf_bytes w = 2 * (rows_of w * cols_of w)"
        using placeable_bytes V v w by blast+
      ultimately show ?thesis using True bw by (simp add: blocks_apart_def) (simp add: r(3) s(3) sbuf_addr_def)
    next
      case False
      with V w have "has_ddr_base w" by (simp add: placeable_def)
      with replace_base [OF False this] base_not_buf True show ?thesis by (simp add: blocks_apart_def)
    qed
  next
    case False
    with V v have p: "has_ddr_base v" "2 * (rows_of v * cols_of v) \<le> 0x10000" by (simp_all add: placeable_def)
    note fv = replace_base [OF False p(1)] base_not_buf [OF p(1)]
    show ?thesis
    proof (cases "in_bufs (as_bufs st) w")
      case bw: False
      with V w have q: "has_ddr_base w" "2 * (rows_of w * cols_of w) \<le> 0x10000" by (simp_all add: placeable_def)
      note fw = replace_base [OF bw q(1)] base_not_buf [OF q(1)]
      from False bw V v w obtain a b where ab: "as_attrs st v = Some a" "as_attrs st w = Some b"
        unfolding placeable_def by (metis not_Some_eq)
      from slot_addr [OF assms(2) ab(1)] slot_addr [OF assms(2) ab(2)] obtain i j
        where ij: "i < 0x7FFF" "base_addr (as_attrs st) v = slot i" "a = uint (slot i)"
          "j < 0x7FFF" "base_addr (as_attrs st) w = slot j" "b = uint (slot j)" by blast
      have "i \<noteq> j"
      proof
        assume "i = j"
        with ij ab have "as_attrs st v = Some a" "as_attrs st w = Some a" by simp_all
        with assms(2) ne show False unfolding ddr_inv_def by blast
      qed
      then have "i + 1 \<le> j \<or> j + 1 \<le> i" by linarith
      then have "apart (unat (slot i)) (2 * (rows_of v * cols_of v)) (unat (slot j)) (2 * (rows_of w * cols_of w))"
        using p(2) q(2) slot_nat [OF ij(1)] slot_nat [OF ij(4)] unfolding apart_def by linarith
      with fv fw ij show ?thesis by (simp add: blocks_apart_def)
    next
      case True
      with fv show ?thesis by (simp add: blocks_apart_def)
    qed
  qed
  have "inj_on ?f (set V)"
  proof (rule inj_onI, rule ccontr)
    fix v w assume vw: "v \<in> set V" "w \<in> set V" "?f v = ?f w" "v \<noteq> w"
    from apart [OF vw(1,2,4)] vw(3) block_shape(2,3) [OF ok [OF vw(2)]] show False
      by (simp add: blocks_apart_def apart_def split: if_splits)
  qed
  with ok apart show ?thesis by (auto simp: layout_ok_def)
qed

section \<open>The placed program\<close>

lemma stores_replaced:
  assumes "\<forall>op \<in> set ops. op_ok (in_bufs m) V op"
  shows "List.map_filter stored (map (map_values (replace_allocs m)) ops) = map (replace_allocs m) (List.map_filter stored ops)"
  using assms
proof (induction ops)
  case (Cons op ops)
  have "stored (map_values (replace_allocs m) op) = map_option (replace_allocs m) (stored op)"
  proof (cases op)
    case (DmaStoreOp s d)
    with Cons.prems view_replaced [of d m] show ?thesis by (auto simp: stored_def op_ok_def)
  qed (simp_all add: stored_def)
  with Cons show ?case by (auto simp: List.map_filter_simps split: option.split)
qed (simp add: List.map_filter_simps)

lemma stored_in: "\<forall>op \<in> set ops. op_ok (in_bufs m) V op \<Longrightarrow> set (List.map_filter stored ops) \<subseteq> set V"
  by (induction ops) (auto simp: List.map_filter_simps stored_def op_ok_def split: operation.splits)

lemma bytes_renamed: "renames m V T T' \<Longrightarrow> v \<in> set V \<Longrightarrow> tensor_bytes T' (replace_allocs m v) = tensor_bytes T v"
  by (simp add: tensor_bytes_def renames_def)

text \<open>The memory holds the tensors of the values before their replacement.\<close>

definition placed_tensors :: "alloc_state \<Rightarrow> ir_value list \<Rightarrow> u16 tensors \<Rightarrow> cmodel \<Rightarrow> bool" where
  "placed_tensors st V T m \<longleftrightarrow> (\<forall>v \<in> set V. \<forall>r<rows_of v. \<forall>c<cols_of v.
     elem (as_attrs st) m (replace_allocs (as_bufs st) v) (r * cols_of v + c) = T v [int r, int c])"

lemma descriptors_replaced: "descriptors (map (map_values f) ops) = descriptors ops"
proof -
  have "instruction_op (map_values f op) = instruction_op op \<and> (map_values f op = SyncOp) = (op = SyncOp)" for op
    by (cases op) (simp_all add: instruction_op_def)
  then show ?thesis by (simp add: descriptors_def filter_map comp_def)
qed

text \<open>What the machine lemmas need of a placed program: the same tensors, under the names of the buffers.\<close>

lemma placed_names:
  assumes inv: "sram_inv st" "ddr_inv 0x7FFF st" and V: "\<forall>v \<in> set V. placeable st v"
    and ok: "\<forall>op \<in> set flat. op_ok (in_bufs (as_bufs st)) V op"
    and T: "placed_tensors st V T m" and div: "divisors_ok C flat T"
  shows "\<exists>T'. layout_ok (as_attrs st) (map (replace_allocs (as_bufs st)) V) \<and> holds (as_attrs st) (map (replace_allocs (as_bufs st)) V) T' m
    \<and> (\<forall>op \<in> set (map (map_values (replace_allocs (as_bufs st))) flat). op_ok is_buf (map (replace_allocs (as_bufs st)) V) op)
    \<and> divisors_ok C (map (map_values (replace_allocs (as_bufs st))) flat) T'
    \<and> renames (as_bufs st) V (run_ops C flat T) (run_ops C (map (map_values (replace_allocs (as_bufs st))) flat) T')"
proof -
  define f where "f = replace_allocs (as_bufs st)"
  note fd = f_def [symmetric]
  from allocated_layout [OF inv V] have L: "layout_ok (as_attrs st) (map f V)" and inj: "inj_on f (set V)" by (simp_all add: f_def)
  define T' where "T' = (\<lambda>w. T (inv_into (set V) f w))"
  have ren: "renames (as_bufs st) V T T'" by (simp add: renames_def T'_def fd inv_into_f_f [OF inj])
  have H: "holds (as_attrs st) (map f V) T' m"
    using T by (simp add: holds_def placed_tensors_def f_def [symmetric] T'_def inv_into_f_f [OF inj]) (simp add: f_def)
  have ok': "\<forall>op \<in> set (map (map_values f) flat). op_ok is_buf (map f V) op"
    using op_ok_replaced [OF inj [unfolded f_def]] ok by (simp add: f_def)
  have div': "divisors_ok C (map (map_values f) flat) T'"
    using divisors_replaced [OF inj [unfolded f_def] ren ok] div by (simp add: f_def)
  have R: "renames (as_bufs st) V (run_ops C flat T) (run_ops C (map (map_values f) flat) T')"
    unfolding f_def using op_ok_roots ok by (intro run_renamed [OF inj [unfolded f_def] ren]) blast
  from L H ok' div' R show ?thesis unfolding f_def by blast
qed

lemma allocated_run:
  assumes fmt: "number_format (fmt_hex F) (fmt_dec F)" and al: "align_to alignTo"
    and req: "\<forall>op \<in> set ops. request_ok op" "sum_list (map length funcs) + length ops \<le> 0x7FFF"
    and st: "st = eclipse_allocate alignTo False funcs ops" and V: "\<forall>v \<in> set V. placeable st v"
    and ok: "\<forall>op \<in> set flat. op_ok (in_bufs (as_bufs st)) V op" and n: "descriptors flat \<le> 1020"
    and easm: "eclipse_to_easm F (as_attrs st) unroll True (map (map_values (replace_allocs (as_bufs st))) ops) = Inr (text, next)"
    and un: "unroll (map (map_values (replace_allocs (as_bufs st))) ops) = Some (map (map_values (replace_allocs (as_bufs st))) flat)"
    and argv: "4 \<le> length argv" "fs (argv ! 1) = Some (map of_char text)" "can_write (argv ! 2)"
    and sim: "load_inputs fs argv Simulator_init = Inr sim"
    and T: "placed_tensors st V T (cmodel_state sim)" and div: "divisors_ok (bit_chip P E) flat T"
  shows "\<exists>out. eclipse_run P fs can_write argv = Inr out \<and> exit_code out = 0
    \<and> out_file out = (case List.map_filter stored flat of [] \<Rightarrow> None
        | b # bs \<Rightarrow> Some (tensor_bytes (run_ops (bit_chip P E) flat T) (last (b # bs))))
    \<and> (\<forall>cs. list_all2 costs (program_images (as_attrs st) (map (map_values (replace_allocs (as_bufs st))) flat) DESC_STARTADDR) cs
        \<longrightarrow> printed_cycles out = of_nat (sum_list cs))"
proof -
  define f where "f = replace_allocs (as_bufs st)"
  note fd = f_def [symmetric]
  have inv: "sram_inv st" "ddr_inv 0x7FFF st"
    unfolding st using align_to.sram_inv_pass [OF al req(1)] ddr_inv_pass [OF req(2)] by blast+
  from placed_names [OF inv V ok T div] obtain T' where L: "layout_ok (as_attrs st) (map f V)"
    and H: "holds (as_attrs st) (map f V) T' (cmodel_state sim)"
    and ok': "\<forall>op \<in> set (map (map_values f) flat). op_ok is_buf (map f V) op"
    and div': "divisors_ok (bit_chip P E) (map (map_values f) flat) T'"
    and R: "renames (as_bufs st) V (run_ops (bit_chip P E) flat T) (run_ops (bit_chip P E) (map (map_values f) flat) T')"
    unfolding fd by blast
  have "(case List.map_filter stored (map (map_values f) flat) of [] \<Rightarrow> None
        | b # bs \<Rightarrow> Some (tensor_bytes (run_ops (bit_chip P E) (map (map_values f) flat) T') (last (b # bs))))
      = (case List.map_filter stored flat of [] \<Rightarrow> None
        | b # bs \<Rightarrow> Some (tensor_bytes (run_ops (bit_chip P E) flat T) (last (b # bs))))"
  proof (cases "List.map_filter stored flat")
    case Nil
    then show ?thesis using stores_replaced [OF ok] by (simp add: f_def)
  next
    case (Cons b bs)
    have "last (b # bs) \<in> set V" using stored_in [OF ok] last_in_set [of "b # bs"] unfolding Cons by blast
    moreover have "last (f b # map f bs) = f (last (b # bs))" using last_map [of "b # bs" f] by simp
    ultimately show ?thesis using bytes_renamed [OF R] stores_replaced [OF ok] Cons
      by (simp add: f_def del: last.simps)
  qed
  moreover have "\<exists>out. eclipse_run P fs can_write argv = Inr out \<and> exit_code out = 0
    \<and> out_file out = (case List.map_filter stored (map (map_values f) flat) of [] \<Rightarrow> None
        | b # bs \<Rightarrow> Some (tensor_bytes (run_ops (bit_chip P E) (map (map_values f) flat) T') (last (b # bs))))
    \<and> (\<forall>cs. list_all2 costs (program_images (as_attrs st) (map (map_values f) flat) DESC_STARTADDR) cs
        \<longrightarrow> printed_cycles out = of_nat (sum_list cs))"
    by (rule compiled_run [where F = F and attrs = "as_attrs st" and unroll = unroll and ops = "map (map_values f) ops" and V = "map f V"])
      (use fmt easm un L ok' n argv sim H div' in \<open>simp_all only: fd descriptors_replaced\<close>)
  ultimately show ?thesis unfolding f_def by (simp only:)
qed

end
