(* ===== verification/Module.thy ===== *)
theory Module
  imports Placed
begin

text \<open>
  The back end as a whole: a module after lowering, its function's arguments in files, through
  allocation, emission and eclipse-run to the output file.  The tensors are those of the files; all
  other buffers start as zeros.
\<close>

section \<open>What the loader leaves in memory\<close>

definition writes_inputs :: "(nat \<Rightarrow> u8 list) \<Rightarrow> nat \<Rightarrow> cmodel \<Rightarrow> cmodel result" where
  "writes_inputs buf n = fold_result (\<lambda>k m. write_ddr m (0x10000 * Suc k) (buf k)) [0..<n]"

lemma load_as_writes:
  assumes "length argv = n + 3" and "n \<le> 0x7FFE" and "\<And>k. k < n \<Longrightarrow> fs (argv ! (k + 3)) = Some (buf k)"
  shows "load_inputs fs argv s = rbind (writes_inputs buf n (cmodel_state s)) (\<lambda>m. Inr (s\<lparr>cmodel_state := m\<rparr>))"
proof -
  define body where "body = (\<lambda>i sim. case fs (argv ! i) of None \<Rightarrow> Inl (ExitWith 2)
       | Some b \<Rightarrow> writeDDR sim (DDR_ADDR + 0x10000 * of_nat (i - 2)) b)"
  have one: "body (k + 3) s = rbind (write_ddr (cmodel_state s) (0x10000 * Suc k) (buf k)) (\<lambda>m. Inr (s\<lparr>cmodel_state := m\<rparr>))" if "k < n" for k s
  proof -
    have "unat (DDR_ADDR + 0x10000 * of_nat ((k + 3) - 2) :: u32) = 0x40000000 + 0x10000 * ((k + 3) - 2)"
      by (rule input_addr) (use that assms(2) in simp_all)
    then have "ddr (DDR_ADDR + 0x10000 * of_nat ((k + 3) - 2)) = Inr (0x10000 * Suc k)"
      using that assms(2) by (simp add: ddr_eq_Inr)
    then show ?thesis using assms(3) [OF that] by (simp add: body_def writeDDR_def)
  qed
  have "fold_result body (map (\<lambda>k. k + 3) [0..<j]) s = rbind (writes_inputs buf j (cmodel_state s)) (\<lambda>m. Inr (s\<lparr>cmodel_state := m\<rparr>))"
    if "j \<le> n" for j
    using that
  proof (induction j)
    case 0
    then show ?case by (simp add: writes_inputs_def)
  next
    case (Suc j)
    then show ?case using one [of j]
      by (cases "writes_inputs buf j (cmodel_state s)") (simp_all add: fold_result_append writes_inputs_def rbind_assoc)
  qed
  from this [OF le_refl] map_add_upt [of 3 n] assms(1) show ?thesis by (simp add: load_inputs_def body_def)
qed

lemma inputs_loaded:
  assumes "length argv = n + 3" and "n \<le> 0x7FFE" and "\<And>k. k < n \<Longrightarrow> fs (argv ! (k + 3)) = Some (buf k) \<and> length (buf k) \<le> 0x10000"
  shows "\<exists>sim. load_inputs fs argv Simulator_init = Inr sim \<and> sram_bytes (cmodel_state sim) = (\<lambda>_. 0)
    \<and> (\<forall>k<n. \<forall>a<length (buf k). ddr_bytes (cmodel_state sim) (0x10000 * Suc k + a) = buf k ! a)
    \<and> (\<forall>a. (\<forall>k<n. \<not> inside (0x10000 * Suc k) (length (buf k)) a) \<longrightarrow> ddr_bytes (cmodel_state sim) a = 0)"
proof -
  have "\<exists>t. writes_inputs buf n CModel_init = Inr t \<and> sram_bytes t = sram_bytes CModel_init
    \<and> (\<forall>k<n. read_ddr t (0x10000 * Suc k) (length (buf k)) = Inr (buf k))
    \<and> (\<forall>a. (\<forall>k<n. \<not> inside (0x10000 * Suc k) (length (buf k)) a) \<longrightarrow> ddr_bytes t a = ddr_bytes CModel_init a)"
    unfolding writes_inputs_def
  proof (rule mem.b.fold_writes)
    fix k assume k: "k < n"
    then have "0x10000 * Suc k \<le> 0x10000 * 0x7FFE" using assms(2) by (intro mult_le_mono2) simp
    with assms(3) [OF k] show "0x10000 * Suc k + length (buf k) \<le> unat DDR_SIZE" by (simp add: to_nat)
  next
    fix i j :: nat assume ij: "i < j" "j < n"
    then have "0x10000 * Suc (Suc i) \<le> 0x10000 * Suc j" by (intro mult_le_mono2) simp
    with assms(3) [of i] ij show "apart (0x10000 * Suc i) (length (buf i)) (0x10000 * Suc j) (length (buf j))"
      by (simp add: apart_def)
  qed (simp_all add: mem.wr_b_frame)
  then obtain t where t: "writes_inputs buf n CModel_init = Inr t" "sram_bytes t = sram_bytes CModel_init"
    "\<And>k. k < n \<Longrightarrow> read_ddr t (0x10000 * Suc k) (length (buf k)) = Inr (buf k)"
    "\<And>a. (\<forall>k<n. \<not> inside (0x10000 * Suc k) (length (buf k)) a) \<Longrightarrow> ddr_bytes t a = ddr_bytes CModel_init a" by blast
  have "ddr_bytes t (0x10000 * Suc k + a) = buf k ! a" if k: "k < n" "a < length (buf k)" for k a
  proof -
    have "0x10000 * Suc k + length (buf k) \<le> unat DDR_SIZE"
      using t(3) [OF k(1)] mem.b.rd_out [of "0x10000 * Suc k" "length (buf k)" t] by (cases "0x10000 * Suc k + length (buf k) \<le> unat DDR_SIZE") auto
    from mem.b.rd_in [OF this, of t] t(3) [OF k(1)] have "buf k = map (ddr_bytes t) [0x10000 * Suc k..<0x10000 * Suc k + length (buf k)]"
      by simp
    then have "buf k ! a = map (ddr_bytes t) [0x10000 * Suc k..<0x10000 * Suc k + length (buf k)] ! a" by (rule arg_cong)
    then show ?thesis using k(2) by simp
  qed
  moreover have "load_inputs fs argv Simulator_init = Inr (Simulator_init\<lparr>cmodel_state := t\<rparr>)"
    using load_as_writes [OF assms(1,2), of fs buf] assms(3) t(1) by (simp add: Simulator_init_def)
  ultimately show ?thesis using t(2,4) by (simp add: CModel_init_def)
qed

section \<open>The tensors of the files\<close>

definition file_tensors :: "(nat \<Rightarrow> u8 list) \<Rightarrow> ir_value list \<Rightarrow> u16 tensors" where
  "file_tensors buf vs v js =
     (if v \<in> set vs
      then let b = buf (length (takeWhile (\<lambda>w. w \<noteq> v) vs)); i = nat (js ! 0) * cols_of v + nat (js ! 1)
           in u16_of_bytes [b ! (2 * i), b ! (2 * i + 1)]
      else 0)"

lemma takeWhile_index: "distinct vs \<Longrightarrow> k < length vs \<Longrightarrow> length (takeWhile (\<lambda>w. w \<noteq> vs ! k) vs) = k"
proof (induction vs arbitrary: k)
  case (Cons v vs)
  then show ?case by (cases k) auto
qed simp

lemma zero_word: "u16_of_bytes [0, 0] = 0"
  by (simp add: u16_of_bytes_def)

lemma files_placed:
  assumes inv: "ddr_inv 0x7FFF st" and arg: "\<And>k. k < length vs \<Longrightarrow> as_attrs st (vs ! k) = Some (uint (slot k))"
    and lim: "length vs \<le> 0x7FFE" and vs: "distinct vs" "\<forall>v \<in> set vs. \<exists>i t. v = BlockArg i t" "set vs \<subseteq> set V" and V: "\<forall>v \<in> set V. placeable st v"
    and buf: "\<And>k. k < length vs \<Longrightarrow> length (buf k) = 2 * (rows_of (vs ! k) * cols_of (vs ! k))"
    and sr: "sram_bytes m = (\<lambda>_. 0)"
    and inp: "\<And>k a. k < length vs \<Longrightarrow> a < length (buf k) \<Longrightarrow> ddr_bytes m (0x10000 * Suc k + a) = buf k ! a"
    and zero: "\<And>a. (\<And>k. k < length vs \<Longrightarrow> \<not> inside (0x10000 * Suc k) (length (buf k)) a) \<Longrightarrow> ddr_bytes m a = 0"
  shows "placed_tensors st V (file_tensors buf vs) m"
  unfolding placed_tensors_def
proof (intro ballI allI impI)
  fix v r c assume v: "v \<in> set V" and rc: "r < rows_of v" "c < cols_of v"
  define i where "i = r * cols_of v + c"
  have i: "i < rows_of v * cols_of v" unfolding i_def by (rule index_less [OF rc])
  have pv: "placeable st v" using V v by blast
  have "elem (as_attrs st) m (replace_allocs (as_bufs st) v) i = file_tensors buf vs v [int r, int c]"
  proof (cases "in_bufs (as_bufs st) v")
    case True
    then have "v \<notin> set vs" using vs(2) by (auto simp: in_bufs_def)
    with True show ?thesis by (simp add: elem_def sram_fp16_def sr zero_word file_tensors_def)
  next
    case False
    with pv have d: "has_ddr_base v" "as_attrs st v \<noteq> None" "2 * (rows_of v * cols_of v) \<le> 0x10000" by (simp_all add: placeable_def)
    from d(2) obtain a where a: "as_attrs st v = Some a" by blast
    from slot_addr [OF inv a] obtain j where j: "j < 0x7FFF" "base_addr (as_attrs st) v = slot j" "a = uint (slot j)" by blast
    have off: "ddr_off (base_addr (as_attrs st) v) = 0x10000 * Suc j" using slot_nat [OF j(1)] by (simp add: j(2) ddr_off_def)
    have e: "elem (as_attrs st) m (replace_allocs (as_bufs st) v) i = u16_of_bytes [ddr_bytes m (0x10000 * Suc j + 2 * i), ddr_bytes m (0x10000 * Suc j + 2 * i + 1)]"
      using replace_base [OF False d(1)] base_not_buf [OF d(1)] by (simp only: elem_def if_False ddr_fp16_def off)
    show ?thesis
    proof (cases "v \<in> set vs")
      case True
      then obtain k where k: "k < length vs" "v = vs ! k" by (auto simp: in_set_conv_nth)
      have "uint (slot k) = uint (slot j)" using arg [OF k(1)] a j(3) k(2) by simp
      then have "slot k = slot j" by (metis word_of_int_uint)
      then have "j = k" using slot_eq [of k j] j(1) k(1) lim by simp
      moreover have "2 * i + 1 < length (buf k)" using buf [OF k(1)] i k(2) by simp
      ultimately have "ddr_bytes m (0x10000 * Suc j + 2 * i) = buf k ! (2 * i)" "ddr_bytes m (0x10000 * Suc j + (2 * i + 1)) = buf k ! (2 * i + 1)"
        using inp [OF k(1), of "2 * i"] inp [OF k(1), of "2 * i + 1"] by simp_all
      then show ?thesis using e True k takeWhile_index [OF vs(1) k(1)] by (simp add: file_tensors_def i_def add.assoc Let_def)
    next
      case False
      have "ddr_bytes m (0x10000 * Suc j + 2 * i + x) = 0" if "x < 2" for x
      proof (rule zero)
        have x: "2 * i + x < 0x10000" using i d(3) that by linarith
        fix k assume k: "k < length vs"
        have "j \<noteq> k"
        proof
          assume "j = k"
          then have "as_attrs st v = as_attrs st (vs ! k)" using arg [OF k] a j(3) by simp
          then have "v = vs ! k" using inv a unfolding ddr_inv_def by metis
          with False k show False by simp
        qed
        have pk: "placeable st (vs ! k)" and nb: "\<not> in_bufs (as_bufs st) (vs ! k)" using V vs(2,3) k by (auto simp: in_bufs_def dest!: nth_mem)
        then have "length (buf k) \<le> 0x10000" using buf [OF k] by (simp add: placeable_def)
        moreover have "0x10000 * Suc (Suc j) \<le> 0x10000 * Suc k \<or> 0x10000 * Suc (Suc k) \<le> 0x10000 * Suc j"
          using \<open>j \<noteq> k\<close> by auto
        ultimately show "\<not> inside (0x10000 * Suc k) (length (buf k)) (0x10000 * Suc j + 2 * i + x)"
          using x by (auto simp: inside_def)
      qed
      from this [of 0] this [of 1] e False show ?thesis by (simp add: zero_word file_tensors_def)
    qed
  qed
  then show "elem (as_attrs st) m (replace_allocs (as_bufs st) v) (r * cols_of v + c) = file_tensors buf vs v [int r, int c]"
    by (simp only: i_def)
qed

lemma module_run:
  assumes "number_format (fmt_hex F) (fmt_dec F)" and "align_to alignTo"
    and "\<forall>op \<in> set ops. request_ok op" and "length vs + length ops \<le> 0x7FFE"
    and "st = eclipse_allocate alignTo False [map (\<lambda>v. (v, True)) vs] ops"
    and "vs \<noteq> []" and "distinct vs" and "\<forall>v \<in> set vs. \<exists>i t. v = BlockArg i t" and "set vs \<subseteq> set V"
    and "\<forall>v \<in> set V. placeable st v" and "\<forall>op \<in> set flat. op_ok (in_bufs (as_bufs st)) V op" and "descriptors flat \<le> 1020"
    and "eclipse_to_easm F (as_attrs st) unroll True (map (map_values (replace_allocs (as_bufs st))) ops) = Inr (text, next)"
    and "unroll (map (map_values (replace_allocs (as_bufs st))) ops) = Some (map (map_values (replace_allocs (as_bufs st))) flat)"
    and "length argv = length vs + 3" and "fs (argv ! 1) = Some (map of_char text)" and "can_write (argv ! 2)"
    and "\<forall>k < length vs. fs (argv ! (k + 3)) = Some (buf k) \<and> length (buf k) = 2 * (rows_of (vs ! k) * cols_of (vs ! k))"
    and "divisors_ok (bit_chip P E) flat (file_tensors buf vs)"
  shows "\<exists>out. eclipse_run P fs can_write argv = Inr out \<and> exit_code out = 0
    \<and> out_file out = (case List.map_filter stored flat of [] \<Rightarrow> None
        | b # bs \<Rightarrow> Some (tensor_bytes (run_ops (bit_chip P E) flat (file_tensors buf vs)) (last (b # bs))))
    \<and> (\<forall>cs. list_all2 costs (program_images (as_attrs st) (map (map_values (replace_allocs (as_bufs st))) flat) DESC_STARTADDR) cs
        \<longrightarrow> printed_cycles out = of_nat (sum_list cs))"
proof -
  have small: "length (buf k) \<le> 0x10000" if "k < length vs" for k
  proof -
    have "placeable st (vs ! k)" "\<not> in_bufs (as_bufs st) (vs ! k)"
      using assms(8-10) that by (auto simp: in_bufs_def dest!: nth_mem)
    then show ?thesis using assms(18) that by (simp add: placeable_def)
  qed
  have n: "length vs \<le> 0x7FFE" using assms(4) by simp
  from inputs_loaded [OF assms(15) n, of fs buf] assms(18) small obtain sim where sim: "load_inputs fs argv Simulator_init = Inr sim"
    and m: "sram_bytes (cmodel_state sim) = (\<lambda>_. 0)"
      "\<And>k a. k < length vs \<Longrightarrow> a < length (buf k) \<Longrightarrow> ddr_bytes (cmodel_state sim) (0x10000 * Suc k + a) = buf k ! a"
      "\<And>a. (\<And>k. k < length vs \<Longrightarrow> \<not> inside (0x10000 * Suc k) (length (buf k)) a) \<Longrightarrow> ddr_bytes (cmodel_state sim) a = 0"
    by blast
  have inv: "ddr_inv 0x7FFF st" unfolding assms(5) by (rule ddr_inv_pass) (use assms(4) in \<open>simp add: comp_def\<close>)
  have arg: "as_attrs st (vs ! k) = Some (uint (slot k))" if k: "k < length vs" for k
    using args_abi [OF assms(7) _ k] assms(8) k unfolding assms(5) by (metis nth_mem)
  have T: "placed_tensors st V (file_tensors buf vs) (cmodel_state sim)"
    by (rule files_placed [OF inv arg n assms(7-10) _ m]) (use assms(18) in simp_all)
  have argc: "4 \<le> length argv" using assms(6,15) by (cases vs) simp_all
  have lim: "sum_list (map length [map (\<lambda>v. (v, True)) vs]) + length ops \<le> 0x7FFF" using assms(4) by simp
  show ?thesis
    by (rule allocated_run [where F = F and alignTo = alignTo and ops = ops and V = V and unroll = unroll and st = st and fs = fs and can_write = can_write and argv = argv,
          OF assms(1,2,3) lim assms(5,10,11,12,13,14) argc assms(16,17) sim T assms(19)])
qed

section \<open>Properties\<close>

text \<open>
  C2. The back end computes what the IR means. Let a module with at least one argument, its loops
  unrolled, be allocated (llvm::alignTo as documented), emitted (with any printer of numbers that
  the parser reads back) and run by eclipse-run on the files of its arguments. Suppose that every
  operation passes its verifier, reads and writes SRAM buffers only, the transfers apart, that
  these go between a buffer and a view of a DDR buffer that starts at a multiple of 16 bytes, that
  the operands of a matmul are three different buffers and the result of an elementwise operation
  is not its right operand, that there is no ARGMAX; that all buffers are fp16 matrices without
  empty dimensions, aligned to 16 bytes in SRAM and not larger than their 64 KiB slot in DDR,
  requested with at most 2^31 bytes and an alignment of at most 2^24; that there are at most 1020
  descriptors and 32766 arguments and operations; that the files have the size of the arguments;
  and that no division meets a zero divisor. Then eclipse-run ends with exit code 0, and the
  output file holds, bit for bit, the tensor that the operations, read as functions on fp16
  tensors, leave in the buffer of their last store.
\<close>

theorem module_computes_from_files:
  assumes "number_format (fmt_hex F) (fmt_dec F)" and "align_to alignTo"
    and "\<forall>op \<in> set ops. request_ok op" and "length vs + length ops \<le> 0x7FFE"
    and "st = eclipse_allocate alignTo False [map (\<lambda>v. (v, True)) vs] ops"
    and "vs \<noteq> []" and "distinct vs" and "\<forall>v \<in> set vs. \<exists>i t. v = BlockArg i t" and "set vs \<subseteq> set V"
    and "\<forall>v \<in> set V. placeable st v" and "\<forall>op \<in> set flat. op_ok (in_bufs (as_bufs st)) V op" and "descriptors flat \<le> 1020"
    and "eclipse_to_easm F (as_attrs st) unroll True (map (map_values (replace_allocs (as_bufs st))) ops) = Inr (text, next)"
    and "unroll (map (map_values (replace_allocs (as_bufs st))) ops) = Some (map (map_values (replace_allocs (as_bufs st))) flat)"
    and "length argv = length vs + 3" and "fs (argv ! 1) = Some (map of_char text)" and "can_write (argv ! 2)"
    and "\<forall>k < length vs. fs (argv ! (k + 3)) = Some (buf k) \<and> length (buf k) = 2 * (rows_of (vs ! k) * cols_of (vs ! k))"
    and "divisors_ok (bit_chip P E) flat (file_tensors buf vs)"
  shows "\<exists>out. eclipse_run P fs can_write argv = Inr out \<and> exit_code out = 0
    \<and> out_file out = (case List.map_filter stored flat of [] \<Rightarrow> None
        | b # bs \<Rightarrow> Some (tensor_bytes (run_ops (bit_chip P E) flat (file_tensors buf vs)) (last (b # bs))))"
  using module_run [where fs = fs and can_write = can_write and argv = argv and buf = buf and unroll = unroll, OF assms] by blast

text \<open>The module of the sample program before allocation: RELU of a file of 2 x 8 halves.\<close>

definition demo_buf :: ir_value where "demo_buf = AllocRes 2 (demo_ty 0) None"

definition demo_module :: "operation list" where
  "demo_module = [Define demo_buf, Define demo_out, Define (CastRes 3 demo_arg (demo_ty 1)), Define (CastRes 4 demo_out (demo_ty 1)),
     DmaLoadOp (CastRes 3 demo_arg (demo_ty 1)) demo_buf, ActOp demo_buf demo_buf RELU, DmaStoreOp demo_buf (CastRes 4 demo_out (demo_ty 1))]"

definition demo_state :: alloc_state where
  "demo_state = eclipse_allocate round_up False [map (\<lambda>v. (v, True)) [demo_arg]] demo_module"

lemma demo_allocated:
  "as_bufs demo_state = [demo_buf \<mapsto> 0x10000000]" "as_attrs demo_state = [demo_arg \<mapsto> 0x40010000, demo_out \<mapsto> 0x40020000]"
  by (simp_all add: demo_state_def eclipse_allocate_def goldenLayout_def demo_module_def alloc_one_def demo_buf_def demo_out_def demo_arg_def
      is_sram_def demo_ty_def packed_memref_def SRAM_MEMORY_SPACE_def DDR_MEMORY_SPACE_def byte_size_def num_elements_def f16_def
      SRAM_ALIGNMENT_def allocate_def allocate_args_def assign_ddr_def ddrStride_def alloc_init_def
      SramAllocator_init_def SRAM_ADDR_def SRAM_SIZE_def DDR_ADDR_def DDR_SIZE_def round_up_32 word_less_nat_alt Let_def)

lemma demo_module_ok:
  "\<forall>op \<in> set demo_module. request_ok op" "\<forall>v \<in> set [demo_arg, demo_out, demo_buf]. placeable demo_state v"
  "\<forall>op \<in> set demo_module. op_ok (in_bufs (as_bufs demo_state)) [demo_arg, demo_out, demo_buf] op"
  "descriptors demo_module \<le> 1020" "divisors_ok C demo_module T"
  "\<exists>text next. eclipse_to_easm c_formatter (as_attrs demo_state) Some True (map (map_values (replace_allocs (as_bufs demo_state))) demo_module) = Inr (text, next)"
proof -
  note sd = demo_arg_def demo_out_def demo_buf_def demo_ty_def packed_memref_def
  show "\<forall>op \<in> set demo_module. request_ok op"
    by (simp add: demo_module_def request_ok_def) (simp add: sd byte_size_def num_elements_def f16_def)
  show "\<forall>v \<in> set [demo_arg, demo_out, demo_buf]. placeable demo_state v"
    by (simp add: placeable_def demo_allocated) (simp add: sd in_bufs_def has_ddr_base_def rows_of_def cols_of_def buf_align_def)
  show "\<forall>op \<in> set demo_module. op_ok (in_bufs (as_bufs demo_state)) [demo_arg, demo_out, demo_buf] op"
    by (simp add: demo_module_def op_ok_def verifyDmaLoad_def verifyDmaStore_def verifyAct_def memref_of_def view_ok_def ddr_base_def demo_allocated)
      (simp add: sd in_bufs_def has_ddr_base_def SRAM_MEMORY_SPACE_def DDR_MEMORY_SPACE_def isPacked_def verify_that_def)
  show "descriptors demo_module \<le> 1020" by (simp add: descriptors_def demo_module_def instruction_op_def)
  show "divisors_ok C demo_module T" by (simp add: demo_module_def divides_ok_def)
  show "\<exists>text next. eclipse_to_easm c_formatter (as_attrs demo_state) Some True (map (map_values (replace_allocs (as_bufs demo_state))) demo_module) = Inr (text, next)"
    by (simp add: eclipse_to_easm_fold [OF refl] demo_module_def demo_allocated demo_buf_def demo_arg_def demo_out_def
        emit_step_def emit_op_def emitActOp_def emitDmaLoadOp_def emitDmaStoreOp_def sram_addr_def ddrBaseAddr_def attr_addr_def has_ddr_base_def Let_def)
qed

theorem module_computes_from_files_witness:
  "\<exists>text out. eclipse_run sample_platform (\<lambda>p. if p = ''p'' then Some (map of_char text) else Some (replicate 32 0xC0)) (\<lambda>_. True) [''eclipse-run'', ''p'', ''o'', ''x''] = Inr out
    \<and> exit_code out = 0
    \<and> out_file out = Some (tensor_bytes (run_ops (bit_chip sample_platform demo_env) demo_module
        (file_tensors (\<lambda>_. replicate 32 0xC0) [demo_arg])) demo_out)"
proof -
  obtain prog nxt where e: "eclipse_to_easm c_formatter (as_attrs demo_state) Some True
      (map (map_values (replace_allocs (as_bufs demo_state))) demo_module) = Inr (prog, nxt)"
    using demo_module_ok(6) by blast
  define fs where "fs = (\<lambda>p. if p = ''p'' then Some (map of_char prog) else Some (replicate 32 (0xC0 :: u8)))"
  let ?argv = "[''eclipse-run'', ''p'', ''o'', ''x'']"
  have f: "number_format (fmt_hex c_formatter) (fmt_dec c_formatter)" using c_emitter.emitter_axioms by (simp add: emitter_def)
  have rc: "rows_of demo_arg = 2" "cols_of demo_arg = 8" by (simp_all add: rows_of_def cols_of_def demo_arg_def demo_ty_def packed_memref_def)
  have m: "length [demo_arg] + length demo_module \<le> 0x7FFE" "\<forall>v \<in> set [demo_arg]. \<exists>i t. v = BlockArg i t"
    "set [demo_arg] \<subseteq> set [demo_arg, demo_out, demo_buf]" "length ?argv = length [demo_arg] + 3" "fs (?argv ! 1) = Some (map of_char prog)"
    "\<forall>k < length [demo_arg]. fs (?argv ! (k + 3)) = Some (replicate 32 0xC0) \<and>
      length (replicate 32 (0xC0 :: u8)) = 2 * (rows_of ([demo_arg] ! k) * cols_of ([demo_arg] ! k))"
    by (simp_all add: rc fs_def) (simp_all add: demo_module_def demo_arg_def)
  have "\<exists>out. eclipse_run sample_platform fs (\<lambda>_. True) ?argv = Inr out \<and> exit_code out = 0
    \<and> out_file out = (case List.map_filter stored demo_module of [] \<Rightarrow> None
        | b # bs \<Rightarrow> Some (tensor_bytes (run_ops (bit_chip sample_platform demo_env) demo_module
            (file_tensors (\<lambda>_. replicate 32 0xC0) [demo_arg])) (last (b # bs))))"
    by (rule module_computes_from_files [where F = c_formatter and alignTo = round_up and ops = demo_module and vs = "[demo_arg]"
          and unroll = Some and st = demo_state and V = "[demo_arg, demo_out, demo_buf]",
          OF f round_up.align_to_axioms demo_module_ok(1) m(1) demo_state_def _ _ m(2,3) demo_module_ok(2,3,4) e refl m(4,5) _ m(6) demo_module_ok(5)])
      simp_all
  then show ?thesis unfolding fs_def by (intro exI [of _ prog]) (simp add: demo_module_def List.map_filter_simps stored_def ddr_base_def)
qed

end
