(* ===== verification/Executed.thy ===== *)
theory Executed
  imports Module
begin

text \<open>
  A whole run of eclipse-run, for any program text and any input files: the memory that the run
  starts from is stated byte by byte, the instructions are those of the lines of the file, and the
  exit code, the printed cycles and the output file are read off the state the run ends in.
\<close>

section \<open>The memory before the run\<close>

text \<open>
  The bytes of the input files from \<open>DDR_ADDR + 0x10000 * (i - 2)\<close> on for the file \<open>argv[i]\<close>, the
  descriptors at their addresses (they are written after the inputs), and zeros everywhere else.
\<close>

definition loaded :: "(string \<Rightarrow> u8 list option) \<Rightarrow> string list \<Rightarrow> (OpCode \<times> u32 \<times> u8 list) list \<Rightarrow> cmodel \<Rightarrow> bool" where
  "loaded fs argv imgs m \<longleftrightarrow>
     sram_bytes m = (\<lambda>_. 0)
     \<and> (\<forall>img \<in> set imgs. in_ddr m img)
     \<and> (\<forall>i \<in> {3..<length argv}. \<exists>buf. fs (argv ! i) = Some buf
          \<and> (\<forall>k < length buf. (\<forall>img \<in> set imgs. \<not> meets img (0x10000 * (i - 2) + k)) \<longrightarrow> ddr_bytes m (0x10000 * (i - 2) + k) = buf ! k))
     \<and> (\<forall>a. (\<forall>img \<in> set imgs. \<not> meets img a)
          \<longrightarrow> (\<forall>i \<in> {3..<length argv}. \<forall>buf. fs (argv ! i) = Some buf \<longrightarrow> \<not> inside (0x10000 * (i - 2)) (length buf) a)
          \<longrightarrow> ddr_bytes m a = 0)"

lemma loaded_before_run:
  assumes argv: "4 \<le> length argv" "length argv \<le> 0x8000"
    and files: "\<forall>i \<in> {3..<length argv}. \<exists>buf. fs (argv ! i) = Some buf \<and> length buf \<le> 0x10000"
  shows "\<exists>sim. load_inputs fs argv Simulator_init = Inr sim
    \<and> (\<forall>imgs s. all_placed imgs sim s \<longrightarrow> sorted_wrt block_apart imgs \<longrightarrow> loaded fs argv imgs (cmodel_state s)
        \<and> queue s = map image_instr imgs \<and> s\<lparr>queue := []\<rparr> = Simulator_init\<lparr>cmodel_state := cmodel_state s\<rparr>)"
proof -
  define n buf where "n = length argv - 3" and "buf = (\<lambda>k. the (fs (argv ! (k + 3))))"
  have fb: "fs (argv ! (k + 3)) = Some (buf k) \<and> length (buf k) \<le> 0x10000" if "k < n" for k
  proof -
    have "k + 3 \<in> {3..<length argv}" using that by (simp add: n_def)
    with files obtain b where "fs (argv ! (k + 3)) = Some b" "length b \<le> 0x10000" by blast
    then show ?thesis by (simp add: buf_def)
  qed
  have idx: "\<exists>k < n. i = k + 3 \<and> i - 2 = Suc k" if "i \<in> {3..<length argv}" for i
    using that by (intro exI [of _ "i - 3"]) (auto simp: n_def)
  have n: "length argv = n + 3" "n \<le> 0x7FFE" using argv by (simp_all add: n_def)
  from inputs_loaded [where fs = fs and buf = buf, OF n fb] obtain sim where sim: "load_inputs fs argv Simulator_init = Inr sim"
    "sram_bytes (cmodel_state sim) = (\<lambda>_. 0)"
    "\<And>k a. k < n \<Longrightarrow> a < length (buf k) \<Longrightarrow> ddr_bytes (cmodel_state sim) (0x10000 * Suc k + a) = buf k ! a"
    "\<And>a. (\<forall>k<n. \<not> inside (0x10000 * Suc k) (length (buf k)) a) \<Longrightarrow> ddr_bytes (cmodel_state sim) a = 0" by blast
  have "loaded fs argv imgs (cmodel_state s) \<and> queue s = map image_instr imgs \<and> s\<lparr>queue := []\<rparr> = Simulator_init\<lparr>cmodel_state := cmodel_state s\<rparr>"
    if pl: "all_placed imgs sim s" and ap: "sorted_wrt block_apart imgs" for imgs s
  proof -
    note eff = all_placed_effect [OF pl]
    have "\<exists>b. fs (argv ! i) = Some b \<and> (\<forall>k < length b. (\<forall>img \<in> set imgs. \<not> meets img (0x10000 * (i - 2) + k)) \<longrightarrow> ddr_bytes (cmodel_state s) (0x10000 * (i - 2) + k) = b ! k)"
      if i: "i \<in> {3..<length argv}" for i
    proof -
      obtain k where k: "k < n" "i = k + 3" "i - 2 = Suc k" using idx [OF i] by blast
      show ?thesis
      proof (intro exI [of _ "buf k"] conjI allI impI)
        show "fs (argv ! i) = Some (buf k)" using fb [OF k(1)] k(2) by simp
        fix j assume "j < length (buf k)" "\<forall>img \<in> set imgs. \<not> meets img (0x10000 * (i - 2) + j)"
        then show "ddr_bytes (cmodel_state s) (0x10000 * (i - 2) + j) = buf k ! j"
          using eff(5) sim(3) [OF k(1)] unfolding k(3) by simp
      qed
    qed
    moreover have "ddr_bytes (cmodel_state s) a = 0"
      if a: "\<forall>img \<in> set imgs. \<not> meets img a"
        "\<forall>i \<in> {3..<length argv}. \<forall>buf. fs (argv ! i) = Some buf \<longrightarrow> \<not> inside (0x10000 * (i - 2)) (length buf) a" for a
    proof -
      have "\<not> inside (0x10000 * Suc k) (length (buf k)) a" if "k < n" for k
        using bspec [OF a(2), of "k + 3"] fb [OF that] that n(1) by simp
      with sim(4) eff(5) [OF a(1)] show ?thesis by simp
    qed
    ultimately have "loaded fs argv imgs (cmodel_state s)"
      using all_placed_there [OF pl ap] eff(4) sim(2) unfolding loaded_def by simp
    moreover have "s\<lparr>queue := []\<rparr> = Simulator_init\<lparr>cmodel_state := cmodel_state s\<rparr>"
      using load_inputs_cycles [OF sim(1)] eff(2,3) by (simp add: Simulator_init_def)
    ultimately show ?thesis using eff(1) load_inputs_queue [OF sim(1)] by simp
  qed
  with sim(1) show ?thesis by blast
qed

section \<open>What the process leaves\<close>

definition last_store :: "(OpCode \<times> u32 \<times> u8 list) list \<Rightarrow> DMAParam option" where
  "last_store imgs = (case List.map_filter image_store imgs of [] \<Rightarrow> None | d # ds \<Rightarrow> Some (last (d # ds)))"

text \<open>
  The cycles are those of the final state; the output file is the block of the last \<open>DMA_STORE\<close>, read
  from the memory of the final state, and there is none when nothing was stored.
\<close>

definition outcome_of :: "(string \<Rightarrow> bool) \<Rightarrow> string \<Rightarrow> (OpCode \<times> u32 \<times> u8 list) list \<Rightarrow> simulator \<Rightarrow> outcome \<Rightarrow> bool" where
  "outcome_of can_write path imgs t out \<longleftrightarrow> printed_cycles out = totalCycles t \<and>
     (case last_store imgs of
        None \<Rightarrow> exit_code out = 0 \<and> out_file out = None
      | Some d \<Rightarrow> let n = unat (dma_rows d * dma_cols d) * 2 mod 2 ^ 32 in
          if n = 0 then exit_code out = 0 \<and> out_file out = None
          else if \<not> can_write path then exit_code out = 2 \<and> out_file out = None
          else exit_code out = 0 \<and> (\<exists>p bs. ddr (dma_ddrAddr d) = Inr p
            \<and> read_ddr (cmodel_state t) p n = Inr bs \<and> out_file out = Some bs))"

lemma written_outcome:
  assumes "(a, n) = fold note_store insns (0, 0)" and "map insn_image insns = map Inr imgs"
  shows "write_output can_write path a n t = Inr out \<longleftrightarrow> outcome_of can_write path imgs t out"
proof (cases "List.map_filter image_store imgs")
  case Nil
  with assms show ?thesis
    by (cases out) (auto simp: fold_note_store stores_of_images [OF assms(2)] write_output_def outcome_of_def last_store_def)
next
  case (Cons d ds)
  define D where "D = last (d # ds)"
  have r: "a = dma_ddrAddr D" "n = ucast (ucast (dma_rows D * dma_cols D) * DTYPE_SIZE)"
    using assms(1) unfolding fold_note_store stores_of_images [OF assms(2)] Cons D_def by simp_all
  have n: "unat (dma_rows D * dma_cols D) * 2 mod 2 ^ 32 = unat n" unfolding r(2) by (rule unat_out_bytes [symmetric])
  have s: "last_store imgs = Some D" by (simp only: last_store_def Cons list.case D_def)
  show ?thesis
    unfolding outcome_of_def s option.case Let_def n r(1) [symmetric]
    by (cases out) (auto simp: write_output_def unat_eq_zero rbind_eq_Inr)
qed

lemma eclipse_run_as_list:
  assumes "4 \<le> length argv" and "fs (argv ! 1) = Some easm" and "insns = parseEasm (text_of_bytes easm)"
    and "load_inputs fs argv Simulator_init = Inr sim"
    and "fold_result step_insn insns \<lparr>drv_sim = sim, outDdr = 0, outBytes = 0\<rparr> = Inr st"
    and "queue (drv_sim st) = map image_instr imgs" and "drv_sim st\<lparr>queue := []\<rparr> = s"
  shows "eclipse_run P fs can_write argv =
    rbind (run_list P (map image_instr imgs) s) (write_output can_write (argv ! 2) (outDdr st) (outBytes st))"
  using assms by (simp add: eclipse_run_def Let_def run_as_list)

lemma whole_run:
  assumes argv: "4 \<le> length argv" "length argv \<le> 0x8000"
    and files: "\<forall>i \<in> {3..<length argv}. \<exists>buf. fs (argv ! i) = Some buf \<and> length buf \<le> 0x10000"
    and easm: "fs (argv ! 1) = Some easm" "insns = parseEasm (text_of_bytes easm)"
    and img: "map insn_image insns = map Inr imgs" and ap: "sorted_wrt block_apart imgs"
    and loop: "\<And>sim. load_inputs fs argv Simulator_init = Inr sim \<Longrightarrow> \<exists>st. fold_result step_insn insns \<lparr>drv_sim = sim, outDdr = 0, outBytes = 0\<rparr> = Inr st"
  shows "\<exists>m. loaded fs argv imgs m
    \<and> (\<forall>out. eclipse_run P fs can_write argv = Inr out \<longleftrightarrow>
        (\<exists>t. run_list P (map image_instr imgs) (Simulator_init\<lparr>cmodel_state := m\<rparr>) = Inr t \<and> outcome_of can_write (argv ! 2) imgs t out))
    \<and> (\<forall>e. run_list P (map image_instr imgs) (Simulator_init\<lparr>cmodel_state := m\<rparr>) = Inl e \<longrightarrow> eclipse_run P fs can_write argv = Inl e)"
proof -
  from loaded_before_run [OF argv files] obtain sim where sim: "load_inputs fs argv Simulator_init = Inr sim"
    "\<And>imgs s. all_placed imgs sim s \<Longrightarrow> sorted_wrt block_apart imgs \<Longrightarrow> loaded fs argv imgs (cmodel_state s)
        \<and> queue s = map image_instr imgs \<and> s\<lparr>queue := []\<rparr> = Simulator_init\<lparr>cmodel_state := cmodel_state s\<rparr>" by blast
  from loop [OF sim(1)] obtain st where st: "fold_result step_insn insns \<lparr>drv_sim = sim, outDdr = 0, outBytes = 0\<rparr> = Inr st" by blast
  from loop_all_placed [OF st] obtain jmgs where j: "map insn_image insns = map Inr jmgs" "all_placed jmgs sim (drv_sim st)" by auto
  have "map Inr jmgs = (map Inr imgs :: (error + _) list)" using j(1) img by simp
  then have same: "jmgs = imgs" by (simp add: inj_map_eq_map)
  from sim(2) [OF j(2) [unfolded same] ap] have m: "loaded fs argv imgs (cmodel_state (drv_sim st))"
    and q: "queue (drv_sim st) = map image_instr imgs"
    and s: "drv_sim st\<lparr>queue := []\<rparr> = Simulator_init\<lparr>cmodel_state := cmodel_state (drv_sim st)\<rparr>" by blast+
  have "(outDdr st, outBytes st) = fold note_store insns (0, 0)" using loop_out [OF st] by simp
  note w = written_outcome [OF this img]
  note r = eclipse_run_as_list [where fs = fs and can_write = can_write and P = P, OF argv(1) easm sim(1) st q s]
  show ?thesis
    by (rule exI [of _ "cmodel_state (drv_sim st)"], intro conjI allI impI m) (simp_all add: r rbind_eq_Inr w)
qed

section \<open>The program of Compiled, run\<close>

definition demo_files :: "string \<Rightarrow> string \<Rightarrow> u8 list option" where
  "demo_files easm p = (if p = ''p'' then Some (map of_char easm) else Some (replicate 16 0x3C @ replicate 16 0xC0))"

definition demo_argv :: "string list" where
  "demo_argv = [''eclipse-run'', ''p'', ''o'', ''x'']"

definition demo_images :: "(OpCode \<times> u32 \<times> u8 list) list" where
  "demo_images = program_images demo_attrs demo_flat DESC_STARTADDR"

lemma demo_program:
  "number_format (fmt_hex c_formatter) (fmt_dec c_formatter)"
  "\<forall>op \<in> set demo_flat. instruction_op op \<longrightarrow> readable op" "descriptors demo_flat \<le> 1020"
  "demo_files easm (demo_argv ! 1) = Some (map of_char easm)" "4 \<le> length demo_argv" "length demo_argv \<le> 0x8000"
  "\<forall>i \<in> {3..<length demo_argv}. \<exists>buf. demo_files easm (demo_argv ! i) = Some buf \<and> length buf \<le> 0x10000"
proof -
  show "number_format (fmt_hex c_formatter) (fmt_dec c_formatter)" using c_emitter.emitter_axioms by (simp add: emitter_def)
  show "\<forall>op \<in> set demo_flat. instruction_op op \<longrightarrow> readable op" using op_readable [OF demo_flat_ok(1)] demo_flat_ok(2) by blast
  have "i = 3" if "i \<in> {3..<length demo_argv}" for i using that by (simp add: demo_argv_def)
  then show "\<forall>i \<in> {3..<length demo_argv}. \<exists>buf. demo_files easm (demo_argv ! i) = Some buf \<and> length buf \<le> 0x10000"
    by (fastforce simp: demo_argv_def demo_files_def)
qed (simp_all add: demo_flat_ok(3) demo_files_def demo_argv_def)

lemma demo_last_store: "\<exists>d. last_store demo_images = Some d \<and> dma_ddrAddr d = 0x40020000 \<and> dma_rows d = 2 \<and> dma_cols d = 8"
proof -
  have b: "base_addr demo_attrs demo_out = 0x40020000" by (simp add: base_addr_def demo_attrs_def demo_arg_def demo_out_def)
  show ?thesis
    by (simp add: demo_images_def demo_flat_def last_store_def expected_def image_store_def List.map_filter_simps ddr_block_def b instruction_op_def)
      (simp add: demo_out_def demo_ty_def packed_memref_def)
qed

lemma demo_stored:
  assumes "outcome_of (\<lambda>_. True) path demo_images t out" and "out_file out = Some bs"
  shows "read_ddr (cmodel_state t) 0x20000 32 = Inr bs"
proof -
  have "ddr 0x40020000 = Inr 0x20000" by (simp add: ddr_eq_Inr)
  with assms demo_last_store show ?thesis by (auto simp: outcome_of_def)
qed

text \<open>The first row of the input is positive and is kept, the second row is negative and becomes zero.\<close>

lemma demo_output:
  assumes "\<And>c. c < 8 \<Longrightarrow> T demo_arg [0, int c] = 0x3C3C" and "\<And>c. c < 8 \<Longrightarrow> T demo_arg [1, int c] = 0xC0C0"
  shows "tensor_bytes (run_ops (bit_chip sample_platform demo_env) demo_flat T) demo_out = replicate 16 0x3C @ replicate 16 0"
proof -
  have e: "fp32ToFp16 (act_fun sample_platform RELU (fp16ToFp32 0xC0C0)) = 0" "fp32ToFp16 (act_fun sample_platform RELU (fp16ToFp32 0x3C3C)) = 0x3C3C"
    by (simp_all add: relu_fp16 sgn16_def rest16_def)
  have "run_ops (bit_chip sample_platform demo_env) demo_flat T demo_out [int r, int c] = (if r = 0 then 0x3C3C else 0)" if "r < 2" "c < 8" for r c
    using assms [OF that(2)] that e
    by (cases r) (simp_all add: demo_flat_def bit_chip_def store_def read_def demo_sram_def demo_out_def demo_arg_def demo_ty_def packed_memref_def in_shape_def)
  then have c: "bytes_of_u16 (run_ops (bit_chip sample_platform demo_env) demo_flat T demo_out [int (i div 8), int (i mod 8)]) = (if i < 8 then [0x3C, 0x3C] else [0, 0])"
    if "i \<in> set [0..<16]" for i
    using that by (auto simp: bytes_of_u16_def div_eq_0_iff)
  have "tensor_bytes (run_ops (bit_chip sample_platform demo_env) demo_flat T) demo_out = concat (map (\<lambda>i. if i < 8 then [0x3C, 0x3C] else [0, 0]) [0..<16])"
  proof -
    have cols: "cols_of demo_out = 8" and rows: "rows_of demo_out * 8 = 16"
      by (simp_all add: rows_of_def cols_of_def demo_out_def demo_ty_def packed_memref_def)
    show ?thesis unfolding tensor_bytes_def cols rows by (intro arg_cong [where f = concat] map_cong refl c)
  qed
  then show ?thesis by (simp add: upt_rec numeral_eq_Suc)
qed

lemma demo_run:
  assumes "eclipse_to_easm c_formatter demo_attrs Some True demo_flat = Inr (easm, next)"
  shows "\<exists>out. eclipse_run sample_platform (demo_files easm) (\<lambda>_. True) demo_argv = Inr out \<and> exit_code out = 0
    \<and> out_file out = Some (replicate 16 0x3C @ replicate 16 0)"
proof -
  have argv: "length demo_argv = 1 + 3" "(1 :: nat) \<le> 0x7FFE" by (simp_all add: demo_argv_def)
  have input: "demo_files easm (demo_argv ! (k + 3)) = Some (replicate 16 0x3C @ replicate 16 0xC0)
      \<and> length (replicate 16 0x3C @ replicate 16 (0xC0 :: u8)) \<le> 0x10000" if "k < 1" for k
    using that by (simp add: demo_files_def demo_argv_def)
  from inputs_loaded [where buf = "\<lambda>_. replicate 16 0x3C @ replicate 16 0xC0" and fs = "demo_files easm", OF argv input]
  obtain sim where sim: "load_inputs (demo_files easm) demo_argv Simulator_init = Inr sim"
    "\<And>a. a < 32 \<Longrightarrow> ddr_bytes (cmodel_state sim) (0x10000 + a) = (replicate 16 0x3C @ replicate 16 0xC0) ! a" by auto
  define T where "T = tensors_of demo_attrs (cmodel_state sim)"
  have b: "ddr_off (base_addr demo_attrs demo_arg) = 0x10000" by (simp add: ddr_off_def base_addr_def demo_attrs_def demo_arg_def demo_out_def)
  have T: "T demo_arg [int r, int c] = u16_of_bytes [(replicate 16 0x3C @ replicate 16 0xC0) ! (2 * (r * 8 + c)), (replicate 16 0x3C @ replicate 16 0xC0) ! (2 * (r * 8 + c) + 1)]"
    if "r < 2" "c < 8" for r c
    using sim(2) [of "2 * (r * 8 + c)"] sim(2) [of "2 * (r * 8 + c) + 1"] that
    by (simp add: T_def tensors_of_def elem_def ddr_fp16_def b is_buf_def) (simp add: demo_arg_def demo_out_def cols_of_def demo_ty_def packed_memref_def)
  have "T demo_arg [0, int c] = 0x3C3C" "T demo_arg [1, int c] = 0xC0C0" if "c < 8" for c
    using T [of 0 c] T [of 1 c] that by (simp_all add: nth_append u16_of_bytes_def)
  note out = demo_output [of T, OF this]
  have n: "divisors_ok C demo_flat T" for C T by (simp add: demo_flat_def divides_ok_def)
  from compiled_run [where fs = "demo_files easm" and can_write = "\<lambda>_. True" and P = sample_platform and E = demo_env and argv = demo_argv,
      OF demo_program(1) assms refl demo_flat_ok(1,2) demo_program(3,5,4) TrueI sim(1) holds_tensors_of n]
  show ?thesis using out by (auto simp: T_def demo_flat_def List.map_filter_simps stored_def ddr_base_def)
qed



section \<open>Properties\<close>

text \<open>
  C12. Whenever eclipse-run returns on a program whose descriptors do not overlap, with input
  files of at most 64 KiB each, there is a run of exactly the instructions of the lines of the
  file, in order, from the memory with the descriptors at their addresses, input i byte for byte
  at DDR_ADDR + 0x10000 * i where no descriptor was written over it, and zeros elsewhere, such
  that the outcome is read off the state t in which that run ends: the printed cycles are its
  total, and the output file is the block of the last DMA_STORE in its memory, no file with exit
  code 0 when nothing is stored, and exit code 2 when the file cannot be opened.
\<close>

theorem eclipse_run_executes_program:
  assumes "eclipse_run P fs can_write argv = Inr out" and "fs (argv ! 1) = Some easm"
    and "insns = parseEasm (text_of_bytes easm)" and "map insn_image insns = map Inr imgs" and "sorted_wrt block_apart imgs"
    and "length argv \<le> 0x8000" and "\<forall>i \<in> {3..<length argv}. \<forall>buf. fs (argv ! i) = Some buf \<longrightarrow> length buf \<le> 0x10000"
  shows "\<exists>m t. loaded fs argv imgs m
    \<and> run_list P (map image_instr imgs) (Simulator_init\<lparr>cmodel_state := m\<rparr>) = Inr t
    \<and> outcome_of can_write (argv ! 2) imgs t out"
proof -
  from assms(1-3) obtain sim st where n: "4 \<le> length argv" and sim: "load_inputs fs argv Simulator_init = Inr sim"
    and st: "fold_result step_insn insns \<lparr>drv_sim = sim, outDdr = 0, outBytes = 0\<rparr> = Inr st"
    by (auto simp: eclipse_run_def rbind_eq_Inr Let_def split: if_splits)
  have "\<forall>i. 3 \<le> i \<longrightarrow> i < length argv \<longrightarrow> (\<forall>buf. fs (argv ! i) = Some buf \<longrightarrow> length buf \<le> 0x10000)" using assms(7) by simp
  from load_inputs_prefix [OF sim [unfolded load_inputs_def] assms(6) this] assms(7)
  have "\<forall>i \<in> {3..<length argv}. \<exists>buf. fs (argv ! i) = Some buf \<and> length buf \<le> 0x10000" by fastforce
  from whole_run [where P = P and can_write = can_write, OF n assms(6) this assms(2-5)] sim st assms(1) show ?thesis by auto
qed

theorem eclipse_run_executes_program_witness:
  "\<exists>easm next out m t. eclipse_to_easm c_formatter demo_attrs Some True demo_flat = Inr (easm, next)
    \<and> eclipse_run sample_platform (demo_files easm) (\<lambda>_. True) demo_argv = Inr out
    \<and> loaded (demo_files easm) demo_argv demo_images m
    \<and> run_list sample_platform (map image_instr demo_images) (Simulator_init\<lparr>cmodel_state := m\<rparr>) = Inr t
    \<and> read_ddr (cmodel_state t) 0x20000 32 = Inr (replicate 16 0x3C @ replicate 16 0)
    \<and> outcome_of (\<lambda>_. True) ''o'' demo_images t out \<and> out_file out = Some (replicate 16 0x3C @ replicate 16 0)"
proof -
  obtain easm nxt where e: "eclipse_to_easm c_formatter demo_attrs Some True demo_flat = Inr (easm, nxt)"
    using demo_flat_ok(4) by blast
  obtain out where out: "eclipse_run sample_platform (demo_files easm) (\<lambda>_. True) demo_argv = Inr out"
    "exit_code out = 0" "out_file out = Some (replicate 16 0x3C @ replicate 16 0)" using demo_run [OF e] by blast
  from emitter.program_reads_back [OF emitter.intro [OF demo_program(1)] e refl demo_program(2)]
  have i: "map insn_image (parseEasm (text_of_bytes (map of_char easm))) = map Inr demo_images"
    by (simp add: text_of_bytes_of_char demo_images_def)
  have ap: "sorted_wrt block_apart demo_images" unfolding demo_images_def by (rule images_low(1) [OF demo_program(3)])
  have "\<forall>i \<in> {3..<length demo_argv}. \<forall>buf. demo_files easm (demo_argv ! i) = Some buf \<longrightarrow> length buf \<le> 0x10000"
    using demo_program(7) [of easm] by fastforce
  from eclipse_run_executes_program [where fs = "demo_files easm" and can_write = "\<lambda>_. True", OF out(1) demo_program(4) refl i ap demo_program(6) this]
  obtain m t where mt: "loaded (demo_files easm) demo_argv demo_images m"
    "run_list sample_platform (map image_instr demo_images) (Simulator_init\<lparr>cmodel_state := m\<rparr>) = Inr t"
    "outcome_of (\<lambda>_. True) (demo_argv ! 2) demo_images t out" by blast
  with demo_stored [OF _ out(3)] e out show ?thesis by (auto simp: demo_argv_def)
qed



end
