(* ===== verification/Rtl.thy ===== *)
theory Rtl
  imports Prelude
begin

text \<open>
  A Verilated module as its C++ test benches see it: the inputs they set, the registers, and \<open>eval\<close>,
  which moves the registers when the clock has risen since the last evaluation.  The outputs are
  functions of inputs and registers.  \<open>posedge\<close> is the module's \<open>always_ff\<close> blocks.
\<close>

record ('i, 's) dut =
  top_clk :: bool
  top_prev :: bool
  top_in :: 'i
  top_reg :: 's

definition dut_init :: "'i \<Rightarrow> 's \<Rightarrow> ('i, 's) dut" where
  "dut_init i s = \<lparr>top_clk = False, top_prev = False, top_in = i, top_reg = s\<rparr>"

definition eval :: "('i \<Rightarrow> 's \<Rightarrow> 's) \<Rightarrow> ('i, 's) dut \<Rightarrow> ('i, 's) dut" where
  "eval posedge d = d\<lparr>top_prev := top_clk d,
     top_reg := (if top_clk d \<and> \<not> top_prev d then posedge (top_in d) (top_reg d) else top_reg d)\<rparr>"

text \<open>\<open>top->clk = 0; top->eval();\<close> and \<open>top->clk = 1; top->eval();\<close>\<close>

definition tick :: "('i \<Rightarrow> 's \<Rightarrow> 's) \<Rightarrow> ('i, 's) dut \<Rightarrow> ('i, 's) dut" where
  "tick posedge d = eval posedge (d\<lparr>top_clk := False\<rparr>)"

definition edge :: "('i \<Rightarrow> 's \<Rightarrow> 's) \<Rightarrow> ('i, 's) dut \<Rightarrow> ('i, 's) dut" where
  "edge posedge d = eval posedge (d\<lparr>top_clk := True\<rparr>)"

definition set_in :: "('i \<Rightarrow> 'i) \<Rightarrow> ('i, 's) dut \<Rightarrow> ('i, 's) dut" where
  "set_in f d = d\<lparr>top_in := f (top_in d)\<rparr>"

lemma eval_simps [simp]:
  "top_in (eval p d) = top_in d" "top_prev (eval p d) = top_clk d" "\<not> top_clk d \<Longrightarrow> top_reg (eval p d) = top_reg d"
  by (simp_all add: eval_def)

text \<open>A falling clock leaves the registers alone; the rising one that follows moves them once.\<close>

lemma tick_simps [simp]:
  "top_in (tick p d) = top_in d" "top_reg (tick p d) = top_reg d" "top_prev (tick p d) = False" "top_clk (tick p d) = False"
  by (simp_all add: tick_def eval_def)

lemma edge_simps [simp]:
  "top_in (edge p d) = top_in d" "top_reg (edge p d) = (if top_prev d then top_reg d else p (top_in d) (top_reg d))"
  by (simp_all add: edge_def eval_def)

lemma set_in_simps [simp]:
  "top_in (set_in f d) = f (top_in d)" "top_reg (set_in f d) = top_reg d" "top_prev (set_in f d) = top_prev d" "top_clk (set_in f d) = top_clk d"
  by (simp_all add: set_in_def)

lemma init_simps [simp]: "top_in (dut_init i s) = i" "top_reg (dut_init i s) = s"
  by (simp_all add: dut_init_def)

end
