(* ===== verification/RtlPipe.thy ===== *)
theory RtlPipe
  imports Rtl
begin

text \<open>
  rtl/pip: the two-place pipeline register pipe_slice.sv and the counter counter.sv, with their test
  benches rtl/tb/pip/tb_pipe_slice.cpp and tb_counter.cpp.
\<close>

section \<open>The pipeline slice\<close>

record pipe_slice =
  ps_cnt :: "2 word"
  ps_r0 :: "8 word"
  ps_r1 :: "8 word"

record pipe_in =
  ps_rst_n :: bool
  s_valid :: bool
  s_data :: "8 word"
  m_ready :: bool

definition m_valid :: "pipe_slice \<Rightarrow> bool" where "m_valid s \<longleftrightarrow> ps_cnt s > 0"
definition m_data :: "pipe_slice \<Rightarrow> 8 word" where "m_data s = ps_r0 s"
definition s_ready :: "pipe_slice \<Rightarrow> bool" where "s_ready s \<longleftrightarrow> ps_cnt s < 2"
definition ps_push :: "pipe_in \<Rightarrow> pipe_slice \<Rightarrow> bool" where "ps_push i s \<longleftrightarrow> s_valid i \<and> s_ready s"
definition ps_pop :: "pipe_in \<Rightarrow> pipe_slice \<Rightarrow> bool" where "ps_pop i s \<longleftrightarrow> m_valid s \<and> m_ready i"

definition pipe_posedge :: "pipe_in \<Rightarrow> pipe_slice \<Rightarrow> pipe_slice" where
  "pipe_posedge i s =
     (if \<not> ps_rst_n i then \<lparr>ps_cnt = 0, ps_r0 = 0, ps_r1 = 0\<rparr>
      else let push = ps_push i s; pop = ps_pop i s
           in \<lparr>ps_cnt = ps_cnt s + of_bool push - of_bool pop,
               ps_r0 = (if pop \<and> ps_cnt s = 2 then ps_r1 s
                        else if push \<and> (ps_cnt s = 0 \<or> pop) then s_data i else ps_r0 s),
               ps_r1 = (if ps_cnt s = 1 \<and> push \<and> \<not> pop then s_data i else ps_r1 s)\<rparr>)"

text \<open>The specification: a queue of at most two elements.\<close>

definition ps_queue :: "pipe_slice \<Rightarrow> 8 word list" where
  "ps_queue s = (if ps_cnt s = 0 then [] else if ps_cnt s = 1 then [ps_r0 s] else [ps_r0 s, ps_r1 s])"

definition ps_inv :: "pipe_slice \<Rightarrow> bool" where
  "ps_inv s \<longleftrightarrow> ps_cnt s \<noteq> 3"

lemma word2_cases: "(w :: 2 word) = 0 \<or> w = 1 \<or> w = 2 \<or> w = 3"
proof -
  have "unat w < 4" using unsigned_less [of w] by simp
  then have "unat w = 0 \<or> unat w = 1 \<or> unat w = 2 \<or> unat w = 3" by linarith
  then show ?thesis by (auto simp: word_unat_eq_iff)
qed

lemma pipe_step:
  assumes "ps_inv s" and "ps_rst_n i"
  shows "ps_inv (pipe_posedge i s)"
    and "ps_queue (pipe_posedge i s) = (if ps_pop i s then tl (ps_queue s) else ps_queue s) @ (if ps_push i s then [s_data i] else [])"
    and "m_valid s \<longleftrightarrow> ps_queue s \<noteq> []" and "m_valid s \<Longrightarrow> m_data s = hd (ps_queue s)" and "s_ready s \<longleftrightarrow> length (ps_queue s) < 2"
  using assms word2_cases [of "ps_cnt s"]
  by (auto simp: pipe_posedge_def ps_queue_def ps_inv_def ps_pop_def ps_push_def m_valid_def s_ready_def m_data_def Let_def
      word_less_nat_alt)

text \<open>What goes in and out in the cycles of a run.\<close>

fun transfers :: "pipe_in list \<Rightarrow> pipe_slice \<Rightarrow> 8 word list \<times> 8 word list" where
  "transfers [] s = ([], [])"
| "transfers (i # is) s = (case transfers is (pipe_posedge i s) of (ins, outs) \<Rightarrow>
     ((if ps_push i s then [s_data i] else []) @ ins, (if ps_pop i s then [m_data s] else []) @ outs))"

lemma pipe_run:
  assumes "ps_inv s" and "\<forall>i \<in> set is. ps_rst_n i"
  shows "ps_inv (fold pipe_posedge is s)"
    and "ps_queue s @ fst (transfers is s) = snd (transfers is s) @ ps_queue (fold pipe_posedge is s)"
  using assms
proof (induction "is" arbitrary: s)
  case (Cons i "is")
  {
    case 1
    then show ?case using Cons.IH(1) pipe_step(1) by simp
  next
    case 2
    then have i: "ps_inv s" "ps_rst_n i" by simp_all
    obtain ins outs where t: "transfers is (pipe_posedge i s) = (ins, outs)" by fastforce
    have IH: "ps_queue (pipe_posedge i s) @ ins = outs @ ps_queue (fold pipe_posedge is (pipe_posedge i s))"
      using Cons.IH(2) [OF pipe_step(1) [OF i]] 2 t by simp
    have q: "ps_pop i s \<Longrightarrow> \<exists>q. ps_queue s = m_data s # q"
      using pipe_step(3,4) [OF i] by (cases "ps_queue s") (auto simp: ps_pop_def)
    show ?case
    proof (cases "ps_pop i s")
      case True
      then obtain q where "ps_queue s = m_data s # q" using q by blast
      then show ?thesis using IH pipe_step(2) [OF i] t True by (cases "ps_push i s") simp_all
    next
      case False
      then show ?thesis using IH pipe_step(2) [OF i] t by (cases "ps_push i s") simp_all
    qed
  }
qed simp_all

section \<open>Its test bench\<close>

record pipe_tb =
  tb_top :: "(pipe_in, pipe_slice) dut"
  send_cnt :: int
  recv_cnt :: int
  tb_pass :: bool

text \<open>One round of the loop of \<open>main\<close>.\<close>

definition pipe_tb_step :: "int \<Rightarrow> pipe_tb \<Rightarrow> pipe_tb" where
  "pipe_tb_step t tb =
     (let top = tick pipe_posedge (set_in (\<lambda>i. i\<lparr>s_data := word_of_int (send_cnt tb)\<rparr>) (tb_top tb));
          i = top_in top; s = top_reg top;
          send = (if s_valid i \<and> s_ready s \<and> ps_rst_n i then send_cnt tb + 1 else send_cnt tb);
          taken = m_valid s \<and> m_ready i;
          pass = (if taken \<and> uint (m_data s) \<noteq> recv_cnt tb then False else tb_pass tb);
          recv = (if taken then recv_cnt tb + 1 else recv_cnt tb);
          top = edge pipe_posedge top;
          top = set_in (\<lambda>i. i\<lparr>ps_rst_n := (if t = 2 then True else ps_rst_n i), m_ready := t mod 4 = 0\<rparr>) top
      in \<lparr>tb_top = top, send_cnt = send, recv_cnt = recv, tb_pass = pass\<rparr>)"

definition pipe_tb_main :: "pipe_slice \<Rightarrow> pipe_tb" where
  "pipe_tb_main s0 = fold pipe_tb_step [0..39]
     \<lparr>tb_top = dut_init \<lparr>ps_rst_n = False, s_valid = True, s_data = 0, m_ready = False\<rparr> s0,
      send_cnt = 0, recv_cnt = 0, tb_pass = True\<rparr>"

text \<open>
  The first rising edge happens under reset, so from there on nothing depends on the registers the
  simulation starts with: the run can be evaluated.
\<close>

definition pipe_tb_reset :: "pipe_tb" where
  "pipe_tb_reset =
     \<lparr>tb_top = \<lparr>top_clk = True, top_prev = True,
        top_in = \<lparr>ps_rst_n = False, s_valid = True, s_data = 0, m_ready = True\<rparr>,
        top_reg = \<lparr>ps_cnt = 0, ps_r0 = 0, ps_r1 = 0\<rparr>\<rparr>,
      send_cnt = 0, recv_cnt = 0, tb_pass = True\<rparr>"

lemma pipe_tb_first:
  "pipe_tb_step 0 \<lparr>tb_top = dut_init \<lparr>ps_rst_n = False, s_valid = True, s_data = 0, m_ready = False\<rparr> s0,
      send_cnt = 0, recv_cnt = 0, tb_pass = True\<rparr> = pipe_tb_reset"
  by (simp add: pipe_tb_step_def pipe_tb_reset_def dut_init_def tick_def edge_def eval_def set_in_def pipe_posedge_def Let_def)

lemma pipe_tb_rest:
  "(let tb = fold pipe_tb_step [1..39] pipe_tb_reset in (tb_pass tb, send_cnt tb, recv_cnt tb)) = (True, 11, 9)"
  by code_simp

lemma pipe_tb_run: "tb_pass (pipe_tb_main s0) \<and> send_cnt (pipe_tb_main s0) = 11 \<and> recv_cnt (pipe_tb_main s0) = 9"
proof -
  have "[0..39::int] = 0 # [1..39]" by (simp add: upto_rec1)
  then have "pipe_tb_main s0 = fold pipe_tb_step [1..39] pipe_tb_reset"
    by (simp add: pipe_tb_main_def pipe_tb_first del: upto_rec1)
  then show ?thesis using pipe_tb_rest by (simp add: Let_def)
qed

section \<open>The counter\<close>

record counter_in =
  ct_rst_n :: bool
  ct_en :: bool

definition counter_posedge :: "counter_in \<Rightarrow> 8 word \<Rightarrow> 8 word" where
  "counter_posedge i cnt = (if \<not> ct_rst_n i then 0 else if ct_en i then cnt + 1 else cnt)"

text \<open>One round of the loop of tb_counter.cpp, and the numbers the rounds print.\<close>

definition counter_tb_step :: "nat \<Rightarrow> (counter_in, 8 word) dut \<Rightarrow> (counter_in, 8 word) dut \<times> int" where
  "counter_tb_step t d =
     (let d = edge counter_posedge (tick counter_posedge d);
          d = set_in (\<lambda>i. if t = 2 then i\<lparr>ct_rst_n := True\<rparr> else i) d
      in (d, uint (top_reg d)))"

fun counter_tb_loop :: "nat list \<Rightarrow> (counter_in, 8 word) dut \<Rightarrow> int list" where
  "counter_tb_loop [] d = []"
| "counter_tb_loop (t # ts) d = (case counter_tb_step t d of (d', c) \<Rightarrow> c # counter_tb_loop ts d')"

definition counter_tb_main :: "8 word \<Rightarrow> int list" where
  "counter_tb_main s0 = counter_tb_loop [0..<40] (dut_init \<lparr>ct_rst_n = False, ct_en = True\<rparr> s0)"

lemma counter_tb_from:
  assumes "ct_en (top_in d)" and "ct_rst_n (top_in d) = (3 \<le> t)" and "3 \<le> t \<Longrightarrow> top_reg d = of_nat (t - 3)"
  shows "counter_tb_loop [t..<t + k] d = map (\<lambda>t. int (t - 2) mod 256) [t..<t + k]"
  using assms
proof (induction k arbitrary: t d)
  case (Suc k)
  obtain d' c where s: "counter_tb_step t d = (d', c)" by fastforce
  have c: "c = int (t - 2) mod 256" and d': "ct_en (top_in d')" "ct_rst_n (top_in d') = (3 \<le> Suc t)"
    "3 \<le> Suc t \<Longrightarrow> top_reg d' = of_nat (Suc t - 3)"
  proof -
    have r: "top_reg d' = (if 3 \<le> t then of_nat (t - 3) + 1 else 0)"
      using s Suc.prems by (auto simp: counter_tb_step_def Let_def counter_posedge_def)
    have n: "top_reg d' = of_nat (t - 2)"
    proof (cases "3 \<le> t")
      case True
      then have "t - 2 = Suc (t - 3)" by simp
      then show ?thesis using r True by simp
    qed (use r in simp)
    then have "uint (top_reg d') = int (t - 2) mod 256" by (simp add: unsigned_of_nat take_bit_eq_mod zmod_int)
    then show "c = int (t - 2) mod 256" using s by (auto simp: counter_tb_step_def Let_def)
    show "ct_en (top_in d')" "ct_rst_n (top_in d') = (3 \<le> Suc t)"
      using s Suc.prems by (auto simp: counter_tb_step_def Let_def split: if_splits)
    show "top_reg d' = of_nat (Suc t - 3)" using n by simp
  qed
  show ?case using s c Suc.IH [OF d'] by (simp add: upt_rec)
qed simp

lemma counter_tb_run: "counter_tb_main s0 = map (\<lambda>t. int (t - 2) mod 256) [0..<40]"
  using counter_tb_from [where t = 0 and k = 40 and d = "dut_init \<lparr>ct_rst_n = False, ct_en = True\<rparr> s0"]
  by (simp only: counter_tb_main_def init_simps counter_in.simps) simp

section \<open>The slice is a queue\<close>

lemma ps_queue_length: "length (ps_queue s) \<le> 2"
  by (simp add: ps_queue_def)

text \<open>Four cycles with something to send; the receiver is ready in the last two.\<close>

definition busy_cycles :: "pipe_in list" where
  "busy_cycles = map (\<lambda>(d, r). \<lparr>ps_rst_n = True, s_valid = True, s_data = d, m_ready = r\<rparr>)
     [(1, False), (2, False), (3, True), (4, True)]"

text \<open>
  C30. The pipeline slice is a queue of two places: over any run out of reset, what was queued
  followed by what it accepted is what it delivered followed by what is queued, in order, and
  never more than two elements are held.
\<close>

theorem pipe_slice_is_queue:
  assumes "ps_inv s" and "\<forall>i \<in> set is. ps_rst_n i"
  shows "ps_queue s @ fst (transfers is s) = snd (transfers is s) @ ps_queue (fold pipe_posedge is s)
    \<and> length (ps_queue (fold pipe_posedge is s)) \<le> 2"
  using pipe_run(2) [OF assms] ps_queue_length by simp

theorem pipe_slice_is_queue_witness:
  "snd (transfers busy_cycles \<lparr>ps_cnt = 0, ps_r0 = 0, ps_r1 = 0\<rparr>) = [1, 2]
    \<and> ps_queue (fold pipe_posedge busy_cycles \<lparr>ps_cnt = 0, ps_r0 = 0, ps_r1 = 0\<rparr>) = [4]"
proof -
  let ?s = "\<lparr>ps_cnt = 0, ps_r0 = 0, ps_r1 = 0\<rparr>"
  have "ps_inv ?s" "\<forall>i \<in> set busy_cycles. ps_rst_n i" by (simp_all add: ps_inv_def busy_cycles_def)
  from pipe_slice_is_queue [OF this]
  have q: "fst (transfers busy_cycles ?s) = snd (transfers busy_cycles ?s) @ ps_queue (fold pipe_posedge busy_cycles ?s)"
    by (simp add: ps_queue_def)
  have "transfers busy_cycles ?s = ([1, 2, 4], [1, 2])" unfolding busy_cycles_def by code_simp
  then show ?thesis using q by simp
qed

text \<open>The bench passes whatever the registers hold when it starts.\<close>

theorem pipe_tb_passes: "tb_pass (pipe_tb_main s0) \<and> send_cnt (pipe_tb_main s0) = 11 \<and> recv_cnt (pipe_tb_main s0) = 9"
  by (rule pipe_tb_run)

theorem counter_tb_prints: "counter_tb_main s0 = map (\<lambda>t. int (t - 2) mod 256) [0..<40]"
  by (rule counter_tb_run)

end
