(* ===== verification/RtlSram.thy ===== *)
theory RtlSram
  imports Rtl
begin

text \<open>
  rtl/bank/sram.sv and bank_mem.sv with their test benches rtl/tb/bank/tb_sram.cpp and tb_bank_mem.cpp:
  a one-read one-write memory with a registered read port, and 32 of them side by side.  The contents
  of a memory before the first write are the simulator's choice, a parameter of the two runs.
\<close>

section \<open>The contract of a clocked memory\<close>

text \<open>What the inputs of a run write to an address last, over what was there before.\<close>

fun last_value :: "('i \<Rightarrow> 'a \<Rightarrow> 'v option) \<Rightarrow> 'i list \<Rightarrow> 'a \<Rightarrow> 'v \<Rightarrow> 'v" where
  "last_value writes [] a v = v"
| "last_value writes (i # is) a v = last_value writes is a (case writes i a of None \<Rightarrow> v | Some w \<Rightarrow> w)"

text \<open>
  A bank, the banks side by side and the crossbar in front of them keep the same promise: a clock edge
  with admissible inputs stores what the inputs write, and nothing else.
\<close>

locale registered_memory =
  fixes step :: "'i \<Rightarrow> 's \<Rightarrow> 's"
    and cell :: "'s \<Rightarrow> 'a \<Rightarrow> 'v"
    and writes :: "'i \<Rightarrow> 'a \<Rightarrow> 'v option"
    and admissible :: "'i \<Rightarrow> bool"
  assumes step_cell: "admissible i \<Longrightarrow> cell (step i s) a = (case writes i a of None \<Rightarrow> cell s a | Some w \<Rightarrow> w)"
begin

lemma run: "\<forall>i \<in> set is. admissible i \<Longrightarrow> cell (fold step is s) a = last_value writes is a (cell s a)"
  by (induction "is" arbitrary: s) (simp_all add: step_cell)

end

section \<open>One bank\<close>

record 'a sram_sv =
  mem :: "'a \<Rightarrow> 16 word"
  rdata :: "16 word"

record 'a sram_in =
  sr_rst_n :: bool
  sr_we :: bool
  sr_waddr :: 'a
  sr_wdata :: "16 word"
  sr_raddr :: 'a

definition sram_posedge :: "'a sram_in \<Rightarrow> 'a sram_sv \<Rightarrow> 'a sram_sv" where
  "sram_posedge i s =
     \<lparr>mem = (if sr_we i then (mem s)(sr_waddr i := sr_wdata i) else mem s),
      rdata = (if \<not> sr_rst_n i then 0 else mem s (sr_raddr i))\<rparr>"

lemma sram_posedge_simps [simp]:
  "mem (sram_posedge i s) = (if sr_we i then (mem s)(sr_waddr i := sr_wdata i) else mem s)"
  "rdata (sram_posedge i s) = (if sr_rst_n i then mem s (sr_raddr i) else 0)"
  by (simp_all add: sram_posedge_def)

definition sram_writes :: "'a sram_in \<Rightarrow> 'a \<Rightarrow> 16 word option" where
  "sram_writes i a = (if sr_we i \<and> sr_waddr i = a then Some (sr_wdata i) else None)"

interpretation sr: registered_memory sram_posedge mem sram_writes "\<lambda>i. True"
  by unfold_locales (simp add: sram_writes_def)

text \<open>A read sees the writes of the cycles before its own; a write in the same cycle comes after it.\<close>

lemma sram_read:
  "sr_rst_n i \<Longrightarrow> rdata (fold sram_posedge (is @ [i]) s) = last_value sram_writes is (sr_raddr i) (mem s (sr_raddr i))"
  by (simp add: sr.run)

section \<open>Its test bench\<close>

record stim =
  st_we :: bool
  st_waddr :: "10 word"
  st_wdata :: "16 word"
  st_raddr :: "10 word"
  st_expect :: int

definition sram_stims :: "stim list" where
  "sram_stims =
     [\<lparr>st_we = True, st_waddr = 5, st_wdata = 0x1111, st_raddr = 0, st_expect = 0x0000\<rparr>,
      \<lparr>st_we = True, st_waddr = 6, st_wdata = 0x2222, st_raddr = 5, st_expect = 0x0000\<rparr>,
      \<lparr>st_we = False, st_waddr = 0, st_wdata = 0, st_raddr = 5, st_expect = 0x1111\<rparr>,
      \<lparr>st_we = False, st_waddr = 0, st_wdata = 0, st_raddr = 6, st_expect = 0x1111\<rparr>,
      \<lparr>st_we = False, st_waddr = 0, st_wdata = 0, st_raddr = 5, st_expect = 0x2222\<rparr>,
      \<lparr>st_we = False, st_waddr = 0, st_wdata = 0, st_raddr = 6, st_expect = 0x1111\<rparr>]"

type_synonym sram_top = "(10 word sram_in, 10 word sram_sv) dut"

text \<open>One round of the loop of \<open>main\<close>; the flag is \<open>allPass\<close>.\<close>

definition sram_tb_step :: "stim \<Rightarrow> sram_top \<times> bool \<Rightarrow> sram_top \<times> bool" where
  "sram_tb_step st = (\<lambda>(d, pass).
     let d = tick sram_posedge (set_in (\<lambda>i. i\<lparr>sr_we := st_we st, sr_waddr := st_waddr st,
                                               sr_wdata := st_wdata st, sr_raddr := st_raddr st\<rparr>) d);
         got = uint (rdata (top_reg d));
         pass = (if got \<noteq> st_expect st then False else pass)
     in (edge sram_posedge d, pass))"

definition sram_tb_main :: "10 word sram_sv \<Rightarrow> int" where
  "sram_tb_main s0 =
     (let d = dut_init \<lparr>sr_rst_n = False, sr_we = False, sr_waddr = 0, sr_wdata = 0, sr_raddr = 0\<rparr> s0;
          d = edge sram_posedge (tick sram_posedge d);
          d = edge sram_posedge (tick sram_posedge d);
          d = set_in (\<lambda>i. i\<lparr>sr_rst_n := True\<rparr>) d;
          (d, pass) = fold sram_tb_step sram_stims (d, True)
      in if pass then 0 else 1)"

lemma sram_tb_run: "sram_tb_main s0 = (if mem s0 0 = 0 then 0 else 1)"
  by (simp add: sram_tb_main_def sram_stims_def sram_tb_step_def Let_def unsigned_eq_0_iff)

section \<open>32 banks\<close>

abbreviation NBANK :: nat where "NBANK \<equiv> 32"

type_synonym bank_mem = "nat \<Rightarrow> 7 word sram_sv"

record bank_in =
  bm_rst_n :: bool
  rd_addr :: "nat \<Rightarrow> 7 word"
  wr_en :: "nat \<Rightarrow> bool"
  wr_addr :: "nat \<Rightarrow> 7 word"
  wr_data :: "nat \<Rightarrow> 16 word"

definition bank_mem_posedge :: "bank_in \<Rightarrow> bank_mem \<Rightarrow> bank_mem" where
  "bank_mem_posedge i s = (\<lambda>b. if b < NBANK then
       sram_posedge \<lparr>sr_rst_n = bm_rst_n i, sr_we = wr_en i b, sr_waddr = wr_addr i b,
                     sr_wdata = wr_data i b, sr_raddr = rd_addr i b\<rparr> (s b)
     else s b)"

lemma bank_mem_posedge_bank:
  "b < NBANK \<Longrightarrow> mem (bank_mem_posedge i s b) = (if wr_en i b then (mem (s b))(wr_addr i b := wr_data i b) else mem (s b))"
  "b < NBANK \<Longrightarrow> rdata (bank_mem_posedge i s b) = (if bm_rst_n i then mem (s b) (rd_addr i b) else 0)"
  by (simp_all add: bank_mem_posedge_def)

definition bank_writes :: "bank_in \<Rightarrow> nat \<times> 7 word \<Rightarrow> 16 word option" where
  "bank_writes i = (\<lambda>(b, a). if b < NBANK \<and> wr_en i b \<and> wr_addr i b = a then Some (wr_data i b) else None)"

interpretation bk: registered_memory bank_mem_posedge "\<lambda>s (b, a). mem (s b) a" bank_writes "\<lambda>i. True"
  by unfold_locales (auto simp: bank_writes_def bank_mem_posedge_def)

section \<open>Their test bench\<close>

type_synonym bank_top = "(bank_in, bank_mem) dut"

text \<open>\<open>for (int b = 0; b < NBANK; b++) port[b] = f(b);\<close>\<close>

definition all_banks :: "(nat \<Rightarrow> 'a) \<Rightarrow> (nat \<Rightarrow> 'a) \<Rightarrow> nat \<Rightarrow> 'a" where
  "all_banks f old = (\<lambda>b. if b < NBANK then f b else old b)"

lemma all_banks [simp]: "b < NBANK \<Longrightarrow> all_banks f old b = f b"
  by (simp add: all_banks_def)

definition cycle :: "bank_top \<Rightarrow> bank_top" where
  "cycle d = edge bank_mem_posedge (tick bank_mem_posedge d)"

lemma cycle_simps [simp]:
  "top_in (cycle d) = top_in d" "top_reg (cycle d) = bank_mem_posedge (top_in d) (top_reg d)"
  by (simp_all add: cycle_def)

text \<open>Set the 32 read addresses, let one edge pass and compare the 32 read ports with \<open>want\<close>.\<close>

definition read_all :: "(nat \<Rightarrow> 7 word) \<Rightarrow> bank_top \<Rightarrow> bank_top" where
  "read_all a d = cycle (set_in (\<lambda>i. i\<lparr>rd_addr := all_banks a (rd_addr i)\<rparr>) d)"

definition banks_hold :: "(nat \<Rightarrow> int) \<Rightarrow> bank_top \<Rightarrow> bool" where
  "banks_hold want d = list_all (\<lambda>b. uint (rdata (top_reg d b)) = want b) [0..<NBANK]"

definition read_and_check :: "int \<Rightarrow> int \<Rightarrow> bank_top \<Rightarrow> bank_top \<times> bool" where
  "read_and_check off base d =
     (let d = read_all (\<lambda>b. word_of_int off) d
      in (d, banks_hold (\<lambda>b. if base < 0 then 0 else base + int b) d))"

definition bank_tb_reset :: "bank_mem \<Rightarrow> bank_top" where
  "bank_tb_reset s0 =
     set_in (\<lambda>i. i\<lparr>bm_rst_n := True\<rparr>)
       (cycle (cycle (dut_init \<lparr>bm_rst_n = False, rd_addr = \<lambda>b. 0, wr_en = \<lambda>b. False,
                                wr_addr = \<lambda>b. 0, wr_data = \<lambda>b. 0\<rparr> s0)))"

definition bank_tb_write :: "bank_top \<Rightarrow> bank_top" where
  "bank_tb_write d =
     (let d = cycle (set_in (\<lambda>i. i\<lparr>wr_en := all_banks (\<lambda>b. True) (wr_en i),
                                   wr_addr := all_banks (\<lambda>b. of_nat (b + 1)) (wr_addr i),
                                   wr_data := all_banks (\<lambda>b. of_nat (0x1000 + b)) (wr_data i)\<rparr>) d);
          d = cycle (set_in (\<lambda>i. i\<lparr>wr_addr := all_banks (\<lambda>b. of_nat (b + 65)) (wr_addr i),
                                   wr_data := all_banks (\<lambda>b. of_nat (0x2000 + b)) (wr_data i)\<rparr>) d);
          d = set_in (\<lambda>i. i\<lparr>wr_en := all_banks (\<lambda>b. False) (wr_en i)\<rparr>) d;
          d = cycle (set_in (\<lambda>i. i\<lparr>wr_en := (wr_en i)(7 := True), wr_addr := (wr_addr i)(7 := 100),
                                   wr_data := (wr_data i)(7 := 0xDEAD)\<rparr>) d)
      in set_in (\<lambda>i. i\<lparr>wr_en := (wr_en i)(7 := False)\<rparr>) d)"

definition bank_tb_main :: "bank_mem \<Rightarrow> int" where
  "bank_tb_main s0 =
     (let d = bank_tb_write (bank_tb_reset s0);
          d = read_all (\<lambda>b. of_nat (b + 1)) d;
          ok4 = banks_hold (\<lambda>b. 0x1000 + int b) d;
          d = read_all (\<lambda>b. of_nat (b + 65)) d;
          ok5 = banks_hold (\<lambda>b. 0x2000 + int b) d;
          d = read_all (\<lambda>b. 100) d;
          ok6 = banks_hold (\<lambda>b. if b = 7 then 0xDEAD else 0) d;
          (d, ok7) = read_and_check 0 (- 1) d
      in if ok4 \<and> ok5 \<and> ok6 \<and> ok7 then 0 else 1)"

lemma bank_tb_writes:
  defines "d \<equiv> \<lambda>s0. bank_tb_write (bank_tb_reset s0)"
  assumes b: "b < NBANK"
  shows "mem (top_reg (d s0) b) = (if b = 7 then \<lambda>m. m(100 := 0xDEAD) else id)
           ((mem (s0 b))(of_nat (b + 1) := of_nat (0x1000 + b), of_nat (b + 65) := of_nat (0x2000 + b)))"
    and "bm_rst_n (top_in (d s0))" and "wr_en (top_in (d s0)) b = False"
  using b by (simp_all add: d_def bank_tb_write_def bank_tb_reset_def Let_def bank_mem_posedge_bank)

text \<open>Out of reset and with every write enable low, reads do not change what is there to be read.\<close>

definition quiet :: "bank_top \<Rightarrow> bool" where
  "quiet d \<longleftrightarrow> bm_rst_n (top_in d) \<and> (\<forall>b < NBANK. \<not> wr_en (top_in d) b)"

lemma read_all_sees:
  assumes "quiet d"
  shows "quiet (read_all a d)" and "b < NBANK \<Longrightarrow> rdata (top_reg (read_all a d) b) = mem (top_reg d b) (a b)"
    and "b < NBANK \<Longrightarrow> mem (top_reg (read_all a d) b) = mem (top_reg d b)"
  using assms by (simp_all add: quiet_def read_all_def bank_mem_posedge_bank)

lemma banks_hold_iff: "banks_hold want d \<longleftrightarrow> (\<forall>b < NBANK. uint (rdata (top_reg d b)) = want b)"
  by (auto simp: banks_hold_def list_all_iff)

lemma of_nat7_eq: "m < 128 \<Longrightarrow> n < 128 \<Longrightarrow> (of_nat m :: 7 word) = of_nat n \<longleftrightarrow> m = n"
  by (simp add: word_of_nat_eq_iff take_bit_nat_eq_self)

lemma bank_tb_cells:
  fixes s0 :: bank_mem and b :: nat
  defines "m \<equiv> mem (top_reg (bank_tb_write (bank_tb_reset s0)) b)"
  assumes b: "b < NBANK"
  shows "m (of_nat (b + 1)) = of_nat (0x1000 + b)" and "m (of_nat (b + 65)) = of_nat (0x2000 + b)"
    and "m 100 = (if b = 7 then 0xDEAD else mem (s0 b) 100)" and "m 0 = mem (s0 b) 0"
  using bank_tb_writes(1) [OF b, of s0] b of_nat7_eq [of "b + 1" "b + 65"] of_nat7_eq [of "b + 1" 100]
    of_nat7_eq [of 100 "b + 1"] of_nat7_eq [of "b + 65" 100] of_nat7_eq [of 100 "b + 65"] of_nat7_eq [of 0 "b + 1"] of_nat7_eq [of 0 "b + 65"]
  by (simp_all add: m_def del: of_nat_add of_nat_Suc)

lemma bank_tb_run:
  "bank_tb_main s0 = (if \<forall>b < NBANK. mem (s0 b) 0 = 0 \<and> (b \<noteq> 7 \<longrightarrow> mem (s0 b) 100 = 0) then 0 else 1)"
proof -
  define d where "d = bank_tb_write (bank_tb_reset s0)"
  define d4 where "d4 = read_all (\<lambda>b. of_nat (b + 1)) d"
  define d5 where "d5 = read_all (\<lambda>b. of_nat (b + 65)) d4"
  define d6 where "d6 = read_all (\<lambda>b. 100) d5"
  define d7 where "d7 = read_all (\<lambda>b. 0) d6"
  note w = bank_tb_writes [of _ s0, folded d_def]
  note read = read_all_sees
  have q: "quiet d" using w(2) [of 0] w(3) by (simp add: quiet_def)
  then have q4: "quiet d4" unfolding d4_def by (rule read)
  then have q5: "quiet d5" unfolding d5_def by (rule read)
  then have q6: "quiet d6" unfolding d6_def by (rule read)
  have m: "mem (top_reg d4 b) = mem (top_reg d b)" "mem (top_reg d5 b) = mem (top_reg d b)"
    "mem (top_reg d6 b) = mem (top_reg d b)" if "b < NBANK" for b
    using read(3) [OF q that] read(3) [OF q4 that] read(3) [OF q5 that] by (simp_all add: d4_def d5_def d6_def)
  have small: "uint (of_nat n :: 16 word) = int n" if "n < 65536" for n
    using that by (simp add: unsigned_of_nat take_bit_nat_eq_self)
  note mem = bank_tb_cells [of _ s0, folded d_def]
  have 4: "banks_hold (\<lambda>b. 0x1000 + int b) d4"
    using read(2) [OF q] mem(1) small by (simp add: banks_hold_iff d4_def del: of_nat_add of_nat_Suc)
  have 5: "banks_hold (\<lambda>b. 0x2000 + int b) d5"
    using read(2) [OF q4] m(1) mem(2) small by (simp add: banks_hold_iff d5_def del: of_nat_add of_nat_Suc)
  have 6: "banks_hold (\<lambda>b. if b = 7 then 0xDEAD else 0) d6 \<longleftrightarrow> (\<forall>b < NBANK. b \<noteq> 7 \<longrightarrow> mem (s0 b) 100 = 0)"
    using read(2) [OF q5] m(2) mem(3) by (auto simp: banks_hold_iff d6_def unsigned_eq_0_iff)
  have 7: "banks_hold (\<lambda>b. 0) d7 \<longleftrightarrow> (\<forall>b < NBANK. mem (s0 b) 0 = 0)"
    using read(2) [OF q6] m(3) mem(4) by (auto simp: banks_hold_iff d7_def unsigned_eq_0_iff)
  have "bank_tb_main s0 = (if banks_hold (\<lambda>b. 0x1000 + int b) d4 \<and> banks_hold (\<lambda>b. 0x2000 + int b) d5
      \<and> banks_hold (\<lambda>b. if b = 7 then 0xDEAD else 0) d6 \<and> banks_hold (\<lambda>b. 0) d7 then 0 else 1)"
    by (simp add: bank_tb_main_def read_and_check_def Let_def d_def d4_def d5_def d6_def d7_def)
  then show ?thesis by (simp only: 4 5 6 7 simp_thms) (simp add: all_conj_distrib imp_conjR conj_commute)
qed

text \<open>
  C36. The test benches of the banks pass exactly when the cells that they read without having
  written them hold zero at the start: address 0 of every bank, address 100 of every bank but the
  seventh, and address 0 of the single memory.
\<close>

theorem bank_tb_passes_iff:
  "bank_tb_main s0 = (if \<forall>b < NBANK. mem (s0 b) 0 = 0 \<and> (b \<noteq> 7 \<longrightarrow> mem (s0 b) 100 = 0) then 0 else 1)
   \<and> sram_tb_main r0 = (if mem r0 0 = 0 then 0 else 1)"
  using bank_tb_run sram_tb_run by blast

theorem bank_tb_passes_iff_witness:
  "bank_tb_main (\<lambda>b. \<lparr>mem = (\<lambda>a. 0), rdata = 0\<rparr>) = 0 \<and> sram_tb_main \<lparr>mem = (\<lambda>a. 1), rdata = 0\<rparr> = 1"
  using bank_tb_passes_iff [of "\<lambda>b. \<lparr>mem = (\<lambda>a. 0), rdata = 0\<rparr>" "\<lparr>mem = (\<lambda>a. 1), rdata = 0\<rparr>"] by simp

end
