(* ===== verification/RtlXbar.thy ===== *)
theory RtlXbar
  imports RtlSram
begin

text \<open>
  rtl/bank/bank_xbar.sv: 32 read and 32 write slots over 32 banks, one access per bank, side and cycle;
  the slot with the lowest index wins.  Its test bench rtl/tb/bank/tb_bank_xbar.cpp follows in
  \<open>RtlXbarBench\<close>.
\<close>

unbundle bit_operations_syntax

section \<open>Addresses\<close>

definition bank_of :: "bool \<Rightarrow> 12 word \<Rightarrow> nat" where
  "bank_of hash_en a =
     unat (if hash_en then (ucast a :: 5 word) XOR ucast (drop_bit 5 a) else (ucast a :: 5 word))"

definition local_of :: "12 word \<Rightarrow> 7 word" where
  "local_of a = ucast (drop_bit 5 a)"

lemma bank_of_less [simp]: "bank_of h a < 32"
  using unsigned_less [of "if h then (ucast a :: 5 word) XOR ucast (drop_bit 5 a) else (ucast a :: 5 word)"]
  by (simp add: bank_of_def)

text \<open>Bank and local address determine the address, whichever map is used.\<close>

lemma bank_local_inj:
  assumes b: "bank_of h a = bank_of h a'" and l: "local_of a = local_of a'"
  shows "a = a'"
proof (rule bit_word_eqI)
  fix n assume n: "n < LENGTH(12)"
  have hi: "bit a (5 + k) = bit a' (5 + k)" if "k < 7" for k
    using arg_cong [OF l, of "\<lambda>w. bit w k"] that by (simp add: local_of_def bit_simps)
  have "bit a n = bit a' n" if "n < 5"
    using arg_cong [OF iffD2 [OF word_unat_eq_iff b [unfolded bank_of_def]], of "\<lambda>w. bit w n"] hi [of n] that
    by (cases h) (auto simp: bit_simps)
  then show "bit a n = bit a' n"
    using hi [of "n - 5"] n by (cases "n < 5") simp_all
qed

section \<open>The lowest-index arbiter\<close>

text \<open>
  Both sides run the same two nested loops over banks and slots: \<open>req b i\<close> says that slot \<open>i\<close> asks
  for bank \<open>b\<close>, \<open>grab b i\<close> is what the body does besides setting \<open>found[b]\<close>.
\<close>

definition arb_slot :: "(nat \<Rightarrow> nat \<Rightarrow> bool) \<Rightarrow> (nat \<Rightarrow> nat \<Rightarrow> 's \<Rightarrow> 's) \<Rightarrow> nat \<Rightarrow> nat \<Rightarrow> (nat \<Rightarrow> bool) \<times> 's \<Rightarrow> (nat \<Rightarrow> bool) \<times> 's" where
  "arb_slot req grab b i = (\<lambda>(found, s).
     if \<not> found b \<and> req b i then (found(b := True), grab b i s) else (found, s))"

definition arbitrate :: "(nat \<Rightarrow> nat \<Rightarrow> bool) \<Rightarrow> (nat \<Rightarrow> nat \<Rightarrow> 's \<Rightarrow> 's) \<Rightarrow> 's \<Rightarrow> 's" where
  "arbitrate req grab s =
     snd (fold (\<lambda>b. fold (arb_slot req grab b) [0..<NBANK]) [0..<NBANK] (\<lambda>b. False, s))"

lemma arb_slots:
  "fold (arb_slot req grab b) xs (found, s) =
     (if found b then (found, s) else case find (req b) xs of None \<Rightarrow> (found, s) | Some i \<Rightarrow> (found(b := True), grab b i s))"
  by (induction xs arbitrary: found s) (auto simp: arb_slot_def)

lemma arbitrate_find:
  "arbitrate req grab s = fold (\<lambda>b s. case find (req b) [0..<NBANK] of None \<Rightarrow> s | Some i \<Rightarrow> grab b i s) [0..<NBANK] s"
proof -
  have "snd (fold (\<lambda>b. fold (arb_slot req grab b) xs) bs (found, s)) =
      fold (\<lambda>b s. case find (req b) xs of None \<Rightarrow> s | Some i \<Rightarrow> grab b i s) bs s"
    if "distinct bs" "\<forall>b \<in> set bs. \<not> found b" for bs xs found
    using that
  proof (induction bs arbitrary: found s)
    case (Cons b bs)
    have IH: "\<forall>b \<in> set bs. \<not> found b \<Longrightarrow> snd (fold (\<lambda>b. fold (arb_slot req grab b) xs) bs (found, s)) =
        fold (\<lambda>b s. case find (req b) xs of None \<Rightarrow> s | Some i \<Rightarrow> grab b i s) bs s" for found s
      using Cons by simp
    have upd: "\<forall>b' \<in> set bs. \<not> (found(b := True)) b'" using Cons.prems by auto
    show ?case using Cons.prems by (cases "find (req b) xs") (simp_all add: arb_slots IH IH [OF upd])
  qed simp
  then show ?thesis by (simp add: arbitrate_def)
qed

text \<open>The slot that gets bank \<open>b\<close>.\<close>

lemma find_upt_Some: "find P [0..<n] = Some i \<longleftrightarrow> i < n \<and> P i \<and> (\<forall>j < i. \<not> P j)"
  by (auto simp: find_Some_iff)

lemma find_upt_None: "find P [0..<n] = None \<longleftrightarrow> (\<forall>i < n. \<not> P i)"
  by (auto simp: find_None_iff)

section \<open>The read side\<close>

record rd_arb =
  rd_served :: "nat \<Rightarrow> bool"
  b_rd_addr :: "nat \<Rightarrow> 7 word"

definition rd_arbiter :: "(nat \<Rightarrow> nat) \<Rightarrow> (nat \<Rightarrow> 7 word) \<Rightarrow> rd_arb" where
  "rd_arbiter banks locals =
     arbitrate (\<lambda>b i. banks i = b)
       (\<lambda>b i s. s\<lparr>rd_served := (rd_served s)(i := True), b_rd_addr := (b_rd_addr s)(b := locals i)\<rparr>)
       \<lparr>rd_served = \<lambda>i. False, b_rd_addr = \<lambda>b. 0\<rparr>"

section \<open>The write side\<close>

record wr_arb =
  w_granted :: "nat \<Rightarrow> bool"
  b_we :: "nat \<Rightarrow> bool"
  b_waddr :: "nat \<Rightarrow> 7 word"
  b_wdata :: "nat \<Rightarrow> 16 word"

definition wr_arbiter :: "(nat \<Rightarrow> bool) \<Rightarrow> (nat \<Rightarrow> nat) \<Rightarrow> (nat \<Rightarrow> 7 word) \<Rightarrow> (nat \<Rightarrow> 16 word) \<Rightarrow> wr_arb" where
  "wr_arbiter valid banks locals data =
     arbitrate (\<lambda>b i. valid i \<and> banks i = b)
       (\<lambda>b i s. s\<lparr>w_granted := (w_granted s)(i := True), b_we := (b_we s)(b := True),
                  b_waddr := (b_waddr s)(b := locals i), b_wdata := (b_wdata s)(b := data i)\<rparr>)
       \<lparr>w_granted = \<lambda>i. False, b_we = \<lambda>b. False, b_waddr = \<lambda>b. 0, b_wdata = \<lambda>b. 0\<rparr>"

text \<open>\<open>bank_cnt\<close> and \<open>wr_bank_cnt\<close>: the requests per bank, in six-bit counters.\<close>

definition bank_counts :: "(nat \<Rightarrow> bool) \<Rightarrow> (nat \<Rightarrow> nat) \<Rightarrow> nat \<Rightarrow> 6 word" where
  "bank_counts valid banks =
     fold (\<lambda>i c. if valid i then c(banks i := c (banks i) + 1) else c) [0..<NBANK] (\<lambda>b. 0)"

lemma bank_counts_count:
  "bank_counts valid banks b = of_nat (card {i. i < NBANK \<and> valid i \<and> banks i = b})"
proof -
  have "fold (\<lambda>i c. if valid i then c(banks i := c (banks i) + 1) else c) [0..<n] (\<lambda>b. 0) b =
      (of_nat (card {i. i < n \<and> valid i \<and> banks i = b}) :: 6 word)" for n
  proof (induction n)
    case (Suc n)
    have "{i. i < Suc n \<and> valid i \<and> banks i = b} =
        (if valid n \<and> banks n = b then insert n {i. i < n \<and> valid i \<and> banks i = b} else {i. i < n \<and> valid i \<and> banks i = b})"
      by (auto simp: less_Suc_eq)
    then show ?case using Suc by (cases "valid n \<and> banks n = b") auto
  qed simp
  then show ?thesis by (simp add: bank_counts_def)
qed

lemma rd_arbiter_fold:
  fixes f :: "nat \<Rightarrow> nat option" and locals :: "nat \<Rightarrow> 7 word" and data :: "nat \<Rightarrow> 16 word"
  defines "g \<equiv> \<lambda>b s. case f b of None \<Rightarrow> s
      | Some i \<Rightarrow> s\<lparr>rd_served := (rd_served s)(i := True), b_rd_addr := (b_rd_addr s)(b := locals i)\<rparr>"
  shows "rd_served (fold g bs s) i \<longleftrightarrow> rd_served s i \<or> (\<exists>b \<in> set bs. f b = Some i)"
    and "distinct bs \<Longrightarrow> b_rd_addr (fold g bs s) b = (if b \<in> set bs then case f b of None \<Rightarrow> b_rd_addr s b | Some i \<Rightarrow> locals i else b_rd_addr s b)"
  by (induction bs arbitrary: s) (auto simp: g_def split: option.splits)

lemma wr_arbiter_fold:
  fixes f :: "nat \<Rightarrow> nat option" and locals :: "nat \<Rightarrow> 7 word" and data :: "nat \<Rightarrow> 16 word"
  defines "g \<equiv> \<lambda>b s. case f b of None \<Rightarrow> s
      | Some i \<Rightarrow> s\<lparr>w_granted := (w_granted s)(i := True), b_we := (b_we s)(b := True),
                  b_waddr := (b_waddr s)(b := locals i), b_wdata := (b_wdata s)(b := data i)\<rparr>"
  shows "w_granted (fold g bs s) i \<longleftrightarrow> w_granted s i \<or> (\<exists>b \<in> set bs. f b = Some i)"
    and "distinct bs \<Longrightarrow> b_we (fold g bs s) b = (if b \<in> set bs \<and> f b \<noteq> None then True else b_we s b)"
    and "distinct bs \<Longrightarrow> b \<in> set bs \<Longrightarrow> f b = Some j \<Longrightarrow> b_waddr (fold g bs s) b = locals j \<and> b_wdata (fold g bs s) b = data j"
proof -
  have g: "g b s = (case f b of None \<Rightarrow> s
      | Some i \<Rightarrow> s\<lparr>w_granted := (w_granted s)(i := True), b_we := (b_we s)(b := True),
                  b_waddr := (b_waddr s)(b := locals i), b_wdata := (b_wdata s)(b := data i)\<rparr>)" for b s
    by (simp add: g_def)
  show "w_granted (fold g bs s) i \<longleftrightarrow> w_granted s i \<or> (\<exists>b \<in> set bs. f b = Some i)"
    by (induction bs arbitrary: s) (auto simp: g split: option.splits)
  show "distinct bs \<Longrightarrow> b_we (fold g bs s) b = (if b \<in> set bs \<and> f b \<noteq> None then True else b_we s b)"
    by (induction bs arbitrary: s) (auto simp: g split: option.splits)
  have keep: "b \<notin> set bs \<Longrightarrow> b_waddr (fold g bs s) b = b_waddr s b \<and> b_wdata (fold g bs s) b = b_wdata s b" for bs s
    by (induction bs arbitrary: s) (auto simp: g split: option.splits)
  show "distinct bs \<Longrightarrow> b \<in> set bs \<Longrightarrow> f b = Some j \<Longrightarrow> b_waddr (fold g bs s) b = locals j \<and> b_wdata (fold g bs s) b = data j"
    by (induction bs arbitrary: s) (auto simp: g keep split: option.splits)
qed

text \<open>Slot \<open>i\<close> is served exactly when no slot below it asks for its bank.\<close>

lemma rd_arbiter:
  assumes banks: "\<And>i. banks i < NBANK"
  shows "rd_served (rd_arbiter banks locals) i \<longleftrightarrow> i < NBANK \<and> (\<forall>j < i. banks j \<noteq> banks i)"
    and "rd_served (rd_arbiter banks locals) i \<Longrightarrow> b_rd_addr (rd_arbiter banks locals) (banks i) = locals i"
proof -
  note f = rd_arbiter_fold [where f = "\<lambda>b. find (\<lambda>i. banks i = b) [0..<NBANK]" and bs = "[0..<NBANK]"]
  show s: "rd_served (rd_arbiter banks locals) i \<longleftrightarrow> i < NBANK \<and> (\<forall>j < i. banks j \<noteq> banks i)"
    unfolding rd_arbiter_def arbitrate_find f(1) using banks [of i] by (auto simp: find_upt_Some)
  assume "rd_served (rd_arbiter banks locals) i"
  then have "find (\<lambda>j. banks j = banks i) [0..<NBANK] = Some i"
    unfolding s by (simp add: find_upt_Some)
  then show "b_rd_addr (rd_arbiter banks locals) (banks i) = locals i"
    unfolding rd_arbiter_def arbitrate_find f(2) [OF distinct_upt] using banks [of i] by simp
qed

lemma wr_arbiter:
  fixes valid :: "nat \<Rightarrow> bool" and banks :: "nat \<Rightarrow> nat" and locals :: "nat \<Rightarrow> 7 word" and data :: "nat \<Rightarrow> 16 word"
  assumes banks: "\<And>i. banks i < NBANK"
  defines "w \<equiv> wr_arbiter valid banks locals data"
  shows "w_granted w i \<longleftrightarrow> i < NBANK \<and> valid i \<and> (\<forall>j < i. valid j \<longrightarrow> banks j \<noteq> banks i)"
    and "b_we w b \<longleftrightarrow> b < NBANK \<and> (\<exists>i. w_granted w i \<and> banks i = b)"
    and "w_granted w i \<Longrightarrow> b_waddr w (banks i) = locals i \<and> b_wdata w (banks i) = data i"
proof -
  note f = wr_arbiter_fold [where f = "\<lambda>b. find (\<lambda>i. valid i \<and> banks i = b) [0..<NBANK]" and bs = "[0..<NBANK]"]
  have g: "w_granted w i \<longleftrightarrow> find (\<lambda>j. valid j \<and> banks j = banks i) [0..<NBANK] = Some i" for i
    unfolding w_def wr_arbiter_def arbitrate_find f(1) using banks [of i] by (auto simp: find_upt_Some)
  then show "w_granted w i \<longleftrightarrow> i < NBANK \<and> valid i \<and> (\<forall>j < i. valid j \<longrightarrow> banks j \<noteq> banks i)"
    by (auto simp: find_upt_Some)
  show "b_we w b \<longleftrightarrow> b < NBANK \<and> (\<exists>i. w_granted w i \<and> banks i = b)"
  proof -
    have "b_we w b \<longleftrightarrow> b < NBANK \<and> find (\<lambda>i. valid i \<and> banks i = b) [0..<NBANK] \<noteq> None"
      unfolding w_def wr_arbiter_def arbitrate_find f(2) [OF distinct_upt] by simp
    then show ?thesis unfolding g by (auto simp: find_upt_Some) 
  qed
  assume "w_granted w i"
  then have "find (\<lambda>j. valid j \<and> banks j = banks i) [0..<NBANK] = Some i" by (simp only: g)
  then show "b_waddr w (banks i) = locals i \<and> b_wdata w (banks i) = data i"
    unfolding w_def wr_arbiter_def arbitrate_find using f(3) [OF distinct_upt] banks [of i] by simp
qed

section \<open>The module\<close>

record xbar_in =
  xb_rst_n :: bool
  hash_en :: bool
  req_addr :: "nat \<Rightarrow> 12 word"
  x_wr_addr :: "nat \<Rightarrow> 12 word"
  x_wr_data :: "nat \<Rightarrow> 16 word"
  x_wr_valid :: "nat \<Rightarrow> bool"

record xbar =
  grant :: "nat \<Rightarrow> bool"
  bank_of_d :: "nat \<Rightarrow> nat"
  u_mem :: bank_mem

definition x_rd :: "xbar_in \<Rightarrow> rd_arb" where
  "x_rd i = rd_arbiter (\<lambda>k. bank_of (hash_en i) (req_addr i k)) (\<lambda>k. local_of (req_addr i k))"

definition x_wr :: "xbar_in \<Rightarrow> wr_arb" where
  "x_wr i = wr_arbiter (x_wr_valid i) (\<lambda>k. bank_of (hash_en i) (x_wr_addr i k)) (\<lambda>k. local_of (x_wr_addr i k)) (x_wr_data i)"

definition bank_cnt :: "xbar_in \<Rightarrow> nat \<Rightarrow> 6 word" where
  "bank_cnt i = bank_counts (\<lambda>k. True) (\<lambda>k. bank_of (hash_en i) (req_addr i k))"

definition wr_bank_cnt :: "xbar_in \<Rightarrow> nat \<Rightarrow> 6 word" where
  "wr_bank_cnt i = bank_counts (x_wr_valid i) (\<lambda>k. bank_of (hash_en i) (x_wr_addr i k))"

definition wr_grant :: "xbar_in \<Rightarrow> nat \<Rightarrow> bool" where
  "wr_grant i = w_granted (x_wr i)"

definition x_rd_data :: "xbar \<Rightarrow> nat \<Rightarrow> 16 word" where
  "x_rd_data s k = rdata (u_mem s (bank_of_d s k))"

definition xbar_posedge :: "xbar_in \<Rightarrow> xbar \<Rightarrow> xbar" where
  "xbar_posedge i s =
     \<lparr>grant = all_banks (\<lambda>k. if \<not> xb_rst_n i then False else rd_served (x_rd i) k) (grant s),
      bank_of_d = all_banks (\<lambda>k. if \<not> xb_rst_n i then 0 else bank_of (hash_en i) (req_addr i k)) (bank_of_d s),
      u_mem = bank_mem_posedge \<lparr>bm_rst_n = xb_rst_n i, rd_addr = b_rd_addr (x_rd i), wr_en = b_we (x_wr i),
                wr_addr = b_waddr (x_wr i), wr_data = b_wdata (x_wr i)\<rparr> (u_mem s)\<rparr>"

text \<open>The specification: one flat memory of 4096 words.\<close>

definition flat :: "bool \<Rightarrow> xbar \<Rightarrow> 12 word \<Rightarrow> 16 word" where
  "flat h s a = mem (u_mem s (bank_of h a)) (local_of a)"

lemma xbar_read:
  assumes "xb_rst_n i" and "k < NBANK"
  shows "grant (xbar_posedge i s) k \<longleftrightarrow> (\<forall>j < k. bank_of (hash_en i) (req_addr i j) \<noteq> bank_of (hash_en i) (req_addr i k))"
    and "grant (xbar_posedge i s) k \<Longrightarrow> x_rd_data (xbar_posedge i s) k = flat (hash_en i) s (req_addr i k)"
  using assms rd_arbiter [of "\<lambda>k. bank_of (hash_en i) (req_addr i k)" "\<lambda>k. local_of (req_addr i k)" k]
  by (simp_all add: xbar_posedge_def x_rd_def x_rd_data_def flat_def bank_mem_posedge_bank)

lemma xbar_write:
  assumes r: "xb_rst_n i"
  shows "wr_grant i k \<longleftrightarrow> k < NBANK \<and> x_wr_valid i k
           \<and> (\<forall>j < k. x_wr_valid i j \<longrightarrow> bank_of (hash_en i) (x_wr_addr i j) \<noteq> bank_of (hash_en i) (x_wr_addr i k))"
    and "wr_grant i k \<Longrightarrow> flat (hash_en i) (xbar_posedge i s) (x_wr_addr i k) = x_wr_data i k"
    and "\<forall>k. wr_grant i k \<longrightarrow> x_wr_addr i k \<noteq> a \<Longrightarrow> flat (hash_en i) (xbar_posedge i s) a = flat (hash_en i) s a"
proof -
  note w = wr_arbiter [of "\<lambda>k. bank_of (hash_en i) (x_wr_addr i k)" "x_wr_valid i" "\<lambda>k. local_of (x_wr_addr i k)" "x_wr_data i",
      simplified, folded x_wr_def]
  show "wr_grant i k \<longleftrightarrow> k < NBANK \<and> x_wr_valid i k
           \<and> (\<forall>j < k. x_wr_valid i j \<longrightarrow> bank_of (hash_en i) (x_wr_addr i j) \<noteq> bank_of (hash_en i) (x_wr_addr i k))"
    by (simp add: wr_grant_def w(1))
  have f: "flat (hash_en i) (xbar_posedge i s) a =
      (if b_we (x_wr i) (bank_of (hash_en i) a) \<and> b_waddr (x_wr i) (bank_of (hash_en i) a) = local_of a
       then b_wdata (x_wr i) (bank_of (hash_en i) a) else flat (hash_en i) s a)" for a
    by (simp add: flat_def xbar_posedge_def bank_mem_posedge_bank)
  show "flat (hash_en i) (xbar_posedge i s) (x_wr_addr i k) = x_wr_data i k" if "wr_grant i k"
    using that w(2) w(3) [of k] by (auto simp: f wr_grant_def)
  show "flat (hash_en i) (xbar_posedge i s) a = flat (hash_en i) s a" if o: "\<forall>k. wr_grant i k \<longrightarrow> x_wr_addr i k \<noteq> a"
  proof (rule ccontr)
    assume "\<not> ?thesis"
    then obtain k where k: "wr_grant i k" "bank_of (hash_en i) (x_wr_addr i k) = bank_of (hash_en i) a"
      "b_waddr (x_wr i) (bank_of (hash_en i) a) = local_of a"
      using w(2) by (auto simp: f wr_grant_def split: if_splits)
    then have "local_of (x_wr_addr i k) = local_of a" using w(3) [of k] by (simp add: wr_grant_def)
    then show False using bank_local_inj [OF k(2)] o k(1) by blast
  qed
qed

text \<open>The writes of a cycle, as seen from an address.\<close>

definition xbar_writes :: "xbar_in \<Rightarrow> 12 word \<Rightarrow> 16 word option" where
  "xbar_writes i a = map_option (x_wr_data i) (find (\<lambda>k. wr_grant i k \<and> x_wr_addr i k = a) [0..<NBANK])"

interpretation xb: registered_memory xbar_posedge "flat h" xbar_writes "\<lambda>i :: xbar_in. xb_rst_n i \<and> hash_en i = h" for h
proof
  fix i :: xbar_in and s :: xbar and a :: "12 word"
  assume i: "xb_rst_n i \<and> hash_en i = h"
  then have r: "xb_rst_n i" by simp
  show "flat h (xbar_posedge i s) a = (case xbar_writes i a of None \<Rightarrow> flat h s a | Some w \<Rightarrow> w)"
  proof (cases "find (\<lambda>k. wr_grant i k \<and> x_wr_addr i k = a) [0..<NBANK]")
    case None
    have "x_wr_addr i k \<noteq> a" if "wr_grant i k" for k
      using None that xbar_write(1) [OF r, of k] unfolding find_upt_None by blast
    then show ?thesis using xbar_write(3) [OF r, of a s] i None by (simp add: xbar_writes_def)
  next
    case (Some k)
    then have k: "wr_grant i k" "x_wr_addr i k = a" and w: "xbar_writes i a = Some (x_wr_data i k)"
      unfolding find_upt_Some by (simp_all add: xbar_writes_def Some)
    show ?thesis using xbar_write(2) [OF r k(1), of s] i unfolding w by (simp add: k(2))
  qed
qed

text \<open>
  C19. The crossbar in front of the 32 banks is one flat memory, hashed or not: a read is granted
  exactly when no slot of lower index wants its bank, a granted read returns the last value that
  was written to its address in the cycles before, and a granted write is stored.
\<close>

theorem xbar_reads_last_write:
  fixes "is" :: "xbar_in list" and i :: xbar_in
  assumes "\<forall>j \<in> set (is @ [i]). xb_rst_n j \<and> hash_en j = h" and "k < NBANK"
  shows "(grant (fold xbar_posedge (is @ [i]) s) k \<longleftrightarrow> (\<forall>j < k. bank_of h (req_addr i j) \<noteq> bank_of h (req_addr i k)))
    \<and> (grant (fold xbar_posedge (is @ [i]) s) k \<longrightarrow>
         x_rd_data (fold xbar_posedge (is @ [i]) s) k = last_value xbar_writes is (req_addr i k) (flat h s (req_addr i k)))
    \<and> (wr_grant i k \<longrightarrow> flat h (fold xbar_posedge (is @ [i]) s) (x_wr_addr i k) = x_wr_data i k)"
proof -
  have i: "xb_rst_n i" "hash_en i = h" and m: "\<forall>j \<in> set is. xb_rst_n j \<and> hash_en j = h" using assms(1) by simp_all
  show ?thesis
    using xbar_read [OF i(1) assms(2), of "fold xbar_posedge is s"] xbar_write(2) [OF i(1), of k "fold xbar_posedge is s"]
      xb.run [OF m, of s "req_addr i k"] i(2) by simp
qed

text \<open>Slots 0 and 1 both want bank 3: only slot 0 is granted and reads the old contents, while slot 0 of the write side stores.\<close>

definition sample_xbar_in :: xbar_in where
  "sample_xbar_in = \<lparr>xb_rst_n = True, hash_en = False, req_addr = (\<lambda>k. if k = 0 then 3 else 35), x_wr_addr = (\<lambda>k. 3),
     x_wr_data = (\<lambda>k. 7), x_wr_valid = (\<lambda>k. k = 0)\<rparr>"

definition sample_xbar :: xbar where
  "sample_xbar = \<lparr>grant = (\<lambda>k. False), bank_of_d = (\<lambda>k. 0), u_mem = (\<lambda>b. \<lparr>mem = (\<lambda>a. 5), rdata = 0\<rparr>)\<rparr>"

theorem xbar_reads_last_write_witness:
  "x_rd_data (fold xbar_posedge [sample_xbar_in, sample_xbar_in] sample_xbar) 0 = 7
   \<and> \<not> grant (fold xbar_posedge [sample_xbar_in, sample_xbar_in] sample_xbar) 1"
proof -
  let ?is = "[sample_xbar_in]"
  have r: "\<forall>j \<in> set (?is @ [sample_xbar_in]). xb_rst_n j \<and> hash_en j = False" "req_addr sample_xbar_in 0 = 3"
    "req_addr sample_xbar_in 1 = 35" "x_wr_addr sample_xbar_in 0 = 3" "x_wr_data sample_xbar_in 0 = 7"
    by (simp_all add: sample_xbar_in_def)
  have b: "bank_of False 3 = 3" "bank_of False 35 = 3" by code_simp+
  have g: "wr_grant sample_xbar_in 0" using xbar_write(1) [of sample_xbar_in 0] by (simp add: sample_xbar_in_def)
  then have "find (\<lambda>k. wr_grant sample_xbar_in k \<and> x_wr_addr sample_xbar_in k = 3) [0..<NBANK] = Some 0"
    using r(4) by (simp add: find_upt_Some)
  then have "last_value xbar_writes ?is 3 v = 7" for v using r(5) by (simp add: xbar_writes_def)
  then show ?thesis
    using xbar_reads_last_write [OF r(1), of 0 sample_xbar] xbar_reads_last_write [OF r(1), of 1 sample_xbar] r b by auto
qed

end
