(* ===== verification/RtlXbarBench.thy ===== *)
theory RtlXbarBench
  imports RtlXbar "HOL-Library.Monad_Syntax"
begin

text \<open>
  rtl/tb/bank/tb_bank_xbar.cpp: requests are issued again until all are granted; the cycles this takes
  are the requests of the most crowded bank.  The loops end only when the hardware grants, so they are
  partial functions; an array \<open>a\<close> with its length \<open>n\<close> is the list of its first \<open>n\<close> elements.
\<close>

section \<open>Rounds of requests\<close>

text \<open>The requests a round leaves: those with an earlier one for the same bank.\<close>

definition rest :: "('a \<Rightarrow> nat) \<Rightarrow> 'a list \<Rightarrow> 'a list" where
  "rest f xs = map ((!) xs) (filter (\<lambda>i. \<exists>j < i. f (xs ! j) = f (xs ! i)) [0..<length xs])"

definition crowd :: "('a \<Rightarrow> nat) \<Rightarrow> 'a list \<Rightarrow> nat" where
  "crowd f xs = Max ((\<lambda>b. count_list (map f xs) b) ` {..<NBANK})"

lemma rest_Nil [simp]: "rest f [] = []"
  by (simp add: rest_def)

lemma rest_snoc: "rest f (xs @ [x]) = rest f xs @ (if f x \<in> f ` set xs then [x] else [])"
proof -
  have "map ((!) (xs @ [x])) (filter (\<lambda>i. \<exists>j < i. f ((xs @ [x]) ! j) = f ((xs @ [x]) ! i)) [0..<length xs]) = rest f xs"
  proof -
    have nth: "(xs @ [x]) ! i = xs ! i" if "i < length xs" for i using that by (simp add: nth_append)
    then have "(\<exists>j < i. f ((xs @ [x]) ! j) = f ((xs @ [x]) ! i)) = (\<exists>j < i. f (xs ! j) = f (xs ! i))" if "i < length xs" for i
      using that by (metis order.strict_trans)
    then have "filter (\<lambda>i. \<exists>j < i. f ((xs @ [x]) ! j) = f ((xs @ [x]) ! i)) [0..<length xs] =
        filter (\<lambda>i. \<exists>j < i. f (xs ! j) = f (xs ! i)) [0..<length xs]"
      by (intro filter_cong refl) simp
    then show ?thesis unfolding rest_def using nth by simp
  qed
  moreover have "(\<exists>j < length xs. f ((xs @ [x]) ! j) = f x) \<longleftrightarrow> f x \<in> f ` set xs"
  proof -
    have "f ` set xs = {f (xs ! j) | j. j < length xs}" by (auto simp: set_conv_nth)
    then show ?thesis by (auto simp: nth_append)
  qed
  ultimately show ?thesis by (simp add: rest_def)
qed

lemma count_rest: "count_list (map f (rest f xs)) b = count_list (map f xs) b - 1"
proof (induction xs rule: rev_induct)
  case (snoc x xs)
  have "f x \<in> f ` set xs \<longleftrightarrow> count_list (map f xs) (f x) > 0"
    using count_list_0_iff [of "map f xs" "f x"] by auto
  then show ?case using snoc by (auto simp: rest_snoc)
qed simp

lemma length_rest: "length (rest f xs) \<le> length xs"
  by (simp add: rest_def) (metis diff_zero length_filter_le length_upt)

lemma crowd_rest: "crowd f (rest f xs) = crowd f xs - 1"
proof -
  have "mono (\<lambda>n::nat. n - 1)" by (auto intro!: monoI diff_le_mono)
  then have "Max ((\<lambda>n. n - 1) ` (\<lambda>b. count_list (map f xs) b) ` {..<NBANK}) = crowd f xs - 1"
    by (subst mono_Max_commute [symmetric]) (auto simp: crowd_def lessThan_empty_iff)
  then show ?thesis by (simp add: crowd_def count_rest image_image)
qed

lemma crowd_pos:
  assumes "xs \<noteq> []" and f: "\<And>x. f x < NBANK"
  shows "0 < crowd f xs"
proof -
  have "0 < count_list (map f xs) (f (hd xs))"
    using assms(1) count_list_0_iff [of "map f xs" "f (hd xs)"] by (cases xs) auto
  also have "\<dots> \<le> crowd f xs" unfolding crowd_def by (rule Max_ge) (use f in auto)
  finally show ?thesis .
qed

lemma crowd_Nil [simp]: "crowd f [] = 0"
  by (simp add: crowd_def image_constant_conv lessThan_empty_iff)

section \<open>The loops of the bench\<close>

type_synonym xbar_top = "(xbar_in, xbar) dut"

definition xcycle :: "xbar_top \<Rightarrow> xbar_top" where
  "xcycle d = edge xbar_posedge (tick xbar_posedge d)"

definition wr_one :: "int \<Rightarrow> int \<Rightarrow> xbar_top \<Rightarrow> xbar_top" where
  "wr_one addr data d =
     (let d = set_in (\<lambda>i. i\<lparr>x_wr_valid := (x_wr_valid i)(0 := True), x_wr_addr := (x_wr_addr i)(0 := word_of_int addr),
                            x_wr_data := (x_wr_data i)(0 := word_of_int data)\<rparr>) d;
          d = xcycle d
      in set_in (\<lambda>i. i\<lparr>x_wr_valid := (x_wr_valid i)(0 := False)\<rparr>) d)"

text \<open>Slot \<open>i\<close> of a round: request \<open>i\<close>, or address 0 past the last one.\<close>

definition req_of_slot :: "int list \<Rightarrow> nat \<Rightarrow> 12 word" where
  "req_of_slot a i = (if i < length a then word_of_int (a ! i) else 0)"

partial_function (option) run_reads_loop :: "int list \<Rightarrow> nat \<Rightarrow> (nat \<Rightarrow> int) \<Rightarrow> xbar_top \<Rightarrow> (nat \<times> (nat \<Rightarrow> int) \<times> xbar_top) option" where
  "run_reads_loop a cycles counts d =
     (if a = [] then Some (cycles, counts, d)
      else let d = tick xbar_posedge (set_in (\<lambda>i. i\<lparr>req_addr := all_banks (req_of_slot a) (req_addr i)\<rparr>) d);
               counts = (if cycles = 0 then all_banks (\<lambda>b. uint (bank_cnt (top_in d) b)) counts else counts);
               d = edge xbar_posedge d;
               keep = map ((!) a) (filter (\<lambda>i. \<not> grant (top_reg d) i) [0..<length a])
           in run_reads_loop keep (cycles + 1) counts d)"

definition run_reads :: "int list \<Rightarrow> bool \<Rightarrow> (nat \<Rightarrow> int) \<Rightarrow> xbar_top \<Rightarrow> (nat \<times> (nat \<Rightarrow> int) \<times> xbar_top) option" where
  "run_reads a hash counts d =
     do { (cycles, counts, d) \<leftarrow> run_reads_loop a 0 counts (set_in (\<lambda>i. i\<lparr>hash_en := hash\<rparr>) d);
          Some (cycles, counts, set_in (\<lambda>i. i\<lparr>hash_en := False\<rparr>) d) }"

definition build :: "int \<Rightarrow> nat \<Rightarrow> nat \<Rightarrow> int list" where
  "build strideA nA nB = map (\<lambda>i. int i * strideA) [0..<nA] @ map int [0..<nB]"

text \<open>
  The results are \<open>allPass\<close>, the number of cycles and \<open>worst\<close>, which is printed when all 32 slots are
  used.  The first round overwrites \<open>counts\<close>, so what it is before does not matter.
\<close>

definition scenario :: "int \<Rightarrow> nat \<Rightarrow> nat \<Rightarrow> bool \<Rightarrow> nat \<Rightarrow> xbar_top \<times> bool \<Rightarrow> ((xbar_top \<times> bool) \<times> nat \<times> int) option" where
  "scenario strideA nA nB hash expect = (\<lambda>(d, pass).
     do { (cyc, counts, d) \<leftarrow> run_reads (build strideA nA nB) hash (\<lambda>b. 0) d;
          let worst = (if nA + nB = NBANK then fold (\<lambda>b w. if counts b > w then counts b else w) [0..<NBANK] 0 else 0);
          Some ((d, if cyc = expect then pass else False), cyc, worst) })"

partial_function (option) run_writes :: "int list \<Rightarrow> nat \<Rightarrow> (nat \<Rightarrow> int) \<Rightarrow> xbar_top \<Rightarrow> (nat \<times> (nat \<Rightarrow> int) \<times> xbar_top) option" where
  "run_writes pending cycles wcnt d =
     (if pending = [] then Some (cycles, wcnt, d)
      else let d = tick xbar_posedge (set_in (\<lambda>i. i\<lparr>x_wr_valid := all_banks (\<lambda>i. i < length pending) (x_wr_valid i),
                                                     x_wr_addr := all_banks (req_of_slot pending) (x_wr_addr i)\<rparr>) d);
               wcnt = (if cycles = 0 then all_banks (\<lambda>b. uint (wr_bank_cnt (top_in d) b)) wcnt else wcnt);
               keep = map ((!) pending) (filter (\<lambda>i. \<not> wr_grant (top_in d) i) [0..<length pending])
           in run_writes keep (cycles + 1) wcnt (edge xbar_posedge d))"

definition xbar_tb_reset :: "xbar \<Rightarrow> xbar_top" where
  "xbar_tb_reset s0 =
     set_in (\<lambda>i. i\<lparr>xb_rst_n := True\<rparr>)
       (xcycle (xcycle (dut_init \<lparr>xb_rst_n = False, hash_en = False, req_addr = \<lambda>i. 0, x_wr_addr = \<lambda>i. 0,
                                  x_wr_data = \<lambda>i. 0, x_wr_valid = \<lambda>i. False\<rparr> s0)))"

text \<open>Test 1: 32 reads of 32 banks.\<close>

definition xbar_test1 :: "xbar_top \<Rightarrow> xbar_top \<times> bool" where
  "xbar_test1 d =
     (let d = fold (\<lambda>b. wr_one (int b) (0x1000 + int b)) [0..<NBANK] d;
          d = xcycle (set_in (\<lambda>i. i\<lparr>req_addr := all_banks of_nat (req_addr i)\<rparr>) d)
      in (d, list_all (\<lambda>i. grant (top_reg d) i \<and> uint (x_rd_data (top_reg d) i) = 0x1000 + int i) [0..<NBANK]))"

text \<open>Test 3: 16 writes to one bank.  The bench prints \<open>wcnt[0]\<close>.\<close>

definition xbar_test3 :: "xbar_top \<Rightarrow> (nat \<times> int \<times> xbar_top) option" where
  "xbar_test3 d =
     do { let pending = map (\<lambda>i. int i * 128) [0..<16];
          let d = set_in (\<lambda>i. i\<lparr>x_wr_valid := (\<lambda>k. if k < 16 then True else x_wr_valid i k),
                                x_wr_addr := (\<lambda>k. if k < 16 then of_nat (k * 128) else x_wr_addr i k),
                                x_wr_data := (\<lambda>k. if k < 16 then of_nat (0xB000 + k) else x_wr_data i k)\<rparr>) d;
          (cycles, wcnt, d) \<leftarrow> run_writes pending 0 (\<lambda>b. 0) d;
          Some (cycles, wcnt 0, set_in (\<lambda>i. i\<lparr>x_wr_valid := all_banks (\<lambda>k. False) (x_wr_valid i)\<rparr>) d) }"

definition xbar_tb_main :: "xbar \<Rightarrow> int option" where
  "xbar_tb_main s0 =
     do { let dp = xbar_test1 (xbar_tb_reset s0);
          (dp, _) \<leftarrow> scenario 128 16 0 False 16 dp;
          (dp, _) \<leftarrow> scenario 129 16 0 False 1 dp;
          (dp, _) \<leftarrow> scenario 128 16 0 True 2 dp;
          (dp, _) \<leftarrow> scenario 128 16 16 False 17 dp;
          (dp, _) \<leftarrow> scenario 129 16 16 False 2 dp;
          ((d, pass), _) \<leftarrow> scenario 128 16 16 True 3 dp;
          (cycles, _, d) \<leftarrow> xbar_test3 d;
          Some (if (if cycles \<noteq> 16 then False else pass) then 0 else 1) }"

section \<open>The read loop\<close>

definition req_bank :: "bool \<Rightarrow> int \<Rightarrow> nat" where
  "req_bank h a = bank_of h (word_of_int a)"

lemma req_bank_less [simp]: "req_bank h a < NBANK"
  by (simp add: req_bank_def)

lemma run_reads_loop_cycles:
  assumes "length a \<le> NBANK" and "xb_rst_n (top_in d)"
  shows "\<exists>counts' d'. run_reads_loop a cycles counts d = Some (cycles + crowd (req_bank (hash_en (top_in d))) a, counts', d')
     \<and> xb_rst_n (top_in d') \<and> x_wr_valid (top_in d') = x_wr_valid (top_in d)
     \<and> counts' = (if cycles = 0 \<and> a \<noteq> [] then all_banks (\<lambda>b. uint (bank_counts (\<lambda>k. True) (\<lambda>k. bank_of (hash_en (top_in d)) (req_of_slot a k)) b)) counts
                  else counts)"
  using assms
proof (induction "crowd (req_bank (hash_en (top_in d))) a" arbitrary: a d cycles counts rule: less_induct)
  case less
  show ?case
  proof (cases "a = []")
    case True
    then show ?thesis using less.prems by (subst run_reads_loop.simps) simp
  next
    case False
    let ?f = "req_bank (hash_en (top_in d))"
    define d1 where "d1 = edge xbar_posedge (tick xbar_posedge (set_in (\<lambda>i. i\<lparr>req_addr := all_banks (req_of_slot a) (req_addr i)\<rparr>) d))"
    define i1 where "i1 = (top_in d)\<lparr>req_addr := all_banks (req_of_slot a) (req_addr (top_in d))\<rparr>"
    have d1: "top_in d1 = i1" "top_reg d1 = xbar_posedge i1 (top_reg d)" by (simp_all add: d1_def i1_def)
    have "grant (top_reg d1) i \<longleftrightarrow> \<not> (\<exists>j < i. ?f (a ! j) = ?f (a ! i))" if "i < length a" for i
      using xbar_read(1) [of i1 i "top_reg d"] that less.prems by (auto simp: d1 i1_def req_of_slot_def req_bank_def)
    then have keep: "map ((!) a) (filter (\<lambda>i. \<not> grant (top_reg d1) i) [0..<length a]) = rest ?f a"
      unfolding rest_def by (intro map_cong filter_cong) auto
    define c1 where "c1 = (if cycles = 0 then all_banks (\<lambda>b. uint (bank_cnt i1 b)) counts else counts)"
    have "run_reads_loop a cycles counts d =
        run_reads_loop (map ((!) a) (filter (\<lambda>i. \<not> grant (top_reg d1) i) [0..<length a])) (cycles + 1) c1 d1"
      using False by (subst run_reads_loop.simps) (simp add: Let_def c1_def i1_def d1_def)
    note step = this [unfolded keep]
    have c: "crowd ?f a > 0" using crowd_pos [OF False, of ?f] by simp
    have h: "hash_en (top_in d1) = hash_en (top_in d)" "x_wr_valid (top_in d1) = x_wr_valid (top_in d)"
      "xb_rst_n (top_in d1)" using less.prems by (simp_all add: d1 i1_def)
    have l: "length (rest ?f a) \<le> NBANK" using length_rest [of ?f a] less.prems by simp
    have n: "bank_cnt i1 b = bank_counts (\<lambda>k. True) (\<lambda>k. bank_of (hash_en (top_in d)) (req_of_slot a k)) b" for b
      by (simp add: bank_cnt_def i1_def bank_counts_count all_banks_def cong: conj_cong)
    show ?thesis using less.hyps [of d1 "rest ?f a" "cycles + 1" c1] c l h False
      by (auto simp: step crowd_rest c1_def n cong: if_cong)
  qed
qed

lemma run_reads_cycles:
  assumes "length a \<le> NBANK" and "xb_rst_n (top_in d)"
  obtains d' where "run_reads a h counts d = Some (crowd (req_bank h) a,
       (if a \<noteq> [] then all_banks (\<lambda>b. uint (bank_counts (\<lambda>k. True) (\<lambda>k. bank_of h (req_of_slot a k)) b)) counts else counts), d')"
    and "xb_rst_n (top_in d')"
  using run_reads_loop_cycles [of a "set_in (\<lambda>i. i\<lparr>hash_en := h\<rparr>) d" 0 counts] assms
  by (auto simp: run_reads_def)

section \<open>The write loop\<close>

text \<open>A round of the write loop: the first request of each bank is written.\<close>

definition wr_round :: "int list \<Rightarrow> xbar_top \<Rightarrow> xbar_top" where
  "wr_round pending d =
     edge xbar_posedge (tick xbar_posedge (set_in (\<lambda>i. i\<lparr>x_wr_valid := all_banks (\<lambda>i. i < length pending) (x_wr_valid i),
                                                     x_wr_addr := all_banks (req_of_slot pending) (x_wr_addr i)\<rparr>) d))"

lemma run_writes_step:
  assumes "length pending \<le> NBANK" and "xb_rst_n (top_in d)" and "pending \<noteq> []"
  shows "\<exists>wcnt'. run_writes pending cycles wcnt d = run_writes (rest (req_bank (hash_en (top_in d))) pending) (cycles + 1) wcnt' (wr_round pending d)"
proof -
  let ?f = "req_bank (hash_en (top_in d))"
  define i1 where "i1 = (top_in d)\<lparr>x_wr_valid := all_banks (\<lambda>i. i < length pending) (x_wr_valid (top_in d)),
      x_wr_addr := all_banks (req_of_slot pending) (x_wr_addr (top_in d))\<rparr>"
  have "wr_grant i1 i \<longleftrightarrow> \<not> (\<exists>j < i. ?f (pending ! j) = ?f (pending ! i))" if "i < length pending" for i
    using xbar_write(1) [of i1 i] that assms by (auto simp: i1_def req_of_slot_def req_bank_def)
  then have keep: "map ((!) pending) (filter (\<lambda>i. \<not> wr_grant i1 i) [0..<length pending]) = rest ?f pending"
    unfolding rest_def by (intro map_cong filter_cong) auto
  define w1 where "w1 = (if cycles = 0 then all_banks (\<lambda>b. uint (wr_bank_cnt i1 b)) wcnt else wcnt)"
  have "run_writes pending cycles wcnt d =
      run_writes (map ((!) pending) (filter (\<lambda>i. \<not> wr_grant i1 i) [0..<length pending])) (cycles + 1) w1 (wr_round pending d)"
    using assms by (subst run_writes.simps) (simp add: Let_def i1_def wr_round_def w1_def)
  then show ?thesis unfolding keep by blast
qed

lemma wr_round_in:
  "xb_rst_n (top_in (wr_round pending d)) = xb_rst_n (top_in d)" "hash_en (top_in (wr_round pending d)) = hash_en (top_in d)"
  "x_wr_data (top_in (wr_round pending d)) = x_wr_data (top_in d)"
  by (simp_all add: wr_round_def)

lemma run_writes_cycles:
  assumes "length pending \<le> NBANK" and "xb_rst_n (top_in d)"
  shows "\<exists>wcnt' d'. run_writes pending cycles wcnt d = Some (cycles + crowd (req_bank (hash_en (top_in d))) pending, wcnt', d')"
  using assms
proof (induction "crowd (req_bank (hash_en (top_in d))) pending" arbitrary: pending d cycles wcnt rule: less_induct)
  case less
  let ?f = "req_bank (hash_en (top_in d))"
  show ?case
  proof (cases "pending = []")
    case True
    then show ?thesis by (subst run_writes.simps) simp
  next
    case False
    have c: "crowd ?f pending > 0" using crowd_pos [OF False, of ?f] by simp
    have l: "length (rest ?f pending) \<le> NBANK" using length_rest [of ?f pending] less.prems by simp
    obtain w1 where step: "run_writes pending cycles wcnt d = run_writes (rest ?f pending) (cycles + 1) w1 (wr_round pending d)"
      using run_writes_step [OF less.prems False] by blast
    show ?thesis using less.hyps [of "wr_round pending d" "rest ?f pending" "cycles + 1" w1] c l less.prems
      by (auto simp: step crowd_rest wr_round_in)
  qed
qed

section \<open>The tests\<close>

definition quiet_x :: "xbar_top \<Rightarrow> bool" where
  "quiet_x d \<longleftrightarrow> xb_rst_n (top_in d) \<and> \<not> hash_en (top_in d) \<and> x_wr_valid (top_in d) = (\<lambda>k. False)"

lemma wr_one_flat:
  assumes "quiet_x d"
  shows "quiet_x (wr_one a v d)" and "flat False (top_reg (wr_one a v d)) = (flat False (top_reg d))(word_of_int a := word_of_int v)"
proof -
  define i where "i = (top_in d)\<lparr>x_wr_valid := (x_wr_valid (top_in d))(0 := True), x_wr_addr := (x_wr_addr (top_in d))(0 := word_of_int a),
      x_wr_data := (x_wr_data (top_in d))(0 := word_of_int v)\<rparr>"
  have q: "xb_rst_n i" "\<not> hash_en i" "x_wr_valid i = (\<lambda>k. k = 0)" "x_wr_addr i 0 = word_of_int a" "x_wr_data i 0 = word_of_int v"
    using assms by (auto simp: i_def quiet_x_def fun_eq_iff)
  have r: "top_reg (wr_one a v d) = xbar_posedge i (top_reg d)" by (simp add: wr_one_def xcycle_def i_def Let_def)
  show "quiet_x (wr_one a v d)" using assms by (auto simp: wr_one_def xcycle_def Let_def quiet_x_def)
  have g: "wr_grant i k \<longleftrightarrow> k = 0" for k using xbar_write(1) [OF q(1), of k] by (auto simp: q(3))
  show "flat False (top_reg (wr_one a v d)) = (flat False (top_reg d))(word_of_int a := word_of_int v)"
  proof
    fix b
    show "flat False (top_reg (wr_one a v d)) b = ((flat False (top_reg d))(word_of_int a := word_of_int v)) b"
      using xbar_write(2) [OF q(1), of 0 "top_reg d"] xbar_write(3) [OF q(1), of b "top_reg d"] q
      by (cases "b = word_of_int a") (simp_all add: r g)
  qed
qed

lemma of_nat12_eq: "m < 4096 \<Longrightarrow> n < 4096 \<Longrightarrow> (of_nat m :: 12 word) = of_nat n \<longleftrightarrow> m = n"
  by (simp add: word_of_nat_eq_iff take_bit_nat_eq_self)

lemma wr_ones_flat:
  assumes "quiet_x d" and "n \<le> 4096"
  defines "d' \<equiv> fold (\<lambda>b. wr_one (int b) (0x1000 + int b)) [0..<n] d"
  shows "quiet_x d' \<and> (\<forall>b < n. flat False (top_reg d') (of_nat b) = of_nat (0x1000 + b))"
  using assms(2) unfolding d'_def
proof (induction n)
  case (Suc n)
  then show ?case using of_nat12_eq by (auto simp: wr_one_flat less_Suc_eq)
qed (simp add: assms)

lemma bank_of_small: "i < NBANK \<Longrightarrow> bank_of False (of_nat i) = i"
  by (simp add: bank_of_def unsigned_ucast_eq unsigned_of_nat take_bit_nat_eq_self)

lemma xbar_test1_passes:
  assumes "quiet_x d"
  shows "snd (xbar_test1 d)" and "xb_rst_n (top_in (fst (xbar_test1 d)))"
proof -
  define d1 where "d1 = fold (\<lambda>b. wr_one (int b) (0x1000 + int b)) [0..<NBANK] d"
  define i where "i = (top_in d1)\<lparr>req_addr := all_banks of_nat (req_addr (top_in d1))\<rparr>"
  have d1: "quiet_x d1" "b < NBANK \<Longrightarrow> flat False (top_reg d1) (of_nat b) = of_nat (0x1000 + b)" for b
    using wr_ones_flat [OF assms, of NBANK] by (simp_all add: d1_def)
  have i: "xb_rst_n i" "\<not> hash_en i" "k < NBANK \<Longrightarrow> req_addr i k = of_nat k" for k
    using d1 by (simp_all add: i_def quiet_x_def)
  have "grant (xbar_posedge i (top_reg d1)) k \<and> uint (x_rd_data (xbar_posedge i (top_reg d1)) k) = 0x1000 + int k" if k: "k < NBANK" for k
  proof -
    have g: "grant (xbar_posedge i (top_reg d1)) k"
      using xbar_read(1) [OF i(1) k] i k by (simp add: bank_of_small)
    have "uint (of_nat (0x1000 + k) :: 16 word) = int (0x1000 + k)"
      using k by (simp add: unsigned_of_nat take_bit_nat_eq_self del: of_nat_add)
    then show ?thesis using xbar_read(2) [OF i(1) k g] g d1(2) [OF k] i k by simp
  qed
  then show "snd (xbar_test1 d)"
    by (simp add: xbar_test1_def Let_def xcycle_def list_all_iff i_def d1_def)
  show "xb_rst_n (top_in (fst (xbar_test1 d)))"
    using d1(1) by (simp add: xbar_test1_def Let_def xcycle_def quiet_x_def d1_def)
qed

lemma scenario_cycles:
  assumes "nA + nB \<le> NBANK" and "xb_rst_n (top_in d)"
  obtains d' worst where "scenario s nA nB h expect (d, pass) =
      Some ((d', if crowd (req_bank h) (build s nA nB) = expect then pass else False), crowd (req_bank h) (build s nA nB), worst)"
    and "xb_rst_n (top_in d')"
proof -
  have "length (build s nA nB) \<le> NBANK" using assms by (simp add: build_def)
  then obtain counts' d' where r: "run_reads (build s nA nB) h (\<lambda>b. 0) d = Some (crowd (req_bank h) (build s nA nB), counts', d')"
    and d': "xb_rst_n (top_in d')"
    using run_reads_cycles [OF _ assms(2)] by blast
  show ?thesis by (rule that [OF _ d']) (simp add: scenario_def Let_def r)
qed

lemma crowd_list: "crowd f xs = fold max (map (\<lambda>b. count_list (map f xs) b) [0..<NBANK]) 0"
proof -
  have "crowd f xs = Max (set (0 # map (\<lambda>b. count_list (map f xs) b) [0..<NBANK]))"
    unfolding crowd_def list.set by (subst Max_insert) (auto simp: image_iff lessThan_atLeast0)
  then show ?thesis by (simp only: Max.set_eq_fold)
qed

lemma scenario_crowds:
  "crowd (req_bank False) (build 128 16 0) = 16 \<and> crowd (req_bank False) (build 129 16 0) = 1
   \<and> crowd (req_bank True) (build 128 16 0) = 2 \<and> crowd (req_bank False) (build 128 16 16) = 17
   \<and> crowd (req_bank False) (build 129 16 16) = 2 \<and> crowd (req_bank True) (build 128 16 16) = 3
   \<and> crowd (req_bank False) (map (\<lambda>i. int i * 128) [0..<16]) = 16"
  unfolding crowd_list by code_simp

text \<open>The whole bench: it ends, and it passes.\<close>

lemma xbar_test3_cycles:
  assumes "xb_rst_n (top_in d)" and "\<not> hash_en (top_in d)"
  shows "\<exists>w d'. xbar_test3 d = Some (16, w, d')"
proof -
  define d1 where "d1 = set_in (\<lambda>i. i\<lparr>x_wr_valid := (\<lambda>k. if k < 16 then True else x_wr_valid i k),
                                x_wr_addr := (\<lambda>k. if k < 16 then of_nat (k * 128) else x_wr_addr i k),
                                x_wr_data := (\<lambda>k. if k < 16 then of_nat (0xB000 + k) else x_wr_data i k)\<rparr>) d"
  have "xb_rst_n (top_in d1)" "hash_en (top_in d1) = False" using assms by (simp_all add: d1_def)
  then obtain w d2 where "run_writes (map (\<lambda>i. int i * 128) [0..<16]) 0 (\<lambda>b. 0) d1 = Some (16, w, d2)"
    using run_writes_cycles [of "map (\<lambda>i. int i * 128) [0..<16]" d1 0 "\<lambda>b. 0"] scenario_crowds by auto
  then show ?thesis by (simp add: xbar_test3_def Let_def d1_def)
qed

lemma run_reads_hash: "run_reads a h counts d = Some (c, counts', d') \<Longrightarrow> \<not> hash_en (top_in d')"
  by (auto simp: run_reads_def bind_eq_Some_conv)

lemma xbar_tb_run: "xbar_tb_main s0 = Some 0"
proof -
  obtain d pass where t1: "xbar_test1 (xbar_tb_reset s0) = (d, pass)" by fastforce
  have "quiet_x (xbar_tb_reset s0)" by (simp add: quiet_x_def xbar_tb_reset_def xcycle_def)
  from xbar_test1_passes [OF this] have d: pass "xb_rst_n (top_in d)" by (simp_all add: t1)
  obtain d1 w1 where s1: "scenario 128 16 0 False 16 (d, True) = Some ((d1, True), 16, w1)" and d1: "xb_rst_n (top_in d1)"
    using scenario_cycles [where s = 128 and nA = 16 and nB = 0 and h = False and expect = 16 and pass = True, OF _ d(2)] scenario_crowds by auto
  obtain d2 w2 where s2: "scenario 129 16 0 False 1 (d1, True) = Some ((d2, True), 1, w2)" and d2: "xb_rst_n (top_in d2)"
    using scenario_cycles [where s = 129 and nA = 16 and nB = 0 and h = False and expect = 1 and pass = True, OF _ d1] scenario_crowds by auto
  obtain d3 w3 where s3: "scenario 128 16 0 True 2 (d2, True) = Some ((d3, True), 2, w3)" and d3: "xb_rst_n (top_in d3)"
    using scenario_cycles [where s = 128 and nA = 16 and nB = 0 and h = True and expect = 2 and pass = True, OF _ d2] scenario_crowds by auto
  obtain d4 w4 where s4: "scenario 128 16 16 False 17 (d3, True) = Some ((d4, True), 17, w4)" and d4: "xb_rst_n (top_in d4)"
    using scenario_cycles [where s = 128 and nA = 16 and nB = 16 and h = False and expect = 17 and pass = True, OF _ d3] scenario_crowds by auto
  obtain d5 w5 where s5: "scenario 129 16 16 False 2 (d4, True) = Some ((d5, True), 2, w5)" and d5: "xb_rst_n (top_in d5)"
    using scenario_cycles [where s = 129 and nA = 16 and nB = 16 and h = False and expect = 2 and pass = True, OF _ d4] scenario_crowds by auto
  obtain d6 w6 where s6: "scenario 128 16 16 True 3 (d5, True) = Some ((d6, True), 3, w6)" and d6: "xb_rst_n (top_in d6)"
    using scenario_cycles [where s = 128 and nA = 16 and nB = 16 and h = True and expect = 3 and pass = True, OF _ d5] scenario_crowds by auto
  have "\<not> hash_en (top_in d6)" using s6 by (auto simp: scenario_def bind_eq_Some_conv Let_def dest: run_reads_hash)
  then obtain w7 d7 where s7: "xbar_test3 d6 = Some (16, w7, d7)" using xbar_test3_cycles [OF d6] by blast
  show ?thesis using t1 d(1) by (simp add: xbar_tb_main_def Let_def s1 s2 s3 s4 s5 s6 s7 del: One_nat_def)
qed

section \<open>What the write test stores\<close>

text \<open>
  The write loop moves the pending addresses up but not their data: when all requests want one bank,
  slot 0 is granted in every round and its datum goes to every address.
\<close>

lemma rest_one_bank: "\<forall>x \<in> set xs. f x = b \<Longrightarrow> rest f xs = tl xs"
proof (induction xs rule: rev_induct)
  case (snoc x xs)
  then show ?case using rest_snoc [of f xs x] by (cases xs) auto
qed simp

lemma wr_round_one_bank:
  assumes "\<forall>a \<in> set pending. req_bank (hash_en (top_in d)) a = b" and "length pending \<le> NBANK" and "pending \<noteq> []"
    and "xb_rst_n (top_in d)"
  shows "flat (hash_en (top_in d)) (top_reg (wr_round pending d)) =
     (flat (hash_en (top_in d)) (top_reg d))(word_of_int (hd pending) := x_wr_data (top_in d) 0)"
proof
  fix a
  let ?h = "hash_en (top_in d)"
  define i where "i = (top_in d)\<lparr>x_wr_valid := all_banks (\<lambda>i. i < length pending) (x_wr_valid (top_in d)),
      x_wr_addr := all_banks (req_of_slot pending) (x_wr_addr (top_in d))\<rparr>"
  have i: "xb_rst_n i" "hash_en i = ?h" "x_wr_data i 0 = x_wr_data (top_in d) 0" "x_wr_addr i 0 = word_of_int (hd pending)"
    using assms by (simp_all add: i_def req_of_slot_def hd_conv_nth)
  have r: "top_reg (wr_round pending d) = xbar_posedge i (top_reg d)" by (simp add: wr_round_def i_def)
  have v: "k < NBANK \<Longrightarrow> x_wr_valid i k \<longleftrightarrow> k < length pending" for k by (simp add: i_def)
  have b: "k < length pending \<Longrightarrow> bank_of ?h (x_wr_addr i k) = b" for k
    using assms(1,2) by (simp add: i_def req_of_slot_def req_bank_def)
  have g: "wr_grant i k \<longleftrightarrow> k = 0" for k
  proof (cases "k < length pending")
    case True
    then have "\<forall>j \<le> k. x_wr_valid i j \<and> bank_of ?h (x_wr_addr i j) = b" using v b assms(2) by simp
    then show ?thesis using xbar_write(1) [OF i(1), of k] True assms(2) i(2) by (cases k) auto
  next
    case False
    then show ?thesis using xbar_write(1) [OF i(1), of k] v [of k] assms(3) by auto
  qed
  show "flat ?h (top_reg (wr_round pending d)) a =
      ((flat ?h (top_reg d))(word_of_int (hd pending) := x_wr_data (top_in d) 0)) a"
    using xbar_write(2) [OF i(1), of 0 "top_reg d"] xbar_write(3) [OF i(1), of a "top_reg d"] i
    by (cases "a = word_of_int (hd pending)") (simp_all add: r g)
qed

lemma run_writes_one_bank:
  assumes "\<forall>a \<in> set pending. req_bank (hash_en (top_in d)) a = b" and "length pending \<le> NBANK" and "xb_rst_n (top_in d)"
    and "run_writes pending cycles wcnt d = Some (c, wcnt', d')"
  shows "flat (hash_en (top_in d)) (top_reg d') a =
     (if a \<in> word_of_int ` set pending then x_wr_data (top_in d) 0 else flat (hash_en (top_in d)) (top_reg d) a)"
  using assms
proof (induction pending arbitrary: cycles wcnt d)
  case Nil
  then have "Some (c, wcnt', d') = Some (cycles, wcnt, d)" by (subst (asm) run_writes.simps) simp
  then show ?case by simp
next
  case (Cons x pending)
  have "rest (req_bank (hash_en (top_in d))) (x # pending) = pending"
    using rest_one_bank [OF Cons.prems(1)] by simp
  then obtain w1 where "run_writes pending (cycles + 1) w1 (wr_round (x # pending) d) = Some (c, wcnt', d')"
    using run_writes_step [OF Cons.prems(2,3), of cycles wcnt] Cons.prems(4) by auto
  then show ?case
    using Cons.IH [of "wr_round (x # pending) d" "cycles + 1" w1] Cons.prems wr_round_one_bank [OF Cons.prems(1,2) _ Cons.prems(3)]
    by (auto simp: wr_round_in)
qed

lemma xbar_test3_stores:
  assumes "xb_rst_n (top_in d)" and "\<not> hash_en (top_in d)" and "xbar_test3 d = Some (c, w, d')" and "i < 16"
  shows "flat False (top_reg d') (of_nat (i * 128)) = 0xB000"
proof -
  let ?p = "map (\<lambda>i. int i * 128) [0..<16]"
  define d1 where "d1 = set_in (\<lambda>i. i\<lparr>x_wr_valid := (\<lambda>k. if k < 16 then True else x_wr_valid i k),
                                x_wr_addr := (\<lambda>k. if k < 16 then of_nat (k * 128) else x_wr_addr i k),
                                x_wr_data := (\<lambda>k. if k < 16 then of_nat (0xB000 + k) else x_wr_data i k)\<rparr>) d"
  have d1: "xb_rst_n (top_in d1)" "hash_en (top_in d1) = False" "x_wr_data (top_in d1) 0 = 0xB000"
    using assms(1,2) by (simp_all add: d1_def)
  obtain w2 d2 where r: "run_writes ?p 0 (\<lambda>b. 0) d1 = Some (c, w2, d2)" and d': "top_reg d' = top_reg d2"
    using assms(3) by (auto simp: xbar_test3_def Let_def bind_eq_Some_conv d1_def)
  have "\<forall>a \<in> set ?p. req_bank False a = 0" by code_simp
  moreover have "(of_nat (i * 128) :: 12 word) \<in> word_of_int ` set ?p"
    using assms(4) by (intro image_eqI [of _ _ "int (i * 128)"]) auto
  ultimately show ?thesis
    using run_writes_one_bank [where pending = "?p" and d = d1 and b = 0, OF _ _ d1(1) r] by (simp only: d1 d') simp
qed

text \<open>
  C29. Issuing up to 32 reads again until the crossbar has granted all of them terminates, and
  takes as many cycles as the most crowded bank has requests.
\<close>

theorem run_reads_takes_the_crowd:
  assumes "length a \<le> NBANK" and "xb_rst_n (top_in d)"
  shows "\<exists>counts' d'. run_reads a h counts d = Some (Max ((\<lambda>b. count_list (map (req_bank h) a) b) ` {..<NBANK}), counts', d')"
  using run_reads_cycles [OF assms, of h counts] unfolding crowd_def by blast

theorem run_reads_takes_the_crowd_witness:
  "\<exists>counts' d'. run_reads [0, 32, 1, 64] False (\<lambda>b. 0) (xbar_tb_reset sample_xbar) = Some (3, counts', d')"
proof -
  have "xb_rst_n (top_in (xbar_tb_reset sample_xbar))" by (simp add: xbar_tb_reset_def xcycle_def)
  moreover have "crowd (req_bank False) [0, 32, 1, 64] = 3" unfolding crowd_list by code_simp
  ultimately show ?thesis
    using run_reads_takes_the_crowd [of "[0, 32, 1, 64]" "xbar_tb_reset sample_xbar" False "\<lambda>b. 0"] by (simp add: crowd_def)
qed

text \<open>
  C35. The test bench of the crossbar returns 0: the data path is right, and row-major, padded and
  hashed layouts of the operands take 16, 1, 2, 17, 2 and 3 cycles, whatever the memories and
  registers hold at the start.
\<close>

theorem xbar_tb_passes: "xbar_tb_main s0 = Some 0"
  by (rule xbar_tb_run)

end
