(* ===== verification/RtlDma.thy ===== *)
theory RtlDma
  imports Rtl
begin

text \<open>
  rtl/dma/dma.sv: the DMA load engine.  A descriptor is a matrix of 16-bit words in DDR; every cycle two
  16-byte bursts are requested, a four-stage pipeline remembers where their words go, and when the data
  comes back the words of the row, and only those, are written to the SRAM side.
\<close>

unbundle bit_operations_syntax

datatype dma_state = S_IDLE | S_CHECK | S_RUN | S_DONE

text \<open>The transfer position \<open>st_row\<close>, \<open>st_rstart\<close>, \<open>st_blk\<close>, \<open>st_left\<close>.\<close>

record pos =
  p_row :: "32 word"
  p_rstart :: "32 word"
  p_blk :: "32 word"
  p_left :: "32 word"

text \<open>One stage of the write command pipeline.\<close>

record stage =
  pl_addr :: "12 word"
  pl_lo0 :: "4 word"
  pl_n0 :: "4 word"
  pl_lo1 :: "4 word"
  pl_n1 :: "4 word"
  pl_v0 :: bool
  pl_v1 :: bool

record dma =
  dma_state :: dma_state
  dma_st :: pos
  st_wptr :: "12 word"
  dma_pl :: "stage list"

record dma_in =
  dma_rst_n :: bool
  desc_sram_addr :: "32 word"
  desc_ddr_addr :: "32 word"
  desc_rows :: "32 word"
  desc_cols :: "32 word"
  desc_src_stride :: "32 word"
  desc_start :: bool
  ddr_rdata :: "nat \<Rightarrow> 128 word"
  ddr_rvalid :: "nat \<Rightarrow> bool"

definition DDR_LATENCY :: nat where "DDR_LATENCY = 4"

definition desc_row_bytes :: "dma_in \<Rightarrow> 32 word" where
  "desc_row_bytes i = push_bit 1 (desc_cols i)"

definition aligned_ok :: "dma_in \<Rightarrow> bool" where
  "aligned_ok i \<longleftrightarrow> (ucast (desc_sram_addr i) :: 4 word) = 0 \<and> (ucast (desc_ddr_addr i) :: 4 word) = 0"

section \<open>Bursts\<close>

text \<open>
  The burst at a position: its offset in the block, the bytes it takes, and the position after it.
  Burst A is this at the stored position, burst B at the position after A.
\<close>

definition burst_lo :: "pos \<Rightarrow> 4 word" where
  "burst_lo p = (if p_blk p = p_rstart p AND 0xFFFFFFF0 then ucast (p_rstart p) else 0)"

definition burst_take :: "pos \<Rightarrow> 5 word" where
  "burst_take p =
     (let avail = 16 - (ucast (burst_lo p) :: 5 word)
      in if p_left p < ucast avail then ucast (p_left p) else avail)"

definition burst_next :: "dma_in \<Rightarrow> pos \<Rightarrow> pos" where
  "burst_next i p =
     (let left_raw = p_left p - ucast (burst_take p);
          last = (left_raw = 0)
      in \<lparr>p_row = (if last then p_row p + 1 else p_row p),
          p_rstart = (if last then p_rstart p + desc_src_stride i else p_rstart p),
          p_blk = (if last then (p_rstart p + desc_src_stride i) AND 0xFFFFFFF0 else p_blk p + 16),
          p_left = (if last then desc_row_bytes i else left_raw)\<rparr>)"

text \<open>Bits 4 to 1 of the bytes taken and bits 3 to 1 of the offset: in words.\<close>

definition burst_n :: "pos \<Rightarrow> 4 word" where "burst_n p = ucast (drop_bit 1 (burst_take p))"
definition burst_lo_w :: "pos \<Rightarrow> 4 word" where "burst_lo_w p = drop_bit 1 (burst_lo p)"

definition issue_v0 :: "dma_in \<Rightarrow> dma \<Rightarrow> bool" where
  "issue_v0 i s \<longleftrightarrow> dma_state s = S_RUN \<and> p_row (dma_st s) < desc_rows i"

definition issue_v1 :: "dma_in \<Rightarrow> dma \<Rightarrow> bool" where
  "issue_v1 i s \<longleftrightarrow> issue_v0 i s \<and> p_row (burst_next i (dma_st s)) < desc_rows i"

definition ddr_ren :: "dma_in \<Rightarrow> dma \<Rightarrow> nat \<Rightarrow> bool" where
  "ddr_ren i s k = (if k = 0 then issue_v0 i s else issue_v1 i s)"

definition ddr_raddr :: "dma_in \<Rightarrow> dma \<Rightarrow> nat \<Rightarrow> 32 word" where
  "ddr_raddr i s k = (if k = 0 then p_blk (dma_st s) else p_blk (burst_next i (dma_st s)))"

section \<open>The pipeline and the write ports\<close>

definition new_stage :: "dma_in \<Rightarrow> dma \<Rightarrow> stage" where
  "new_stage i s =
     (let a = dma_st s; b = burst_next i a
      in \<lparr>pl_addr = st_wptr s, pl_lo0 = burst_lo_w a, pl_n0 = burst_n a, pl_lo1 = burst_lo_w b,
          pl_n1 = (if issue_v1 i s then burst_n b else 0), pl_v0 = issue_v0 i s, pl_v1 = issue_v1 i s\<rparr>)"

definition pl_posedge :: "dma_in \<Rightarrow> dma \<Rightarrow> stage list" where
  "pl_posedge i s =
     (if \<not> dma_rst_n i then map (\<lambda>g. g\<lparr>pl_v0 := False, pl_v1 := False\<rparr>) (dma_pl s)
      else new_stage i s # butlast (dma_pl s))"

definition pl_empty :: "dma \<Rightarrow> bool" where
  "pl_empty s \<longleftrightarrow> \<not> list_ex (\<lambda>g. pl_v0 g \<or> pl_v1 g) (dma_pl s)"

record port =
  w_valid :: bool
  w_addr :: "12 word"
  w_data :: "16 word"

text \<open>Ports 0 to 7 carry the eight words of the first burst, 8 to 15 those of the second.\<close>

definition lane_port :: "bool \<Rightarrow> 12 word \<Rightarrow> 4 word \<Rightarrow> 4 word \<Rightarrow> 128 word \<Rightarrow> nat \<Rightarrow> port" where
  "lane_port valid base lo n data w =
     (if valid \<and> unat lo \<le> w \<and> w < unat lo + unat n
      then \<lparr>w_valid = True, w_addr = base + of_nat (w - unat lo), w_data = ucast (drop_bit (16 * w) data)\<rparr>
      else \<lparr>w_valid = False, w_addr = 0, w_data = 0\<rparr>)"

definition wr_port :: "dma_in \<Rightarrow> dma \<Rightarrow> nat \<Rightarrow> port" where
  "wr_port i s k =
     (let g = last (dma_pl s)
      in if k < 8 then lane_port (pl_v0 g \<and> ddr_rvalid i 0) (pl_addr g) (pl_lo0 g) (pl_n0 g) (ddr_rdata i 0) k
         else if k < 16 then lane_port (pl_v1 g \<and> ddr_rvalid i 1) (pl_addr g + ucast (pl_n0 g)) (pl_lo1 g) (pl_n1 g) (ddr_rdata i 1) (k - 8)
         else \<lparr>w_valid = False, w_addr = 0, w_data = 0\<rparr>)"

section \<open>The state machine and the clock edge\<close>

definition dma_next :: "dma_in \<Rightarrow> dma \<Rightarrow> dma_state" where
  "dma_next i s =
     (case dma_state s of
        S_IDLE \<Rightarrow> if desc_start i then S_CHECK else S_IDLE
      | S_CHECK \<Rightarrow> if aligned_ok i then S_RUN else S_IDLE
      | S_RUN \<Rightarrow> if \<not> issue_v0 i s \<and> pl_empty s then S_DONE else S_RUN
      | S_DONE \<Rightarrow> S_IDLE)"

definition dma_busy :: "dma \<Rightarrow> bool" where "dma_busy s \<longleftrightarrow> dma_state s = S_CHECK \<or> dma_state s = S_RUN"
definition dma_done :: "dma \<Rightarrow> bool" where "dma_done s \<longleftrightarrow> dma_state s = S_DONE"

definition st_posedge :: "dma_in \<Rightarrow> dma \<Rightarrow> pos" where
  "st_posedge i s =
     (if \<not> dma_rst_n i then \<lparr>p_row = 0, p_rstart = 0, p_blk = 0, p_left = 0\<rparr>
      else if dma_state s = S_CHECK \<and> aligned_ok i then
        \<lparr>p_row = 0, p_rstart = desc_ddr_addr i, p_blk = desc_ddr_addr i AND 0xFFFFFFF0, p_left = desc_row_bytes i\<rparr>
      else if issue_v0 i s then
        (if issue_v1 i s then burst_next i (burst_next i (dma_st s)) else burst_next i (dma_st s))
      else dma_st s)"

definition wptr_posedge :: "dma_in \<Rightarrow> dma \<Rightarrow> 12 word" where
  "wptr_posedge i s =
     (if \<not> dma_rst_n i then 0
      else if dma_state s = S_CHECK \<and> aligned_ok i then ucast (drop_bit 1 (desc_sram_addr i))
      else if issue_v0 i s then
        st_wptr s + ucast (burst_n (dma_st s)) + ucast (if issue_v1 i s then burst_n (burst_next i (dma_st s)) else 0)
      else st_wptr s)"

definition dma_posedge :: "dma_in \<Rightarrow> dma \<Rightarrow> dma" where
  "dma_posedge i s =
     \<lparr>dma_state = (if \<not> dma_rst_n i then S_IDLE else dma_next i s),
      dma_st = st_posedge i s,
      st_wptr = wptr_posedge i s,
      dma_pl = pl_posedge i s\<rparr>"

text \<open>An unaligned descriptor is an error: the engine goes back to idle without a request.\<close>

lemma dma_unaligned:
  assumes "dma_rst_n i" and "dma_state s = S_CHECK" and "\<not> aligned_ok i"
  shows "dma_state (dma_posedge i s) = S_IDLE" and "\<not> ddr_ren i s k"
    and "\<not> dma_done s" and "dma_st (dma_posedge i s) = dma_st s" and "st_wptr (dma_posedge i s) = st_wptr s"
  using assms by (simp_all add: dma_posedge_def dma_next_def ddr_ren_def issue_v0_def issue_v1_def dma_done_def
      st_posedge_def wptr_posedge_def)

end
