(* ===== verification/RtlDmaBench.thy ===== *)
theory RtlDmaBench
  imports RtlDma
begin

text \<open>
  rtl/tb/dma/tb_dma.cpp: a behavioural DDR of latency four behind the engine, the reference image of the
  SRAM, and the comparison of both.  \<open>ddr\<close> is the contents of the DDR, one megabyte.
\<close>

unbundle bit_operations_syntax

type_synonym image = "12 word \<Rightarrow> 16 word"

record ddr_slot =
  slot_v :: bool
  slot_addr :: "32 word"

text \<open>The static variables of the bench.\<close>

record dma_tb =
  tb_dut :: "(dma_in, dma) dut"
  sram_img :: image
  ring :: "nat \<Rightarrow> nat \<Rightarrow> ddr_slot"
  ring_p :: nat
  tb_req0 :: bool
  tb_req1 :: bool
  cycle_cnt :: nat

section \<open>The DDR\<close>

definition ddr_byte :: "(nat \<Rightarrow> 8 word) \<Rightarrow> 32 word \<Rightarrow> 8 word" where
  "ddr_byte ddr a = ddr (unat (a AND 0xFFFFF))"

text \<open>\<open>set_rdata\<close>: four little-endian 32-bit words, the lanes of the 128-bit port.\<close>

definition set_rdata :: "(nat \<Rightarrow> 8 word) \<Rightarrow> 32 word \<Rightarrow> 128 word" where
  "set_rdata ddr addr =
     fold (\<lambda>w r. r OR push_bit (32 * w) (ucast
         (fold (\<lambda>b v. v OR push_bit (8 * b) (ucast (ddr_byte ddr (addr + of_nat (w * 4 + b))) :: 32 word)) [0..<4] 0)))
       [0..<4] 0"

definition ddr_reset :: "dma_tb \<Rightarrow> dma_tb" where
  "ddr_reset tb = tb\<lparr>ring := (\<lambda>k p. \<lparr>slot_v = False, slot_addr = 0\<rparr>), ring_p := 0,
     tb_dut := set_in (\<lambda>i. i\<lparr>ddr_rvalid := (\<lambda>k. False), ddr_rdata := (\<lambda>k. 0)\<rparr>) (tb_dut tb)\<rparr>"

section \<open>One cycle\<close>

definition put_port :: "port \<Rightarrow> image \<Rightarrow> image" where
  "put_port w m = (if w_valid w then m(w_addr w := w_data w) else m)"

definition dma_tb_step :: "(nat \<Rightarrow> 8 word) \<Rightarrow> dma_tb \<Rightarrow> dma_tb" where
  "dma_tb_step ddr tb =
     (let d = tick dma_posedge (tb_dut tb);
          q0 = ddr_ren (top_in d) (top_reg d) 0; q1 = ddr_ren (top_in d) (top_reg d) 1;
          a0 = ddr_raddr (top_in d) (top_reg d) 0; a1 = ddr_raddr (top_in d) (top_reg d) 1;
          s0 = ring tb 0 (ring_p tb); s1 = ring tb 1 (ring_p tb);
          d = eval dma_posedge (set_in (\<lambda>i. i\<lparr>ddr_rvalid := (\<lambda>k. if k = 0 then slot_v s0 else slot_v s1),
                ddr_rdata := (\<lambda>k. set_rdata ddr (slot_addr (if k = 0 then s0 else s1)))\<rparr>) d);
          img = fold (\<lambda>k. put_port (wr_port (top_in d) (top_reg d) k)) [0..<32] (sram_img tb);
          slots = (ring tb)(0 := (ring tb 0)(ring_p tb := \<lparr>slot_v = q0, slot_addr = a0\<rparr>),
                            1 := (ring tb 1)(ring_p tb := \<lparr>slot_v = q1, slot_addr = a1\<rparr>))
      in \<lparr>tb_dut = edge dma_posedge d, sram_img = img, ring = slots, ring_p = (ring_p tb + 1) mod DDR_LATENCY,
          tb_req0 = q0, tb_req1 = q1, cycle_cnt = cycle_cnt tb + 1\<rparr>)"

section \<open>The reference\<close>

record dma_desc =
  dd_sram_addr :: "32 word"
  dd_ddr_addr :: "32 word"
  dd_rows :: "32 word"
  dd_cols :: "32 word"
  dd_stride :: "32 word"

definition ref_bursts :: "dma_desc \<Rightarrow> nat" where
  "ref_bursts d =
     (let rowBytes = dd_cols d * 2
      in fold (\<lambda>i b. let start = dd_ddr_addr d + dd_stride d * of_nat i
                     in b + unat ((start + rowBytes - 1) div 16 - start div 16 + 1)) [0..<unat (dd_rows d)] 0)"

definition ref_sram :: "(nat \<Rightarrow> 8 word) \<Rightarrow> dma_desc \<Rightarrow> image \<Rightarrow> image" where
  "ref_sram ddr d = fold (\<lambda>i.
     let src = unat (dd_ddr_addr d + dd_stride d * of_nat i);
         base = drop_bit 1 (dd_sram_addr d) + of_nat i * dd_cols d
     in fold (\<lambda>j m. m(ucast (base + of_nat j) := ucast (ddr (src + j * 2)) OR push_bit 8 (ucast (ddr (src + j * 2 + 1)))))
          [0..<unat (dd_cols d)]) [0..<unat (dd_rows d)]"

section \<open>A case\<close>

record dma_stats =
  n_bursts :: nat
  n_issue_cyc :: nat
  first_seen :: bool
  t_first :: nat
  t_last :: nat

definition count_requests :: "dma_tb \<Rightarrow> dma_stats \<Rightarrow> dma_stats" where
  "count_requests tb c =
     (let c = c\<lparr>n_bursts := n_bursts c + of_bool (tb_req0 tb) + of_bool (tb_req1 tb)\<rparr>
      in if tb_req0 tb \<or> tb_req1 tb
         then c\<lparr>n_issue_cyc := n_issue_cyc c + 1, first_seen := True,
                t_first := (if first_seen c then t_first c else cycle_cnt tb), t_last := cycle_cnt tb\<rparr>
         else c)"

text \<open>The loop of \<open>run_case\<close>; \<open>None\<close> is the early return when the guard is exceeded.\<close>

function run_loop :: "(nat \<Rightarrow> 8 word) \<Rightarrow> nat \<Rightarrow> dma_stats \<Rightarrow> dma_tb \<Rightarrow> dma_stats option \<times> dma_tb" where
  "run_loop ddr guard c tb =
     (let tb = dma_tb_step ddr tb;
          c = count_requests tb c
      in if dma_done (top_reg (tb_dut tb)) then (Some c, tb)
         else if guard + 1 > 200000 then (None, tb)
         else run_loop ddr (guard + 1) c tb)"
  by pat_completeness auto
termination by (relation "measure (\<lambda>(ddr, guard, c, tb). 200001 - guard)") simp_all

declare run_loop.simps [simp del]

definition start_case :: "(nat \<Rightarrow> 8 word) \<Rightarrow> dma_desc \<Rightarrow> dma_tb \<Rightarrow> dma_tb" where
  "start_case ddr d tb =
     (let tb = tb\<lparr>sram_img := (\<lambda>w. 0xFFFF),
                  tb_dut := set_in (\<lambda>i. i\<lparr>dma_rst_n := False, desc_start := False, desc_sram_addr := dd_sram_addr d,
                    desc_ddr_addr := dd_ddr_addr d, desc_rows := dd_rows d, desc_cols := dd_cols d,
                    desc_src_stride := dd_stride d\<rparr>) (tb_dut tb)\<rparr>;
          tb = (ddr_reset tb)\<lparr>cycle_cnt := 0\<rparr>;
          reset = (\<lambda>d. edge dma_posedge (tick dma_posedge d));
          tb = tb\<lparr>tb_dut := set_in (\<lambda>i. i\<lparr>dma_rst_n := True, desc_start := True\<rparr>) (reset (reset (tb_dut tb)))\<rparr>;
          tb = dma_tb_step ddr tb
      in tb\<lparr>tb_dut := set_in (\<lambda>i. i\<lparr>desc_start := False\<rparr>) (tb_dut tb)\<rparr>)"

record case_result =
  cr_ok :: bool
  cr_stats :: dma_stats
  cr_cycles :: nat

definition run_case :: "(nat \<Rightarrow> 8 word) \<Rightarrow> dma_desc \<Rightarrow> dma_tb \<Rightarrow> case_result option \<times> dma_tb" where
  "run_case ddr d tb =
     (let expected = ref_sram ddr d (\<lambda>w. 0xFFFF);
          tb = start_case ddr d tb
      in case run_loop ddr 0 \<lparr>n_bursts = 0, n_issue_cyc = 0, first_seen = False, t_first = 0, t_last = 0\<rparr> tb of
           (None, tb) \<Rightarrow> (None, tb)
         | (Some c, tb) \<Rightarrow>
             let ok = list_all (\<lambda>w. sram_img tb (of_nat w) = expected (of_nat w)) [0..<4096]
             in (Some \<lparr>cr_ok = ok \<and> n_bursts c = ref_bursts d, cr_stats = c, cr_cycles = cycle_cnt tb\<rparr>, tb))"

definition case_passes :: "case_result option \<Rightarrow> bool" where
  "case_passes r = (case r of None \<Rightarrow> False | Some c \<Rightarrow> cr_ok c)"

definition dma_cases :: "dma_desc list" where
  "dma_cases =
     [\<lparr>dd_sram_addr = 0x000, dd_ddr_addr = 0x01000, dd_rows = 128, dd_cols = 16, dd_stride = 256\<rparr>,
      \<lparr>dd_sram_addr = 0x800, dd_ddr_addr = 0x01000, dd_rows = 16, dd_cols = 128, dd_stride = 256\<rparr>,
      \<lparr>dd_sram_addr = 0x100, dd_ddr_addr = 0x08000, dd_rows = 15, dd_cols = 31, dd_stride = 64\<rparr>,
      \<lparr>dd_sram_addr = 0x200, dd_ddr_addr = 0x09000, dd_rows = 15, dd_cols = 63, dd_stride = 126\<rparr>]"

definition dma_tb_main :: "dma \<Rightarrow> int" where
  "dma_tb_main s0 =
     (let ddr = (\<lambda>i. of_nat (i * 31 + 7));
          tb = \<lparr>tb_dut = dut_init \<lparr>dma_rst_n = False, desc_sram_addr = 0, desc_ddr_addr = 0, desc_rows = 0, desc_cols = 0,
                   desc_src_stride = 0, desc_start = False, ddr_rdata = (\<lambda>k. 0), ddr_rvalid = (\<lambda>k. False)\<rparr> s0,
                sram_img = (\<lambda>w. 0xFFFF), ring = (\<lambda>k p. \<lparr>slot_v = False, slot_addr = 0\<rparr>), ring_p = 0,
                tb_req0 = False, tb_req1 = False, cycle_cnt = 0\<rparr>;
          (tb, pass) = fold (\<lambda>d (tb, pass). case run_case ddr d tb of (r, tb) \<Rightarrow> (tb, if case_passes r then pass else False))
             dma_cases (tb, True)
      in if pass then 0 else 1)"

end
