(* ===== verification/RtlDmaBursts.thy ===== *)
theory RtlDmaBursts
  imports RtlDmaBench
begin

text \<open>
  The arithmetic of the engine's bursts: in numbers, a position is a row \<open>r\<close> and the \<open>m\<close> words of it
  that are still to be read, and a burst takes the words up to the end of their 16-byte block.
\<close>

unbundle bit_operations_syntax

section \<open>Masks and slices in numbers\<close>

lemma unat_block: "unat (a AND 0xFFFFFFF0 :: 32 word) = unat a div 16 * 16"
proof -
  have "a AND 0xFFFFFFF0 = push_bit 4 (drop_bit 4 a)"
  proof -
    have m: "(0xFFFFFFF0 :: 32 word) = NOT (mask 4)" by code_simp
    show ?thesis unfolding m by (rule bit_word_eqI) (auto simp: bit_simps)
  qed
  moreover have "unat a div 16 * 16 < 2 ^ 32" using unsigned_less [where ?'a = nat and w = a] by simp
  ultimately show ?thesis
    by (simp only: unsigned_push_bit_eq unsigned_drop_bit_eq) (simp add: drop_bit_eq_div push_bit_eq_mult take_bit_nat_eq_self)
qed

lemma unat_low4: "unat (ucast (a :: 32 word) :: 4 word) = unat a mod 16"
  by (simp add: unsigned_ucast_eq take_bit_eq_mod)

section \<open>Positions in numbers\<close>

text \<open>The descriptors the engine is meant for: aligned, even, inside the megabyte of DDR.\<close>

definition desc_fits :: "dma_desc \<Rightarrow> bool" where
  "desc_fits d \<longleftrightarrow> unat (dd_sram_addr d) mod 16 = 0 \<and> unat (dd_ddr_addr d) mod 16 = 0 \<and> even (unat (dd_stride d))
     \<and> 0 < unat (dd_cols d)
     \<and> unat (dd_ddr_addr d) + unat (dd_stride d) * (unat (dd_rows d) - 1) + 2 * unat (dd_cols d) \<le> 0x100000"

text \<open>The byte address of the next word, and the words a burst takes there.\<close>

definition cur :: "dma_desc \<Rightarrow> nat \<Rightarrow> nat \<Rightarrow> nat" where
  "cur d r m = unat (dd_ddr_addr d) + unat (dd_stride d) * r + 2 * (unat (dd_cols d) - m)"

definition taken :: "dma_desc \<Rightarrow> nat \<Rightarrow> nat \<Rightarrow> nat" where
  "taken d r m = min m (8 - cur d r m mod 16 div 2)"

definition pos_at :: "dma_desc \<Rightarrow> nat \<Rightarrow> nat \<Rightarrow> pos \<Rightarrow> bool" where
  "pos_at d r m p \<longleftrightarrow> p_row p = of_nat r \<and> (r < unat (dd_rows d) \<longrightarrow>
       0 < m \<and> m \<le> unat (dd_cols d) \<and> unat (p_rstart p) = cur d r (unat (dd_cols d)) \<and> unat (p_left p) = 2 * m
     \<and> unat (p_blk p) = cur d r m div 16 * 16 \<and> (m = unat (dd_cols d) \<or> cur d r m mod 16 = 0))"

definition inputs :: "dma_desc \<Rightarrow> dma_in \<Rightarrow> bool" where
  "inputs d i \<longleftrightarrow> dma_rst_n i \<and> desc_sram_addr i = dd_sram_addr d \<and> desc_ddr_addr i = dd_ddr_addr d
     \<and> desc_rows i = dd_rows d \<and> desc_cols i = dd_cols d \<and> desc_src_stride i = dd_stride d"

lemma cur_even: "desc_fits d \<Longrightarrow> even (cur d r m)"
  by (auto simp: desc_fits_def cur_def mod_eq_0_iff_dvd elim: dvd_trans [rotated])

lemma cur_bound:
  assumes "desc_fits d" and "r < unat (dd_rows d)" and "m \<le> unat (dd_cols d)"
  shows "cur d r m + 2 * m \<le> 0x100000"
proof -
  have "unat (dd_stride d) * r \<le> unat (dd_stride d) * (unat (dd_rows d) - 1)" using assms(2) by (intro mult_le_mono2) simp
  moreover have "2 * (unat (dd_cols d) - m) + 2 * m = 2 * unat (dd_cols d)" using assms(3) by simp
  ultimately show ?thesis using assms(1) unfolding desc_fits_def cur_def by linarith
qed

lemma desc_row_bytes_nat:
  assumes "desc_fits d" and "inputs d i"
  shows "unat (desc_row_bytes i) = 2 * unat (dd_cols d)"
proof -
  have "2 * unat (dd_cols d) < 2 ^ 32" using assms by (simp add: desc_fits_def)
  then show ?thesis using assms by (simp add: desc_row_bytes_def inputs_def unat_word_ariths)
qed

lemma burst_lo_nat:
  assumes "pos_at d r m p" and "r < unat (dd_rows d)"
  shows "unat (burst_lo p) = cur d r m mod 16"
proof -
  let ?C = "unat (dd_cols d)"
  have p: "m \<le> ?C" "unat (p_rstart p) = cur d r ?C" "unat (p_blk p) = cur d r m div 16 * 16" "m = ?C \<or> cur d r m mod 16 = 0"
    using assms by (simp_all add: pos_at_def)
  have e: "p_blk p = p_rstart p AND 0xFFFFFFF0 \<longleftrightarrow> cur d r m div 16 = cur d r ?C div 16"
    by (simp add: word_unat_eq_iff unat_block p)
  show ?thesis
  proof (cases "m = ?C")
    case True
    then show ?thesis using e by (simp add: burst_lo_def unat_low4 p)
  next
    case False
    then have "cur d r ?C < cur d r m" and m: "cur d r m mod 16 = 0" using p by (auto simp: cur_def)
    then have "cur d r m div 16 \<noteq> cur d r ?C div 16"
      by (metis add.right_neutral div_mult_mod_eq mod_less_eq_dividend leD le_add1 mult.commute times_div_less_eq_dividend)
    then show ?thesis using e m by (simp add: burst_lo_def)
  qed
qed

lemma burst_take_nat:
  assumes d: "desc_fits d" and p: "pos_at d r m p" and r: "r < unat (dd_rows d)"
  shows "unat (burst_take p) = 2 * taken d r m"
proof -
  have lo: "unat (burst_lo p) = cur d r m mod 16" by (rule burst_lo_nat [OF p r])
  have a: "unat (16 - (ucast (burst_lo p) :: 5 word)) = 16 - cur d r m mod 16"
    by (subst unat_sub) (simp_all add: word_le_nat_alt unsigned_ucast_eq lo take_bit_nat_eq_self)
  have l: "unat (p_left p) = 2 * m" using p r by (simp add: pos_at_def)
  have u: "unat (ucast w :: 32 word) = unat w" for w :: "5 word"
    using unsigned_less [where ?'a = nat and w = w] by (simp add: unsigned_ucast_eq take_bit_nat_eq_self)
  have e: "even (cur d r m mod 16)" using cur_even [OF d] by (simp add: dvd_mod_iff)
  show ?thesis
  proof (cases "2 * m < 16 - cur d r m mod 16")
    case True
    then have "unat (ucast (p_left p) :: 5 word) = 2 * m"
      by (simp add: unsigned_ucast_eq l take_bit_nat_eq_self)
    moreover have "taken d r m = m" using True e by (auto simp: taken_def min_def elim!: evenE)
    ultimately show ?thesis using True by (simp add: burst_take_def Let_def word_less_nat_alt u a l)
  next
    case False
    then have "2 * taken d r m = 16 - cur d r m mod 16" using e by (auto simp: taken_def min_def elim!: evenE)
    then show ?thesis using False by (simp add: burst_take_def Let_def word_less_nat_alt u a l)
  qed
qed

section \<open>From burst to burst\<close>

definition nxt :: "dma_desc \<Rightarrow> nat \<Rightarrow> nat \<Rightarrow> nat \<times> nat" where
  "nxt d r m = (if taken d r m = m then (r + 1, unat (dd_cols d)) else (r, m - taken d r m))"

lemma taken_le: "taken d r m \<le> m" "taken d r m \<le> 8" "0 < m \<Longrightarrow> 0 < taken d r m"
  by (auto simp: taken_def)

text \<open>A burst ends with its row or with its block.\<close>

lemma taken_block:
  assumes d: "desc_fits d" and m: "m \<le> unat (dd_cols d)" and t: "taken d r m \<noteq> m"
  shows "cur d r (m - taken d r m) = cur d r m + 2 * taken d r m" and "cur d r m + 2 * taken d r m = cur d r m div 16 * 16 + 16"
proof -
  show "cur d r (m - taken d r m) = cur d r m + 2 * taken d r m"
    using m taken_le(1) [of d r m] by (simp add: cur_def)
  have "even (cur d r m mod 16)" using cur_even [OF d] by (simp add: dvd_mod_iff)
  then have "2 * taken d r m = 16 - cur d r m mod 16" using t by (auto simp: taken_def min_def elim!: evenE split: if_splits)
  moreover have "cur d r m = cur d r m div 16 * 16 + cur d r m mod 16" by simp
  moreover have "cur d r m mod 16 < 16" by simp
  ultimately show "cur d r m + 2 * taken d r m = cur d r m div 16 * 16 + 16" by linarith
qed

lemma burst_next_at:
  assumes d: "desc_fits d" and i: "inputs d i" and p: "pos_at d r m p" and r: "r < unat (dd_rows d)"
  shows "pos_at d (fst (nxt d r m)) (snd (nxt d r m)) (burst_next i p)"
proof -
  let ?C = "unat (dd_cols d)"
  have m: "0 < m" "m \<le> ?C" and pl: "unat (p_left p) = 2 * m" and pr: "p_row p = of_nat r"
    and ps: "unat (p_rstart p) = cur d r ?C" and pb: "unat (p_blk p) = cur d r m div 16 * 16"
    using p r by (simp_all add: pos_at_def)
  have t: "unat (burst_take p) = 2 * taken d r m" by (rule burst_take_nat [OF d p r])
  have u: "unat (ucast (burst_take p) :: 32 word) = 2 * taken d r m"
    using t taken_le(2) [of d r m] by (simp add: unsigned_ucast_eq take_bit_nat_eq_self)
  have l: "unat (p_left p - ucast (burst_take p)) = 2 * (m - taken d r m)"
    using taken_le(1) [of d r m] by (subst unat_sub) (simp_all add: word_le_nat_alt u pl)
  then have last: "p_left p - ucast (burst_take p) = 0 \<longleftrightarrow> taken d r m = m"
    using taken_le(1) [of d r m] by (auto simp: word_unat_eq_iff)
  show ?thesis
  proof (cases "taken d r m = m")
    case True
    have "unat (p_rstart p + dd_stride d) = cur d (r + 1) ?C" if "r + 1 < unat (dd_rows d)"
    proof -
      have "cur d (r + 1) ?C < 2 ^ 32" using cur_bound [OF d that, of ?C] by simp
      moreover have "cur d (r + 1) ?C = cur d r ?C + unat (dd_stride d)" by (simp add: cur_def)
      ultimately show ?thesis by (simp add: unat_word_ariths ps)
    qed
    moreover have "0 < ?C" using d by (simp add: desc_fits_def)
    ultimately show ?thesis
      using True last i by (simp add: pos_at_def burst_next_def Let_def nxt_def unat_block desc_row_bytes_nat [OF d i] pr inputs_def)
  next
    case False
    have b: "cur d r (m - taken d r m) = cur d r m div 16 * 16 + 16"
      using taken_block [OF d m(2) False] by simp
    have "m - taken d r m \<le> ?C" using m by simp
    then have "cur d r (m - taken d r m) \<le> 0x100000" using cur_bound [OF d r, of "m - taken d r m"] by linarith
    then have "unat (p_blk p + 16) = cur d r (m - taken d r m)" by (simp add: unat_word_ariths pb b)
    then show ?thesis
      using False last l taken_le(1) [of d r m] m b \<open>m - taken d r m \<le> ?C\<close> by (simp add: pos_at_def burst_next_def Let_def nxt_def pr ps)
  qed
qed

section \<open>The words of a transfer, and its bursts\<close>

text \<open>The byte addresses from a position on, row by row.\<close>

definition words_from :: "dma_desc \<Rightarrow> nat \<Rightarrow> nat \<Rightarrow> nat list" where
  "words_from d r m = (if r < unat (dd_rows d)
     then map (\<lambda>k. cur d r m + 2 * k) [0..<m]
          @ concat (map (\<lambda>i. map (\<lambda>k. cur d i (unat (dd_cols d)) + 2 * k) [0..<unat (dd_cols d)]) [Suc r..<unat (dd_rows d)])
     else [])"

definition burst_words :: "dma_desc \<Rightarrow> nat \<Rightarrow> nat \<Rightarrow> nat list" where
  "burst_words d r m = map (\<lambda>k. cur d r m + 2 * k) [0..<taken d r m]"

lemma words_from_next:
  assumes d: "desc_fits d" and r: "r < unat (dd_rows d)" and m: "m \<le> unat (dd_cols d)"
  shows "words_from d r m = burst_words d r m @ words_from d (fst (nxt d r m)) (snd (nxt d r m))"
proof (cases "taken d r m = m")
  case True
  then show ?thesis using r by (cases "Suc r < unat (dd_rows d)") (simp_all add: words_from_def burst_words_def nxt_def upt_conv_Cons)
next
  case False
  have "map (\<lambda>k. cur d r m + 2 * k) [0..<m] = map (\<lambda>k. cur d r m + 2 * k) ([0..<taken d r m] @ map (\<lambda>k. k + taken d r m) [0..<m - taken d r m])"
    using upt_add_eq_append [of 0 "taken d r m" "m - taken d r m"] taken_le(1) [of d r m]
    by (simp add: map_add_upt del: map_append)
  then show ?thesis
    using r False taken_block(1) [OF d m False] by (simp add: words_from_def burst_words_def nxt_def add.assoc)
qed

definition row_bursts :: "dma_desc \<Rightarrow> nat \<Rightarrow> nat \<Rightarrow> nat" where
  "row_bursts d r m = (cur d r m + 2 * m - 1) div 16 - cur d r m div 16 + 1"

definition bursts_from :: "dma_desc \<Rightarrow> nat \<Rightarrow> nat \<Rightarrow> nat" where
  "bursts_from d r m = (if r < unat (dd_rows d)
     then row_bursts d r m + (\<Sum>i = Suc r..<unat (dd_rows d). row_bursts d i (unat (dd_cols d))) else 0)"

lemma bursts_from_next:
  assumes d: "desc_fits d" and r: "r < unat (dd_rows d)" and m: "0 < m" "m \<le> unat (dd_cols d)"
  shows "bursts_from d r m = Suc (bursts_from d (fst (nxt d r m)) (snd (nxt d r m)))"
proof (cases "taken d r m = m")
  case True
  have e: "even (cur d r m mod 16)" using cur_even [OF d] by (simp add: dvd_mod_iff)
  define c q y where c: "c = cur d r m" and q: "q = c div 16" and y: "y = c mod 16"
  have "m \<le> 8 - y div 2" using True by (simp add: taken_def min_def c y split: if_splits)
  moreover have x: "c = 16 * q + y" "y < 16" by (simp_all add: q y)
  ultimately have "2 * m + y \<le> 16" using e by (auto simp: c y elim!: evenE)
  then have "16 * q \<le> c + 2 * m - 1" and "c + 2 * m - 1 < 16 * Suc q" using x m(1) by simp_all
  then have "(cur d r m + 2 * m - 1) div 16 = cur d r m div 16" by (simp add: div_nat_eqI c q)
  then have "row_bursts d r m = 1" by (simp add: row_bursts_def)
  then show ?thesis
    using r True by (cases "Suc r < unat (dd_rows d)") (simp_all add: bursts_from_def nxt_def sum.atLeast_Suc_lessThan)
next
  case False
  let ?t = "taken d r m"
  have c: "cur d r (m - ?t) = cur d r m div 16 * 16 + 16" "cur d r (m - ?t) = cur d r m + 2 * ?t"
    using taken_block [OF d m(2) False] by simp_all
  have e: "cur d r (m - ?t) + 2 * (m - ?t) = cur d r m + 2 * m" using c taken_le(1) [of d r m] by simp
  have "0 < m - ?t" using taken_le(1) [of d r m] False by simp
  then have "cur d r m div 16 + 1 \<le> (cur d r m + 2 * m - 1) div 16" using e c(1) by linarith
  moreover have "cur d r (m - ?t) div 16 = cur d r m div 16 + 1" using c(1) by simp
  ultimately have "row_bursts d r m = Suc (row_bursts d r (m - ?t))"
    unfolding row_bursts_def e by linarith
  then show ?thesis using r False by (simp add: bursts_from_def nxt_def)
qed

end
