(* ===== verification/RtlDmaData.thy ===== *)
theory RtlDmaData
  imports RtlDmaBursts
begin

text \<open>
  The data path: the 128-bit port carries the bytes of a block, and a cycle of the bench writes the words
  of the pipeline stage whose data arrives.
\<close>

unbundle bit_operations_syntax

section \<open>The bytes on the port\<close>

lemma bit_fold_or:
  fixes f :: "nat \<Rightarrow> 'a::len word"
  assumes f: "\<And>w n. bit (f w) n \<Longrightarrow> n < s" and s: "0 < s"
  shows "bit (fold (\<lambda>w r. r OR push_bit (s * w) (f w)) [0..<k] 0) n \<longleftrightarrow> n < LENGTH('a) \<and> n div s < k \<and> bit (f (n div s)) (n mod s)"
proof (induction k)
  case (Suc k)
  have "(s * k \<le> n \<and> bit (f k) (n - s * k)) \<longleftrightarrow> n div s = k \<and> bit (f k) (n mod s)"
  proof (cases "n div s = k")
    case True
    then have "n = s * k + n mod s" by (metis mult_div_mod_eq)
    then show ?thesis using True by (metis add_diff_cancel_left' le_add1)
  next
    case False
    have "\<not> (s * k \<le> n \<and> n - s * k < s)"
      using False s by (metis add_diff_cancel_left' div_nat_eqI le_add_diff_inverse mult_Suc_right nat_add_left_cancel_less add.commute)
    then show ?thesis using f False by blast
  qed
  then show ?case using Suc by (auto simp: bit_simps less_Suc_eq)
qed simp

lemma bit_set_rdata: "bit (set_rdata ddr addr) n \<longleftrightarrow> n < 128 \<and> bit (ddr_byte ddr (addr + of_nat (n div 8))) (n mod 8)"
proof -
  define v where "v w = fold (\<lambda>b v. v OR push_bit (8 * b) (ucast (ddr_byte ddr (addr + of_nat (w * 4 + b))) :: 32 word)) [0..<4] 0" for w
  have byte: "bit (ucast (x :: 8 word) :: 32 word) n \<longleftrightarrow> bit x n" for x n
    using bit_imp_le_length [of x n] by (auto simp: bit_simps)
  have v: "bit (v w) n \<longleftrightarrow> n < 32 \<and> bit (ddr_byte ddr (addr + of_nat (w * 4 + n div 8))) (n mod 8)" for w n
    unfolding v_def by (subst bit_fold_or) (auto simp: byte dest: bit_imp_le_length)
  have "bit (set_rdata ddr addr) n \<longleftrightarrow> n < 128 \<and> n div 32 < 4 \<and> bit (ucast (v (n div 32)) :: 128 word) (n mod 32)"
    unfolding set_rdata_def v_def [symmetric] by (subst bit_fold_or) (auto simp: bit_simps v)
  moreover have "n div 32 * 4 + n mod 32 div 8 = n div 8"
    using div_mult2_eq [of n 8 4] mod_mult2_eq [of n 8 4] by (simp add: mult.commute)
  moreover have "n mod 32 mod 8 = n mod 8" by (simp add: mod_mod_cancel)
  moreover have "bit (ucast (x :: 32 word) :: 128 word) k \<longleftrightarrow> bit x k" for x k
    using bit_imp_le_length [of x k] by (auto simp: bit_simps)
  moreover have "n < 128 \<Longrightarrow> n div 32 < 4" "n mod 32 < 32" by simp_all
  ultimately show ?thesis by (simp only: v simp_thms) blast
qed

text \<open>The word at a byte address.\<close>

definition ddr_word :: "(nat \<Rightarrow> 8 word) \<Rightarrow> nat \<Rightarrow> 16 word" where
  "ddr_word ddr a = ucast (ddr a) OR push_bit 8 (ucast (ddr (a + 1)))"

lemma ddr_byte_nat:
  assumes "unat addr + 16 \<le> 0x100000" and "j < 16"
  shows "ddr_byte ddr (addr + of_nat j) = ddr (unat addr + j)"
proof -
  have u: "unat (addr + of_nat j) = unat addr + j"
    using assms by (simp add: unat_word_ariths unsigned_of_nat take_bit_nat_eq_self)
  have "(addr + of_nat j) AND 0xFFFFF = take_bit 20 (addr + of_nat j)"
    by (simp add: take_bit_eq_mask mask_numeral)
  then have "unat ((addr + of_nat j) AND 0xFFFFF) = take_bit 20 (unat addr + j)"
    by (simp add: unsigned_take_bit_eq u)
  then show ?thesis using assms by (simp add: ddr_byte_def take_bit_nat_eq_self)
qed

lemma set_rdata_word:
  assumes "unat addr + 16 \<le> 0x100000" and w: "w < 8"
  shows "ucast (drop_bit (16 * w) (set_rdata ddr addr)) = ddr_word ddr (unat addr + 2 * w)"
proof (rule bit_word_eqI)
  fix k assume "k < LENGTH(16)"
  then have k: "k < 16" by simp
  have e: "16 * w + k = k + (2 * w) * 8" by simp
  have d: "(16 * w + k) div 8 = 2 * w + k div 8" "(16 * w + k) mod 8 = k mod 8"
    unfolding e by (simp, rule mod_mult_self1)
  have b: "ddr_byte ddr (addr + of_nat (2 * w + k div 8)) = ddr (unat addr + (2 * w + k div 8))"
    by (rule ddr_byte_nat [OF assms(1)]) (use w k in linarith)
  have "bit (ucast (drop_bit (16 * w) (set_rdata ddr addr)) :: 16 word) k \<longleftrightarrow> bit (ddr (unat addr + (2 * w + k div 8))) (k mod 8)"
    using k w by (simp add: bit_simps bit_set_rdata d b del: of_nat_add of_nat_mult)
  also have "\<dots> \<longleftrightarrow> bit (ddr_word ddr (unat addr + 2 * w)) k"
  proof (cases "k < 8")
    case False
    then have "k div 8 = 1" "k mod 8 = k - 8" using k by (simp_all add: div_nat_eqI mod_if)
    then show ?thesis using k False bit_imp_le_length [of "ddr (unat addr + 2 * w)" k]
      by (auto simp: ddr_word_def bit_simps add.assoc)
  qed (simp add: ddr_word_def bit_simps)
  finally show "bit (ucast (drop_bit (16 * w) (set_rdata ddr addr)) :: 16 word) k = bit (ddr_word ddr (unat addr + 2 * w)) k" .
qed

section \<open>What a stage writes\<close>

definition apply_writes :: "(12 word \<times> 16 word) list \<Rightarrow> image \<Rightarrow> image" where
  "apply_writes ws m = fold (\<lambda>(a, v) m. m(a := v)) ws m"

lemma apply_writes_append [simp]: "apply_writes (xs @ ys) m = apply_writes ys (apply_writes xs m)"
  by (simp add: apply_writes_def)

lemma apply_writes_Nil [simp]: "apply_writes [] m = m"
  by (simp add: apply_writes_def)

definition lane_writes :: "(nat \<Rightarrow> 8 word) \<Rightarrow> bool \<Rightarrow> 12 word \<Rightarrow> 4 word \<Rightarrow> 4 word \<Rightarrow> 32 word \<Rightarrow> (12 word \<times> 16 word) list" where
  "lane_writes ddr valid base lo n addr =
     (if valid then map (\<lambda>k. (base + of_nat k, ddr_word ddr (unat addr + 2 * (unat lo + k)))) [0..<unat n] else [])"

definition lane_ok :: "bool \<Rightarrow> 4 word \<Rightarrow> 4 word \<Rightarrow> 32 word \<Rightarrow> bool" where
  "lane_ok valid lo n addr \<longleftrightarrow> (valid \<longrightarrow> unat lo + unat n \<le> 8 \<and> unat addr + 16 \<le> 0x100000)"

lemma fold_idle: "(\<And>k m. k \<in> set ks \<Longrightarrow> f k m = m) \<Longrightarrow> fold f ks m = m"
  by (induction ks arbitrary: m) simp_all

lemma lane_fold:
  assumes "lane_ok valid lo n addr"
  shows "fold (\<lambda>k. put_port (lane_port valid base lo n (set_rdata ddr addr) k)) [0..<8] m = apply_writes (lane_writes ddr valid base lo n addr) m"
proof (cases valid)
  case False
  then show ?thesis by (simp add: lane_port_def put_port_def lane_writes_def fold_idle)
next
  case True
  then have l: "unat lo + unat n \<le> 8" and a: "unat addr + 16 \<le> 0x100000" using assms by (simp_all add: lane_ok_def)
  define f where "f k = put_port (lane_port valid base lo n (set_rdata ddr addr) k)" for k
  have "[0..<8] = [0..<unat lo] @ [unat lo..<unat lo + unat n] @ [unat lo + unat n..<8]"
    using upt_add_eq_append [of 0 "unat lo" "8 - unat lo"] upt_add_eq_append [of "unat lo" "unat lo + unat n" "8 - (unat lo + unat n)"] l
    by (simp del: upt_conv_Nil)
  moreover have "fold f [0..<unat lo] m = m" "fold f [unat lo + unat n..<8] m' = m'" for m m'
    by (rule fold_idle; simp add: f_def lane_port_def put_port_def)+
  ultimately have "fold f [0..<8] m = fold f [unat lo..<unat lo + unat n] m" by (simp del: upt_rec_numeral)
  also have "[unat lo..<unat lo + unat n] = map (\<lambda>k. k + unat lo) [0..<unat n]" by (simp add: map_add_upt add.commute)
  also have "fold f (map (\<lambda>k. k + unat lo) [0..<unat n]) m = apply_writes (lane_writes ddr valid base lo n addr) m"
  proof -
    have "f (k + unat lo) = (\<lambda>m. m(base + of_nat k := ddr_word ddr (unat addr + 2 * (unat lo + k))))" if "k < unat n" for k
      using that True l set_rdata_word [OF a, of "k + unat lo" ddr]
      by (simp add: f_def lane_port_def put_port_def fun_eq_iff add.commute)
    then show ?thesis
      unfolding apply_writes_def lane_writes_def using True
      by (simp add: fold_map comp_def) (rule fold_cong, simp_all)
  qed
  finally show ?thesis by (simp only: f_def)
qed

type_synonym in_flight = "stage \<times> ddr_slot \<times> ddr_slot"

definition stage_writes :: "(nat \<Rightarrow> 8 word) \<Rightarrow> in_flight \<Rightarrow> (12 word \<times> 16 word) list" where
  "stage_writes ddr = (\<lambda>(g, s0, s1).
     lane_writes ddr (pl_v0 g) (pl_addr g) (pl_lo0 g) (pl_n0 g) (slot_addr s0)
     @ lane_writes ddr (pl_v1 g) (pl_addr g + ucast (pl_n0 g)) (pl_lo1 g) (pl_n1 g) (slot_addr s1))"

definition stage_ok :: "in_flight \<Rightarrow> bool" where
  "stage_ok = (\<lambda>(g, s0, s1). slot_v s0 = pl_v0 g \<and> slot_v s1 = pl_v1 g
     \<and> lane_ok (pl_v0 g) (pl_lo0 g) (pl_n0 g) (slot_addr s0) \<and> lane_ok (pl_v1 g) (pl_lo1 g) (pl_n1 g) (slot_addr s1))"

lemma ports_fold:
  assumes ok: "stage_ok (last (dma_pl s), s0, s1)"
    and i: "ddr_rvalid i = (\<lambda>k. if k = 0 then slot_v s0 else slot_v s1)"
      "ddr_rdata i = (\<lambda>k. set_rdata ddr (slot_addr (if k = 0 then s0 else s1)))"
  shows "fold (\<lambda>k. put_port (wr_port i s k)) [0..<32] m = apply_writes (stage_writes ddr (last (dma_pl s), s0, s1)) m"
proof -
  let ?g = "last (dma_pl s)"
  define f where "f k = put_port (wr_port i s k)" for k
  have "[0..<32] = [0..<8] @ map (\<lambda>k. k + 8) [0..<8] @ [16..<32::nat]" by (simp add: map_add_upt upt_rec)
  then have "fold f [0..<32] m = fold f [16..<32] (fold (\<lambda>k. f (k + 8)) [0..<8] (fold f [0..<8] m))"
    by (simp del: upt_rec_numeral add: fold_map comp_def)
  also have "\<dots> = fold (\<lambda>k. f (k + 8)) [0..<8] (fold f [0..<8] m)"
  proof (rule fold_idle)
    fix k :: nat and m
    assume "k \<in> set [16..<32]"
    then have "16 \<le> k" by (simp only: set_upt atLeastLessThan_iff)
    then show "f k m = m" by (simp add: f_def wr_port_def put_port_def Let_def)
  qed
  also have "fold f [0..<8] m = fold (\<lambda>k. put_port (lane_port (pl_v0 ?g) (pl_addr ?g) (pl_lo0 ?g) (pl_n0 ?g) (set_rdata ddr (slot_addr s0)) k)) [0..<8] m"
  proof (rule fold_cong [OF refl refl])
    fix k :: nat assume "k \<in> set [0..<8]"
    then have "k < 8" by (simp only: set_upt atLeastLessThan_iff)
    then show "f k = put_port (lane_port (pl_v0 ?g) (pl_addr ?g) (pl_lo0 ?g) (pl_n0 ?g) (set_rdata ddr (slot_addr s0)) k)"
      using ok by (simp add: f_def wr_port_def i stage_ok_def Let_def)
  qed
  also have "fold (\<lambda>k. f (k + 8)) [0..<8] m' =
      fold (\<lambda>k. put_port (lane_port (pl_v1 ?g) (pl_addr ?g + ucast (pl_n0 ?g)) (pl_lo1 ?g) (pl_n1 ?g) (set_rdata ddr (slot_addr s1)) k)) [0..<8] m'" for m'
  proof (rule fold_cong [OF refl refl])
    fix k :: nat assume "k \<in> set [0..<8]"
    then have "k < 8" by (simp only: set_upt atLeastLessThan_iff)
    then show "f (k + 8) = put_port (lane_port (pl_v1 ?g) (pl_addr ?g + ucast (pl_n0 ?g)) (pl_lo1 ?g) (pl_n1 ?g) (set_rdata ddr (slot_addr s1)) k)"
      using ok by (simp add: f_def wr_port_def i stage_ok_def Let_def)
  qed
  finally show ?thesis using ok by (simp add: f_def stage_ok_def stage_writes_def lane_fold del: upt_rec_numeral)
qed

end
