(* ===== verification/RtlDmaRun.thy ===== *)
theory RtlDmaRun
  imports RtlDmaData
begin

text \<open>
  Runs of the DMA engine behind the bench's DDR.  The invariant of a run says that the image, once the
  writes in flight and the words still to be requested have been added, is the wanted one.
\<close>

unbundle bit_operations_syntax

section \<open>What a burst writes\<close>

fun writes_from :: "(nat \<Rightarrow> 8 word) \<Rightarrow> 12 word \<Rightarrow> nat list \<Rightarrow> (12 word \<times> 16 word) list" where
  "writes_from ddr wp [] = []"
| "writes_from ddr wp (a # as) = (wp, ddr_word ddr a) # writes_from ddr (wp + 1) as"

lemma writes_from_append: "writes_from ddr wp (xs @ ys) = writes_from ddr wp xs @ writes_from ddr (wp + of_nat (length xs)) ys"
  by (induction xs arbitrary: wp) (simp_all add: algebra_simps)

lemma writes_from_map: "writes_from ddr wp (map f [0..<n]) = map (\<lambda>k. (wp + of_nat k, ddr_word ddr (f k))) [0..<n]"
  by (induction n) (simp_all add: writes_from_append)

lemma unat_half: "unat (drop_bit 1 w) = unat w div 2"
proof -
  have "unat (drop_bit 1 w) = drop_bit 1 (unat w)" by (subst unsigned_drop_bit_eq) (simp add: take_bit_nat_eq_self)
  then show ?thesis by (simp only: drop_bit_eq_div power_one_right)
qed

lemma burst_n_nat:
  assumes "desc_fits d" and "pos_at d r m p" and "r < unat (dd_rows d)"
  shows "unat (burst_n p) = taken d r m"
proof -
  have "unat (drop_bit 1 (burst_take p)) = taken d r m"
    unfolding unat_half burst_take_nat [OF assms] by simp
  then show ?thesis using taken_le(2) [of d r m] by (simp add: burst_n_def unsigned_ucast_eq take_bit_nat_eq_self)
qed

lemma burst_lane:
  assumes d: "desc_fits d" and p: "pos_at d r m p" and r: "r < unat (dd_rows d)"
  shows "lane_ok v (burst_lo_w p) (burst_n p) (p_blk p)"
    and "lane_writes ddr True wp (burst_lo_w p) (burst_n p) (p_blk p) = writes_from ddr wp (burst_words d r m)"
proof -
  have lo: "unat (burst_lo_w p) = cur d r m mod 16 div 2"
    unfolding burst_lo_w_def unat_half burst_lo_nat [OF p r] ..
  have n: "unat (burst_n p) = taken d r m" by (rule burst_n_nat [OF d p r])
  have b: "unat (p_blk p) = cur d r m div 16 * 16" and m: "0 < m" "m \<le> unat (dd_cols d)"
    using p r by (simp_all add: pos_at_def)
  have "cur d r m < 0x100000" using cur_bound [OF d r m(2)] m(1) by linarith
  then have "cur d r m div 16 < 0x10000" by (intro less_mult_imp_div_less) simp
  then have "unat (p_blk p) + 16 \<le> 0x100000" unfolding b by simp
  then show "lane_ok v (burst_lo_w p) (burst_n p) (p_blk p)"
    by (auto simp: lane_ok_def lo n taken_def)
  have "even (cur d r m mod 16)" using cur_even [OF d] by (simp add: dvd_mod_iff)
  then have "unat (p_blk p) + 2 * (cur d r m mod 16 div 2) = cur d r m" unfolding b by simp
  then show "lane_writes ddr True wp (burst_lo_w p) (burst_n p) (p_blk p) = writes_from ddr wp (burst_words d r m)"
    by (simp add: lane_writes_def burst_words_def writes_from_map lo n add.assoc [symmetric])
qed

section \<open>A cycle that issues\<close>

text \<open>Two bursts, or the last one.\<close>

definition adv :: "dma_desc \<Rightarrow> nat \<times> nat \<Rightarrow> nat \<times> nat" where
  "adv d = (\<lambda>(r, m). if r < unat (dd_rows d)
     then (case nxt d r m of (r1, m1) \<Rightarrow> if r1 < unat (dd_rows d) then nxt d r1 m1 else (r1, m1)) else (r, m))"

text \<open>A position and the abstract one it stands for.\<close>

definition pos_ok :: "dma_desc \<Rightarrow> nat \<times> nat \<Rightarrow> pos \<Rightarrow> bool" where
  "pos_ok d = (\<lambda>(r, m) p. r \<le> unat (dd_rows d) \<and> pos_at d r m p)"

definition todo :: "dma_desc \<Rightarrow> nat \<times> nat \<Rightarrow> nat list" where "todo d = (\<lambda>(r, m). words_from d r m)"
definition left :: "dma_desc \<Rightarrow> nat \<times> nat \<Rightarrow> nat" where "left d = (\<lambda>(r, m). bursts_from d r m)"

lemma left_0: "left d (r, m) = 0 \<longleftrightarrow> unat (dd_rows d) \<le> r"
  by (auto simp: left_def bursts_from_def row_bursts_def)

lemma todo_0: "left d q = 0 \<Longrightarrow> todo d q = []"
  by (cases q) (simp add: left_0 todo_def words_from_def)

lemma row_less:
  assumes "pos_ok d (r, m) p" and "inputs d i"
  shows "p_row p < desc_rows i \<longleftrightarrow> r < unat (dd_rows d)"
proof -
  have "r < 2 ^ 32" using assms(1) unsigned_less [where ?'a = nat and w = "dd_rows d"] by (simp add: pos_ok_def)
  then have "unat (of_nat r :: 32 word) = r" by (simp add: unsigned_of_nat take_bit_nat_eq_self)
  then show ?thesis using assms by (simp add: pos_ok_def pos_at_def inputs_def word_less_nat_alt)
qed

lemma nxt_ok:
  assumes "desc_fits d" and "inputs d i" and "pos_ok d (r, m) p" and "r < unat (dd_rows d)"
  shows "pos_ok d (nxt d r m) (burst_next i p)" and "left d (r, m) = Suc (left d (nxt d r m))"
    and "todo d (r, m) = burst_words d r m @ todo d (nxt d r m)"
proof -
  have p: "pos_at d r m p" and m: "0 < m" "m \<le> unat (dd_cols d)" using assms(3,4) by (simp_all add: pos_ok_def pos_at_def)
  show "pos_ok d (nxt d r m) (burst_next i p)"
    using burst_next_at [OF assms(1,2) p assms(4)] assms(4) by (auto simp: pos_ok_def nxt_def)
  show "left d (r, m) = Suc (left d (nxt d r m))"
    using bursts_from_next [OF assms(1,4) m] by (simp add: left_def case_prod_unfold)
  show "todo d (r, m) = burst_words d r m @ todo d (nxt d r m)"
    using words_from_next [OF assms(1,4) m(2)] by (simp add: todo_def case_prod_unfold)
qed

text \<open>The new stage with the DDR slots of its requests.\<close>

definition new_entry :: "dma_in \<Rightarrow> dma \<Rightarrow> in_flight" where
  "new_entry i s = (new_stage i s, \<lparr>slot_v = issue_v0 i s, slot_addr = p_blk (dma_st s)\<rparr>,
     \<lparr>slot_v = issue_v1 i s, slot_addr = p_blk (burst_next i (dma_st s))\<rparr>)"

lemma issue_cycle:
  assumes d: "desc_fits d" and i: "inputs d i" and s: "dma_state s = S_RUN" and p: "pos_ok d q (dma_st s)"
  shows "issue_v0 i s \<longleftrightarrow> 0 < left d q" and "issue_v1 i s \<longleftrightarrow> 2 \<le> left d q"
    and "left d (adv d q) = left d q - 2" and "pos_ok d (adv d q) (st_posedge i s)"
    and "stage_ok (new_entry i s)"
    and "stage_writes ddr (new_entry i s) @ writes_from ddr (wptr_posedge i s) (todo d (adv d q)) = writes_from ddr (st_wptr s) (todo d q)"
proof -
  let ?a = "dma_st s" and ?b = "burst_next i (dma_st s)"
  obtain r m where q: "q = (r, m)" by fastforce
  have v0: "issue_v0 i s \<longleftrightarrow> r < unat (dd_rows d)"
    using row_less [OF p [unfolded q] i] s by (simp add: issue_v0_def)
  have rst: "dma_rst_n i" using i by (simp add: inputs_def)
  have st: "st_posedge i s = (if issue_v0 i s then if issue_v1 i s then burst_next i ?b else ?b else ?a)"
    "wptr_posedge i s = (if issue_v0 i s
       then st_wptr s + ucast (burst_n ?a) + ucast (if issue_v1 i s then burst_n ?b else 0) else st_wptr s)"
    using s rst by (simp_all add: st_posedge_def wptr_posedge_def)
  have all: "(issue_v0 i s \<longleftrightarrow> 0 < left d q) \<and> (issue_v1 i s \<longleftrightarrow> 2 \<le> left d q) \<and> left d (adv d q) = left d q - 2
     \<and> pos_ok d (adv d q) (st_posedge i s) \<and> stage_ok (new_entry i s)
     \<and> stage_writes ddr (new_entry i s) @ writes_from ddr (wptr_posedge i s) (todo d (adv d q)) = writes_from ddr (st_wptr s) (todo d q)"
  proof (cases "r < unat (dd_rows d)")
    case False
    then have l: "left d q = 0" by (simp add: q left_0)
    have "\<not> issue_v0 i s" "\<not> issue_v1 i s" "adv d q = q" using False v0 by (simp_all add: issue_v1_def adv_def q)
    then show ?thesis using l p
      by (simp add: st new_entry_def new_stage_def Let_def stage_ok_def stage_writes_def lane_ok_def lane_writes_def)
  next
    case True
    note n = nxt_ok [OF d i p [unfolded q] True]
    obtain r1 m1 where q1: "nxt d r m = (r1, m1)" by fastforce
    have pa: "pos_at d r m ?a" using p by (simp add: pos_ok_def q)
    note la = burst_lane [OF d pa True]
    have na: "length (burst_words d r m) = unat (burst_n ?a)"
      by (simp add: burst_words_def burst_n_nat [OF d pa True])
    have v1: "issue_v1 i s \<longleftrightarrow> r1 < unat (dd_rows d)"
      using row_less [OF n(1) [unfolded q1] i] v0 True by (simp add: issue_v1_def)
    show ?thesis
    proof (cases "r1 < unat (dd_rows d)")
      case False
      then have l: "left d (r1, m1) = 0" "todo d (r1, m1) = []" by (simp_all add: left_0 todo_def words_from_def)
      have a: "adv d q = (r1, m1)" using True False by (simp add: adv_def q q1)
      show ?thesis using n l la v0 v1 True False
        by (simp add: a [unfolded q] q q1 st new_entry_def new_stage_def Let_def stage_ok_def stage_writes_def lane_ok_def [of False] lane_writes_def [of _ False])
    next
      case False2: True
      note n1 = nxt_ok [OF d i n(1) [unfolded q1] False2]
      have pb: "pos_at d r1 m1 ?b" using n(1) by (simp add: pos_ok_def q1)
      note lb = burst_lane [OF d pb False2]
      have nb: "length (burst_words d r1 m1) = unat (burst_n ?b)"
        by (simp add: burst_words_def burst_n_nat [OF d pb False2])
      have a: "adv d q = nxt d r1 m1" using True False2 by (simp add: adv_def q q1)
      have iv: "issue_v0 i s" "issue_v1 i s" using v0 v1 True False2 by simp_all
      have w: "stage_writes ddr (new_entry i s) = writes_from ddr (st_wptr s) (burst_words d r m)
          @ writes_from ddr (st_wptr s + ucast (burst_n ?a)) (burst_words d r1 m1)"
        using la(2) lb(2) iv by (simp add: new_entry_def new_stage_def Let_def stage_writes_def)
      have wp: "wptr_posedge i s = st_wptr s + ucast (burst_n ?a) + ucast (burst_n ?b)"
        using iv by (simp add: st)
      have t: "todo d q = burst_words d r m @ burst_words d r1 m1 @ todo d (adv d q)"
        using n(3) n1(3) by (simp add: a [unfolded q] q q1)
      have lf: "left d q = Suc (Suc (left d (adv d q)))" using n(2) n1(2) by (simp add: a [unfolded q] q q1)
      have ok: "stage_ok (new_entry i s)"
        using la(1) lb(1) iv by (simp add: new_entry_def new_stage_def Let_def stage_ok_def)
      have "writes_from ddr (st_wptr s) (todo d q) = stage_writes ddr (new_entry i s) @ writes_from ddr (wptr_posedge i s) (todo d (adv d q))"
        unfolding t writes_from_append na nb w wp by simp
      moreover have "pos_ok d (adv d q) (st_posedge i s)" using n1(1) iv by (simp add: a st)
      ultimately show ?thesis using iv lf ok by simp
    qed
  qed
  then show "issue_v0 i s \<longleftrightarrow> 0 < left d q" "issue_v1 i s \<longleftrightarrow> 2 \<le> left d q" "left d (adv d q) = left d q - 2"
    "pos_ok d (adv d q) (st_posedge i s)" "stage_ok (new_entry i s)"
    "stage_writes ddr (new_entry i s) @ writes_from ddr (wptr_posedge i s) (todo d (adv d q)) = writes_from ddr (st_wptr s) (todo d q)"
    by blast+
qed

section \<open>A cycle of the bench\<close>

text \<open>The stages of the pipeline, youngest first, with the DDR slots their data comes from.\<close>

definition flight :: "dma_tb \<Rightarrow> in_flight list" where
  "flight tb = map (\<lambda>k. (dma_pl (top_reg (tb_dut tb)) ! k, ring tb 0 ((ring_p tb + 3 - k) mod 4), ring tb 1 ((ring_p tb + 3 - k) mod 4))) [0..<4]"

lemma posedge_ddr: "dma_posedge (i\<lparr>ddr_rvalid := v, ddr_rdata := w\<rparr>) s = dma_posedge i s"
  by (simp add: dma_posedge_def dma_next_def issue_v0_def issue_v1_def st_posedge_def wptr_posedge_def pl_posedge_def
      new_stage_def burst_next_def aligned_ok_def desc_row_bytes_def Let_def split: dma_state.splits)

lemma tb_step:
  fixes ddr tb
  defines "tb' \<equiv> dma_tb_step ddr tb" and "i \<equiv> top_in (tb_dut tb)" and "s \<equiv> top_reg (tb_dut tb)"
  assumes l: "length (dma_pl s) = 4" and p: "ring_p tb < 4" and rst: "dma_rst_n i"
  shows "top_reg (tb_dut tb') = dma_posedge i s" and "inputs d (top_in (tb_dut tb')) = inputs d i"
    and "desc_start (top_in (tb_dut tb')) = desc_start i"
    and "tb_req0 tb' = issue_v0 i s" and "tb_req1 tb' = issue_v1 i s" and "cycle_cnt tb' = cycle_cnt tb + 1"
    and "ring_p tb' < 4" and "length (dma_pl (top_reg (tb_dut tb'))) = 4"
    and "flight tb' = new_entry i s # butlast (flight tb)"
    and "stage_ok (last (flight tb)) \<Longrightarrow> sram_img tb' = apply_writes (stage_writes ddr (last (flight tb))) (sram_img tb)"
proof -
  show r: "top_reg (tb_dut tb') = dma_posedge i s"
    by (simp add: tb'_def dma_tb_step_def Let_def i_def s_def posedge_ddr)
  show "inputs d (top_in (tb_dut tb')) = inputs d i" "desc_start (top_in (tb_dut tb')) = desc_start i"
    "tb_req0 tb' = issue_v0 i s" "tb_req1 tb' = issue_v1 i s" "cycle_cnt tb' = cycle_cnt tb + 1" "ring_p tb' < 4"
    by (simp_all add: tb'_def dma_tb_step_def Let_def inputs_def i_def s_def ddr_ren_def DDR_LATENCY_def)
  obtain g0 g1 g2 g3 where g: "dma_pl s = [g0, g1, g2, g3]" using l by (auto simp: length_Suc_conv numeral_eq_Suc)
  have pl: "dma_pl (dma_posedge i s) = [new_stage i s, g0, g1, g2]" using rst by (simp add: dma_posedge_def pl_posedge_def g)
  then show "length (dma_pl (top_reg (tb_dut tb'))) = 4" by (simp add: r)
  have ring: "ring tb' 0 = (ring tb 0)(ring_p tb := \<lparr>slot_v = issue_v0 i s, slot_addr = p_blk (dma_st s)\<rparr>)"
    "ring tb' 1 = (ring tb 1)(ring_p tb := \<lparr>slot_v = issue_v1 i s, slot_addr = p_blk (burst_next i (dma_st s))\<rparr>)"
    "ring_p tb' = (ring_p tb + 1) mod 4"
    by (simp_all add: tb'_def dma_tb_step_def Let_def i_def s_def ddr_ren_def ddr_raddr_def DDR_LATENCY_def)
  consider "ring_p tb = 0" | "ring_p tb = 1" | "ring_p tb = 2" | "ring_p tb = 3" using p by linarith
  then show "flight tb' = new_entry i s # butlast (flight tb)"
    by cases (simp_all add: flight_def r pl g s_def [symmetric] new_entry_def ring ring [unfolded One_nat_def] upt_rec)
  have last: "last (flight tb) = (last (dma_pl s), ring tb 0 (ring_p tb), ring tb 1 (ring_p tb))"
    using p by (simp add: flight_def g s_def [symmetric] upt_rec)
  show "sram_img tb' = apply_writes (stage_writes ddr (last (flight tb))) (sram_img tb)" if "stage_ok (last (flight tb))"
    using ports_fold [of s "ring tb 0 (ring_p tb)" "ring tb 1 (ring_p tb)" "i\<lparr>ddr_rvalid := (\<lambda>k. if k = 0 then slot_v (ring tb 0 (ring_p tb)) else slot_v (ring tb 1 (ring_p tb))),
        ddr_rdata := (\<lambda>k. set_rdata ddr (slot_addr (if k = 0 then ring tb 0 (ring_p tb) else ring tb 1 (ring_p tb))))\<rparr>" ddr "sram_img tb"] that
    unfolding last by (simp add: tb'_def dma_tb_step_def Let_def i_def s_def del: upt_rec_numeral One_nat_def split del: if_split)
qed

section \<open>The invariant of a run\<close>

text \<open>
  After \<open>j\<close> cycles in \<open>S_RUN\<close>: \<open>n\<close> is the number of bursts of the transfer, of which two were issued
  per cycle, and \<open>want\<close> the image at the end.
\<close>

definition burst_total :: "dma_desc \<Rightarrow> nat" where
  "burst_total d = left d (0, unat (dd_cols d))"

definition issue_total :: "dma_desc \<Rightarrow> nat" where
  "issue_total d = (burst_total d + 1) div 2"

definition run_inv :: "(nat \<Rightarrow> 8 word) \<Rightarrow> dma_desc \<Rightarrow> image \<Rightarrow> nat \<Rightarrow> dma_tb \<Rightarrow> bool" where
  "run_inv ddr d want j tb \<longleftrightarrow>
     (let i = top_in (tb_dut tb); s = top_reg (tb_dut tb)
      in inputs d i \<and> length (dma_pl s) = 4 \<and> ring_p tb < 4 \<and> dma_state s = S_RUN
       \<and> list_all stage_ok (flight tb)
       \<and> (\<forall>k < 4. (pl_v0 (fst (flight tb ! k)) \<longleftrightarrow> k < j \<and> j - 1 - k < issue_total d)
                \<and> (pl_v1 (fst (flight tb ! k)) \<longrightarrow> pl_v0 (fst (flight tb ! k))))
       \<and> cycle_cnt tb = 2 + j
       \<and> (\<exists>q. pos_ok d q (dma_st s) \<and> left d q = burst_total d - 2 * j
            \<and> apply_writes (concat (map (stage_writes ddr) (rev (flight tb))) @ writes_from ddr (st_wptr s) (todo d q)) (sram_img tb) = want))"

text \<open>The cycles a run still takes before the one that ends it: the requests, then the four stages.\<close>

definition drain_at :: "dma_desc \<Rightarrow> nat" where
  "drain_at d = (if issue_total d = 0 then 0 else issue_total d + 4)"

lemma flight_length [simp]: "length (flight tb) = 4"
  by (simp add: flight_def)

lemma flight_pl: "length (dma_pl (top_reg (tb_dut tb))) = 4 \<Longrightarrow> map fst (flight tb) = dma_pl (top_reg (tb_dut tb))"
  by (rule nth_equalityI) (simp_all add: flight_def del: upt_rec_numeral)

lemma pl_empty_flight:
  assumes "length (dma_pl (top_reg (tb_dut tb))) = 4"
  shows "pl_empty (top_reg (tb_dut tb)) \<longleftrightarrow> (\<forall>k < 4. \<not> pl_v0 (fst (flight tb ! k)) \<and> \<not> pl_v1 (fst (flight tb ! k)))"
proof -
  have "pl_empty (top_reg (tb_dut tb)) \<longleftrightarrow> \<not> list_ex (\<lambda>g. pl_v0 g \<or> pl_v1 g) (map fst (flight tb))"
    by (simp only: pl_empty_def flight_pl [OF assms])
  also have "\<dots> \<longleftrightarrow> \<not> (\<exists>k < 4. pl_v0 (fst (flight tb ! k)) \<or> pl_v1 (fst (flight tb ! k)))"
    by (simp only: list_ex_length length_map flight_length nth_map cong: conj_cong)
  finally show ?thesis by (simp only: de_Morgan_disj not_ex de_Morgan_conj imp_conv_disj)
qed

lemma flight_mem: "e \<in> set (flight tb) \<longleftrightarrow> (\<exists>k < 4. flight tb ! k = e)"
  by (auto simp only: in_set_conv_nth flight_length)

lemma flight_last: "last (flight tb) \<in> set (flight tb)"
  using flight_length [of tb] by (metis last_in_set list.size(3) zero_neq_numeral)

lemma run_inv_issue:
  assumes d: "desc_fits d" and inv: "run_inv ddr d want j tb"
  defines "i \<equiv> top_in (tb_dut tb)" and "s \<equiv> top_reg (tb_dut tb)"
  shows "issue_v0 i s \<longleftrightarrow> j < issue_total d" and "issue_v1 i s \<longleftrightarrow> 2 \<le> burst_total d - 2 * j"
    and "j \<le> drain_at d \<Longrightarrow> \<not> issue_v0 i s \<and> pl_empty s \<longleftrightarrow> j = drain_at d"
proof -
  obtain q where q: "inputs d i" "dma_state s = S_RUN" "pos_ok d q (dma_st s)" "left d q = burst_total d - 2 * j"
    using inv by (auto simp: run_inv_def Let_def i_def s_def)
  show v0: "issue_v0 i s \<longleftrightarrow> j < issue_total d"
    using issue_cycle(1) [OF d q(1-3)] q(4) by (auto simp: issue_total_def)
  show "issue_v1 i s \<longleftrightarrow> 2 \<le> burst_total d - 2 * j"
    using issue_cycle(2) [OF d q(1-3)] q(4) by simp
  assume j: "j \<le> drain_at d"
  have l: "length (dma_pl s) = 4" using inv by (simp add: run_inv_def Let_def s_def)
  have "pl_empty s \<longleftrightarrow> (\<forall>k < 4. \<not> pl_v0 (fst (flight tb ! k)))"
    using pl_empty_flight [OF l [unfolded s_def]] inv by (auto simp: run_inv_def Let_def s_def)
  also have "\<dots> \<longleftrightarrow> (\<forall>k < 4. \<not> (k < j \<and> j - 1 - k < issue_total d))"
    using inv by (simp add: run_inv_def Let_def)
  finally have e: "pl_empty s \<longleftrightarrow> (\<forall>k < 4. \<not> (k < j \<and> j - 1 - k < issue_total d))" .
  show "\<not> issue_v0 i s \<and> pl_empty s \<longleftrightarrow> j = drain_at d"
  proof (cases "issue_total d = 0")
    case False
    show ?thesis
    proof (cases "j < issue_total d \<or> j = drain_at d")
      case True
      then show ?thesis using v0 e False by (auto simp: drain_at_def)
    next
      case busy: False
      then have k: "j - issue_total d < 4" "j - issue_total d < j" "j - 1 - (j - issue_total d) < issue_total d"
        using j False by (auto simp: drain_at_def)
      then have "\<not> pl_empty s" unfolding e by blast
      then show ?thesis using busy by blast
    qed
  qed (use v0 e j in \<open>simp add: drain_at_def\<close>)
qed

lemma flight_writes:
  assumes "length xs = 4"
  shows "map f (rev xs) = f (last xs) # map f (rev (butlast xs))"
  using assms by (cases xs rule: rev_cases) simp_all

text \<open>Every cycle but the last keeps the invariant.\<close>

lemma run_inv_step:
  assumes d: "desc_fits d" and inv: "run_inv ddr d want j tb" and j: "j < drain_at d"
  shows "run_inv ddr d want (Suc j) (dma_tb_step ddr tb)" and "\<not> dma_done (top_reg (tb_dut (dma_tb_step ddr tb)))"
proof -
  let ?i = "top_in (tb_dut tb)" and ?s = "top_reg (tb_dut tb)" and ?tb = "dma_tb_step ddr tb"
  obtain q where i: "inputs d ?i" and l: "length (dma_pl ?s) = 4" and p: "ring_p tb < 4" and st: "dma_state ?s = S_RUN"
    and ok: "list_all stage_ok (flight tb)"
    and v: "\<And>k. k < 4 \<Longrightarrow> (pl_v0 (fst (flight tb ! k)) \<longleftrightarrow> k < j \<and> j - 1 - k < issue_total d) \<and> (pl_v1 (fst (flight tb ! k)) \<longrightarrow> pl_v0 (fst (flight tb ! k)))"
    and c: "cycle_cnt tb = 2 + j" and q: "pos_ok d q (dma_st ?s)" "left d q = burst_total d - 2 * j"
    and w: "apply_writes (concat (map (stage_writes ddr) (rev (flight tb))) @ writes_from ddr (st_wptr ?s) (todo d q)) (sram_img tb) = want"
    using inv by (auto simp: run_inv_def Let_def)
  have rst: "dma_rst_n ?i" using i by (simp add: inputs_def)
  note step = tb_step [OF l p rst, where ddr = ddr]
  note new = issue_cycle [OF d i st q(1)]
  note io = run_inv_issue [OF d inv]
  have reg: "dma_st (dma_posedge ?i ?s) = st_posedge ?i ?s" "st_wptr (dma_posedge ?i ?s) = wptr_posedge ?i ?s"
    by (simp_all add: dma_posedge_def)
  have run: "dma_state (dma_posedge ?i ?s) = S_RUN"
    using io(3) j rst st by (simp add: dma_posedge_def dma_next_def)
  then show "\<not> dma_done (top_reg (tb_dut ?tb))" by (simp add: step(1) dma_done_def)
  have last: "stage_ok (last (flight tb))" using ok flight_last [of tb] by (simp only: list_all_iff)
  have fl: "flight ?tb ! k = (if k = 0 then new_entry ?i ?s else flight tb ! (k - 1))" if "k < 4" for k
    using that step(9) by (simp add: nth_Cons' nth_butlast)
  have valid: "(pl_v0 (fst (flight ?tb ! k)) \<longleftrightarrow> k < Suc j \<and> Suc j - 1 - k < issue_total d) \<and> (pl_v1 (fst (flight ?tb ! k)) \<longrightarrow> pl_v0 (fst (flight ?tb ! k)))"
    if "k < 4" for k
  proof (cases k)
    case 0
    then show ?thesis using io(1) fl [of 0] by (auto simp: new_entry_def new_stage_def Let_def issue_v1_def)
  next
    case (Suc n)
    then show ?thesis using v [of n] fl [of k] that by auto
  qed
  have "list_all stage_ok (flight ?tb)"
    using ok new(5) by (auto simp: step(9) list_all_iff dest: in_set_butlastD)
  moreover have "apply_writes (concat (map (stage_writes ddr) (rev (flight ?tb))) @ writes_from ddr (st_wptr (top_reg (tb_dut ?tb))) (todo d (adv d q))) (sram_img ?tb) = want"
  proof -
    have "concat (map (stage_writes ddr) (rev (flight ?tb))) @ writes_from ddr (st_wptr (top_reg (tb_dut ?tb))) (todo d (adv d q)) =
        concat (map (stage_writes ddr) (rev (butlast (flight tb)))) @ writes_from ddr (st_wptr ?s) (todo d q)"
      using new(6) [of ddr] by (simp add: step(1,9) reg)
    then show ?thesis using w flight_writes [of "flight tb" "stage_writes ddr"] by (simp add: step(10) [OF last])
  qed
  moreover have "pos_ok d (adv d q) (dma_st (top_reg (tb_dut ?tb)))" "left d (adv d q) = burst_total d - 2 * Suc j"
    using new(3,4) q(2) by (simp_all add: step(1) reg)
  ultimately have ok': "list_all stage_ok (flight ?tb)"
    and ex: "\<exists>q. pos_ok d q (dma_st (top_reg (tb_dut ?tb))) \<and> left d q = burst_total d - 2 * Suc j
      \<and> apply_writes (concat (map (stage_writes ddr) (rev (flight ?tb))) @ writes_from ddr (st_wptr (top_reg (tb_dut ?tb))) (todo d q)) (sram_img ?tb) = want"
    by blast+
  have "\<forall>k < 4. (pl_v0 (fst (flight ?tb ! k)) \<longleftrightarrow> k < Suc j \<and> Suc j - 1 - k < issue_total d) \<and> (pl_v1 (fst (flight ?tb ! k)) \<longrightarrow> pl_v0 (fst (flight ?tb ! k)))"
    using valid by blast
  moreover have "inputs d (top_in (tb_dut ?tb))" "dma_state (top_reg (tb_dut ?tb)) = S_RUN" "cycle_cnt ?tb = 2 + Suc j"
    using i c run step(1,2,6) by simp_all
  ultimately show "run_inv ddr d want (Suc j) ?tb"
    unfolding run_inv_def Let_def using step(7,8) ok' ex by blast
qed

text \<open>The last cycle ends the run, with the wanted image.\<close>

lemma run_inv_last:
  assumes d: "desc_fits d" and inv: "run_inv ddr d want (drain_at d) tb"
  shows "dma_done (top_reg (tb_dut (dma_tb_step ddr tb)))" and "sram_img (dma_tb_step ddr tb) = want"
    and "cycle_cnt (dma_tb_step ddr tb) = 3 + drain_at d"
    and "\<not> tb_req0 (dma_tb_step ddr tb)" and "\<not> tb_req1 (dma_tb_step ddr tb)"
    and "length (dma_pl (top_reg (tb_dut (dma_tb_step ddr tb)))) = 4"
proof -
  let ?i = "top_in (tb_dut tb)" and ?s = "top_reg (tb_dut tb)" and ?tb = "dma_tb_step ddr tb"
  obtain q where i: "inputs d ?i" and l: "length (dma_pl ?s) = 4" and p: "ring_p tb < 4" and st: "dma_state ?s = S_RUN"
    and ok: "list_all stage_ok (flight tb)" and c: "cycle_cnt tb = 2 + drain_at d" and q: "left d q = burst_total d - 2 * drain_at d"
    and w: "apply_writes (concat (map (stage_writes ddr) (rev (flight tb))) @ writes_from ddr (st_wptr ?s) (todo d q)) (sram_img tb) = want"
    using inv by (auto simp: run_inv_def Let_def)
  have rst: "dma_rst_n ?i" using i by (simp add: inputs_def)
  note step = tb_step [OF l p rst, where ddr = ddr]
  note io = run_inv_issue [OF d inv]
  have e: "\<not> issue_v0 ?i ?s" "pl_empty ?s" using io(3) by simp_all
  then show "dma_done (top_reg (tb_dut ?tb))"
    using rst st by (simp add: step(1) dma_posedge_def dma_next_def dma_done_def)
  show "cycle_cnt ?tb = 3 + drain_at d" "\<not> tb_req0 ?tb" "\<not> tb_req1 ?tb" "length (dma_pl (top_reg (tb_dut ?tb))) = 4"
    using c e(1) by (simp_all add: step(4-6,8) issue_v1_def)
  have idle: "stage_writes ddr e = []" if m: "e \<in> set (flight tb)" for e
  proof -
    obtain k where "k < 4" "flight tb ! k = e" using m unfolding flight_mem by blast
    then have "\<not> pl_v0 (fst e)" "\<not> pl_v1 (fst e)" using e(2) pl_empty_flight [OF l] by auto
    then show ?thesis by (cases e) (simp add: stage_writes_def lane_writes_def)
  qed
  have "sram_img ?tb = sram_img tb" using step(10) ok idle [OF flight_last] flight_last [of tb] by (simp add: list_all_iff)
  moreover have "left d q = 0" using q by (auto simp: drain_at_def issue_total_def split: if_splits)
  moreover have wr: "concat (map (stage_writes ddr) (rev (flight tb))) = []" using idle by simp
  ultimately show "sram_img ?tb = want" using w [unfolded wr] by (simp add: todo_0)
qed

section \<open>The loop\<close>

lemma run_loop_from:
  assumes d: "desc_fits d" and "run_inv ddr d want j tb" and "j \<le> drain_at d" and "guard + (drain_at d - j) \<le> 200000"
  shows "\<exists>c' tb'. run_loop ddr guard c tb = (Some c', tb') \<and> sram_img tb' = want
     \<and> n_bursts c' = n_bursts c + (burst_total d - 2 * j) \<and> n_issue_cyc c' = n_issue_cyc c + (issue_total d - j)
     \<and> cycle_cnt tb' = 3 + drain_at d \<and> length (dma_pl (top_reg (tb_dut tb'))) = 4"
  using assms(2-4)
proof (induction "drain_at d - j" arbitrary: j tb c guard)
  case 0
  then have inv: "run_inv ddr d want (drain_at d) tb" by simp
  have M: "issue_total d - j = 0" "burst_total d - 2 * j = 0" using 0 by (auto simp: drain_at_def issue_total_def split: if_splits)
  show ?case
    by (subst run_loop.simps) (use run_inv_last [OF d inv] M in \<open>simp add: Let_def count_requests_def\<close>)
next
  case (Suc n)
  let ?tb = "dma_tb_step ddr tb"
  let ?c = "count_requests ?tb c"
  note inv = Suc.prems(1)
  have j: "j < drain_at d" using Suc.hyps(2) by simp
  note step = run_inv_step [OF d inv j]
  have "inputs d (top_in (tb_dut tb))" "length (dma_pl (top_reg (tb_dut tb))) = 4" "ring_p tb < 4"
    using inv by (simp_all add: run_inv_def Let_def)
  from tb_step(4,5) [OF this(2,3), where ddr = ddr] this(1)
  have req: "tb_req0 ?tb \<longleftrightarrow> j < issue_total d" "tb_req1 ?tb \<longleftrightarrow> 2 \<le> burst_total d - 2 * j"
    using run_inv_issue(1,2) [OF d inv] by (simp_all add: inputs_def)
  have g: "guard + 1 \<le> 200000" "guard + 1 + (drain_at d - Suc j) \<le> 200000" using Suc.prems(3) j by linarith+
  then have loop: "run_loop ddr guard c tb = run_loop ddr (guard + 1) ?c ?tb"
    by (subst run_loop.simps) (use step(2) in \<open>simp add: Let_def\<close>)
  have n: "n_bursts ?c = n_bursts c + of_bool (j < issue_total d) + of_bool (2 \<le> burst_total d - 2 * j)"
    by (simp add: count_requests_def Let_def req)
  have b: "n_issue_cyc ?c = n_issue_cyc c + of_bool (j < issue_total d)"
    by (auto simp: count_requests_def Let_def req issue_total_def)
  have "n = drain_at d - Suc j" using Suc.hyps(2) by simp
  from Suc.hyps(1) [OF this step(1) Suc_leI [OF j] g(2), of ?c]
  obtain c' tb' where r: "run_loop ddr (guard + 1) ?c ?tb = (Some c', tb')" "sram_img tb' = want"
    "n_bursts c' = n_bursts ?c + (burst_total d - 2 * Suc j)" "n_issue_cyc c' = n_issue_cyc ?c + (issue_total d - Suc j)"
    "cycle_cnt tb' = 3 + drain_at d" "length (dma_pl (top_reg (tb_dut tb'))) = 4"
    by blast
  have "n_bursts c' = n_bursts c + (burst_total d - 2 * j)" using r(3) n by (auto simp: issue_total_def)
  moreover have "n_issue_cyc c' = n_issue_cyc c + (issue_total d - j)" using r(4) b by auto
  ultimately show ?case using loop r by simp
qed

section \<open>The reference\<close>

lemma start_nat:
  assumes d: "desc_fits d" and i: "i < unat (dd_rows d)"
  shows "unat (dd_ddr_addr d + dd_stride d * of_nat i) = cur d i (unat (dd_cols d))"
proof -
  have c: "cur d i (unat (dd_cols d)) < 2 ^ 32" using cur_bound [OF d i, of "unat (dd_cols d)"] by simp
  have "dd_ddr_addr d + dd_stride d * of_nat i = of_nat (cur d i (unat (dd_cols d)))" by (simp add: cur_def)
  then show ?thesis using c by (simp only: unsigned_of_nat) (simp add: take_bit_nat_eq_self)
qed

lemma ref_row_bursts:
  assumes d: "desc_fits d" and i: "i < unat (dd_rows d)"
  defines "start \<equiv> dd_ddr_addr d + dd_stride d * of_nat i"
  shows "unat ((start + dd_cols d * 2 - 1) div 16 - start div 16 + 1) = row_bursts d i (unat (dd_cols d))"
proof -
  let ?C = "unat (dd_cols d)" and ?c = "cur d i (unat (dd_cols d))"
  have s: "unat start = ?c" using start_nat [OF d i] by (simp add: start_def)
  have C: "0 < ?C" using d by (simp add: desc_fits_def)
  have b: "?c + 2 * ?C \<le> 0x100000" using cur_bound [OF d i] by simp
  have e: "unat (start + dd_cols d * 2 - 1) = ?c + 2 * ?C - 1"
  proof -
    have "start + dd_cols d * 2 - 1 = of_nat (?c + 2 * ?C - 1)"
      using C s by (simp add: of_nat_diff flip: s)
    then show ?thesis using b by (simp only: unsigned_of_nat) (simp add: take_bit_nat_eq_self)
  qed
  have le: "?c div 16 \<le> (?c + 2 * ?C - 1) div 16" using C by (intro div_le_mono) simp
  have "unat ((start + dd_cols d * 2 - 1) div 16 - start div 16) = (?c + 2 * ?C - 1) div 16 - ?c div 16"
    by (subst unat_sub) (use le in \<open>simp_all add: word_le_nat_alt unat_div e s\<close>)
  moreover have "(?c + 2 * ?C - 1) div 16 - ?c div 16 + 1 < 2 ^ 32" using b by simp
  ultimately show ?thesis unfolding row_bursts_def by (simp add: unat_word_ariths)
qed

lemma fold_add: "fold (\<lambda>i b. b + f i) [0..<n] (a :: nat) = a + (\<Sum>i = 0..<n. f i)"
  by (induction n) simp_all

lemma burst_total_ref:
  assumes d: "desc_fits d"
  shows "ref_bursts d = burst_total d"
proof -
  let ?R = "unat (dd_rows d)" and ?C = "unat (dd_cols d)"
  have "ref_bursts d = fold (\<lambda>i b. b + row_bursts d i ?C) [0..<?R] 0"
    unfolding ref_bursts_def Let_def by (rule fold_cong) (simp_all add: ref_row_bursts [OF d])
  also have "\<dots> = burst_total d"
    by (simp add: fold_add burst_total_def left_def bursts_from_def sum.atLeast_Suc_lessThan)
  finally show ?thesis .
qed

lemma ucast_of_nat12: "(ucast (of_nat n :: 32 word) :: 12 word) = of_nat n"
  by (rule bit_word_eqI) (simp add: bit_simps)

lemma ref_row:
  "fold (\<lambda>j m. m(ucast (of_nat b + of_nat j :: 32 word) := ucast (ddr (src + j * 2)) OR push_bit 8 (ucast (ddr (src + j * 2 + 1))))) [0..<n] m
   = apply_writes (writes_from ddr (of_nat b) (map (\<lambda>k. src + 2 * k) [0..<n])) m"
proof -
  have "(ucast (of_nat b + of_nat j :: 32 word) :: 12 word) = of_nat b + of_nat j" for j
    using ucast_of_nat12 [of "b + j"] by simp
  then show ?thesis
    by (simp add: apply_writes_def writes_from_map fold_map comp_def ddr_word_def mult.commute)
qed

lemma ref_sram_writes:
  assumes d: "desc_fits d"
  shows "ref_sram ddr d m = apply_writes (writes_from ddr (ucast (drop_bit 1 (dd_sram_addr d))) (todo d (0, unat (dd_cols d)))) m"
proof -
  let ?R = "unat (dd_rows d)" and ?C = "unat (dd_cols d)" and ?b = "unat (drop_bit 1 (dd_sram_addr d))"
  define row where "row i = map (\<lambda>k. cur d i ?C + 2 * k) [0..<?C]" for i
  have base: "drop_bit 1 (dd_sram_addr d) + of_nat i * dd_cols d = of_nat (?b + i * ?C)" for i by simp
  have "fold (\<lambda>i. let src = unat (dd_ddr_addr d + dd_stride d * of_nat i); base = drop_bit 1 (dd_sram_addr d) + of_nat i * dd_cols d
       in fold (\<lambda>j m. m(ucast (base + of_nat j) := ucast (ddr (src + j * 2)) OR push_bit 8 (ucast (ddr (src + j * 2 + 1))))) [0..<?C]) [0..<n] m
     = apply_writes (writes_from ddr (of_nat ?b) (concat (map row [0..<n]))) m" if "n \<le> ?R" for n
    using that
  proof (induction n)
    case (Suc n)
    have l: "length (concat (map row [0..<n])) = n * ?C" by (simp add: length_concat comp_def row_def sum_list_triv)
    have n: "n < ?R" using Suc.prems by simp
    have r: "(let src = unat (dd_ddr_addr d + dd_stride d * of_nat n); base = drop_bit 1 (dd_sram_addr d) + of_nat n * dd_cols d
       in fold (\<lambda>j m. m(ucast (base + of_nat j) := ucast (ddr (src + j * 2)) OR push_bit 8 (ucast (ddr (src + j * 2 + 1))))) [0..<?C]) m'
       = apply_writes (writes_from ddr (of_nat ?b + of_nat (n * ?C)) (row n)) m'" for m'
      by (simp only: Let_def base ref_row start_nat [OF d n] row_def) simp
    show ?case
      using Suc.IH n r by (simp only: upt_Suc_append le0 fold_append fold_simps comp_apply id_apply
          map_append concat_append writes_from_append apply_writes_append l list.map concat.simps append_Nil2 less_imp_le)
  qed simp
  from this [of ?R] have "ref_sram ddr d m = apply_writes (writes_from ddr (of_nat ?b) (concat (map row [0..<?R]))) m"
    by (simp add: ref_sram_def)
  moreover have "todo d (0, ?C) = concat (map row [0..<?R])"
    by (cases "0 < ?R") (simp_all add: todo_def words_from_def row_def [abs_def] upt_conv_Cons)
  moreover have "(of_nat ?b :: 12 word) = ucast (drop_bit 1 (dd_sram_addr d))" using ucast_of_nat12 [of ?b] by simp
  ultimately show ?thesis by simp
qed

section \<open>A case\<close>

text \<open>Outside \<open>S_RUN\<close> nothing is requested; with nothing in flight nothing is written.\<close>

definition idle_tb :: "dma_desc \<Rightarrow> dma_tb \<Rightarrow> bool" where
  "idle_tb d tb \<longleftrightarrow> inputs d (top_in (tb_dut tb)) \<and> length (dma_pl (top_reg (tb_dut tb))) = 4 \<and> ring_p tb < 4
     \<and> (\<forall>e \<in> set (flight tb). case e of (g, s0, s1) \<Rightarrow> \<not> pl_v0 g \<and> \<not> pl_v1 g \<and> \<not> slot_v s0 \<and> \<not> slot_v s1)"

lemma idle_entry:
  assumes "idle_tb d tb" and "e \<in> set (flight tb)"
  shows "stage_ok e" and "stage_writes ddr e = []" and "\<not> pl_v0 (fst e)" and "\<not> pl_v1 (fst e)"
  using assms by (auto simp: idle_tb_def stage_ok_def lane_ok_def stage_writes_def lane_writes_def)

lemma idle_step:
  assumes idle: "idle_tb d tb" and s: "dma_state (top_reg (tb_dut tb)) \<noteq> S_RUN"
  shows "idle_tb d (dma_tb_step ddr tb)" and "sram_img (dma_tb_step ddr tb) = sram_img tb"
    and "\<not> tb_req0 (dma_tb_step ddr tb)" and "\<not> tb_req1 (dma_tb_step ddr tb)"
    and "cycle_cnt (dma_tb_step ddr tb) = cycle_cnt tb + 1"
    and "top_reg (tb_dut (dma_tb_step ddr tb)) = dma_posedge (top_in (tb_dut tb)) (top_reg (tb_dut tb))"
proof -
  have i: "inputs d (top_in (tb_dut tb))" and l: "length (dma_pl (top_reg (tb_dut tb))) = 4" and p: "ring_p tb < 4"
    using idle by (simp_all add: idle_tb_def)
  have "dma_rst_n (top_in (tb_dut tb))" using i by (simp add: inputs_def)
  note step = tb_step [OF l p this, where ddr = ddr]
  have v: "\<not> issue_v0 (top_in (tb_dut tb)) (top_reg (tb_dut tb))" "\<not> issue_v1 (top_in (tb_dut tb)) (top_reg (tb_dut tb))"
    using s by (simp_all add: issue_v0_def issue_v1_def)
  show "sram_img (dma_tb_step ddr tb) = sram_img tb"
    using step(10) idle_entry(1,2) [OF idle flight_last] by simp
  show "idle_tb d (dma_tb_step ddr tb)"
    using idle i v step(7,8) by (auto simp: idle_tb_def step(2,9) new_entry_def new_stage_def Let_def dest: in_set_butlastD)
  show "\<not> tb_req0 (dma_tb_step ddr tb)" "\<not> tb_req1 (dma_tb_step ddr tb)" "cycle_cnt (dma_tb_step ddr tb) = cycle_cnt tb + 1"
    "top_reg (tb_dut (dma_tb_step ddr tb)) = dma_posedge (top_in (tb_dut tb)) (top_reg (tb_dut tb))"
    using step(1,4-6) v by simp_all
qed

lemma start_case_idle:
  assumes l: "length (dma_pl (top_reg (tb_dut tb))) = 4"
  shows "idle_tb d (start_case ddr d tb)" and "sram_img (start_case ddr d tb) = (\<lambda>w. 0xFFFF)"
    and "cycle_cnt (start_case ddr d tb) = 1" and "dma_state (top_reg (tb_dut (start_case ddr d tb))) = S_CHECK"
proof -
  define t1 where "t1 = (ddr_reset (tb\<lparr>sram_img := (\<lambda>w. 0xFFFF),
                  tb_dut := set_in (\<lambda>i. i\<lparr>dma_rst_n := False, desc_start := False, desc_sram_addr := dd_sram_addr d,
                    desc_ddr_addr := dd_ddr_addr d, desc_rows := dd_rows d, desc_cols := dd_cols d,
                    desc_src_stride := dd_stride d\<rparr>) (tb_dut tb)\<rparr>))\<lparr>cycle_cnt := 0\<rparr>"
  define reset where "reset = (\<lambda>d. edge dma_posedge (tick dma_posedge d))"
  define t2 where "t2 = t1\<lparr>tb_dut := set_in (\<lambda>i. i\<lparr>dma_rst_n := True, desc_start := True\<rparr>) (reset (reset (tb_dut t1)))\<rparr>"
  have sc: "start_case ddr d tb = (dma_tb_step ddr t2)\<lparr>tb_dut := set_in (\<lambda>i. i\<lparr>desc_start := False\<rparr>) (tb_dut (dma_tb_step ddr t2))\<rparr>"
    by (simp add: start_case_def t2_def t1_def reset_def Let_def)
  have t2: "sram_img t2 = (\<lambda>w. 0xFFFF)" "cycle_cnt t2 = 0" "ring_p t2 = 0" "\<not> slot_v (ring t2 k p)"
    "inputs d (top_in (tb_dut t2))" "desc_start (top_in (tb_dut t2))" for k p
    by (simp_all add: t2_def t1_def ddr_reset_def inputs_def reset_def)
  obtain i where i: "\<not> dma_rst_n i" "top_reg (tb_dut t2) = dma_posedge i (dma_posedge i (top_reg (tb_dut tb)))"
    by (rule that [of "top_in (tb_dut t1)"]) (simp_all add: t2_def t1_def ddr_reset_def reset_def)
  then have r: "dma_state (top_reg (tb_dut t2)) = S_IDLE" "length (dma_pl (top_reg (tb_dut t2))) = 4"
    "g \<in> set (dma_pl (top_reg (tb_dut t2))) \<Longrightarrow> \<not> pl_v0 g \<and> \<not> pl_v1 g" for g
    using l by (auto simp: dma_posedge_def pl_posedge_def)
  have idle: "idle_tb d t2"
    using t2 r by (auto simp: idle_tb_def flight_def simp del: upt_rec_numeral)
  note step = idle_step [OF idle, where ddr = ddr]
  have f: "flight (start_case ddr d tb) = flight (dma_tb_step ddr t2)" by (simp add: sc flight_def)
  show "idle_tb d (start_case ddr d tb)" "sram_img (start_case ddr d tb) = (\<lambda>w. 0xFFFF)" "cycle_cnt (start_case ddr d tb) = 1"
    "dma_state (top_reg (tb_dut (start_case ddr d tb))) = S_CHECK"
    using step r(1) t2 unfolding idle_tb_def f by (auto simp: sc inputs_def dma_posedge_def dma_next_def)
qed

lemma start_inv:
  assumes d: "desc_fits d" and l: "length (dma_pl (top_reg (tb_dut tb))) = 4"
  shows "run_inv ddr d (ref_sram ddr d (\<lambda>w. 0xFFFF)) 0 (dma_tb_step ddr (start_case ddr d tb))"
proof -
  let ?t = "start_case ddr d tb" and ?q = "(0, unat (dd_cols d))"
  let ?i = "top_in (tb_dut ?t)"
  note st = start_case_idle [OF l, where d = d and ddr = ddr]
  have ne: "dma_state (top_reg (tb_dut ?t)) \<noteq> S_RUN" using st(4) by simp
  note step = idle_step [OF st(1) ne, where ddr = ddr]
  have i: "inputs d ?i" using st(1) by (simp add: idle_tb_def)
  then have al: "aligned_ok ?i" "dma_rst_n ?i" using d
    by (simp_all add: aligned_ok_def inputs_def desc_fits_def word_unat_eq_iff unat_low4)
  have reg: "dma_state (top_reg (tb_dut (dma_tb_step ddr ?t))) = S_RUN"
    "dma_st (top_reg (tb_dut (dma_tb_step ddr ?t))) =
       \<lparr>p_row = 0, p_rstart = dd_ddr_addr d, p_blk = dd_ddr_addr d AND 0xFFFFFFF0, p_left = desc_row_bytes ?i\<rparr>"
    "st_wptr (top_reg (tb_dut (dma_tb_step ddr ?t))) = ucast (drop_bit 1 (dd_sram_addr d))"
    using al st(4) i by (simp_all add: step(6) dma_posedge_def dma_next_def st_posedge_def wptr_posedge_def inputs_def)
  have pos: "pos_ok d ?q (dma_st (top_reg (tb_dut (dma_tb_step ddr ?t))))"
    using d desc_row_bytes_nat [OF d i] by (simp add: reg pos_ok_def pos_at_def cur_def unat_block desc_fits_def)
  have fl: "stage_ok e" "stage_writes ddr e = []" "\<not> pl_v0 (fst e)" "\<not> pl_v1 (fst e)" if "e \<in> set (flight (dma_tb_step ddr ?t))" for e
    using idle_entry [OF step(1) that] by simp_all
  have "concat (map (stage_writes ddr) (rev (flight (dma_tb_step ddr ?t)))) = []" using fl(2) by simp
  then have "apply_writes (concat (map (stage_writes ddr) (rev (flight (dma_tb_step ddr ?t))))
      @ writes_from ddr (st_wptr (top_reg (tb_dut (dma_tb_step ddr ?t)))) (todo d ?q)) (sram_img (dma_tb_step ddr ?t)) = ref_sram ddr d (\<lambda>w. 0xFFFF)"
    by (simp only: ref_sram_writes [OF d] reg(3) step(2) st(2) append_Nil)
  then have "\<exists>q. pos_ok d q (dma_st (top_reg (tb_dut (dma_tb_step ddr ?t)))) \<and> left d q = burst_total d - 2 * 0
      \<and> apply_writes (concat (map (stage_writes ddr) (rev (flight (dma_tb_step ddr ?t))))
        @ writes_from ddr (st_wptr (top_reg (tb_dut (dma_tb_step ddr ?t)))) (todo d q)) (sram_img (dma_tb_step ddr ?t)) = ref_sram ddr d (\<lambda>w. 0xFFFF)"
    using pos by (intro exI [of _ ?q]) (simp add: burst_total_def)
  moreover have "list_all stage_ok (flight (dma_tb_step ddr ?t))" using fl(1) by (simp add: list_all_iff)
  moreover have "\<not> pl_v0 (fst (flight (dma_tb_step ddr ?t) ! k)) \<and> \<not> pl_v1 (fst (flight (dma_tb_step ddr ?t) ! k))" if "k < 4" for k
    using fl(3,4) flight_mem that by blast
  ultimately show ?thesis
    unfolding run_inv_def Let_def using step(1,5) reg(1) st(3) by (auto simp: idle_tb_def)
qed

lemma run_case_correct:
  assumes d: "desc_fits d" and l: "length (dma_pl (top_reg (tb_dut tb))) = 4" and n: "ref_bursts d \<le> 399000"
  shows "\<exists>c tb'. run_case ddr d tb = (Some c, tb') \<and> cr_ok c \<and> sram_img tb' = ref_sram ddr d (\<lambda>w. 0xFFFF)
     \<and> n_bursts (cr_stats c) = ref_bursts d \<and> n_issue_cyc (cr_stats c) = (ref_bursts d * 16 + 31) div 32
     \<and> cr_cycles c = (if ref_bursts d = 0 then 3 else (ref_bursts d * 16 + 31) div 32 + 7)
     \<and> length (dma_pl (top_reg (tb_dut tb'))) = 4"
proof -
  let ?c0 = "\<lparr>n_bursts = 0, n_issue_cyc = 0, first_seen = False, t_first = 0, t_last = 0\<rparr>"
  let ?t = "start_case ddr d tb"
  note ref = burst_total_ref [OF d]
  note st = start_case_idle [OF l, where d = d and ddr = ddr]
  have ne: "dma_state (top_reg (tb_dut ?t)) \<noteq> S_RUN" using st(4) by simp
  note step = idle_step [OF st(1) ne, where ddr = ddr]
  note inv = start_inv [OF d l, of ddr]
  have it: "issue_total d = (ref_bursts d * 16 + 31) div 32" unfolding issue_total_def ref by linarith
  have dr: "3 + drain_at d = (if ref_bursts d = 0 then 3 else issue_total d + 7)" "1 + drain_at d \<le> 200000"
    using n by (auto simp: drain_at_def issue_total_def ref)
  have "dma_state (top_reg (tb_dut (dma_tb_step ddr ?t))) = S_RUN" using inv by (simp add: run_inv_def Let_def)
  then have loop: "run_loop ddr 0 ?c0 ?t = run_loop ddr 1 ?c0 (dma_tb_step ddr ?t)"
    by (subst run_loop.simps) (simp add: Let_def dma_done_def count_requests_def step(3,4))
  obtain c' tb' where r: "run_loop ddr 1 ?c0 (dma_tb_step ddr ?t) = (Some c', tb')" "sram_img tb' = ref_sram ddr d (\<lambda>w. 0xFFFF)"
    "n_bursts c' = burst_total d" "n_issue_cyc c' = issue_total d" "cycle_cnt tb' = 3 + drain_at d"
    "length (dma_pl (top_reg (tb_dut tb'))) = 4"
    using run_loop_from [OF d inv, of 1 ?c0] dr(2) by auto
  show ?thesis
    using r dr(1) by (simp add: run_case_def Let_def loop list_all_iff ref it)
qed

end
