(* ===== verification/RtlDmaMain.thy ===== *)
theory RtlDmaMain
  imports RtlDmaRun
begin

text \<open>The bench as a whole, and the descriptors the engine turns down or gets wrong.\<close>

section \<open>The four cases\<close>

lemma dma_cases_fit: "list_all desc_fits dma_cases"
  by (simp add: dma_cases_def desc_fits_def)

lemma ref_bursts_le:
  assumes d: "desc_fits d"
  shows "ref_bursts d \<le> unat (dd_rows d) * (2 * unat (dd_cols d) div 16 + 2)"
proof -
  let ?C = "unat (dd_cols d)"
  have "row_bursts d i ?C \<le> 2 * ?C div 16 + 2" for i
  proof -
    have "(cur d i ?C + 2 * ?C - 1) div 16 \<le> (cur d i ?C + 2 * ?C) div 16" by (rule div_le_mono) simp
    also have "\<dots> \<le> cur d i ?C div 16 + 2 * ?C div 16 + 1" by linarith
    finally show ?thesis unfolding row_bursts_def by simp
  qed
  then have "(\<Sum>i = 0..<unat (dd_rows d). row_bursts d i ?C) \<le> (\<Sum>i = 0..<unat (dd_rows d). 2 * ?C div 16 + 2)"
    by (rule sum_mono)
  moreover have "ref_bursts d = (\<Sum>i = 0..<unat (dd_rows d). row_bursts d i ?C)"
    by (simp add: burst_total_ref [OF d] burst_total_def left_def bursts_from_def sum.atLeast_Suc_lessThan)
  ultimately show ?thesis by simp
qed

lemma dma_cases_bursts: "list_all (\<lambda>d. ref_bursts d \<le> 399000) dma_cases"
proof -
  have "list_all (\<lambda>d. unat (dd_rows d) * (2 * unat (dd_cols d) div 16 + 2) \<le> 399000) dma_cases"
    by (simp add: dma_cases_def)
  then show ?thesis using dma_cases_fit ref_bursts_le unfolding list_all_iff by (meson le_trans)
qed

lemma run_cases:
  assumes "list_all desc_fits ds" and "list_all (\<lambda>d. ref_bursts d \<le> 399000) ds" and "length (dma_pl (top_reg (tb_dut tb))) = 4"
  shows "snd (fold (\<lambda>d (tb, pass). case run_case ddr d tb of (r, tb) \<Rightarrow> (tb, if case_passes r then pass else False)) ds (tb, True))"
  using assms
proof (induction ds arbitrary: tb)
  case (Cons d ds)
  obtain c tb' where "run_case ddr d tb = (Some c, tb')" "cr_ok c" "length (dma_pl (top_reg (tb_dut tb'))) = 4"
    using run_case_correct [of d tb ddr] Cons.prems by auto
  then show ?case using Cons.IH [of tb'] Cons.prems by (simp add: case_passes_def)
qed simp

lemma dma_tb_run: "length (dma_pl s0) = 4 \<Longrightarrow> dma_tb_main s0 = 0"
  unfolding dma_tb_main_def Let_def
  by (subst case_prod_unfold, subst if_P, rule run_cases [OF dma_cases_fit dma_cases_bursts]) simp_all

section \<open>Unaligned descriptors\<close>

lemma idle_forever:
  assumes "idle_tb d tb" and "dma_state (top_reg (tb_dut tb)) = S_IDLE" and "\<not> desc_start (top_in (tb_dut tb))" and "guard \<le> 200000"
  shows "\<exists>tb'. run_loop ddr guard c tb = (None, tb')"
  using assms
proof (induction "200000 - guard" arbitrary: guard c tb)
  case 0
  let ?tb = "dma_tb_step ddr tb"
  have ne: "dma_state (top_reg (tb_dut tb)) \<noteq> S_RUN" using 0 by simp
  have "dma_rst_n (top_in (tb_dut tb))" using 0 by (simp add: idle_tb_def inputs_def)
  then show ?case using idle_step(6) [OF 0(2) ne, where ddr = ddr] 0
    by (subst run_loop.simps) (simp add: Let_def dma_done_def dma_posedge_def dma_next_def)
next
  case (Suc n)
  let ?tb = "dma_tb_step ddr tb"
  have ne: "dma_state (top_reg (tb_dut tb)) \<noteq> S_RUN" using Suc by simp
  have rst: "dma_rst_n (top_in (tb_dut tb))" using Suc.prems by (simp add: idle_tb_def inputs_def)
  note step = idle_step [OF Suc.prems(1) ne, where ddr = ddr]
  have st: "dma_state (top_reg (tb_dut ?tb)) = S_IDLE"
    using rst Suc.prems by (simp add: step(6) dma_posedge_def dma_next_def)
  have "\<not> desc_start (top_in (tb_dut ?tb))"
    using tb_step(3) [OF _ _ rst] Suc.prems by (simp add: idle_tb_def)
  moreover have g: "n = 200000 - (guard + 1)" "guard + 1 \<le> 200000" using Suc.hyps(2) by simp_all
  ultimately obtain tb' where "run_loop ddr (guard + 1) (count_requests ?tb c) ?tb = (None, tb')"
    using Suc.hyps(1) [OF g(1) step(1) st _ g(2), of "count_requests ?tb c"] by blast
  then show ?case using g(2) st by (subst run_loop.simps) (simp add: Let_def dma_done_def)
qed

lemma run_case_unaligned:
  assumes a: "unat (dd_sram_addr d) mod 16 \<noteq> 0 \<or> unat (dd_ddr_addr d) mod 16 \<noteq> 0"
    and l: "length (dma_pl (top_reg (tb_dut tb))) = 4"
  shows "fst (run_case ddr d tb) = None"
proof -
  let ?t = "start_case ddr d tb"
  let ?c0 = "\<lparr>n_bursts = 0, n_issue_cyc = 0, first_seen = False, t_first = 0, t_last = 0\<rparr>"
  note st = start_case_idle [OF l, where d = d and ddr = ddr]
  have ne: "dma_state (top_reg (tb_dut ?t)) \<noteq> S_RUN" using st(4) by simp
  note step = idle_step [OF st(1) ne, where ddr = ddr]
  have i: "inputs d (top_in (tb_dut ?t))" and t: "length (dma_pl (top_reg (tb_dut ?t))) = 4" "ring_p ?t < 4"
    using st(1) by (simp_all add: idle_tb_def)
  then have al: "\<not> aligned_ok (top_in (tb_dut ?t))" "dma_rst_n (top_in (tb_dut ?t))" using a
    by (auto simp: aligned_ok_def inputs_def word_unat_eq_iff unat_low4)
  have ds: "\<not> desc_start (top_in (tb_dut ?t))" by (simp add: start_case_def Let_def)
  have s1: "dma_state (top_reg (tb_dut (dma_tb_step ddr ?t))) = S_IDLE" "\<not> desc_start (top_in (tb_dut (dma_tb_step ddr ?t)))"
    using al st(4) tb_step(3) [OF t al(2), where ddr = ddr] ds by (simp_all add: step(6) dma_posedge_def dma_next_def)
  from idle_forever [OF step(1) s1, of 1 ddr ?c0]
  obtain tb' where "run_loop ddr 1 ?c0 (dma_tb_step ddr ?t) = (None, tb')" by auto
  then have "run_loop ddr 0 ?c0 ?t = (None, tb')"
    using s1 step(3,4) by (subst run_loop.simps) (simp add: Let_def dma_done_def count_requests_def)
  then show ?thesis by (simp add: run_case_def Let_def)
qed

section \<open>Rows at odd addresses\<close>

text \<open>
  The data path moves whole words: of the offset in the block it keeps bits 3 to 1.  A row that starts at
  an odd address, as an odd stride gives, is read one byte too low.
\<close>

lemma odd_row_start:
  assumes "p_blk p = p_rstart p AND 0xFFFFFFF0" and "odd (unat (p_rstart p))"
  shows "unat (p_blk p) + 2 * unat (burst_lo_w p) + 1 = unat (p_rstart p)"
proof -
  have "unat (burst_lo p) = unat (p_rstart p) mod 16" using assms(1) by (simp add: burst_lo_def unat_low4)
  then have lo: "unat (burst_lo_w p) = unat (p_rstart p) mod 16 div 2" unfolding burst_lo_w_def unat_half by simp
  have "odd (unat (p_rstart p) mod 16)" using assms(2) by (simp add: dvd_mod_iff)
  then have "2 * (unat (p_rstart p) mod 16 div 2) + 1 = unat (p_rstart p) mod 16" by (rule odd_two_times_div_two_succ)
  then show ?thesis unfolding lo assms(1) unat_block using div_mult_mod_eq [of "unat (p_rstart p)" 16] by linarith
qed

section \<open>The properties of the engine\<close>

text \<open>A descriptor, and registers to start from, for the examples.\<close>

definition fresh_dma :: dma where
  "fresh_dma = \<lparr>dma_state = S_IDLE, dma_st = \<lparr>p_row = 0, p_rstart = 0, p_blk = 0, p_left = 0\<rparr>, st_wptr = 0,
     dma_pl = replicate 4 \<lparr>pl_addr = 0, pl_lo0 = 0, pl_n0 = 0, pl_lo1 = 0, pl_n1 = 0, pl_v0 = False, pl_v1 = False\<rparr>\<rparr>"

definition fresh_tb :: dma_tb where
  "fresh_tb = \<lparr>tb_dut = dut_init \<lparr>dma_rst_n = False, desc_sram_addr = 0, desc_ddr_addr = 0, desc_rows = 0, desc_cols = 0,
       desc_src_stride = 0, desc_start = False, ddr_rdata = (\<lambda>k. 0), ddr_rvalid = (\<lambda>k. False)\<rparr> fresh_dma,
     sram_img = (\<lambda>w. 0xFFFF), ring = (\<lambda>k p. \<lparr>slot_v = False, slot_addr = 0\<rparr>), ring_p = 0,
     tb_req0 = False, tb_req1 = False, cycle_cnt = 0\<rparr>"

lemma fresh_tb_length: "length (dma_pl (top_reg (tb_dut fresh_tb))) = 4"
  by (simp add: fresh_tb_def fresh_dma_def)

text \<open>
  C8. For every aligned descriptor that fits, with an even stride and at most 399000 bursts (the
  guard of the bench), the DMA engine finishes: the image that it has written is the reference
  copy and nothing else, the bursts requested are those of the formula of the functional model,
  they are requested two per cycle, and the whole takes seven cycles more, or three in all when
  there is nothing to move.
\<close>

theorem dma_case_passes:
  assumes "desc_fits d" and "length (dma_pl (top_reg (tb_dut tb))) = 4" and "ref_bursts d \<le> 399000"
  shows "\<exists>c tb'. run_case ddr d tb = (Some c, tb') \<and> cr_ok c \<and> sram_img tb' = ref_sram ddr d (\<lambda>w. 0xFFFF)
     \<and> n_bursts (cr_stats c) = ref_bursts d \<and> n_issue_cyc (cr_stats c) = (ref_bursts d * 16 + 31) div 32
     \<and> cr_cycles c = (if ref_bursts d = 0 then 3 else (ref_bursts d * 16 + 31) div 32 + 7)"
  using run_case_correct [OF assms, of ddr] by blast

text \<open>Case 3 of the bench: 60 bursts, two per cycle, and seven cycles more.\<close>

theorem dma_case_passes_witness:
  "\<exists>c tb'. run_case of_nat \<lparr>dd_sram_addr = 0x100, dd_ddr_addr = 0x8000, dd_rows = 15, dd_cols = 31, dd_stride = 64\<rparr> fresh_tb
     = (Some c, tb') \<and> cr_ok c \<and> cr_cycles c = 37"
proof -
  let ?d = "\<lparr>dd_sram_addr = 0x100, dd_ddr_addr = 0x8000, dd_rows = 15, dd_cols = 31, dd_stride = 64\<rparr> :: dma_desc"
  have "desc_fits ?d" by (simp add: desc_fits_def)
  moreover have "ref_bursts ?d = 60" by code_simp
  ultimately show ?thesis
    using dma_case_passes [OF _ fresh_tb_length, of ?d of_nat] by auto
qed

text \<open>
  C34. A descriptor whose SRAM or DDR address is not a multiple of 16 never raises done: the
  engine returns to idle and the bench gives up at its guard.
\<close>

theorem dma_unaligned_never_done:
  assumes "unat (dd_sram_addr d) mod 16 \<noteq> 0 \<or> unat (dd_ddr_addr d) mod 16 \<noteq> 0"
    and "length (dma_pl (top_reg (tb_dut tb))) = 4"
  shows "fst (run_case ddr d tb) = None"
  by (rule run_case_unaligned [OF assms])

theorem dma_unaligned_never_done_witness:
  "fst (run_case of_nat \<lparr>dd_sram_addr = 8, dd_ddr_addr = 0, dd_rows = 1, dd_cols = 1, dd_stride = 16\<rparr> fresh_tb) = None"
  by (rule dma_unaligned_never_done [OF _ fresh_tb_length]) simp

text \<open>
  The test bench of the DMA engine passes its four cases whatever the registers hold at the start.
\<close>

theorem dma_tb_passes:
  assumes "length (dma_pl s0) = 4"
  shows "dma_tb_main s0 = 0"
  by (rule dma_tb_run [OF assms])

theorem dma_tb_passes_witness: "dma_tb_main fresh_dma = 0"
  by (rule dma_tb_passes) (simp add: fresh_dma_def)

end
