(* ===== verification/RtlCModel.thy ===== *)
theory RtlCModel
  imports RtlDmaMain ExecDma Cycles
begin

text \<open>
  The hardware and the functional model: the engine of rtl/dma against execDmaLoad and cyclesDma of
  the runtime, which docs/notes/design/rtl-r3.md asks of it.
\<close>

section \<open>The image, word by word\<close>

lemma apply_writes_nth:
  assumes "length ws \<le> 4096" and "k < length ws"
  shows "apply_writes (writes_from D wp ws) m (wp + of_nat k) = ddr_word D (ws ! k)"
  using assms
proof (induction ws rule: rev_induct)
  case (snoc x ws)
  have last: "apply_writes (writes_from D wp (ws @ [x])) m = (apply_writes (writes_from D wp ws) m)(wp + of_nat (length ws) := ddr_word D x)"
    unfolding writes_from_append apply_writes_append by (simp add: apply_writes_def)
  show ?case
  proof (cases "k = length ws")
    case False
    then have k: "k < length ws" using snoc.prems by simp
    then have "(of_nat k :: 12 word) \<noteq> of_nat (length ws)"
      using snoc.prems by (simp add: word_of_nat_eq_iff take_bit_nat_eq_self)
    then show ?thesis using snoc k by (simp add: last nth_append)
  qed (simp add: last)
qed simp

lemma concat_rows:
  assumes "0 < C"
  shows "concat (map (\<lambda>i. map (f i) [0..<C]) [0..<R]) = map (\<lambda>k. f (k div C) (k mod C)) [0..<R * C]"
proof (induction R)
  case (Suc R)
  have "[0..<Suc R * C] = [0..<R * C] @ map (\<lambda>j. j + R * C) [0..<C]"
    using upt_add_eq_append [of 0 "R * C" C] by (simp add: map_add_upt add.commute)
  then show ?case using Suc assms by (simp add: add.commute)
qed simp

lemma todo_nth:
  assumes d: "desc_fits d"
  shows "todo d (0, unat (dd_cols d)) = map (\<lambda>k. unat (dd_ddr_addr d) + unat (dd_stride d) * (k div unat (dd_cols d)) + 2 * (k mod unat (dd_cols d)))
     [0..<unat (dd_rows d) * unat (dd_cols d)]"
proof -
  let ?R = "unat (dd_rows d)" and ?C = "unat (dd_cols d)"
  have C: "0 < ?C" using d by (simp add: desc_fits_def)
  have "todo d (0, ?C) = concat (map (\<lambda>i. map (\<lambda>k. cur d i ?C + 2 * k) [0..<?C]) [0..<?R])"
    by (cases "0 < ?R") (simp_all add: todo_def words_from_def upt_conv_Cons)
  then show ?thesis unfolding concat_rows [OF C] by (simp add: cur_def)
qed

section \<open>One descriptor for both\<close>

text \<open>
  The engine has one row pitch: the rows are packed in SRAM.  Its memories start at 0 and are smaller,
  one megabyte of DDR and 4096 words of SRAM.
\<close>

definition rtl_desc :: "DMAParam \<Rightarrow> dma_desc" where
  "rtl_desc p = \<lparr>dd_sram_addr = dma_sramAddr p - 0x10000000, dd_ddr_addr = dma_ddrAddr p - 0x40000000,
     dd_rows = dma_rows p, dd_cols = dma_cols p, dd_stride = dma_srcStride p\<rparr>"

lemma rtl_desc_simps [simp]:
  "dd_rows (rtl_desc p) = dma_rows p" "dd_cols (rtl_desc p) = dma_cols p" "dd_stride (rtl_desc p) = dma_srcStride p"
  by (simp_all add: rtl_desc_def)

definition rtl_fits :: "DMAParam \<Rightarrow> bool" where
  "rtl_fits p \<longleftrightarrow> dma_load_fits p \<and> desc_fits (rtl_desc p) \<and> 0 < unat (dma_rows p)
     \<and> unat (dma_dstStride p) = 2 * unat (dma_cols p)
     \<and> sram_off (dma_sramAddr p) + 2 * (unat (dma_rows p) * unat (dma_cols p)) \<le> 0x2000"

lemma rtl_desc_nat:
  assumes "rtl_fits p"
  shows "unat (dd_sram_addr (rtl_desc p)) = sram_off (dma_sramAddr p)"
    and "unat (dd_ddr_addr (rtl_desc p)) = unat (dma_ddrAddr p) - 0x40000000" and "0x40000000 \<le> unat (dma_ddrAddr p)"
    and "0x10000000 \<le> unat (dma_sramAddr p)" and "unat (dma_rows p) * unat (dma_cols p) \<le> 4096"
proof -
  have "0x40000000 \<le> unat (dma_ddrAddr p)" "0x10000000 \<le> unat (dma_sramAddr p)"
    using assms by (auto simp: rtl_fits_def dma_load_fits_def rows_fit_def)
  then show "unat (dd_sram_addr (rtl_desc p)) = sram_off (dma_sramAddr p)"
    "unat (dd_ddr_addr (rtl_desc p)) = unat (dma_ddrAddr p) - 0x40000000" "0x40000000 \<le> unat (dma_ddrAddr p)"
    "0x10000000 \<le> unat (dma_sramAddr p)"
    by (simp_all add: rtl_desc_def sram_off_def unat_sub word_le_nat_alt)
  show "unat (dma_rows p) * unat (dma_cols p) \<le> 4096" using assms by (simp add: rtl_fits_def)
qed

lemma rtl_bursts_small:
  assumes "rtl_fits p"
  shows "ref_bursts (rtl_desc p) \<le> 399000" and "0 < ref_bursts (rtl_desc p)"
proof -
  have d: "desc_fits (rtl_desc p)" and R: "0 < unat (dma_rows p)" using assms by (simp_all add: rtl_fits_def)
  have rc: "unat (dma_rows p) * unat (dma_cols p) \<le> 4096" by (rule rtl_desc_nat(5) [OF assms])
  have C: "0 < unat (dma_cols p)" using d by (simp add: desc_fits_def rtl_desc_def)
  then have "unat (dma_rows p) \<le> unat (dma_rows p) * unat (dma_cols p)" by simp
  moreover have "unat (dma_rows p) * (2 * unat (dma_cols p) div 16 + 2) \<le> unat (dma_rows p) * unat (dma_cols p) + unat (dma_rows p) * 2"
    unfolding add_mult_distrib2 by (intro add_mono mult_le_mono2) simp_all
  ultimately show "ref_bursts (rtl_desc p) \<le> 399000"
    using ref_bursts_le [OF d] rc unfolding rtl_desc_simps by linarith
  have "left (rtl_desc p) (0, unat (dma_cols p)) \<noteq> 0" using R by (simp add: left_0)
  then show "0 < ref_bursts (rtl_desc p)" by (simp add: burst_total_ref [OF d] burst_total_def)
qed

section \<open>Contents\<close>

lemma rtl_word:
  assumes p: "rtl_fits p" and k: "k < unat (dma_rows p) * unat (dma_cols p)"
  shows "ref_sram D (rtl_desc p) m (of_nat (sram_off (dma_sramAddr p) div 2 + k)) =
     ddr_word D (unat (dma_ddrAddr p) - 0x40000000 + unat (dma_srcStride p) * (k div unat (dma_cols p)) + 2 * (k mod unat (dma_cols p)))"
proof -
  have d: "desc_fits (rtl_desc p)" using p by (simp add: rtl_fits_def)
  let ?ws = "todo (rtl_desc p) (0, unat (dd_cols (rtl_desc p)))"
  have l: "length ?ws = unat (dma_rows p) * unat (dma_cols p)" unfolding todo_nth [OF d] by simp
  have w: "?ws ! k = unat (dma_ddrAddr p) - 0x40000000 + unat (dma_srcStride p) * (k div unat (dma_cols p)) + 2 * (k mod unat (dma_cols p))"
    using k rtl_desc_nat(2) [OF p] unfolding todo_nth [OF d] by simp
  have "unat (drop_bit 1 (dd_sram_addr (rtl_desc p))) = sram_off (dma_sramAddr p) div 2"
    unfolding unat_half rtl_desc_nat(1) [OF p] ..
  then have "drop_bit 1 (dd_sram_addr (rtl_desc p)) = of_nat (sram_off (dma_sramAddr p) div 2)"
    by (metis of_nat_unat ucast_id)
  then have "(ucast (drop_bit 1 (dd_sram_addr (rtl_desc p))) :: 12 word) = of_nat (sram_off (dma_sramAddr p) div 2)"
    by (simp only: ucast_of_nat12)
  then show ?thesis
    using apply_writes_nth [of ?ws k D "of_nat (sram_off (dma_sramAddr p) div 2)" m] k rtl_desc_nat(5) [OF p] l w
    by (simp add: ref_sram_writes [OF d])
qed

lemma cmodel_word:
  assumes dp: "read_desc m dp 24 load_DMAParam = Inr p" and p: "rtl_fits p" and t: "execDmaLoad m dp = Inr t"
    and k: "k < unat (dma_rows p) * unat (dma_cols p)"
  shows "sram_fp16 t (sram_off (dma_sramAddr p) + 2 * k) =
     ddr_word (ddr_bytes m) (unat (dma_ddrAddr p) - 0x40000000 + unat (dma_srcStride p) * (k div unat (dma_cols p)) + 2 * (k mod unat (dma_cols p)))"
proof -
  let ?C = "unat (dma_cols p)"
  have fits: "dma_load_fits p" using p by (simp add: rtl_fits_def)
  define i j where "i = k div ?C" and "j = k mod ?C"
  have C: "0 < ?C" using p by (simp add: rtl_fits_def desc_fits_def rtl_desc_def)
  have i: "i < unat (dma_rows p)" unfolding i_def using k by (simp add: less_mult_imp_div_less)
  have j: "j < ?C" using C by (simp add: j_def)
  have S: "rows_fit 0x40000000 0xC0000000 (dma_ddrAddr p) (dma_srcStride p) (unat (dma_rows p)) (row_bytes p)"
    and T: "rows_fit 0x10000000 0x10080000 (dma_sramAddr p) (dma_dstStride p) (unat (dma_rows p)) (row_bytes p)"
    using fits by (simp_all add: dma_load_fits_def)
  have "read_sram t (row_at (dma_sramAddr p) (dma_dstStride p) i - 0x10000000) (row_bytes p)
      = read_ddr m (row_at (dma_ddrAddr p) (dma_srcStride p) i - 0x40000000) (row_bytes p)"
    using dma_load_copied [OF dp fits] t i by auto
  then have rows: "map (sram_bytes t) [row_at (dma_sramAddr p) (dma_dstStride p) i - 0x10000000..<row_at (dma_sramAddr p) (dma_dstStride p) i - 0x10000000 + row_bytes p]
      = map (ddr_bytes m) [row_at (dma_ddrAddr p) (dma_srcStride p) i - 0x40000000..<row_at (dma_ddrAddr p) (dma_srcStride p) i - 0x40000000 + row_bytes p]"
    unfolding read_in_ddr [OF S i] read_in_sram [OF T i] by simp
  have byte: "sram_bytes t (row_at (dma_sramAddr p) (dma_dstStride p) i - 0x10000000 + b)
      = ddr_bytes m (row_at (dma_ddrAddr p) (dma_srcStride p) i - 0x40000000 + b)" if "b < row_bytes p" for b
    using arg_cong [OF rows, of "\<lambda>l. l ! b"] that by simp
  have dst: "row_at (dma_sramAddr p) (dma_dstStride p) i - 0x10000000 + 2 * j = sram_off (dma_sramAddr p) + 2 * k"
  proof -
    have "k = i * ?C + j" by (simp add: i_def j_def)
    moreover have "unat (dma_dstStride p) = 2 * ?C" using p by (simp add: rtl_fits_def)
    ultimately show ?thesis using rtl_desc_nat(4) [OF p] by (simp add: row_at_def sram_off_def algebra_simps)
  qed
  have src: "row_at (dma_ddrAddr p) (dma_srcStride p) i - 0x40000000 = unat (dma_ddrAddr p) - 0x40000000 + unat (dma_srcStride p) * i"
    using rtl_desc_nat(3) [OF p] by (simp add: row_at_def)
  have "2 * j < row_bytes p" "2 * j + 1 < row_bytes p" using j by (simp_all add: ExecDma.row_bytes_nat)
  from byte [OF this(1)] byte [OF this(2)] show ?thesis
    using dst unfolding src by (simp add: sram_fp16_def ddr_word_def u16_of_bytes_def i_def j_def)
qed

section \<open>Cycles\<close>

lemma blocks_met_base:
  assumes "0 < w"
  shows "blocks_met (0x40000000 + a) w = blocks_met a w"
proof -
  have "(0x40000000 + a + w - 1) div 16 = 0x4000000 + (a + w - 1) div 16" "(0x40000000 + a) div 16 = 0x4000000 + a div 16"
    using assms by simp_all
  then show ?thesis unfolding blocks_met_eq [OF assms] by simp
qed

lemma rtl_blocks:
  assumes p: "rtl_fits p" and i: "i < unat (dma_rows p)"
  shows "blocks_met (unat (dma_ddrAddr p + dma_srcStride p * of_nat i)) (2 * unat (dma_cols p)) = row_bursts (rtl_desc p) i (unat (dma_cols p))"
    and "0x40000000 \<le> unat (dma_ddrAddr p + dma_srcStride p * of_nat i)"
    and "unat (dma_ddrAddr p + dma_srcStride p * of_nat i) + 2 * unat (dma_cols p) \<le> 0xC0000000"
proof -
  let ?C = "unat (dma_cols p)"
  have C: "0 < 2 * ?C" using p by (simp add: rtl_fits_def desc_fits_def)
  have S: "rows_fit 0x40000000 0xC0000000 (dma_ddrAddr p) (dma_srcStride p) (unat (dma_rows p)) (row_bytes p)"
    using p by (simp add: rtl_fits_def dma_load_fits_def)
  have a: "unat (dma_ddrAddr p + dma_srcStride p * of_nat i) = row_at (dma_ddrAddr p) (dma_srcStride p) i"
    by (rule row_addr_nat [OF S i]) simp
  also have c: "\<dots> = 0x40000000 + cur (rtl_desc p) i ?C"
    using rtl_desc_nat(2,3) [OF p] by (simp add: row_at_def cur_def)
  finally have c: "unat (dma_ddrAddr p + dma_srcStride p * of_nat i) = 0x40000000 + cur (rtl_desc p) i ?C" .
  have "cur (rtl_desc p) i ?C div 16 \<le> (cur (rtl_desc p) i ?C + 2 * ?C - 1) div 16" using C by (intro div_le_mono) simp
  then show "blocks_met (unat (dma_ddrAddr p + dma_srcStride p * of_nat i)) (2 * ?C) = row_bursts (rtl_desc p) i ?C"
    unfolding c blocks_met_base [OF C] unfolding blocks_met_eq [OF C] row_bursts_def by (simp add: Suc_diff_le)
  show "0x40000000 \<le> unat (dma_ddrAddr p + dma_srcStride p * of_nat i)" unfolding c by simp
  show "unat (dma_ddrAddr p + dma_srcStride p * of_nat i) + 2 * ?C \<le> 0xC0000000"
    using rows_fit_row(2) [OF S i] unfolding a by (simp add: ExecDma.row_bytes_nat)
qed

lemma rtl_cycles:
  assumes dp: "read_desc m dp 24 load_DMAParam = Inr p" and p: "rtl_fits p"
  shows "\<exists>n. cyclesDma m dp True = Inr n \<and> unat n = (ref_bursts (rtl_desc p) * 16 + 31) div 32 + 16"
proof -
  have d: "desc_fits (rtl_desc p)" using p by (simp add: rtl_fits_def)
  have "0 < dma_cols p" using d by (simp add: desc_fits_def word_less_nat_alt)
  then have f: "dma_rows_in_ddr p True" using rtl_blocks(2,3) [OF p] by (simp add: dma_rows_in_ddr_def dma_stride_def)
  have "ref_bursts (rtl_desc p) = (\<Sum>i = 0..<unat (dma_rows p). row_bursts (rtl_desc p) i (unat (dma_cols p)))"
    by (simp add: burst_total_ref [OF d] burst_total_def left_def bursts_from_def sum.atLeast_Suc_lessThan)
  also have "\<dots> = (\<Sum>i<unat (dma_rows p). blocks_met (unat (dma_ddrAddr p + dma_srcStride p * of_nat i)) (2 * unat (dma_cols p)))"
    unfolding lessThan_atLeast0 by (rule sum.cong) (simp_all add: rtl_blocks(1) [OF p])
  finally show ?thesis
    using cyclesDma_nat [OF dp f] by (simp add: dma_stride_def ceil_div_def mult.commute add.commute)
qed

section \<open>The engine implements the model's load\<close>

lemma rtl_implements_load:
  assumes dp: "read_desc m dp 24 load_DMAParam = Inr p" and p: "rtl_fits p" and l: "length (dma_pl (top_reg (tb_dut tb))) = 4"
  shows "\<exists>t c tb' n. execDmaLoad m dp = Inr t \<and> run_case (ddr_bytes m) (rtl_desc p) tb = (Some c, tb')
     \<and> (\<forall>k < unat (dma_rows p) * unat (dma_cols p).
          sram_fp16 t (sram_off (dma_sramAddr p) + 2 * k) = sram_img tb' (of_nat (sram_off (dma_sramAddr p) div 2 + k)))
     \<and> cyclesDma m dp True = Inr n \<and> unat n = cr_cycles c + 9"
proof -
  have d: "desc_fits (rtl_desc p)" "dma_load_fits p" using p by (simp_all add: rtl_fits_def)
  obtain t where t: "execDmaLoad m dp = Inr t" using dma_load_copied [OF dp d(2)] by blast
  obtain c tb' where r: "run_case (ddr_bytes m) (rtl_desc p) tb = (Some c, tb')"
    "sram_img tb' = ref_sram (ddr_bytes m) (rtl_desc p) (\<lambda>w. 0xFFFF)"
    "cr_cycles c = (ref_bursts (rtl_desc p) * 16 + 31) div 32 + 7"
    using run_case_correct [OF d(1) l rtl_bursts_small(1) [OF p], of "ddr_bytes m"] rtl_bursts_small(2) [OF p] by auto
  obtain n where n: "cyclesDma m dp True = Inr n" "unat n = cr_cycles c + 9"
    using rtl_cycles [OF dp p] r(3) by auto
  have "sram_fp16 t (sram_off (dma_sramAddr p) + 2 * k) = sram_img tb' (of_nat (sram_off (dma_sramAddr p) div 2 + k))"
    if "k < unat (dma_rows p) * unat (dma_cols p)" for k
    unfolding r(2) rtl_word [OF p that] cmodel_word [OF dp p t that] ..
  then show ?thesis using t r(1) n by blast
qed

text \<open>
  C6. The DMA engine in SystemVerilog implements the DMA load of the functional model. For a
  descriptor with at least one row and one column, both addresses multiples of 16, an even source
  stride, rows packed in SRAM (destination stride 2 * cols), a source inside the first MiB of DDR
  and a destination inside the first 8 KiB of SRAM (the memories of the bench), and an engine with
  the four entries of its command pipeline, it ends, from the same DDR, with the words in SRAM
  that execDmaLoad leaves there, and the cycles that cyclesDma charges are the cycles of the
  engine plus nine. Odd strides and unaligned addresses are excluded because the engine does
  differ there (odd_row_start, dma_unaligned_never_done).
\<close>

theorem rtl_dma_implements_execDmaLoad:
  assumes "read_desc m dp 24 load_DMAParam = Inr p" and "rtl_fits p" and "length (dma_pl (top_reg (tb_dut tb))) = 4"
  shows "\<exists>t c tb' n. execDmaLoad m dp = Inr t \<and> run_case (ddr_bytes m) (rtl_desc p) tb = (Some c, tb')
     \<and> (\<forall>k < unat (dma_rows p) * unat (dma_cols p).
          sram_fp16 t (sram_off (dma_sramAddr p) + 2 * k) = sram_img tb' (of_nat (sram_off (dma_sramAddr p) div 2 + k)))
     \<and> cyclesDma m dp True = Inr n \<and> unat n = cr_cycles c + 9"
  by (rule rtl_implements_load [OF assms])

theorem rtl_dma_implements_execDmaLoad_witness:
  "\<exists>t c tb'. execDmaLoad sample_load_sim 0x40000100 = Inr t
     \<and> run_case (ddr_bytes sample_load_sim) (rtl_desc sample_load_desc) fresh_tb = (Some c, tb') \<and> sram_fp16 t 6 = sram_img tb' 3"
proof -
  have desc: "read_desc sample_load_sim 0x40000100 24 load_DMAParam = Inr sample_load_desc"
    by (rule dma_desc.read_poke [of _ "0x100"]) (simp_all add: ddr_eq_Inr sample_load_sim_def)
  have fits: "rtl_fits sample_load_desc"
    by (simp add: rtl_fits_def dma_load_fits_def dma_aligned_def rows_fit_def row_at_def ExecDma.row_bytes_nat desc_fits_def
        rtl_desc_def sram_off_def sample_load_desc_def)
  have "3 < unat (dma_rows sample_load_desc) * unat (dma_cols sample_load_desc)" "sram_off (dma_sramAddr sample_load_desc) = 0"
    by (simp_all add: sample_load_desc_def sram_off_def)
  moreover have "(of_nat (0 div 2 + 3) :: 12 word) = 3" "(0::nat) + 2 * 3 = 6" by simp_all
  ultimately show ?thesis
    using rtl_dma_implements_execDmaLoad [OF desc fits fresh_tb_length] by metis
qed

end
