(* ===== verification/LoweringCorrect.thy ===== *)
theory LoweringCorrect
  imports Chip
begin

text \<open>
  The lowering patterns are correct on fp16 data: the operations they build, run on the tensors of
  the program, leave in the output what the linalg operation computes, and no other buffer of the
  program changes.
\<close>

section \<open>Elementwise operations\<close>

text \<open>
  C11. When EwiseBroadcastLowering accepts a linalg.generic, running the operations it builds on
  fp16 data leaves in every element of the output what the body computes from the elements its
  indexing maps select, with broadcast rows, modulo columns and exchanged operands, and changes no
  other buffer of the program.
\<close>

theorem EwiseBroadcastLowering_correct:
  assumes "EwiseBroadcastLowering n g = Some ops"
    and "g_inputs g = [MemOperand v0, MemOperand v1]" and "g_outputs g = [MemOperand out]"
    and "tags_below n v0" and "tags_below n v1" and "tags_below n out" and "addressable out"
  shows "(\<forall>js. in_shape (value_type out) js \<longrightarrow>
      generic_value (fp16_chip P E) outer m g js = Some (read (run_ops (fp16_chip P E) ops m) out js))
    \<and> (\<forall>w. tags_below n w \<longrightarrow> w \<noteq> root_of out \<longrightarrow> run_ops (fp16_chip P E) ops m w = m w)"
  using fp16.EwiseBroadcastLowering_implements [OF assms] by blast

section \<open>Activations\<close>

text \<open>
  C26. When ActLowering accepts a linalg.generic whose input and output maps are both the
  identity, on two matrices of the same shape, the operations it builds leave in every element, at
  the place where the output map puts it, what the body computes from the input, except that a NaN
  becomes zero; the constant 0.0 of the body is the half 0. The pattern does not look at the maps
  (ActLowering_ignores_maps).
\<close>

theorem ActLowering_correct:
  assumes "ActLowering n g = Some ops"
    and "g_inputs g = [MemOperand x]" and "g_outputs g = [MemOperand out]" and "isIdentityMap (g_maps g ! 0)"
    and "addressable out" and "mr_shape (value_type x) = mr_shape (value_type out)"
    and "mr_shape (value_type out) = [rows, cols]" and "fe_const E 0 = 0" and "isIdentityMap (g_maps g ! 1)"
  shows "\<forall>js. in_shape (value_type out) js \<longrightarrow> (\<exists>v. generic_value (fp16_chip P E) outer m g js = Some v
    \<and> read (run_ops (fp16_chip P E) ops m) out (eval_map (g_maps g ! 1) js)
      = (if nan16 (read m x (eval_map (g_maps g ! 0) js)) then 0 else v))"
proof (intro allI impI)
  fix js
  assume js: "in_shape (value_type out) js"
  then obtain r c where rc: "js = [r, c]" by (auto simp: in_shape_2 [OF assms(7)])
  from assms(1,2,3) obtain kind where k: "matchActBody g = Some kind" and ops: "ops = lowerAct n x out kind"
    by (auto simp: ActLowering_def split: option.splits)
  have run: "read (run_ops (fp16_chip P E) ops m) out js = ch_act (fp16_chip P E) kind (read m x js)"
    unfolding ops by (rule lowerAct_run(1) [OF assms(5,6) js])
  have gv: "generic_value (fp16_chip P E) outer m g js = eval_body (ch_arith (fp16_chip P E)) (ch_const (fp16_chip P E)) outer
      (\<lambda>k. case (g_inputs g @ g_outputs g) ! k of MemOperand v \<Rightarrow> read m v (eval_map (g_maps g ! k) js) | OtherOperand i \<Rightarrow> outer i)
      (hd (g_yield g))"
    by (simp add: generic_value_def)
  have c0: "ch_const (fp16_chip P E) 0 = 0" using assms(8) by (simp add: fp16_chip_def)
  from matchActBody_RELU [OF k] obtain inside op where kind: "kind = RELU" and op: "op = MaximumF \<or> op = MaxNumF"
    and y: "hd (g_yield g) = BodyOp inside op [BodyArg 0, BodyConst 0] \<or> hd (g_yield g) = BodyOp inside op [BodyConst 0, BodyArg 0]"
    by (elim conjE exE)
  have x: "(case (g_inputs g @ g_outputs g) ! 0 of MemOperand v \<Rightarrow> read m v (eval_map (g_maps g ! 0) js) | OtherOperand i \<Rightarrow> outer i) = read m x js"
    by (simp add: assms(2) isIdentityMap_eval [OF assms(4)] rc)
  define v where "v = (if hd (g_yield g) = BodyOp inside op [BodyArg 0, BodyConst 0]
    then ch_arith (fp16_chip P E) op (read m x js) 0 else ch_arith (fp16_chip P E) op 0 (read m x js))"
  have "generic_value (fp16_chip P E) outer m g js = Some v"
    using y by (elim disjE) (simp_all add: gv v_def c0 x [simplified])
  moreover have "v = ch_act (fp16_chip P E) RELU (read m x js)" if "\<not> nan16 (read m x js)"
    unfolding v_def fp16_relu [OF op that] by simp
  ultimately show "\<exists>v. generic_value (fp16_chip P E) outer m g js = Some v
      \<and> read (run_ops (fp16_chip P E) ops m) out (eval_map (g_maps g ! 1) js)
        = (if nan16 (read m x (eval_map (g_maps g ! 0) js)) then 0 else v)"
    using run fp16_relu_nan [of "read m x js" P E] isIdentityMap_eval [OF assms(4)] isIdentityMap_eval [OF assms(9)]
    by (intro exI [of _ v]) (simp add: kind rc)
qed

section \<open>Reductions\<close>

lemma max_row_fold:
  assumes "mr_shape (value_type x) = [rows, cols]" and "1 \<le> cols"
  shows "ch_reduce (fp16_chip P E) REDUCE_MAX (row_values m x r)
    = fold (\<lambda>c acc. combine (fp16_chip P E) REDUCE_MAX acc (read m x [r, c])) [1..cols - 1] (canon16 (read m x [r, 0]))"
proof -
  define xs where "xs = row_values m x r"
  define N where "N = nat cols"
  have cols: "cols = int N" "0 < N" using assms(2) by (simp_all add: N_def)
  have xs: "xs = map (\<lambda>j. read m x [r, int j]) [0..<N]"
    unfolding xs_def row_values_def assms(1) using upto_map [of "\<lambda>c. read m x [r, c]" N] by (simp add: cols)
  have "[1..cols - 1] = map int [1..<N]"
  proof -
    have "[1..int n] = map int [1..<Suc n]" for n
      by (induction n) (simp_all add: upto_rec2)
    from this [of "N - 1"] show ?thesis using cols by (simp add: of_nat_diff)
  qed
  then have L: "map ((!) xs) [1..<N] = map (\<lambda>c. read m x [r, c]) [1..cols - 1]"
    by (simp add: xs)
  define F where "F = (\<lambda>x acc. combine (fp16_chip P E) REDUCE_MAX acc x)"
  have "fold (\<lambda>c. F (read m x [r, c])) [1..cols - 1] = fold F (map ((!) xs) [1..<N])"
    unfolding L fold_map comp_def ..
  moreover have "round16 (max_upto (\<lambda>j. fp16ToFp32 (xs ! j)) N) = fold F (map ((!) xs) [1..<N]) (canon16 (xs ! 0))"
    unfolding F_def by (rule fp16_max_fold) (use cols xs in auto)
  moreover have "ch_reduce (fp16_chip P E) REDUCE_MAX xs = round16 (max_upto (\<lambda>j. fp16ToFp32 (xs ! j)) N)"
    by (simp add: fp16_chip_def fp16_reduce_def xs)
  moreover have "xs ! 0 = read m x [r, 0]" using cols by (simp add: xs)
  ultimately show ?thesis by (simp add: F_def xs_def)
qed

text \<open>
  C25. When GenericReduceLowering accepts a linalg.generic, each row of the result is the
  reduction of the row by the kind matched, the body of the generic is one step of that kind, and
  for MAX the result is the fold of the fp16 maximum over the row.
\<close>

theorem GenericReduceLowering_correct:
  assumes "GenericReduceLowering n g = Some ops"
    and "g_inputs g = [MemOperand x]" and "g_outputs g = [MemOperand out]" and "addressable out"
    and "mr_shape (value_type x) = [rows, cols]" and "mr_shape (value_type out) = [rows, 1]" and "1 \<le> cols"
  shows "\<exists>kind. (\<forall>r. 0 \<le> r \<and> r < rows \<longrightarrow>
        read (run_ops (fp16_chip P E) ops m) out [r, 0] = ch_reduce (fp16_chip P E) kind (row_values m x r)
      \<and> (kind = REDUCE_MAX \<longrightarrow> read (run_ops (fp16_chip P E) ops m) out [r, 0]
          = fold (\<lambda>c acc. combine (fp16_chip P E) kind acc (read m x [r, c])) [1..cols - 1] (canon16 (read m x [r, 0]))))
    \<and> (\<forall>v acc. (kind = REDUCE_MAX \<longrightarrow> \<not> nan16 v \<and> \<not> nan16 acc) \<longrightarrow>
        eval_body (ch_arith (fp16_chip P E)) c outer (\<lambda>k. if k = 0 then v else acc) (hd (g_yield g))
          = Some (combine (fp16_chip P E) kind acc v))"
proof -
  from assms(1,2,3) obtain y ys kind where y: "g_yield g = y # ys" and k: "matchReduceBody y (BodyArg 0) (BodyArg 1) = Some kind"
    and ops: "ops = lowerReduce n x out kind"
    by (auto simp: GenericReduceLowering_def split: option.splits list.splits if_splits)
  have run: "read (run_ops (fp16_chip P E) ops m) out [r, 0] = ch_reduce (fp16_chip P E) kind (row_values m x r)"
    if "0 \<le> r" "r < rows" for r
    unfolding ops by (rule lowerReduce_run(1) [OF assms(4,5,6) that])
  note max = max_row_fold [OF assms(5,7)]
  have body: "(kind = REDUCE_MAX \<longrightarrow> \<not> nan16 v \<and> \<not> nan16 acc) \<longrightarrow>
      eval_body (ch_arith (fp16_chip P E)) c outer (\<lambda>k. if k = 0 then v else acc) (hd (g_yield g))
        = Some (combine (fp16_chip P E) kind acc v)" for v acc
    using matchReduceBody_combine [OF k] by (simp add: y)
  show ?thesis
  proof (intro exI [of _ kind] conjI allI impI)
    fix r
    assume r: "0 \<le> r \<and> r < rows"
    then show *: "read (run_ops (fp16_chip P E) ops m) out [r, 0] = ch_reduce (fp16_chip P E) kind (row_values m x r)"
      using run by blast
    show "kind = REDUCE_MAX \<Longrightarrow> read (run_ops (fp16_chip P E) ops m) out [r, 0]
        = fold (\<lambda>c acc. combine (fp16_chip P E) kind acc (read m x [r, c])) [1..cols - 1] (canon16 (read m x [r, 0]))"
      unfolding * using max by (simp only:)
  qed (use body in blast)
qed

section \<open>Matrix product\<close>

text \<open>
  C24. For any arithmetic of the chip the lowering of linalg.matmul leaves in cell (i, j) the dot
  product of row i and column j taken in tiles of 16, the first without and the others with
  accumulation, whatever the destination held, and changes no other buffer of the program.
\<close>

theorem MatmulLowering_correct:
  assumes "MatmulLowering n lhs rhs dst = Inr ops"
    and "tags_below n lhs" and "tags_below n rhs" and "tags_below n dst" and "addressable dst"
    and "mr_shape (value_type lhs) = [rows, K]" and "mr_shape (value_type rhs) = [K, cols]"
    and "mr_shape (value_type dst) = [rows, cols]" and "16 \<le> K"
  shows "(\<forall>i j. 0 \<le> i \<and> i < rows \<and> 0 \<le> j \<and> j < cols \<longrightarrow>
      read (run_ops C ops m) dst [i, j] = tiled_dot C (cell_pairs m lhs rhs i j) (nat (K div 16) - 1))
    \<and> (\<forall>w. tags_below n w \<longrightarrow> w \<noteq> root_of dst \<longrightarrow> run_ops C ops m w = m w)"
  using MatmulLowering_run [OF assms] by blast

context integer_chip
begin

lemma matmul_lowered_int:
  assumes "MatmulLowering n lhs rhs dst = Inr ops"
    and "tags_below n lhs" and "tags_below n rhs" and "tags_below n dst" and "addressable dst"
    and "mr_shape (value_type lhs) = [rows, int K]" and "mr_shape (value_type rhs) = [int K, cols]"
    and "mr_shape (value_type dst) = [rows, cols]" and "16 \<le> K"
    and "0 \<le> i" and "i < rows" and "0 \<le> j" and "j < cols"
    and "\<forall>k<K. holds_int (read m lhs [i, int k]) (A k) \<and> holds_int (read m rhs [int k, j]) (B k)"
    and "(\<Sum>k<K. \<bar>A k * B k\<bar>) < 2048"
  shows "holds_int (read (run_ops C ops m) dst [i, j]) (\<Sum>k<K. A k * B k)"
proof -
  have "16 dvd int K"
    using assms(1) by (auto simp: MatmulLowering_def Let_def assms(6) tileK_def split: if_splits)
  then obtain q where q: "K = 16 * q" by (metis dvdE of_nat_dvd_iff of_nat_numeral)
  with assms(9) obtain t where t: "K = 16 * Suc t" by (cases q) auto
  have run: "read (run_ops C ops m) dst [i, j]
      = tiled_dot C (cell_pairs m lhs rhs i j) (nat (int K div 16) - 1)"
    by (rule MatmulLowering_run(1) [OF assms(1-8) _ assms(10-13)]) (use assms(9) in simp)
  have n: "nat (int K div 16) - 1 = t" by (simp add: t)
  have "holds_int (tiled_dot C (cell_pairs m lhs rhs i j) t) (\<Sum>k<16 * Suc t. A k * B k)"
    by (rule tiled_dot_int) (use assms(14,15) in \<open>auto simp: t cell_pairs_def\<close>)
  then have "holds_int (tiled_dot C (cell_pairs m lhs rhs i j) t) (\<Sum>k<K. A k * B k)" by (simp only: t)
  then show ?thesis unfolding run n .
qed

end

text \<open>
  C10. The lowering of linalg.matmul, run on fp16 tensors that hold integers, leaves in the
  destination the exact integer product, tiles of 16 of the inner dimension accumulated, when the
  absolute products of a cell add up to less than 2048.
\<close>

theorem MatmulLowering_exact_on_integers:
  assumes "MatmulLowering n lhs rhs dst = Inr ops"
    and "tags_below n lhs" and "tags_below n rhs" and "tags_below n dst" and "addressable dst"
    and "mr_shape (value_type lhs) = [rows, int K]" and "mr_shape (value_type rhs) = [int K, cols]"
    and "mr_shape (value_type dst) = [rows, cols]" and "16 \<le> K"
    and "0 \<le> i" and "i < rows" and "0 \<le> j" and "j < cols"
    and "\<forall>k<K. holds_int (read m lhs [i, int k]) (A k) \<and> holds_int (read m rhs [int k, j]) (B k)"
    and "(\<Sum>k<K. \<bar>A k * B k\<bar>) < 2048"
  shows "holds_int (read (run_ops (fp16_chip P E) ops m) dst [i, j]) (\<Sum>k<K. A k * B k)"
  by (rule fp16_int.matmul_lowered_int [OF assms])


section \<open>Samples\<close>

definition sample_arg :: "nat \<Rightarrow> int list \<Rightarrow> ir_value" where
  "sample_arg i shape = BlockArg i (packed_memref shape f16)"

definition sample_map :: "affine_expr list \<Rightarrow> affine_map" where
  "sample_map es = \<lparr>am_dims = 2, am_syms = 0, am_results = es\<rparr>"

definition sample_env :: fp16_env where
  "sample_env = \<lparr>fe_const = (\<lambda>c. if c = 0 then 0 else 0x3C00), fe_other = (\<lambda>i a b. a), fe_index = ucast\<rparr>"

definition ones :: "u16 tensors" where
  "ones v js = 0x3C00"

abbreviation sample_chip :: "u16 chip" where
  "sample_chip \<equiv> fp16_chip sample_platform sample_env"

text \<open>\<open>out[r, c] = small[0, c mod 2] + big[r, c]\<close>.\<close>

definition sample_broadcast :: generic_op where
  "sample_broadcast = \<lparr>g_inputs = [MemOperand (sample_arg 0 [2, 4]), MemOperand (sample_arg 1 [1, 2])],
     g_outputs = [MemOperand (sample_arg 2 [2, 4])], g_iterators = [IterParallel, IterParallel],
     g_maps = [sample_map [AffineDim 0, AffineDim 1],
       sample_map [AffineConst 0, AffineMod (AffineDim 1) (AffineConst 2)], sample_map [AffineDim 0, AffineDim 1]],
     g_yield = [BodyOp True AddF [BodyArg 1, BodyArg 0]]\<rparr>"

lemmas sample_simps = sample_arg_def sample_map_def packed_memref_def in_shape_def

theorem EwiseBroadcastLowering_correct_witness:
  "\<exists>ops. EwiseBroadcastLowering 3 sample_broadcast = Some ops \<and>
     generic_value sample_chip (\<lambda>i. 0) ones sample_broadcast [1, 3]
       = Some (read (run_ops sample_chip ops ones) (sample_arg 2 [2, 4]) [1, 3])"
proof -
  have "EwiseBroadcastLowering 3 sample_broadcast
      = Some (emitEwiseSequence 3 (sample_arg 0 [2, 4]) (sample_arg 1 [1, 2]) (sample_arg 2 [2, 4]) BinAdd)"
    by (simp add: EwiseBroadcastLowering_def match_broadcast_def sample_broadcast_def body_compute_def binOpOf_def argIndex_def
        operand_memref_def broadcast_checks_def has_static_shape_def kDynamic_def isIdentityMap_def rhsMapMatches_def isConstZero_def
        matchModD1_def sample_simps)
  then show ?thesis
    using EwiseBroadcastLowering_correct [where n = 3 and g = sample_broadcast and P = sample_platform and E = sample_env and m = ones
        and outer = "\<lambda>i. 0" and ?v0.0 = "sample_arg 0 [2, 4]" and ?v1.0 = "sample_arg 1 [1, 2]" and out = "sample_arg 2 [2, 4]"]
    by (simp add: sample_broadcast_def sample_simps)
qed

definition sample_unary :: "affine_expr list \<Rightarrow> body_val \<Rightarrow> generic_op" where
  "sample_unary es y = \<lparr>g_inputs = [MemOperand (sample_arg 0 [2, 2])], g_outputs = [MemOperand (sample_arg 1 [2, 2])],
     g_iterators = [IterParallel, IterParallel], g_maps = [sample_map es, sample_map [AffineDim 0, AffineDim 1]], g_yield = [y]\<rparr>"

definition sample_relu :: body_val where
  "sample_relu = BodyOp True MaximumF [BodyArg 0, BodyConst 0]"

lemma sample_relu_lowered:
  "ActLowering 2 (sample_unary es sample_relu) = Some (lowerAct 2 (sample_arg 0 [2, 2]) (sample_arg 1 [2, 2]) RELU)"
  by (simp add: ActLowering_def sample_unary_def matchActBody_def sample_relu_def is_zero_const_def)

theorem ActLowering_correct_witness:
  "\<exists>ops v. ActLowering 2 (sample_unary [AffineDim 0, AffineDim 1] sample_relu) = Some ops \<and>
     generic_value sample_chip (\<lambda>i. 0) ones (sample_unary [AffineDim 0, AffineDim 1] sample_relu) [1, 0] = Some v \<and>
     read (run_ops sample_chip ops ones) (sample_arg 1 [2, 2]) [1, 0] = v"
proof -
  have "\<not> nan16 (read ones v js)" for v js by (simp add: read_def ones_def nan16_def rest16_def)
  then show ?thesis
    using ActLowering_correct [OF sample_relu_lowered [of "[AffineDim 0, AffineDim 1]"], where x = "sample_arg 0 [2, 2]" and out = "sample_arg 1 [2, 2]"
        and P = sample_platform and E = sample_env and m = ones and outer = "\<lambda>i. 0"] sample_relu_lowered [of "[AffineDim 0, AffineDim 1]"]
    by (auto simp: sample_unary_def isIdentityMap_def sample_env_def sample_simps eval_map_def dest!: spec [of _ "[1, 0]"])
qed

definition one_corner :: "u16 tensors" where
  "one_corner v js = (if js = [0, 1] then 0x3C00 else 0)"

text \<open>
  The pattern does not look at the indexing maps: a generic operation that transposes its input is
  rewritten as if it did not.
\<close>

theorem ActLowering_ignores_maps:
  "\<exists>ops. ActLowering 2 (sample_unary [AffineDim 1, AffineDim 0] sample_relu) = Some ops \<and>
     generic_value sample_chip (\<lambda>i. 0) one_corner (sample_unary [AffineDim 1, AffineDim 0] sample_relu) [1, 0] = Some 0x3C00 \<and>
     read (run_ops sample_chip ops one_corner) (sample_arg 1 [2, 2]) [1, 0] = 0"
proof -
  have relu: "ch_act sample_chip RELU 0x3C00 = 0x3C00" "ch_act sample_chip RELU 0 = 0"
    by (simp_all add: fp16_chip_def round16_def relu_fp16 canon16_def nan16_def rest16_def sgn16_def)
  have lowered: "read (run_ops sample_chip (lowerAct 2 (sample_arg 0 [2, 2]) (sample_arg 1 [2, 2]) RELU) one_corner) (sample_arg 1 [2, 2]) [1, 0]
      = ch_act sample_chip RELU (read one_corner (sample_arg 0 [2, 2]) [1, 0])"
    by (rule lowerAct_run) (simp_all add: sample_simps)
  have "ch_arith sample_chip MaximumF 0x3C00 0 = 0x3C00"
    by (subst fp16_relu(1)) (simp_all add: relu nan16_def rest16_def)
  moreover have "ch_const sample_chip 0 = 0" by (simp add: fp16_chip_def sample_env_def)
  ultimately have "generic_value sample_chip (\<lambda>i. 0) one_corner (sample_unary [AffineDim 1, AffineDim 0] sample_relu) [1, 0] = Some 0x3C00"
    by (simp add: generic_value_def sample_unary_def sample_relu_def eval_map_def sample_map_def read_def sample_arg_def one_corner_def)
  moreover have "read (run_ops sample_chip (lowerAct 2 (sample_arg 0 [2, 2]) (sample_arg 1 [2, 2]) RELU) one_corner) (sample_arg 1 [2, 2]) [1, 0] = 0"
    unfolding lowered by (simp add: relu read_def sample_arg_def one_corner_def)
  ultimately show ?thesis using sample_relu_lowered by blast
qed

text \<open>\<open>out[r, 0] = max(in[r, c], out[r, 0])\<close>.\<close>

definition sample_rowmax :: generic_op where
  "sample_rowmax = \<lparr>g_inputs = [MemOperand (sample_arg 0 [2, 2])], g_outputs = [MemOperand (sample_arg 1 [2, 1])],
     g_iterators = [IterParallel, IterReduction],
     g_maps = [sample_map [AffineDim 0, AffineDim 1], sample_map [AffineDim 0, AffineConst 0]],
     g_yield = [BodyOp True MaximumF [BodyArg 0, BodyArg 1]]\<rparr>"

theorem GenericReduceLowering_correct_witness:
  "\<exists>ops kind. GenericReduceLowering 2 sample_rowmax = Some ops \<and>
     read (run_ops sample_chip ops ones) (sample_arg 1 [2, 1]) [1, 0]
       = ch_reduce sample_chip kind (row_values ones (sample_arg 0 [2, 2]) 1)"
proof -
  have "GenericReduceLowering 2 sample_rowmax = Some (lowerReduce 2 (sample_arg 0 [2, 2]) (sample_arg 1 [2, 1]) REDUCE_MAX)"
    by (simp add: GenericReduceLowering_def sample_rowmax_def matchReduceBody_def isConstZero_def sample_map_def)
  then show ?thesis
    using GenericReduceLowering_correct [where n = 2 and g = sample_rowmax and P = sample_platform and E = sample_env and m = ones
        and x = "sample_arg 0 [2, 2]" and out = "sample_arg 1 [2, 1]" and rows = 2 and cols = 2]
    by (fastforce simp: sample_rowmax_def sample_arg_def packed_memref_def)
qed

lemma sample_matmul_lowered:
  "\<exists>ops. MatmulLowering 3 (sample_arg 0 [1, 32]) (sample_arg 1 [32, 1]) (sample_arg 2 [1, 1]) = Inr ops"
  by (simp add: MatmulLowering_def Let_def tileK_def sample_arg_def packed_memref_def)

theorem MatmulLowering_correct_witness:
  "\<exists>ops. MatmulLowering 3 (sample_arg 0 [1, 32]) (sample_arg 1 [32, 1]) (sample_arg 2 [1, 1]) = Inr ops \<and>
     read (run_ops sample_chip ops ones) (sample_arg 2 [1, 1]) [0, 0]
       = tiled_dot sample_chip (cell_pairs ones (sample_arg 0 [1, 32]) (sample_arg 1 [32, 1]) 0 0) 1"
proof -
  obtain ops where ops: "MatmulLowering 3 (sample_arg 0 [1, 32]) (sample_arg 1 [32, 1]) (sample_arg 2 [1, 1]) = Inr ops"
    using sample_matmul_lowered by blast
  show ?thesis
    using MatmulLowering_correct [OF ops, where K = 32 and rows = 1 and cols = 1 and C = sample_chip and m = ones] ops
    by (auto simp: sample_arg_def packed_memref_def)
qed

text \<open>A row of 32 ones times a column of 32 ones.\<close>

theorem MatmulLowering_exact_on_integers_witness:
  "\<exists>ops. MatmulLowering 3 (sample_arg 0 [1, 32]) (sample_arg 1 [32, 1]) (sample_arg 2 [1, 1]) = Inr ops \<and>
     holds_int (read (run_ops sample_chip ops ones) (sample_arg 2 [1, 1]) [0, 0]) 32"
proof -
  obtain ops where ops: "MatmulLowering 3 (sample_arg 0 [1, 32]) (sample_arg 1 [32, 1]) (sample_arg 2 [1, 1]) = Inr ops"
    using sample_matmul_lowered by blast
  have one: "holds_int 0x3C00 1"
    by (simp add: holds_int_def finite16_def val16_def rest16_def sgn16_def mag_def)
  show ?thesis
    using MatmulLowering_exact_on_integers [OF ops, where K = 32 and rows = 1 and cols = 1 and i = 0 and j = 0
        and P = sample_platform and E = sample_env and m = ones and A = "\<lambda>k. 1" and B = "\<lambda>k. 1"] ops one
    by (auto simp: sample_arg_def packed_memref_def read_def ones_def)
qed

lemma MatmulLowering_rejects:
  "mr_shape (value_type lhs) = [rows, K] \<Longrightarrow> \<not> 16 dvd K \<Longrightarrow>
   MatmulLowering n lhs rhs dst = Inl (Unreachable ''Currently only supports cases with exact division.'')"
  by (simp add: MatmulLowering_def Let_def tileK_def)

end
