(* ===== verification/LoweringTypes.thy ===== *)
theory LoweringTypes
  imports Lowering
begin

text \<open>
  When the operations that the patterns of ConvertLinalgToEclipse build are well typed, that is meet
  the operand constraints of EclipseOps.td and pass the verifiers of \<open>Dialect\<close>: always, but for a
  generic operation with one input, whose shapes the patterns do not look at.
\<close>

section \<open>Well-typed operations\<close>

text \<open>The operand constraints of EclipseOps.td: rank 2, the element type, the memory space.\<close>

definition Eclipse_SRAMMemRef :: "memref \<Rightarrow> bool" where
  "Eclipse_SRAMMemRef t \<longleftrightarrow> length (mr_shape t) = 2 \<and> mr_elem t = f16 \<and> mr_space t = 0"

definition Eclipse_DDRMemRef :: "memref \<Rightarrow> bool" where
  "Eclipse_DDRMemRef t \<longleftrightarrow> length (mr_shape t) = 2 \<and> mr_elem t = f16 \<and> mr_space t = 1"

definition Eclipse_SRAMIndexMemRef :: "memref \<Rightarrow> bool" where
  "Eclipse_SRAMIndexMemRef t \<longleftrightarrow> length (mr_shape t) = 2
     \<and> mr_elem t = \<lparr>elt_name = ''i32'', elt_bits = 32\<rparr> \<and> mr_space t = 0"

definition mlir_ty :: "ir_value \<Rightarrow> ty" where
  "mlir_ty v = MemRef (value_type v)"

text \<open>What MLIR checks of an operation: its operand constraints, then its verifier.\<close>

primrec verified :: "operation \<Rightarrow> bool" where
  "verified (Define v) = True"
| "verified (DmaLoadOp s d) =
     (Eclipse_DDRMemRef (value_type s) \<and> Eclipse_SRAMMemRef (value_type d)
      \<and> verifyDmaLoad (mlir_ty s) (mlir_ty d) = Inr ())"
| "verified (DmaStoreOp s d) =
     (Eclipse_SRAMMemRef (value_type s) \<and> Eclipse_DDRMemRef (value_type d)
      \<and> verifyDmaStore (mlir_ty s) (mlir_ty d) = Inr ())"
| "verified SyncOp = (verifySync = Inr ())"
| "verified (MatmulOp l r d acc ta tb) =
     (Eclipse_SRAMMemRef (value_type l) \<and> Eclipse_SRAMMemRef (value_type r) \<and> Eclipse_SRAMMemRef (value_type d)
      \<and> verifyMatmul (mlir_ty l) (mlir_ty r) (mlir_ty d) ta tb = Inr ())"
| "verified (EwiseOp b l r d) =
     (Eclipse_SRAMMemRef (value_type l) \<and> Eclipse_SRAMMemRef (value_type r) \<and> Eclipse_SRAMMemRef (value_type d)
      \<and> verifyEwiseShapes (mlir_ty l) (mlir_ty r) (mlir_ty d) = Inr ())"
| "verified (ActOp s d kind) =
     (Eclipse_SRAMMemRef (value_type s) \<and> Eclipse_SRAMMemRef (value_type d)
      \<and> verifyAct (mlir_ty s) (mlir_ty d) = Inr ())"
| "verified (ReduceOp s d idx kind) =
     (Eclipse_SRAMMemRef (value_type s) \<and> Eclipse_SRAMMemRef (value_type d)
      \<and> pred_option (\<lambda>i. Eclipse_SRAMIndexMemRef (value_type i)) idx
      \<and> verifyReduce mlir_ty s d idx kind = Inr ())"
| "verified (DeallocOp v) = True"
| "verified (ForOp lb ub st body) = (\<forall>iv \<in> {lb..<ub}. list_all id (map verified (body iv)))"
| "verified (OtherOp vs) = True"

section \<open>Well-typed linalg operations\<close>

text \<open>A rank-2 fp16 memref without empty or dynamic dimensions, in whatever memory space.\<close>

definition fp16_matrix :: "ir_value \<Rightarrow> bool" where
  "fp16_matrix v \<longleftrightarrow> length (mr_shape (value_type v)) = 2 \<and> mr_elem (value_type v) = f16
     \<and> list_all (\<lambda>d. 0 < d) (mr_shape (value_type v))"

definition fp16_vector :: "ir_value \<Rightarrow> bool" where
  "fp16_vector v \<longleftrightarrow> length (mr_shape (value_type v)) = 1 \<and> mr_elem (value_type v) = f16
     \<and> list_all (\<lambda>d. 0 < d) (mr_shape (value_type v))"

abbreviation shape_of :: "ir_value \<Rightarrow> int list" where
  "shape_of v \<equiv> mr_shape (value_type v)"

definition operand_matrix :: "operand \<Rightarrow> bool" where
  "operand_matrix v = pred_option fp16_matrix (operand_memref v)"

text \<open>
  The operands of a linalg operation.  The named operations relate the shapes of their operands; a
  generic operation relates them through its indexing maps only, which the patterns for one input do
  not look at: its operands are matrices here, of any shapes.
\<close>

definition generic_typed :: "generic_op \<Rightarrow> bool" where
  "generic_typed g \<longleftrightarrow> list_all operand_matrix (g_inputs g) \<and> list_all operand_matrix (g_outputs g)"

text \<open>
  What the operations built for a generic operation with one input need: an activation the shape of
  its input, a reduction one column, with a row for each row of the input.
\<close>

definition unary_shapes :: "generic_op \<Rightarrow> bool" where
  "unary_shapes g \<longleftrightarrow> (case (g_inputs g, g_outputs g) of
     ([MemOperand i], [MemOperand r]) \<Rightarrow>
        shape_of r = (if matchActBody g = None then [dim (value_type i) 0, 1] else shape_of i)
   | _ \<Rightarrow> True)"

primrec linalg_typed :: "linalg_op \<Rightarrow> bool" where
  "linalg_typed (LinalgBinary b in0 in1 r) =
     (fp16_matrix in0 \<and> fp16_matrix in1 \<and> fp16_matrix r \<and> shape_of in0 = shape_of r \<and> shape_of in1 = shape_of r)"
| "linalg_typed (LinalgExp in0 r) = (fp16_matrix in0 \<and> fp16_matrix r \<and> shape_of in0 = shape_of r)"
| "linalg_typed (LinalgRsqrt in0 r) = (fp16_matrix in0 \<and> fp16_matrix r \<and> shape_of in0 = shape_of r)"
| "linalg_typed (LinalgMatmul l r d) =
     (fp16_matrix l \<and> fp16_matrix r \<and> fp16_matrix d \<and> dim (value_type l) 1 = dim (value_type r) 0
      \<and> shape_of d = [dim (value_type l) 0, dim (value_type r) 1])"
| "linalg_typed (LinalgGeneric g) = generic_typed g"
| "linalg_typed (LinalgReduce ins inits dims y) =
     (list_all operand_matrix ins \<and> list_all (\<lambda>v. pred_option fp16_vector (operand_memref v)) inits)"
| "linalg_typed (LinalgOther i) = True"

section \<open>The patterns build well-typed operations\<close>

named_theorems typing

lemma two_dims: "length (mr_shape t) = 2 \<longleftrightarrow> mr_shape t = [dim t 0, dim t 1]"
  by (cases "mr_shape t"; cases "tl (mr_shape t)") auto

lemma fp16_matrixD:
  assumes "fp16_matrix v"
  shows "length (shape_of v) = 2" "mr_elem (value_type v) = f16" "0 < dim (value_type v) 0" "0 < dim (value_type v) 1"
    "has_static_shape (value_type v)"
  using assms by (fastforce simp: fp16_matrix_def list_all_iff has_static_shape_def kDynamic_def)+

lemma toDDR_type [typing]:
  "value_type (toDDR n v) = (value_type v)\<lparr>mr_space := 1\<rparr>"
  by (simp add: toDDR_def DDR_MEMORY_SPACE_def)

lemma new_alloc_type [typing]: "value_type (new_alloc n t) = t"
  by (simp add: new_alloc_def)

lemma sramTypeOf_fields [typing]:
  "mr_shape (sramTypeOf v) = shape_of v" "mr_elem (sramTypeOf v) = mr_elem (value_type v)"
  "mr_layout (sramTypeOf v) = IdentityLayout" "mr_space (sramTypeOf v) = 0"
  by (simp_all add: sramTypeOf_def packed_memref_def SRAM_MEMORY_SPACE_def)

lemma packed_memref_fields [typing]:
  "mr_shape (packed_memref s e) = s" "mr_elem (packed_memref s e) = e"
  "mr_layout (packed_memref s e) = IdentityLayout" "mr_space (packed_memref s e) = 0"
  by (simp_all add: packed_memref_def SRAM_MEMORY_SPACE_def)

lemma subview2_fields [typing]:
  "mr_shape (value_type (subview2 n v offs sizes)) = sizes"
  "mr_elem (value_type (subview2 n v offs sizes)) = mr_elem (value_type v)"
  "mr_space (value_type (subview2 n v offs sizes)) = mr_space (value_type v)"
  by (simp_all add: subview2_def Let_def)

lemma verified_load:
  assumes "length (shape_of s) = 2" and "mr_elem (value_type s) = f16" and "mr_space (value_type s) = 1"
    and "shape_of d = shape_of s" and "mr_elem (value_type d) = f16" and "mr_space (value_type d) = 0"
    and "mr_layout (value_type d) = IdentityLayout"
  shows "verified (DmaLoadOp s d)"
  using assms by (simp add: Eclipse_DDRMemRef_def Eclipse_SRAMMemRef_def verifyDmaLoad_def memref_of_def mlir_ty_def
      verify_that_def isPacked_def DDR_MEMORY_SPACE_def SRAM_MEMORY_SPACE_def)

lemma verified_store:
  assumes "length (shape_of d) = 2" and "mr_elem (value_type d) = f16" and "mr_space (value_type d) = 1"
    and "shape_of s = shape_of d" and "mr_elem (value_type s) = f16" and "mr_space (value_type s) = 0"
    and "mr_layout (value_type s) = IdentityLayout"
  shows "verified (DmaStoreOp s d)"
  using assms by (simp add: Eclipse_DDRMemRef_def Eclipse_SRAMMemRef_def verifyDmaStore_def memref_of_def mlir_ty_def
      verify_that_def isPacked_def)

lemma ewise_sequence_verified:
  assumes "fp16_matrix big" and "fp16_matrix small" and "fp16_matrix r" and "shape_of big = shape_of r"
    and "dim (value_type small) 0 = 1 \<or> dim (value_type small) 0 = dim (value_type r) 0"
    and "dim (value_type small) 1 dvd dim (value_type r) 1"
  shows "list_all verified (emitEwiseSequence n big small r b)"
proof -
  note t = fp16_matrixD [OF assms(1)] fp16_matrixD [OF assms(2)] fp16_matrixD [OF assms(3)]
  show ?thesis
    using t assms(4-6)
    by (simp add: emitEwiseSequence_def Let_def verified_load verified_store typing del: verified.simps(2,3))
       (simp add: Eclipse_SRAMMemRef_def verifySync_def verifyEwiseShapes_def memref_of_def mlir_ty_def verify_that_def typing)
qed

lemma act_verified:
  assumes "fp16_matrix src" and "fp16_matrix dst"
  shows "list_all verified (lowerAct n src dst kind) \<longleftrightarrow> shape_of src = shape_of dst"
proof (cases "shape_of src = shape_of dst")
  case True
  then show ?thesis
    using fp16_matrixD [OF assms(1)] fp16_matrixD [OF assms(2)]
    by (simp add: lowerAct_def Let_def verified_load verified_store typing del: verified.simps(2,3))
       (simp add: Eclipse_SRAMMemRef_def verifySync_def verifyAct_def memref_of_def mlir_ty_def verify_that_def typing)
next
  case False
  then show ?thesis
    by (simp add: lowerAct_def Let_def verifyDmaLoad_def memref_of_def mlir_ty_def verify_that_def typing rbind_eq_Inr)
qed

lemma reduce_verified:
  assumes "fp16_matrix src" and "fp16_matrix dst" and "kind \<noteq> REDUCE_ARGMAX"
  shows "list_all verified (lowerReduce n src dst kind) \<longleftrightarrow> shape_of dst = [dim (value_type src) 0, 1]"
proof -
  have col: "shape_of dst = [dim (value_type src) 0, 1] \<longleftrightarrow> dim (value_type dst) 0 = dim (value_type src) 0 \<and> dim (value_type dst) 1 = 1"
    using fp16_matrixD(1) [OF assms(2)] by (cases "shape_of dst"; cases "tl (shape_of dst)") auto
  show ?thesis
    unfolding col using fp16_matrixD [OF assms(1)] fp16_matrixD [OF assms(2)] assms(3)
    by (simp add: lowerReduce_def Let_def verified_load verified_store typing del: verified.simps(2,3))
       (auto simp: Eclipse_SRAMMemRef_def verifySync_def verifyReduce_def memref_of_def mlir_ty_def verify_that_def typing
         has_static_shape_def new_alloc_def)
qed

lemma matmul_verified:
  assumes "fp16_matrix l" and "fp16_matrix r" and "fp16_matrix d" and "shape_of d = [dim (value_type l) 0, dim (value_type r) 1]"
    and "MatmulLowering n l r d = Inr ops"
  shows "list_all verified ops"
proof -
  note t = fp16_matrixD [OF assms(1)] fp16_matrixD [OF assms(2)] fp16_matrixD [OF assms(3)]
  let ?ls = "new_alloc (n + 3) (packed_memref [dim (value_type l) 0, tileK] (mr_elem (value_type l)))"
  let ?rs = "new_alloc (n + 4) (packed_memref [tileK, dim (value_type r) 1] (mr_elem (value_type r)))"
  let ?ds = "new_alloc (n + 5) (packed_memref [dim (value_type l) 0, dim (value_type r) 1] (mr_elem (value_type d)))"
  have tile: "list_all verified (matmul_tile j (dim (value_type l) 0) (dim (value_type r) 1) (toDDR n l) (toDDR (n + 1) r) ?ls ?rs ?ds acc ik)" for j acc ik
    using t by (simp add: matmul_tile_def Let_def verified_load typing del: verified.simps(2,3))
       (simp add: Eclipse_SRAMMemRef_def verifySync_def verifyMatmul_def matmul_dims_def memref_of_def mlir_ty_def verify_that_def typing)
  have store: "verified (DmaStoreOp ?ds (toDDR (n + 2) d))"
    using t assms(4) by (intro verified_store) (simp_all add: typing)
  from assms(5) show ?thesis
    using tile store by (auto simp: MatmulLowering_def Let_def list_all_iff simp del: verified.simps(2,3) split: if_splits)
qed

lemma broadcast_verified:
  assumes "match_broadcast g = Some (big, small, r, b)" and "generic_typed g"
  shows "list_all verified (emitEwiseSequence n big small r b)"
proof (rule ewise_sequence_verified)
  show "fp16_matrix big" "fp16_matrix small" "fp16_matrix r"
    using assms by (auto simp: match_broadcast_def generic_typed_def operand_matrix_def
        split: list.splits option.splits prod.splits if_splits)
  show "shape_of big = shape_of r" "dim (value_type small) 0 = 1 \<or> dim (value_type small) 0 = dim (value_type r) 0"
    "dim (value_type small) 1 dvd dim (value_type r) 1"
    using assms(1) by (auto simp: match_broadcast_def broadcast_checks_def Let_def
        split: list.splits option.splits prod.splits if_splits)
qed

lemma reduce_body_kind: "matchReduceBody y i r = Some kind \<Longrightarrow> kind \<noteq> REDUCE_ARGMAX"
  by (auto simp: matchReduceBody_def Let_def split: body_val.splits list.splits if_splits)

lemma reduce_not_act:
  assumes "g_yield g = y # ys" and "matchReduceBody y (BodyArg 0) (BodyArg 1) = Some kind"
  shows "matchActBody g = None"
  using assms by (auto simp: matchActBody_def matchReduceBody_def is_zero_const_def
      split: list.splits body_val.splits if_splits)

lemma generic_verified:
  assumes "lower_generic n g = Some ops" and "generic_typed g"
  shows "list_all verified ops \<longleftrightarrow> unary_shapes g"
proof -
  from assms(1) consider (ewise) "EwiseBroadcastLowering n g = Some ops" | (act) "ActLowering n g = Some ops"
    | (red) "GenericReduceLowering n g = Some ops"
    by (auto simp: lower_generic_def split: option.splits)
  then show ?thesis
  proof cases
    case ewise
    then show ?thesis
      using broadcast_verified [OF _ assms(2)]
      by (auto simp: EwiseBroadcastLowering_def match_broadcast_def unary_shapes_def split: option.splits list.splits operand.splits)
  next
    case act
    then show ?thesis
      using assms(2) by (auto simp: ActLowering_def generic_typed_def unary_shapes_def operand_matrix_def operand_memref_def act_verified
          split: list.splits operand.splits option.splits)
  next
    case red
    then obtain i0 o0 y ys kind where g: "g_inputs g = [MemOperand i0]" "g_outputs g = [MemOperand o0]"
      "g_yield g = y # ys" "matchReduceBody y (BodyArg 0) (BodyArg 1) = Some kind" "ops = lowerReduce n i0 o0 kind"
      by (auto simp: GenericReduceLowering_def split: list.splits operand.splits option.splits if_splits)
    then show ?thesis
      using assms(2) reduce_not_act [OF g(3,4)] reduce_body_kind [OF g(4)]
      by (simp add: generic_typed_def unary_shapes_def operand_matrix_def operand_memref_def reduce_verified)
  qed
qed

lemma named_reduce_verified:
  assumes "NamedReduceLowering n ins inits dims y = Some ops" and "linalg_typed (LinalgReduce ins inits dims y)"
  shows "list_all verified ops"
proof -
  from assms(1) obtain i0 o0 src init where a: "ins = [i0]" "inits = [o0]" "operand_memref i0 = Some src" "operand_memref o0 = Some init"
    by (auto simp: NamedReduceLowering_def split: list.splits option.splits if_splits)
  define dst where "dst = ExpandRes n init \<lparr>mr_shape = [dim (value_type init) 0, 1], mr_elem = mr_elem (value_type init),
      mr_layout = IdentityLayout, mr_space = mr_space (value_type init)\<rparr>"
  from assms(1) a obtain kind where b: "matchReduceBody y (BodyArg 0) (BodyArg 1) = Some kind"
    "ops = Define dst # lowerReduce (n + 1) src dst kind" "dim (value_type init) 0 = dim (value_type src) 0"
    by (auto simp: NamedReduceLowering_def Let_def dst_def split: option.splits if_splits)
  from assms(2) a have "fp16_matrix src" "fp16_vector init" by (simp_all add: operand_matrix_def)
  then have "list_all verified (lowerReduce (n + 1) src dst kind)"
    using b(3) reduce_body_kind [OF b(1)]
    by (subst reduce_verified) (auto simp: dst_def fp16_matrix_def fp16_vector_def list_all_length less_Suc_eq)
  with b(2) show ?thesis by simp
qed

lemma lower_verified:
  assumes "lower_linalg n op = Inr (Some ops)" and "linalg_typed op"
  shows "list_all verified ops \<longleftrightarrow> (\<forall>g. op = LinalgGeneric g \<longrightarrow> unary_shapes g)"
proof (cases op)
  case (LinalgBinary b in0 in1 r)
  then show ?thesis
    using assms by (auto simp: EwiseLowering_def intro!: ewise_sequence_verified)
next
  case (LinalgExp in0 r)
  then show ?thesis using assms by (auto simp: NamedActLowering_def act_verified)
next
  case (LinalgRsqrt in0 r)
  then show ?thesis using assms by (auto simp: NamedActLowering_def act_verified)
next
  case (LinalgMatmul l r d)
  then have "MatmulLowering n l r d = Inr ops" using assms(1) by (auto simp: rbind_eq_Inr)
  then have "list_all verified ops" using assms(2) LinalgMatmul by (intro matmul_verified [of l r d n]) simp_all
  then show ?thesis using LinalgMatmul by simp
next
  case (LinalgGeneric g)
  then show ?thesis using assms generic_verified by simp
next
  case (LinalgReduce ins inits dims y)
  then show ?thesis using assms(1) named_reduce_verified [OF _ assms(2) [unfolded LinalgReduce]] by simp
next
  case (LinalgOther i)
  then show ?thesis using assms by simp
qed

text \<open>
  C14. When ConvertLinalgToEclipse rewrites a block of linalg operations on fp16 matrices (the
  named ones with the shapes that MLIR demands of them, a generic operation with operands of any
  shapes), every operation of the result satisfies the operand constraints of the dialect and
  passes its verifier if and only if in every generic operation with one input the output has the
  shape of the input, for an activation, or one column and a row for each row of the input, for a
  reduction. The patterns do not check this, and the indexing maps of a valid generic do not imply
  it: the witness has a module with all patterns that passes, and a rectifier with a transposing
  map, from 2 x 4 to 4 x 2, that is rewritten into operations that do not.
\<close>

theorem convert_linalg_well_typed:
  assumes "convert_linalg n prog = Inr (Some ops)"
    and "\<And>legal. Inl legal \<in> set prog \<Longrightarrow> verified legal"
    and "\<And>linalg. Inr linalg \<in> set prog \<Longrightarrow> linalg_typed linalg"
  shows "list_all verified ops \<longleftrightarrow> (\<forall>g. Inr (LinalgGeneric g) \<in> set prog \<longrightarrow> unary_shapes g)"
  using assms
proof (induction n prog arbitrary: ops rule: convert_linalg.induct)
  case (2 n legal prog)
  then show ?case by (auto simp: rbind_eq_Inr map_option_eq_Some)
next
  case (3 n linalg prog)
  from 3(2) obtain xs r where x: "lower_linalg n linalg = Inr (Some xs)" and r: "ops = xs @ r"
    "convert_linalg (n + new_values linalg) prog = Inr (Some r)"
    by (auto simp: rbind_eq_Inr split: option.splits)
  have "list_all verified r \<longleftrightarrow> (\<forall>g. Inr (LinalgGeneric g) \<in> set prog \<longrightarrow> unary_shapes g)"
    by (rule 3(1)) (use 3(3,4) x r in auto)
  moreover have "list_all verified xs \<longleftrightarrow> (\<forall>g. linalg = LinalgGeneric g \<longrightarrow> unary_shapes g)"
    by (rule lower_verified [OF x]) (use 3(4) in simp)
  ultimately show ?case using r(1) by auto
qed simp

text \<open>A module with one operation for each pattern, and a rectifier whose map transposes its input.\<close>

definition typed_arg :: "nat \<Rightarrow> int list \<Rightarrow> ir_value" where
  "typed_arg i shape = BlockArg i (packed_memref shape f16)"

definition typed_relu :: "affine_expr list \<Rightarrow> ir_value \<Rightarrow> ir_value \<Rightarrow> generic_op" where
  "typed_relu es i r = \<lparr>g_inputs = [MemOperand i], g_outputs = [MemOperand r], g_iterators = [IterParallel, IterParallel],
     g_maps = [\<lparr>am_dims = 2, am_syms = 0, am_results = es\<rparr>, \<lparr>am_dims = 2, am_syms = 0, am_results = [AffineDim 0, AffineDim 1]\<rparr>],
     g_yield = [BodyOp True MaximumF [BodyArg 0, BodyConst 0]]\<rparr>"

definition typed_module :: "(operation + linalg_op) list" where
  "typed_module =
     [Inr (LinalgMatmul (typed_arg 0 [2, 32]) (typed_arg 1 [32, 4]) (typed_arg 2 [2, 4])), Inl SyncOp,
      Inr (LinalgBinary BinDiv (typed_arg 2 [2, 4]) (typed_arg 3 [2, 4]) (typed_arg 4 [2, 4])),
      Inr (LinalgExp (typed_arg 4 [2, 4]) (typed_arg 5 [2, 4])),
      Inr (LinalgGeneric (typed_relu [AffineDim 0, AffineDim 1] (typed_arg 5 [2, 4]) (typed_arg 6 [2, 4]))),
      Inr (LinalgReduce [MemOperand (typed_arg 6 [2, 4])] [MemOperand (typed_arg 7 [2])] [1]
         (BodyOp True AddF [BodyArg 0, BodyArg 1]))]"

definition transposing_module :: "(operation + linalg_op) list" where
  "transposing_module = [Inr (LinalgGeneric (typed_relu [AffineDim 1, AffineDim 0] (typed_arg 0 [2, 4]) (typed_arg 1 [4, 2])))]"

theorem convert_linalg_well_typed_witness:
  "(\<exists>ops. convert_linalg 8 typed_module = Inr (Some ops) \<and> length ops > 60 \<and> list_all verified ops)
    \<and> (\<exists>ops. convert_linalg 2 transposing_module = Inr (Some ops) \<and> \<not> list_all verified ops)"
proof
  obtain ops where ops: "convert_linalg 8 typed_module = Inr (Some ops)" "length ops > 60"
    by (simp add: typed_module_def typed_relu_def typed_arg_def MatmulLowering_def matmul_tile_def tileK_def EwiseLowering_def
        emitEwiseSequence_def NamedActLowering_def lowerAct_def lower_generic_def EwiseBroadcastLowering_def
        match_broadcast_def ActLowering_def matchActBody_def is_zero_const_def NamedReduceLowering_def
        operand_memref_def matchReduceBody_def lowerReduce_def packed_memref_def has_static_shape_def kDynamic_def Let_def)
  moreover have "list_all verified ops"
    by (subst convert_linalg_well_typed [OF ops(1)])
       (auto simp: typed_module_def typed_relu_def typed_arg_def verifySync_def fp16_matrix_def fp16_vector_def generic_typed_def
         unary_shapes_def operand_matrix_def operand_memref_def matchActBody_def is_zero_const_def packed_memref_def)
  ultimately show "\<exists>ops. convert_linalg 8 typed_module = Inr (Some ops) \<and> length ops > 60 \<and> list_all verified ops" by blast
next
  obtain ops where ops: "convert_linalg 2 transposing_module = Inr (Some ops)"
    by (simp add: transposing_module_def typed_relu_def lower_generic_def EwiseBroadcastLowering_def match_broadcast_def
        ActLowering_def matchActBody_def is_zero_const_def)
  moreover have "\<not> list_all verified ops"
    by (subst convert_linalg_well_typed [OF ops])
       (auto simp: transposing_module_def typed_relu_def typed_arg_def fp16_matrix_def generic_typed_def
         unary_shapes_def operand_matrix_def operand_memref_def matchActBody_def is_zero_const_def packed_memref_def)
  ultimately show "\<exists>ops. convert_linalg 2 transposing_module = Inr (Some ops) \<and> \<not> list_all verified ops" by blast
qed

end
