(* ===== verification/Kernel.thy ===== *)
theory Kernel
  imports Module LoweringCorrect LoweringTypes
begin

text \<open>
  A whole program from linalg to the output file: a function that multiplies its two arguments with
  linalg.matmul.  The pieces are the lowering pattern, the allocation pass, the emitter with its
  loop unrolling, and eclipse-run.
\<close>

section \<open>Unrolling\<close>

text \<open>What \<open>loopUnrollFull\<close> leaves of a loop with constant bounds: its bodies one after the other.\<close>

primrec unroll_op :: "operation \<Rightarrow> operation list" where
  "unroll_op (Define v) = [Define v]"
| "unroll_op (DmaLoadOp s d) = [DmaLoadOp s d]"
| "unroll_op (DmaStoreOp s d) = [DmaStoreOp s d]"
| "unroll_op SyncOp = [SyncOp]"
| "unroll_op (MatmulOp l r d acc ta tb) = [MatmulOp l r d acc ta tb]"
| "unroll_op (EwiseOp b l r d) = [EwiseOp b l r d]"
| "unroll_op (ActOp s d k) = [ActOp s d k]"
| "unroll_op (ReduceOp s d i k) = [ReduceOp s d i k]"
| "unroll_op (DeallocOp v) = [DeallocOp v]"
| "unroll_op (ForOp lb ub st body) = concat (map (concat \<circ> (map unroll_op \<circ> body)) (for_range lb ub st))"
| "unroll_op (OtherOp vs) = [OtherOp vs]"

definition unrolled :: "operation list \<Rightarrow> operation list" where
  "unrolled ops = concat (map unroll_op ops)"

lemma unrolled_simps [simp]:
  "unrolled [] = []" "unrolled (op # ops) = unroll_op op @ unrolled ops" "unrolled (ops @ ops') = unrolled ops @ unrolled ops'"
  by (simp_all add: unrolled_def)

lemma run_concat: "run_ops C (concat xss) = fold (run_ops C) xss"
  by (induction xss) (simp_all add: fun_eq_iff)

lemma run_unroll_op: "run_ops C (unroll_op op) = step_op C op"
proof (induction op)
  case (ForOp lb ub st body)
  have all: "\<forall>op \<in> set ops. run_ops C (unroll_op op) = step_op C op \<Longrightarrow> run_ops C (concat (map unroll_op ops)) m = run_ops C ops m" for ops m
    by (induction ops arbitrary: m) simp_all
  have "run_ops C (concat (map unroll_op (body iv))) = run_ops C (body iv)" for iv
    using all ForOp by (meson ext rangeI)
  moreover have "step_op C (ForOp lb ub st body) = fold (\<lambda>iv. run_ops C (body iv)) (for_range lb ub st)"
    by (rule ext) (rule step_for)
  moreover have "run_ops C (unroll_op (ForOp lb ub st body)) = fold (\<lambda>iv. run_ops C (concat (map unroll_op (body iv)))) (for_range lb ub st)"
    by (simp only: unroll_op.simps run_concat fold_map) (simp add: comp_def run_concat fold_map)
  ultimately show ?case by simp
qed (simp_all add: fun_eq_iff)

text \<open>Unrolling keeps the meaning, and commutes with the replacement of values.\<close>

lemma run_unrolled: "run_ops C (unrolled ops) = run_ops C ops"
  by (induction ops) (simp_all add: run_unroll_op fun_eq_iff)

lemma unroll_map_values: "unroll_op (map_values f op) = map (map_values f) (unroll_op op)"
proof (induction op)
  case (ForOp lb ub st body)
  then have "concat (map (\<lambda>x. unroll_op (map_values f x)) (body iv)) = concat (map (\<lambda>x. map (map_values f) (unroll_op x)) (body iv))" for iv
    by (intro arg_cong [where f = concat] map_cong refl) (metis rangeI)
  then show ?case by (simp add: map_concat comp_def)
qed simp_all

lemma unrolled_map_values: "unrolled (map (map_values f) ops) = map (map_values f) (unrolled ops)"
  by (induction ops) (simp_all add: unroll_map_values)

section \<open>The kernel\<close>

definition k_lhs :: "memref \<Rightarrow> ir_value" where "k_lhs t = BlockArg 0 t"
definition k_rhs :: "memref \<Rightarrow> ir_value" where "k_rhs t = BlockArg 1 t"
definition k_dst :: "memref \<Rightarrow> ir_value" where "k_dst t = AllocRes 2 t None"

text \<open>\<open>%2 = memref.alloc(); linalg.matmul ins(%0, %1) outs(%2)\<close> after ConvertLinalgToEclipse.\<close>

definition matmul_kernel :: "memref \<Rightarrow> memref \<Rightarrow> memref \<Rightarrow> operation list result" where
  "matmul_kernel lt rt dt =
     rbind (MatmulLowering 3 (k_lhs lt) (k_rhs rt) (k_dst dt)) (\<lambda>ops. Inr (Define (k_dst dt) # ops))"

text \<open>
  An \<open>M\<close> by \<open>K\<close> and a \<open>K\<close> by \<open>N\<close> matrix with \<open>K = 16 * Suc t\<close>: each matrix fits in its DDR slot of
  64 KiB, and there are at most 1020 descriptors.
\<close>

definition kernel_ok :: "memref \<Rightarrow> memref \<Rightarrow> memref \<Rightarrow> nat \<Rightarrow> nat \<Rightarrow> nat \<Rightarrow> bool" where
  "kernel_ok lt rt dt M N t \<longleftrightarrow>
     mr_shape lt = [int M, 16 * int (Suc t)] \<and> mr_shape rt = [16 * int (Suc t), int N] \<and> mr_shape dt = [int M, int N]
     \<and> mr_elem lt = f16 \<and> mr_elem rt = f16 \<and> mr_elem dt = f16 \<and> 0 < M \<and> 0 < N
     \<and> M * (16 * Suc t) \<le> 0x8000 \<and> 16 * Suc t * N \<le> 0x8000 \<and> M * N \<le> 0x8000 \<and> 3 * Suc t + 1 \<le> 1020"

definition k_L :: "nat \<Rightarrow> ir_value" where "k_L M = new_alloc 6 (packed_memref [int M, 16] f16)"
definition k_R :: "nat \<Rightarrow> ir_value" where "k_R N = new_alloc 7 (packed_memref [16, int N] f16)"
definition k_D :: "nat \<Rightarrow> nat \<Rightarrow> ir_value" where "k_D M N = new_alloc 8 (packed_memref [int M, int N] f16)"

definition k_tile :: "memref \<Rightarrow> memref \<Rightarrow> nat \<Rightarrow> nat \<Rightarrow> nat \<Rightarrow> bool \<Rightarrow> int \<Rightarrow> operation list" where
  "k_tile lt rt M N n acc ik =
     matmul_tile n (int M) (int N) (toDDR 3 (k_lhs lt)) (toDDR 4 (k_rhs rt)) (k_L M) (k_R N) (k_D M N) acc ik"

definition k_head :: "memref \<Rightarrow> memref \<Rightarrow> memref \<Rightarrow> nat \<Rightarrow> nat \<Rightarrow> operation list" where
  "k_head lt rt dt M N = [Define (k_dst dt), Define (toDDR 3 (k_lhs lt)), Define (toDDR 4 (k_rhs rt)), Define (toDDR 5 (k_dst dt)),
     Define (k_L M), Define (k_R N), Define (k_D M N)]"

definition k_tail :: "memref \<Rightarrow> nat \<Rightarrow> nat \<Rightarrow> operation list" where
  "k_tail dt M N = [DmaStoreOp (k_D M N) (toDDR 5 (k_dst dt)), DeallocOp (k_D M N), DeallocOp (k_R N), DeallocOp (k_L M)]"

definition k_loop :: "memref \<Rightarrow> memref \<Rightarrow> nat \<Rightarrow> nat \<Rightarrow> nat \<Rightarrow> operation list" where
  "k_loop lt rt M N t = (if t = 0 then []
     else [ForOp 1 (int (Suc t)) 1 (\<lambda>iv. k_tile lt rt M N (11 + 2 * nat iv) True (iv * 16))])"

lemma kernel_lowered:
  assumes "kernel_ok lt rt dt M N t"
  shows "matmul_kernel lt rt dt = Inr (k_head lt rt dt M N @ k_tile lt rt M N 9 False 0 @ k_loop lt rt M N t @ k_tail dt M N)"
  using assms
  by (simp add: matmul_kernel_def MatmulLowering_def Let_def kernel_ok_def tileK_def k_lhs_def k_rhs_def k_dst_def
      k_head_def k_tile_def k_loop_def k_tail_def k_L_def k_R_def k_D_def)

text \<open>The kernel after unrolling.\<close>

definition k_flat :: "memref \<Rightarrow> memref \<Rightarrow> memref \<Rightarrow> nat \<Rightarrow> nat \<Rightarrow> nat \<Rightarrow> operation list" where
  "k_flat lt rt dt M N t = k_head lt rt dt M N @ k_tile lt rt M N 9 False 0
     @ concat (map (\<lambda>iv. k_tile lt rt M N (11 + 2 * nat iv) True (iv * 16)) [1..int t]) @ k_tail dt M N"

lemma unrolled_tile: "unrolled (k_tile lt rt M N n acc ik) = k_tile lt rt M N n acc ik"
  by (simp add: k_tile_def matmul_tile_def Let_def)

lemma range_upto: "for_range lb ub 1 = [lb..ub - 1]"
proof (induction "nat (ub - lb)" arbitrary: lb)
  case 0
  then show ?case by (simp add: for_range.simps)
next
  case (Suc n)
  then have "for_range (lb + 1) ub 1 = [lb + 1..ub - 1]" "lb < ub" by simp_all
  then show ?case by (subst for_range.simps) (simp add: upto_rec1)
qed

lemma kernel_unrolled:
  assumes "kernel_ok lt rt dt M N t" and "matmul_kernel lt rt dt = Inr ops"
  shows "unrolled ops = k_flat lt rt dt M N t"
proof -
  have "unrolled (k_loop lt rt M N t) = concat (map (\<lambda>iv. k_tile lt rt M N (11 + 2 * nat iv) True (iv * 16)) [1..int t])"
    by (simp add: k_loop_def range_upto comp_def unrolled_def [symmetric] unrolled_tile del: of_nat_Suc) simp
  moreover have "unrolled (k_head lt rt dt M N) = k_head lt rt dt M N" "unrolled (k_tail dt M N) = k_tail dt M N"
    by (simp_all add: k_head_def k_tail_def)
  moreover have "ops = k_head lt rt dt M N @ k_tile lt rt M N 9 False 0 @ k_loop lt rt M N t @ k_tail dt M N"
    using assms(2) kernel_lowered [OF assms(1)] by simp
  ultimately show ?thesis by (simp add: k_flat_def unrolled_tile)
qed

section \<open>Its allocation\<close>

lemma word32_of_nat: "n < 0x100000000 \<Longrightarrow> unat (of_nat n :: u32) = n"
  by (rule unat_of_nat_small) simp

lemma alloc_room:
  fixes ops :: "operation list" and st :: alloc_state and n r c :: nat
  defines "v \<equiv> new_alloc n (packed_memref [int r, int c] f16)"
  assumes al: "align_to alignTo" and sr: "is_sram ops v (packed_memref [int r, int c] f16)"
    and base: "sa_base (as_sram st) = SRAM_ADDR" "sa_size (as_sram st) = SRAM_SIZE" "0 < unat (sa_next (as_sram st))"
    and room: "unat (sa_next (as_sram st)) + 32 + 2 * (r * c) \<le> 0x10080000"
  shows "\<exists>addr nx. alloc_one alignTo Map.empty ops (Define v) st
        = st\<lparr>as_sram := (as_sram st)\<lparr>sa_next := nx\<rparr>, as_bufs := (as_bufs st)(v \<mapsto> addr)\<rparr>
      \<and> 0 < unat nx \<and> unat nx \<le> unat (sa_next (as_sram st)) + 32 + 2 * (r * c)"
proof -
  define sz where "sz = (word_of_int (byte_size (packed_memref [int r, int c] f16)) :: u32)"
  have "byte_size (packed_memref [int r, int c] f16) = int (2 * (r * c))"
    by (simp add: byte_size_def num_elements_def packed_memref_def f16_def)
  then have "sz = of_nat (2 * (r * c))" unfolding sz_def by (simp only:) simp
  moreover have "2 * (r * c) < 0x100000000" using room by linarith
  then have "unat (of_nat (2 * (r * c)) :: u32) = 2 * (r * c)" by (rule word32_of_nat)
  ultimately have sz: "unat sz = 2 * (r * c)" by (simp only:)
  have g: "align_to.good_request (sz, 32)"
  proof -
    have "unat sz \<le> 0x80000000" unfolding sz using room by linarith
    then show ?thesis by (simp add: align_to.good_request_def [OF al])
  qed
  have "\<exists>addr. allocate alignTo (as_sram st) sz 32 = (addr, (as_sram st)\<lparr>sa_next := addr + sz\<rparr>) \<and> addr \<noteq> 0
    \<and> unat (addr + sz) \<le> unat (sa_next (as_sram st)) + unat (32 :: u32) + unat sz \<and> 0 < unat (addr + sz)"
    by (rule align_to.allocate_fits [OF al g base(3)]) (use room base(1,2) in \<open>simp_all add: sz to_nat\<close>)
  then obtain addr where a: "allocate alignTo (as_sram st) sz 32 = (addr, (as_sram st)\<lparr>sa_next := addr + sz\<rparr>)" "addr \<noteq> 0"
    "unat (addr + sz) \<le> unat (sa_next (as_sram st)) + 32 + 2 * (r * c)" "0 < unat (addr + sz)"
    by (auto simp: sz)
  have "alloc_one alignTo Map.empty ops (Define v) st
      = st\<lparr>as_sram := (as_sram st)\<lparr>sa_next := addr + sz\<rparr>, as_bufs := (as_bufs st)(v \<mapsto> addr)\<rparr>"
    using sr a(1,2) by (simp add: alloc_one_def v_def new_alloc_def sz_def [symmetric] SRAM_ALIGNMENT_def)
  with a(3,4) show ?thesis by blast
qed

lemma alloc_skip:
  "\<forall>op \<in> set xs. case op of Define v \<Rightarrow> (case v of AllocRes i t al \<Rightarrow> False | _ \<Rightarrow> True) | _ \<Rightarrow> True
    \<Longrightarrow> fold (alloc_one alignTo golden ops) xs st = st"
proof (induction xs)
  case (Cons op xs)
  then have "alloc_one alignTo golden ops op st = st" by (auto simp: alloc_one_def split: operation.splits ir_value.splits)
  with Cons show ?case by simp
qed simp

definition k_ops :: "memref \<Rightarrow> memref \<Rightarrow> memref \<Rightarrow> nat \<Rightarrow> nat \<Rightarrow> nat \<Rightarrow> operation list" where
  "k_ops lt rt dt M N t = k_head lt rt dt M N @ k_tile lt rt M N 9 False 0 @ k_loop lt rt M N t @ k_tail dt M N"

lemmas k_values = k_lhs_def k_rhs_def k_dst_def k_L_def k_R_def k_D_def toDDR_def

lemma kernel_is_sram:
  "is_sram (k_ops lt rt dt M N t) (k_L M) (packed_memref [int M, 16] f16)"
  "is_sram (k_ops lt rt dt M N t) (k_R N) (packed_memref [16, int N] f16)"
  "is_sram (k_ops lt rt dt M N t) (k_D M N) (packed_memref [int M, int N] f16)"
  "\<not> is_sram (k_ops lt rt dt M N t) (k_dst dt) dt"
  by (auto simp: is_sram_def k_ops_def k_head_def k_tail_def k_loop_def k_tile_def matmul_tile_def subview2_def Let_def
      packed_memref_def k_values new_alloc_def)

text \<open>The pass up to the three buffers: the arguments and the result have their slots in DDR.\<close>

definition k_start :: "memref \<Rightarrow> memref \<Rightarrow> memref \<Rightarrow> alloc_state" where
  "k_start lt rt dt = \<lparr>as_sram = SramAllocator_init SRAM_ADDR SRAM_SIZE, as_ddr = 0x40040000,
     as_attrs = [k_lhs lt \<mapsto> 0x40010000, k_rhs rt \<mapsto> 0x40020000, k_dst dt \<mapsto> 0x40030000], as_bufs = Map.empty, as_failed = False\<rparr>"

lemma kernel_pass:
  fixes lt rt dt :: memref and M N t :: nat
  defines "ops \<equiv> k_ops lt rt dt M N t"
  shows "eclipse_allocate alignTo gm [[(k_lhs lt, True), (k_rhs rt, True)]] ops
    = fold (alloc_one alignTo (goldenLayout gm ops) ops) [Define (k_L M), Define (k_R N), Define (k_D M N)] (k_start lt rt dt)"
proof -
  define F where "F = alloc_one alignTo (goldenLayout gm ops) ops"
  note one = alloc_one_def assign_ddr_def ddrStride_def
  have d: "F (Define (k_dst dt)) = assign_ddr (k_dst dt)"
    using kernel_is_sram(4) [of lt rt dt M N t] by (simp add: F_def alloc_one_def k_dst_def ops_def fun_eq_iff)
  have n: "F (Define (toDDR i v)) s = s" for i v s by (simp add: F_def alloc_one_def toDDR_def)
  have skip: "fold F (k_tile lt rt M N 9 False 0 @ k_loop lt rt M N t @ k_tail dt M N) s = s" for s
    unfolding F_def by (rule alloc_skip) (auto simp: k_tile_def matmul_tile_def subview2_def k_loop_def k_tail_def Let_def)
  have f: "fold F ops s = fold F (k_head lt rt dt M N) s" for s
    unfolding ops_def k_ops_def fold_append [of F "k_head lt rt dt M N"] comp_apply by (rule skip)
  moreover have "assign_ddr (k_dst dt) (allocate_args [(k_lhs lt, True), (k_rhs rt, True)] alloc_init) = k_start lt rt dt"
    by (simp add: k_start_def allocate_args_def alloc_init_def assign_ddr_def ddrStride_def DDR_ADDR_def DDR_SIZE_def)
  ultimately show ?thesis unfolding eclipse_allocate_def F_def [symmetric] by (simp add: f k_head_def n d)
qed

lemma kernel_allocated:
  assumes k: "kernel_ok lt rt dt M N t" and al: "align_to alignTo"
    and st: "st = eclipse_allocate alignTo False [[(k_lhs lt, True), (k_rhs rt, True)]] (k_ops lt rt dt M N t)"
  shows "\<exists>a b c. as_bufs st = [k_L M \<mapsto> a, k_R N \<mapsto> b, k_D M N \<mapsto> c]"
    and "as_attrs st = [k_lhs lt \<mapsto> 0x40010000, k_rhs rt \<mapsto> 0x40020000, k_dst dt \<mapsto> 0x40030000]"
    and "\<not> as_failed st"
proof -
  define ops where "ops = k_ops lt rt dt M N t"
  define s0 where "s0 = k_start lt rt dt"
  have size: "M * 16 \<le> 0x8000" "16 * N \<le> 0x8000" "M * N \<le> 0x8000"
  proof -
    have "M * 16 \<le> M * (16 * Suc t)" "16 * N \<le> 16 * Suc t * N" by simp_all
    with k show "M * 16 \<le> 0x8000" "16 * N \<le> 0x8000" "M * N \<le> 0x8000" unfolding kernel_ok_def by linarith+
  qed
  have "st = fold (alloc_one alignTo Map.empty ops) [Define (k_L M), Define (k_R N), Define (k_D M N)] s0"
    unfolding st kernel_pass by (simp add: goldenLayout_def ops_def s0_def)
  then have st3: "st = alloc_one alignTo Map.empty ops (Define (k_D M N)) (alloc_one alignTo Map.empty ops (Define (k_R N))
      (alloc_one alignTo Map.empty ops (Define (k_L M)) s0))" by simp
  note sr = kernel_is_sram(1-3) [of lt rt dt M N t, folded ops_def, unfolded k_L_def k_R_def k_D_def]
  have init: "sa_base (as_sram s0) = SRAM_ADDR" "sa_size (as_sram s0) = SRAM_SIZE" "unat (sa_next (as_sram s0)) = 0x10000000"
    by (simp_all add: s0_def k_start_def SramAllocator_init_def SRAM_ADDR_def)
  have r0: "0 < unat (sa_next (as_sram s0))" "unat (sa_next (as_sram s0)) + 32 + 2 * (M * 16) \<le> 0x10080000"
    using init(3) size(1) by simp_all
  from alloc_room [where n = 6 and r = M and c = 16 and ops = ops, OF al _ init(1,2) r0] sr(1)
  obtain a n1 where s1: "alloc_one alignTo Map.empty ops (Define (k_L M)) s0
      = s0\<lparr>as_sram := (as_sram s0)\<lparr>sa_next := n1\<rparr>, as_bufs := (as_bufs s0)(k_L M \<mapsto> a)\<rparr>"
    "0 < unat n1" "unat n1 \<le> 0x10000000 + 32 + 2 * (M * 16)"
    unfolding k_L_def init(3) by auto
  define t1 where "t1 = s0\<lparr>as_sram := (as_sram s0)\<lparr>sa_next := n1\<rparr>, as_bufs := (as_bufs s0)(k_L M \<mapsto> a)\<rparr>"
  have i1: "sa_base (as_sram t1) = SRAM_ADDR" "sa_size (as_sram t1) = SRAM_SIZE" "0 < unat (sa_next (as_sram t1))"
    "unat (sa_next (as_sram t1)) + 32 + 2 * (16 * N) \<le> 0x10080000"
    using init(1,2) s1(2,3) size by (simp_all add: t1_def)
  from alloc_room [where n = 7 and r = 16 and c = N and ops = ops, OF al _ i1] sr(2)
  obtain b n2 where s2: "alloc_one alignTo Map.empty ops (Define (k_R N)) t1
      = t1\<lparr>as_sram := (as_sram t1)\<lparr>sa_next := n2\<rparr>, as_bufs := (as_bufs t1)(k_R N \<mapsto> b)\<rparr>"
    "0 < unat n2" "unat n2 \<le> unat n1 + 32 + 2 * (16 * N)"
    unfolding k_R_def by (auto simp: t1_def)
  define t2 where "t2 = t1\<lparr>as_sram := (as_sram t1)\<lparr>sa_next := n2\<rparr>, as_bufs := (as_bufs t1)(k_R N \<mapsto> b)\<rparr>"
  have i2: "sa_base (as_sram t2) = SRAM_ADDR" "sa_size (as_sram t2) = SRAM_SIZE" "0 < unat (sa_next (as_sram t2))"
    "unat (sa_next (as_sram t2)) + 32 + 2 * (M * N) \<le> 0x10080000"
    using i1(1,2) s1(3) s2(2,3) size by (simp_all add: t2_def)
  from alloc_room [where n = 8 and r = M and c = N and ops = ops, OF al _ i2] sr(3)
  obtain c n3 where s3: "alloc_one alignTo Map.empty ops (Define (k_D M N)) t2
      = t2\<lparr>as_sram := (as_sram t2)\<lparr>sa_next := n3\<rparr>, as_bufs := (as_bufs t2)(k_D M N \<mapsto> c)\<rparr>"
    unfolding k_D_def by auto
  have "st = t2\<lparr>as_sram := (as_sram t2)\<lparr>sa_next := n3\<rparr>, as_bufs := (as_bufs t2)(k_D M N \<mapsto> c)\<rparr>"
    unfolding st3 s1(1) t1_def [symmetric] s2(1) t2_def [symmetric] s3 ..
  then have f: "as_bufs st = [k_L M \<mapsto> a, k_R N \<mapsto> b, k_D M N \<mapsto> c]"
    "as_attrs st = as_attrs s0" "as_failed st = False"
    by (simp_all add: t2_def t1_def s0_def k_start_def)
  then show "\<exists>a b c. as_bufs st = [k_L M \<mapsto> a, k_R N \<mapsto> b, k_D M N \<mapsto> c]" by blast
  from f(2,3) show "as_attrs st = [k_lhs lt \<mapsto> 0x40010000, k_rhs rt \<mapsto> 0x40020000, k_dst dt \<mapsto> 0x40030000]" "\<not> as_failed st"
    by (simp_all add: s0_def k_start_def)
qed

section \<open>It fits the machine\<close>

definition k_bufs :: "memref \<Rightarrow> memref \<Rightarrow> memref \<Rightarrow> nat \<Rightarrow> nat \<Rightarrow> ir_value list" where
  "k_bufs lt rt dt M N = [k_lhs lt, k_rhs rt, k_dst dt, k_L M, k_R N, k_D M N]"

lemma kernel_op_cases:
  assumes "op \<in> set (k_flat lt rt dt M N t)"
  obtains (root_value) v where "op = Define v" | (dealloc) v where "op = DeallocOp v" | (sync) "op = SyncOp"
    | (lhs) n j where "j \<le> t" "op = DmaLoadOp (subview2 n (toDDR 3 (k_lhs lt)) [0, 16 * int j] [int M, 16]) (k_L M)"
    | (rhs) n j where "j \<le> t" "op = DmaLoadOp (subview2 n (toDDR 4 (k_rhs rt)) [16 * int j, 0] [16, int N]) (k_R N)"
    | (matmul) acc where "op = MatmulOp (k_L M) (k_R N) (k_D M N) acc False False"
    | (store) "op = DmaStoreOp (k_D M N) (toDDR 5 (k_dst dt))"
proof -
  from assms consider "op \<in> set (k_head lt rt dt M N)" | "op \<in> set (k_tail dt M N)"
    | n acc j where "j \<le> t" "op \<in> set (k_tile lt rt M N n acc (16 * int j))"
  proof -
    define tiled where "tiled \<longleftrightarrow> (\<exists>n acc j. j \<le> t \<and> op \<in> set (k_tile lt rt M N n acc (16 * int j)))"
    have loop: "tiled" if "op \<in> set (k_tile lt rt M N (11 + 2 * nat iv) True (iv * 16))" "1 \<le> iv" "iv \<le> int t" for iv
      unfolding tiled_def by (rule exI [of _ "11 + 2 * nat iv"], rule exI [of _ True], rule exI [of _ "nat iv"])
        (use that in \<open>simp add: mult.commute\<close>)
    have first: "tiled" if "op \<in> set (k_tile lt rt M N 9 False 0)"
      unfolding tiled_def by (rule exI [of _ 9], rule exI [of _ False], rule exI [of _ 0]) (use that in simp)
    have "op \<in> set (k_head lt rt dt M N) \<or> op \<in> set (k_tail dt M N) \<or> op \<in> set (k_tile lt rt M N 9 False 0)
        \<or> (\<exists>iv. 1 \<le> iv \<and> iv \<le> int t \<and> op \<in> set (k_tile lt rt M N (11 + 2 * nat iv) True (iv * 16)))"
      using assms by (auto simp: k_flat_def)
    then have "op \<in> set (k_head lt rt dt M N) \<or> op \<in> set (k_tail dt M N) \<or> tiled"
      using loop first by (elim disjE exE conjE) simp_all
    then show ?thesis unfolding tiled_def using that by blast
  qed
  then show ?thesis
  proof cases
    case (3 n acc j)
    from 3(2) consider v where "op = Define v" | "op = SyncOp"
      | "op = DmaLoadOp (subview2 n (toDDR 3 (k_lhs lt)) [0, 16 * int j] [int M, 16]) (k_L M)"
      | "op = DmaLoadOp (subview2 (n + 1) (toDDR 4 (k_rhs rt)) [16 * int j, 0] [16, int N]) (k_R N)"
      | "op = MatmulOp (k_L M) (k_R N) (k_D M N) acc False False"
      by (auto simp: k_tile_def matmul_tile_def Let_def tileK_def)
    then show ?thesis using that 3(1) by cases blast+
  qed (auto simp: k_head_def k_tail_def intro: that)
qed

lemma kernel_placeable:
  assumes k: "kernel_ok lt rt dt M N t" and b: "as_bufs st = [k_L M \<mapsto> a, k_R N \<mapsto> b, k_D M N \<mapsto> c]"
    and d: "as_attrs st = [k_lhs lt \<mapsto> 0x40010000, k_rhs rt \<mapsto> 0x40020000, k_dst dt \<mapsto> 0x40030000]"
  shows "\<forall>v \<in> set (k_bufs lt rt dt M N). placeable st v"
proof -
  have e: "nat (16 + 16 * int t) = 16 * Suc t" by (simp add: nat_eq_iff)
  show ?thesis
    using k unfolding k_bufs_def
    by (simp add: placeable_def b d k_values new_alloc_def packed_memref_def in_bufs_def has_ddr_base_def rows_of_def cols_of_def
        buf_align_def kernel_ok_def e del: mult_Suc mult_Suc_right)
qed

lemma subview_ok:
  assumes "mr_shape t = [int m, int n]" and "0 \<le> o0" "o0 + int r \<le> int m" "0 \<le> o1" "o1 + int c \<le> int n" "0 < r" "0 < c"
    and "(o0 * int n + o1) mod 8 = 0" and "has_ddr_base b" and "value_type b = t"
  shows "view_ok (subview2 i (toDDR j b) [o0, o1] [int r, int c])"
  using assms root_of_base
  by (cases b) (simp_all add: view_ok_def subview2_def toDDR_def Let_def has_ddr_base_def upt_rec numeral_2_eq_2)

lemma kernel_op_ok:
  assumes k: "kernel_ok lt rt dt M N t" and b: "as_bufs st = [k_L M \<mapsto> a, k_R N \<mapsto> b, k_D M N \<mapsto> c]"
  shows "\<forall>op \<in> set (k_flat lt rt dt M N t). op_ok (in_bufs (as_bufs st)) (k_bufs lt rt dt M N) op"
proof
  have bufs: "in_bufs (as_bufs st) (k_L M)" "in_bufs (as_bufs st) (k_R N)" "in_bufs (as_bufs st) (k_D M N)"
    "\<not> in_bufs (as_bufs st) (k_lhs lt)" "\<not> in_bufs (as_bufs st) (k_rhs rt)" "\<not> in_bufs (as_bufs st) (k_dst dt)"
    by (simp_all add: b in_bufs_def k_values new_alloc_def)
  have ne: "k_L M \<noteq> k_R N" "k_D M N \<noteq> k_L M" "k_D M N \<noteq> k_R N" by (simp_all add: k_values)
  fix op assume "op \<in> set (k_flat lt rt dt M N t)"
  then show "op_ok (in_bufs (as_bufs st)) (k_bufs lt rt dt M N) op"
  proof (cases rule: kernel_op_cases)
    case (lhs n j)
    have "view_ok (subview2 n (toDDR 3 (k_lhs lt)) [0, 16 * int j] [int M, int 16])"
      by (rule subview_ok [of lt M "16 * Suc t"]) (use k lhs(1) in \<open>simp_all add: kernel_ok_def k_lhs_def has_ddr_base_def\<close>)
    then show ?thesis
      using k bufs by (simp add: lhs(2) op_ok_def verifyDmaLoad_def memref_of_def k_bufs_def kernel_ok_def)
        (simp add: subview2_def toDDR_def ddr_base_def Let_def k_lhs_def k_L_def new_alloc_def packed_memref_def isPacked_def verify_that_def
          DDR_MEMORY_SPACE_def SRAM_MEMORY_SPACE_def)
  next
    case (rhs n j)
    have "view_ok (subview2 n (toDDR 4 (k_rhs rt)) [16 * int j, 0] [int 16, int N])"
      by (rule subview_ok [of rt "16 * Suc t" N]) (use k rhs(1) in \<open>simp_all add: kernel_ok_def k_rhs_def has_ddr_base_def mod_mult_left_eq\<close>)
    then show ?thesis
      using k bufs by (simp add: rhs(2) op_ok_def verifyDmaLoad_def memref_of_def k_bufs_def kernel_ok_def)
        (simp add: subview2_def toDDR_def ddr_base_def Let_def k_rhs_def k_R_def new_alloc_def packed_memref_def isPacked_def verify_that_def
          DDR_MEMORY_SPACE_def SRAM_MEMORY_SPACE_def)
  next
    case (matmul acc)
    with bufs ne show ?thesis
      by (simp add: op_ok_def k_bufs_def verifyMatmul_def memref_of_def)
        (simp add: k_L_def k_R_def k_D_def new_alloc_def packed_memref_def matmul_dims_def verify_that_def)
  next
    case store
    with k bufs show ?thesis
      by (simp add: op_ok_def k_bufs_def verifyDmaStore_def memref_of_def kernel_ok_def)
        (simp add: toDDR_def view_ok_def ddr_base_def has_ddr_base_def k_dst_def k_D_def new_alloc_def packed_memref_def isPacked_def verify_that_def)
  qed (simp_all add: op_ok_def)
qed

section \<open>Its emission\<close>

lemma emission_total:
  assumes "\<forall>op \<in> set flat. \<forall>da. \<exists>u. emit_op F attrs op da = Inr u"
  shows "\<exists>u. fold_result (emit_step F attrs) flat s = Inr u"
  using assms
proof (induction flat arbitrary: s)
  case (Cons op flat)
  then obtain line da where "emit_op F attrs op (snd s) = Inr (line, da)" by fastforce
  then have "emit_step F attrs op s = Inr (fst s @ line, da)" by (cases s) (simp add: emit_step_def)
  with Cons show ?case by simp
qed simp

lemma kernel_emitted:
  assumes b: "as_bufs st = [k_L M \<mapsto> a, k_R N \<mapsto> b, k_D M N \<mapsto> c]"
    and d: "as_attrs st = [k_lhs lt \<mapsto> 0x40010000, k_rhs rt \<mapsto> 0x40020000, k_dst dt \<mapsto> 0x40030000]"
  shows "\<exists>u. fold_result (emit_step F (as_attrs st)) (map (map_values (replace_allocs (as_bufs st))) (k_flat lt rt dt M N t)) s = Inr u"
proof (rule emission_total, intro ballI allI)
  have bufs: "replace_allocs (as_bufs st) (k_L M) = SramBuf 6 a (packed_memref [int M, 16] f16)"
    "replace_allocs (as_bufs st) (k_R N) = SramBuf 7 b (packed_memref [16, int N] f16)"
    "replace_allocs (as_bufs st) (k_D M N) = SramBuf 8 c (packed_memref [int M, int N] f16)"
    by (simp_all add: b k_values new_alloc_def)
  fix op' da assume "op' \<in> set (map (map_values (replace_allocs (as_bufs st))) (k_flat lt rt dt M N t))"
  then obtain op where op: "op \<in> set (k_flat lt rt dt M N t)" and op': "op' = map_values (replace_allocs (as_bufs st)) op" by auto
  from op show "\<exists>u. emit_op F (as_attrs st) op' da = Inr u"
  proof (cases rule: kernel_op_cases)
    case (lhs n j)
    then show ?thesis
      by (simp add: op' emit_op_def emitDmaLoadOp_def bufs sram_addr_def subview2_def toDDR_def Let_def)
        (simp add: k_lhs_def has_ddr_base_def ddrBaseAddr_def attr_addr_def d k_rhs_def k_dst_def)
  next
    case (rhs n j)
    then show ?thesis
      by (simp add: op' emit_op_def emitDmaLoadOp_def bufs sram_addr_def subview2_def toDDR_def Let_def)
        (simp add: k_rhs_def has_ddr_base_def ddrBaseAddr_def attr_addr_def d k_lhs_def k_dst_def)
  next
    case (matmul acc)
    then show ?thesis by (simp add: op' emit_op_def emitMatmulOp_def bufs sram_addr_def Let_def)
  next
    case store
    have "replace_allocs (as_bufs st) (k_dst dt) = AllocRes 2 dt None" by (simp add: b k_values new_alloc_def)
    with store show ?thesis
      by (simp add: op' emit_op_def emitDmaStoreOp_def bufs sram_addr_def toDDR_def Let_def)
        (simp add: attr_addr_def d k_lhs_def k_rhs_def k_dst_def)
  qed (simp_all add: op' emit_op_def emitSyncOp_def)
qed

lemma kernel_counts:
  "descriptors (k_flat lt rt dt M N t) = 3 * Suc t + 1"
  "List.map_filter stored (k_flat lt rt dt M N t) = [k_dst dt]"
  "divisors_ok C (k_flat lt rt dt M N t) T"
proof -
  have add: "descriptors (xs @ ys) = descriptors xs + descriptors ys" for xs ys by (simp add: descriptors_def)
  have tile: "descriptors (k_tile lt rt M N n acc ik) = 3" for n acc ik
    by (simp add: descriptors_def k_tile_def matmul_tile_def Let_def instruction_op_def)
  have cc: "descriptors (concat (map (\<lambda>iv. k_tile lt rt M N (f iv) True (iv * 16)) xs)) = 3 * length xs" for f xs
    by (induction xs) (simp_all add: add tile, simp add: descriptors_def)
  show "descriptors (k_flat lt rt dt M N t) = 3 * Suc t + 1"
    by (simp add: k_flat_def add tile cc) (simp add: descriptors_def k_head_def k_tail_def instruction_op_def)
  have fadd: "List.map_filter stored (xs @ ys) = List.map_filter stored xs @ List.map_filter stored ys" for xs ys
    by (induction xs) (simp_all add: List.map_filter_simps split: option.split)
  have ftile: "List.map_filter stored (k_tile lt rt M N n acc ik) = []" for n acc ik
    by (simp add: k_tile_def matmul_tile_def Let_def List.map_filter_simps stored_def)
  have fcc: "List.map_filter stored (concat (map (\<lambda>iv. k_tile lt rt M N (f iv) True (iv * 16)) xs)) = []" for f xs
    by (induction xs) (simp_all add: fadd ftile List.map_filter_simps)
  show "List.map_filter stored (k_flat lt rt dt M N t) = [k_dst dt]"
    by (simp add: k_flat_def fadd ftile fcc)
      (simp add: k_head_def k_tail_def List.map_filter_simps stored_def toDDR_def ddr_base_def)
  have all: "(\<And>op T. op \<in> set ops \<Longrightarrow> divides_ok op T) \<Longrightarrow> divisors_ok C ops T" for ops T
    by (induction ops arbitrary: T) simp_all
  have "divides_ok op T" if "op \<in> set (k_flat lt rt dt M N t)" for op T
    using that by (cases rule: kernel_op_cases) (simp_all add: divides_ok_def)
  then show "divisors_ok C (k_flat lt rt dt M N t) T" by (rule all)
qed

section \<open>Files of integers\<close>

text \<open>Element \<open>i\<close> of a file.\<close>

definition half :: "u8 list \<Rightarrow> nat \<Rightarrow> u16" where
  "half b i = u16_of_bytes [b ! (2 * i), b ! (2 * i + 1)]"

lemma half_tensor_bytes:
  assumes "i < rows_of v * cols_of v"
  shows "half (tensor_bytes T v) i = T v [int (i div cols_of v), int (i mod cols_of v)]"
    and "length (tensor_bytes T v) = 2 * (rows_of v * cols_of v)"
proof -
  have len: "length (concat (map (\<lambda>i. bytes_of_u16 (f i)) [0..<n])) = 2 * n" for f and n :: nat
    by (induction n) (simp_all add: bytes_of_u16_def)
  then show "length (tensor_bytes T v) = 2 * (rows_of v * cols_of v)" by (simp add: tensor_bytes_def)
  have "half (concat (map (\<lambda>i. bytes_of_u16 (f i)) [0..<n])) i = f i" if "i < n" for f and n :: nat
    using that
  proof (induction n)
    case (Suc n)
    then show ?case
    proof (cases "i = n")
      case True
      have "[bytes_of_u16 (f n) ! 0, bytes_of_u16 (f n) ! Suc 0] = bytes_of_u16 (f n)" by (simp add: bytes_of_u16_def)
      with True show ?thesis using len [of f n] u16_of_bytes_of_u16 [of "f n"] by (simp add: half_def nth_append)
    next
      case False
      with Suc have "2 * i + 1 < 2 * n" "half (concat (map (\<lambda>i. bytes_of_u16 (f i)) [0..<n])) i = f i" by simp_all
      then show ?thesis using len [of f n] by (simp add: half_def nth_append)
    qed
  qed simp
  from this [OF assms] show "half (tensor_bytes T v) i = T v [int (i div cols_of v), int (i mod cols_of v)]"
    by (simp add: tensor_bytes_def)
qed

interpretation bit_int: integer_chip "bit_chip P E" for P E
proof
  fix n :: nat and p :: "nat \<Rightarrow> u16 \<times> u16" and x y :: "nat \<Rightarrow> int" and old :: "u16 option" and z :: int
  assume a: "\<And>k. k < n \<Longrightarrow> holds_int (fst (p k)) (x k) \<and> holds_int (snd (p k)) (y k)" "(\<Sum>k<n. \<bar>x k * y k\<bar>) < 2048"
    "\<And>c. old = Some c \<Longrightarrow> holds_int c z" "old = None \<Longrightarrow> z = 0" "\<bar>(\<Sum>k<n. x k * y k) + z\<bar> < 2048"
  have canon: "fp16_dot P old (map p [0..<n]) = canon16 (bit_dot P old (map p [0..<n]))"
    by (simp add: fp16_dot_def bit_dot_def round16_def Let_def)
  have "holds_int h z" if "holds_int (canon16 h) z" for h z
    using that by (cases "nan16 h") (auto simp: canon16_def holds_int_def finite16_def rest16_def)
  with fp16_dot_int [where P = P and old = old, OF a] show "holds_int (ch_dot (bit_chip P E) old (map p [0..<n])) ((\<Sum>k<n. x k * y k) + z)"
    by (simp add: canon bit_chip_def)
qed

section \<open>Properties\<close>

lemma file_element:
  assumes "k < length vs" and "distinct vs" and "j < cols_of (vs ! k)"
  shows "file_tensors buf vs (vs ! k) [int i, int j] = half (buf k) (i * cols_of (vs ! k) + j)"
  using assms by (simp add: file_tensors_def half_def takeWhile_index Let_def)

lemma kernel_product:
  fixes A B :: "nat \<Rightarrow> nat \<Rightarrow> int" and buf :: "nat \<Rightarrow> u8 list"
  assumes k: "kernel_ok lt rt dt M N t" and K: "K = 16 * Suc t" and ij: "i < M" "j < N"
    and ints: "\<forall>x<K. holds_int (half (buf 0) (i * K + x)) (A i x) \<and> holds_int (half (buf 1) (x * N + j)) (B x j)"
    and small: "(\<Sum>x<K. \<bar>A i x * B x j\<bar>) < 2048"
  shows "holds_int (run_ops (bit_chip P E) (k_flat lt rt dt M N t) (file_tensors buf [k_lhs lt, k_rhs rt]) (k_dst dt) [int i, int j])
    (\<Sum>x<K. A i x * B x j)"
proof -
  let ?T = "file_tensors buf [k_lhs lt, k_rhs rt]"
  have sh: "mr_shape lt = [int M, int K]" "mr_shape rt = [int K, int N]" "mr_shape dt = [int M, int N]"
    using k by (simp_all add: kernel_ok_def K)
  have ne: "k_lhs lt \<noteq> k_rhs rt" by (simp add: k_values)
  have cols: "cols_of (k_lhs lt) = K" "cols_of (k_rhs rt) = N" using sh by (simp_all add: cols_of_def k_values)
  obtain ops where ops: "MatmulLowering 3 (k_lhs lt) (k_rhs rt) (k_dst dt) = Inr ops" "matmul_kernel lt rt dt = Inr (Define (k_dst dt) # ops)"
    using kernel_lowered [OF k] by (auto simp: matmul_kernel_def rbind_eq_Inr)
  have "holds_int (read (run_ops (bit_chip P E) ops ?T) (k_dst dt) [int i, int j]) (\<Sum>x<K. A i x * B x j)"
  proof (rule bit_int.matmul_lowered_int [where rows = "int M" and cols = "int N" and K = K, OF ops(1)])
    have "read ?T (k_lhs lt) [int i, int x] = half (buf 0) (i * K + x)" if "x < K" for x
      using file_element [of 0 "[k_lhs lt, k_rhs rt]" x buf i] that ne cols by (simp add: read_def k_lhs_def)
    moreover have "read ?T (k_rhs rt) [int x, int j] = half (buf 1) (x * N + j)" for x
      using file_element [of 1 "[k_lhs lt, k_rhs rt]" j buf x] ij ne cols by (simp add: read_def k_rhs_def)
    ultimately show "\<forall>x<K. holds_int (read ?T (k_lhs lt) [int i, int x]) (A i x) \<and> holds_int (read ?T (k_rhs rt) [int x, int j]) (B x j)"
      using ints by simp
  qed (use sh ij small in \<open>simp_all add: k_lhs_def k_rhs_def k_dst_def K\<close>)
  moreover have "run_ops (bit_chip P E) (k_flat lt rt dt M N t) ?T = run_ops (bit_chip P E) ops ?T"
    using run_unrolled [of "bit_chip P E" "Define (k_dst dt) # ops"] kernel_unrolled [OF k ops(2)] by simp
  ultimately show ?thesis by (simp add: read_def k_dst_def)
qed

lemma kernel_requests:
  assumes "kernel_ok lt rt dt M N t"
  shows "\<forall>op \<in> set (k_ops lt rt dt M N t). request_ok op" and "length (k_ops lt rt dt M N t) \<le> 26"
proof -
  have b: "M * 16 \<le> 0x8000" "16 * N \<le> 0x8000" "M * N \<le> 0x8000"
  proof -
    have "M * 16 \<le> M * (16 * Suc t)" "16 * N \<le> 16 * Suc t * N" by simp_all
    with assms show "M * 16 \<le> 0x8000" "16 * N \<le> 0x8000" "M * N \<le> 0x8000" unfolding kernel_ok_def by linarith+
  qed
  have bytes: "byte_size (packed_memref [int r, int c] f16) = 2 * int (r * c)" for r c
    by (simp add: byte_size_def num_elements_def packed_memref_def f16_def)
  have prod: "int M * int N \<le> 0x8000" using b(3) by (metis of_nat_le_iff of_nat_mult of_nat_numeral)
  have "byte_size dt = 2 * int (M * N)"
    using assms by (simp add: byte_size_def num_elements_def kernel_ok_def f16_def)
  then show "\<forall>op \<in> set (k_ops lt rt dt M N t). request_ok op"
    using b prod bytes [of M 16] bytes [of 16 N] bytes [of M N]
    by (auto simp: k_ops_def k_head_def k_tail_def k_tile_def k_loop_def matmul_tile_def subview2_def k_values new_alloc_def
        request_ok_def Let_def)
  show "length (k_ops lt rt dt M N t) \<le> 26"
    by (simp add: k_ops_def k_head_def k_tail_def k_tile_def k_loop_def matmul_tile_def Let_def)
qed

text \<open>The run of the kernel on any two files of the right length, with its output and its cycles.\<close>

lemma kernel_run:
  fixes a b :: "u8 list"
  defines "buf \<equiv> \<lambda>k :: nat. if k = 0 then a else b"
  assumes fmt: "number_format (fmt_hex F) (fmt_dec F)" and al: "align_to alignTo"
    and k: "kernel_ok lt rt dt M N t" and K: "K = 16 * Suc t" and lowered: "matmul_kernel lt rt dt = Inr ops"
    and st: "st = eclipse_allocate alignTo False [[(k_lhs lt, True), (k_rhs rt, True)]] ops"
    and prog: "prog = map (map_values (replace_allocs (as_bufs st))) ops" and un: "unroll prog = Some (unrolled prog)"
    and a: "length a = 2 * (M * K)" and b: "length b = 2 * (K * N)"
  shows "\<exists>text next. eclipse_to_easm F (as_attrs st) unroll True prog = Inr (text, next)
    \<and> (\<forall>fs can_write. fs ''a'' = Some a \<longrightarrow> fs ''b'' = Some b \<longrightarrow> fs ''easm'' = Some (map of_char text) \<longrightarrow> can_write ''c'' \<longrightarrow>
        (\<exists>out. eclipse_run P fs can_write [''eclipse-run'', ''easm'', ''c'', ''a'', ''b''] = Inr out \<and> exit_code out = 0
          \<and> out_file out = Some (tensor_bytes (run_ops (bit_chip P E) (k_flat lt rt dt M N t) (file_tensors buf [k_lhs lt, k_rhs rt])) (k_dst dt))
          \<and> (\<forall>cs. list_all2 costs (program_images (as_attrs st) (map (map_values (replace_allocs (as_bufs st))) (k_flat lt rt dt M N t)) DESC_STARTADDR) cs
              \<longrightarrow> printed_cycles out = of_nat (sum_list cs))))"
proof -
  have ops: "ops = k_ops lt rt dt M N t" using lowered kernel_lowered [OF k] by (simp add: k_ops_def)
  note st' = st [unfolded ops]
  from kernel_allocated(1) [OF k al st'] obtain p q r where bufs: "as_bufs st = [k_L M \<mapsto> p, k_R N \<mapsto> q, k_D M N \<mapsto> r]" by blast
  note attrs = kernel_allocated(2) [OF k al st']
  have flat: "unrolled prog = map (map_values (replace_allocs (as_bufs st))) (k_flat lt rt dt M N t)"
    unfolding prog unrolled_map_values kernel_unrolled [OF k lowered] ..
  obtain easm nxt where e: "eclipse_to_easm F (as_attrs st) unroll True prog = Inr (easm, nxt)"
    using kernel_emitted [OF bufs attrs] unfolding eclipse_to_easm_fold [of unroll, OF un] flat by fastforce
  define vs where "vs = [k_lhs lt, k_rhs rt]"
  have dims: "rows_of (k_lhs lt) = M" "cols_of (k_lhs lt) = K" "rows_of (k_rhs rt) = K" "cols_of (k_rhs rt) = N"
    using k by (simp_all add: rows_of_def cols_of_def k_values kernel_ok_def K nat_eq_iff)
  have vs: "vs \<noteq> []" "distinct vs" "\<forall>v \<in> set vs. \<exists>i t. v = BlockArg i t" "set vs \<subseteq> set (k_bufs lt rt dt M N)"
    "map (\<lambda>v. (v, True)) vs = [(k_lhs lt, True), (k_rhs rt, True)]" "length vs = 2"
    by (simp_all add: vs_def k_values k_bufs_def)
  have lim: "length vs + length ops \<le> 0x7FFE" using kernel_requests(2) [OF k] vs(6) ops by simp
  have req: "\<forall>op \<in> set ops. request_ok op" using kernel_requests(1) [OF k] ops by simp
  have desc: "descriptors (k_flat lt rt dt M N t) \<le> 1020" using k by (simp only: kernel_counts) (simp add: kernel_ok_def)
  have unr: "unroll (map (map_values (replace_allocs (as_bufs st))) ops) = Some (map (map_values (replace_allocs (as_bufs st))) (k_flat lt rt dt M N t))"
    using un unfolding flat unfolding prog .
  note ops_ok = kernel_op_ok [OF k bufs]
  have argv: "length [''eclipse-run'', ''easm'', ''c'', ''a'', ''b''] = length vs + 3" by (simp add: vs(6))
  have run: "\<exists>out. eclipse_run P fs can_write [''eclipse-run'', ''easm'', ''c'', ''a'', ''b''] = Inr out \<and> exit_code out = 0
      \<and> out_file out = (case List.map_filter stored (k_flat lt rt dt M N t) of [] \<Rightarrow> None
          | b # bs \<Rightarrow> Some (tensor_bytes (run_ops (bit_chip P E) (k_flat lt rt dt M N t) (file_tensors buf vs)) (last (b # bs))))
      \<and> (\<forall>cs. list_all2 costs (program_images (as_attrs st) (map (map_values (replace_allocs (as_bufs st))) (k_flat lt rt dt M N t)) DESC_STARTADDR) cs
          \<longrightarrow> printed_cycles out = of_nat (sum_list cs))"
    if files: "fs ''a'' = Some a" "fs ''b'' = Some b" "fs ''easm'' = Some (map of_char easm)" "can_write ''c''" for fs can_write
  proof -
    have inp: "\<forall>k < length vs. fs ([''eclipse-run'', ''easm'', ''c'', ''a'', ''b''] ! (k + 3)) = Some (buf k)
        \<and> length (buf k) = 2 * (rows_of (vs ! k) * cols_of (vs ! k))"
      using files a b dims by (auto simp: vs_def buf_def less_Suc_eq)
    show ?thesis
      by (rule module_run [where F = F and alignTo = alignTo and ops = ops and vs = vs and st = st and V = "k_bufs lt rt dt M N"
            and unroll = unroll and buf = buf and fs = fs and can_write = can_write,
            OF fmt al req lim _ vs(1-4) kernel_placeable [OF k bufs attrs] ops_ok desc e [unfolded prog] unr argv _ _ inp kernel_counts(3)])
        (use st files vs(5) in simp_all)
  qed
  then show ?thesis using e by (auto simp: kernel_counts(2) vs_def)
qed

text \<open>
  C1. From linalg to the output file: for every printer of numbers that the parser reads back,
  llvm::alignTo as documented, and every M > 0, N > 0 and K (a positive multiple of 16) with each
  of the three fp16 matrices in its DDR slot of 64 KiB and at most 1020 descriptors, that is 3 *
  (K / 16) + 1 <= 1020 or K <= 5424, the function that multiplies its arguments with linalg.matmul
  is lowered, allocated and emitted without error, and eclipse-run on the emitted text and two
  files of the right length that hold fp16 integers ends with exit code 0 and leaves the exact
  integer product in the output file, when the absolute products of a cell add up to less than
  2048. With more descriptors they overwrite the first argument (emitted_descriptors_apart).
\<close>

theorem matmul_kernel_from_files:
  fixes A B :: "nat \<Rightarrow> nat \<Rightarrow> int"
  assumes "number_format (fmt_hex F) (fmt_dec F)" and "align_to alignTo"
    and "kernel_ok lt rt dt M N t" and "K = 16 * Suc t" and "matmul_kernel lt rt dt = Inr ops"
    and "st = eclipse_allocate alignTo False [[(k_lhs lt, True), (k_rhs rt, True)]] ops"
    and "prog = map (map_values (replace_allocs (as_bufs st))) ops" and "unroll prog = Some (unrolled prog)"
    and "length a = 2 * (M * K)" and "length b = 2 * (K * N)"
    and "\<forall>i<M. \<forall>x<K. holds_int (half a (i * K + x)) (A i x)" and "\<forall>x<K. \<forall>j<N. holds_int (half b (x * N + j)) (B x j)"
    and "\<forall>i<M. \<forall>j<N. (\<Sum>x<K. \<bar>A i x * B x j\<bar>) < 2048"
  shows "\<not> as_failed st \<and> (\<exists>text next. eclipse_to_easm F (as_attrs st) unroll True prog = Inr (text, next)
    \<and> (\<forall>fs can_write. fs ''a'' = Some a \<longrightarrow> fs ''b'' = Some b \<longrightarrow> fs ''easm'' = Some (map of_char text) \<longrightarrow> can_write ''c'' \<longrightarrow>
        (\<exists>out c. eclipse_run P fs can_write [''eclipse-run'', ''easm'', ''c'', ''a'', ''b''] = Inr out
          \<and> exit_code out = 0 \<and> out_file out = Some c \<and> length c = 2 * (M * N)
          \<and> (\<forall>i<M. \<forall>j<N. holds_int (half c (i * N + j)) (\<Sum>x<K. A i x * B x j)))))"
proof -
  note k = assms(3)
  have ops: "ops = k_ops lt rt dt M N t" using assms(5) kernel_lowered [OF k] by (simp add: k_ops_def)
  define buf where "buf = (\<lambda>k :: nat. if k = 0 then a else b)"
  let ?c = "tensor_bytes (run_ops (bit_chip P demo_env) (k_flat lt rt dt M N t) (file_tensors buf [k_lhs lt, k_rhs rt])) (k_dst dt)"
  have dims: "rows_of (k_dst dt) = M" "cols_of (k_dst dt) = N" using k by (simp_all add: rows_of_def cols_of_def k_values kernel_ok_def)
  have prod: "holds_int (half ?c (i * N + j)) (\<Sum>x<K. A i x * B x j)" if ij: "i < M" "j < N" for i j
  proof -
    have "i * N + j < rows_of (k_dst dt) * cols_of (k_dst dt)" unfolding dims by (rule index_less [OF ij])
    then have "half ?c (i * N + j) = run_ops (bit_chip P demo_env) (k_flat lt rt dt M N t) (file_tensors buf [k_lhs lt, k_rhs rt]) (k_dst dt) [int i, int j]"
      using half_tensor_bytes(1) [of "i * N + j" "k_dst dt"] ij by (simp add: dims)
    then show ?thesis
      using kernel_product [OF k assms(4) ij, of buf A B] assms(11-13) ij by (simp add: buf_def)
  qed
  have "length ?c = 2 * (M * N)"
    using half_tensor_bytes(2) [of 0 "k_dst dt"] k by (simp add: dims kernel_ok_def)
  moreover obtain easm nxt where e: "eclipse_to_easm F (as_attrs st) unroll True prog = Inr (easm, nxt)"
    and run: "\<And>fs can_write. fs ''a'' = Some a \<Longrightarrow> fs ''b'' = Some b \<Longrightarrow> fs ''easm'' = Some (map of_char easm) \<Longrightarrow> can_write ''c'' \<Longrightarrow>
        \<exists>out. eclipse_run P fs can_write [''eclipse-run'', ''easm'', ''c'', ''a'', ''b''] = Inr out \<and> exit_code out = 0 \<and> out_file out = Some ?c"
  proof -
    from kernel_run [where P = P and E = demo_env and prog = prog and unroll = unroll, OF assms(1-10), folded buf_def] obtain easm nxt
      where e: "eclipse_to_easm F (as_attrs st) unroll True prog = Inr (easm, nxt)" and run: "\<forall>fs can_write. fs ''a'' = Some a \<longrightarrow>
        fs ''b'' = Some b \<longrightarrow> fs ''easm'' = Some (map of_char easm) \<longrightarrow> can_write ''c'' \<longrightarrow>
        (\<exists>out. eclipse_run P fs can_write [''eclipse-run'', ''easm'', ''c'', ''a'', ''b''] = Inr out \<and> exit_code out = 0 \<and> out_file out = Some ?c
          \<and> (\<forall>cs. list_all2 costs (program_images (as_attrs st) (map (map_values (replace_allocs (as_bufs st))) (k_flat lt rt dt M N t)) DESC_STARTADDR) cs
              \<longrightarrow> printed_cycles out = of_nat (sum_list cs)))" by (elim exE conjE)
    show thesis
    proof (rule that [OF e])
      fix fs can_write assume "fs ''a'' = Some a" "fs ''b'' = Some b" "fs ''easm'' = Some (map of_char easm)" "can_write ''c''"
      from run [rule_format, of fs can_write, OF this]
      show "\<exists>out. eclipse_run P fs can_write [''eclipse-run'', ''easm'', ''c'', ''a'', ''b''] = Inr out \<and> exit_code out = 0 \<and> out_file out = Some ?c"
        by (elim exE conjE) (intro exI conjI)
    qed
  qed
  moreover have "\<not> as_failed st" by (rule kernel_allocated(3) [OF k assms(2) assms(6) [unfolded ops]])
  ultimately show ?thesis
  proof (intro conjI exI [of _ easm] exI [of _ nxt] allI impI)
    fix fs can_write assume "fs ''a'' = Some a" "fs ''b'' = Some b" "fs ''easm'' = Some (map of_char easm)" "can_write ''c''"
    from run [of fs can_write, OF this] obtain out where "eclipse_run P fs can_write [''eclipse-run'', ''easm'', ''c'', ''a'', ''b''] = Inr out"
      "exit_code out = 0" "out_file out = Some ?c" by blast
    then show "\<exists>out c. eclipse_run P fs can_write [''eclipse-run'', ''easm'', ''c'', ''a'', ''b''] = Inr out
        \<and> exit_code out = 0 \<and> out_file out = Some c \<and> length c = 2 * (M * N)
        \<and> (\<forall>i<M. \<forall>j<N. holds_int (half c (i * N + j)) (\<Sum>x<K. A i x * B x j))"
      using \<open>length ?c = 2 * (M * N)\<close> prod by (intro exI [of _ out] exI [of _ ?c]) simp
  qed
qed

text \<open>A row of 32 ones times a column of 32 ones, in two tiles.\<close>

lemma half_replicate: "i < n \<Longrightarrow> half (concat (replicate n [x, y])) i = u16_of_bytes [x, y]"
proof (induction n arbitrary: i)
  case (Suc n)
  then show ?case by (cases i) (simp_all add: half_def)
qed simp

definition ones_file :: "u8 list" where
  "ones_file = concat (replicate 32 [0x00, 0x3C])"

theorem matmul_kernel_from_files_witness:
  "\<exists>text out c. eclipse_run sample_platform
       (\<lambda>p. if p = ''easm'' then Some (map of_char text) else Some ones_file) (\<lambda>_. True)
       [''eclipse-run'', ''easm'', ''c'', ''a'', ''b''] = Inr out
    \<and> exit_code out = 0 \<and> out_file out = Some c \<and> length c = 2 \<and> holds_int (half c 0) 32"
proof -
  let ?l = "packed_memref [1, 32] f16" and ?r = "packed_memref [32, 1] f16" and ?d = "packed_memref [1, 1] f16"
  have k: "kernel_ok ?l ?r ?d 1 1 1" by (simp add: kernel_ok_def packed_memref_def)
  obtain ops where ops: "matmul_kernel ?l ?r ?d = Inr ops" using kernel_lowered [OF k] by blast
  have f: "number_format (fmt_hex c_formatter) (fmt_dec c_formatter)" using c_emitter.emitter_axioms by (simp add: emitter_def)
  have len: "length ones_file = 64" by (simp add: ones_file_def length_concat sum_list_replicate)
  have one: "holds_int (half ones_file i) 1" if "i < 32" for i
    using that by (simp add: ones_file_def half_replicate u16_of_bytes_def)
      (simp add: holds_int_def finite16_def val16_def rest16_def sgn16_def mag_def)
  define st where "st = eclipse_allocate round_up False [[(k_lhs ?l, True), (k_rhs ?r, True)]] ops"
  define prog where "prog = map (map_values (replace_allocs (as_bufs st))) ops"
  have "\<not> as_failed st \<and> (\<exists>text next. eclipse_to_easm c_formatter (as_attrs st) (Some \<circ> unrolled) True prog = Inr (text, next)
    \<and> (\<forall>fs can_write. fs ''a'' = Some ones_file \<longrightarrow> fs ''b'' = Some ones_file \<longrightarrow> fs ''easm'' = Some (map of_char text) \<longrightarrow> can_write ''c'' \<longrightarrow>
        (\<exists>out c. eclipse_run sample_platform fs can_write [''eclipse-run'', ''easm'', ''c'', ''a'', ''b''] = Inr out
          \<and> exit_code out = 0 \<and> out_file out = Some c \<and> length c = 2 * (1 * 1)
          \<and> (\<forall>i<1. \<forall>j<1. holds_int (half c (i * 1 + j)) (\<Sum>x<32::nat. 1 * 1)))))"
    by (rule matmul_kernel_from_files [OF f round_up.align_to_axioms k _ ops st_def prog_def])
      (use one in \<open>simp_all add: len\<close>)
  then obtain easm nxt where e: "\<forall>fs can_write. fs ''a'' = Some ones_file \<longrightarrow> fs ''b'' = Some ones_file \<longrightarrow> fs ''easm'' = Some (map of_char easm) \<longrightarrow> can_write ''c'' \<longrightarrow>
        (\<exists>out c. eclipse_run sample_platform fs can_write [''eclipse-run'', ''easm'', ''c'', ''a'', ''b''] = Inr out
          \<and> exit_code out = 0 \<and> out_file out = Some c \<and> length c = 2 * (1 * 1)
          \<and> (\<forall>i<1. \<forall>j<1. holds_int (half c (i * 1 + j)) (\<Sum>x<32::nat. 1 * 1)))"
    by blast
  let ?fs = "\<lambda>p. if p = ''easm'' then Some (map of_char easm) else Some ones_file"
  have files: "?fs ''a'' = Some ones_file" "?fs ''b'' = Some ones_file" "?fs ''easm'' = Some (map of_char easm)" by simp_all
  from e [rule_format, OF files, of "\<lambda>_. True"] show ?thesis by (intro exI [of _ easm]) simp
qed

end
