(* ===== verification/Golden.thy ===== *)
theory Golden
  imports Kernel
begin

text \<open>
  tests/golden/matmul_golden.cpp: the hand-written product of two 128 x 128 matrices that the compiler
  is compared with, in eight tiles of the inner dimension.  \<open>GoldenImages\<close> has the images of its
  instructions and their cycles; \<open>GoldenMatch\<close> compares it with the compiled kernel.
\<close>

section \<open>The program\<close>

definition CMD_BASE :: u32 where "CMD_BASE = DDR_ADDR + 0x100"
definition DESC_STRIDE :: u32 where "DESC_STRIDE = 0x40"

definition A_SRAM :: u32 where "A_SRAM = SRAM_ADDR + 0x0"
definition B_SRAM :: u32 where "B_SRAM = SRAM_ADDR + 128 * 128 * ucast DTYPE_SIZE"
definition C_SRAM :: u32 where "C_SRAM = SRAM_ADDR + 128 * 128 * ucast DTYPE_SIZE * 2"

definition A_DDR :: u32 where "A_DDR = DDR_ADDR + 0x10000"
definition B_DDR :: u32 where "B_DDR = DDR_ADDR + 0x20000"
definition C_DDR :: u32 where "C_DDR = DDR_ADDR + 0x30000"

text \<open>The simulator, and the static counter of \<open>nextDescAddr\<close>.\<close>

record golden =
  gd_sim :: simulator
  gd_slot :: u32

definition nextDescAddr :: "golden \<Rightarrow> u32 \<times> golden" where
  "nextDescAddr g = (CMD_BASE + gd_slot g * DESC_STRIDE, g\<lparr>gd_slot := gd_slot g + 1\<rparr>)"

text \<open>The last three lines of every push function.\<close>

definition put_desc :: "OpCode \<Rightarrow> u8 list \<Rightarrow> golden \<Rightarrow> golden result" where
  "put_desc op desc g =
     (case nextDescAddr g of (descAddr, g) \<Rightarrow>
        rbind (writeDDR (gd_sim g) descAddr desc) (\<lambda>s.
          Inr (g\<lparr>gd_sim := push s \<lparr>opcode = opcode_value op, descPtr = descAddr\<rparr>\<rparr>)))"

definition pushDmaLoad :: "u32 \<Rightarrow> u32 \<Rightarrow> u32 \<Rightarrow> u32 \<Rightarrow> u32 \<Rightarrow> u32 \<Rightarrow> golden \<Rightarrow> golden result" where
  "pushDmaLoad sramAddr ddrAddr cow col srcStride dstStride =
     put_desc DMA_LOAD (bytes_of_DMAParam \<lparr>dma_sramAddr = sramAddr, dma_ddrAddr = ddrAddr, dma_rows = cow, dma_cols = col,
       dma_srcStride = srcStride, dma_dstStride = dstStride\<rparr>)"

text \<open>The product in one piece, which \<open>main\<close> does not call any more, and the one of a tile.\<close>

definition pushMatmulBlock :: "u32 \<Rightarrow> golden \<Rightarrow> golden result" where
  "pushMatmulBlock accumulate =
     put_desc MATMUL (bytes_of_MatmulParam \<lparr>mm_dstAddr = C_SRAM, mm_rhsAddr = B_SRAM, mm_lhsAddr = A_SRAM,
       mm_M = 128, mm_K = 128, mm_N = 128, mm_accumulate = accumulate, mm_transA = 0, mm_transB = 0\<rparr>)"

definition pushMatmulBlockTile :: "u32 \<Rightarrow> u32 \<Rightarrow> golden \<Rightarrow> golden result" where
  "pushMatmulBlockTile accumulate K =
     put_desc MATMUL (bytes_of_MatmulParam \<lparr>mm_dstAddr = C_SRAM, mm_rhsAddr = B_SRAM, mm_lhsAddr = A_SRAM,
       mm_M = 128, mm_K = K, mm_N = 128, mm_accumulate = accumulate, mm_transA = 0, mm_transB = 0\<rparr>)"

definition pushDmaStore :: "u32 \<Rightarrow> u32 \<Rightarrow> golden \<Rightarrow> golden result" where
  "pushDmaStore sramAddr ddrAddr =
     (let stride = 128 * ucast DTYPE_SIZE
      in put_desc DMA_STORE (bytes_of_DMAParam \<lparr>dma_sramAddr = sramAddr, dma_ddrAddr = ddrAddr, dma_rows = 128, dma_cols = 128,
           dma_srcStride = stride, dma_dstStride = stride\<rparr>))"

definition pushSync :: "golden \<Rightarrow> golden" where
  "pushSync g = g\<lparr>gd_sim := push (gd_sim g) \<lparr>opcode = opcode_value SYNC, descPtr = 0\<rparr>\<rparr>"

text \<open>One round of the loop of \<open>main\<close>, and what follows it up to \<open>run\<close>.\<close>

definition golden_tile :: "nat \<Rightarrow> golden \<Rightarrow> golden result" where
  "golden_tile i g =
     (let tile = 8; size = ucast DTYPE_SIZE
      in rbind (pushDmaLoad A_SRAM (A_DDR + of_nat (i * 128 div tile) * size) 128 (of_nat (128 div tile)) (128 * size)
                 (of_nat (128 div tile) * size) g) (\<lambda>g.
         rbind (pushDmaLoad B_SRAM (B_DDR + of_nat (i * 128 div tile * 128) * size) (of_nat (128 div tile)) 128 (128 * size)
                 (128 * size) g) (\<lambda>g.
         rbind (pushMatmulBlockTile (if i = 0 then 0 else 1) (of_nat (128 div tile)) (pushSync g)) (\<lambda>g.
         Inr (pushSync g)))))"

definition golden_program :: "golden \<Rightarrow> golden result" where
  "golden_program g = rbind (fold_result golden_tile [0..<8] g) (\<lambda>g. pushDmaStore C_SRAM C_DDR (pushSync g))"

section \<open>The trace\<close>

text \<open>\<open>0x%08x\<close>, \<open>%u\<close> and \<open>%-15s\<close>.\<close>

definition hex8 :: "u32 \<Rightarrow> string" where
  "hex8 w = (let d = digits_of 16 (unat w) in ''0x'' @ replicate (8 - length d) CHR ''0'' @ d)"

definition dec_u :: "u32 \<Rightarrow> string" where
  "dec_u w = digits_of 10 (unat w)"

definition pad15 :: "string \<Rightarrow> string" where
  "pad15 s = s @ replicate (15 - length s) CHR '' ''"

definition opcodeName :: "OpCode \<Rightarrow> string" where
  "opcodeName op = (case op of
       DMA_LOAD \<Rightarrow> ''DMA_LOAD'' | DMA_STORE \<Rightarrow> ''DMA_STORE'' | MATMUL \<Rightarrow> ''MATMUL''
     | ELEMENTWISE_ADD \<Rightarrow> ''ELEMENTWISE_ADD'' | ACT \<Rightarrow> ''ACT'' | SYNC \<Rightarrow> ''SYNC'' | _ \<Rightarrow> ''UNKNOWN'')"

definition trace_line :: "cmodel \<Rightarrow> Instruction \<Rightarrow> string result" where
  "trace_line m inst = (case enumerator opcodes (opcode inst) of
       Some SYNC \<Rightarrow> Inr (''SYNC'' @ [newline])
     | Some MATMUL \<Rightarrow> rbind (read_desc m (descPtr inst) 32 load_MatmulParam) (\<lambda>d.
         Inr (''MATMUL         desc='' @ hex8 (descPtr inst) @ '' dst='' @ hex8 (mm_dstAddr d) @ '' lhs='' @ hex8 (mm_lhsAddr d)
           @ '' rhs='' @ hex8 (mm_rhsAddr d) @ '' M='' @ dec_u (mm_M d) @ '' N='' @ dec_u (mm_N d) @ '' K='' @ dec_u (mm_K d)
           @ '' acc='' @ dec_u (mm_accumulate d) @ [newline]))
     | Some ELEMENTWISE_ADD \<Rightarrow> rbind (read_desc m (descPtr inst) 28 load_EwiseParam) (\<lambda>d.
         Inr (''ELEMENTWISE_ADD desc='' @ hex8 (descPtr inst) @ '' dst='' @ hex8 (ew_dstAddr d) @ '' lhs='' @ hex8 (ew_lhsAddr d)
           @ '' rhs='' @ hex8 (ew_rhsAddr d) @ '' rows='' @ dec_u (ew_rows d) @ '' cols='' @ dec_u (ew_cols d)
           @ '' blk='' @ dec_u (ew_rhsBlk d) @ '' stride='' @ dec_u (ew_rhsStride d) @ [newline]))
     | Some ACT \<Rightarrow> rbind (read_desc m (descPtr inst) 32 load_ActParam) (\<lambda>d.
         Inr (''ACT            desc='' @ hex8 (descPtr inst) @ '' dst='' @ hex8 (act_dstAddr d) @ '' src='' @ hex8 (act_srcAddr d)
           @ '' n='' @ dec_u (act_n d) @ '' kind='' @ dec_u (act_kind d) @ [newline]))
     | Some op \<Rightarrow> if op = DMA_LOAD \<or> op = DMA_STORE then rbind (read_desc m (descPtr inst) 24 load_DMAParam) (\<lambda>d.
         Inr (pad15 (opcodeName op) @ '' desc='' @ hex8 (descPtr inst) @ '' sram='' @ hex8 (dma_sramAddr d)
           @ '' ddr='' @ hex8 (dma_ddrAddr d) @ '' rows='' @ dec_u (dma_rows d) @ '' cols='' @ dec_u (dma_cols d)
           @ '' srcStride='' @ dec_u (dma_srcStride d) @ '' dstStride='' @ dec_u (dma_dstStride d) @ [newline]))
         else Inr []
     | None \<Rightarrow> Inr [])"

definition dumpTrace :: "(string \<Rightarrow> bool) \<Rightarrow> string \<Rightarrow> simulator \<Rightarrow> string result" where
  "dumpTrace can_write path sim =
     (if \<not> can_write path then Inl (ExitWith 1)
      else fold_result (\<lambda>e text. rbind (trace_line (cmodel_state sim) (ce_inst e)) (\<lambda>l. Inr (text @ l))) (cycleLog sim) [])"

section \<open>main\<close>

text \<open>What the process leaves: the trace, the output file, and the log and total that it prints.\<close>

record golden_outcome =
  go_trace :: string
  go_file :: "u8 list"
  go_log :: "CycleEntry list"
  go_total :: u64

definition readFile :: "(string \<Rightarrow> u8 list option) \<Rightarrow> string \<Rightarrow> u8 list result" where
  "readFile fs path = (case fs path of None \<Rightarrow> Inl (ExitWith 1) | Some data \<Rightarrow> Inr data)"

definition golden_main :: "platform \<Rightarrow> (string \<Rightarrow> u8 list option) \<Rightarrow> (string \<Rightarrow> bool) \<Rightarrow> string list \<Rightarrow> golden_outcome result" where
  "golden_main P fs can_write argv =
     (if length argv < 4 then Inl (ExitWith 1)
      else let tracePath = (if 5 \<le> length argv then argv ! 4 else ''golden.easm'')
           in rbind (readFile fs (argv ! 1)) (\<lambda>aBytes.
              rbind (readFile fs (argv ! 2)) (\<lambda>bBytes.
              rbind (writeDDR Simulator_init A_DDR aBytes) (\<lambda>sim.
              rbind (writeDDR sim B_DDR bBytes) (\<lambda>sim.
              rbind (golden_program \<lparr>gd_sim = sim, gd_slot = 0\<rparr>) (\<lambda>g.
              rbind (run P (gd_sim g)) (\<lambda>sim.
              rbind (dumpTrace can_write tracePath sim) (\<lambda>trace.
              if \<not> can_write (argv ! 3) then Inl NullDeref
              else rbind (sram C_SRAM) (\<lambda>p.
                   rbind (read_sram (cmodel_state sim) p (unat (128 * 128 * DTYPE_SIZE))) (\<lambda>bs.
                   Inr \<lparr>go_trace = trace, go_file = bs, go_log = cycleLog sim, go_total = totalCycles sim\<rparr>))))))))))"

end
