(* ===== verification/GoldenImages.thy ===== *)
theory GoldenImages
  imports Golden
begin

text \<open>
  The instructions and the descriptor bytes of the product of two 128 x 128 matrices, tile by tile:
  what the hand-written program puts in place, what the compiled kernel puts in place, and the
  cycles of each instruction.
\<close>

section \<open>The images of the instructions\<close>

text \<open>One tile and the final store, for buffers at \<open>a\<close>, \<open>b\<close> and \<open>c\<close> in SRAM.\<close>

definition tile_images :: "u32 \<Rightarrow> u32 \<Rightarrow> u32 \<Rightarrow> nat \<Rightarrow> (OpCode \<times> u32 \<times> u8 list) list" where
  "tile_images a b c j =
     (let da = CMD_BASE + of_nat (3 * j) * DESC_STRIDE
      in [(DMA_LOAD, da, bytes_of_DMAParam \<lparr>dma_sramAddr = a, dma_ddrAddr = A_DDR + of_nat (32 * j), dma_rows = 128, dma_cols = 16,
             dma_srcStride = 256, dma_dstStride = 32\<rparr>),
          (DMA_LOAD, da + DESC_STRIDE, bytes_of_DMAParam \<lparr>dma_sramAddr = b, dma_ddrAddr = B_DDR + of_nat (4096 * j), dma_rows = 16,
             dma_cols = 128, dma_srcStride = 256, dma_dstStride = 256\<rparr>),
          (SYNC, 0, []),
          (MATMUL, da + 2 * DESC_STRIDE, bytes_of_MatmulParam \<lparr>mm_dstAddr = c, mm_rhsAddr = b, mm_lhsAddr = a, mm_M = 128, mm_K = 16,
             mm_N = 128, mm_accumulate = (if j = 0 then 0 else 1), mm_transA = 0, mm_transB = 0\<rparr>),
          (SYNC, 0, [])])"

definition store_image :: "u32 \<Rightarrow> OpCode \<times> u32 \<times> u8 list" where
  "store_image c = (DMA_STORE, CMD_BASE + 24 * DESC_STRIDE, bytes_of_DMAParam \<lparr>dma_sramAddr = c, dma_ddrAddr = C_DDR, dma_rows = 128,
     dma_cols = 128, dma_srcStride = 256, dma_dstStride = 256\<rparr>)"

definition product_images :: "u32 \<Rightarrow> u32 \<Rightarrow> u32 \<Rightarrow> (OpCode \<times> u32 \<times> u8 list) list" where
  "product_images a b c = concat (map (tile_images a b c) [0..<8])"

section \<open>The hand-written program\<close>

lemma put_desc_placed:
  assumes "op \<noteq> SYNC" and "unat (gd_slot g) < 1000" and "length desc \<le> 0x40"
  shows "\<exists>g'. put_desc op desc g = Inr g' \<and> gd_slot g' = gd_slot g + 1
    \<and> placed (op, CMD_BASE + gd_slot g * DESC_STRIDE, desc) (gd_sim g) (gd_sim g')"
proof -
  have s: "unat (gd_slot g * DESC_STRIDE) = unat (gd_slot g) * 0x40" using assms(2) by (simp add: DESC_STRIDE_def unat_mult_no_wrap)
  then have "unat (CMD_BASE + gd_slot g * DESC_STRIDE) = 0x40000100 + unat (gd_slot g) * 0x40"
    using assms(2) by (simp add: CMD_BASE_def DDR_ADDR_def unat_add_no_wrap)
  then have p: "ddr (CMD_BASE + gd_slot g * DESC_STRIDE) = Inr (0x100 + unat (gd_slot g) * 0x40)"
    using assms(2) by (simp add: ddr_eq_Inr)
  then show ?thesis
    using assms by (auto simp: put_desc_def nextDescAddr_def writeDDR_def write_ddr_poke placed_def push_def)
qed

lemma pushSync_placed: "placed (SYNC, 0, []) (gd_sim g) (gd_sim (pushSync g))" "gd_slot (pushSync g) = gd_slot g"
  by (simp_all add: placed_def pushSync_def push_def)

lemma all_placed_append: "all_placed (xs @ ys) s t \<longleftrightarrow> (\<exists>u. all_placed xs s u \<and> all_placed ys u t)"
  by (induction xs arbitrary: s) auto

lemma desc_lengths: "length (bytes_of_DMAParam d) \<le> 0x40" "length (bytes_of_MatmulParam e) \<le> 0x40"
  by (simp_all add: bytes_of_DMAParam_def bytes_of_MatmulParam_def bytes_of_u32_def)

lemma tile_placed:
  assumes slot: "gd_slot g = of_nat (3 * j)" and j: "j < 8"
  shows "\<exists>g'. golden_tile j g = Inr g' \<and> gd_slot g' = of_nat (3 * Suc j)
    \<and> all_placed (tile_images A_SRAM B_SRAM C_SRAM j) (gd_sim g) (gd_sim g')"
proof -
  define da where "da = CMD_BASE + of_nat (3 * j) * DESC_STRIDE"
  define a where "a = bytes_of_DMAParam \<lparr>dma_sramAddr = A_SRAM, dma_ddrAddr = A_DDR + of_nat (32 * j), dma_rows = 128, dma_cols = 16,
    dma_srcStride = 256, dma_dstStride = 32\<rparr>"
  define b where "b = bytes_of_DMAParam \<lparr>dma_sramAddr = B_SRAM, dma_ddrAddr = B_DDR + of_nat (4096 * j), dma_rows = 16, dma_cols = 128,
    dma_srcStride = 256, dma_dstStride = 256\<rparr>"
  define m where "m = bytes_of_MatmulParam \<lparr>mm_dstAddr = C_SRAM, mm_rhsAddr = B_SRAM, mm_lhsAddr = A_SRAM, mm_M = 128, mm_K = 16,
    mm_N = 128, mm_accumulate = (if j = 0 then 0 else 1), mm_transA = 0, mm_transB = 0\<rparr>"
  have "unat (gd_slot g) = 3 * j" unfolding slot by (rule word32_of_nat) (use j in simp)
  then have small: "unat (gd_slot g) < 1000" "unat (gd_slot g + 1) < 1000" "unat (gd_slot g + 1 + 1) < 1000"
    using j by (simp_all add: unat_add_no_wrap)
  obtain g1 where g1: "put_desc DMA_LOAD a g = Inr g1" "gd_slot g1 = gd_slot g + 1"
    "placed (DMA_LOAD, CMD_BASE + gd_slot g * DESC_STRIDE, a) (gd_sim g) (gd_sim g1)"
    using put_desc_placed [of DMA_LOAD g a] small desc_lengths by (auto simp: a_def)
  obtain g2 where g2: "put_desc DMA_LOAD b g1 = Inr g2" "gd_slot g2 = gd_slot g1 + 1"
    "placed (DMA_LOAD, CMD_BASE + gd_slot g1 * DESC_STRIDE, b) (gd_sim g1) (gd_sim g2)"
    using put_desc_placed [of DMA_LOAD g1 b] small g1(2) desc_lengths by (auto simp: b_def)
  obtain g3 where g3: "put_desc MATMUL m (pushSync g2) = Inr g3" "gd_slot g3 = gd_slot g2 + 1"
    "placed (MATMUL, CMD_BASE + gd_slot g2 * DESC_STRIDE, m) (gd_sim (pushSync g2)) (gd_sim g3)"
    using put_desc_placed [of MATMUL "pushSync g2" m] small g1(2) g2(2) desc_lengths pushSync_placed(2) by (auto simp: m_def)
  have "golden_tile j g = Inr (pushSync g3)"
  proof -
    have "j * 128 div 8 = 16 * j" by simp
    then show ?thesis using g1(1) g2(1) g3(1)
      by (simp add: golden_tile_def pushDmaLoad_def pushMatmulBlockTile_def Let_def a_def b_def m_def DTYPE_SIZE_def mult.commute)
  qed
  moreover have "tile_images A_SRAM B_SRAM C_SRAM j = [(DMA_LOAD, CMD_BASE + gd_slot g * DESC_STRIDE, a),
      (DMA_LOAD, CMD_BASE + gd_slot g1 * DESC_STRIDE, b), (SYNC, 0, []), (MATMUL, CMD_BASE + gd_slot g2 * DESC_STRIDE, m), (SYNC, 0, [])]"
    by (simp add: tile_images_def Let_def a_def b_def m_def g1(2) g2(2) slot algebra_simps)
  moreover have "gd_slot (pushSync g3) = of_nat (3 * Suc j)"
    by (simp add: pushSync_placed(2) g3(2) g2(2) g1(2) slot)
  moreover have "all_placed [(DMA_LOAD, CMD_BASE + gd_slot g * DESC_STRIDE, a), (DMA_LOAD, CMD_BASE + gd_slot g1 * DESC_STRIDE, b),
      (SYNC, 0, []), (MATMUL, CMD_BASE + gd_slot g2 * DESC_STRIDE, m), (SYNC, 0, [])] (gd_sim g) (gd_sim (pushSync g3))"
    unfolding all_placed.simps using g1(3) g2(3) g3(3) pushSync_placed(1) by blast
  ultimately show ?thesis by (intro exI [of _ "pushSync g3"]) (simp only: simp_thms)
qed

lemma tiles_placed:
  "n \<le> 8 \<Longrightarrow> gd_slot g = 0 \<Longrightarrow> \<exists>g'. fold_result golden_tile [0..<n] g = Inr g' \<and> gd_slot g' = of_nat (3 * n)
    \<and> all_placed (concat (map (tile_images A_SRAM B_SRAM C_SRAM) [0..<n])) (gd_sim g) (gd_sim g')"
proof (induction n)
  case (Suc n)
  then obtain g1 where g1: "fold_result golden_tile [0..<n] g = Inr g1" "gd_slot g1 = of_nat (3 * n)"
    "all_placed (concat (map (tile_images A_SRAM B_SRAM C_SRAM) [0..<n])) (gd_sim g) (gd_sim g1)" by auto
  from tile_placed [OF g1(2)] Suc.prems obtain g2 where g2: "golden_tile n g1 = Inr g2" "gd_slot g2 = of_nat (3 * Suc n)"
    "all_placed (tile_images A_SRAM B_SRAM C_SRAM n) (gd_sim g1) (gd_sim g2)" by auto
  have "fold_result golden_tile [0..<Suc n] g = Inr g2" using g1(1) g2(1) by (simp add: fold_result_append)
  then show ?case using g1(3) g2 by (auto simp: all_placed_append)
qed simp

lemma golden_placed:
  "\<exists>g. golden_program \<lparr>gd_sim = s, gd_slot = 0\<rparr> = Inr g
    \<and> all_placed (product_images A_SRAM B_SRAM C_SRAM @ [(SYNC, 0, []), store_image C_SRAM]) s (gd_sim g)"
proof -
  obtain g1 where g1: "fold_result golden_tile [0..<8] \<lparr>gd_sim = s, gd_slot = 0\<rparr> = Inr g1" "gd_slot g1 = 24"
    "all_placed (product_images A_SRAM B_SRAM C_SRAM) s (gd_sim g1)"
    using tiles_placed [of 8 "\<lparr>gd_sim = s, gd_slot = 0\<rparr>"] by (auto simp: product_images_def simp del: upt_rec_numeral)
  define d where "d = bytes_of_DMAParam \<lparr>dma_sramAddr = C_SRAM, dma_ddrAddr = C_DDR, dma_rows = 128, dma_cols = 128,
    dma_srcStride = 256, dma_dstStride = 256\<rparr>"
  obtain g2 where g2: "put_desc DMA_STORE d (pushSync g1) = Inr g2"
    "placed (DMA_STORE, CMD_BASE + 24 * DESC_STRIDE, d) (gd_sim (pushSync g1)) (gd_sim g2)"
    using put_desc_placed [of DMA_STORE "pushSync g1" d] g1(2) desc_lengths pushSync_placed(2) by (auto simp: d_def)
  have "golden_program \<lparr>gd_sim = s, gd_slot = 0\<rparr> = Inr g2"
    using g1(1) g2(1) by (simp add: golden_program_def pushDmaStore_def d_def DTYPE_SIZE_def Let_def del: upt_rec_numeral)
  moreover have "all_placed [(SYNC, 0, []), store_image C_SRAM] (gd_sim g1) (gd_sim g2)"
    using g2(2) pushSync_placed(1) [of g1] by (auto simp: store_image_def d_def)
  ultimately show ?thesis using g1(3) by (auto simp: all_placed_append)
qed

section \<open>The compiled program\<close>

lemma program_images_append:
  "program_images attrs (xs @ ys) da = program_images attrs xs da @ program_images attrs ys (da + of_nat (descriptors xs) * DESC_LEN)"
  by (induction xs arbitrary: da) (simp_all add: descriptors_def algebra_simps)

text \<open>What the placement says: the arguments and the result in DDR, the three buffers in SRAM.\<close>

definition kernel_placed :: "memref \<Rightarrow> memref \<Rightarrow> memref \<Rightarrow> u32 \<Rightarrow> u32 \<Rightarrow> u32 \<Rightarrow> attributes \<Rightarrow> (ir_value \<rightharpoonup> u32) \<Rightarrow> bool" where
  "kernel_placed lt rt dt a b c attrs bufs \<longleftrightarrow> bufs = [k_L 128 \<mapsto> a, k_R 128 \<mapsto> b, k_D 128 128 \<mapsto> c]
     \<and> attrs = [k_lhs lt \<mapsto> 0x40010000, k_rhs rt \<mapsto> 0x40020000, k_dst dt \<mapsto> 0x40030000]"

lemma kernel_placed_simps:
  assumes "kernel_placed lt rt dt a b c attrs bufs"
  shows "base_addr attrs (k_lhs lt) = A_DDR" "base_addr attrs (k_rhs rt) = B_DDR" "base_addr attrs (k_dst dt) = C_DDR"
    and "replace_allocs bufs (k_L 128) = SramBuf 6 a (packed_memref [128, 16] f16)"
    and "replace_allocs bufs (k_R 128) = SramBuf 7 b (packed_memref [16, 128] f16)"
    and "replace_allocs bufs (k_D 128 128) = SramBuf 8 c (packed_memref [128, 128] f16)"
    and "replace_allocs bufs (k_lhs lt) = k_lhs lt" "replace_allocs bufs (k_rhs rt) = k_rhs rt" "replace_allocs bufs (k_dst dt) = k_dst dt"
  using assms by (simp_all add: kernel_placed_def base_addr_def k_values new_alloc_def A_DDR_def B_DDR_def C_DDR_def DDR_ADDR_def)

lemma tile_as_images:
  assumes pl: "kernel_placed lt rt dt a b c attrs bufs" and k: "kernel_ok lt rt dt 128 128 7"
    and da: "da = CMD_BASE + of_nat (3 * j) * DESC_STRIDE" and acc: "acc = (j \<noteq> 0)"
  shows "program_images attrs (map (map_values (replace_allocs bufs)) (k_tile lt rt 128 128 n acc (16 * int j))) da = tile_images a b c j"
proof -
  note p = kernel_placed_simps [OF pl]
  have sh: "mr_shape lt = [128, 128]" "mr_shape rt = [128, 128]" using k by (simp_all add: kernel_ok_def)
  have "value_type (k_lhs lt) = lt" "value_type (k_rhs rt) = rt" by (simp_all add: k_lhs_def k_rhs_def)
  then have ld: "expected attrs (DmaLoadOp (replace_allocs bufs (subview2 m (toDDR 3 (k_lhs lt)) [0, 16 * int j] [128, 16])) (SramBuf 6 a t)) da
      = (DMA_LOAD, da, bytes_of_DMAParam \<lparr>dma_sramAddr = a, dma_ddrAddr = A_DDR + of_nat (32 * j), dma_rows = 128, dma_cols = 16,
             dma_srcStride = 256, dma_dstStride = 32\<rparr>)"
    "expected attrs (DmaLoadOp (replace_allocs bufs (subview2 m (toDDR 4 (k_rhs rt)) [16 * int j, 0] [16, 128])) (SramBuf 7 b t)) da
      = (DMA_LOAD, da, bytes_of_DMAParam \<lparr>dma_sramAddr = b, dma_ddrAddr = B_DDR + of_nat (4096 * j), dma_rows = 16,
             dma_cols = 128, dma_srcStride = 256, dma_dstStride = 256\<rparr>)" for m t da
    by (simp_all add: expected_def ddr_block_def subview2_def toDDR_def Let_def p sh sbuf_addr_def)
  show ?thesis
    by (simp add: k_tile_def matmul_tile_def Let_def tileK_def instruction_op_def p ld tile_images_def da)
      (simp add: expected_def p matmul_dims_def sbuf_addr_def acc packed_memref_def DESC_LEN_def DESC_STRIDE_def algebra_simps)
qed

lemma tile_descriptors: "descriptors (map (map_values f) (k_tile lt rt M N n acc ik)) = 3"
  by (simp add: descriptors_def k_tile_def matmul_tile_def Let_def instruction_op_def)

lemma tiles_as_images:
  assumes "kernel_placed lt rt dt a b c attrs bufs" and "kernel_ok lt rt dt 128 128 7"
  shows "program_images attrs (map (map_values (replace_allocs bufs))
        (concat (map (\<lambda>j. k_tile lt rt 128 128 (h j) (j \<noteq> 0) (16 * int j)) [m..<m + n]))) (CMD_BASE + of_nat (3 * m) * DESC_STRIDE)
      = concat (map (tile_images a b c) [m..<m + n])"
proof (induction n arbitrary: m)
  case (Suc n)
  have "CMD_BASE + of_nat (3 * m) * DESC_STRIDE + of_nat 3 * DESC_LEN = CMD_BASE + of_nat (3 * Suc m) * DESC_STRIDE"
    by (simp add: DESC_LEN_def DESC_STRIDE_def algebra_simps)
  moreover have "[m..<m + Suc n] = m # [Suc m..<Suc m + n]" by (simp add: upt_rec)
  ultimately show ?case
    using Suc.IH [of "Suc m"] tile_as_images [OF assms refl, of "m \<noteq> 0" m "h m"]
    by (simp only: list.map concat.simps map_append program_images_append tile_descriptors simp_thms)
qed simp

definition k_front :: "memref \<Rightarrow> memref \<Rightarrow> memref \<Rightarrow> operation list" where
  "k_front lt rt dt = k_head lt rt dt 128 128
     @ concat (map (\<lambda>j. k_tile lt rt 128 128 (if j = 0 then 9 else 11 + 2 * j) (j \<noteq> 0) (16 * int j)) [0..<8])"

lemma flat_front: "k_flat lt rt dt 128 128 7 = k_front lt rt dt @ k_tail dt 128 128"
  by (simp add: k_flat_def k_front_def upto_rec1 upt_rec)

lemma kernel_as_images:
  assumes pl: "kernel_placed lt rt dt a b c attrs bufs" and k: "kernel_ok lt rt dt 128 128 7" and sy: "set sy \<subseteq> {SyncOp}"
  shows "program_images attrs (map (map_values (replace_allocs bufs)) (k_front lt rt dt @ sy @ k_tail dt 128 128)) DESC_STARTADDR
    = product_images a b c @ map (\<lambda>op. (SYNC, 0, [])) sy @ [store_image c]"
proof -
  define F where "F = map (map_values (replace_allocs bufs))"
  note p = kernel_placed_simps [OF pl]
  have sh: "mr_shape dt = [128, 128]" using k by (simp_all add: kernel_ok_def)
  have head: "program_images attrs (F (k_head lt rt dt 128 128)) da = []" "descriptors (F (k_head lt rt dt 128 128)) = 0" for da
    by (simp_all add: F_def k_head_def instruction_op_def descriptors_def)
  have start: "DESC_STARTADDR = CMD_BASE + of_nat (3 * 0) * DESC_STRIDE" by (simp add: DESC_STARTADDR_def CMD_BASE_def)
  have "program_images attrs (F (k_front lt rt dt)) DESC_STARTADDR = product_images a b c"
    using tiles_as_images [OF pl k, of "\<lambda>j. if j = 0 then 9 else 11 + 2 * j" 0 8] head
    by (simp add: k_front_def F_def start program_images_append product_images_def del: upt_rec_numeral)
  moreover have "descriptors (F (k_front lt rt dt)) = 24"
  proof -
    have add: "descriptors (xs @ ys) = descriptors xs + descriptors ys" for xs ys by (simp add: descriptors_def)
    have "descriptors (F (concat (map (\<lambda>j. k_tile lt rt 128 128 (h j) (j \<noteq> 0) (16 * int j)) js))) = 3 * length js" for h js
      by (induction js) (simp_all add: F_def add tile_descriptors, simp add: descriptors_def)
    then show ?thesis using head(2) by (simp add: k_front_def F_def add del: upt_rec_numeral)
  qed
  moreover have "program_images attrs (F (sy @ k_tail dt 128 128)) da = map (\<lambda>op. (SYNC, 0, [])) sy @ program_images attrs (F (k_tail dt 128 128)) da" for da
    using sy by (induction sy) (auto simp: F_def instruction_op_def expected_def)
  moreover have "value_type (k_dst dt) = dt" by (simp add: k_dst_def)
  then have "program_images attrs (F (k_tail dt 128 128)) (CMD_BASE + 24 * DESC_STRIDE) = [store_image c]"
    by (simp add: F_def k_tail_def instruction_op_def expected_def ddr_block_def toDDR_def p sh sbuf_addr_def store_image_def)
  moreover have "DESC_STARTADDR + 24 * DESC_LEN = CMD_BASE + 24 * DESC_STRIDE"
    by (simp add: DESC_STARTADDR_def CMD_BASE_def DESC_LEN_def DESC_STRIDE_def)
  ultimately show ?thesis unfolding F_def [symmetric] by (simp add: program_images_append F_def)
qed

section \<open>Cycles\<close>

lemma aligned_blocks:
  assumes "16 dvd s" and "0 < n"
  shows "blocks_met s (16 * n) = n"
proof -
  obtain q where q: "s = 16 * q" using assms(1) by (elim dvdE)
  have "(s + 16 * n - 1) div 16 = q + (n - 1)" using assms(2) unfolding q by (cases n) simp_all
  then show ?thesis using assms(2) by (subst blocks_met_eq) (simp_all add: q)
qed

lemma dma_costs:
  assumes op: "op = DMA_LOAD \<and> st = dma_srcStride d \<or> op = DMA_STORE \<and> st = dma_dstStride d"
    and fit: "rows_fit 0x40000000 0xC0000000 (dma_ddrAddr d) st (unat (dma_rows d)) (2 * unat (dma_cols d))"
    and cols: "unat (dma_cols d) = 8 * n" "0 < n" and al: "16 dvd unat (dma_ddrAddr d)" "16 dvd unat st"
  shows "costs (op, dp, bytes_of_DMAParam d) (ceil_div (16 * (unat (dma_rows d) * n)) 32 + 16)"
  unfolding costs_def
proof (intro allI impI)
  fix m assume i: "in_ddr m (op, dp, bytes_of_DMAParam d)"
  define isLoad where "isLoad = (op = DMA_LOAD)"
  have st: "dma_stride d isLoad = st" using op by (auto simp: dma_stride_def isLoad_def)
  have rd: "read_desc m dp 24 load_DMAParam = Inr d" by (rule dma_desc.read_image [OF i]) (use op in auto)
  have row: "unat (dma_ddrAddr d + st * of_nat i) = unat (dma_ddrAddr d) + unat st * i"
    "0x40000000 \<le> unat (dma_ddrAddr d) + unat st * i" "unat (dma_ddrAddr d) + unat st * i + 2 * unat (dma_cols d) \<le> 0xC0000000"
    if "i < unat (dma_rows d)" for i
    using row_addr_nat [OF fit that] rows_fit_row [OF fit that] cols by (simp_all add: row_at_def max_def split: if_splits)
  have "dma_cols d \<noteq> 0" using cols by auto
  then have "dma_rows_in_ddr d isLoad" using row by (simp add: dma_rows_in_ddr_def st word_neq_0_conv)
  from cyclesDma_nat [OF rd this] obtain c where c: "cyclesDma m dp isLoad = Inr c" "unat c =
    ceil_div (16 * (\<Sum>i<unat (dma_rows d). blocks_met (unat (dma_ddrAddr d + st * of_nat i)) (2 * unat (dma_cols d)))) 32 + 16"
    by (auto simp: st)
  have "blocks_met (unat (dma_ddrAddr d + st * of_nat i)) (2 * unat (dma_cols d)) = n" if "i < unat (dma_rows d)" for i
    using aligned_blocks [of "unat (dma_ddrAddr d) + unat st * i" n] al cols row(1) [OF that] by simp
  then have "unat c = ceil_div (16 * (unat (dma_rows d) * n)) 32 + 16" using c(2) by simp
  then have "c = of_nat (ceil_div (16 * (unat (dma_rows d) * n)) 32 + 16)" by (metis of_nat_unat ucast_id)
  then show "computeCycles m (image_instr (op, dp, bytes_of_DMAParam d)) = Inr (of_nat (ceil_div (16 * (unat (dma_rows d) * n)) 32 + 16))"
    using op c(1) by (auto simp only: computes_as OpCode.case isLoad_def simp_thms OpCode.distinct)
qed

lemma matmul_costs:
  assumes "unat (mm_M d) * unat (mm_N d) \<le> 0x40000"
  shows "costs (MATMUL, dp, bytes_of_MatmulParam d) (ceil_div (unat (mm_M d) * unat (mm_N d)) 256 * unat (mm_K d))"
  unfolding costs_def
proof (intro allI impI)
  fix m assume i: "in_ddr m (MATMUL, dp, bytes_of_MatmulParam d)"
  have rd: "read_desc m dp 32 load_MatmulParam = Inr d" by (rule matmul_desc.read_image [OF i]) simp
  from cyclesMatmul_nat [OF rd assms] obtain c where c: "cyclesMatmul m dp = Inr c"
    "unat c = ceil_div (unat (mm_M d) * unat (mm_N d)) 256 * unat (mm_K d)" by blast
  then have "c = of_nat (ceil_div (unat (mm_M d) * unat (mm_N d)) 256 * unat (mm_K d))" by (metis of_nat_unat ucast_id)
  then show "computeCycles m (image_instr (MATMUL, dp, bytes_of_MatmulParam d)) = Inr (of_nat (ceil_div (unat (mm_M d) * unat (mm_N d)) 256 * unat (mm_K d)))"
    using c(1) by (simp only: computes_as OpCode.case)
qed

lemma sync_costs: "costs (SYNC, 0, []) 0"
  unfolding costs_def computes_as OpCode.case by simp

text \<open>A tile loads 4 KiB twice, 16 cycles of latency each, and multiplies 16 products on 16384 cells.\<close>

lemma tile_costs:
  assumes "j < 8"
  shows "list_all2 costs (tile_images a b c j) [144, 144, 0, 1024, 0]"
proof -
  have j: "j \<in> {0, 1, 2, 3, 4, 5, 6, 7}" using assms by auto
  have au: "unat (A_DDR + of_nat (32 * j)) = 0x40010000 + 32 * j" "unat (B_DDR + of_nat (4096 * j)) = 0x40020000 + 4096 * j"
    using j by (auto simp: A_DDR_def B_DDR_def DDR_ADDR_def)
  have "costs (DMA_LOAD, da, bytes_of_DMAParam \<lparr>dma_sramAddr = a, dma_ddrAddr = A_DDR + of_nat (32 * j), dma_rows = 128, dma_cols = 16,
             dma_srcStride = 256, dma_dstStride = 32\<rparr>) (ceil_div (16 * (unat (128 :: u32) * 2)) 32 + 16)" for da
    using dma_costs [where d = "\<lparr>dma_sramAddr = a, dma_ddrAddr = A_DDR + of_nat (32 * j), dma_rows = 128, dma_cols = 16,
             dma_srcStride = 256, dma_dstStride = 32\<rparr>" and n = 2 and st = 256 and op = DMA_LOAD and dp = da] au assms
    by (simp add: rows_fit_def row_at_def)
  moreover have "costs (DMA_LOAD, da, bytes_of_DMAParam \<lparr>dma_sramAddr = b, dma_ddrAddr = B_DDR + of_nat (4096 * j), dma_rows = 16,
             dma_cols = 128, dma_srcStride = 256, dma_dstStride = 256\<rparr>) (ceil_div (16 * (unat (16 :: u32) * 16)) 32 + 16)" for da
    using dma_costs [where d = "\<lparr>dma_sramAddr = b, dma_ddrAddr = B_DDR + of_nat (4096 * j), dma_rows = 16, dma_cols = 128,
             dma_srcStride = 256, dma_dstStride = 256\<rparr>" and n = 16 and st = 256 and op = DMA_LOAD and dp = da] au assms
    by (simp add: rows_fit_def row_at_def)
  moreover have "costs (MATMUL, da, bytes_of_MatmulParam \<lparr>mm_dstAddr = c, mm_rhsAddr = b, mm_lhsAddr = a, mm_M = 128, mm_K = 16,
             mm_N = 128, mm_accumulate = acc, mm_transA = 0, mm_transB = 0\<rparr>) (ceil_div (unat (128 :: u32) * unat (128 :: u32)) 256 * unat (16 :: u32))" for da acc
    using matmul_costs [of "\<lparr>mm_dstAddr = c, mm_rhsAddr = b, mm_lhsAddr = a, mm_M = 128, mm_K = 16,
             mm_N = 128, mm_accumulate = acc, mm_transA = 0, mm_transB = 0\<rparr>" da] by simp
  ultimately show ?thesis by (simp add: tile_images_def Let_def sync_costs ceil_div_def)
qed

lemma store_costs: "costs (store_image c) 1040"
proof -
  have "unat C_DDR = 0x40030000" by (simp add: C_DDR_def DDR_ADDR_def)
  then show ?thesis unfolding store_image_def
    using dma_costs [where d = "\<lparr>dma_sramAddr = c, dma_ddrAddr = C_DDR, dma_rows = 128, dma_cols = 128,
             dma_srcStride = 256, dma_dstStride = 256\<rparr>" and n = 16 and st = 256 and op = DMA_STORE] by (simp add: rows_fit_def row_at_def ceil_div_def)
qed

lemma product_costs:
  "\<exists>cs. list_all2 costs (product_images a b c @ replicate n (SYNC, 0, []) @ [store_image c]) cs \<and> sum_list cs = 11536"
proof -
  have "list_all2 costs (concat (map (tile_images a b c) js)) (concat (map (\<lambda>j. [144, 144, 0, 1024, 0]) js))" if "\<forall>j \<in> set js. j < 8" for js
    using that
  proof (induction js)
    case (Cons j js)
    then have "list_all2 costs (tile_images a b c j) [144, 144, 0, 1024, 0]"
      "list_all2 costs (concat (map (tile_images a b c) js)) (concat (map (\<lambda>j. [144, 144, 0, 1024, 0]) js))"
      using tile_costs by simp_all
    from list_all2_appendI [OF this] show ?case by simp
  qed simp
  from this [of "[0..<8]"] have "list_all2 costs (product_images a b c) (concat (map (\<lambda>j. [144, 144, 0, 1024, 0]) [0..<8 :: nat]))"
    by (simp add: product_images_def del: upt_rec_numeral)
  moreover have "list_all2 costs (replicate n (SYNC, 0, [])) (replicate n 0)" by (simp add: list_all2_conv_all_nth sync_costs)
  ultimately have "list_all2 costs (product_images a b c @ replicate n (SYNC, 0, []) @ [store_image c])
      (concat (map (\<lambda>j. [144, 144, 0, 1024, 0]) [0..<8 :: nat]) @ replicate n (0 :: nat) @ [1040])"
    using store_costs by (intro list_all2_appendI) simp_all
  moreover have "sum_list (concat (map (\<lambda>j. [144, 144, 0, 1024, 0]) [0..<8 :: nat]) @ replicate n (0 :: nat) @ [1040]) = 11536"
    by (simp add: upt_rec sum_list_replicate)
  ultimately show ?thesis by blast
qed

end
