(* ===== verification/GoldenMatch.thy ===== *)
theory GoldenMatch
  imports GoldenImages
begin

text \<open>
  The hand-written product against the compiled one: the same instructions up to one SYNC, the same
  output file bit for bit, and the 11536 cycles of docs/plans/h2-plan.md for both.
\<close>

section \<open>Where the hand-written program puts its tensors\<close>

text \<open>The slots of the ABI in DDR, and the three fixed addresses in SRAM.\<close>

definition golden_placement :: "memref \<Rightarrow> memref \<Rightarrow> memref \<Rightarrow> alloc_state" where
  "golden_placement lt rt dt = \<lparr>as_sram = \<lparr>sa_base = SRAM_ADDR, sa_size = SRAM_SIZE, sa_next = C_SRAM + 0x8000\<rparr>, as_ddr = slot 3,
     as_attrs = [k_lhs lt \<mapsto> 0x40010000, k_rhs rt \<mapsto> 0x40020000, k_dst dt \<mapsto> 0x40030000],
     as_bufs = [k_L 128 \<mapsto> A_SRAM, k_R 128 \<mapsto> B_SRAM, k_D 128 128 \<mapsto> C_SRAM], as_failed = False\<rparr>"

lemma golden_placement_simps:
  "as_attrs (golden_placement lt rt dt) = [k_lhs lt \<mapsto> 0x40010000, k_rhs rt \<mapsto> 0x40020000, k_dst dt \<mapsto> 0x40030000]"
  "as_bufs (golden_placement lt rt dt) = [k_L 128 \<mapsto> A_SRAM, k_R 128 \<mapsto> B_SRAM, k_D 128 128 \<mapsto> C_SRAM]"
  "kernel_placed lt rt dt A_SRAM B_SRAM C_SRAM (as_attrs (golden_placement lt rt dt)) (as_bufs (golden_placement lt rt dt))"
  by (simp_all add: golden_placement_def kernel_placed_def)

lemma golden_sram: "unat A_SRAM = 0x10000000" "unat B_SRAM = 0x10008000" "unat C_SRAM = 0x10010000"
  by (simp_all add: A_SRAM_def B_SRAM_def C_SRAM_def SRAM_ADDR_def DTYPE_SIZE_def)

lemma golden_ddr_slots: "uint (slot 0) = 0x40010000" "uint (slot 1) = 0x40020000" "uint (slot 2) = 0x40030000"
  by (simp_all add: slot_def DDR_ADDR_def)

lemma golden_ddr_inv: "ddr_inv 0x7FFF (golden_placement lt rt dt)"
proof -
  have "\<exists>j<3. a = uint (slot j)" if "as_attrs (golden_placement lt rt dt) v = Some a" for v a
  proof -
    have "a = uint (slot 0) \<or> a = uint (slot 1) \<or> a = uint (slot 2)"
      using that unfolding golden_placement_simps golden_ddr_slots by (auto split: if_splits)
    moreover have "0 < (3 :: nat)" "1 < (3 :: nat)" "2 < (3 :: nat)" by simp_all
    ultimately show ?thesis by blast
  qed
  moreover have "v = w" if "as_attrs (golden_placement lt rt dt) v = Some a" "as_attrs (golden_placement lt rt dt) w = Some a" for v w a
    using that by (auto simp: golden_placement_simps split: if_splits)
  moreover have "as_ddr (golden_placement lt rt dt) = slot 3" by (simp only: golden_placement_def alloc_state.select_convs)
  moreover have "(3 :: nat) \<le> 0x7FFF" by simp
  ultimately show ?thesis unfolding ddr_inv_def by blast
qed

lemma golden_sram_inv: "sram_inv (golden_placement lt rt dt)"
proof -
  have b: "buf_bytes (k_L 128) = 0x1000" "buf_bytes (k_R 128) = 0x1000" "buf_bytes (k_D 128 128) = 0x8000"
    "buf_align (k_L 128) = 32" "buf_align (k_R 128) = 32" "buf_align (k_D 128 128) = 32"
    by (simp_all add: buf_bytes_def buf_align_def byte_size_def num_elements_def k_values new_alloc_def packed_memref_def f16_def)
  have n: "unat (C_SRAM + 0x8000) = 0x10018000" by (simp add: C_SRAM_def SRAM_ADDR_def DTYPE_SIZE_def)
  have "0x10000000 \<le> unat a \<and> unat a + buf_bytes v \<le> 0x10018000 \<and> buf_align v dvd unat a"
    if "as_bufs (golden_placement lt rt dt) v = Some a" for v a
    using that by (auto simp: golden_placement_simps golden_sram b split: if_splits)
  moreover have "apart (unat a) (buf_bytes v) (unat c) (buf_bytes w)"
    if "as_bufs (golden_placement lt rt dt) v = Some a" "as_bufs (golden_placement lt rt dt) w = Some c" "v \<noteq> w" for v w a c
    using that by (auto simp: golden_placement_simps golden_sram b apart_def split: if_splits)
  ultimately show ?thesis unfolding sram_inv_def by (auto simp: golden_placement_def n)
qed

section \<open>The run\<close>

text \<open>The inner SYNC is the only instruction that the compiler does not emit.\<close>

definition golden_flat :: "memref \<Rightarrow> memref \<Rightarrow> memref \<Rightarrow> operation list" where
  "golden_flat lt rt dt = k_front lt rt dt @ SyncOp # k_tail dt 128 128"

lemma golden_flat_runs: "run_ops C (golden_flat lt rt dt) = run_ops C (k_flat lt rt dt 128 128 7)"
  by (simp add: golden_flat_def flat_front fun_eq_iff)

lemma divisors_append: "divisors_ok C (xs @ ys) T \<longleftrightarrow> divisors_ok C xs T \<and> divisors_ok C ys (run_ops C xs T)"
  by (induction xs arbitrary: T) simp_all

lemma golden_flat_ok:
  assumes "kernel_ok lt rt dt 128 128 7"
  shows "\<forall>op \<in> set (golden_flat lt rt dt). op_ok (in_bufs (as_bufs (golden_placement lt rt dt))) (k_bufs lt rt dt 128 128) op"
    and "divisors_ok C (golden_flat lt rt dt) T" and "descriptors (golden_flat lt rt dt) \<le> 1020"
proof -
  show "\<forall>op \<in> set (golden_flat lt rt dt). op_ok (in_bufs (as_bufs (golden_placement lt rt dt))) (k_bufs lt rt dt 128 128) op"
    using kernel_op_ok [OF assms golden_placement_simps(2)] by (auto simp: golden_flat_def flat_front op_ok_def [of _ _ SyncOp])
  show "divisors_ok C (golden_flat lt rt dt) T"
    using kernel_counts(3) [of C lt rt dt 128 128 7 T] by (simp add: golden_flat_def flat_front divisors_append divides_ok_def)
  show "descriptors (golden_flat lt rt dt) \<le> 1020"
    using kernel_counts(1) [of lt rt dt 128 128 7] by (simp add: golden_flat_def flat_front descriptors_def instruction_op_def)
qed

text \<open>A buffer of SRAM as bytes, and the trace of a log whose descriptors are in DDR.\<close>

lemma held_sram:
  assumes "layout_ok attrs V" and "holds attrs V T m" and "v \<in> set V" and "is_buf v"
  shows "\<exists>p. sram (sbuf_addr v) = Inr p \<and> read_sram m p (2 * (rows_of v * cols_of v)) = Inr (tensor_bytes T v)"
proof -
  have K: "block_ok attrs v" using assms(1,3) by (simp add: layout_ok_def)
  define p where "p = sram_off (sbuf_addr v)"
  have "0 < rows_of v * cols_of v" using block_shape(2,3) [OF K] by simp
  moreover from K assms(4) have b: "0x10000000 \<le> unat (sbuf_addr v)" "unat (sbuf_addr v) + 2 * (rows_of v * cols_of v) \<le> 0x10080000"
    by (simp_all add: block_ok_def)
  ultimately have "unat (sbuf_addr v) < 0x10080000" by linarith
  with b have p: "sram (sbuf_addr v) = Inr p" "p + 2 * (rows_of v * cols_of v) \<le> 0x80000"
    by (simp_all add: p_def sram_off_def sram_eq_Inr)
  have "read_sram m p (2 * (rows_of v * cols_of v)) = Inr (map (sram_bytes m) [p..<p + 2 * (rows_of v * cols_of v)])"
    using p(2) by (intro mem.a.rd_in) (simp add: to_nat)
  also have "map (sram_bytes m) [p..<p + 2 * (rows_of v * cols_of v)] = tensor_bytes T v"
    unfolding words_of_bytes tensor_bytes_def
  proof (intro arg_cong [where f = concat] map_cong refl arg_cong [where f = bytes_of_u16])
    fix i assume "i \<in> set [0..<rows_of v * cols_of v]"
    then have "i div cols_of v < rows_of v" "i mod cols_of v < cols_of v"
      using block_shape(3) [OF K] by (simp_all add: div_less_iff_less_mult)
    from holdsD [OF assms(2,3) this] assms(4)
    show "u16_of_bytes [sram_bytes m (p + 2 * i), sram_bytes m (p + 2 * i + 1)] = T v [int (i div cols_of v), int (i mod cols_of v)]"
      by (simp add: elem_def sram_fp16_def p_def)
  qed
  finally show ?thesis using p(1) by blast
qed

lemma trace_line_total:
  assumes "op = SYNC \<or> 0x40000000 \<le> unat dp \<and> unat dp \<le> 0x40010000"
  shows "\<exists>l. trace_line m (image_instr (op, dp, bs)) = Inr l"
proof (cases "op = SYNC")
  case True
  then show ?thesis by (simp only: trace_line_def image_instr_def prod.case enumerator_opcode Instruction.select_convs option.case OpCode.case) simp
next
  case False
  with assms have "ddr dp = Inr (unat dp - 0x40000000)" "unat dp - 0x40000000 + 0x100 \<le> 0x80000000" by (simp add: ddr_eq_Inr, linarith)
  then have r: "\<exists>d. read_desc m dp n dec = Inr d" if "n \<le> 0x100" for n and dec :: "u8 list \<Rightarrow> 'd"
    using that mem.b.rd_in [of "unat dp - 0x40000000" n m] by (simp add: read_desc_def to_nat)
  obtain a where "read_desc m dp 24 load_DMAParam = Inr a" using r [of 24 load_DMAParam] by auto
  moreover obtain b where "read_desc m dp 32 load_MatmulParam = Inr b" using r [of 32 load_MatmulParam] by auto
  moreover obtain c where "read_desc m dp 28 load_EwiseParam = Inr c" using r [of 28 load_EwiseParam] by auto
  moreover obtain d where "read_desc m dp 32 load_ActParam = Inr d" using r [of 32 load_ActParam] by auto
  ultimately show ?thesis
    by (cases op) (simp_all only: trace_line_def image_instr_def prod.case enumerator_opcode Instruction.select_convs option.case OpCode.case
        OpCode.distinct simp_thms if_True if_False, simp_all)
qed

lemma trace_total:
  assumes "map ce_inst (cycleLog t) = map image_instr imgs"
    and "\<forall>(op, dp, bs) \<in> set imgs. op = SYNC \<or> 0x40000000 \<le> unat dp \<and> unat dp \<le> 0x40010000" and "can_write path"
  shows "\<exists>s. dumpTrace can_write path t = Inr s"
proof -
  have "\<exists>l. trace_line (cmodel_state t) (ce_inst e) = Inr l" if "e \<in> set (cycleLog t)" for e
  proof -
    have "ce_inst e \<in> set (map image_instr imgs)" using that unfolding assms(1) [symmetric] by simp
    then obtain op dp bs where i: "(op, dp, bs) \<in> set imgs" "ce_inst e = image_instr (op, dp, bs)" by auto
    show ?thesis unfolding i(2) by (rule trace_line_total) (use assms(2) i(1) in auto)
  qed
  then have "\<exists>s. fold_result (\<lambda>e txt. rbind (trace_line (cmodel_state t) (ce_inst e)) (\<lambda>l. Inr (txt @ l))) es acc = Inr s"
    if "set es \<subseteq> set (cycleLog t)" for es acc
    using that by (induction es arbitrary: acc) fastforce+
  then show ?thesis using assms(3) by (auto simp: dumpTrace_def)
qed

text \<open>The loads of \<open>main\<close> are those of eclipse-run for two input files.\<close>

lemma golden_loads:
  assumes "fs ''a'' = Some a" and "fs ''b'' = Some b" and "length a \<le> 0x10000" and "length b \<le> 0x10000"
  shows "\<exists>s1 s. writeDDR Simulator_init A_DDR a = Inr s1 \<and> writeDDR s1 B_DDR b = Inr s
    \<and> queue s = [] \<and> totalCycles s = 0 \<and> cycleLog s = [] \<and> sram_bytes (cmodel_state s) = (\<lambda>_. 0)
    \<and> (\<forall>k<2. \<forall>i<length (if k = 0 then a else b). ddr_bytes (cmodel_state s) (0x10000 * Suc k + i) = (if k = 0 then a else b) ! i)
    \<and> (\<forall>i. (\<forall>k<2. \<not> inside (0x10000 * Suc k) (length (if k = 0 then a else b)) i) \<longrightarrow> ddr_bytes (cmodel_state s) i = 0)"
proof -
  let ?argv = "[''matmul_golden'', ''x'', ''y'', ''a'', ''b'']"
  have "\<exists>sim. load_inputs fs ?argv Simulator_init = Inr sim \<and> sram_bytes (cmodel_state sim) = (\<lambda>_. 0)
    \<and> (\<forall>k<2. \<forall>i<length (if k = 0 then a else b). ddr_bytes (cmodel_state sim) (0x10000 * Suc k + i) = (if k = 0 then a else b) ! i)
    \<and> (\<forall>i. (\<forall>k<2. \<not> inside (0x10000 * Suc k) (length (if k = 0 then a else b)) i) \<longrightarrow> ddr_bytes (cmodel_state sim) i = 0)"
    by (rule inputs_loaded) (use assms in \<open>auto simp: less_2_cases_iff\<close>)
  then obtain s where s: "load_inputs fs ?argv Simulator_init = Inr s" "sram_bytes (cmodel_state s) = (\<lambda>_. 0)"
    "\<forall>k<2. \<forall>i<length (if k = 0 then a else b). ddr_bytes (cmodel_state s) (0x10000 * Suc k + i) = (if k = 0 then a else b) ! i"
    "\<forall>i. (\<forall>k<2. \<not> inside (0x10000 * Suc k) (length (if k = 0 then a else b)) i) \<longrightarrow> ddr_bytes (cmodel_state s) i = 0" by blast
  have "[3..<length ?argv] = [3, 4]" by (simp add: upt_rec)
  moreover have "rbind r (fold_result f []) = r" for r :: "simulator result" and f :: "nat \<Rightarrow> simulator \<Rightarrow> simulator result"
    by (cases r) simp_all
  ultimately have "load_inputs fs ?argv Simulator_init = rbind (writeDDR Simulator_init A_DDR a) (\<lambda>s1. writeDDR s1 B_DDR b)"
    using assms(1,2)
    by (cases "writeDDR Simulator_init (DDR_ADDR + 0x10000) a") (simp_all add: load_inputs_def A_DDR_def B_DDR_def)
  then have "rbind (writeDDR Simulator_init A_DDR a) (\<lambda>s1. writeDDR s1 B_DDR b) = Inr s" using s(1) by (simp only:)
  then obtain s1 where s1: "writeDDR Simulator_init A_DDR a = Inr s1" "writeDDR s1 B_DDR b = Inr s" by (auto simp: rbind_eq_Inr)
  then have "queue s = []" "totalCycles s = 0" "cycleLog s = []"
    by (auto simp: writeDDR_def rbind_eq_Inr Simulator_init_def)
  with s s1 show ?thesis by blast
qed

text \<open>The last instruction stores the accumulator: it holds the output.\<close>

lemma kernel_output:
  assumes k: "kernel_ok lt rt dt M N t"
  shows "tensor_bytes (run_ops C (k_flat lt rt dt M N t) T) (k_D M N) = tensor_bytes (run_ops C (k_flat lt rt dt M N t) T) (k_dst dt)"
proof -
  have sh: "mr_shape dt = [int M, int N]" using k by (simp add: kernel_ok_def)
  obtain front where front: "k_flat lt rt dt M N t = front @ k_tail dt M N" by (simp add: k_flat_def)
  define S where "S = run_ops C front T"
  have D: "root_of (k_D M N) = k_D M N" "root_index (k_D M N) js = js" for js by (simp_all add: k_values new_alloc_def)
  have d: "root_of (toDDR 5 (k_dst dt)) = k_dst dt" "k_dst dt \<noteq> k_D M N" by (simp_all add: k_values new_alloc_def)
  have T: "run_ops C (k_flat lt rt dt M N t) T = store S (toDDR 5 (k_dst dt)) (read S (k_D M N))"
    by (simp add: front k_tail_def S_def)
  have dims: "rows_of (k_dst dt) = M" "cols_of (k_dst dt) = N" "rows_of (k_D M N) = M" "cols_of (k_D M N) = N"
    by (simp_all add: rows_of_def cols_of_def k_values sh new_alloc_def packed_memref_def)
  have "store S (toDDR 5 (k_dst dt)) (read S (k_D M N)) (k_dst dt) [int i, int j] = S (k_D M N) [int i, int j]" if "i < M" "j < N" for i j
    using that unfolding store_def d fun_upd_same by (simp add: toDDR_def k_dst_def in_shape_def sh read_def D)
  moreover have "store S (toDDR 5 (k_dst dt)) (read S (k_D M N)) (k_D M N) = S (k_D M N)"
    using store_other d by metis
  moreover have "i div N < M \<and> i mod N < N" if "i < M * N" for i
    using that k by (simp add: kernel_ok_def div_less_iff_less_mult)
  ultimately show ?thesis unfolding T tensor_bytes_def dims
    by (intro arg_cong [where f = concat] map_cong refl) simp
qed

lemma golden_run:
  fixes a b :: "u8 list"
  defines "buf \<equiv> \<lambda>k :: nat. if k = 0 then a else b"
  assumes k: "kernel_ok lt rt dt 128 128 7" and len: "length a = 0x8000" "length b = 0x8000"
    and fs: "fs ''a'' = Some a" "fs ''b'' = Some b" and w: "can_write ''c''" "can_write ''golden.easm''"
  shows "\<exists>g. golden_main P fs can_write [''matmul_golden'', ''a'', ''b'', ''c''] = Inr g
    \<and> go_file g = tensor_bytes (run_ops (bit_chip P E) (k_flat lt rt dt 128 128 7) (file_tensors buf [k_lhs lt, k_rhs rt])) (k_dst dt)
    \<and> go_total g = 11536"
proof -
  define st where "st = golden_placement lt rt dt"
  define f where "f = replace_allocs (as_bufs st)"
  define V where "V = k_bufs lt rt dt 128 128"
  define T where "T = file_tensors buf [k_lhs lt, k_rhs rt]"
  define flat where "flat = golden_flat lt rt dt"
  define imgs where "imgs = product_images A_SRAM B_SRAM C_SRAM @ [(SYNC, 0, []), store_image C_SRAM]"
  note pl = golden_placement_simps(3) [of lt rt dt, folded st_def]
  obtain s1 s where s: "writeDDR Simulator_init A_DDR a = Inr s1" "writeDDR s1 B_DDR b = Inr s" "queue s = []" "totalCycles s = 0"
    "cycleLog s = []" "sram_bytes (cmodel_state s) = (\<lambda>_. 0)"
    and inp: "\<And>k i. k < 2 \<Longrightarrow> i < length (buf k) \<Longrightarrow> ddr_bytes (cmodel_state s) (0x10000 * Suc k + i) = buf k ! i"
    and zero: "\<And>i. (\<And>k. k < 2 \<Longrightarrow> \<not> inside (0x10000 * Suc k) (length (buf k)) i) \<Longrightarrow> ddr_bytes (cmodel_state s) i = 0"
    using golden_loads [of fs a b, OF fs] len unfolding buf_def by auto
  obtain g where g: "golden_program \<lparr>gd_sim = s, gd_slot = 0\<rparr> = Inr g" "all_placed imgs s (gd_sim g)"
    using golden_placed [of s] unfolding imgs_def by blast
  have V: "\<forall>v \<in> set V. placeable st v"
    unfolding V_def st_def by (rule kernel_placeable [OF k golden_placement_simps(2,1)])
  have dims: "rows_of (k_lhs lt) = 128" "cols_of (k_lhs lt) = 128" "rows_of (k_rhs rt) = 128" "cols_of (k_rhs rt) = 128"
    "rows_of (k_dst dt) = 128" "cols_of (k_dst dt) = 128" "rows_of (k_D 128 128) = 128" "cols_of (k_D 128 128) = 128"
    using k by (simp_all add: rows_of_def cols_of_def k_values kernel_ok_def new_alloc_def packed_memref_def)
  have T: "placed_tensors st V T (cmodel_state s)"
    unfolding T_def
  proof (rule files_placed)
    show "ddr_inv 0x7FFF st" unfolding st_def by (rule golden_ddr_inv)
    show "as_attrs st ([k_lhs lt, k_rhs rt] ! k) = Some (uint (slot k))" if "k < length [k_lhs lt, k_rhs rt]" for k
      using that golden_ddr_slots by (auto simp: less_2_cases_iff st_def golden_placement_simps(1) k_values numeral_2_eq_2 [symmetric])
    show "length (buf k) = 2 * (rows_of ([k_lhs lt, k_rhs rt] ! k) * cols_of ([k_lhs lt, k_rhs rt] ! k))" if "k < length [k_lhs lt, k_rhs rt]" for k
      using that len by (auto simp: less_2_cases_iff dims buf_def numeral_2_eq_2 [symmetric])
  qed (use V s(6) inp zero in \<open>auto simp: k_values V_def k_bufs_def numeral_2_eq_2 [symmetric]\<close>)
  note ok = golden_flat_ok [OF k, folded flat_def st_def V_def]
  from placed_names [OF golden_sram_inv [of lt rt dt, folded st_def] golden_ddr_inv [of lt rt dt, folded st_def] V ok(1) T ok(2) [where C = "bit_chip P E"]]
  obtain T' where L: "layout_ok (as_attrs st) (map f V)" and H: "holds (as_attrs st) (map f V) T' (cmodel_state s)"
    and ok': "\<forall>op \<in> set (map (map_values f) flat). op_ok is_buf (map f V) op" and div: "divisors_ok (bit_chip P E) (map (map_values f) flat) T'"
    and R: "renames (as_bufs st) V (run_ops (bit_chip P E) flat T) (run_ops (bit_chip P E) (map (map_values f) flat) T')"
    unfolding f_def [symmetric] by blast
  have images: "program_images (as_attrs st) (map (map_values f) flat) DESC_STARTADDR = imgs"
    using kernel_as_images [OF pl k, of "[SyncOp]"] by (simp add: f_def flat_def golden_flat_def imgs_def)
  have desc: "descriptors (map (map_values f) flat) \<le> 1020" using ok(3) by (simp only: descriptors_replaced)
  note low = images_low [where attrs = "as_attrs st", OF desc, unfolded images]
  have H': "holds (as_attrs st) (map f V) T' (cmodel_state (gd_sim g))"
    by (rule holds_kept [OF L H all_placed_effect(4) [OF g(2)] all_placed_effect(5) [OF g(2)]]) (use low(3) in blast)
  have q: "queue (gd_sim g) = map image_instr imgs" "totalCycles (gd_sim g) = 0" "cycleLog (gd_sim g) = []"
    using all_placed_effect(1-3) [OF g(2)] s(3-5) by simp_all
  have "unat DESC_STARTADDR + 0x40 * descriptors (map (map_values f) flat) \<le> 0x40010000"
    using desc by (simp add: DESC_STARTADDR_def DDR_ADDR_def)
  from program_simulates [of "as_attrs st" "map f V" T' "gd_sim g\<lparr>queue := []\<rparr>", OF L _ ok' div _ this] H' all_placed_there [OF g(2) low(1)]
  obtain t where t: "run_list P (map image_instr imgs) (gd_sim g\<lparr>queue := []\<rparr>) = Inr t"
    "holds (as_attrs st) (map f V) (run_ops (bit_chip P E) (map (map_values f) flat) T') (cmodel_state t)"
    "\<forall>cs. list_all2 costs imgs cs \<longrightarrow> totalCycles t = of_nat (sum_list cs)"
    unfolding images by (auto simp: q(2))
  have run: "run P (gd_sim g) = Inr t" using t(1) by (simp add: run_as_list q(1))
  have total: "totalCycles t = 11536"
    using product_costs [of A_SRAM B_SRAM C_SRAM 1] t(3) by (auto simp: imgs_def)
  have log: "map ce_inst (cycleLog t) = map image_instr imgs" using run_list_log [OF t(1)] q(3) by auto
  have "\<forall>(op, dp, bs) \<in> set imgs. op = SYNC \<or> 0x40000000 \<le> unat dp \<and> unat dp \<le> 0x40010000"
    using low(2) by fastforce
  from trace_total [where can_write = can_write and path = "''golden.easm''", OF log this w(2)] obtain trace where trace: "dumpTrace can_write ''golden.easm'' t = Inr trace" by blast
  have C: "f (k_D 128 128) = SramBuf 8 C_SRAM (packed_memref [128, 128] f16)" using kernel_placed_simps(6) [OF pl] by (simp add: f_def)
  have D: "k_D 128 128 \<in> set V" by (simp add: V_def k_bufs_def)
  have "is_buf (f (k_D 128 128))" "sbuf_addr (f (k_D 128 128)) = C_SRAM" by (simp_all add: C is_buf_def sbuf_addr_def)
  moreover have "rows_of (f (k_D 128 128)) = 128" "cols_of (f (k_D 128 128)) = 128" by (simp_all add: C rows_of_def cols_of_def packed_memref_def)
  ultimately obtain p where p: "sram C_SRAM = Inr p" "read_sram (cmodel_state t) p 0x8000
      = Inr (tensor_bytes (run_ops (bit_chip P E) (map (map_values f) flat) T') (f (k_D 128 128)))"
    using held_sram [OF L t(2), of "f (k_D 128 128)"] D by auto
  have "tensor_bytes (run_ops (bit_chip P E) (map (map_values f) flat) T') (f (k_D 128 128)) = tensor_bytes (run_ops (bit_chip P E) flat T) (k_D 128 128)"
    using bytes_renamed [OF R D] by (simp only: f_def)
  also have "\<dots> = tensor_bytes (run_ops (bit_chip P E) (k_flat lt rt dt 128 128 7) T) (k_D 128 128)" unfolding flat_def golden_flat_runs ..
  also have "\<dots> = tensor_bytes (run_ops (bit_chip P E) (k_flat lt rt dt 128 128 7) T) (k_dst dt)" by (rule kernel_output [OF k])
  finally have "read_sram (cmodel_state t) p 0x8000 = Inr (tensor_bytes (run_ops (bit_chip P E) (k_flat lt rt dt 128 128 7) T) (k_dst dt))"
    using p(2) by simp
  with s(1,2) g(1) run trace total p(1) fs w show ?thesis
    unfolding T_def by (simp add: golden_main_def readFile_def DTYPE_SIZE_def)
qed

section \<open>The layout golden-mirror\<close>

lemma golden_mirror_addresses:
  "golden_matmul (k_L 128) (k_R 128) (k_D 128 128) m = m(k_L 128 \<mapsto> A_SRAM, k_R 128 \<mapsto> B_SRAM, k_D 128 128 \<mapsto> C_SRAM)"
  by (simp add: golden_matmul_def k_values new_alloc_def byte_size_def num_elements_def packed_memref_def f16_def Let_def
      A_SRAM_def B_SRAM_def C_SRAM_def SRAM_ADDR_def DTYPE_SIZE_def)

lemma golden_tile_layout:
  "fold golden_step (k_tile lt rt 128 128 n acc ik) m = m(k_L 128 \<mapsto> A_SRAM, k_R 128 \<mapsto> B_SRAM, k_D 128 128 \<mapsto> C_SRAM)"
  by (simp add: k_tile_def matmul_tile_def Let_def golden_mirror_addresses)

lemma golden_kernel_layout:
  "goldenLayout True (k_ops lt rt dt 128 128 7) = [k_L 128 \<mapsto> A_SRAM, k_R 128 \<mapsto> B_SRAM, k_D 128 128 \<mapsto> C_SRAM]"
proof -
  have "fold golden_step (k_loop lt rt 128 128 7) m = m(k_L 128 \<mapsto> A_SRAM, k_R 128 \<mapsto> B_SRAM, k_D 128 128 \<mapsto> C_SRAM)" for m
    by (simp add: k_loop_def fold_map [of id golden_step, unfolded comp_def id_apply, symmetric]) (simp add: comp_def golden_tile_layout fold_map)
  moreover have "fold golden_step (k_head lt rt dt 128 128) m = m" "fold golden_step (k_tail dt 128 128) m = m" for m
    by (simp_all add: k_head_def k_tail_def)
  ultimately show ?thesis
    by (simp add: goldenLayout_def k_ops_def golden_tile_layout)
qed

lemma golden_mirror_allocated:
  assumes "st = eclipse_allocate alignTo True [[(k_lhs lt, True), (k_rhs rt, True)]] (k_ops lt rt dt 128 128 7)"
  shows "as_bufs st = [k_L 128 \<mapsto> A_SRAM, k_R 128 \<mapsto> B_SRAM, k_D 128 128 \<mapsto> C_SRAM]"
    and "as_attrs st = [k_lhs lt \<mapsto> 0x40010000, k_rhs rt \<mapsto> 0x40020000, k_dst dt \<mapsto> 0x40030000]"
    and "\<not> as_failed st"
proof -
  define ops where "ops = k_ops lt rt dt 128 128 7"
  define G where "G = [k_L 128 \<mapsto> A_SRAM, k_R 128 \<mapsto> B_SRAM, k_D 128 128 \<mapsto> C_SRAM]"
  note sr = kernel_is_sram(1-3) [of lt rt dt 128 128 7, folded ops_def]
  have ne: "A_SRAM \<noteq> 0" "B_SRAM \<noteq> 0" "C_SRAM \<noteq> 0" using golden_sram by (auto dest: arg_cong [where f = unat])
  have one: "alloc_one alignTo G ops (Define (new_alloc n ty)) s = s\<lparr>as_bufs := (as_bufs s)(new_alloc n ty \<mapsto> a)\<rparr>"
    if "is_sram ops (new_alloc n ty) ty" "G (new_alloc n ty) = Some a" "a \<noteq> 0" for n ty a s
    using that by (simp add: alloc_one_def new_alloc_def Let_def)
  have G: "G (k_L 128) = Some A_SRAM" "G (k_R 128) = Some B_SRAM" "G (k_D 128 128) = Some C_SRAM"
    by (simp_all add: G_def k_values new_alloc_def)
  have "st = fold (alloc_one alignTo G ops) [Define (k_L 128), Define (k_R 128), Define (k_D 128 128)] (k_start lt rt dt)"
    unfolding assms kernel_pass golden_kernel_layout G_def ops_def ..
  also have "\<dots> = (k_start lt rt dt)\<lparr>as_bufs := [k_L 128 \<mapsto> A_SRAM, k_R 128 \<mapsto> B_SRAM, k_D 128 128 \<mapsto> C_SRAM]\<rparr>"
    using one [OF sr(1) [unfolded k_L_def] G(1) [unfolded k_L_def] ne(1)] one [OF sr(2) [unfolded k_R_def] G(2) [unfolded k_R_def] ne(2)]
      one [OF sr(3) [unfolded k_D_def] G(3) [unfolded k_D_def] ne(3)]
    by (simp add: k_L_def k_R_def k_D_def k_start_def)
  finally show "as_bufs st = [k_L 128 \<mapsto> A_SRAM, k_R 128 \<mapsto> B_SRAM, k_D 128 128 \<mapsto> C_SRAM]"
    "as_attrs st = [k_lhs lt \<mapsto> 0x40010000, k_rhs rt \<mapsto> 0x40020000, k_dst dt \<mapsto> 0x40030000]" "\<not> as_failed st"
    by (simp_all add: k_start_def)
qed

section \<open>Properties\<close>

text \<open>
  C7. The hand-written program and the compiler agree: for the product of two 128 x 128 matrices,
  from any two files of fp16 words, eclipse-run on the compiled text and matmul_golden end without
  an error, leave the same output file bit for bit, and both account 11536 cycles.
\<close>

theorem golden_agrees_with_compiler:
  assumes "number_format (fmt_hex F) (fmt_dec F)" and "align_to alignTo"
    and "kernel_ok lt rt dt 128 128 7" and "matmul_kernel lt rt dt = Inr ops"
    and "st = eclipse_allocate alignTo False [[(k_lhs lt, True), (k_rhs rt, True)]] ops"
    and "prog = map (map_values (replace_allocs (as_bufs st))) ops" and "unroll prog = Some (unrolled prog)"
    and "length a = 0x8000" and "length b = 0x8000"
  shows "\<exists>text next. eclipse_to_easm F (as_attrs st) unroll True prog = Inr (text, next)
    \<and> (\<forall>fs can_write. fs ''a'' = Some a \<longrightarrow> fs ''b'' = Some b \<longrightarrow> fs ''easm'' = Some (map of_char text) \<longrightarrow>
        can_write ''c'' \<longrightarrow> can_write ''golden.easm'' \<longrightarrow>
        (\<exists>out g c. eclipse_run P fs can_write [''eclipse-run'', ''easm'', ''c'', ''a'', ''b''] = Inr out
          \<and> exit_code out = 0 \<and> out_file out = Some c \<and> printed_cycles out = 11536
          \<and> golden_main P fs can_write [''matmul_golden'', ''a'', ''b'', ''c''] = Inr g \<and> go_file g = c \<and> go_total g = 11536))"
proof -
  define buf where "buf = (\<lambda>k :: nat. if k = 0 then a else b)"
  define c where "c = tensor_bytes (run_ops (bit_chip P demo_env) (k_flat lt rt dt 128 128 7) (file_tensors buf [k_lhs lt, k_rhs rt])) (k_dst dt)"
  define flat where "flat = map (map_values (replace_allocs (as_bufs st))) (k_flat lt rt dt 128 128 7)"
  note k = assms(3)
  have st: "st = eclipse_allocate alignTo False [[(k_lhs lt, True), (k_rhs rt, True)]] (k_ops lt rt dt 128 128 7)"
    using assms(4,5) kernel_lowered [OF k] by (simp add: k_ops_def)
  from kernel_allocated(1,2) [OF k assms(2) st] obtain p q r where pl: "kernel_placed lt rt dt p q r (as_attrs st) (as_bufs st)"
    by (auto simp: kernel_placed_def)
  have "program_images (as_attrs st) flat DESC_STARTADDR = product_images p q r @ [store_image r]"
    using kernel_as_images [OF pl k, of "[]"] by (simp add: flat_def flat_front)
  then obtain cs where cs: "list_all2 costs (program_images (as_attrs st) flat DESC_STARTADDR) cs" "sum_list cs = 11536"
    using product_costs [of p q r 0] by auto
  have len: "length a = 2 * (128 * (16 * Suc 7))" "length b = 2 * (16 * Suc 7 * 128)" using assms(8,9) by simp_all
  from kernel_run [where P = P and E = demo_env and prog = prog and unroll = unroll, OF assms(1,2,3) refl assms(4-7) len, folded buf_def flat_def, folded c_def]
  obtain easm nxt where e: "eclipse_to_easm F (as_attrs st) unroll True prog = Inr (easm, nxt)"
    and run: "\<forall>fs can_write. fs ''a'' = Some a \<longrightarrow> fs ''b'' = Some b \<longrightarrow> fs ''easm'' = Some (map of_char easm) \<longrightarrow> can_write ''c'' \<longrightarrow>
      (\<exists>out. eclipse_run P fs can_write [''eclipse-run'', ''easm'', ''c'', ''a'', ''b''] = Inr out \<and> exit_code out = 0 \<and> out_file out = Some c
        \<and> (\<forall>cs. list_all2 costs (program_images (as_attrs st) flat DESC_STARTADDR) cs \<longrightarrow> printed_cycles out = of_nat (sum_list cs)))"
    by (elim exE conjE)
  show ?thesis
  proof (intro exI [of _ easm] exI [of _ nxt] conjI allI impI e)
    fix fs can_write assume w: "fs ''a'' = Some a" "fs ''b'' = Some b" "fs ''easm'' = Some (map of_char easm)" "can_write ''c''" "can_write ''golden.easm''"
    from run [rule_format, of fs can_write, OF w(1-4)] obtain out where
      "eclipse_run P fs can_write [''eclipse-run'', ''easm'', ''c'', ''a'', ''b''] = Inr out" "exit_code out = 0" "out_file out = Some c"
      "printed_cycles out = of_nat (sum_list cs)" using cs(1) by blast
    moreover from golden_run [where P = P and E = demo_env and fs = fs and can_write = can_write, OF k assms(8,9) w(1,2,4,5), folded buf_def, folded c_def]
    obtain g where "golden_main P fs can_write [''matmul_golden'', ''a'', ''b'', ''c''] = Inr g" "go_file g = c" "go_total g = 11536" by blast
    ultimately show "\<exists>out g c. eclipse_run P fs can_write [''eclipse-run'', ''easm'', ''c'', ''a'', ''b''] = Inr out
          \<and> exit_code out = 0 \<and> out_file out = Some c \<and> printed_cycles out = 11536
          \<and> golden_main P fs can_write [''matmul_golden'', ''a'', ''b'', ''c''] = Inr g \<and> go_file g = c \<and> go_total g = 11536"
      using cs(2) by auto
  qed
qed

text \<open>Two files of zeros.\<close>

definition square_ty :: memref where "square_ty = packed_memref [128, 128] f16"
definition zeros_file :: "u8 list" where "zeros_file = replicate 0x8000 0"

lemma square_kernel: "kernel_ok square_ty square_ty square_ty 128 128 7"
  by (simp add: kernel_ok_def square_ty_def packed_memref_def)

theorem golden_agrees_with_compiler_witness:
  "\<exists>text out g. eclipse_run sample_platform
       (\<lambda>p. if p = ''easm'' then Some (map of_char text) else Some zeros_file) (\<lambda>_. True)
       [''eclipse-run'', ''easm'', ''c'', ''a'', ''b''] = Inr out
    \<and> golden_main sample_platform
       (\<lambda>p. if p = ''easm'' then Some (map of_char text) else Some zeros_file) (\<lambda>_. True)
       [''matmul_golden'', ''a'', ''b'', ''c''] = Inr g
    \<and> out_file out = Some (go_file g) \<and> printed_cycles out = 11536 \<and> go_total g = 11536"
proof -
  obtain ops where ops: "matmul_kernel square_ty square_ty square_ty = Inr ops" using kernel_lowered [OF square_kernel] by blast
  have f: "number_format (fmt_hex c_formatter) (fmt_dec c_formatter)" using c_emitter.emitter_axioms by (simp add: emitter_def)
  define st where "st = eclipse_allocate round_up False [[(k_lhs square_ty, True), (k_rhs square_ty, True)]] ops"
  define prog where "prog = map (map_values (replace_allocs (as_bufs st))) ops"
  have len: "length zeros_file = 0x8000" by (simp add: zeros_file_def)
  have un: "(Some \<circ> unrolled) prog = Some (unrolled prog)" by simp
  from golden_agrees_with_compiler [where P = sample_platform and F = c_formatter and unroll = "Some \<circ> unrolled", OF f round_up.align_to_axioms square_kernel ops st_def prog_def un len len]
  obtain easm where e: "\<forall>fs can_write. fs ''a'' = Some zeros_file \<longrightarrow> fs ''b'' = Some zeros_file \<longrightarrow> fs ''easm'' = Some (map of_char easm) \<longrightarrow>
        can_write ''c'' \<longrightarrow> can_write ''golden.easm'' \<longrightarrow>
        (\<exists>out g c. eclipse_run sample_platform fs can_write [''eclipse-run'', ''easm'', ''c'', ''a'', ''b''] = Inr out
          \<and> exit_code out = 0 \<and> out_file out = Some c \<and> printed_cycles out = 11536
          \<and> golden_main sample_platform fs can_write [''matmul_golden'', ''a'', ''b'', ''c''] = Inr g \<and> go_file g = c \<and> go_total g = 11536)"
    by (elim exE conjE)
  let ?fs = "\<lambda>p. if p = ''easm'' then Some (map of_char easm) else Some zeros_file"
  have files: "?fs ''a'' = Some zeros_file" "?fs ''b'' = Some zeros_file" "?fs ''easm'' = Some (map of_char easm)" by simp_all
  from e [rule_format, OF files, of "\<lambda>_. True"] show ?thesis by (intro exI [of _ easm]) auto
qed

text \<open>
  C20. In the layout golden-mirror the compiler emits the descriptors of the hand-written program,
  at the same addresses and in the same order; the instruction streams differ in one place, a
  second SYNC before the store, which only the hand-written program has.
\<close>

theorem golden_mirror_schedule:
  assumes "kernel_ok lt rt dt 128 128 7" and "matmul_kernel lt rt dt = Inr ops"
    and "st = eclipse_allocate alignTo True [[(k_lhs lt, True), (k_rhs rt, True)]] ops"
    and "imgs = program_images (as_attrs st) (map (map_values (replace_allocs (as_bufs st))) (unrolled ops)) DESC_STARTADDR"
  shows "length imgs = 41 \<and> \<not> as_failed st \<and> (\<exists>g. golden_program \<lparr>gd_sim = s, gd_slot = 0\<rparr> = Inr g
    \<and> queue (gd_sim g) = queue s @ map image_instr (butlast imgs @ (SYNC, 0, []) # [last imgs])
    \<and> (\<forall>img \<in> set imgs. in_ddr (cmodel_state (gd_sim g)) img))"
proof -
  note k = assms(1)
  have st: "st = eclipse_allocate alignTo True [[(k_lhs lt, True), (k_rhs rt, True)]] (k_ops lt rt dt 128 128 7)"
    using assms(2,3) kernel_lowered [OF k] by (simp add: k_ops_def)
  note al = golden_mirror_allocated [OF st]
  have pl: "kernel_placed lt rt dt A_SRAM B_SRAM C_SRAM (as_attrs st) (as_bufs st)" using al(1,2) by (simp add: kernel_placed_def)
  define f where "f = map (map_values (replace_allocs (as_bufs st)))"
  have i: "imgs = product_images A_SRAM B_SRAM C_SRAM @ [store_image C_SRAM]"
    using kernel_as_images [OF pl k, of "[]"] by (simp add: assms(4) kernel_unrolled [OF k assms(2)] flat_front)
  have j: "program_images (as_attrs st) (f (golden_flat lt rt dt)) DESC_STARTADDR
      = product_images A_SRAM B_SRAM C_SRAM @ [(SYNC, 0, []), store_image C_SRAM]"
    using kernel_as_images [OF pl k, of "[SyncOp]"] by (simp add: f_def golden_flat_def)
  have "descriptors (f (golden_flat lt rt dt)) \<le> 1020" using golden_flat_ok(3) [OF k] by (simp add: f_def descriptors_replaced)
  note apart = images_low(1) [where attrs = "as_attrs st", OF this, unfolded j]
  obtain g where g: "golden_program \<lparr>gd_sim = s, gd_slot = 0\<rparr> = Inr g"
    "all_placed (product_images A_SRAM B_SRAM C_SRAM @ [(SYNC, 0, []), store_image C_SRAM]) s (gd_sim g)"
    using golden_placed [of s] by blast
  have "\<forall>img \<in> set imgs. in_ddr (cmodel_state (gd_sim g)) img" using all_placed_there [OF g(2) apart] by (simp add: i)
  moreover have "length imgs = 41"
    by (simp add: i product_images_def length_concat tile_images_def Let_def comp_def upt_rec)
  moreover have "queue (gd_sim g) = queue s @ map image_instr (butlast imgs @ (SYNC, 0, []) # [last imgs])"
    using all_placed_effect(1) [OF g(2)] by (simp add: i)
  ultimately show ?thesis using g(1) al(3) by blast
qed

theorem golden_mirror_schedule_witness:
  "\<exists>ops imgs g. matmul_kernel square_ty square_ty square_ty = Inr ops
    \<and> imgs = program_images (as_attrs (eclipse_allocate round_up True [[(k_lhs square_ty, True), (k_rhs square_ty, True)]] ops))
        (map (map_values (replace_allocs (as_bufs (eclipse_allocate round_up True [[(k_lhs square_ty, True), (k_rhs square_ty, True)]] ops))))
          (unrolled ops)) DESC_STARTADDR
    \<and> length imgs = 41 \<and> golden_program \<lparr>gd_sim = Simulator_init, gd_slot = 0\<rparr> = Inr g \<and> length (queue (gd_sim g)) = 42
    \<and> (\<forall>img \<in> set imgs. in_ddr (cmodel_state (gd_sim g)) img)"
proof -
  obtain ops where ops: "matmul_kernel square_ty square_ty square_ty = Inr ops" using kernel_lowered [OF square_kernel] by blast
  from golden_mirror_schedule [where alignTo = round_up and s = Simulator_init, OF square_kernel ops refl refl]
  show ?thesis using ops by (auto simp: Simulator_init_def)
qed

end
