(* ===== verification/Spec2Isabelle.thy ===== *)
theory Spec2Isabelle
  imports Simulator Elide Executed RtlPipe RtlXbarBench RtlCModel GoldenMatch
begin

text \<open>
  EclipseNPU is a compiler from linalg on memrefs to the instructions of an NPU, and a functional
  simulator of that NPU.  A program goes through five stages:

    linalg --ConvertLinalgToEclipse--> eclipse dialect --EclipseElideCopies--> eclipse dialect
    --EclipseAllocate--> addresses in SRAM and DDR --EclipseToEasm--> a text of instructions
    --eclipse-run--> descriptors and instructions in the memory of the simulator, executed by CModel.

  The theories follow the code, from the chip upwards.

  The chip (src/runtime).  \<open>Prelude\<close> has the errors (an assertion, an exit code, a null
  dereference are values of \<open>error\<close>; every fallible function returns \<open>error + 'a\<close>) and the folds that
  stand for counted loops.  \<open>Rounding\<close>, \<open>Dtype\<close> (include/dtype.h) and \<open>FloatOps\<close> are the number
  formats: fp16 and bf16 conversions bit by bit, and IEEE \<open>float\<close>/\<open>double\<close> operations as exact results
  rounded to nearest even; what C++ leaves to the machine (the NaN an operation returns, \<open>expf\<close>) is
  the record \<open>platform\<close>.  \<open>Isa\<close> (include/eclipse_isa.h) has the memory map, the enumerations and the
  five descriptors with their bytes; \<open>ByteMemory\<close> and \<open>CModel\<close> (cmodel.h, cmodel.cpp) the SRAM and the
  DDR as byte memories with checked addresses.  \<open>ExecDma\<close>, \<open>ExecMatmul\<close>, \<open>ExecEwise\<close>, \<open>ExecAct\<close>,
  \<open>ExecReduce\<close> and \<open>Exec\<close> are cmodel_exec.cpp, one theory per handler: the handler as it is written,
  with 32-bit addresses, its assertions and its loops, and what it computes when the operands fit.
  \<open>Cycles\<close> is cmodel_cycles.cpp, \<open>Simulator\<close> simulator.h and simulator.cpp: the queue, the loop and
  the log.

  The runner (src/tools/eclipse-run.cpp).  \<open>CText\<close> has strtoul and strtol with base 0, \<open>Easm\<close> the
  parser (the buffer of \<open>fgets\<close> included: a line longer than 4095 characters is cut), \<open>Runner\<close> the main
  function: inputs, the descriptor of each line, the run, the output.

  The compiler (src/compiler).  \<open>Ir\<close> is the part of MLIR's data the passes use: a value carries the
  operation that defines it, a tag makes it unique.  \<open>Dialect\<close> has the verifiers of lib/Dialect/Eclipse/Ops;
  \<open>Lowering\<close> the patterns of lib/Conversion/ConvertLinalgToEclipse, as functions from an operation to
  the list of operations the pattern builds, or \<open>None\<close> for a failed match; \<open>Elide\<close> the pass
  EclipseElideCopies; \<open>Allocate\<close> SramAllocator and EclipseAllocate; \<open>Emit\<close> EclipseToEasm and its helpers.

  What is proved.  For the chip: each handler computes its mathematical function on fp16 elements
  and touches nothing else (matrix product for every transposition, broadcast, reductions with the
  first index of the maximum, strided copies), exactly on integers in range; conversions are
  correctly rounded; \<open>run\<close> is the execution of the queued instructions in order with the sum of
  their cycles; the cycle counts equal their block-by-block specification.  For the runner and the
  emitter: printing and parsing are inverse, and the emitted descriptors do not overlap up to 1020 of them and
  meet the first tensor from there on (\<open>EmitRead\<close>).  For the compiler: \<open>Tensors\<close> gives operations a meaning on tensors,
  with the arithmetic of the chip as a parameter; \<open>Chip\<close> instantiates it with the arithmetic of the
  execution handlers; \<open>LoweringSem\<close> and \<open>LoweringCorrect\<close> show that the patterns compute what the
  linalg operation computes; \<open>LoweringTypes\<close> when what they build passes the verifiers; \<open>Elide\<close> under
  which conditions forwarding a buffer and erasing a store are sound, and two modules on which the pass is not;
  \<open>Allocate\<close> that buffers do not overlap.

  For the whole.  \<open>Refine\<close> relates the memories of the simulator to tensors: a buffer with an address
  holds a matrix of fp16, and executing the instruction of an operation simulates its step on tensors,
  bit for bit (\<open>bit_chip\<close>), so that a program whose buffers fit runs to its end.  \<open>Compiled\<close> adds the
  emitter and eclipse-run, \<open>Placed\<close> the allocation pass, \<open>Module\<close> the files: eclipse-run on the text of
  a module and the files of its arguments writes the tensor that the operations compute.  What the
  hypotheses ask of the module is in \<open>op_ok\<close> (verified operations on placed buffers, DMA blocks at 16
  bytes, no ARGMAX, results apart from the operands that the chip still reads), \<open>placeable\<close> (a matrix
  of fp16, in a DDR slot of 64 KiB when it is not in SRAM), at most 1020 descriptors, and divisors that
  are not zero.  \<open>Executed\<close> asks for none of this: for any program text and any input files it states
  the memory that the run starts from, the instructions that are run, and how the exit code, the
  cycles and the output file follow from the state the run ends in.  \<open>Kernel\<close> discharges all of them for linalg.matmul: from
  the linalg operation to the file with the integer product, for every size that fits (K up to 5424).

  The reference program (src/tests/golden/matmul_golden.cpp).  \<open>Golden\<close> is the product of two 128 x 128
  matrices written by hand for the simulator, its trace and its output file.  \<open>GoldenImages\<close> has the
  descriptors that it and the compiled kernel put in place, tile by tile, and what each instruction
  costs; \<open>GoldenMatch\<close> shows that both leave the same file in 11536 cycles, and that in the layout
  golden-mirror their schedules differ by one SYNC.

  The hardware (src/rtl).  \<open>Rtl\<close> is a SystemVerilog module as its C++ test bench sees it: inputs that the
  bench sets, registers, and \<open>eval\<close>, which applies the \<open>always_ff\<close> blocks when the clock has risen; wires
  and outputs are functions of inputs and registers, and what the registers and memories hold at the
  start is a parameter.  \<open>RtlPipe\<close> has pip/pipe_slice.sv, a queue of two places, and pip/counter.sv;
  \<open>RtlSram\<close> bank/sram.sv and bank/bank_mem.sv; \<open>RtlXbar\<close> bank/bank_xbar.sv, the 32 slots in front of the
  banks with their lowest-index arbiters; \<open>RtlXbarBench\<close> its bench, whose loops end because each round
  serves every bank that is asked for; \<open>RtlDma\<close> dma/dma.sv.  The benches are in the theories of their
  modules, that of the engine in \<open>RtlDmaBench\<close>.  \<open>RtlDmaBursts\<close> shows that the burst arithmetic walks over
  the rows without a gap, \<open>RtlDmaData\<close> that the pipeline writes the words of a burst to their places,
  \<open>RtlDmaRun\<close> that a cycle of the bench keeps the invariant that relates words requested, in flight and
  written to the words of the descriptor, and \<open>RtlDmaMain\<close> that a case ends with the reference image, in
  \<open>ceil(bursts / 2) + 7\<close> cycles.  \<open>RtlCModel\<close> puts the engine next to the runtime: the same words as
  execDmaLoad, and the cycles of cyclesDma less nine.

  Interfaces.  Locales state what one part assumes of another and are interpreted on the model:
  byte memories (\<open>ByteMemory\<close>), the rounding of a format (\<open>Rounding\<close>), the printer of numbers that
  the parser can read back (\<open>number_format\<close> in \<open>Emit\<close>), \<open>llvm::alignTo\<close> (\<open>align_to\<close> in \<open>Allocate\<close>),
  a chip whose addition and multiplication commute (\<open>commuting_chip\<close> in \<open>LoweringSem\<close>), and one whose
  dot products are exact on small integers (\<open>integer_chip\<close> in \<open>Chip\<close>).
  \<open>registered_memory\<close> in \<open>RtlSram\<close> is the contract of a clocked memory, kept by one bank, by the 32 banks
  and by the crossbar in front of them, for either address map.

  Bounds.  Loops are folds over their range or recursive functions with a measure.  The loop of
  execDmaStore, which reads its own bound from DDR in every round, and the normalisation of fp16 are
  data-dependent; both are total functions.  The loops of the crossbar bench end only when the hardware
  grants: they are partial functions, and \<open>run_reads_takes_the_crowd\<close> shows that they return.  The guard of
  200000 rounds in tb_dma.cpp is part of that program; transfers of up to 399000 bursts, two per round,
  end before it.

  Not modelled.  Wave dumps and printing of the test benches and the code that Verilator generates, for
  which the clock edges of the SystemVerilog sources stand; the DMA engine has no store direction in
  the sources.  What matmul_golden prints, the Python scripts, the registration code of
  eclipse-opt and the generated parts of the dialect.  Of MLIR: the greedy or conversion driver
  (the patterns are applied once to each operation), full unrolling of loops and folding (a
  parameter \<open>unroll\<close> of the emitter, which \<open>Kernel\<close> takes to be \<open>unrolled\<close>), and the bufferization before
  the first pass.
\<close>

section \<open>The lowering of linalg.reduce against the emitter\<close>

text \<open>
  C40. The result of lowering linalg.reduce cannot be emitted: its store goes to a cast of an
  expanded shape, and emitDmaStoreOp dereferences the null allocation it expects there.
\<close>

theorem linalg_reduce_not_emitted:
  assumes "NamedReduceLowering n [MemOperand src] [MemOperand init] dims y = Some ops"
  shows "\<exists>s d. DmaStoreOp s d \<in> set ops \<and> (\<forall>buf da. emitDmaStoreOp F attrs buf d da = Inl NullDeref)"
proof -
  from assms obtain t kind where "ops = Define (ExpandRes n init t) # lowerReduce (n + 1) src (ExpandRes n init t) kind"
    by (auto simp: NamedReduceLowering_def operand_memref_def Let_def split: if_splits option.splits)
  then have "DmaStoreOp (new_alloc (n + 1 + 3) (sramTypeOf (ExpandRes n init t))) (toDDR (n + 1 + 1) (ExpandRes n init t)) \<in> set ops"
    by (simp add: lowerReduce_def Let_def)
  moreover have "emitDmaStoreOp F attrs buf (toDDR (n + 1 + 1) (ExpandRes n init t)) da = Inl NullDeref" for buf da
    by (simp add: emitDmaStoreOp_def toDDR_def)
  ultimately show ?thesis by blast
qed

definition sample_vector :: ir_value where
  "sample_vector = BlockArg 1 (packed_memref [2] f16)"

theorem linalg_reduce_not_emitted_witness:
  "\<exists>ops s d. NamedReduceLowering 2 [MemOperand (sample_arg 0 [2, 2])] [MemOperand sample_vector] [1]
      (BodyOp True AddF [BodyArg 0, BodyArg 1]) = Some ops
    \<and> DmaStoreOp s d \<in> set ops \<and> emitDmaStoreOp c_formatter (\<lambda>v. None) s d 0 = Inl NullDeref"
proof -
  obtain ops where ops: "NamedReduceLowering 2 [MemOperand (sample_arg 0 [2, 2])] [MemOperand sample_vector] [1]
      (BodyOp True AddF [BodyArg 0, BodyArg 1]) = Some ops"
    by (simp add: NamedReduceLowering_def operand_memref_def matchReduceBody_def has_static_shape_def kDynamic_def
        sample_vector_def sample_arg_def packed_memref_def Let_def)
  from linalg_reduce_not_emitted [OF ops, of c_formatter "\<lambda>v. None"] ops show ?thesis by blast
qed

end
